(* ===== verification/Prelude.thy ===== *)
theory Prelude
  imports Main "HOL-Library.Word" "HOL-Library.Product_Lexorder"
begin

section \<open>Prelude: base types, outcomes, maps and runs\<close>

text \<open>
  The types and generic lemmas every component shares.

  \<^item> \<^verbatim>\<open>Id = usize\<close>, \<^verbatim>\<open>Round = u64\<close>, heights, epochs, nonces and byte counts are
    \<open>nat\<close>: the code increments and compares them and subtracts under a guard (or with
    \<^verbatim>\<open>saturating_sub\<close>, which is \<open>nat\<close> subtraction). A counter that starts at 0 or 1 and goes up by
    one per event stays in 64 bits. Where the operand comes from a peer, or from a setting, the result
    goes through \<open>u64\<close>: what does not fit is a panic in a build with overflow checks (the default of
    the \<^verbatim>\<open>Makefile\<close>'s debug build) and wraps around in a release build.
  \<^item> \<^verbatim>\<open>Hash<T>\<close> is a \<^verbatim>\<open>[u8; 32]\<close> newtype over a phantom type, so it is a 256-bit word here.
  \<^item> A \<^verbatim>\<open>Result\<close>-returning function that may also panic returns an \<open>outcome\<close>; the
    \<^verbatim>\<open>?\<close> operator is \<open>bind_o\<close>, or \<open>bind_s\<close> for a handler that mutates a state.
  \<^item> \<^verbatim>\<open>FnvHashMap\<close> (the standard library's \<^verbatim>\<open>HashMap\<close>) is a partial function.
\<close>

text \<open>Statements over all keys stay quantified over keys, not over their components.\<close>

declare split_paired_All [simp del] split_paired_Ex [simp del]

type_synonym node_id = nat
type_synonym round = nat
type_synonym nonce = nat
type_synonym digest = "256 word"
type_synonym bytes = "8 word list"
type_synonym socket_addr = "nat \<times> nat"

definition START_ID :: node_id where
  "START_ID = 0"

definition EMPTY_HASH :: digest where
  "EMPTY_HASH = 0"

named_theorems state_simps \<open>unfolding rules for the small state operations\<close>
named_theorems inv_intros \<open>preservation rules of the component invariants\<close>

subsection \<open>Outcomes\<close>

datatype error =
    UnknownId node_id
  | IdMismatch
  | SigVerificationFailed
  | SignError
  | StorageError
  | DecodeError
  | ChannelClosed
  | UnknownProposalSigner
  | ProposerBatchMissing
  | NotInConfig node_id
  | AddrParseError
  | KeyDecodeError
  | ConfigError

datatype 'a outcome = Ok 'a | Err error | Panic

definition bind_o :: "'a outcome \<Rightarrow> ('a \<Rightarrow> 'b outcome) \<Rightarrow> 'b outcome" where
  "bind_o r k = (case r of Ok a \<Rightarrow> k a | Err e \<Rightarrow> Err e | Panic \<Rightarrow> Panic)"

definition bind_s ::
  "('s \<Rightarrow> 'a outcome \<times> 's) \<Rightarrow> ('a \<Rightarrow> 's \<Rightarrow> 'b outcome \<times> 's) \<Rightarrow> 's \<Rightarrow> 'b outcome \<times> 's" where
  "bind_s m k s = (case m s of
     (Ok a, s') \<Rightarrow> k a s' | (Err e, s') \<Rightarrow> (Err e, s') | (Panic, s') \<Rightarrow> (Panic, s'))"

definition ok_or :: "error \<Rightarrow> 'a option \<Rightarrow> 'a outcome" where
  "ok_or e x = (case x of None \<Rightarrow> Err e | Some a \<Rightarrow> Ok a)"

definition of_result :: "error + 'a \<Rightarrow> 'a outcome" where
  "of_result r = (case r of Inl e \<Rightarrow> Err e | Inr a \<Rightarrow> Ok a)"

lemma bind_o_simps [simp]:
  "bind_o (Ok a) k = k a" "bind_o (Err e) k = Err e" "bind_o Panic k = Panic"
  by (simp_all add: bind_o_def)

lemma ok_or_simps [simp]: "ok_or e None = Err e" "ok_or e (Some a) = Ok a"
  by (simp_all add: ok_or_def)

lemma of_result_simps [simp]: "of_result (Inl e) = Err e" "of_result (Inr a) = Ok a"
  by (simp_all add: of_result_def)

lemma bind_o_Ok_iff: "bind_o r k = Ok b \<longleftrightarrow> (\<exists>a. r = Ok a \<and> k a = Ok b)"
  by (cases r) auto

lemma of_result_not_Panic [simp]: "of_result r \<noteq> Panic"
  by (cases r) auto

lemma ok_or_not_Panic [simp]: "ok_or e x \<noteq> Panic"
  by (cases x) auto

lemma bind_s_Ok: "m s = (Ok a, s') \<Longrightarrow> bind_s m k s = k a s'"
  by (simp add: bind_s_def)

lemma bind_s_Err: "m s = (Err e, s') \<Longrightarrow> bind_s m k s = (Err e, s')"
  by (simp add: bind_s_def)

text \<open>A result of 64-bit arithmetic; \<open>checked\<close> says whether the build checks for overflow.\<close>

definition u64 :: "bool \<Rightarrow> nat \<Rightarrow> nat outcome" where
  "u64 checked n = (if n < 2 ^ 64 then Ok n else if checked then Panic else Ok (n mod 2 ^ 64))"

lemma u64_fits [simp]: "n < 2 ^ 64 \<Longrightarrow> u64 checked n = Ok n"
  by (simp add: u64_def)

lemma u64_cases:
  "u64 checked n = Panic \<longleftrightarrow> checked \<and> 2 ^ 64 \<le> n" "u64 checked n \<noteq> Err e"
  "u64 checked n = Ok m \<Longrightarrow> m = n mod 2 ^ 64"
  by (auto simp: u64_def split: if_splits)

text \<open>\<^verbatim>\<open>tokio::time::interval\<close> panics on a period of zero.\<close>

definition interval :: "nat outcome \<Rightarrow> unit outcome" where
  "interval period = bind_o period (\<lambda>ms. if ms = 0 then Panic else Ok ())"

lemma interval_Ok [simp]: "interval (Ok ms) = (if ms = 0 then Panic else Ok ())"
  by (simp add: interval_def)

text \<open>An invariant of both parts of a sequence is an invariant of the sequence.\<close>

lemma bind_s_inv:
  assumes "I (snd (m s))"
    and "\<And>a s'. m s = (Ok a, s') \<Longrightarrow> I s' \<Longrightarrow> I (snd (k a s'))"
  shows "I (snd (bind_s m k s))"
  using assms by (auto simp: bind_s_def split: prod.splits outcome.splits)

lemma bind_s_no_panic:
  assumes "fst (m s) \<noteq> Panic"
    and "\<And>a s'. m s = (Ok a, s') \<Longrightarrow> fst (k a s') \<noteq> Panic"
  shows "fst (bind_s m k s) \<noteq> Panic"
  using assms by (auto simp: bind_s_def split: prod.splits outcome.splits)

subsection \<open>Hash maps\<close>

text \<open>
  \<open>retain_keys\<close> is \<^verbatim>\<open>map.retain(|k, _| p(k))\<close>; \<open>push_entry\<close> and \<open>extend_entry\<close> are
  \<^verbatim>\<open>map.entry(k).or_default().push(v)\<close> and \<^verbatim>\<open>.extend(vs)\<close>; \<open>entry_list\<close> reads such an entry.
\<close>

definition retain_keys :: "('k \<Rightarrow> bool) \<Rightarrow> ('k \<rightharpoonup> 'v) \<Rightarrow> ('k \<rightharpoonup> 'v)" where
  "retain_keys p m = (\<lambda>k. if p k then m k else None)"

definition entry_list :: "('k \<rightharpoonup> 'v list) \<Rightarrow> 'k \<Rightarrow> 'v list" where
  "entry_list m k = (case m k of None \<Rightarrow> [] | Some vs \<Rightarrow> vs)"

definition extend_entry :: "'k \<Rightarrow> 'v list \<Rightarrow> ('k \<rightharpoonup> 'v list) \<Rightarrow> ('k \<rightharpoonup> 'v list)" where
  "extend_entry k vs m = m(k \<mapsto> entry_list m k @ vs)"

definition push_entry :: "'k \<Rightarrow> 'v \<Rightarrow> ('k \<rightharpoonup> 'v list) \<Rightarrow> ('k \<rightharpoonup> 'v list)" where
  "push_entry k v m = extend_entry k [v] m"

lemma retain_keys_apply: "retain_keys p m k = (if p k then m k else None)"
  by (simp add: retain_keys_def)

lemma dom_retain_keys [simp]: "dom (retain_keys p m) = {k \<in> dom m. p k}"
  by (auto simp: retain_keys_def split: if_splits)

lemma entry_list_retain [simp]:
  "entry_list (retain_keys p m) k = (if p k then entry_list m k else [])"
  by (simp add: entry_list_def retain_keys_def)

lemma entry_list_extend [simp]:
  "entry_list (extend_entry k vs m) k' = (if k' = k then entry_list m k @ vs else entry_list m k')"
  by (simp add: extend_entry_def entry_list_def)

lemma entry_list_push [simp]:
  "entry_list (push_entry k v m) k' = (if k' = k then entry_list m k @ [v] else entry_list m k')"
  by (simp add: push_entry_def)

lemma entry_list_delete [simp]:
  "entry_list (m(k := None)) k' = (if k' = k then [] else entry_list m k')"
  by (simp add: entry_list_def)

lemma entry_list_empty [simp]: "entry_list Map.empty k = []"
  by (simp add: entry_list_def)

lemma dom_push_entry [simp]: "dom (push_entry k v m) = insert k (dom m)"
  by (auto simp: push_entry_def extend_entry_def)

lemma dom_extend_entry [simp]: "dom (extend_entry k vs m) = insert k (dom m)"
  by (auto simp: extend_entry_def)

subsection \<open>Machines and their runs\<close>

text \<open>
  The contract several components share: every operation keeps the component's invariant.
  A run over any sequence of operations then keeps it too. Each component interprets the
  locale on its own step function and invariant.
\<close>

locale step_machine =
  fixes step :: "'s \<Rightarrow> 'e \<Rightarrow> 's"
    and ok :: "'e \<Rightarrow> bool"
    and inv :: "'s \<Rightarrow> bool"
  assumes step_inv: "inv s \<Longrightarrow> ok e \<Longrightarrow> inv (step s e)"
begin

lemma run_inv: "inv s \<Longrightarrow> list_all ok es \<Longrightarrow> inv (foldl step s es)"
  by (induction es arbitrary: s) (auto intro: step_inv)

lemma run_monotone:
  assumes mono: "\<And>s e. inv s \<Longrightarrow> ok e \<Longrightarrow> f s \<le> (f (step s e) :: nat)"
  shows "inv s \<Longrightarrow> list_all ok es \<Longrightarrow> f s \<le> f (foldl step s es)"
proof (induction es arbitrary: s)
  case Nil
  then show ?case by simp
next
  case (Cons e es)
  then have "f s \<le> f (step s e)" "inv (step s e)"
    by (auto intro: mono step_inv)
  with Cons show ?case by (auto intro: le_trans)
qed

end

end
