(* ===== verification/Types.thy ===== *)
theory Types
  imports Prelude
begin

section \<open>Protocol types, signatures and certificates\<close>

text \<open>
  The data of \<^verbatim>\<open>consensus/src/types\<close>: blocks, proposals, chain elements, signatures,
  certificates, request/response pairs and the wire messages.

  The \<^verbatim>\<open>crypto\<close> and \<^verbatim>\<open>bincode\<close> crates are not part of the repository. They enter as a
  record \<open>crypto\<close> of functions (hash of serialized bytes, signing, verification) and, per
  serializable type, a record \<open>codec\<close>; the serialized form is a type parameter \<open>'b\<close>. Key
  material is kept as its raw bytes, as \<^verbatim>\<open>RawKeyConfig\<close> stores it. \<^verbatim>\<open>PhantomData\<close> fields carry
  no value and are dropped. \<^verbatim>\<open>mempool::Batch<Tx>\<close> is its one field \<^verbatim>\<open>payload: Vec<Tx>\<close>.
\<close>

type_synonym secret_key = bytes
type_synonym public_key = bytes
type_synonym pk_map = "node_id \<rightharpoonup> public_key"
type_synonym 'tx batch = "'tx list"

record 'b crypto =
  do_hash :: "'b \<Rightarrow> digest"
  sk_sign :: "secret_key \<Rightarrow> digest \<Rightarrow> error + bytes"
  pk_verify :: "public_key \<Rightarrow> digest \<Rightarrow> bytes \<Rightarrow> bool"

record ('v, 'b) codec =
  encode :: "'v \<Rightarrow> 'b"
  decode :: "'b \<Rightarrow> 'v option"

definition ser_and_hash :: "'b crypto \<Rightarrow> ('v, 'b) codec \<Rightarrow> 'v \<Rightarrow> digest" where
  "ser_and_hash cr cd v = do_hash cr (encode cd v)"

text \<open>What the code relies on: decoding what was encoded gives the value back.\<close>

definition codec_ok :: "('v, 'b) codec \<Rightarrow> bool" where
  "codec_ok cd \<longleftrightarrow> (\<forall>v. decode cd (encode cd v) = Some v)"

text \<open>
  A signature made with a secret key verifies, on the same digest, under the public key that
  belongs to it (\<open>pub\<close> gives that key).
\<close>

definition signing_ok :: "'b crypto \<Rightarrow> (secret_key \<Rightarrow> public_key) \<Rightarrow> bool" where
  "signing_ok cr pub \<longleftrightarrow>
     (\<forall>sk h raw. sk_sign cr sk h = Inr raw \<longrightarrow> pk_verify cr (pub sk) h raw)"

subsection \<open>Signatures\<close>

record signature =
  sig_raw :: bytes
  sig_id :: node_id

definition signature_new ::
  "'b crypto \<Rightarrow> digest \<Rightarrow> node_id \<Rightarrow> secret_key \<Rightarrow> signature outcome" where
  "signature_new cr msg_hash i sk =
     bind_o (of_result (sk_sign cr sk msg_hash)) (\<lambda>raw. Ok \<lparr>sig_raw = raw, sig_id = i\<rparr>)"

lemma signature_new_no_panic [simp]: "signature_new cr h i sk \<noteq> Panic"
  by (auto simp: signature_new_def bind_o_def of_result_def split: sum.split)

definition verify_without_id_check ::
  "'b crypto \<Rightarrow> signature \<Rightarrow> digest \<Rightarrow> public_key \<Rightarrow> unit outcome" where
  "verify_without_id_check cr sg msg_hash pk =
     (if \<not> pk_verify cr pk msg_hash (sig_raw sg) then Err SigVerificationFailed else Ok ())"

definition signature_verify ::
  "'b crypto \<Rightarrow> signature \<Rightarrow> digest \<Rightarrow> node_id \<Rightarrow> public_key \<Rightarrow> unit outcome" where
  "signature_verify cr sg msg_hash i pk =
     (if sig_id sg \<noteq> i then Err IdMismatch
      else verify_without_id_check cr sg msg_hash pk)"

lemma verify_without_id_check_Ok [simp]:
  "verify_without_id_check cr sg h pk = Ok u \<longleftrightarrow> pk_verify cr pk h (sig_raw sg)"
  by (simp add: verify_without_id_check_def)

lemma verify_without_id_check_no_panic [simp]: "verify_without_id_check cr sg h pk \<noteq> Panic"
  by (simp add: verify_without_id_check_def)

lemma signature_verify_Ok [simp]:
  "signature_verify cr sg h i pk = Ok u \<longleftrightarrow> sig_id sg = i \<and> pk_verify cr pk h (sig_raw sg)"
  by (simp add: signature_verify_def)

lemma signature_verify_no_panic [simp]: "signature_verify cr sg h i pk \<noteq> Panic"
  by (simp add: signature_verify_def)

subsection \<open>Certificates\<close>

record certificate =
  raw_sigs :: "signature list"

definition certificate_empty :: certificate where
  "certificate_empty = \<lparr>raw_sigs = []\<rparr>"

definition certificate_add :: "certificate \<Rightarrow> signature \<Rightarrow> certificate" where
  "certificate_add c sg = c\<lparr>raw_sigs := raw_sigs c @ [sg]\<rparr>"

definition certificate_extend :: "certificate \<Rightarrow> signature list \<Rightarrow> certificate" where
  "certificate_extend c sgs = c\<lparr>raw_sigs := raw_sigs c @ sgs\<rparr>"

definition certificate_len :: "certificate \<Rightarrow> nat" where
  "certificate_len c = length (raw_sigs c)"

definition certificate_is_empty :: "certificate \<Rightarrow> bool" where
  "certificate_is_empty c \<longleftrightarrow> raw_sigs c = []"

definition certificate_from :: "signature \<Rightarrow> certificate" where
  "certificate_from sg = \<lparr>raw_sigs = [sg]\<rparr>"

definition unique_len :: "certificate \<Rightarrow> nat" where
  "unique_len c = card (foldl (\<lambda>S sg. insert (sig_id sg) S) {} (raw_sigs c))"

fun verify_sigs :: "'b crypto \<Rightarrow> signature list \<Rightarrow> digest \<Rightarrow> pk_map \<Rightarrow> unit outcome" where
  "verify_sigs cr [] msg_hash pks = Ok ()"
| "verify_sigs cr (sg # sgs) msg_hash pks =
     bind_o (ok_or (UnknownId (sig_id sg)) (pks (sig_id sg))) (\<lambda>pk.
     bind_o (verify_without_id_check cr sg msg_hash pk) (\<lambda>_.
     verify_sigs cr sgs msg_hash pks))"

definition certificate_verify ::
  "'b crypto \<Rightarrow> certificate \<Rightarrow> digest \<Rightarrow> pk_map \<Rightarrow> unit outcome" where
  "certificate_verify cr c msg_hash pks = verify_sigs cr (raw_sigs c) msg_hash pks"

lemma verify_sigs_Ok:
  "verify_sigs cr sgs h pks = Ok u \<longleftrightarrow>
     (\<forall>sg \<in> set sgs. \<exists>pk. pks (sig_id sg) = Some pk \<and> pk_verify cr pk h (sig_raw sg))"
  by (induction sgs) (auto simp: bind_o_Ok_iff ok_or_def split: option.splits)

lemma verify_sigs_no_panic [simp]: "verify_sigs cr sgs h pks \<noteq> Panic"
proof (induction sgs)
  case Nil
  then show ?case by simp
next
  case (Cons sg sgs)
  then show ?case
    by (auto simp: bind_o_def ok_or_def verify_without_id_check_def
        split: option.splits outcome.splits)
qed

lemma certificate_verify_no_panic [simp]: "certificate_verify cr c h pks \<noteq> Panic"
  by (simp add: certificate_verify_def)

lemma certificate_verify_empty [simp]: "certificate_verify cr certificate_empty h pks = Ok ()"
  by (simp add: certificate_verify_def certificate_empty_def)

lemma foldl_insert_id: "foldl (\<lambda>S sg. insert (f sg) S) S xs = S \<union> f ` set xs"
  by (induction xs arbitrary: S) auto

lemma unique_len_card: "unique_len c = card (sig_id ` set (raw_sigs c))"
  by (simp add: unique_len_def foldl_insert_id)

lemma unique_len_le_len: "unique_len c \<le> certificate_len c"
  by (simp add: unique_len_card certificate_len_def)
     (metis card_image_le card_length finite_set le_trans)

subsection \<open>Blocks, proposals, chain elements\<close>

record block =
  batch_hash :: digest
  prev_hash :: digest

record proposal =
  p_block :: block
  p_qc :: "certificate list option"
  p_round :: round

definition parent_hash :: "proposal \<Rightarrow> digest" where
  "parent_hash p = prev_hash (p_block p)"

record 'tx element =
  el_proposal :: proposal
  el_auth :: signature
  el_batch :: "'tx batch"

definition element_new :: "proposal \<Rightarrow> signature \<Rightarrow> 'tx batch \<Rightarrow> 'tx element" where
  "element_new p auth b = \<lparr>el_proposal = p, el_auth = auth, el_batch = b\<rparr>"

definition element_genesis :: "node_id \<Rightarrow> 'tx element" where
  "element_genesis initial_leader =
     \<lparr>el_proposal = \<lparr>p_block = \<lparr>batch_hash = EMPTY_HASH, prev_hash = EMPTY_HASH\<rparr>,
                    p_qc = None, p_round = 0\<rparr>,
      el_auth = \<lparr>sig_raw = [], sig_id = initial_leader\<rparr>,
      el_batch = []\<rparr>"

lemma element_new_sel [simp]:
  "el_proposal (element_new p a b) = p" "el_auth (element_new p a b) = a"
  "el_batch (element_new p a b) = b"
  by (simp_all add: element_new_def)

lemma element_genesis_sel [simp]:
  "p_round (el_proposal (element_genesis i)) = 0" "sig_id (el_auth (element_genesis i)) = i"
  "el_batch (element_genesis i) = []" "parent_hash (el_proposal (element_genesis i)) = EMPTY_HASH"
  by (simp_all add: element_genesis_def parent_hash_def)

subsection \<open>Requests, responses and the wire messages\<close>

record request =
  req_hash :: digest

record 'v response =
  resp_hash :: digest
  resp_value :: 'v

datatype 'tx protocol_msg =
    Propose proposal signature "'tx batch" node_id
  | Relay proposal signature digest node_id
  | Blame round signature
  | BlameQC round certificate
  | BatchRequest node_id request
  | BatchResponse "'tx batch response"
  | ElementRequest node_id request
  | ElementResponse "'tx element response"

datatype 'tx client_msg =
    NewTx 'tx socket_addr
  | Confirmation digest
  | NewBatch "'tx list" socket_addr
  | BatchConfirmation digest

end
