(* ===== verification/Settings.thy ===== *)
theory Settings
  imports Types
begin

section \<open>Settings: the committee, quorums, peers and the GC depth\<close>

text \<open>
  \<^verbatim>\<open>server/settings.rs\<close> (the committee \<^verbatim>\<open>Config\<close>, peer address tables, the run mode),
  \<^verbatim>\<open>lib.rs\<close> (\<^verbatim>\<open>to_socket_address\<close>) and \<^verbatim>\<open>server/mod.rs\<close> (the process-wide GC depth). File
  loading (\<^verbatim>\<open>Settings::new\<close>) is the \<^verbatim>\<open>config\<close> crate's and is not modelled. The iteration
  order of the party table is the parameter \<open>order\<close>.
\<close>

datatype env_mode = Development | Testing | Production

definition env_from :: "string \<Rightarrow> env_mode" where
  "env_from e = (if e = ''Testing'' then Testing
                 else if e = ''Production'' then Production else Development)"

definition env_display :: "env_mode \<Rightarrow> string" where
  "env_display m = (case m of Development \<Rightarrow> ''Development'' | Testing \<Rightarrow> ''Testing''
                    | Production \<Rightarrow> ''Production'')"

lemma env_roundtrip: "env_from (env_display m) = m"
  by (cases m) (simp_all add: env_from_def env_display_def)

record party =
  party_id :: node_id
  mempool_address :: string
  mempool_port :: nat
  consensus_address :: string
  consensus_port :: nat
  client_port :: nat
  consensus_client_port :: nat

record config =
  parties :: "node_id \<rightharpoonup> party"

record bench_config =
  bc_batch_size :: nat
  bc_batch_timeout_ms :: nat
  bc_delay_in_ms :: nat
  bc_eleader_pipeline_depth :: nat
  bc_data_timer_duration_ms :: nat
  bc_bench_emit_window_secs :: nat
  bc_bench_metrics_node :: node_id

definition bench_config_default :: bench_config where
  "bench_config_default =
     \<lparr>bc_batch_size = 1000, bc_batch_timeout_ms = 1000, bc_delay_in_ms = 500,
      bc_eleader_pipeline_depth = 16, bc_data_timer_duration_ms = 1000,
      bc_bench_emit_window_secs = 1, bc_bench_metrics_node = 0\<rparr>"

definition num_nodes :: "config \<Rightarrow> nat" where
  "num_nodes c = card (dom (parties c))"

text \<open>\<^verbatim>\<open>(self.parties.len() - 1) / 3\<close> on a 64-bit \<^verbatim>\<open>usize\<close>: without parties the subtraction wraps
  in a release build.\<close>

definition num_faults :: "config \<Rightarrow> nat" where
  "num_faults c = ((num_nodes c + 2 ^ 64 - 1) mod 2 ^ 64) div 3"

definition get_party :: "config \<Rightarrow> node_id \<Rightarrow> party option" where
  "get_party c i = parties c i"

definition get_all_ids :: "(node_id set \<Rightarrow> node_id list) \<Rightarrow> config \<Rightarrow> node_id list" where
  "get_all_ids order c = order (dom (parties c))"

lemma num_faults_eq: "0 < num_nodes c \<Longrightarrow> num_nodes c < 2 ^ 64 \<Longrightarrow> num_faults c = (num_nodes c - 1) div 3"
proof -
  assume a: "0 < num_nodes c" "num_nodes c < 2 ^ 64"
  then have "num_nodes c + 2 ^ 64 - 1 = 2 ^ 64 + (num_nodes c - 1)" by simp
  moreover have "(2 ^ 64 + (num_nodes c - 1)) mod 2 ^ 64 = num_nodes c - 1"
    by (subst mod_add_self1, rule mod_less) (use a in simp)
  ultimately show ?thesis unfolding num_faults_def by (simp only:)
qed

subsection \<open>Quorums\<close>

text \<open>The size \<^verbatim>\<open>(num_nodes + num_faults + 1) / 2\<close> that blame certificates, relay counts, the
  leader window and the commit rule compare with.\<close>

definition quorum :: "nat \<Rightarrow> nat \<Rightarrow> nat" where
  "quorum n f = (n + f + 1) div 2"

text \<open>Two quorums share at least \<open>2 * quorum - n\<close> nodes: more than \<open>f\<close> exactly when \<open>n + f\<close> is
  odd, and exactly \<open>f\<close> at worst otherwise.\<close>

lemma quorum_overlap:
  assumes "finite N" "A \<subseteq> N" "B \<subseteq> N" "card N = n" "quorum n f \<le> card A" "quorum n f \<le> card B"
  shows "2 * quorum n f \<le> n + card (A \<inter> B)"
proof -
  have fin: "finite A" "finite B" using assms finite_subset by blast+
  have "card (A \<union> B) \<le> n" using assms by (metis Un_subset_iff card_mono)
  moreover have "card A + card B = card (A \<union> B) + card (A \<inter> B)"
    using fin by (rule card_Un_Int)
  ultimately show ?thesis using assms by linarith
qed

lemma quorum_le: "f < n \<Longrightarrow> quorum n f \<le> n"
  by (simp add: quorum_def)

lemma quorum_pos: "0 < n \<Longrightarrow> 0 < quorum n f"
  by (simp add: quorum_def)

lemma quorum_honest: "3 * f < n \<Longrightarrow> f < quorum n f"
  unfolding quorum_def by linarith

lemma quorum_reachable: "3 * f < n \<Longrightarrow> quorum n f \<le> n - f"
  unfolding quorum_def by linarith

subsection \<open>Addresses\<close>

definition digit_val :: "char \<Rightarrow> nat option" where
  "digit_val ch = (let n = of_char ch :: nat in
     if 48 \<le> n \<and> n \<le> 57 then Some (n - 48) else None)"

fun parse_digits :: "nat \<Rightarrow> string \<Rightarrow> nat option" where
  "parse_digits acc [] = Some acc"
| "parse_digits acc (ch # cs) = (case digit_val ch of None \<Rightarrow> None
     | Some d \<Rightarrow> parse_digits (10 * acc + d) cs)"

text \<open>An octet of \<^verbatim>\<open>Ipv4Addr::from_str\<close>: one to three digits, no leading zero, at most 255.\<close>

definition parse_octet :: "string \<Rightarrow> nat option" where
  "parse_octet s =
     (if s = [] \<or> 3 < length s \<or> (1 < length s \<and> hd s = CHR ''0'') then None
      else (case parse_digits 0 s of None \<Rightarrow> None
            | Some n \<Rightarrow> if n \<le> 255 then Some n else None))"

fun split_dots :: "string \<Rightarrow> string \<Rightarrow> string list" where
  "split_dots cur [] = [rev cur]"
| "split_dots cur (ch # cs) =
     (if ch = CHR ''.'' then rev cur # split_dots [] cs else split_dots (ch # cur) cs)"

definition parse_ipv4 :: "string \<Rightarrow> nat option" where
  "parse_ipv4 s = (case split_dots [] s of
     [a, b, c, d] \<Rightarrow>
       (case (parse_octet a, parse_octet b, parse_octet c, parse_octet d) of
          (Some w, Some x, Some y, Some z) \<Rightarrow> Some (((w * 256 + x) * 256 + y) * 256 + z)
        | _ \<Rightarrow> None)
   | _ \<Rightarrow> None)"

definition to_socket_address :: "string \<Rightarrow> nat \<Rightarrow> socket_addr outcome" where
  "to_socket_address ip_str port =
     bind_o (ok_or AddrParseError (parse_ipv4 ip_str)) (\<lambda>ip. Ok (ip, port))"

subsection \<open>Peer tables\<close>

fun peers_loop ::
  "config \<Rightarrow> (party \<Rightarrow> string \<times> nat) \<Rightarrow> node_id \<Rightarrow> node_id list
    \<Rightarrow> (node_id \<rightharpoonup> socket_addr) \<Rightarrow> (node_id \<rightharpoonup> socket_addr) outcome" where
  "peers_loop c addr_of my_id [] m = Ok m"
| "peers_loop c addr_of my_id (i # is) m =
     (if i \<noteq> my_id then
        bind_o (ok_or (NotInConfig i) (get_party c i)) (\<lambda>pty.
        bind_o (case addr_of pty of (ip, port) \<Rightarrow> to_socket_address ip port) (\<lambda>addr.
        peers_loop c addr_of my_id is (m(i \<mapsto> addr))))
      else peers_loop c addr_of my_id is m)"

definition get_mempool_peers :: "config \<Rightarrow> node_id \<Rightarrow> (node_id \<rightharpoonup> socket_addr) outcome" where
  "get_mempool_peers c my_id =
     peers_loop c (\<lambda>pty. (mempool_address pty, mempool_port pty)) my_id [0..<num_nodes c] Map.empty"

definition get_consensus_peers :: "config \<Rightarrow> node_id \<Rightarrow> (node_id \<rightharpoonup> socket_addr) outcome" where
  "get_consensus_peers c my_id =
     peers_loop c (\<lambda>pty. (consensus_address pty, consensus_port pty)) my_id [0..<num_nodes c]
       Map.empty"

lemma peers_loop_Ok_dom:
  "peers_loop c addr_of my is m = Ok r \<Longrightarrow>
     dom r = dom m \<union> (set is - {my}) \<and> set is - {my} \<subseteq> dom (parties c)"
proof (induction "is" arbitrary: m)
  case Nil
  then show ?case by simp
next
  case (Cons i "is")
  show ?case
  proof (cases "i = my")
    case True
    with Cons show ?thesis by fastforce
  next
    case False
    with Cons.prems obtain pty a where
      "parties c i = Some pty" "peers_loop c addr_of my is (m(i \<mapsto> a)) = Ok r"
      by (auto simp: bind_o_Ok_iff get_party_def ok_or_def split: option.splits)
    then have "dom r = dom (m(i \<mapsto> a)) \<union> (set is - {my})" "set is - {my} \<subseteq> dom (parties c)"
      using Cons.IH by blast+
    moreover have "dom (m(i \<mapsto> a)) = insert i (dom m)" by simp
    moreover have "i \<in> dom (parties c)" using \<open>parties c i = Some pty\<close> by blast
    ultimately show ?thesis using False by (simp add: insert_Diff_if)
  qed
qed

lemma peers_loop_no_panic: "peers_loop c addr_of my is m \<noteq> Panic"
  by (induction "is" arbitrary: m)
     (auto simp: bind_o_def to_socket_address_def ok_or_def
       simp del: fun_upd_apply split: outcome.splits option.splits prod.splits)

lemma peers_loop_missing:
  assumes "i \<in> set is" "i \<noteq> my" "parties c i = None"
  shows "\<exists>e. peers_loop c addr_of my is m = Err e"
proof (cases "peers_loop c addr_of my is m")
  case (Ok r)
  from peers_loop_Ok_dom [OF this] assms show ?thesis by auto
qed (use peers_loop_no_panic in auto)

subsection \<open>The garbage-collection depth\<close>

text \<open>\<^verbatim>\<open>GC_DEPTH_ROUNDS\<close> is a \<^verbatim>\<open>OnceLock\<close>: the first \<^verbatim>\<open>set\<close> wins, later ones are ignored.\<close>

definition init_gc_depth_rounds :: "nat \<Rightarrow> nat option \<Rightarrow> nat option" where
  "init_gc_depth_rounds n cell = (case cell of None \<Rightarrow> Some (4 * n) | Some d \<Rightarrow> Some d)"

definition gc_depth_rounds :: "nat option \<Rightarrow> nat" where
  "gc_depth_rounds cell = (case cell of None \<Rightarrow> 16 | Some d \<Rightarrow> d)"

lemma gc_depth_first_set_wins:
  "gc_depth_rounds (foldl (\<lambda>cell n. init_gc_depth_rounds n cell) None (n # ns)) = 4 * n"
proof -
  have "foldl (\<lambda>cell n. init_gc_depth_rounds n cell) (Some d) ns = Some d" for d
    by (induction ns) (simp_all add: init_gc_depth_rounds_def)
  then show ?thesis by (simp add: init_gc_depth_rounds_def gc_depth_rounds_def)
qed

subsection \<open>Properties\<close>

text \<open>In a committee of \<open>n\<close> nodes with \<open>n + f\<close> odd, any two sets of the size the code calls a
  quorum share a node that is not among the \<open>f\<close> faulty ones.\<close>

theorem quorums_share_honest_node:
  assumes "finite N" "card N = n" "odd (n + f)" "Q \<subseteq> N" "R \<subseteq> N" "card F \<le> f" "finite F"
    and "quorum n f \<le> card Q" "quorum n f \<le> card R"
  shows "\<exists>x \<in> Q \<inter> R. x \<notin> F"
proof -
  have "2 * quorum n f = n + f + 1" using assms(3) unfolding quorum_def by presburger
  then have "f < card (Q \<inter> R)" using quorum_overlap [OF assms(1,4,5,2,8,9)] by linarith
  then have "\<not> Q \<inter> R \<subseteq> F" using assms(6,7) card_mono [of F "Q \<inter> R"] by linarith
  then show ?thesis by blast
qed

theorem quorums_share_honest_node_witness:
  "\<exists>x \<in> {0, 1, 2} \<inter> {1, 2, 3::nat}. x \<notin> {2}"
  by (rule quorums_share_honest_node [of "{0, 1, 2, 3}" 4 1]) (simp_all add: quorum_def)

text \<open>With five nodes, one of which may be faulty, two sets of the quorum size may share that node
  only: the division rounds down.\<close>

theorem quorum_of_five_is_short:
  "num_faults \<lparr>parties = (\<lambda>i. if i < 5 then Some pty else None)\<rparr> = 1 \<and>
   card {0, 1, 2::nat} = quorum 5 1 \<and> card {2, 3, 4::nat} = quorum 5 1 \<and> {0, 1, 2} \<inter> {2, 3, 4} = {2::nat}"
proof -
  have "dom (\<lambda>i::nat. if i < 5 then Some pty else None) = {..<5}" by (auto split: if_splits)
  then have "num_nodes \<lparr>parties = (\<lambda>i. if i < 5 then Some pty else None)\<rparr> = 5" by (simp add: num_nodes_def)
  then show ?thesis by (simp add: num_faults_eq quorum_def)
qed

end
