(* ===== verification/Leader.thy ===== *)
theory Leader
  imports Settings
begin

section \<open>Leader election\<close>

text \<open>
  \<^verbatim>\<open>server/leto/leader_context.rs\<close>, used by Leto and by Zeus. The \<^verbatim>\<open>StdRng\<close> and the
  \<^verbatim>\<open>IteratorRandom::choose\<close> call on it are the parameter \<open>pick\<close>: given the generator state
  and the candidate set it returns an element, or nothing for an empty set.
\<close>

type_synonym 'g chooser = "'g \<Rightarrow> node_id set \<Rightarrow> node_id option \<times> 'g"

definition chooser_ok :: "'g chooser \<Rightarrow> bool" where
  "chooser_ok pick \<longleftrightarrow>
     (\<forall>g S. (S = {} \<longrightarrow> fst (pick g S) = None) \<and>
            (finite S \<longrightarrow> S \<noteq> {} \<longrightarrow> (\<exists>x \<in> S. fst (pick g S) = Some x)))"

record 'g leader_context =
  lc_rng :: 'g
  lc_round :: round
  lc_elligible :: "node_id set"
  lc_history :: "node_id list"
  lc_leader :: node_id
  lc_next_leader :: node_id

definition leader :: "'g leader_context \<Rightarrow> node_id" where
  "leader lc = lc_leader lc"

definition next_leader :: "'g leader_context \<Rightarrow> node_id" where
  "next_leader lc = lc_next_leader lc"

text \<open>The front of the \<^verbatim>\<open>VecDeque\<close> is the head of the list. Both \<^verbatim>\<open>unwrap\<close>s are panics.\<close>

definition leader_advance_round :: "'g chooser \<Rightarrow> 'g leader_context \<Rightarrow> 'g leader_context outcome" where
  "leader_advance_round pick lc =
     (let cur = lc_next_leader lc in
      if lc_history lc = [] then Panic
      else
        let popped = last (lc_history lc);
            ell = insert popped (lc_elligible lc) - {cur};
            hist = cur # butlast (lc_history lc)
        in case pick (lc_rng lc) ell of
             (None, g) \<Rightarrow> Panic
           | (Some nxt, g) \<Rightarrow>
               Ok (lc\<lparr>lc_rng := g, lc_round := lc_round lc + 1, lc_elligible := ell,
                      lc_history := hist, lc_leader := cur, lc_next_leader := nxt\<rparr>))"

text \<open>The loop of \<^verbatim>\<open>new\<close> pops \<open>limit\<close> identifiers from the end and pushes each to the front.\<close>

fun pop_history :: "nat \<Rightarrow> node_id list \<Rightarrow> node_id list \<Rightarrow> (node_id list \<times> node_id list) outcome" where
  "pop_history 0 ids hist = Ok (ids, hist)"
| "pop_history (Suc k) ids hist =
     (if ids = [] then Panic else pop_history k (butlast ids) (last ids # hist))"

definition leader_new :: "'g chooser \<Rightarrow> 'g \<Rightarrow> node_id list \<Rightarrow> nat \<Rightarrow> 'g leader_context outcome" where
  "leader_new pick seed all_ids nf =
     bind_o (pop_history ((length all_ids + nf + 1) div 2) all_ids []) (\<lambda>(rest, hist).
     bind_o (leader_advance_round pick
       \<lparr>lc_rng = seed, lc_round = 0, lc_elligible = set rest, lc_history = hist,
        lc_leader = START_ID, lc_next_leader = START_ID\<rparr>) (\<lambda>lc.
     Ok (lc\<lparr>lc_round := 0\<rparr>)))"


subsection \<open>The window invariant\<close>

text \<open>
  The history holds the leaders of the last \<open>L\<close> rounds, and history and eligible set cover the
  committee. \<open>occurs lc x\<close> counts the places that hold \<open>x\<close>: its entries in the history and its
  membership of the eligible set. The bound \<open>b\<close> says how many places each node may have. A window
  filled from a duplicate-free list has one place per node, except that the constructor elects
  \<^verbatim>\<open>START_ID\<close> whether or not it is already in the history: the bound of every committee is
  \<open>start_twice\<close>.
\<close>

definition occurs :: "'g leader_context \<Rightarrow> node_id \<Rightarrow> nat" where
  "occurs lc x = count_list (lc_history lc) x + (if x \<in> lc_elligible lc then 1 else 0)"

definition start_twice :: "node_id \<Rightarrow> nat" where
  "start_twice x = (if x = START_ID then 2 else 1)"

definition leader_window :: "(node_id \<Rightarrow> nat) \<Rightarrow> node_id set \<Rightarrow> nat \<Rightarrow> 'g leader_context \<Rightarrow> bool" where
  "leader_window b N L lc \<longleftrightarrow>
     finite N \<and> L < card N \<and> 0 < L \<and> length (lc_history lc) = L \<and>
     set (lc_history lc) \<union> lc_elligible lc = N \<and> (\<forall>x. occurs lc x \<le> b x) \<and>
     lc_leader lc = hd (lc_history lc) \<and> lc_next_leader lc \<in> lc_elligible lc"

abbreviation leader_inv :: "node_id set \<Rightarrow> nat \<Rightarrow> 'g leader_context \<Rightarrow> bool" where
  "leader_inv \<equiv> leader_window start_twice"

lemmas leader_inv_def = leader_window_def [of start_twice]

lemma leader_windowD:
  assumes "leader_window b N L lc"
  shows "finite N" "L < card N" "0 < L" "length (lc_history lc) = L" "lc_history lc \<noteq> []"
    "set (lc_history lc) \<union> lc_elligible lc = N" "occurs lc x \<le> b x"
    "lc_leader lc = hd (lc_history lc)" "lc_next_leader lc \<in> lc_elligible lc"
    "lc_leader lc \<in> N" "lc_next_leader lc \<in> N"
  using assms by (auto simp: leader_window_def dest: hd_in_set)

text \<open>Two equal entries of a list count twice.\<close>

lemma count_list_two:
  assumes "i < j" "j < length xs" "xs ! i = x" "xs ! j = x"
  shows "2 \<le> count_list xs x"
proof -
  have xs: "xs = take j xs @ x # drop (Suc j) xs" using assms by (metis id_take_nth_drop)
  have "x \<in> set (take j xs)" using assms by (auto simp: in_set_conv_nth intro: exI [of _ i])
  then have "count_list (take j xs) x \<noteq> 0" by (simp add: count_list_0_iff)
  moreover have "count_list xs x = count_list (take j xs) x + Suc (count_list (drop (Suc j) xs) x)"
    by (subst xs) simp
  ultimately show ?thesis by simp
qed

lemma count_list_distinct: "distinct xs \<Longrightarrow> count_list xs x = (if x \<in> set xs then 1 else 0)"
  by (induction xs) auto

text \<open>
  One advance from any state whose places respect the bound once the oldest entry has become
  eligible and the next leader has been entered. The window is shorter than the committee, so there
  is always someone to elect.
\<close>

lemma advance_fills_window:
  fixes lc :: "'g leader_context"
  defines "h \<equiv> lc_history lc" and "cur \<equiv> lc_next_leader lc"
  assumes N: "finite N" "L < card N" "0 < L" and len: "length h = L"
    and un: "insert cur (set h \<union> lc_elligible lc) = N"
    and b: "\<And>x. count_list (butlast h) x + (if x \<in> insert cur (insert (last h) (lc_elligible lc)) then 1 else 0) \<le> b x"
    and ch: "chooser_ok pick"
  shows "\<exists>lc'. leader_advance_round pick lc = Ok lc' \<and> leader_window b N L lc' \<and>
          lc_leader lc' = cur \<and> lc_history lc' = cur # butlast h \<and> lc_round lc' = lc_round lc + 1"
proof -
  let ?ell = "insert (last h) (lc_elligible lc) - {cur}"
  have ne: "h \<noteq> []" using len N(3) by auto
  then have sh: "set h = insert (last h) (set (butlast h))"
    by (metis append_butlast_last_id empty_set list.simps(15) set_append Un_insert_right sup_bot_right)
  have cover: "set (cur # butlast h) \<union> ?ell = N" using un sh by auto
  have "card (set (cur # butlast h)) \<le> L" using card_length [of "cur # butlast h"] len N(3) by simp
  then have "?ell \<noteq> {}" using cover N(2) by (metis leD sup_bot_right)
  moreover have "finite ?ell" using cover N(1) by (metis finite_Un)
  ultimately obtain nxt g where nx: "pick (lc_rng lc) ?ell = (Some nxt, g)" "nxt \<in> ?ell"
    using ch unfolding chooser_ok_def by (metis prod.collapse)
  let ?lc' = "lc\<lparr>lc_rng := g, lc_round := lc_round lc + 1, lc_elligible := ?ell,
      lc_history := cur # butlast h, lc_leader := cur, lc_next_leader := nxt\<rparr>"
  have "leader_advance_round pick lc = Ok ?lc'"
    using ne nx by (simp add: leader_advance_round_def Let_def h_def cur_def)
  moreover have "occurs ?lc' x \<le> b x" for x using b [of x] by (cases "x = cur") (auto simp: occurs_def)
  ultimately show ?thesis using N len nx(2) cover by (simp add: leader_window_def)
qed

lemma leader_advance_ok:
  assumes inv: "leader_window b N L lc" and ch: "chooser_ok pick"
  shows "\<exists>lc'. leader_advance_round pick lc = Ok lc' \<and> leader_window b N L lc' \<and>
          lc_leader lc' = lc_next_leader lc \<and>
          lc_history lc' = lc_next_leader lc # butlast (lc_history lc) \<and>
          lc_round lc' = lc_round lc + 1"
proof (rule advance_fills_window [OF _ _ _ _ _ _ ch])
  note w = leader_windowD [OF inv]
  have "lc_history lc = butlast (lc_history lc) @ [last (lc_history lc)]" using w(5) by simp
  then have c: "count_list (lc_history lc) x = count_list (butlast (lc_history lc)) x + count_list [last (lc_history lc)] x" for x
    by (metis count_list_append)
  show "count_list (butlast (lc_history lc)) x +
      (if x \<in> insert (lc_next_leader lc) (insert (last (lc_history lc)) (lc_elligible lc)) then 1 else 0) \<le> b x" for x
    using w(7) [of x] w(9) c [of x] by (auto simp: occurs_def split: if_splits)
qed (use leader_windowD [OF inv] in auto)

fun leader_run :: "'g chooser \<Rightarrow> nat \<Rightarrow> 'g leader_context \<Rightarrow> 'g leader_context outcome" where
  "leader_run pick 0 lc = Ok lc"
| "leader_run pick (Suc k) lc = bind_o (leader_run pick k lc) (leader_advance_round pick)"

lemma leader_run_add:
  "leader_run pick (i + j) lc = bind_o (leader_run pick i lc) (leader_run pick j)"
  by (induction j) (cases "leader_run pick i lc"; simp)+

lemma leader_run_ok:
  assumes "leader_window b N L lc" "chooser_ok pick"
  shows "\<exists>lc'. leader_run pick k lc = Ok lc' \<and> leader_window b N L lc' \<and>
           (\<forall>i. k + i < L \<longrightarrow> lc_history lc' ! (k + i) = lc_history lc ! i)"
proof (induction k)
  case 0
  with assms show ?case by simp
next
  case (Suc k)
  then obtain lc' where lc': "leader_run pick k lc = Ok lc'" "leader_window b N L lc'"
    and hist: "\<And>i. k + i < L \<Longrightarrow> lc_history lc' ! (k + i) = lc_history lc ! i" by auto
  obtain lc'' where lc'': "leader_advance_round pick lc' = Ok lc''" "leader_window b N L lc''"
    "lc_history lc'' = lc_next_leader lc' # butlast (lc_history lc')"
    using leader_advance_ok [OF lc'(2) assms(2)] by blast
  have "length (lc_history lc') = L" using lc'(2) by (rule leader_windowD(4))
  then have "lc_history lc'' ! (Suc k + i) = lc_history lc ! i" if "Suc k + i < L" for i
    using that hist [of i] lc''(3) by (simp add: nth_butlast)
  with lc' lc'' show ?case by auto
qed

text \<open>A node with one place does not lead twice within \<open>L\<close> consecutive rounds.\<close>

lemma leader_window_step:
  assumes "leader_window b N L lc" "chooser_ok pick" "0 < d" "d < L" "leader_run pick d lc = Ok lc'"
    and "lc_leader lc' = lc_leader lc"
  shows "1 < b (lc_leader lc)"
proof -
  have w': "leader_window b N L lc'" and h: "lc_history lc' ! d = lc_history lc ! 0"
    using leader_run_ok [OF assms(1,2), of d] assms(4,5) by (auto dest: spec [of _ 0])
  have "lc_history lc' ! 0 = lc_leader lc" "lc_history lc' ! d = lc_leader lc"
    using h assms(6) leader_windowD(5,8) [OF w'] leader_windowD(5,8) [OF assms(1)] by (simp_all add: hd_conv_nth)
  then have "2 \<le> count_list (lc_history lc') (lc_leader lc)"
    using assms(3,4) leader_windowD(4) [OF w'] by (intro count_list_two [of 0 d]) simp_all
  then show ?thesis using leader_windowD(7) [OF w', of "lc_leader lc"] by (simp add: occurs_def)
qed

text \<open>A window with one place per node holds distinct leaders, none of them eligible.\<close>

lemma leader_window_distinct:
  assumes "leader_window (\<lambda>_. 1) N L lc"
  shows "distinct (lc_history lc)" "set (lc_history lc) \<inter> lc_elligible lc = {}"
proof -
  note w = leader_windowD(7) [OF assms, unfolded occurs_def]
  have "distinct (lc_history lc)"
  proof (rule ccontr)
    assume "\<not> distinct (lc_history lc)"
    then obtain i j where ij: "i < j" "j < length (lc_history lc)" "lc_history lc ! i = lc_history lc ! j"
      by (metis distinct_conv_nth nat_neq_iff)
    then show False using count_list_two [OF ij(1,2,3) refl] w [of "lc_history lc ! j"] by simp
  qed
  then show "distinct (lc_history lc)" .
  show "set (lc_history lc) \<inter> lc_elligible lc = {}"
  proof (rule ccontr)
    assume "set (lc_history lc) \<inter> lc_elligible lc \<noteq> {}"
    then obtain x where "x \<in> set (lc_history lc)" "x \<in> lc_elligible lc" by blast
    then show False using w [of x] by (simp add: count_list_0_iff)
  qed
qed

text \<open>In any window only the start leader may occur twice.\<close>

lemma leader_inv_count:
  "leader_inv N L lc \<Longrightarrow> count_list (lc_history lc) x \<le> (if x = START_ID then 2 else 1)"
  using leader_windowD(7) [of start_twice N L lc x] by (simp add: occurs_def start_twice_def split: if_splits)

subsection \<open>The initial context\<close>

lemma pop_history_ok:
  "k \<le> length ids \<Longrightarrow>
     pop_history k ids hist = Ok (take (length ids - k) ids, drop (length ids - k) ids @ hist)"
proof (induction k arbitrary: ids hist)
  case 0
  then show ?case by simp
next
  case (Suc k)
  then obtain xs x where ids: "ids = xs @ [x]" by (cases ids rule: rev_cases) auto
  with Suc show ?case by (simp add: ids)
qed

lemma pop_history_panic: "length ids < k \<Longrightarrow> pop_history k ids hist = Panic"
proof (induction k arbitrary: ids hist)
  case (Suc k)
  then show ?case by (cases ids rule: rev_cases) auto
qed simp

text \<open>
  What leader election needs of a committee. The key order of the hash map (\<open>order\<close>) visits each
  identifier once; \<^verbatim>\<open>START_ID\<close> is a member; and there are at least two more nodes than faults, so that
  a window of a quorum leaves someone to elect. Where the order puts \<^verbatim>\<open>START_ID\<close> is left open.
\<close>

definition committee_ok :: "(node_id set \<Rightarrow> node_id list) \<Rightarrow> config \<Rightarrow> bool" where
  "committee_ok order conf \<longleftrightarrow> distinct (get_all_ids order conf) \<and> START_ID \<in> set (get_all_ids order conf) \<and>
     num_faults conf + 1 < length (get_all_ids order conf)"

text \<open>The identifiers that stay in the initial history when the constructor elects the start leader:
  the last \<open>limit\<close> of the list without its last one.\<close>

definition initial_window :: "node_id list \<Rightarrow> nat \<Rightarrow> node_id list" where
  "initial_window all_ids nf = butlast (drop (length all_ids - quorum (length all_ids) nf) all_ids)"

text \<open>\<open>new\<close> establishes the window, with one place for each node unless the start identifier is in
  the initial history already.\<close>

lemma leader_new_window:
  assumes ch: "chooser_ok pick" and d: "distinct all_ids" and f: "nf + 1 < length all_ids"
    and L: "L = quorum (length all_ids) nf" and start: "START_ID \<in> set all_ids"
    and b: "b = start_twice \<or> (b = (\<lambda>_. 1) \<and> START_ID \<notin> set (initial_window all_ids nf))"
  shows "\<exists>lc. leader_new pick seed all_ids nf = Ok lc \<and> leader_window b (set all_ids) L lc \<and>
           lc_round lc = 0 \<and> leader lc = START_ID"
proof -
  let ?k = "length all_ids - L"
  have Ln: "L < length all_ids" "0 < L" using L f by (simp_all add: quorum_def)
  define h where "h = drop ?k all_ids"
  define rest where "rest = take ?k all_ids"
  have ids: "all_ids = rest @ h" by (simp add: h_def rest_def)
  have ne: "h \<noteq> []" and lenh: "length h = L" using Ln by (simp_all add: h_def)
  have dh: "distinct h" "distinct rest" "set h \<inter> set rest = {}" using d by (auto simp: ids)
  have hl: "h = butlast h @ [last h]" using ne by simp
  have dl: "last h \<notin> set (butlast h)" "distinct (butlast h)" "set (butlast h) \<inter> set rest = {}" "last h \<notin> set rest"
    using dh by (subst (asm) hl, force)+
  have cnt: "count_list (butlast h) x = (if x \<in> set (butlast h) then 1 else 0)" for x
    by (rule count_list_distinct [OF dl(2)])
  have win: "initial_window all_ids nf = butlast h" by (simp add: initial_window_def h_def L)
  let ?lc = "\<lparr>lc_rng = seed, lc_round = 0, lc_elligible = set rest, lc_history = h,
        lc_leader = START_ID, lc_next_leader = START_ID\<rparr>"
  have "count_list (butlast h) x + (if x \<in> insert START_ID (insert (last h) (set rest)) then 1 else 0) \<le> b x" for x
    using b dl cnt [of x] unfolding win start_twice_def by auto
  with advance_fills_window [of "set all_ids" L ?lc b pick] obtain lc where
    "leader_advance_round pick ?lc = Ok lc" "leader_window b (set all_ids) L lc" "lc_leader lc = START_ID"
    using Ln lenh ch start distinct_card [OF d] by (force simp: ids)
  moreover have "pop_history L all_ids [] = Ok (rest, h)"
    using pop_history_ok [of L all_ids "[]"] Ln by (simp add: h_def rest_def)
  ultimately show ?thesis
    by (auto simp: leader_new_def L quorum_def leader_window_def leader_def occurs_def)
qed

lemma leader_new_ok:
  assumes "chooser_ok pick" "distinct all_ids" "START_ID \<in> set all_ids" "nf + 1 < length all_ids"
    and "L = quorum (length all_ids) nf"
  shows "\<exists>lc. leader_new pick seed all_ids nf = Ok lc \<and> leader_inv (set all_ids) L lc \<and>
           lc_round lc = 0 \<and> leader lc = START_ID"
  using leader_new_window [OF assms(1,2,4,5,3), of start_twice seed] by blast

subsection \<open>Properties\<close>


definition pick_min :: "unit chooser" where
  "pick_min g S = (if S = {} then None else Some (Min S), g)"


text \<open>When the party table is iterated in an order that puts the start leader among the last quorum
  of identifiers, it is entered into the window twice and leads again within a quorum of rounds;
  and a committee of one has no leader at all: the constructor panics.\<close>

theorem start_leader_may_repeat:
  "(\<exists>lc lc2. leader_new pick_min () [1, 2, 0, 3] 1 = Ok lc \<and> leader lc = 0 \<and>
      leader_run pick_min 2 lc = Ok lc2 \<and> leader lc2 = 0 \<and> 2 < quorum 4 1) \<and>
   leader_new pick_min () [0] 0 = Panic"
proof
  have "pop_history 3 [1, 2, 0, 3] [] = Ok ([1], [2, 0, 3])"
    using pop_history_ok [of 3 "[1, 2, 0, 3]" "[]"] by simp
  then have "leader_new pick_min () [1, 2, 0, 3] 1 =
      Ok \<lparr>lc_rng = (), lc_round = 0, lc_elligible = {1, 3}, lc_history = [0, 2, 0], lc_leader = 0, lc_next_leader = 1\<rparr>"
    by (simp add: leader_new_def leader_advance_round_def pick_min_def START_ID_def insert_Diff_if insert_commute)
  moreover have "\<exists>lc2. leader_run pick_min 2
      \<lparr>lc_rng = (), lc_round = 0, lc_elligible = {1, 3}, lc_history = [0, 2, 0], lc_leader = 0, lc_next_leader = 1\<rparr> = Ok lc2 \<and>
      leader lc2 = 0"
    by (simp add: numeral_2_eq_2 leader_advance_round_def pick_min_def insert_Diff_if leader_def)
  ultimately show "\<exists>lc lc2. leader_new pick_min () [1, 2, 0, 3] 1 = Ok lc \<and> leader lc = 0 \<and>
      leader_run pick_min 2 lc = Ok lc2 \<and> leader lc2 = 0 \<and> 2 < quorum 4 1"
    by (auto simp: leader_def quorum_def)
  show "leader_new pick_min () [0] 0 = Panic"
    by (simp add: leader_new_def leader_advance_round_def pick_min_def START_ID_def)
qed

end
