(* ===== verification/ChainState.thy ===== *)
theory ChainState
  imports Leader
begin

section \<open>The content-addressed store and the chain state\<close>

text \<open>
  \<^verbatim>\<open>server/chain_db.rs\<close> and \<^verbatim>\<open>server/leto/chain_state\<close>. The RocksDB wrapper (crate
  \<^verbatim>\<open>storage\<close>) is the parameter record \<open>storage\<close>; the store handle is cloned between chain state,
  synchronizer and helper, so they share the one store state \<open>'s\<close>. A \<^verbatim>\<open>notify_read\<close> waits until
  its key is written: \<open>Ok None\<close> is the call that is still waiting.
\<close>

record ('s, 'b) storage =
  st_read :: "'s \<Rightarrow> digest \<Rightarrow> error + 'b option"
  st_write :: "'s \<Rightarrow> digest \<Rightarrow> 'b \<Rightarrow> 's"

text \<open>The third-party functions a replica uses, in one record.\<close>

record ('s, 'tx, 'b) env =
  crypt :: "'b crypto"
  store :: "('s, 'b) storage"
  cd_batch :: "('tx batch, 'b) codec"
  cd_element :: "('tx element, 'b) codec"
  cd_proposal :: "(proposal, 'b) codec"
  cd_round :: "(round, 'b) codec"
  cd_tx :: "('tx, 'b) codec"

text \<open>A store returns what was last written under a key.\<close>

definition storage_ok :: "('s, 'b) storage \<Rightarrow> bool" where
  "storage_ok st \<longleftrightarrow> (\<forall>s k v k'. st_read st (st_write st s k v) k' =
     (if k' = k then Inr (Some v) else st_read st s k'))"

definition env_ok :: "('s, 'tx, 'b) env \<Rightarrow> bool" where
  "env_ok e \<longleftrightarrow> storage_ok (store e) \<and> codec_ok (cd_batch e) \<and> codec_ok (cd_element e) \<and>
     codec_ok (cd_proposal e) \<and> codec_ok (cd_round e) \<and> codec_ok (cd_tx e)"

subsection \<open>ChainDB\<close>

definition db_read_as :: "('s, 'b) storage \<Rightarrow> ('v, 'b) codec \<Rightarrow> 's \<Rightarrow> digest \<Rightarrow> 'v option outcome" where
  "db_read_as st cd s h =
     bind_o (of_result (st_read st s h)) (\<lambda>r. case r of
       Some b \<Rightarrow> bind_o (ok_or DecodeError (decode cd b)) (\<lambda>v. Ok (Some v))
     | None \<Rightarrow> Ok None)"

definition db_read :: "('s, 'b) storage \<Rightarrow> ('v, 'b) codec \<Rightarrow> 's \<Rightarrow> digest \<Rightarrow> 'v option outcome" where
  "db_read st cd s h =
     bind_o (of_result (st_read st s h)) (\<lambda>r. case r of
       Some b \<Rightarrow> bind_o (ok_or DecodeError (decode cd b)) (\<lambda>v. Ok (Some v))
     | None \<Rightarrow> Ok None)"

definition db_notify_read :: "('s, 'b) storage \<Rightarrow> ('v, 'b) codec \<Rightarrow> 's \<Rightarrow> digest \<Rightarrow> 'v option outcome" where
  "db_notify_read st cd s h =
     bind_o (of_result (st_read st s h)) (\<lambda>r. case r of
       None \<Rightarrow> Ok None
     | Some b \<Rightarrow> bind_o (ok_or DecodeError (decode cd b)) (\<lambda>v. Ok (Some v)))"

definition db_write_serialized :: "('s, 'b) storage \<Rightarrow> 's \<Rightarrow> digest \<Rightarrow> 'b \<Rightarrow> 's" where
  "db_write_serialized st s h b = st_write st s h b"

definition db_write :: "'b crypto \<Rightarrow> ('s, 'b) storage \<Rightarrow> ('v, 'b) codec \<Rightarrow> 's \<Rightarrow> 'v \<Rightarrow> 's" where
  "db_write cr st cd s v = (let b = encode cd v in st_write st s (do_hash cr b) b)"

lemma db_read_no_panic [simp]: "db_read st cd s h \<noteq> Panic"
  by (auto simp: db_read_def bind_o_def split: outcome.splits option.splits)

lemma db_read_written [simp]:
  "storage_ok st \<Longrightarrow> codec_ok cd \<Longrightarrow> db_read st cd (st_write st s h (encode cd v)) h = Ok (Some v)"
  by (simp add: db_read_def storage_ok_def codec_ok_def)

lemma db_read_other:
  "storage_ok st \<Longrightarrow> h \<noteq> k \<Longrightarrow> db_read st cd (st_write st s k b) h = db_read st cd s h"
  by (simp add: db_read_def storage_ok_def)

lemma db_notify_read_eq: "db_notify_read st cd s h = db_read st cd s h"
  by (simp add: db_notify_read_def db_read_def)

text \<open>Content addressing: every stored byte string sits under its own hash.\<close>

definition content_addressed :: "'b crypto \<Rightarrow> ('s, 'b) storage \<Rightarrow> 's \<Rightarrow> bool" where
  "content_addressed cr st s \<longleftrightarrow> (\<forall>k b. st_read st s k = Inr (Some b) \<longrightarrow> do_hash cr b = k)"

lemma content_addressed_write [inv_intros]:
  "storage_ok st \<Longrightarrow> content_addressed cr st s \<Longrightarrow> content_addressed cr st (st_write st s (do_hash cr b) b)"
  by (simp add: content_addressed_def storage_ok_def)

lemma content_addressed_db_write [inv_intros]:
  "storage_ok st \<Longrightarrow> content_addressed cr st s \<Longrightarrow> content_addressed cr st (db_write cr st cd s v)"
  by (simp add: db_write_def Let_def content_addressed_write)

subsection \<open>Chain state\<close>

record ('s, 'tx) chain_state =
  cs_db :: 's
  cs_highest_hash :: digest
  cs_highest_element :: "'tx element"
  cs_qc_map :: "round \<rightharpoonup> certificate"

definition chain_state_new :: "('s, 'tx, 'b) env \<Rightarrow> 's \<Rightarrow> ('s, 'tx) chain_state" where
  "chain_state_new e s =
     (let g = element_genesis START_ID in
      \<lparr>cs_db = s, cs_highest_hash = ser_and_hash (crypt e) (cd_element e) g,
       cs_highest_element = g, cs_qc_map = Map.empty\<rparr>)"

definition get_batch :: "('s, 'tx, 'b) env \<Rightarrow> ('s, 'tx) chain_state \<Rightarrow> digest \<Rightarrow> 'tx batch option outcome" where
  "get_batch e cs h = db_read (store e) (cd_batch e) (cs_db cs) h"

definition get_element :: "('s, 'tx, 'b) env \<Rightarrow> ('s, 'tx) chain_state \<Rightarrow> digest \<Rightarrow> 'tx element option outcome" where
  "get_element e cs h = db_read (store e) (cd_element e) (cs_db cs) h"

definition highest_hash :: "('s, 'tx) chain_state \<Rightarrow> digest" where
  "highest_hash cs = cs_highest_hash cs"

definition highest_chain :: "('s, 'tx) chain_state \<Rightarrow> 'tx element" where
  "highest_chain cs = cs_highest_element cs"

definition update_highest_chain ::
  "('s, 'tx, 'b) env \<Rightarrow> proposal \<Rightarrow> signature \<Rightarrow> 'tx batch \<Rightarrow> ('s, 'tx) chain_state \<Rightarrow> ('s, 'tx) chain_state" where
  "update_highest_chain e p auth b cs =
     (let el = element_new p auth b;
          ser = encode (cd_element e) el;
          h = do_hash (crypt e) ser
      in cs\<lparr>cs_db := db_write_serialized (store e) (cs_db cs) h ser,
            cs_highest_hash := h, cs_highest_element := el\<rparr>)"

definition add_qc :: "round \<Rightarrow> certificate \<Rightarrow> ('s, 'tx) chain_state \<Rightarrow> ('s, 'tx) chain_state" where
  "add_qc r qc cs = cs\<lparr>cs_qc_map := (cs_qc_map cs)(r \<mapsto> qc)\<rparr>"

definition get_qc :: "('s, 'tx) chain_state \<Rightarrow> round \<Rightarrow> certificate option" where
  "get_qc cs r = cs_qc_map cs r"

definition write_element :: "('s, 'tx, 'b) env \<Rightarrow> 'tx element \<Rightarrow> ('s, 'tx) chain_state \<Rightarrow> ('s, 'tx) chain_state" where
  "write_element e el cs = cs\<lparr>cs_db := db_write (crypt e) (store e) (cd_element e) (cs_db cs) el\<rparr>"

definition write_batch_ref :: "('s, 'tx, 'b) env \<Rightarrow> 'tx batch \<Rightarrow> ('s, 'tx) chain_state \<Rightarrow> ('s, 'tx) chain_state" where
  "write_batch_ref e b cs =
     (let ser = encode (cd_batch e) b in
      cs\<lparr>cs_db := db_write_serialized (store e) (cs_db cs) (do_hash (crypt e) ser) ser\<rparr>)"

text \<open>\<^verbatim>\<open>genesis_setup\<close> returns only when the genesis element can be read back.\<close>

definition genesis_setup :: "('s, 'tx, 'b) env \<Rightarrow> ('s, 'tx) chain_state \<Rightarrow> bool outcome \<times> ('s, 'tx) chain_state" where
  "genesis_setup e cs =
     (let cs' = write_element e (cs_highest_element cs) cs in
      (bind_o (db_notify_read (store e) (cd_element e) (cs_db cs') (cs_highest_hash cs'))
         (\<lambda>r. Ok (r \<noteq> None)), cs'))"

text \<open>The chain state's own invariant: its highest element is stored under its highest hash.\<close>

definition chain_state_inv :: "('s, 'tx, 'b) env \<Rightarrow> ('s, 'tx) chain_state \<Rightarrow> bool" where
  "chain_state_inv e cs \<longleftrightarrow>
     content_addressed (crypt e) (store e) (cs_db cs) \<and>
     get_element e cs (cs_highest_hash cs) = Ok (Some (cs_highest_element cs)) \<and>
     cs_highest_hash cs = ser_and_hash (crypt e) (cd_element e) (cs_highest_element cs)"

lemma update_highest_chain_sel [simp]:
  "cs_highest_element (update_highest_chain e p a b cs) = element_new p a b"
  "cs_highest_hash (update_highest_chain e p a b cs) = ser_and_hash (crypt e) (cd_element e) (element_new p a b)"
  "cs_qc_map (update_highest_chain e p a b cs) = cs_qc_map cs"
  "cs_db (update_highest_chain e p a b cs) =
     st_write (store e) (cs_db cs) (ser_and_hash (crypt e) (cd_element e) (element_new p a b))
       (encode (cd_element e) (element_new p a b))"
  by (simp_all add: update_highest_chain_def Let_def ser_and_hash_def db_write_serialized_def)

lemma write_batch_ref_sel [simp]:
  "cs_highest_element (write_batch_ref e b cs) = cs_highest_element cs"
  "cs_highest_hash (write_batch_ref e b cs) = cs_highest_hash cs"
  "cs_qc_map (write_batch_ref e b cs) = cs_qc_map cs"
  "cs_db (write_batch_ref e b cs) =
     st_write (store e) (cs_db cs) (ser_and_hash (crypt e) (cd_batch e) b) (encode (cd_batch e) b)"
  by (simp_all add: write_batch_ref_def Let_def ser_and_hash_def db_write_serialized_def)

lemma write_element_sel [simp]:
  "cs_highest_element (write_element e el cs) = cs_highest_element cs"
  "cs_highest_hash (write_element e el cs) = cs_highest_hash cs"
  "cs_qc_map (write_element e el cs) = cs_qc_map cs"
  "cs_db (write_element e el cs) =
     st_write (store e) (cs_db cs) (ser_and_hash (crypt e) (cd_element e) el) (encode (cd_element e) el)"
  by (simp_all add: write_element_def db_write_def Let_def ser_and_hash_def)

lemma add_qc_sel [simp]:
  "cs_highest_element (add_qc r qc cs) = cs_highest_element cs"
  "cs_highest_hash (add_qc r qc cs) = cs_highest_hash cs"
  "cs_db (add_qc r qc cs) = cs_db cs"
  "cs_qc_map (add_qc r qc cs) = (cs_qc_map cs)(r \<mapsto> qc)"
  by (simp_all add: add_qc_def)

text \<open>
  Each write keeps the invariant. A batch (or another element) could only damage the stored
  highest element through a hash collision, which the second premise excludes.
\<close>

lemma update_highest_chain_inv [inv_intros]:
  "env_ok e \<Longrightarrow> chain_state_inv e cs \<Longrightarrow> chain_state_inv e (update_highest_chain e p a b cs)"
  by (simp add: chain_state_inv_def env_ok_def get_element_def)
     (simp add: ser_and_hash_def content_addressed_write)

lemma add_qc_inv [inv_intros]: "chain_state_inv e cs \<Longrightarrow> chain_state_inv e (add_qc r qc cs)"
  by (auto simp: chain_state_inv_def get_element_def)

lemma write_batch_ref_inv [inv_intros]:
  assumes "env_ok e" "chain_state_inv e cs"
    and "ser_and_hash (crypt e) (cd_batch e) b \<noteq> cs_highest_hash cs"
  shows "chain_state_inv e (write_batch_ref e b cs)"
proof -
  have st: "storage_ok (store e)" using assms(1) by (simp add: env_ok_def)
  have "db_read (store e) (cd_element e) (st_write (store e) (cs_db cs)
          (ser_and_hash (crypt e) (cd_batch e) b) (encode (cd_batch e) b)) (cs_highest_hash cs) =
        db_read (store e) (cd_element e) (cs_db cs) (cs_highest_hash cs)"
    using assms(3) by (intro db_read_other [OF st]) simp
  with assms(2) st show ?thesis
    unfolding chain_state_inv_def get_element_def write_batch_ref_sel
    by (auto simp: ser_and_hash_def intro: content_addressed_write)
qed

lemma genesis_setup_ok:
  assumes "env_ok e" "content_addressed (crypt e) (store e) s"
  shows "fst (genesis_setup e (chain_state_new e s)) = Ok True"
    and "chain_state_inv e (snd (genesis_setup e (chain_state_new e s)))"
  using assms
  by (simp_all add: genesis_setup_def chain_state_new_def Let_def env_ok_def db_notify_read_eq
        chain_state_inv_def get_element_def)
     (simp add: ser_and_hash_def content_addressed_write)

end
