(* ===== verification/RoundBuffer.thy ===== *)
theory RoundBuffer
  imports Prelude "HOL-Library.Multiset"
begin

section \<open>The contract of a round buffer\<close>

text \<open>
  Each protocol buffers the messages of future rounds and hands them out when it reaches their
  round. The abstract buffer is a bag of pending messages per round: delivering a message of the
  current or a later round adds it to its bag, delivering an old one changes nothing, and
  advancing moves to the next round and keeps the bags of the later rounds. The locale is
  interpreted on the round state of every protocol.
\<close>

datatype 'm buf_event = Deliver 'm | Advance

locale round_buffer =
  fixes cur :: "'s \<Rightarrow> round"
    and msg_round :: "'m \<Rightarrow> round"
    and accepts :: "'m \<Rightarrow> bool"
    and pending :: "'s \<Rightarrow> round \<Rightarrow> 'm multiset"
    and deliver :: "'m \<Rightarrow> 's \<Rightarrow> 's"
    and advance :: "'s \<Rightarrow> 's"
  assumes deliver_cur: "accepts m \<Longrightarrow> cur (deliver m s) = cur s"
    and deliver_old: "accepts m \<Longrightarrow> msg_round m < cur s \<Longrightarrow> deliver m s = s"
    and deliver_new: "accepts m \<Longrightarrow> cur s \<le> msg_round m \<Longrightarrow> cur s \<le> r \<Longrightarrow>
      pending (deliver m s) r = pending s r + (if r = msg_round m then {#m#} else {#})"
    and advance_cur: "cur (advance s) = Suc (cur s)"
    and advance_pending: "cur s < r \<Longrightarrow> pending s r \<subseteq># pending (advance s) r"
begin

definition buf_step :: "'s \<Rightarrow> 'm buf_event \<Rightarrow> 's" where
  "buf_step s ev = (case ev of Deliver m \<Rightarrow> deliver m s | Advance \<Rightarrow> advance s)"

definition buf_ok :: "'m buf_event \<Rightarrow> bool" where
  "buf_ok ev = (case ev of Deliver m \<Rightarrow> accepts m | Advance \<Rightarrow> True)"

lemma step_cur: "buf_ok ev \<Longrightarrow> cur s \<le> cur (buf_step s ev)"
  by (cases ev) (simp_all add: buf_step_def buf_ok_def deliver_cur advance_cur)

lemma run_cur: "list_all buf_ok evs \<Longrightarrow> cur s \<le> cur (foldl buf_step s evs)"
proof (induction evs arbitrary: s)
  case (Cons ev evs)
  then have "cur s \<le> cur (buf_step s ev)" "cur (buf_step s ev) \<le> cur (foldl buf_step (buf_step s ev) evs)"
    by (auto intro: step_cur)
  then show ?case by simp
qed simp

lemma step_pending:
  assumes "buf_ok ev" "cur (buf_step s ev) \<le> r"
  shows "pending s r \<subseteq># pending (buf_step s ev) r"
proof (cases ev)
  case Advance
  with assms show ?thesis by (simp add: buf_step_def advance_cur advance_pending)
next
  case (Deliver m)
  with assms have m: "accepts m" "cur s \<le> r"
    by (simp_all add: buf_ok_def buf_step_def deliver_cur)
  show ?thesis
  proof (cases "msg_round m < cur s")
    case True
    with m Deliver show ?thesis by (simp add: buf_step_def deliver_old)
  next
    case False
    with m Deliver show ?thesis by (simp add: buf_step_def deliver_new)
  qed
qed

text \<open>Nothing that waits for a round is lost while the buffer has not passed that round.\<close>

lemma run_pending:
  "list_all buf_ok evs \<Longrightarrow> cur (foldl buf_step s evs) \<le> r \<Longrightarrow>
     pending s r \<subseteq># pending (foldl buf_step s evs) r"
proof (induction evs arbitrary: s)
  case (Cons ev evs)
  then have "cur (buf_step s ev) \<le> r" using run_cur [of evs "buf_step s ev"] by simp
  with Cons.prems have "pending s r \<subseteq># pending (buf_step s ev) r" by (simp add: step_pending)
  also have "\<dots> \<subseteq># pending (foldl buf_step (buf_step s ev) evs) r" using Cons by simp
  finally show ?case by simp
qed simp

lemma delivered_is_kept:
  assumes "accepts m" "cur s \<le> msg_round m" "list_all buf_ok evs"
    and "cur (foldl buf_step (deliver m s) evs) \<le> msg_round m"
  shows "m \<in># pending (foldl buf_step (deliver m s) evs) (msg_round m)"
proof -
  have "m \<in># pending (deliver m s) (msg_round m)" using assms(1,2) by (simp add: deliver_new)
  then show ?thesis using run_pending [OF assms(3,4)] mset_subset_eqD by fastforce
qed

end

text \<open>A buffer that also drops what a finished round left unread.\<close>

locale purging_round_buffer = round_buffer cur msg_round accepts pending deliver advance
  for cur :: "'s \<Rightarrow> round"
    and msg_round :: "'m \<Rightarrow> round"
    and accepts :: "'m \<Rightarrow> bool"
    and pending :: "'s \<Rightarrow> round \<Rightarrow> 'm multiset"
    and deliver :: "'m \<Rightarrow> 's \<Rightarrow> 's"
    and advance :: "'s \<Rightarrow> 's" +
  assumes advance_purges: "r \<le> cur s \<Longrightarrow> pending (advance s) r = {#}"
    and deliver_below: "accepts m \<Longrightarrow> r < cur s \<Longrightarrow> pending (deliver m s) r = pending s r"
begin

lemma step_purged:
  assumes "\<And>r. r < cur s \<Longrightarrow> pending s r = {#}" "buf_ok ev" "r < cur (buf_step s ev)"
  shows "pending (buf_step s ev) r = {#}"
  using assms
  by (cases ev) (auto simp: buf_step_def buf_ok_def advance_cur advance_purges deliver_cur deliver_below)

lemma run_purged:
  assumes "\<And>r. r < cur s \<Longrightarrow> pending s r = {#}" "list_all buf_ok evs"
    and "r < cur (foldl buf_step s evs)"
  shows "pending (foldl buf_step s evs) r = {#}"
  using assms
proof (induction evs arbitrary: s)
  case (Cons ev evs)
  have "pending (buf_step s ev) r' = {#}" if "r' < cur (buf_step s ev)" for r'
    using Cons.prems that by (intro step_purged) auto
  with Cons show ?case by simp
qed simp

end

end
