(* ===== verification/RoundContext.thy ===== *)
theory RoundContext
  imports ChainState RoundBuffer
begin

section \<open>Leto's round context\<close>

text \<open>
  \<^verbatim>\<open>server/leto/round_context.rs\<close>: the current round, the messages of the current round,
  the queues of proposals, blames and blame certificates of later rounds, the blames counted in
  the current round, and the cancel handlers of the messages in flight. A cancel handler (crate
  \<^verbatim>\<open>tcp-reliable-sender\<close>) is a value of the parameter type \<open>'c\<close>. The interval timer is the
  number of its resets together with the \<^verbatim>\<open>timer_enabled\<close> flag the caller owns.
\<close>

type_synonym 'tx prop_msg = "proposal \<times> signature \<times> 'tx batch \<times> node_id"
type_synonym blame_msg = "round \<times> signature"
type_synonym blame_qc_msg = "round \<times> certificate"

record ('tx, 'c) round_context =
  rc_round :: round
  rc_msg_buf :: "round \<rightharpoonup> 'tx protocol_msg list"
  rc_proposals_ready :: "round \<rightharpoonup> 'tx prop_msg list"
  rc_blame_ready :: "round \<rightharpoonup> blame_msg list"
  rc_blame_qc_ready :: "round \<rightharpoonup> blame_qc_msg list"
  rc_cancel_handlers :: "round \<rightharpoonup> 'c list"
  rc_blame_map :: "node_id \<rightharpoonup> signature"
  rc_got_qc :: bool
  rc_num_nodes :: nat

record round_timer =
  tm_resets :: nat
  tm_enabled :: bool

definition rc_new :: "nat \<Rightarrow> ('tx, 'c) round_context" where
  "rc_new n =
     \<lparr>rc_round = 1, rc_msg_buf = Map.empty, rc_proposals_ready = Map.empty,
      rc_blame_ready = Map.empty, rc_blame_qc_ready = Map.empty,
      rc_cancel_handlers = Map.empty, rc_blame_map = Map.empty, rc_got_qc = False,
      rc_num_nodes = n\<rparr>"

definition add_handler :: "'c \<Rightarrow> ('tx, 'c) round_context \<Rightarrow> ('tx, 'c) round_context" where
  "add_handler h rc =
     rc\<lparr>rc_cancel_handlers := push_entry (rc_round rc) h (rc_cancel_handlers rc)\<rparr>"

definition add_handlers :: "'c list \<Rightarrow> ('tx, 'c) round_context \<Rightarrow> ('tx, 'c) round_context" where
  "add_handlers hs rc =
     rc\<lparr>rc_cancel_handlers := extend_entry (rc_round rc) hs (rc_cancel_handlers rc)\<rparr>"

definition disable_blame_timers :: "round_timer \<Rightarrow> round_timer" where
  "disable_blame_timers tm = tm\<lparr>tm_enabled := False\<rparr>"

definition propose_msgs ::
  "('tx, 'c) round_context \<Rightarrow> 'tx prop_msg list option \<times> ('tx, 'c) round_context" where
  "propose_msgs rc = (rc_proposals_ready rc (rc_round rc),
     rc\<lparr>rc_proposals_ready := (rc_proposals_ready rc)(rc_round rc := None)\<rparr>)"

definition blame_msgs ::
  "('tx, 'c) round_context \<Rightarrow> blame_msg list option \<times> ('tx, 'c) round_context" where
  "blame_msgs rc = (rc_blame_ready rc (rc_round rc),
     rc\<lparr>rc_blame_ready := (rc_blame_ready rc)(rc_round rc := None)\<rparr>)"

definition blame_qc_msgs ::
  "('tx, 'c) round_context \<Rightarrow> blame_qc_msg list option \<times> ('tx, 'c) round_context" where
  "blame_qc_msgs rc = (rc_blame_qc_ready rc (rc_round rc),
     rc\<lparr>rc_blame_qc_ready := (rc_blame_qc_ready rc)(rc_round rc := None)\<rparr>)"

definition queue_proposal ::
  "proposal \<Rightarrow> signature \<Rightarrow> 'tx batch \<Rightarrow> node_id \<Rightarrow> ('tx, 'c) round_context \<Rightarrow> ('tx, 'c) round_context" where
  "queue_proposal p a b sender rc =
     rc\<lparr>rc_proposals_ready := push_entry (p_round p) (p, a, b, sender) (rc_proposals_ready rc)\<rparr>"

definition queue_blame :: "round \<Rightarrow> signature \<Rightarrow> ('tx, 'c) round_context \<Rightarrow> ('tx, 'c) round_context" where
  "queue_blame r a rc = rc\<lparr>rc_blame_ready := push_entry r (r, a) (rc_blame_ready rc)\<rparr>"

definition queue_blame_qc :: "round \<Rightarrow> certificate \<Rightarrow> ('tx, 'c) round_context \<Rightarrow> ('tx, 'c) round_context" where
  "queue_blame_qc r qc rc = rc\<lparr>rc_blame_qc_ready := push_entry r (r, qc) (rc_blame_qc_ready rc)\<rparr>"

text \<open>\<^verbatim>\<open>self.msg_buf.entry(self.current_round).or_default().push_back(m)\<close> for each message.\<close>

fun push_current :: "'tx protocol_msg list \<Rightarrow> ('tx, 'c) round_context \<Rightarrow> ('tx, 'c) round_context" where
  "push_current [] rc = rc"
| "push_current (m # ms) rc =
     push_current ms (rc\<lparr>rc_msg_buf := push_entry (rc_round rc) m (rc_msg_buf rc)\<rparr>)"

definition propose_of :: "'tx prop_msg \<Rightarrow> 'tx protocol_msg" where
  "propose_of x = (case x of (p, a, b, sender) \<Rightarrow> Propose p a b sender)"

definition blame_of :: "blame_msg \<Rightarrow> 'tx protocol_msg" where
  "blame_of x = (case x of (r, a) \<Rightarrow> Blame r a)"

definition blame_qc_of :: "blame_qc_msg \<Rightarrow> 'tx protocol_msg" where
  "blame_qc_of x = (case x of (r, qc) \<Rightarrow> BlameQC r qc)"

definition rc_advance_round ::
  "nat \<Rightarrow> round_timer \<Rightarrow> ('tx, 'c) round_context \<Rightarrow> round_timer \<times> ('tx, 'c) round_context" where
  "rc_advance_round gc_depth tm rc =
     (let cur = rc_round rc + 1;
          threshold = cur - gc_depth;
          rc1 = rc\<lparr>rc_round := cur,
                   rc_cancel_handlers := retain_keys (\<lambda>r. threshold \<le> r) (rc_cancel_handlers rc),
                   rc_msg_buf := retain_keys (\<lambda>r. cur \<le> r) (rc_msg_buf rc),
                   rc_blame_map := Map.empty, rc_got_qc := False\<rparr>;
          tm1 = tm\<lparr>tm_resets := tm_resets tm + 1, tm_enabled := True\<rparr>;
          (props, rc2) = propose_msgs rc1;
          rc3 = (case props of None \<Rightarrow> rc2 | Some ms \<Rightarrow> push_current (map propose_of ms) rc2);
          (qcs, rc4) = blame_qc_msgs rc3;
          rc5 = (case qcs of None \<Rightarrow> rc4 | Some ms \<Rightarrow> push_current (map blame_qc_of ms) rc4);
          (blames, rc6) = blame_msgs rc5;
          rc7 = (case blames of None \<Rightarrow> rc6 | Some ms \<Rightarrow> push_current (map blame_of ms) rc6)
      in (tm1, rc7))"

definition rc_sync ::
  "'tx protocol_msg \<Rightarrow> ('tx, 'c) round_context \<Rightarrow> unit outcome \<times> ('tx, 'c) round_context" where
  "rc_sync m rc =
     (case (case m of Propose p a b s \<Rightarrow> Some (p_round p) | Blame r a \<Rightarrow> Some r
            | BlameQC r qc \<Rightarrow> Some r | _ \<Rightarrow> None) of
        None \<Rightarrow> (Panic, rc)
      | Some r \<Rightarrow>
          if r < rc_round rc then (Ok (), rc)
          else if rc_round rc < r then
            (case m of
               Propose p a b s \<Rightarrow> (Ok (), queue_proposal p a b s rc)
             | Blame r' a \<Rightarrow> (Ok (), queue_blame r' a rc)
             | BlameQC r' qc \<Rightarrow> (Ok (), queue_blame_qc r' qc rc)
             | _ \<Rightarrow> (Panic, rc))
          else (Ok (), rc\<lparr>rc_msg_buf := push_entry (rc_round rc) m (rc_msg_buf rc)\<rparr>))"

definition rc_is_ready :: "('tx, 'c) round_context \<Rightarrow> bool" where
  "rc_is_ready rc = (case rc_msg_buf rc (rc_round rc) of None \<Rightarrow> False | Some ms \<Rightarrow> ms \<noteq> [])"

definition rc_poll_next ::
  "('tx, 'c) round_context \<Rightarrow> 'tx protocol_msg outcome \<times> ('tx, 'c) round_context" where
  "rc_poll_next rc = (case rc_msg_buf rc (rc_round rc) of
     None \<Rightarrow> (Panic, rc)
   | Some [] \<Rightarrow> (Panic, rc)
   | Some (m # ms) \<Rightarrow> (Ok m, rc\<lparr>rc_msg_buf := (rc_msg_buf rc)(rc_round rc \<mapsto> ms)\<rparr>))"


subsection \<open>Closed forms of the operations\<close>

lemma extend_after_push [simp]: "extend_entry k vs (push_entry k v m) = extend_entry k (v # vs) m"
  by (simp add: push_entry_def extend_entry_def entry_list_def)

lemma push_current_eq:
  "push_current ms rc =
     (if ms = [] then rc
      else rc\<lparr>rc_msg_buf := extend_entry (rc_round rc) ms (rc_msg_buf rc)\<rparr>)"
proof (induction ms arbitrary: rc)
  case Nil
  then show ?case by simp
next
  case (Cons m ms)
  then show ?case by (simp add: push_entry_def)
    (simp add: extend_entry_def entry_list_def)
qed

lemma push_current_sel [simp]:
  "rc_round (push_current ms rc) = rc_round rc"
  "rc_proposals_ready (push_current ms rc) = rc_proposals_ready rc"
  "rc_blame_ready (push_current ms rc) = rc_blame_ready rc"
  "rc_blame_qc_ready (push_current ms rc) = rc_blame_qc_ready rc"
  "rc_cancel_handlers (push_current ms rc) = rc_cancel_handlers rc"
  "rc_blame_map (push_current ms rc) = rc_blame_map rc"
  "rc_got_qc (push_current ms rc) = rc_got_qc rc"
  "rc_num_nodes (push_current ms rc) = rc_num_nodes rc"
  "entry_list (rc_msg_buf (push_current ms rc)) r =
     entry_list (rc_msg_buf rc) r @ (if r = rc_round rc then ms else [])"
  "dom (rc_msg_buf (push_current ms rc)) \<subseteq> insert (rc_round rc) (dom (rc_msg_buf rc))"
  by (auto simp: push_current_eq)

lemma rc_advance_sel [simp]:
  fixes rc :: "('tx, 'c) round_context" and gc :: nat and tm :: round_timer
  defines "rc' \<equiv> snd (rc_advance_round gc tm rc)"
  shows "rc_round rc' = rc_round rc + 1"
    and "rc_proposals_ready rc' = (rc_proposals_ready rc)(rc_round rc + 1 := None)"
    and "rc_blame_ready rc' = (rc_blame_ready rc)(rc_round rc + 1 := None)"
    and "rc_blame_qc_ready rc' = (rc_blame_qc_ready rc)(rc_round rc + 1 := None)"
    and "rc_cancel_handlers rc' = retain_keys (\<lambda>r. rc_round rc + 1 - gc \<le> r) (rc_cancel_handlers rc)"
    and "rc_blame_map rc' = Map.empty"
    and "rc_got_qc rc' = False"
    and "rc_num_nodes rc' = rc_num_nodes rc"
  unfolding rc'_def rc_advance_round_def
  by (simp_all add: Let_def propose_msgs_def blame_msgs_def blame_qc_msgs_def split: option.splits)

lemma rc_advance_timer [simp]:
  "fst (rc_advance_round gc tm rc) = \<lparr>tm_resets = tm_resets tm + 1, tm_enabled = True\<rparr>"
  by (simp add: rc_advance_round_def Let_def propose_msgs_def blame_msgs_def blame_qc_msgs_def)

lemma option_push_entry_list:
  "(case m k of None \<Rightarrow> rc | Some ms \<Rightarrow> push_current (map f ms) rc) =
     push_current (map f (entry_list m k)) rc"
  by (simp add: entry_list_def split: option.splits)

text \<open>
  The new round's buffer: what was already there, then its queued proposals, then its blame
  certificates, then its blames. Nothing older stays.
\<close>

lemma rc_advance_msg_buf:
  "entry_list (rc_msg_buf (snd (rc_advance_round gc tm rc))) r =
     (if r \<le> rc_round rc then []
      else entry_list (rc_msg_buf rc) r @
        (if r = rc_round rc + 1 then
           map propose_of (entry_list (rc_proposals_ready rc) r) @
           map blame_qc_of (entry_list (rc_blame_qc_ready rc) r) @
           map blame_of (entry_list (rc_blame_ready rc) r)
         else []))"
  by (simp add: rc_advance_round_def Let_def propose_msgs_def blame_msgs_def blame_qc_msgs_def
      option_push_entry_list)

lemma rc_advance_msg_buf_dom:
  "dom (rc_msg_buf rc) \<subseteq> {rc_round rc} \<Longrightarrow>
     dom (rc_msg_buf (snd (rc_advance_round gc tm rc))) \<subseteq> {rc_round rc + 1}"
proof -
  assume "dom (rc_msg_buf rc) \<subseteq> {rc_round rc}"
  then have "rc_msg_buf rc r = None" if "r \<noteq> rc_round rc" for r
    using that by (metis domIff insertE empty_iff subsetD)
  then have "retain_keys (\<lambda>r. Suc (rc_round rc) \<le> r) (rc_msg_buf rc) = Map.empty"
    by (auto simp: retain_keys_def fun_eq_iff)
  then show ?thesis
    by (auto simp: rc_advance_round_def Let_def propose_msgs_def blame_msgs_def blame_qc_msgs_def
        option_push_entry_list push_current_eq extend_entry_def split: if_splits)
qed

subsection \<open>The round buffer it implements\<close>

fun syncable :: "'tx protocol_msg \<Rightarrow> bool" where
  "syncable (Propose _ _ _ _) = True"
| "syncable (Blame _ _) = True"
| "syncable (BlameQC _ _) = True"
| "syncable _ = False"

fun msg_round :: "'tx protocol_msg \<Rightarrow> round" where
  "msg_round (Propose p _ _ _) = p_round p"
| "msg_round (Blame r _) = r"
| "msg_round (BlameQC r _) = r"
| "msg_round _ = 0"

definition rc_pending :: "('tx, 'c) round_context \<Rightarrow> round \<Rightarrow> 'tx protocol_msg multiset" where
  "rc_pending rc r = mset (entry_list (rc_msg_buf rc) r) +
     (if rc_round rc < r then
        mset (map propose_of (entry_list (rc_proposals_ready rc) r)) +
        mset (map blame_qc_of (entry_list (rc_blame_qc_ready rc) r)) +
        mset (map blame_of (entry_list (rc_blame_ready rc) r))
      else {#})"

lemmas queue_defs = queue_proposal_def queue_blame_def queue_blame_qc_def

lemma rc_sync_panics_iff: "fst (rc_sync m rc) = Panic \<longleftrightarrow> \<not> syncable m"
  by (cases m) (auto simp: rc_sync_def)

lemma rc_sync_round [simp]: "rc_round (snd (rc_sync m rc)) = rc_round rc"
  by (cases m) (auto simp: rc_sync_def queue_defs)

lemma rc_sync_old: "syncable m \<Longrightarrow> msg_round m < rc_round rc \<Longrightarrow> rc_sync m rc = (Ok (), rc)"
  by (cases m) (auto simp: rc_sync_def)

lemma rc_sync_pending:
  "syncable m \<Longrightarrow> rc_round rc \<le> msg_round m \<Longrightarrow>
     rc_pending (snd (rc_sync m rc)) r = rc_pending rc r + (if r = msg_round m then {#m#} else {#})"
  by (cases m)
     (auto simp: rc_sync_def queue_defs rc_pending_def propose_of_def blame_of_def blame_qc_of_def)

lemma rc_advance_pending:
  "rc_pending (snd (rc_advance_round gc tm rc)) r =
     (if r \<le> rc_round rc then {#} else rc_pending rc r)"
  by (simp add: rc_pending_def rc_advance_msg_buf)

interpretation rcb: purging_round_buffer rc_round msg_round syncable rc_pending
  "\<lambda>m rc. snd (rc_sync m rc)" "\<lambda>rc. snd (rc_advance_round gc tm rc)" for gc tm
proof (unfold_locales, goal_cases)
  case (7 m r s)
  then show ?case
    by (cases "msg_round m < rc_round s") (simp_all add: rc_sync_old rc_sync_pending)
qed (simp_all add: rc_sync_old rc_sync_pending rc_advance_pending)


subsection \<open>The invariant of the round context\<close>

text \<open>
  Every buffered message is of a kind the round handles and belongs to its round; only the
  current round has a message buffer; queues hold later rounds only; and the cancel handlers
  are of the last \<open>gc\<close> rounds and the current one.
\<close>

definition rc_inv :: "nat \<Rightarrow> ('tx, 'c) round_context \<Rightarrow> bool" where
  "rc_inv gc rc \<longleftrightarrow>
     (\<forall>r m. m \<in># rc_pending rc r \<longrightarrow> syncable m \<and> msg_round m = r) \<and>
     dom (rc_msg_buf rc) \<subseteq> {rc_round rc} \<and>
     dom (rc_proposals_ready rc) \<subseteq> {rc_round rc<..} \<and>
     dom (rc_blame_ready rc) \<subseteq> {rc_round rc<..} \<and>
     dom (rc_blame_qc_ready rc) \<subseteq> {rc_round rc<..} \<and>
     dom (rc_cancel_handlers rc) \<subseteq> {rc_round rc - gc..rc_round rc}"

datatype ('tx, 'c) rc_event =
    RcSync "'tx protocol_msg"
  | RcAdvance
  | RcPoll
  | RcHandler 'c
  | RcHandlers "'c list"

definition rc_step :: "nat \<Rightarrow> ('tx, 'c) round_context \<Rightarrow> ('tx, 'c) rc_event \<Rightarrow> ('tx, 'c) round_context" where
  "rc_step gc rc ev = (case ev of
     RcSync m \<Rightarrow> snd (rc_sync m rc)
   | RcAdvance \<Rightarrow> snd (rc_advance_round gc \<lparr>tm_resets = 0, tm_enabled = True\<rparr> rc)
   | RcPoll \<Rightarrow> snd (rc_poll_next rc)
   | RcHandler h \<Rightarrow> add_handler h rc
   | RcHandlers hs \<Rightarrow> add_handlers hs rc)"

lemma rc_new_inv [inv_intros]: "rc_inv gc (rc_new n)"
  by (simp add: rc_inv_def rc_new_def rc_pending_def)

lemma add_handler_sel [simp]:
  "rc_pending (add_handler h rc) = rc_pending rc" "rc_pending (add_handlers hs rc) = rc_pending rc"
  by (simp_all add: fun_eq_iff add_handler_def add_handlers_def rc_pending_def)

lemma add_handler_inv [inv_intros]: "rc_inv gc rc \<Longrightarrow> rc_inv gc (add_handler h rc)"
  unfolding rc_inv_def add_handler_sel by (auto simp: add_handler_def)

lemma add_handlers_inv [inv_intros]: "rc_inv gc rc \<Longrightarrow> rc_inv gc (add_handlers hs rc)"
  unfolding rc_inv_def add_handler_sel by (auto simp: add_handlers_def)

lemma rc_advance_inv [inv_intros]:
  assumes "rc_inv gc rc"
  shows "rc_inv gc (snd (rc_advance_round gc tm rc))"
proof -
  have "D - {Suc (rc_round rc)} \<subseteq> {Suc (rc_round rc)<..}" if "D \<subseteq> {rc_round rc<..}" for D
    using that by (auto simp: Suc_le_eq order.order_iff_strict subset_eq)
  note later = this
  have "dom (retain_keys (\<lambda>r. Suc (rc_round rc) - gc \<le> r) (rc_cancel_handlers rc))
        \<subseteq> {Suc (rc_round rc) - gc..Suc (rc_round rc)}"
    using assms by (auto simp: rc_inv_def)
  with assms show ?thesis
    using rc_advance_msg_buf_dom [of rc gc tm]
    unfolding rc_inv_def by (auto simp: rc_advance_pending dest!: later)
qed

lemma rc_sync_inv [inv_intros]:
  assumes "rc_inv gc rc" "syncable m"
  shows "rc_inv gc (snd (rc_sync m rc))"
proof (cases "msg_round m < rc_round rc")
  case True
  with assms show ?thesis by (simp add: rc_sync_old)
next
  case False
  then have "\<forall>r x. x \<in># rc_pending (snd (rc_sync m rc)) r \<longrightarrow> syncable x \<and> msg_round x = r"
    using assms by (auto simp: rc_sync_pending rc_inv_def split: if_splits)
  with False assms show ?thesis
    by (cases m) (auto simp: rc_inv_def rc_sync_def queue_defs)
qed

lemma rc_poll_next_ready:
  "rc_is_ready rc \<Longrightarrow> \<exists>m ms. rc_msg_buf rc (rc_round rc) = Some (m # ms) \<and>
     rc_poll_next rc = (Ok m, rc\<lparr>rc_msg_buf := (rc_msg_buf rc)(rc_round rc \<mapsto> ms)\<rparr>)"
  unfolding rc_is_ready_def rc_poll_next_def
  by (cases "rc_msg_buf rc (rc_round rc)"; cases "the (rc_msg_buf rc (rc_round rc))") simp_all

lemma rc_poll_next_not_ready: "\<not> rc_is_ready rc \<Longrightarrow> rc_poll_next rc = (Panic, rc)"
  by (auto simp: rc_is_ready_def rc_poll_next_def split: option.splits list.splits)

lemma rc_poll_next_pending:
  assumes "rc_poll_next rc = (Ok m, rc')"
  shows "rc_pending rc r = rc_pending rc' r + (if r = rc_round rc then {#m#} else {#})"
proof (cases "rc_is_ready rc")
  case False
  with assms show ?thesis by (simp add: rc_poll_next_not_ready)
next
  case True
  then obtain ms where ms: "rc_msg_buf rc (rc_round rc) = Some (m # ms)"
    "rc' = rc\<lparr>rc_msg_buf := (rc_msg_buf rc)(rc_round rc \<mapsto> ms)\<rparr>"
    using rc_poll_next_ready [OF True] assms by auto
  then show ?thesis by (simp add: rc_pending_def entry_list_def)
qed

lemma rc_poll_next_inv [inv_intros]:
  assumes "rc_inv gc rc"
  shows "rc_inv gc (snd (rc_poll_next rc))"
proof (cases "rc_is_ready rc")
  case False
  with assms show ?thesis by (simp add: rc_poll_next_not_ready)
next
  case True
  then obtain m ms where poll: "rc_msg_buf rc (rc_round rc) = Some (m # ms)"
    "rc_poll_next rc = (Ok m, rc\<lparr>rc_msg_buf := (rc_msg_buf rc)(rc_round rc \<mapsto> ms)\<rparr>)"
    using rc_poll_next_ready by blast
  then have "x \<in># rc_pending (snd (rc_poll_next rc)) r \<Longrightarrow> x \<in># rc_pending rc r" for x r
    using rc_poll_next_pending [OF poll(2), of r] by simp
  then have "\<forall>r x. x \<in># rc_pending (snd (rc_poll_next rc)) r \<longrightarrow> syncable x \<and> msg_round x = r"
    using assms unfolding rc_inv_def by blast
  with poll assms show ?thesis unfolding rc_inv_def by auto
qed

lemma rc_poll_next_msg:
  assumes "rc_inv gc rc" "rc_poll_next rc = (Ok m, rc')"
  shows "syncable m \<and> msg_round m = rc_round rc"
proof -
  have "m \<in># rc_pending rc (rc_round rc)" using rc_poll_next_pending [OF assms(2), of "rc_round rc"] by simp
  with assms(1) show ?thesis by (simp add: rc_inv_def)
qed

interpretation rcm: step_machine "rc_step gc"
  "\<lambda>ev. case ev of RcSync m \<Rightarrow> syncable m | _ \<Rightarrow> True" "rc_inv gc" for gc
  by unfold_locales
     (auto simp: rc_step_def intro: inv_intros split: rc_event.splits)


subsection \<open>Properties\<close>

text \<open>A message for the current or a later round that the round context synchronises is
  still waiting, whatever is synchronised and however many rounds are advanced afterwards, as
  long as its round has not been passed.\<close>

theorem rc_sync_never_loses:
  assumes "syncable m" "rc_round rc \<le> msg_round m"
    and "list_all (\<lambda>ev. case ev of Deliver x \<Rightarrow> syncable x | Advance \<Rightarrow> True) evs"
    and "rc_round (foldl (\<lambda>s ev. case ev of Deliver x \<Rightarrow> snd (rc_sync x s)
           | Advance \<Rightarrow> snd (rc_advance_round gc tm s)) (snd (rc_sync m rc)) evs) \<le> msg_round m"
  shows "m \<in># rc_pending (foldl (\<lambda>s ev. case ev of Deliver x \<Rightarrow> snd (rc_sync x s)
           | Advance \<Rightarrow> snd (rc_advance_round gc tm s)) (snd (rc_sync m rc)) evs) (msg_round m)"
  using rcb.delivered_is_kept [of m rc evs gc tm] assms
  unfolding rcb.buf_step_def rcb.buf_ok_def by simp

theorem rc_sync_never_loses_witness:
  "(Blame 3 \<lparr>sig_raw = [], sig_id = 2\<rparr> :: nat protocol_msg) \<in># rc_pending
     (foldl (\<lambda>s ev. case ev of Deliver x \<Rightarrow> snd (rc_sync x s)
           | Advance \<Rightarrow> snd (rc_advance_round 4 \<lparr>tm_resets = 0, tm_enabled = True\<rparr> s))
        (snd (rc_sync (Blame 3 \<lparr>sig_raw = [], sig_id = 2\<rparr>) (rc_new 4 :: (nat, nat) round_context)))
        [Advance, Deliver (Blame 3 \<lparr>sig_raw = [], sig_id = 1\<rparr>), Advance]) 3"
  using rc_sync_never_loses [of "Blame 3 \<lparr>sig_raw = [], sig_id = 2\<rparr>" "rc_new 4 :: (nat, nat) round_context"
      "[Advance, Deliver (Blame 3 \<lparr>sig_raw = [], sig_id = 1\<rparr>), Advance]" 4
      "\<lparr>tm_resets = 0, tm_enabled = True\<rparr>"]
  by (simp add: rc_new_def)

text \<open>From the initial round context, after any sequence of synchronised messages, round
  changes, polls and tracked sends: a ready buffer polls without a panic and yields a message of
  the current round, and the cancel handlers kept cover at most the GC depth plus one rounds.\<close>

theorem rc_run_safe:
  assumes "list_all (\<lambda>ev. case ev of RcSync m \<Rightarrow> syncable m | _ \<Rightarrow> True) evs"
    and "rc = foldl (rc_step gc) (rc_new n) evs"
  shows "card (dom (rc_cancel_handlers rc)) \<le> gc + 1 \<and>
    (rc_is_ready rc \<longrightarrow>
      (\<exists>m rc'. rc_poll_next rc = (Ok m, rc') \<and> syncable m \<and> msg_round m = rc_round rc))"
proof (intro conjI impI)
  have inv: "rc_inv gc rc" unfolding assms(2) using assms(1) by (intro rcm.run_inv inv_intros)
  then have "dom (rc_cancel_handlers rc) \<subseteq> {rc_round rc - gc..rc_round rc}" by (simp add: rc_inv_def)
  then have "card (dom (rc_cancel_handlers rc)) \<le> card {rc_round rc - gc..rc_round rc}"
    by (intro card_mono) auto
  then show "card (dom (rc_cancel_handlers rc)) \<le> gc + 1" by simp
  show "\<exists>m rc'. rc_poll_next rc = (Ok m, rc') \<and> syncable m \<and> msg_round m = rc_round rc"
    if "rc_is_ready rc"
    using rc_poll_next_ready [OF that] rc_poll_next_msg [OF inv] by blast
qed

theorem rc_run_safe_witness:
  "rc_poll_next (foldl (rc_step 4) (rc_new 4 :: (nat, nat) round_context)
      [RcHandler 7, RcSync (BlameQC 2 certificate_empty), RcAdvance]) \<noteq> (Panic, rc_new 4) \<and>
   card (dom (rc_cancel_handlers (foldl (rc_step 4) (rc_new 4 :: (nat, nat) round_context)
      [RcHandler 7, RcSync (BlameQC 2 certificate_empty), RcAdvance]))) \<le> 5"
proof -
  let ?evs = "[RcHandler 7, RcSync (BlameQC 2 certificate_empty), RcAdvance] :: (nat, nat) rc_event list"
  have ok: "list_all (\<lambda>ev. case ev of RcSync m \<Rightarrow> syncable m | _ \<Rightarrow> True) ?evs" by simp
  have ready: "rc_is_ready (foldl (rc_step 4) (rc_new 4) ?evs)"
    by (simp add: rc_step_def rc_new_def rc_is_ready_def rc_sync_def queue_defs add_handler_def
        rc_advance_round_def Let_def propose_msgs_def blame_msgs_def blame_qc_msgs_def
        push_entry_def extend_entry_def entry_list_def)
  from rc_run_safe [OF ok refl, of 4 4] ready show ?thesis by auto
qed

end
