(* ===== verification/ZeusTypes.thy ===== *)
theory ZeusTypes
  imports ChainState
begin

section \<open>Zeus: blocks, attestations, blames and messages\<close>

text \<open>
  \<^verbatim>\<open>types/zeus.rs\<close> and \<^verbatim>\<open>types/zeus_msg.rs\<close>. Zeus runs two chains: data blocks, made by the leader
  of an epoch, and a Leto chain whose batches hold attestations, each of which pins a data block.
  Hashes of blocks and attestations cover the envelope only, never the signature; the cached hash
  of the code is recomputed here. \<^verbatim>\<open>Arc\<close> is transparent.
\<close>

subsection \<open>Data blocks\<close>

record 'tx data_block_envelope =
  de_epoch :: nat
  de_height :: nat
  de_payload :: "'tx list"
  de_parent :: digest

record data_block_sig =
  ds_raw :: bytes
  ds_signer :: node_id

record 'tx data_block =
  db_envelope :: "'tx data_block_envelope"
  db_sig :: data_block_sig

definition data_genesis :: "'tx data_block" where
  "data_genesis =
     \<lparr>db_envelope = \<lparr>de_epoch = 0, de_height = 0, de_payload = [], de_parent = EMPTY_HASH\<rparr>,
      db_sig = \<lparr>ds_raw = [], ds_signer = 0\<rparr>\<rparr>"

definition data_is_genesis :: "'tx data_block \<Rightarrow> bool" where
  "data_is_genesis b \<longleftrightarrow> de_height (db_envelope b) = 0 \<and> de_epoch (db_envelope b) = 0"

abbreviation b_epoch :: "'tx data_block \<Rightarrow> nat" where
  "b_epoch b \<equiv> de_epoch (db_envelope b)"

abbreviation b_height :: "'tx data_block \<Rightarrow> nat" where
  "b_height b \<equiv> de_height (db_envelope b)"

abbreviation b_parent :: "'tx data_block \<Rightarrow> digest" where
  "b_parent b \<equiv> de_parent (db_envelope b)"

abbreviation b_payload :: "'tx data_block \<Rightarrow> 'tx list" where
  "b_payload b \<equiv> de_payload (db_envelope b)"

subsection \<open>Attestations\<close>

record attestation_envelope =
  ae_epoch_s :: nat
  ae_round_s :: round
  ae_block_hash :: digest
  ae_block_height :: nat
  ae_block_epoch :: nat
  ae_parent_s :: digest

record attestation_sig =
  as_raw :: bytes
  as_signer :: node_id

record attestation =
  at_envelope :: attestation_envelope
  at_sig :: attestation_sig

definition attestation_new :: "attestation_envelope \<Rightarrow> attestation_sig \<Rightarrow> attestation" where
  "attestation_new en sg = \<lparr>at_envelope = en, at_sig = sg\<rparr>"

definition att_height :: "attestation \<Rightarrow> nat" where
  "att_height a = ae_block_height (at_envelope a)"

lemma attestation_new_sel [simp]:
  "at_envelope (attestation_new en sg) = en" "at_sig (attestation_new en sg) = sg"
  by (simp_all add: attestation_new_def)

subsection \<open>Blames of an epoch's leader\<close>

definition TAG_ELEADER_BLAME :: "8 word" where
  "TAG_ELEADER_BLAME = 0x10"

definition TAG_REASON_SILENCE :: "8 word" where
  "TAG_REASON_SILENCE = 0"

definition TAG_REASON_EQUIVOCATION :: "8 word" where
  "TAG_REASON_EQUIVOCATION = 1"

datatype blame_reason = Silence | Equivocation

datatype 'tx blame_payload =
    SilenceP nat
  | EquivocationP nat "'tx data_block" "'tx data_block"

record 'tx eleader_blame =
  eb_epoch :: nat
  eb_reason :: blame_reason
  eb_payload :: "'tx blame_payload"
  eb_signer :: node_id
  eb_raw :: bytes

record 'tx eleader_change_qc =
  ec_epoch :: nat
  ec_blames :: "'tx eleader_blame list"

text \<open>The signed tuple of a blame (\<^verbatim>\<open>BlameSigned\<close> of \<^verbatim>\<open>zeus/chain_state/data_chain.rs\<close>).\<close>

record blame_signed =
  bs_tag :: "8 word"
  bs_epoch :: nat
  bs_reason_tag :: "8 word"
  bs_payload_bytes :: bytes

subsection \<open>Messages\<close>

datatype 'tx zeus_msg =
    SigPropose proposal signature attestation node_id
  | SigRelay proposal signature digest node_id
  | SigBlame round signature
  | SigBlameQC round certificate
  | AttestationRequest node_id request
  | AttestationResponse "attestation response"
  | SigElementRequest node_id request
  | SigElementResponse "attestation element response"
  | DataPropose "'tx data_block" node_id
  | DataRequest digest node_id
  | DataResponse "'tx data_block"
  | EleaderBlame "'tx eleader_blame"
  | EleaderChangeQC "'tx eleader_change_qc"

subsection \<open>The environment and the hashes\<close>

text \<open>
  The signature chain is a Leto chain whose transactions are attestations, so its environment is
  \<open>z_env\<close>. The data plane also hashes the two envelopes and the blame tuple, and writes whole
  blocks to its own store.
\<close>

record ('s, 'tx, 'b) zenv =
  z_env :: "('s, attestation, 'b) env"
  cd_denv :: "('tx data_block_envelope, 'b) codec"
  cd_aenv :: "(attestation_envelope, 'b) codec"
  cd_blame :: "(blame_signed, 'b) codec"
  cd_block :: "('tx data_block, 'b) codec"

definition zenv_ok :: "('s, 'tx, 'b) zenv \<Rightarrow> bool" where
  "zenv_ok ze \<longleftrightarrow> env_ok (z_env ze) \<and> codec_ok (cd_denv ze) \<and> codec_ok (cd_aenv ze) \<and>
     codec_ok (cd_blame ze) \<and> codec_ok (cd_block ze)"

definition data_block_hash :: "('s, 'tx, 'b) zenv \<Rightarrow> 'tx data_block \<Rightarrow> digest" where
  "data_block_hash ze b = ser_and_hash (crypt (z_env ze)) (cd_denv ze) (db_envelope b)"

definition attestation_hash :: "('s, 'tx, 'b) zenv \<Rightarrow> attestation \<Rightarrow> digest" where
  "attestation_hash ze a = ser_and_hash (crypt (z_env ze)) (cd_aenv ze) (at_envelope a)"

definition data_block_eq :: "('s, 'tx, 'b) zenv \<Rightarrow> 'tx data_block \<Rightarrow> 'tx data_block \<Rightarrow> bool" where
  "data_block_eq ze b b' \<longleftrightarrow> data_block_hash ze b = data_block_hash ze b'"

definition attestation_eq :: "('s, 'tx, 'b) zenv \<Rightarrow> attestation \<Rightarrow> attestation \<Rightarrow> bool" where
  "attestation_eq ze a a' \<longleftrightarrow> attestation_hash ze a = attestation_hash ze a'"

subsection \<open>The bytes that go into a blame's signature\<close>

text \<open>A digest's 32 bytes, most significant first, and a \<^verbatim>\<open>u64\<close> in little-endian order.\<close>

definition digest_bytes :: "digest \<Rightarrow> bytes" where
  "digest_bytes h = map (\<lambda>i. ucast (drop_bit (8 * (31 - i)) h)) [0..<32]"

definition u64_le_bytes :: "nat \<Rightarrow> bytes" where
  "u64_le_bytes n = map (\<lambda>i. of_nat (n div 2 ^ (8 * i))) [0..<8]"

lemma length_digest_bytes [simp]: "length (digest_bytes h) = 32"
  by (simp add: digest_bytes_def)

lemma length_u64_le_bytes [simp]: "length (u64_le_bytes n) = 8"
  by (simp add: u64_le_bytes_def)

lemma digest_bytes_inj: "digest_bytes h = digest_bytes h' \<Longrightarrow> h = h'"
proof (rule bit_word_eqI)
  fix n assume eq: "digest_bytes h = digest_bytes h'" and n: "n < LENGTH(256)"
  define i where "i = 31 - n div 8"
  have i: "i < 32" "31 - i = n div 8" using n by (auto simp: i_def)
  have "(ucast (drop_bit (8 * (n div 8)) h) :: 8 word) = ucast (drop_bit (8 * (n div 8)) h')"
    using arg_cong [OF eq, of "\<lambda>xs. xs ! i"] i by (simp add: digest_bytes_def)
  from arg_cong [OF this, of "\<lambda>w. bit w (n mod 8)"] n
  show "bit h n = bit h' n"
    by (simp add: bit_ucast_iff bit_drop_bit_eq)
qed

lemma u64_le_bytes_inj:
  assumes "u64_le_bytes m = u64_le_bytes n" "m < 2 ^ 64" "n < 2 ^ 64"
  shows "m = n"
proof (rule bit_eqI)
  fix k
  show "bit m k = bit n k"
  proof (cases "k < 64")
    case True
    then have "k div 8 < 8" by simp
    then have "(of_nat (m div 2 ^ (8 * (k div 8))) :: 8 word) = of_nat (n div 2 ^ (8 * (k div 8)))"
      using arg_cong [OF assms(1), of "\<lambda>xs. xs ! (k div 8)"] by (simp add: u64_le_bytes_def)
    from arg_cong [OF this, of "\<lambda>w. bit w (k mod 8)"] show ?thesis
      by (simp add: bit_simps flip: drop_bit_eq_div)
  next
    case False
    then have "(2::nat) ^ 64 \<le> 2 ^ k" by (intro power_increasing) auto
    then have "m < 2 ^ k" "n < 2 ^ k" using assms(2,3) by linarith+
    then show ?thesis by (simp add: bit_iff_odd)
  qed
qed

end
