(* ===== verification/ZeusRound.thy ===== *)
theory ZeusRound
  imports RoundContext ZeusTypes
begin

section \<open>The round state of Zeus's signature plane\<close>

text \<open>
  \<^verbatim>\<open>ZeusRoundState\<close> of \<^verbatim>\<open>server/zeus/core.rs\<close>: one queue of messages to handle now, one queue per
  future round. It implements the round-buffer contract, but not the purging one: what is still
  in the queue when the round advances stays there and is handled in the next round.
\<close>

record ('tx, 'c) zeus_round_state =
  zr_round :: round
  zr_msg_buf :: "'tx zeus_msg list"
  zr_future :: "round \<rightharpoonup> 'tx zeus_msg list"
  zr_blame_map :: "node_id \<rightharpoonup> signature"
  zr_got_qc :: bool
  zr_cancel_handlers :: "round \<rightharpoonup> 'c list"
  zr_num_nodes :: nat

definition zr_new :: "nat \<Rightarrow> ('tx, 'c) zeus_round_state" where
  "zr_new n =
     \<lparr>zr_round = 1, zr_msg_buf = [], zr_future = Map.empty, zr_blame_map = Map.empty,
      zr_got_qc = False, zr_cancel_handlers = Map.empty, zr_num_nodes = n\<rparr>"

definition zr_is_ready :: "('tx, 'c) zeus_round_state \<Rightarrow> bool" where
  "zr_is_ready s \<longleftrightarrow> zr_msg_buf s \<noteq> []"

definition zr_pop_msg :: "('tx, 'c) zeus_round_state \<Rightarrow> 'tx zeus_msg option \<times> ('tx, 'c) zeus_round_state" where
  "zr_pop_msg s = (case zr_msg_buf s of
     [] \<Rightarrow> (None, s) | m # ms \<Rightarrow> (Some m, s\<lparr>zr_msg_buf := ms\<rparr>))"

definition zr_enqueue ::
  "'tx zeus_msg \<Rightarrow> round \<Rightarrow> ('tx, 'c) zeus_round_state \<Rightarrow> ('tx, 'c) zeus_round_state" where
  "zr_enqueue m r s =
     (if r < zr_round s then s
      else if zr_round s < r then s\<lparr>zr_future := push_entry r m (zr_future s)\<rparr>
      else s\<lparr>zr_msg_buf := zr_msg_buf s @ [m]\<rparr>)"

definition zr_advance_round ::
  "nat \<Rightarrow> round_timer \<Rightarrow> ('tx, 'c) zeus_round_state \<Rightarrow> round_timer \<times> ('tx, 'c) zeus_round_state" where
  "zr_advance_round gc_depth tm s =
     (let cur = zr_round s + 1;
          threshold = cur - gc_depth
      in (tm\<lparr>tm_resets := tm_resets tm + 1, tm_enabled := True\<rparr>,
          s\<lparr>zr_round := cur, zr_blame_map := Map.empty, zr_got_qc := False,
            zr_cancel_handlers := retain_keys (\<lambda>r. threshold \<le> r) (zr_cancel_handlers s),
            zr_msg_buf := zr_msg_buf s @ entry_list (zr_future s) cur,
            zr_future := retain_keys (\<lambda>r. cur \<le> r) ((zr_future s)(cur := None))\<rparr>))"

definition zr_add_handler :: "'c \<Rightarrow> ('tx, 'c) zeus_round_state \<Rightarrow> ('tx, 'c) zeus_round_state" where
  "zr_add_handler h s = s\<lparr>zr_cancel_handlers := push_entry (zr_round s) h (zr_cancel_handlers s)\<rparr>"

definition zr_add_handlers :: "'c list \<Rightarrow> ('tx, 'c) zeus_round_state \<Rightarrow> ('tx, 'c) zeus_round_state" where
  "zr_add_handlers hs s = s\<lparr>zr_cancel_handlers := extend_entry (zr_round s) hs (zr_cancel_handlers s)\<rparr>"

definition zr_disable_timer :: "round_timer \<Rightarrow> round_timer" where
  "zr_disable_timer tm = tm\<lparr>tm_enabled := False\<rparr>"

subsection \<open>The round-buffer contract\<close>

text \<open>The messages \<^verbatim>\<open>dispatch\<close> sends through the buffer, and their rounds.\<close>

definition sig_round :: "'tx zeus_msg \<Rightarrow> round option" where
  "sig_round m = (case m of
     SigPropose p _ _ _ \<Rightarrow> Some (p_round p)
   | SigBlame r _ \<Rightarrow> Some r
   | SigBlameQC r _ \<Rightarrow> Some r
   | _ \<Rightarrow> None)"

definition zmsg_round :: "'tx zeus_msg \<Rightarrow> round" where
  "zmsg_round m = (case sig_round m of Some r \<Rightarrow> r | None \<Rightarrow> 0)"

definition zr_pending :: "('tx, 'c) zeus_round_state \<Rightarrow> round \<Rightarrow> 'tx zeus_msg multiset" where
  "zr_pending s r =
     (if r = zr_round s then mset (zr_msg_buf s) else {#}) + mset (entry_list (zr_future s) r)"

interpretation zrb: round_buffer zr_round zmsg_round "\<lambda>m. sig_round m \<noteq> None" zr_pending
    "\<lambda>m s. zr_enqueue m (zmsg_round m) s" "\<lambda>s. snd (zr_advance_round gc tm s)" for gc tm
  by unfold_locales
     (auto simp: zr_enqueue_def zr_advance_round_def Let_def zr_pending_def)

text \<open>A signature-plane message for the current or a later round that is enqueued is still waiting,
  whatever is enqueued and however many rounds are advanced afterwards, as long as its round has
  not been passed.\<close>

theorem zeus_round_never_loses:
  assumes "sig_round m \<noteq> None" "zr_round s \<le> zmsg_round m"
    and "list_all (\<lambda>ev. case ev of Deliver x \<Rightarrow> sig_round x \<noteq> None | Advance \<Rightarrow> True) evs"
    and "zr_round (foldl (\<lambda>s ev. case ev of Deliver x \<Rightarrow> zr_enqueue x (zmsg_round x) s
           | Advance \<Rightarrow> snd (zr_advance_round gc tm s)) (zr_enqueue m (zmsg_round m) s) evs) \<le> zmsg_round m"
  shows "m \<in># zr_pending (foldl (\<lambda>s ev. case ev of Deliver x \<Rightarrow> zr_enqueue x (zmsg_round x) s
           | Advance \<Rightarrow> snd (zr_advance_round gc tm s)) (zr_enqueue m (zmsg_round m) s) evs) (zmsg_round m)"
  using zrb.delivered_is_kept [of m s evs gc tm] assms
  unfolding zrb.buf_step_def zrb.buf_ok_def by simp

theorem zeus_round_never_loses_witness:
  "(SigBlame 3 \<lparr>sig_raw = [], sig_id = 2\<rparr> :: nat zeus_msg) \<in># zr_pending
     (foldl (\<lambda>s ev. case ev of Deliver x \<Rightarrow> zr_enqueue x (zmsg_round x) s
           | Advance \<Rightarrow> snd (zr_advance_round 4 \<lparr>tm_resets = 0, tm_enabled = True\<rparr> s))
        (zr_enqueue (SigBlame 3 \<lparr>sig_raw = [], sig_id = 2\<rparr>) 3 (zr_new 4 :: (nat, nat) zeus_round_state))
        [Advance, Deliver (SigBlame 3 \<lparr>sig_raw = [], sig_id = 1\<rparr>), Advance]) 3"
  using zeus_round_never_loses [of "SigBlame 3 \<lparr>sig_raw = [], sig_id = 2\<rparr>"
      "zr_new 4 :: (nat, nat) zeus_round_state"
      "[Advance, Deliver (SigBlame 3 \<lparr>sig_raw = [], sig_id = 1\<rparr>), Advance]" 4
      "\<lparr>tm_resets = 0, tm_enabled = True\<rparr>"]
  by (simp add: zr_new_def sig_round_def zmsg_round_def zr_enqueue_def zr_advance_round_def Let_def)

end
