(* ===== verification/LinkedMap.thy ===== *)
theory LinkedMap
  imports Prelude
begin

section \<open>Linked hash maps\<close>

text \<open>
  The \<^verbatim>\<open>linked-hash-map\<close> crate is not part of the repository. The operations the code calls are
  the fields of \<open>lhm_ops\<close>; \<open>lhm_ok\<close> states their documented behaviour through the iteration
  order: inserting a present key replaces its value and moves it to the back, writing through
  \<^verbatim>\<open>get_mut\<close> or an entry leaves the order alone.
\<close>

record ('m, 'k, 'v) lhm_ops =
  lhm_empty :: 'm
  lhm_iter :: "'m \<Rightarrow> ('k \<times> 'v) list"
  lhm_insert :: "'k \<Rightarrow> 'v \<Rightarrow> 'm \<Rightarrow> 'm"
  lhm_get :: "'m \<Rightarrow> 'k \<Rightarrow> 'v option"
  lhm_modify :: "'k \<Rightarrow> ('v \<Rightarrow> 'v) \<Rightarrow> 'm \<Rightarrow> 'm"
  lhm_remove :: "'k \<Rightarrow> 'm \<Rightarrow> 'm"
  lhm_pop_front :: "'m \<Rightarrow> (('k \<times> 'v) \<times> 'm) option"
  lhm_back :: "'m \<Rightarrow> ('k \<times> 'v) option"
  lhm_len :: "'m \<Rightarrow> nat"
  lhm_extend :: "'m \<Rightarrow> 'm \<Rightarrow> 'm"

definition back_insert :: "'k \<Rightarrow> 'v \<Rightarrow> ('k \<times> 'v) list \<Rightarrow> ('k \<times> 'v) list" where
  "back_insert k v xs = filter (\<lambda>e. fst e \<noteq> k) xs @ [(k, v)]"

definition lhm_ok :: "('m, 'k, 'v) lhm_ops \<Rightarrow> bool" where
  "lhm_ok o' \<longleftrightarrow>
     lhm_iter o' (lhm_empty o') = [] \<and>
     (\<forall>k v m. lhm_iter o' (lhm_insert o' k v m) = back_insert k v (lhm_iter o' m)) \<and>
     (\<forall>m k. lhm_get o' m k = map_of (lhm_iter o' m) k) \<and>
     (\<forall>k f m. lhm_iter o' (lhm_modify o' k f m) =
        map (\<lambda>e. (fst e, if fst e = k then f (snd e) else snd e)) (lhm_iter o' m)) \<and>
     (\<forall>k m. lhm_iter o' (lhm_remove o' k m) = filter (\<lambda>e. fst e \<noteq> k) (lhm_iter o' m)) \<and>
     (\<forall>m. lhm_pop_front o' m = None \<longleftrightarrow> lhm_iter o' m = []) \<and>
     (\<forall>m e m'. lhm_pop_front o' m = Some (e, m') \<longrightarrow> lhm_iter o' m = e # lhm_iter o' m') \<and>
     (\<forall>m. lhm_back o' m = (if lhm_iter o' m = [] then None else Some (last (lhm_iter o' m)))) \<and>
     (\<forall>m. lhm_len o' m = length (lhm_iter o' m)) \<and>
     (\<forall>m m'. lhm_iter o' (lhm_extend o' m m') =
        foldl (\<lambda>xs e. back_insert (fst e) (snd e) xs) (lhm_iter o' m) (lhm_iter o' m'))"

text \<open>\<^verbatim>\<open>*map.entry(k).or_insert(0) += n\<close>\<close>

definition lhm_bump :: "('m, 'k, nat) lhm_ops \<Rightarrow> 'k \<Rightarrow> nat \<Rightarrow> 'm \<Rightarrow> 'm" where
  "lhm_bump o' k n m =
     lhm_modify o' k (\<lambda>c. c + n) (if lhm_get o' m k = None then lhm_insert o' k 0 m else m)"

lemma lhm_okD:
  assumes "lhm_ok o'"
  shows "lhm_iter o' (lhm_empty o') = []"
    and "lhm_iter o' (lhm_insert o' k v m) = back_insert k v (lhm_iter o' m)"
    and "lhm_get o' m k = map_of (lhm_iter o' m) k"
    and "lhm_iter o' (lhm_modify o' k f m) =
        map (\<lambda>e. (fst e, if fst e = k then f (snd e) else snd e)) (lhm_iter o' m)"
    and "lhm_iter o' (lhm_remove o' k m) = filter (\<lambda>e. fst e \<noteq> k) (lhm_iter o' m)"
    and "lhm_back o' m = (if lhm_iter o' m = [] then None else Some (last (lhm_iter o' m)))"
    and "lhm_len o' m = length (lhm_iter o' m)"
    and "lhm_iter o' (lhm_extend o' m m') =
        foldl (\<lambda>xs e. back_insert (fst e) (snd e) xs) (lhm_iter o' m) (lhm_iter o' m')"
  using assms by (simp_all add: lhm_ok_def)

lemma lhm_pop_front_Nil: "lhm_ok o' \<Longrightarrow> lhm_iter o' m = [] \<Longrightarrow> lhm_pop_front o' m = None"
  by (simp add: lhm_ok_def)

lemma lhm_pop_front_Cons:
  assumes "lhm_ok o'" "lhm_iter o' m = e # es"
  obtains m' where "lhm_pop_front o' m = Some (e, m')" "lhm_iter o' m' = es"
proof -
  obtain x m' where "lhm_pop_front o' m = Some (x, m')"
    using assms by (cases "lhm_pop_front o' m") (auto simp: lhm_ok_def)
  moreover from this have "lhm_iter o' m = x # lhm_iter o' m'" using assms(1) unfolding lhm_ok_def by blast
  ultimately show ?thesis using assms(2) that by simp
qed

lemma back_insert_new: "k \<notin> fst ` set xs \<Longrightarrow> back_insert k v xs = xs @ [(k, v)]"
  by (auto simp: back_insert_def filter_id_conv)

lemma back_insert_keys: "fst ` set (back_insert k v xs) = insert k (fst ` set xs)"
  by (auto simp: back_insert_def)

lemma back_insert_distinct: "distinct (map fst xs) \<Longrightarrow> distinct (map fst (back_insert k v xs))"
  by (auto simp: back_insert_def distinct_map_filter)

lemma extend_disjoint:
  "fst ` set xs \<inter> fst ` set ys = {} \<Longrightarrow> distinct (map fst ys) \<Longrightarrow>
     foldl (\<lambda>xs e. back_insert (fst e) (snd e) xs) xs ys = xs @ ys"
proof (induction ys arbitrary: xs)
  case (Cons y ys)
  then show ?case by (simp add: back_insert_new)
qed simp

lemma map_of_map_values:
  "map_of (map (\<lambda>e. (fst e, if fst e = k then f (snd e) else snd e)) xs) k' =
     (if k' = k then map_option f (map_of xs k') else map_of xs k')"
  by (induction xs) auto

lemma lhm_modify_lookup:
  "lhm_ok o' \<Longrightarrow> map_of (lhm_iter o' (lhm_modify o' k f m)) k' =
     (if k' = k then map_option f (map_of (lhm_iter o' m) k') else map_of (lhm_iter o' m) k')"
  by (simp only: lhm_okD(4) map_of_map_values)

lemma lhm_bump_lookup:
  assumes "lhm_ok o'"
  shows "map_of (lhm_iter o' (lhm_bump o' k n m)) k' =
    (if k' = k then Some (n + (case map_of (lhm_iter o' m) k of None \<Rightarrow> 0 | Some c \<Rightarrow> c))
     else map_of (lhm_iter o' m) k')"
proof -
  have "map_of (filter (\<lambda>e. fst e \<noteq> k) xs) x = (if x = k then None else map_of xs x)"
    for x and xs :: "('b \<times> nat) list"
    by (induction xs) auto
  then show ?thesis
    unfolding lhm_bump_def lhm_modify_lookup [OF assms]
    by (cases "map_of (lhm_iter o' m) k")
       (simp_all add: lhm_okD [OF assms] back_insert_def map_add_def split: option.splits)
qed

lemma lhm_bump_distinct:
  assumes "lhm_ok o'" "distinct (map fst (lhm_iter o' m))"
  shows "distinct (map fst (lhm_iter o' (lhm_bump o' k n m)))"
  using assms(2) back_insert_distinct [of "lhm_iter o' m" k 0]
  by (simp add: lhm_bump_def lhm_okD [OF assms(1)] o_def)

text \<open>Counts that are never zero: as found, and as iterated.\<close>

definition counts_pos :: "('m, 'k, nat) lhm_ops \<Rightarrow> 'm \<Rightarrow> bool" where
  "counts_pos o' m \<longleftrightarrow> (\<forall>k c. lhm_get o' m k = Some c \<longrightarrow> 0 < c)"

definition iter_pos :: "('m, 'k, nat) lhm_ops \<Rightarrow> 'm \<Rightarrow> bool" where
  "iter_pos o' m \<longleftrightarrow> (\<forall>x \<in> set (lhm_iter o' m). 0 < snd x)"

lemma iter_pos_counts: "lhm_ok o' \<Longrightarrow> iter_pos o' m \<Longrightarrow> counts_pos o' m"
  by (fastforce simp: counts_pos_def iter_pos_def lhm_okD(3) dest: map_of_SomeD)

lemma iter_pos_empty: "lhm_ok o' \<Longrightarrow> iter_pos o' (lhm_empty o')"
  by (simp add: iter_pos_def lhm_okD(1))

lemma iter_pos_bump: "lhm_ok o' \<Longrightarrow> iter_pos o' m \<Longrightarrow> iter_pos o' (lhm_bump o' k 1 m)"
  by (auto simp: iter_pos_def lhm_bump_def lhm_okD(2,4) back_insert_def)

lemma counts_pos_bump: "lhm_ok o' \<Longrightarrow> counts_pos o' m \<Longrightarrow> 0 < n \<Longrightarrow> counts_pos o' (lhm_bump o' k n m)"
  by (simp add: counts_pos_def lhm_okD(3) lhm_bump_lookup)

lemma counts_pos_merge:
  assumes "lhm_ok o'" "counts_pos o' m" "\<forall>x \<in> set xs. 0 < snd x"
  shows "counts_pos o' (foldl (\<lambda>u x. lhm_bump o' (fst x) (snd x) u) m xs)"
  using assms(2,3) by (induction xs arbitrary: m) (simp_all add: counts_pos_bump [OF assms(1)])

lemma counts_pos_decrement:
  assumes "lhm_ok o'" "counts_pos o' m" "lhm_get o' m k = Some c"
  defines "m1 \<equiv> lhm_modify o' k (\<lambda>c. c - 1) m"
  shows "counts_pos o' (if c - 1 = 0 then lhm_remove o' k m1 else m1)"
proof -
  have "map_of (filter (\<lambda>e. fst e \<noteq> k) xs) j = (if j = k then None else map_of xs j)"
    for j and xs :: "('b \<times> nat) list" by (induction xs) auto
  with assms(2,3) show ?thesis
    by (auto simp: counts_pos_def m1_def lhm_okD(3,5) [OF assms(1)] lhm_modify_lookup [OF assms(1)] split: if_splits)
qed

subsection \<open>A list instance\<close>

text \<open>The laws hold of plain lists of pairs; concrete runs use this instance.\<close>

definition lhm_list :: "(('k \<times> 'v) list, 'k, 'v) lhm_ops" where
  "lhm_list =
     \<lparr>lhm_empty = [], lhm_iter = (\<lambda>m. m), lhm_insert = back_insert, lhm_get = map_of,
      lhm_modify = (\<lambda>k f m. map (\<lambda>e. (fst e, if fst e = k then f (snd e) else snd e)) m),
      lhm_remove = (\<lambda>k m. filter (\<lambda>e. fst e \<noteq> k) m),
      lhm_pop_front = (\<lambda>m. case m of [] \<Rightarrow> None | e # es \<Rightarrow> Some (e, es)),
      lhm_back = (\<lambda>m. if m = [] then None else Some (last m)), lhm_len = length,
      lhm_extend = (\<lambda>m m'. foldl (\<lambda>xs e. back_insert (fst e) (snd e) xs) m m')\<rparr>"

lemma lhm_list_ok: "lhm_ok lhm_list"
  by (simp add: lhm_ok_def lhm_list_def split: list.splits)

end
