(* ===== verification/Instances.thy ===== *)
theory Instances
  imports ChainState LinkedMap
begin

section \<open>A concrete environment\<close>

text \<open>
  A concrete choice of the parameters (hash, signatures, codecs, store) for transactions that
  are numbers, on which concrete runs are evaluated. Serialized data is the tagged value itself.
  It satisfies the laws the properties assume.
\<close>

datatype ser =
    SBatch "nat list"
  | SElement "nat element"
  | SProposal proposal
  | SRound round
  | STx nat

fun test_hash :: "ser \<Rightarrow> digest" where
  "test_hash (SBatch b) = of_nat (100 + length b)"
| "test_hash (SElement el) =
     of_nat (1000 + 100 * p_round (el_proposal el) + 10 * sig_id (el_auth el) + length (el_batch el))"
| "test_hash (SProposal p) = of_nat (5000 + p_round p)"
| "test_hash (SRound r) = of_nat (9000 + r)"
| "test_hash (STx t) = of_nat t"

definition test_crypto :: "ser crypto" where
  "test_crypto = \<lparr>do_hash = test_hash, sk_sign = (\<lambda>sk h. Inr (sk @ [ucast h])),
     pk_verify = (\<lambda>pk h raw. raw = pk @ [ucast h])\<rparr>"

type_synonym test_db = "digest \<rightharpoonup> ser"

definition test_store :: "(test_db, ser) storage" where
  "test_store = \<lparr>st_read = (\<lambda>s k. Inr (s k)), st_write = (\<lambda>s k v. s(k \<mapsto> v))\<rparr>"

definition test_env :: "(test_db, nat, ser) env" where
  "test_env =
     \<lparr>crypt = test_crypto, store = test_store,
      cd_batch = \<lparr>encode = SBatch, decode = (\<lambda>x. case x of SBatch b \<Rightarrow> Some b | _ \<Rightarrow> None)\<rparr>,
      cd_element = \<lparr>encode = SElement, decode = (\<lambda>x. case x of SElement b \<Rightarrow> Some b | _ \<Rightarrow> None)\<rparr>,
      cd_proposal = \<lparr>encode = SProposal, decode = (\<lambda>x. case x of SProposal b \<Rightarrow> Some b | _ \<Rightarrow> None)\<rparr>,
      cd_round = \<lparr>encode = SRound, decode = (\<lambda>x. case x of SRound b \<Rightarrow> Some b | _ \<Rightarrow> None)\<rparr>,
      cd_tx = \<lparr>encode = STx, decode = (\<lambda>x. case x of STx b \<Rightarrow> Some b | _ \<Rightarrow> None)\<rparr>\<rparr>"

lemma test_env_ok: "env_ok test_env"
  by (simp add: env_ok_def storage_ok_def codec_ok_def test_env_def test_store_def)

lemma test_env_sel [simp]:
  "ser_and_hash (crypt test_env) (cd_element test_env) el = test_hash (SElement el)"
  "ser_and_hash (crypt test_env) (cd_batch test_env) b = test_hash (SBatch b)"
  "ser_and_hash (crypt test_env) (cd_round test_env) r = test_hash (SRound r)"
  "ser_and_hash (crypt test_env) (cd_proposal test_env) p = test_hash (SProposal p)"
  "pk_verify (crypt test_env) pk h raw = (raw = pk @ [ucast h])"
  "sk_sign (crypt test_env) sk h = Inr (sk @ [ucast h])"
  "db_read (store test_env) (cd_element test_env) s h =
     (case s h of None \<Rightarrow> Ok None | Some (SElement b) \<Rightarrow> Ok (Some b) | Some _ \<Rightarrow> Err DecodeError)"
  "db_read (store test_env) (cd_batch test_env) s h =
     (case s h of None \<Rightarrow> Ok None | Some (SBatch b) \<Rightarrow> Ok (Some b) | Some _ \<Rightarrow> Err DecodeError)"
  by (auto simp: test_env_def test_crypto_def test_store_def ser_and_hash_def db_read_def
      split: option.splits ser.splits)

lemma test_env_content: "content_addressed (crypt test_env) (store test_env) Map.empty"
  by (simp add: content_addressed_def test_env_def test_store_def)

lemma test_signing_ok: "signing_ok (crypt test_env) (\<lambda>sk. sk)"
  by (simp add: signing_ok_def)

text \<open>An element of a given round, proposer, parent and batch.\<close>

definition test_element :: "round \<Rightarrow> node_id \<Rightarrow> digest \<Rightarrow> nat list \<Rightarrow> nat element" where
  "test_element r i par b =
     \<lparr>el_proposal = \<lparr>p_block = \<lparr>batch_hash = of_nat (100 + length b), prev_hash = par\<rparr>,
                    p_qc = None, p_round = r\<rparr>,
      el_auth = \<lparr>sig_raw = [], sig_id = i\<rparr>, el_batch = b\<rparr>"

end
