(* ===== verification/OrderedMap.thy ===== *)
theory OrderedMap
  imports Prelude
begin

section \<open>Ordered maps\<close>

text \<open>
  \<^verbatim>\<open>std::collections::BTreeMap\<close>, iterated in key order, as an association list with strictly
  increasing keys. The locale \<open>ordered_map\<close> is the contract its client (the transaction pool)
  relies on: lookups after an insert or a removal, and the sum of a weight over the entries.
\<close>

type_synonym ('k, 'v) bmap = "('k \<times> 'v) list"

fun bm_insert :: "'k :: linorder \<Rightarrow> 'v \<Rightarrow> ('k, 'v) bmap \<Rightarrow> ('k, 'v) bmap" where
  "bm_insert k v [] = [(k, v)]"
| "bm_insert k v ((k', v') # m) =
     (if k < k' then (k, v) # (k', v') # m
      else if k = k' then (k, v) # m else (k', v') # bm_insert k v m)"

fun bm_remove :: "'k \<Rightarrow> ('k, 'v) bmap \<Rightarrow> ('k, 'v) bmap" where
  "bm_remove k [] = []"
| "bm_remove k ((k', v') # m) = (if k = k' then m else (k', v') # bm_remove k m)"

definition bm_range :: "'k :: linorder \<Rightarrow> 'k \<Rightarrow> ('k, 'v) bmap \<Rightarrow> 'k list" where
  "bm_range lo hi m = filter (\<lambda>k. lo \<le> k \<and> k \<le> hi) (map fst m)"

definition bm_ok :: "('k :: linorder, 'v) bmap \<Rightarrow> bool" where
  "bm_ok m \<longleftrightarrow> sorted_wrt (<) (map fst m)"

definition bm_weight :: "('v \<Rightarrow> nat) \<Rightarrow> ('k, 'v) bmap \<Rightarrow> nat" where
  "bm_weight w m = sum_list (map (w \<circ> snd) m)"

definition opt_weight :: "('v \<Rightarrow> nat) \<Rightarrow> 'v option \<Rightarrow> nat" where
  "opt_weight w x = (case x of None \<Rightarrow> 0 | Some v \<Rightarrow> w v)"

lemma opt_weight_simps [simp]: "opt_weight w None = 0" "opt_weight w (Some v) = w v"
  by (simp_all add: opt_weight_def)

text \<open>The byte-counter idiom: remove a key if present and give its weight back.\<close>

definition drop_key :: "('v \<Rightarrow> nat) \<Rightarrow> 'k \<Rightarrow> ('k, 'v) bmap \<times> nat \<Rightarrow> ('k, 'v) bmap \<times> nat" where
  "drop_key w k mb = (case map_of (fst mb) k of
     None \<Rightarrow> mb | Some v \<Rightarrow> (bm_remove k (fst mb), snd mb - w v))"

locale ordered_map =
  fixes ok :: "'m \<Rightarrow> bool"
    and lookup :: "'m \<Rightarrow> 'k \<Rightarrow> 'v option"
    and ins :: "'k \<Rightarrow> 'v \<Rightarrow> 'm \<Rightarrow> 'm"
    and del :: "'k \<Rightarrow> 'm \<Rightarrow> 'm"
    and weight :: "('v \<Rightarrow> nat) \<Rightarrow> 'm \<Rightarrow> nat"
  assumes ok_ins: "ok m \<Longrightarrow> ok (ins k v m)"
    and ok_del: "ok m \<Longrightarrow> ok (del k m)"
    and lookup_ins: "ok m \<Longrightarrow> lookup (ins k v m) k' = (if k' = k then Some v else lookup m k')"
    and lookup_del: "ok m \<Longrightarrow> lookup (del k m) k' = (if k' = k then None else lookup m k')"
    and weight_ins: "ok m \<Longrightarrow> weight w (ins k v m) + opt_weight w (lookup m k) = weight w m + w v"
    and weight_del: "ok m \<Longrightarrow> weight w (del k m) + opt_weight w (lookup m k) = weight w m"
begin

lemma weight_ge: "ok m \<Longrightarrow> lookup m k = Some v \<Longrightarrow> w v \<le> weight w m"
  using weight_del [of m w k] by simp

lemma weight_del_Some: "ok m \<Longrightarrow> lookup m k = Some v \<Longrightarrow> weight w (del k m) = weight w m - w v"
  using weight_del [of m w k] by simp

lemma weight_del_None: "ok m \<Longrightarrow> lookup m k = None \<Longrightarrow> weight w (del k m) = weight w m"
  using weight_del [of m w k] by simp

lemma weight_ins_None: "ok m \<Longrightarrow> lookup m k = None \<Longrightarrow> weight w (ins k v m) = weight w m + w v"
  using weight_ins [of m w k v] by simp

lemma weight_ins_Some:
  "ok m \<Longrightarrow> lookup m k = Some u \<Longrightarrow> weight w (ins k v m) = weight w m - w u + w v"
  using weight_ins [of m w k v] weight_ge [of m k u w] by simp

definition counted_del :: "('v \<Rightarrow> nat) \<Rightarrow> 'k \<Rightarrow> 'm \<times> nat \<Rightarrow> 'm \<times> nat" where
  "counted_del w k mb = (case lookup (fst mb) k of
     None \<Rightarrow> mb | Some v \<Rightarrow> (del k (fst mb), snd mb - w v))"

lemma counted_del_inv:
  "ok m \<Longrightarrow> b = weight w m \<Longrightarrow>
     ok (fst (counted_del w k (m, b))) \<and> snd (counted_del w k (m, b)) = weight w (fst (counted_del w k (m, b)))"
  by (auto simp: counted_del_def ok_del weight_del_Some split: option.splits)

lemma counted_del_lookup:
  "ok m \<Longrightarrow> lookup (fst (counted_del w k (m, b))) k' = (if k' = k then None else lookup m k')"
  by (auto simp: counted_del_def lookup_del split: option.splits)

lemma counted_dels_inv:
  "ok m \<Longrightarrow> b = weight w m \<Longrightarrow>
     ok (fst (foldl (\<lambda>mb k. counted_del w k mb) (m, b) ks)) \<and>
     snd (foldl (\<lambda>mb k. counted_del w k mb) (m, b) ks) =
       weight w (fst (foldl (\<lambda>mb k. counted_del w k mb) (m, b) ks)) \<and>
     lookup (fst (foldl (\<lambda>mb k. counted_del w k mb) (m, b) ks)) k' =
       (if k' \<in> set ks then None else lookup m k')"
proof (induction ks arbitrary: m b)
  case Nil
  then show ?case by simp
next
  case (Cons k ks)
  obtain m' b' where mb: "counted_del w k (m, b) = (m', b')" by fastforce
  then have "ok m'" "b' = weight w m'" "\<And>x. lookup m' x = (if x = k then None else lookup m x)"
    using counted_del_inv [of m b w k] counted_del_lookup [of m w k b] Cons.prems by simp_all
  with Cons.IH [of m' b'] mb show ?case by simp
qed

end

lemma bm_insert_keys: "fst ` set (bm_insert k v m) = insert k (fst ` set m)"
  by (induction k v m rule: bm_insert.induct) auto

lemma bm_remove_subset: "set (bm_remove k m) \<subseteq> set m"
  by (induction k m rule: bm_remove.induct) auto

lemma bm_ok_Cons [simp]: "bm_ok ((k, v) # m) \<longleftrightarrow> (\<forall>x \<in> set m. k < fst x) \<and> bm_ok m"
  by (simp add: bm_ok_def)

lemma bm_ok_Nil [simp]: "bm_ok []"
  by (simp add: bm_ok_def)

lemma bm_ok_insert: "bm_ok m \<Longrightarrow> bm_ok (bm_insert k v m)"
proof (induction k v m rule: bm_insert.induct)
  case (2 k v k' v' m)
  have "\<forall>x \<in> set (bm_insert k v m). k' < fst x" if "k' < k" "\<forall>x \<in> set m. k' < fst x"
    using that bm_insert_keys [of k v m] by (metis (no_types, lifting) image_iff insertE)
  with 2 show ?case by (auto dest: less_trans)
qed simp

lemma bm_ok_remove: "bm_ok m \<Longrightarrow> bm_ok (bm_remove k m)"
  by (induction k m rule: bm_remove.induct) (use bm_remove_subset in fastforce)+

lemma map_of_None_less: "\<forall>x \<in> set m. (k :: 'k :: linorder) < fst x \<Longrightarrow> map_of m k = None"
  by (auto simp: map_of_eq_None_iff)

lemma bm_lookup_insert: "map_of (bm_insert k v m) k' = (if k' = k then Some v else map_of m k')"
  by (induction k v m rule: bm_insert.induct) auto

lemma bm_lookup_remove: "bm_ok m \<Longrightarrow> map_of (bm_remove k m) k' = (if k' = k then None else map_of m k')"
  by (induction k m rule: bm_remove.induct) (auto simp: map_of_None_less)

lemma bm_weight_Cons [simp]: "bm_weight w ((k, v) # m) = w v + bm_weight w m"
  by (simp add: bm_weight_def)

lemma bm_weight_Nil [simp]: "bm_weight w [] = 0"
  by (simp add: bm_weight_def)

lemma bm_weight_insert:
  "bm_ok m \<Longrightarrow> bm_weight w (bm_insert k v m) + opt_weight w (map_of m k) = bm_weight w m + w v"
proof (induction k v m rule: bm_insert.induct)
  case (2 k v k' v' m)
  have "map_of ((k', v') # m) k = None" if "k < k'"
    using that 2(2) by (intro map_of_None_less) (auto dest: less_trans)
  with 2 show ?case by auto
qed simp

lemma bm_weight_remove: "bm_weight w (bm_remove k m) + opt_weight w (map_of m k) = bm_weight w m"
  by (induction k m rule: bm_remove.induct) auto

interpretation bm: ordered_map bm_ok map_of bm_insert bm_remove bm_weight
  by unfold_locales
     (simp_all add: bm_ok_insert bm_ok_remove bm_lookup_insert bm_lookup_remove bm_weight_insert
        bm_weight_remove)

lemma drop_key_eq: "drop_key = bm.counted_del"
  by (simp add: fun_eq_iff drop_key_def bm.counted_del_def)

lemmas drop_key_inv = bm.counted_del_inv [folded drop_key_eq]
lemmas drop_key_lookup = bm.counted_del_lookup [folded drop_key_eq]
lemmas drop_keys_inv = bm.counted_dels_inv [folded drop_key_eq]

text \<open>Two ordered maps with the same lookups are the same list: order of insertion never shows.\<close>

lemma bm_extensional:
  "bm_ok m \<Longrightarrow> bm_ok m' \<Longrightarrow> map_of m = map_of m' \<Longrightarrow> m = m'"
proof -
  assume a: "bm_ok m" "bm_ok m'" "map_of m = map_of m'"
  have d: "distinct (map fst m)" "distinct (map fst m')"
    using a by (simp_all add: bm_ok_def strict_sorted_iff)
  have "set (map fst m) = set (map fst m')"
    using a(3) by (metis dom_map_of_conv_image_fst list.set_map)
  then have fsts: "map fst m = map fst m'"
    using a(1,2) by (simp add: bm_ok_def sorted_distinct_set_unique strict_sorted_iff)
  have rebuild: "map (\<lambda>k. (k, the (map_of xs k))) (map fst xs) = xs"
    if "distinct (map fst xs)" for xs :: "('a, 'b) bmap"
    using that by (simp add: o_def, intro map_idI) (auto dest: map_of_is_SomeI)
  show ?thesis
    using rebuild [OF d(1)] rebuild [OF d(2)] fsts a(3) by simp
qed

end
