(* ===== verification/Txpool.thy ===== *)
theory Txpool
  imports Types OrderedMap
begin

section \<open>The transaction pool\<close>

text \<open>
  \<^verbatim>\<open>server/tx_pool.rs\<close>: the nonce-keyed state machine Mineable / InFlight / committed. The
  \<^verbatim>\<open>Transaction\<close> trait (client, nonce) and \<^verbatim>\<open>bincode::serialized_size\<close> are the parameter record
  \<open>tx_ops\<close>. \<^verbatim>\<open>FnvHashSet\<close> index entries are lists without repetition. The \<^verbatim>\<open>Interval\<close> timer is
  the number of its resets.
\<close>

type_synonym tx_key = "node_id \<times> nonce"

record 'tx tx_ops =
  tx_client_id :: "'tx \<Rightarrow> node_id"
  tx_nonce :: "'tx \<Rightarrow> nonce"
  tx_serialized_size :: "'tx \<Rightarrow> nat option"

record 'tx inflight_entry =
  if_tx :: 'tx
  if_size :: nat
  if_round :: round

record 'tx txpool =
  tp_mineable :: "(tx_key, 'tx \<times> nat) bmap"
  tp_bytes :: nat
  tp_inflight :: "tx_key \<rightharpoonup> 'tx inflight_entry"
  tp_by_round :: "round \<rightharpoonup> tx_key list"
  tp_hi :: "node_id \<rightharpoonup> nonce"
  tp_batch_size :: nat
  tp_timer_resets :: nat

definition tx_key_of :: "'tx tx_ops \<Rightarrow> 'tx \<Rightarrow> tx_key" where
  "tx_key_of ops tx = (tx_client_id ops tx, tx_nonce ops tx)"

definition txpool_new :: "nat \<Rightarrow> 'tx txpool" where
  "txpool_new batch_size =
     \<lparr>tp_mineable = [], tp_bytes = 0, tp_inflight = Map.empty, tp_by_round = Map.empty,
      tp_hi = Map.empty, tp_batch_size = batch_size, tp_timer_resets = 0\<rparr>"

text \<open>\<^verbatim>\<open>*self.high_committed_nonce.get(&c).unwrap_or(&0)\<close>\<close>

definition hi_of :: "'tx txpool \<Rightarrow> node_id \<Rightarrow> nonce" where
  "hi_of p c = (case tp_hi p c of None \<Rightarrow> 0 | Some n \<Rightarrow> n)"

definition set_insert :: "'a \<Rightarrow> 'a list \<Rightarrow> 'a list" where
  "set_insert x xs = (if x \<in> set xs then xs else xs @ [x])"

definition add_tx :: "'tx tx_ops \<Rightarrow> 'tx \<Rightarrow> nat \<Rightarrow> 'tx txpool \<Rightarrow> 'tx txpool" where
  "add_tx ops tx sz p =
     (let c = tx_client_id ops tx; n = tx_nonce ops tx in
      if n \<le> hi_of p c then p
      else if tp_inflight p (c, n) \<noteq> None then p
      else
        let bytes = (case map_of (tp_mineable p) (c, n) of
               Some (_, old_size) \<Rightarrow> tp_bytes p - old_size | None \<Rightarrow> tp_bytes p)
        in p\<lparr>tp_mineable := bm_insert (c, n) (tx, sz) (tp_mineable p), tp_bytes := bytes + sz\<rparr>)"

definition admit_one :: "'tx tx_ops \<Rightarrow> round \<Rightarrow> 'tx \<Rightarrow> 'tx txpool \<Rightarrow> 'tx txpool" where
  "admit_one ops r tx p =
     (let c = tx_client_id ops tx; n = tx_nonce ops tx in
      if n \<le> hi_of p c then p
      else if tp_inflight p (c, n) \<noteq> None then p
      else
        let (sz, mineable, bytes) = (case map_of (tp_mineable p) (c, n) of
               Some (_, old) \<Rightarrow> (old, bm_remove (c, n) (tp_mineable p), tp_bytes p - old)
             | None \<Rightarrow> ((case tx_serialized_size ops tx of None \<Rightarrow> 0 | Some s \<Rightarrow> s),
                        tp_mineable p, tp_bytes p))
        in p\<lparr>tp_mineable := mineable, tp_bytes := bytes,
             tp_inflight := (tp_inflight p)((c, n) \<mapsto> \<lparr>if_tx = tx, if_size = sz, if_round = r\<rparr>),
             tp_by_round := (tp_by_round p)(r \<mapsto> set_insert (c, n) (entry_list (tp_by_round p) r))\<rparr>)"

definition touch_round :: "round \<Rightarrow> 'tx txpool \<Rightarrow> 'tx txpool" where
  "touch_round r p = p\<lparr>tp_by_round := (tp_by_round p)(r \<mapsto> entry_list (tp_by_round p) r)\<rparr>"

definition admit_proposal :: "'tx tx_ops \<Rightarrow> 'tx batch \<Rightarrow> round \<Rightarrow> 'tx txpool \<Rightarrow> 'tx txpool" where
  "admit_proposal ops b r p = foldl (\<lambda>p tx. admit_one ops r tx p) (touch_round r p) b"

definition reset_timer :: "'tx txpool \<Rightarrow> 'tx txpool" where
  "reset_timer p = p\<lparr>tp_timer_resets := tp_timer_resets p + 1\<rparr>"

text \<open>
  The loop of \<^verbatim>\<open>make_batch\<close>: pop the first key until the batch has enough bytes or nothing is
  left. Each turn removes an entry, so it ends whatever the sizes are.
\<close>

lemma bm_remove_head [simp]: "bm_remove k ((k, v) # m) = m"
  by simp

function make_batch_loop :: "round \<Rightarrow> nat \<Rightarrow> 'tx list \<Rightarrow> 'tx txpool \<Rightarrow> 'tx list \<times> 'tx txpool" where
  "make_batch_loop r batch_bytes payload p =
     (if batch_bytes < tp_batch_size p then
        (case tp_mineable p of
           [] \<Rightarrow> (payload, p)
         | (k, tx, sz) # _ \<Rightarrow>
             make_batch_loop r (batch_bytes + sz) (payload @ [tx])
               (p\<lparr>tp_mineable := bm_remove k (tp_mineable p), tp_bytes := tp_bytes p - sz,
                  tp_inflight := (tp_inflight p)(k \<mapsto> \<lparr>if_tx = tx, if_size = sz, if_round = r\<rparr>),
                  tp_by_round := (tp_by_round p)(r \<mapsto> set_insert k (entry_list (tp_by_round p) r))\<rparr>))
      else (payload, p))"
  by pat_completeness auto
termination
  by (relation "measure (\<lambda>(r, n, xs, p). length (tp_mineable p))") auto

declare make_batch_loop.simps [simp del]

definition make_batch :: "round \<Rightarrow> 'tx txpool \<Rightarrow> 'tx batch \<times> 'tx txpool" where
  "make_batch r p =
     (let (payload, p') = make_batch_loop r 0 [] (touch_round r p) in (payload, reset_timer p'))"

text \<open>First pass of \<^verbatim>\<open>commit\<close>, for one transaction; \<open>touched\<close> collects the clients.\<close>

definition commit_one :: "'tx tx_ops \<Rightarrow> 'tx \<Rightarrow> node_id list \<times> 'tx txpool \<Rightarrow> node_id list \<times> 'tx txpool" where
  "commit_one ops tx tp =
     (let (touched, p) = tp; c = tx_client_id ops tx; n = tx_nonce ops tx;
          by_round = (case tp_inflight p (c, n) of
             None \<Rightarrow> tp_by_round p
           | Some e \<Rightarrow> (case tp_by_round p (if_round e) of
               None \<Rightarrow> tp_by_round p
             | Some ks \<Rightarrow> (tp_by_round p)(if_round e \<mapsto> removeAll (c, n) ks)));
          (mineable, bytes) = drop_key snd (c, n) (tp_mineable p, tp_bytes p);
          cur = hi_of p c
      in (set_insert c touched,
          p\<lparr>tp_mineable := mineable, tp_bytes := bytes,
            tp_inflight := (tp_inflight p)((c, n) := None), tp_by_round := by_round,
            tp_hi := (tp_hi p)(c \<mapsto> (if cur < n then n else cur))\<rparr>))"

text \<open>Second pass: drop the mineable entries of a touched client up to its new high-water mark.\<close>

definition gc_client :: "node_id \<Rightarrow> 'tx txpool \<Rightarrow> 'tx txpool" where
  "gc_client c p =
     (let stale = bm_range (c, 0) (c, hi_of p c) (tp_mineable p);
          (mineable, bytes) = foldl (\<lambda>mb k. drop_key snd k mb) (tp_mineable p, tp_bytes p) stale
      in p\<lparr>tp_mineable := mineable, tp_bytes := bytes\<rparr>)"

definition commit_pool :: "'tx tx_ops \<Rightarrow> 'tx batch \<Rightarrow> round \<Rightarrow> 'tx txpool \<Rightarrow> 'tx txpool" where
  "commit_pool ops b r p =
     (let (touched, p1) = foldl (\<lambda>tp tx. commit_one ops tx tp) ([], p) b;
          p2 = foldl (\<lambda>p c. gc_client c p) p1 touched
      in case tp_by_round p2 r of
           None \<Rightarrow> p2
         | Some ks \<Rightarrow> if ks = [] then p2\<lparr>tp_by_round := (tp_by_round p2)(r := None)\<rparr> else p2)"

definition rollback_one :: "tx_key \<Rightarrow> 'tx txpool \<Rightarrow> 'tx txpool" where
  "rollback_one k p =
     (if snd k \<le> hi_of p (fst k) then p\<lparr>tp_inflight := (tp_inflight p)(k := None)\<rparr>
      else case tp_inflight p k of
        None \<Rightarrow> p
      | Some e \<Rightarrow> p\<lparr>tp_inflight := (tp_inflight p)(k := None),
                    tp_mineable := bm_insert k (if_tx e, if_size e) (tp_mineable p),
                    tp_bytes := tp_bytes p + if_size e\<rparr>)"

definition rollback_round :: "round \<Rightarrow> 'tx txpool \<Rightarrow> 'tx txpool" where
  "rollback_round r p = (case tp_by_round p r of
     None \<Rightarrow> p
   | Some ks \<Rightarrow> foldl (\<lambda>p k. rollback_one k p) (p\<lparr>tp_by_round := (tp_by_round p)(r := None)\<rparr>) ks)"

definition rollback :: "round list \<Rightarrow> 'tx txpool \<Rightarrow> 'tx txpool" where
  "rollback rs p = foldl (\<lambda>p r. rollback_round r p) p rs"

definition pool_ready :: "'tx txpool \<Rightarrow> bool" where
  "pool_ready p \<longleftrightarrow> tp_batch_size p < tp_bytes p"

definition key_sets_disjoint :: "'tx txpool \<Rightarrow> bool" where
  "key_sets_disjoint p \<longleftrightarrow> list_all (\<lambda>k. tp_inflight p k = None) (map fst (tp_mineable p))"


subsection \<open>The invariant\<close>

text \<open>
  Mineable is a well-formed ordered map and its byte counter is the sum of the sizes in it; no
  key is both Mineable and InFlight; the index by round lists exactly the InFlight keys of each
  round; every entry sits under the key of its transaction; and Mineable holds only nonces above
  the client's high-water mark.
\<close>

definition tp_inv :: "'tx tx_ops \<Rightarrow> 'tx txpool \<Rightarrow> bool" where
  "tp_inv ops p \<longleftrightarrow>
     bm_ok (tp_mineable p) \<and> tp_bytes p = bm_weight snd (tp_mineable p) \<and>
     (\<forall>k. tp_inflight p k \<noteq> None \<longrightarrow> map_of (tp_mineable p) k = None) \<and>
     (\<forall>r k. k \<in> set (entry_list (tp_by_round p) r) \<longleftrightarrow>
        (\<exists>e. tp_inflight p k = Some e \<and> if_round e = r)) \<and>
     (\<forall>r. distinct (entry_list (tp_by_round p) r)) \<and>
     (\<forall>k e. tp_inflight p k = Some e \<longrightarrow> tx_key_of ops (if_tx e) = k) \<and>
     (\<forall>k tx sz. map_of (tp_mineable p) k = Some (tx, sz) \<longrightarrow>
        hi_of p (fst k) < snd k \<and> tx_key_of ops tx = k)"

lemma tp_inv_idx:
  "tp_inv ops p \<Longrightarrow> k \<in> set (entry_list (tp_by_round p) r) \<longleftrightarrow>
     (\<exists>e. tp_inflight p k = Some e \<and> if_round e = r)"
  and tp_inv_idx_distinct: "tp_inv ops p \<Longrightarrow> distinct (entry_list (tp_by_round p) r)"
  unfolding tp_inv_def by blast+

lemma tp_inv_mineable:
  assumes "tp_inv ops p" "map_of (tp_mineable p) k = Some v"
  shows "hi_of p (fst k) < snd k" "tx_key_of ops (fst v) = k" "tp_inflight p k = None"
  using assms unfolding tp_inv_def by (cases v; fastforce)+

lemma tp_inv_disjoint: "tp_inv ops p \<Longrightarrow> key_sets_disjoint p"
  unfolding key_sets_disjoint_def tp_inv_def list_all_iff
  by (metis map_of_eq_None_iff list.set_map)

lemma set_insert_set [simp]: "set (set_insert x xs) = insert x (set xs)"
  by (auto simp: set_insert_def)

lemma set_insert_distinct [simp]: "distinct xs \<Longrightarrow> distinct (set_insert x xs)"
  by (simp add: set_insert_def)

lemma entry_list_upd [simp]: "entry_list (m(k \<mapsto> vs)) k' = (if k' = k then vs else entry_list m k')"
  by (simp add: entry_list_def)

lemma txpool_new_inv [inv_intros]: "tp_inv ops (txpool_new bs)"
  by (simp add: tp_inv_def txpool_new_def)

lemma hi_of_upd [simp]:
  "hi_of (p\<lparr>tp_mineable := m\<rparr>) c = hi_of p c" "hi_of (p\<lparr>tp_bytes := b\<rparr>) c = hi_of p c"
  "hi_of (p\<lparr>tp_inflight := i\<rparr>) c = hi_of p c" "hi_of (p\<lparr>tp_by_round := br\<rparr>) c = hi_of p c"
  "hi_of (p\<lparr>tp_timer_resets := t\<rparr>) c = hi_of p c"
  by (simp_all add: hi_of_def)

lemma tp_inv_entry:
  "entry_list br = entry_list (tp_by_round p) \<Longrightarrow> tp_inv ops (p\<lparr>tp_by_round := br\<rparr>) = tp_inv ops p"
  by (simp add: tp_inv_def)

lemma touch_round_inv [inv_intros]: "tp_inv ops p \<Longrightarrow> tp_inv ops (touch_round r p)"
  unfolding tp_inv_def touch_round_def by simp

lemma reset_timer_inv [inv_intros]: "tp_inv ops p \<Longrightarrow> tp_inv ops (reset_timer p)"
  unfolding tp_inv_def reset_timer_def by simp

text \<open>Replacing a mineable entry: the counter loses the old size and gains the new one.\<close>

lemma add_tx_inv [inv_intros]:
  assumes "tp_inv ops p"
  shows "tp_inv ops (add_tx ops tx sz p)"
proof -
  let ?k = "(tx_client_id ops tx, tx_nonce ops tx)"
  have ok: "bm_ok (tp_mineable p)" and w: "tp_bytes p = bm_weight snd (tp_mineable p)"
    using assms by (simp_all add: tp_inv_def)
  have "(case map_of (tp_mineable p) ?k of Some (_, old) \<Rightarrow> tp_bytes p - old | None \<Rightarrow> tp_bytes p) + sz
      = bm_weight snd (bm_insert ?k (tx, sz) (tp_mineable p))"
    using w bm.weight_ins_None [OF ok, of ?k snd "(tx, sz)"] bm.weight_ins_Some [OF ok, of ?k _ snd "(tx, sz)"]
    by (auto split: option.splits)
  then show ?thesis
    using assms bm.ok_ins [OF ok] bm.lookup_ins [OF ok]
    unfolding tp_inv_def add_tx_def Let_def by (simp add: tx_key_of_def)
qed

text \<open>Moving a key into flight: shared by \<open>admit_proposal\<close> and \<open>make_batch\<close>.\<close>

definition promote :: "round \<Rightarrow> tx_key \<Rightarrow> 'tx \<Rightarrow> nat \<Rightarrow> 'tx txpool \<Rightarrow> 'tx txpool" where
  "promote r k tx sz p =
     p\<lparr>tp_mineable := fst (drop_key snd k (tp_mineable p, tp_bytes p)),
       tp_bytes := snd (drop_key snd k (tp_mineable p, tp_bytes p)),
       tp_inflight := (tp_inflight p)(k \<mapsto> \<lparr>if_tx = tx, if_size = sz, if_round = r\<rparr>),
       tp_by_round := (tp_by_round p)(r \<mapsto> set_insert k (entry_list (tp_by_round p) r))\<rparr>"

lemma promote_inv [inv_intros]:
  assumes inv: "tp_inv ops p" and "tp_inflight p k = None" "tx_key_of ops tx = k"
  shows "tp_inv ops (promote r k tx sz p)"
proof -
  have ok: "bm_ok (tp_mineable p)" and w: "tp_bytes p = bm_weight snd (tp_mineable p)"
    using inv by (simp_all add: tp_inv_def)
  note d = drop_key_inv [OF ok w, of k] drop_key_lookup [OF ok, of snd k "tp_bytes p"]
  show ?thesis
    using inv assms(2,3) d unfolding tp_inv_def promote_def
    by (auto simp: d(2) split: if_splits)
qed

definition admit_size :: "'tx tx_ops \<Rightarrow> 'tx \<Rightarrow> 'tx txpool \<Rightarrow> nat" where
  "admit_size ops tx p = (case map_of (tp_mineable p) (tx_key_of ops tx) of
     Some (_, old) \<Rightarrow> old | None \<Rightarrow> (case tx_serialized_size ops tx of None \<Rightarrow> 0 | Some s \<Rightarrow> s))"

lemma admit_one_eq:
  "admit_one ops r tx p =
     (if tx_nonce ops tx \<le> hi_of p (tx_client_id ops tx) \<or> tp_inflight p (tx_key_of ops tx) \<noteq> None
      then p else promote r (tx_key_of ops tx) tx (admit_size ops tx p) p)"
  by (auto simp: admit_one_def Let_def promote_def drop_key_def admit_size_def tx_key_of_def
      split: option.splits)

lemma admit_one_inv [inv_intros]: "tp_inv ops p \<Longrightarrow> tp_inv ops (admit_one ops r tx p)"
  by (auto simp: admit_one_eq intro: promote_inv)

lemma foldl_inv: "P p \<Longrightarrow> (\<And>p x. P p \<Longrightarrow> P (f p x)) \<Longrightarrow> P (foldl f p xs)"
  by (induction xs arbitrary: p) auto

lemma admit_proposal_inv [inv_intros]: "tp_inv ops p \<Longrightarrow> tp_inv ops (admit_proposal ops b r p)"
  unfolding admit_proposal_def by (rule foldl_inv) (auto intro: inv_intros)

lemma make_batch_loop_eq:
  "make_batch_loop r n xs p =
     (if n < tp_batch_size p then
        (case tp_mineable p of [] \<Rightarrow> (xs, p)
         | (k, tx, sz) # _ \<Rightarrow> make_batch_loop r (n + sz) (xs @ [tx]) (promote r k tx sz p))
      else (xs, p))"
  by (subst make_batch_loop.simps)
     (auto simp: promote_def drop_key_def split: list.splits prod.splits)

lemma make_batch_loop_inv:
  "tp_inv ops p \<Longrightarrow> tp_inv ops (snd (make_batch_loop r n xs p))"
proof (induction r n xs p rule: make_batch_loop.induct)
  case (1 r n xs p)
  show ?case
  proof (cases "n < tp_batch_size p \<and> tp_mineable p \<noteq> []")
    case False
    with 1 show ?thesis by (subst make_batch_loop_eq) (auto split: list.splits)
  next
    case True
    then obtain k tx sz m where m: "tp_mineable p = (k, tx, sz) # m"
      by (metis neq_Nil_conv surj_pair)
    then have k: "map_of (tp_mineable p) k = Some (tx, sz)" by simp
    then have "tp_inflight p k = None" "tx_key_of ops tx = k"
      using 1(2) unfolding tp_inv_def by (metis option.distinct(1), blast)
    then have "tp_inv ops (promote r k tx sz p)" using 1(2) by (intro promote_inv)
    with 1(1) [of _ _ k "(tx, sz)" tx sz] True m show ?thesis
      by (subst make_batch_loop_eq) (simp add: promote_def drop_key_def)
  qed
qed

lemma make_batch_inv [inv_intros]: "tp_inv ops p \<Longrightarrow> tp_inv ops (snd (make_batch r p))"
  unfolding make_batch_def Let_def
  by (simp add: case_prod_beta make_batch_loop_inv inv_intros)


text \<open>
  During \<open>commit\<close> the high-water mark of a touched client runs ahead of the mineable entries;
  \<open>tp_inv_upto T\<close> is the invariant with the clients in \<open>T\<close> exempt from the nonce condition.
\<close>

definition tp_inv_upto :: "node_id set \<Rightarrow> 'tx tx_ops \<Rightarrow> 'tx txpool \<Rightarrow> bool" where
  "tp_inv_upto T ops p \<longleftrightarrow>
     bm_ok (tp_mineable p) \<and> tp_bytes p = bm_weight snd (tp_mineable p) \<and>
     (\<forall>k. tp_inflight p k \<noteq> None \<longrightarrow> map_of (tp_mineable p) k = None) \<and>
     (\<forall>r k. k \<in> set (entry_list (tp_by_round p) r) \<longleftrightarrow>
        (\<exists>e. tp_inflight p k = Some e \<and> if_round e = r)) \<and>
     (\<forall>r. distinct (entry_list (tp_by_round p) r)) \<and>
     (\<forall>k e. tp_inflight p k = Some e \<longrightarrow> tx_key_of ops (if_tx e) = k) \<and>
     (\<forall>k tx sz. map_of (tp_mineable p) k = Some (tx, sz) \<longrightarrow>
        (fst k \<notin> T \<longrightarrow> hi_of p (fst k) < snd k) \<and> tx_key_of ops tx = k)"

lemma tp_inv_upto_empty: "tp_inv_upto {} ops p = tp_inv ops p"
  by (simp add: tp_inv_upto_def tp_inv_def)

lemma commit_one_sel:
  fixes p :: "'tx txpool" and ops tx touched
  defines "k \<equiv> tx_key_of ops tx" and "p' \<equiv> snd (commit_one ops tx (touched, p))"
  shows "fst (commit_one ops tx (touched, p)) = set_insert (tx_client_id ops tx) touched"
    and "tp_mineable p' = fst (drop_key snd k (tp_mineable p, tp_bytes p))"
    and "tp_bytes p' = snd (drop_key snd k (tp_mineable p, tp_bytes p))"
    and "tp_inflight p' = (tp_inflight p)(k := None)"
    and "tp_by_round p' = (case tp_inflight p k of None \<Rightarrow> tp_by_round p
           | Some e \<Rightarrow> (case tp_by_round p (if_round e) of None \<Rightarrow> tp_by_round p
               | Some ks \<Rightarrow> (tp_by_round p)(if_round e \<mapsto> removeAll k ks)))"
    and "hi_of p' c = (if c = tx_client_id ops tx then max (hi_of p c) (tx_nonce ops tx) else hi_of p c)"
    and "tp_batch_size p' = tp_batch_size p"
  unfolding k_def p'_def
  by (simp_all add: commit_one_def Let_def tx_key_of_def case_prod_beta max_def hi_of_def
      split: option.splits)

lemma commit_one_by_round:
  assumes "tp_inv_upto T ops p"
  shows "entry_list (tp_by_round (snd (commit_one ops tx (touched, p)))) r =
    removeAll (tx_key_of ops tx) (entry_list (tp_by_round p) r)"
proof -
  let ?k = "tx_key_of ops tx"
  have iff: "?k \<in> set (entry_list (tp_by_round p) r) \<longleftrightarrow>
      (\<exists>e. tp_inflight p ?k = Some e \<and> if_round e = r)"
    using assms unfolding tp_inv_upto_def by blast
  show ?thesis
  proof (cases "tp_inflight p ?k")
    case None
    then show ?thesis using iff by (simp add: commit_one_sel)
  next
    case (Some e)
    then show ?thesis using iff
      by (cases "tp_by_round p (if_round e)")
         (auto simp: commit_one_sel entry_list_def split: option.splits if_splits)
  qed
qed

lemma commit_one_inv:
  assumes "tp_inv_upto (set touched) ops p" and "commit_one ops tx (touched, p) = (touched', p')"
  shows "tp_inv_upto (set touched') ops p'"
proof -
  let ?k = "tx_key_of ops tx"
  have p': "p' = snd (commit_one ops tx (touched, p))"
    and t': "touched' = set_insert (tx_client_id ops tx) touched"
    using assms(2) commit_one_sel(1) [of ops tx touched p] by simp_all
  have ok: "bm_ok (tp_mineable p)" and w: "tp_bytes p = bm_weight snd (tp_mineable p)"
    using assms(1) by (simp_all add: tp_inv_upto_def)
  note d = drop_key_inv [OF ok w, of ?k] drop_key_lookup [OF ok, of snd ?k "tp_bytes p"]
  note br = commit_one_by_round [OF assms(1), of tx touched]
  have look: "map_of (tp_mineable p') k = (if k = ?k then None else map_of (tp_mineable p) k)"
    and infl: "tp_inflight p' k = (if k = ?k then None else tp_inflight p k)" for k
    by (simp_all add: p' commit_one_sel d(2))
  have idx: "set (entry_list (tp_by_round p') r) = set (entry_list (tp_by_round p) r) - {?k}"
    "distinct (entry_list (tp_by_round p) r) \<Longrightarrow> distinct (entry_list (tp_by_round p') r)" for r
    by (simp_all add: p' br distinct_removeAll)
  have hi: "hi_of p' c = hi_of p c" if "c \<notin> set touched'" for c
    using that by (simp add: p' t' commit_one_sel)
  have "bm_ok (tp_mineable p')" "tp_bytes p' = bm_weight snd (tp_mineable p')"
    using d(1) by (simp_all add: p' commit_one_sel)
  moreover have "\<forall>k. tp_inflight p' k \<noteq> None \<longrightarrow> map_of (tp_mineable p') k = None"
    using assms(1) by (simp add: tp_inv_upto_def look infl)
  moreover have "\<forall>r k. k \<in> set (entry_list (tp_by_round p') r) \<longleftrightarrow>
      (\<exists>e. tp_inflight p' k = Some e \<and> if_round e = r)"
    using assms(1) unfolding tp_inv_upto_def idx infl by simp
  moreover have "\<forall>r. distinct (entry_list (tp_by_round p') r)"
    using assms(1) idx(2) by (simp add: tp_inv_upto_def)
  moreover have "\<forall>k e. tp_inflight p' k = Some e \<longrightarrow> tx_key_of ops (if_tx e) = k"
    using assms(1) by (simp add: tp_inv_upto_def infl)
  moreover have "\<forall>k tx sz. map_of (tp_mineable p') k = Some (tx, sz) \<longrightarrow>
      (fst k \<notin> set touched' \<longrightarrow> hi_of p' (fst k) < snd k) \<and> tx_key_of ops tx = k"
    using assms(1) hi unfolding tp_inv_upto_def look by (simp add: t')
  ultimately show ?thesis unfolding tp_inv_upto_def by blast
qed

lemma commit_pass_inv:
  assumes "tp_inv_upto (set touched) ops p"
    and "foldl (\<lambda>tp tx. commit_one ops tx tp) (touched, p) b = (touched', p')"
  shows "tp_inv_upto (set touched') ops p'"
  using assms
proof (induction b arbitrary: touched p)
  case Nil
  then show ?case by simp
next
  case (Cons tx b)
  obtain t1 p1 where s: "commit_one ops tx (touched, p) = (t1, p1)" by fastforce
  with Cons commit_one_inv [OF Cons.prems(1) s] show ?case by simp
qed

lemma gc_client_inv:
  assumes "tp_inv_upto T ops p"
  shows "tp_inv_upto (T - {c}) ops (gc_client c p)"
proof -
  let ?stale = "bm_range (c, 0) (c, hi_of p c) (tp_mineable p)"
  let ?mb = "foldl (\<lambda>mb k. drop_key snd k mb) (tp_mineable p, tp_bytes p) ?stale"
  have ok: "bm_ok (tp_mineable p)" and w: "tp_bytes p = bm_weight snd (tp_mineable p)"
    using assms by (simp_all add: tp_inv_upto_def)
  have d: "bm_ok (fst ?mb)" "snd ?mb = bm_weight snd (fst ?mb)"
    "\<And>k. map_of (fst ?mb) k = (if k \<in> set ?stale then None else map_of (tp_mineable p) k)"
    using drop_keys_inv [OF ok w] by blast+
  have above: "hi_of p c < snd k" if "map_of (fst ?mb) k \<noteq> None" "fst k = c" for k
  proof (rule ccontr)
    assume "\<not> hi_of p c < snd k"
    moreover have "k \<in> set (map fst (tp_mineable p))" "k \<notin> set ?stale"
      using that(1) d(3) [of k] by (auto split: if_splits simp: map_of_eq_None_iff)
        (metis fst_conv image_eqI map_of_SomeD)
    ultimately show False using that(2) by (cases k) (auto simp: bm_range_def less_eq_prod_def)
  qed
  have gc: "gc_client c p = p\<lparr>tp_mineable := fst ?mb, tp_bytes := snd ?mb\<rparr>"
    by (simp add: gc_client_def Let_def case_prod_beta)
  have nonce: "(fst k \<notin> T - {c} \<longrightarrow> hi_of p (fst k) < snd k) \<and> tx_key_of ops tx = k"
    if "map_of (fst ?mb) k = Some (tx, sz)" for k tx sz
  proof -
    have "map_of (tp_mineable p) k = Some (tx, sz)" using that d(3) [of k] by (auto split: if_splits)
    then have "(fst k \<notin> T \<longrightarrow> hi_of p (fst k) < snd k) \<and> tx_key_of ops tx = k"
      using assms unfolding tp_inv_upto_def by blast
    then show ?thesis using above [of k] that by auto
  qed
  show ?thesis
    using assms d(1,2) d(3) nonce unfolding tp_inv_upto_def gc by simp
qed

lemma gc_clients_inv:
  "tp_inv_upto T ops p \<Longrightarrow> tp_inv_upto (T - set cs) ops (foldl (\<lambda>p c. gc_client c p) p cs)"
proof (induction cs arbitrary: T p)
  case (Cons c cs)
  have "T - {c} - set cs = T - set (c # cs)" by auto
  with Cons.IH [OF gc_client_inv [OF Cons.prems, of c]] show ?case by (simp only: foldl_Cons)
qed simp

lemma commit_pool_inv [inv_intros]:
  assumes "tp_inv ops p"
  shows "tp_inv ops (commit_pool ops b r p)"
proof -
  obtain t p1 where s: "foldl (\<lambda>tp tx. commit_one ops tx tp) ([], p) b = (t, p1)" by fastforce
  have "tp_inv_upto (set t) ops p1"
    using commit_pass_inv [OF _ s] assms by (simp add: tp_inv_upto_empty)
  from gc_clients_inv [OF this, of t] have inv: "tp_inv ops (foldl (\<lambda>p c. gc_client c p) p1 t)"
    by (simp add: tp_inv_upto_empty)
  have "tp_inv ops (q\<lparr>tp_by_round := (tp_by_round q)(r := None)\<rparr>)"
    if "tp_inv ops q" "tp_by_round q r = Some []" for q
  proof -
    have "entry_list ((tp_by_round q)(r := None)) = entry_list (tp_by_round q)"
      using that(2) by (auto simp: entry_list_def fun_eq_iff)
    then show ?thesis using that(1) by (simp add: tp_inv_def)
  qed
  with inv s show ?thesis
    by (simp add: commit_pool_def Let_def split: option.splits)
qed


text \<open>
  \<open>rollback\<close> first removes the index entry of the round and then moves its keys one by one; the
  keys still to be moved stand in for the removed entry.
\<close>

lemma rollback_one_inv:
  assumes inv: "tp_inv ops (p\<lparr>tp_by_round := (tp_by_round p)(r \<mapsto> k # ks)\<rparr>)"
    and none: "tp_by_round p r = None"
  shows "tp_inv ops ((rollback_one k p)\<lparr>tp_by_round := (tp_by_round (rollback_one k p))(r \<mapsto> ks)\<rparr>)"
    and "tp_by_round (rollback_one k p) r = None"
proof -
  have ok: "bm_ok (tp_mineable p)" and w: "tp_bytes p = bm_weight snd (tp_mineable p)"
    using inv by (simp_all add: tp_inv_def)
  have idx: "x \<in> set (if r' = r then k # ks else entry_list (tp_by_round p) r') \<longleftrightarrow>
      (\<exists>e. tp_inflight p x = Some e \<and> if_round e = r')" for x r'
    using tp_inv_idx [OF inv, of x r'] by simp
  have dist: "distinct (if r' = r then k # ks else entry_list (tp_by_round p) r')" for r'
    using tp_inv_idx_distinct [OF inv, of r'] by (simp split: if_splits)
  obtain e where e: "tp_inflight p k = Some e" "if_round e = r"
    using idx [of k r] by auto
  have key: "tx_key_of ops (if_tx e) = k" and free: "map_of (tp_mineable p) k = None"
    using inv e unfolding tp_inv_def by auto
  let ?q = "rollback_one k p"
  have q: "tp_inflight ?q = (tp_inflight p)(k := None)" "tp_by_round ?q = tp_by_round p"
    "hi_of ?q = hi_of p"
    "tp_mineable ?q = (if snd k \<le> hi_of p (fst k) then tp_mineable p
       else bm_insert k (if_tx e, if_size e) (tp_mineable p))"
    "tp_bytes ?q = (if snd k \<le> hi_of p (fst k) then tp_bytes p else tp_bytes p + if_size e)"
    using e by (auto simp: rollback_one_def)
  show "tp_by_round ?q r = None" using none q(2) by simp
  have idx': "x \<in> set (if r' = r then ks else entry_list (tp_by_round p) r') \<longleftrightarrow>
      (\<exists>e. tp_inflight ?q x = Some e \<and> if_round e = r')" for x r'
  proof (cases "x = k")
    case True
    then show ?thesis using idx [of k r'] dist [of r] e q(1) by (auto split: if_splits)
  next
    case False
    then show ?thesis using idx [of x r'] q(1) by auto
  qed
  have dist': "distinct (if r' = r then ks else entry_list (tp_by_round p) r')" for r'
    using dist [of r'] by (auto split: if_splits)
  show "tp_inv ops (?q\<lparr>tp_by_round := (tp_by_round ?q)(r \<mapsto> ks)\<rparr>)"
    using inv ok w idx' dist' key free bm.weight_ins_None [OF ok free] bm.lookup_ins [OF ok] bm.ok_ins [OF ok]
    unfolding tp_inv_def by (simp add: q)
qed

lemma rollback_keys_inv:
  "tp_inv ops (p\<lparr>tp_by_round := (tp_by_round p)(r \<mapsto> ks)\<rparr>) \<Longrightarrow> tp_by_round p r = None \<Longrightarrow>
     tp_inv ops (foldl (\<lambda>p k. rollback_one k p) p ks)"
proof (induction ks arbitrary: p)
  case Nil
  have "entry_list ((tp_by_round p)(r \<mapsto> [])) = entry_list (tp_by_round p)"
    using Nil(2) by (auto simp: entry_list_def fun_eq_iff)
  from tp_inv_entry [OF this, of ops] Nil(1) show ?case by simp
next
  case (Cons k ks)
  from rollback_one_inv [OF Cons.prems] show ?case unfolding foldl_Cons by (rule Cons.IH)
qed

lemma rollback_round_inv: "tp_inv ops p \<Longrightarrow> tp_inv ops (rollback_round r p)"
proof (cases "tp_by_round p r")
  case (Some ks)
  assume "tp_inv ops p"
  then have "tp_inv ops ((p\<lparr>tp_by_round := (tp_by_round p)(r := None)\<rparr>)
      \<lparr>tp_by_round := (tp_by_round (p\<lparr>tp_by_round := (tp_by_round p)(r := None)\<rparr>))(r \<mapsto> ks)\<rparr>)"
    using Some by (simp add: fun_upd_idem)
  from rollback_keys_inv [OF this] Some show ?thesis by (simp add: rollback_round_def)
qed (simp add: rollback_round_def)

lemma rollback_inv [inv_intros]: "tp_inv ops p \<Longrightarrow> tp_inv ops (rollback rs p)"
  unfolding rollback_def by (rule foldl_inv) (auto intro: rollback_round_inv)

subsection \<open>The pool as a machine\<close>

datatype 'tx pool_op =
    PAdd 'tx nat
  | PAdmit "'tx batch" round
  | PMake round
  | PCommit "'tx batch" round
  | PRollback "round list"

definition pool_step :: "'tx tx_ops \<Rightarrow> 'tx txpool \<Rightarrow> 'tx pool_op \<Rightarrow> 'tx txpool" where
  "pool_step ops p op = (case op of
     PAdd tx sz \<Rightarrow> add_tx ops tx sz p
   | PAdmit b r \<Rightarrow> admit_proposal ops b r p
   | PMake r \<Rightarrow> snd (make_batch r p)
   | PCommit b r \<Rightarrow> commit_pool ops b r p
   | PRollback rs \<Rightarrow> rollback rs p)"

interpretation pool: step_machine "pool_step ops" "\<lambda>_. True" "tp_inv ops" for ops
  by unfold_locales (auto simp: pool_step_def intro: inv_intros split: pool_op.splits)


subsection \<open>High-water marks\<close>

lemma hi_add [simp]: "hi_of (add_tx ops tx sz p) c = hi_of p c"
  by (simp add: add_tx_def Let_def)

lemma hi_promote [simp]: "hi_of (promote r k tx sz p) c = hi_of p c"
  by (simp add: promote_def)

lemma hi_admit [simp]: "hi_of (admit_proposal ops b r p) c = hi_of p c"
  unfolding admit_proposal_def
  by (rule foldl_inv [where P = "\<lambda>q. hi_of q c = hi_of p c"])
     (simp_all add: touch_round_def admit_one_eq)

lemma hi_make_loop: "hi_of (snd (make_batch_loop r n xs p)) c = hi_of p c"
proof (induction r n xs p rule: make_batch_loop.induct)
  case (1 r n xs p)
  show ?case
  proof (cases "n < tp_batch_size p \<and> tp_mineable p \<noteq> []")
    case False
    then show ?thesis by (subst make_batch_loop_eq) (auto split: list.splits)
  next
    case True
    then obtain k tx sz m where "tp_mineable p = (k, tx, sz) # m"
      by (metis neq_Nil_conv surj_pair)
    with 1 [of _ _ k "(tx, sz)" tx sz] True show ?thesis
      by (subst make_batch_loop_eq) (simp add: promote_def drop_key_def)
  qed
qed

lemma hi_make [simp]: "hi_of (snd (make_batch r p)) c = hi_of p c"
  by (simp add: make_batch_def case_prod_beta Let_def hi_make_loop reset_timer_def touch_round_def)

lemma hi_gc [simp]: "hi_of (gc_client c' p) c = hi_of p c"
  by (simp add: gc_client_def case_prod_beta Let_def)

lemma hi_gcs [simp]: "hi_of (foldl (\<lambda>p c. gc_client c p) p cs) c = hi_of p c"
  by (rule foldl_inv [where P = "\<lambda>q. hi_of q c = hi_of p c"]) simp_all

lemma hi_commit_pass:
  "hi_of (snd (foldl (\<lambda>tp tx. commit_one ops tx tp) (touched, p) b)) c =
     foldl (\<lambda>h tx. if tx_client_id ops tx = c then max h (tx_nonce ops tx) else h) (hi_of p c) b"
proof (induction b arbitrary: touched p)
  case (Cons tx b)
  obtain t1 p1 where s: "commit_one ops tx (touched, p) = (t1, p1)" by fastforce
  then have "hi_of p1 c = (if c = tx_client_id ops tx then max (hi_of p c) (tx_nonce ops tx) else hi_of p c)"
    using commit_one_sel(6) [of ops tx touched p c] by simp
  with s Cons [of t1 p1] show ?case by auto
qed simp

lemma hi_commit:
  "hi_of (commit_pool ops b r p) c =
     foldl (\<lambda>h tx. if tx_client_id ops tx = c then max h (tx_nonce ops tx) else h) (hi_of p c) b"
  using hi_commit_pass [of ops "[]" p b c]
  by (simp add: commit_pool_def case_prod_beta Let_def split: option.splits)

lemma foldl_max_ge:
  fixes h :: nat
  shows "h \<le> foldl (\<lambda>h x. if P x then max h (f x) else h) h xs"
proof (induction xs arbitrary: h)
  case (Cons x xs)
  have "h \<le> (if P x then max h (f x) else h)" by simp
  also have "\<dots> \<le> foldl (\<lambda>h x. if P x then max h (f x) else h) (if P x then max h (f x) else h) xs"
    by (rule Cons)
  finally show ?case by simp
qed simp

lemma foldl_max_elem:
  fixes h :: nat
  shows "x \<in> set xs \<Longrightarrow> P x \<Longrightarrow> f x \<le> foldl (\<lambda>h x. if P x then max h (f x) else h) h xs"
proof (induction xs arbitrary: h)
  case (Cons y xs)
  show ?case
  proof (cases "x = y")
    case True
    have "f x \<le> max h (f x)" by simp
    also have "\<dots> \<le> foldl (\<lambda>h x. if P x then max h (f x) else h) (max h (f x)) xs"
      by (rule foldl_max_ge)
    finally show ?thesis using Cons True by simp
  qed (use Cons in auto)
qed simp

lemma hi_rollback [simp]: "hi_of (rollback rs p) c = hi_of p c"
proof -
  have one: "hi_of (rollback_one k q) c = hi_of q c" for k and q :: "'a txpool"
    by (simp add: rollback_one_def split: option.splits)
  have "hi_of (foldl (\<lambda>q k. rollback_one k q) q ks) c = hi_of q c" for ks and q :: "'a txpool"
    by (rule foldl_inv [where P = "\<lambda>q'. hi_of q' c = hi_of q c"]) (simp_all add: one)
  then have "hi_of (rollback_round r q) c = hi_of q c" for r and q :: "'a txpool"
    by (simp add: rollback_round_def split: option.splits)
  then show ?thesis unfolding rollback_def
    by (intro foldl_inv [where P = "\<lambda>q. hi_of q c = hi_of p c"]) simp_all
qed

lemma hi_step_mono: "hi_of p c \<le> hi_of (pool_step ops p op) c"
  by (cases op) (simp_all add: pool_step_def hi_commit foldl_max_ge)

lemma hi_run_mono:
  assumes "tp_inv ops p"
  shows "hi_of p c \<le> hi_of (foldl (pool_step ops) p os) c"
  by (rule pool.run_monotone [where f = "\<lambda>q. hi_of q c", OF _ assms])
     (simp_all add: hi_step_mono list_all_iff)

subsection \<open>What a batch contains\<close>

text \<open>The specification of the batch: the shortest prefix of Mineable that reaches the limit.\<close>

fun batch_prefix :: "nat \<Rightarrow> nat \<Rightarrow> (tx_key, 'tx \<times> nat) bmap \<Rightarrow> (tx_key, 'tx \<times> nat) bmap" where
  "batch_prefix limit n [] = []"
| "batch_prefix limit n (e # m) =
     (if n < limit then e # batch_prefix limit (n + snd (snd e)) m else [])"

lemma batch_prefix_split:
  "\<exists>rest. m = batch_prefix limit n m @ rest \<and>
     (rest = [] \<or> limit \<le> n + bm_weight snd (batch_prefix limit n m))"
proof (induction limit n m rule: batch_prefix.induct)
  case (2 limit n e m)
  then show ?case by (cases e) (auto simp: add.assoc)
qed simp

lemma batch_prefix_minimal:
  "batch_prefix limit n m = xs @ [e] \<Longrightarrow> n + bm_weight snd xs < limit"
proof (induction limit n m arbitrary: xs rule: batch_prefix.induct)
  case (2 limit n e' m)
  then show ?case
    by (cases xs; cases e') (auto simp: add.assoc split: if_splits)
qed simp

definition flight_map :: "round \<Rightarrow> (tx_key, 'tx \<times> nat) bmap \<Rightarrow> tx_key \<rightharpoonup> 'tx inflight_entry" where
  "flight_map r m = map_of (map (\<lambda>(k, tx, sz). (k, \<lparr>if_tx = tx, if_size = sz, if_round = r\<rparr>)) (rev m))"

lemma flight_map_Cons:
  "I ++ flight_map r ((k, tx, sz) # m) =
     I(k \<mapsto> \<lparr>if_tx = tx, if_size = sz, if_round = r\<rparr>) ++ flight_map r m"
  by (simp add: flight_map_def map_add_def fun_eq_iff split: option.splits)

lemma flight_map_None: "flight_map r m k = None \<longleftrightarrow> k \<notin> fst ` set m"
  by (simp add: flight_map_def map_of_eq_None_iff image_image case_prod_beta)

lemma flight_map_Some:
  "distinct (map fst m) \<Longrightarrow> map_of m k = Some (tx, sz) \<Longrightarrow>
     flight_map r m k = Some \<lparr>if_tx = tx, if_size = sz, if_round = r\<rparr>"
  unfolding flight_map_def
  by (rule map_of_is_SomeI) (force dest: map_of_SomeD simp: rev_map [symmetric] case_prod_beta o_def)+

lemma make_batch_loop_stop:
  "\<not> n < tp_batch_size p \<or> tp_mineable p = [] \<Longrightarrow> make_batch_loop r n xs p = (xs, p)"
  by (subst make_batch_loop_eq) auto

lemma make_batch_loop_go:
  "n < tp_batch_size p \<Longrightarrow> tp_mineable p = (k, tx, sz) # m \<Longrightarrow>
     make_batch_loop r n xs p = make_batch_loop r (n + sz) (xs @ [tx]) (promote r k tx sz p)"
  by (subst make_batch_loop_eq) simp

lemma promote_head:
  "tp_mineable p = (k, tx, sz) # m \<Longrightarrow> tp_mineable (promote r k tx sz p) = m"
  "tp_batch_size (promote r k tx sz p) = tp_batch_size p"
  "tp_inflight (promote r k tx sz p) = (tp_inflight p)(k \<mapsto> \<lparr>if_tx = tx, if_size = sz, if_round = r\<rparr>)"
  by (simp_all add: promote_def drop_key_def)

lemma make_batch_loop_spec:
  assumes "tp_mineable p = m"
  shows "fst (make_batch_loop r n xs p) = xs @ map (fst \<circ> snd) (batch_prefix (tp_batch_size p) n m) \<and>
    tp_mineable (snd (make_batch_loop r n xs p)) = drop (length (batch_prefix (tp_batch_size p) n m)) m \<and>
    tp_inflight (snd (make_batch_loop r n xs p)) =
      tp_inflight p ++ flight_map r (batch_prefix (tp_batch_size p) n m)"
  using assms
proof (induction m arbitrary: n xs p)
  case Nil
  then show ?case by (simp add: make_batch_loop_stop flight_map_def)
next
  case (Cons e m)
  show ?case
  proof (cases "n < tp_batch_size p")
    case False
    then show ?thesis using Cons.prems by (simp add: make_batch_loop_stop flight_map_def)
  next
    case True
    obtain k tx sz where e: "e = (k, tx, sz)" by (cases e) auto
    with Cons.prems have m: "tp_mineable p = (k, tx, sz) # m" by simp
    show ?thesis
      using Cons.IH [OF promote_head(1) [OF m, of r], of "n + sz" "xs @ [tx]"] True e
      by (simp add: make_batch_loop_go [OF True m] promote_head flight_map_Cons del: fun_upd_apply)
  qed
qed


subsection \<open>What a rollback returns\<close>

lemma rollback_round_eq:
  "rollback_round r p =
     foldl (\<lambda>p k. rollback_one k p) (p\<lparr>tp_by_round := (tp_by_round p)(r := None)\<rparr>)
       (entry_list (tp_by_round p) r)"
  by (simp add: rollback_round_def entry_list_def fun_upd_idem split: option.splits)

lemma rollback_one_sel:
  assumes "tp_inflight p k = Some e"
  shows "tp_inflight (rollback_one k p) = (tp_inflight p)(k := None)"
    and "tp_mineable (rollback_one k p) =
      (if hi_of p (fst k) < snd k then bm_insert k (if_tx e, if_size e) (tp_mineable p) else tp_mineable p)"
    and "hi_of (rollback_one k p) c = hi_of p c"
  using assms by (auto simp: rollback_one_def)

text \<open>The result does not depend on the order in which the keys of the round are visited.\<close>

lemma rollback_keys_lookup:
  assumes "bm_ok (tp_mineable p)" "distinct ks" "\<forall>k \<in> set ks. tp_inflight p k \<noteq> None"
  shows "tp_inflight (foldl (\<lambda>p k. rollback_one k p) p ks) x =
      (if x \<in> set ks then None else tp_inflight p x) \<and>
    map_of (tp_mineable (foldl (\<lambda>p k. rollback_one k p) p ks)) x =
      (if x \<in> set ks \<and> hi_of p (fst x) < snd x
       then Some (if_tx (the (tp_inflight p x)), if_size (the (tp_inflight p x)))
       else map_of (tp_mineable p) x)"
  using assms
proof (induction ks arbitrary: p)
  case Nil
  then show ?case by simp
next
  case (Cons k ks)
  then obtain e where e: "tp_inflight p k = Some e" by auto
  note sel = rollback_one_sel [OF e]
  have "bm_ok (tp_mineable (rollback_one k p))" "\<forall>k' \<in> set ks. tp_inflight (rollback_one k p) k' \<noteq> None"
    using Cons.prems by (auto simp: sel bm.ok_ins)
  with Cons.IH [of "rollback_one k p"] Cons.prems(1,2) e show ?case
    by (auto simp: sel bm.lookup_ins)
qed

lemma rollback_order_irrelevant:
  assumes "bm_ok (tp_mineable p)" "distinct ks" "distinct ks'" "set ks = set ks'"
    and "\<forall>k \<in> set ks. tp_inflight p k \<noteq> None"
  shows "map_of (tp_mineable (foldl (\<lambda>p k. rollback_one k p) p ks)) =
         map_of (tp_mineable (foldl (\<lambda>p k. rollback_one k p) p ks'))"
  using rollback_keys_lookup [OF assms(1,2)] rollback_keys_lookup [OF assms(1,3)] assms(4,5)
  by (simp add: fun_eq_iff)

subsection \<open>Tracked transactions\<close>

definition tracked :: "'tx txpool \<Rightarrow> tx_key \<Rightarrow> bool" where
  "tracked p k \<longleftrightarrow> map_of (tp_mineable p) k \<noteq> None \<or> tp_inflight p k \<noteq> None"

lemma tracked_add: "tp_inv ops p \<Longrightarrow> tracked p k \<Longrightarrow> tracked (add_tx ops tx sz p) k"
  by (auto simp: tracked_def add_tx_def Let_def bm.lookup_ins tp_inv_def)

lemma tracked_promote: "tp_inv ops p \<Longrightarrow> tracked p k \<Longrightarrow> tracked (promote r k' tx sz p) k"
  by (auto simp: tracked_def promote_def tp_inv_def drop_key_lookup)

lemma tracked_admit:
  assumes "tp_inv ops p" "tracked p k"
  shows "tracked (admit_proposal ops b r p) k"
proof -
  have "tp_inv ops (admit_proposal ops b r p) \<and> tracked (admit_proposal ops b r p) k"
    unfolding admit_proposal_def
  proof (rule foldl_inv [where P = "\<lambda>q. tp_inv ops q \<and> tracked q k"])
    show "tp_inv ops (touch_round r p) \<and> tracked (touch_round r p) k"
      using assms touch_round_inv by (simp add: tracked_def touch_round_def)
    show "tp_inv ops (admit_one ops r tx q) \<and> tracked (admit_one ops r tx q) k"
      if "tp_inv ops q \<and> tracked q k" for q tx
      using that admit_one_inv [of ops q r tx] by (auto simp: admit_one_eq intro: tracked_promote)
  qed
  then show ?thesis ..
qed

lemma tracked_make:
  assumes "tracked p k"
  shows "tracked (snd (make_batch r p)) k"
proof -
  let ?p = "touch_round r p"
  let ?pre = "batch_prefix (tp_batch_size ?p) 0 (tp_mineable ?p)"
  have spec: "tp_mineable (snd (make_batch r p)) = drop (length ?pre) (tp_mineable ?p)"
    "tp_inflight (snd (make_batch r p)) = tp_inflight p ++ flight_map r ?pre"
    using make_batch_loop_spec [of ?p "tp_mineable ?p" r 0 "[]"]
    by (simp_all add: make_batch_def Let_def case_prod_beta reset_timer_def touch_round_def)
  obtain rest where split: "tp_mineable ?p = ?pre @ rest"
    using batch_prefix_split by blast
  show ?thesis
  proof (cases "k \<in> fst ` set ?pre")
    case True
    then have "flight_map r ?pre k \<noteq> None" by (simp add: flight_map_None)
    then show ?thesis by (auto simp: tracked_def spec)
  next
    case False
    then have "map_of ?pre k = None" by (simp add: map_of_eq_None_iff)
    moreover have "tp_mineable p = ?pre @ rest" using split by (simp add: touch_round_def)
    ultimately have "map_of (tp_mineable p) k = map_of rest k" by (simp add: map_add_def)
    moreover have "drop (length ?pre) (tp_mineable ?p) = rest" by (subst (2) split) simp
    ultimately show ?thesis using assms by (auto simp: tracked_def spec)
  qed
qed


lemma tracked_commit_pass:
  assumes "tp_inv_upto (set touched) ops p" "tracked p k" "k \<notin> tx_key_of ops ` set b"
  shows "tracked (snd (foldl (\<lambda>tp tx. commit_one ops tx tp) (touched, p) b)) k"
  using assms
proof (induction b arbitrary: touched p)
  case (Cons tx b)
  obtain t1 p1 where s: "commit_one ops tx (touched, p) = (t1, p1)" by fastforce
  have inv: "tp_inv_upto (set t1) ops p1" by (rule commit_one_inv [OF Cons.prems(1) s])
  have "bm_ok (tp_mineable p)" using Cons.prems(1) by (simp add: tp_inv_upto_def)
  then have "tracked p1 k"
    using Cons.prems(2,3) commit_one_sel(2,4) [of ops tx touched p] s
    by (auto simp: tracked_def drop_key_lookup)
  with Cons.IH [OF inv] Cons.prems(3) s show ?case by simp
qed simp

lemma tracked_gc:
  assumes "tp_inv_upto T ops p" "tracked p k" "hi_of p (fst k) < snd k"
  shows "tracked (gc_client c p) k"
proof -
  have "k \<notin> set (bm_range (c, 0) (c, hi_of p c) (tp_mineable p))"
    using assms(3) by (cases k) (auto simp: bm_range_def less_eq_prod_def)
  moreover have "bm_ok (tp_mineable p)" "tp_bytes p = bm_weight snd (tp_mineable p)"
    using assms(1) by (simp_all add: tp_inv_upto_def)
  ultimately show ?thesis
    using assms(2) drop_keys_inv [of "tp_mineable p" "tp_bytes p" snd]
    by (auto simp: tracked_def gc_client_def Let_def case_prod_beta)
qed

lemma tracked_gcs:
  "tp_inv_upto T ops p \<Longrightarrow> tracked p k \<Longrightarrow> hi_of p (fst k) < snd k \<Longrightarrow>
     tracked (foldl (\<lambda>p c. gc_client c p) p cs) k"
proof (induction cs arbitrary: T p)
  case (Cons c cs)
  have "tp_inv_upto (T - {c}) ops (gc_client c p)" "tracked (gc_client c p) k"
    using Cons.prems by (auto intro: gc_client_inv tracked_gc)
  with Cons show ?case by simp
qed simp

lemma tracked_commit:
  assumes inv: "tp_inv ops p" and t: "tracked p k"
    and hi: "hi_of (commit_pool ops b r p) (fst k) < snd k"
  shows "tracked (commit_pool ops b r p) k"
proof -
  obtain tc p1 where s: "foldl (\<lambda>tp tx. commit_one ops tx tp) ([], p) b = (tc, p1)" by fastforce
  have "tx_key_of ops tx \<noteq> k" if "tx \<in> set b" for tx
  proof
    assume k: "tx_key_of ops tx = k"
    then have "snd k \<le> hi_of (commit_pool ops b r p) (fst k)"
      using foldl_max_elem [OF that, of "\<lambda>tx. tx_client_id ops tx = fst k" "tx_nonce ops" "hi_of p (fst k)"]
      unfolding hi_commit by (auto simp: tx_key_of_def)
    with hi show False by simp
  qed
  then have notin: "k \<notin> tx_key_of ops ` set b" by blast
  have inv1: "tp_inv_upto (set tc) ops p1"
    using commit_pass_inv [OF _ s] inv by (simp add: tp_inv_upto_empty)
  have "tracked p1 k"
    using tracked_commit_pass [of "[]" ops p k b] inv t notin s by (simp add: tp_inv_upto_empty)
  moreover have "hi_of p1 (fst k) < snd k"
    using hi hi_commit [of ops b r p] hi_commit_pass [of ops "[]" p b "fst k"] s by simp
  ultimately have "tracked (foldl (\<lambda>p c. gc_client c p) p1 tc) k"
    by (rule tracked_gcs [OF inv1])
  then show ?thesis using s
    by (simp add: commit_pool_def Let_def tracked_def split: option.splits)
qed

lemma tracked_rollback_round:
  assumes inv: "tp_inv ops p" and t: "tracked p k" and hi: "hi_of p (fst k) < snd k"
  shows "tracked (rollback_round r p) k"
proof -
  let ?p = "p\<lparr>tp_by_round := (tp_by_round p)(r := None)\<rparr>"
  have "bm_ok (tp_mineable ?p)" "distinct (entry_list (tp_by_round p) r)"
    "\<forall>k \<in> set (entry_list (tp_by_round p) r). tp_inflight ?p k \<noteq> None"
    using inv tp_inv_idx [OF inv] by (auto simp: tp_inv_def)
  from rollback_keys_lookup [OF this, of k] t hi show ?thesis
    unfolding rollback_round_eq tracked_def by auto
qed

lemma tracked_rollback:
  assumes "tp_inv ops p" "tracked p k" "hi_of p (fst k) < snd k"
  shows "tracked (rollback rs p) k"
  using assms
proof (induction rs arbitrary: p)
  case (Cons r rs)
  have "hi_of (rollback_round r p) (fst k) = hi_of p (fst k)"
    using hi_rollback [of "[r]" p "fst k"] by (simp add: rollback_def)
  with Cons.IH [of "rollback_round r p"] Cons.prems show ?case
    by (simp add: rollback_def rollback_round_inv tracked_rollback_round)
qed (simp add: rollback_def)

lemma tracked_step:
  assumes "tp_inv ops p" "tracked p k" "hi_of (pool_step ops p op) (fst k) < snd k"
  shows "tracked (pool_step ops p op) k"
  using assms
  by (cases op)
     (auto simp: pool_step_def intro: tracked_add tracked_admit tracked_make tracked_commit tracked_rollback)


lemma run_reachable: "tp_inv ops (foldl (pool_step ops) (txpool_new bs) os)"
  by (rule pool.run_inv) (simp_all add: txpool_new_inv list_all_iff)

lemma tracked_run:
  "tp_inv ops p \<Longrightarrow> tracked p k \<Longrightarrow> hi_of (foldl (pool_step ops) p os) (fst k) < snd k \<Longrightarrow>
     tracked (foldl (pool_step ops) p os) k"
proof (induction os arbitrary: p)
  case (Cons op os)
  have inv: "tp_inv ops (pool_step ops p op)" using Cons.prems(1) pool.step_inv by blast
  have "hi_of (pool_step ops p op) (fst k) \<le> hi_of (foldl (pool_step ops) (pool_step ops p op) os) (fst k)"
    by (rule hi_run_mono [OF inv])
  then have "tracked (pool_step ops p op) k" using Cons.prems by (intro tracked_step) simp_all
  with Cons inv show ?case by simp
qed simp

lemma make_batch_split:
  "\<exists>rest. tp_mineable p = batch_prefix (tp_batch_size p) 0 (tp_mineable p) @ rest \<and>
     fst (make_batch r p) = map (fst \<circ> snd) (batch_prefix (tp_batch_size p) 0 (tp_mineable p)) \<and>
     tp_mineable (snd (make_batch r p)) = rest \<and>
     tp_inflight (snd (make_batch r p)) =
       tp_inflight p ++ flight_map r (batch_prefix (tp_batch_size p) 0 (tp_mineable p)) \<and>
     (rest = [] \<or> tp_batch_size p \<le> bm_weight snd (batch_prefix (tp_batch_size p) 0 (tp_mineable p)))"
proof -
  let ?pre = "batch_prefix (tp_batch_size p) 0 (tp_mineable p)"
  obtain rest where rest: "tp_mineable p = ?pre @ rest" "rest = [] \<or> tp_batch_size p \<le> bm_weight snd ?pre"
    using batch_prefix_split [of "tp_mineable p" "tp_batch_size p" 0] by auto
  have "drop (length ?pre) (tp_mineable p) = rest" by (subst (2) rest(1)) simp
  with rest make_batch_loop_spec [of "touch_round r p" "tp_mineable p" r 0 "[]"] show ?thesis
    by (auto simp: make_batch_def Let_def case_prod_beta reset_timer_def touch_round_def)
qed

lemma make_batch_keys:
  assumes "tp_inv ops p" "tx \<in> set (fst (make_batch r p))"
  shows "map_of (tp_mineable p) (tx_key_of ops tx) \<noteq> None"
proof -
  let ?pre = "batch_prefix (tp_batch_size p) 0 (tp_mineable p)"
  obtain k sz where "(k, tx, sz) \<in> set ?pre"
    using assms(2) make_batch_split [of p r] by auto
  moreover have "set ?pre \<subseteq> set (tp_mineable p)" using make_batch_split [of p r]
    by (metis set_append sup_ge1)
  moreover have "distinct (map fst (tp_mineable p))"
    using assms(1) by (simp add: tp_inv_def bm_ok_def strict_sorted_iff)
  ultimately have "map_of (tp_mineable p) k = Some (tx, sz)" by (auto intro: map_of_is_SomeI)
  with assms(1) show ?thesis unfolding tp_inv_def by fastforce
qed

lemma make_batch_inflight:
  assumes inv: "tp_inv ops p" and tx: "tx \<in> set (fst (make_batch r p))"
  shows "\<exists>e. tp_inflight (snd (make_batch r p)) (tx_key_of ops tx) = Some e \<and> if_round e = r"
proof -
  let ?pre = "batch_prefix (tp_batch_size p) 0 (tp_mineable p)"
  obtain rest where split: "tp_mineable p = ?pre @ rest"
    "tp_inflight (snd (make_batch r p)) = tp_inflight p ++ flight_map r ?pre"
    "fst (make_batch r p) = map (fst \<circ> snd) ?pre"
    using make_batch_split [of p r] by auto
  obtain k sz where k: "(k, tx, sz) \<in> set ?pre" using tx split(3) by auto
  have d: "distinct (map fst (tp_mineable p))"
    using inv by (simp add: tp_inv_def bm_ok_def strict_sorted_iff)
  then have dist: "distinct (map fst ?pre)" by (subst (asm) split(1)) simp
  have "(k, tx, sz) \<in> set (tp_mineable p)" by (subst split(1)) (use k in simp)
  then have "map_of (tp_mineable p) k = Some (tx, sz)" using d by simp
  then have key: "tx_key_of ops tx = k" using tp_inv_mineable(2) [OF inv] by fastforce
  have "map_of ?pre k = Some (tx, sz)" using k dist by simp
  then show ?thesis
    using flight_map_Some [OF dist] by (simp add: key split(2) map_add_def)
qed

lemma rollback_round_other:
  assumes inv: "tp_inv ops p" and k: "tp_inflight p k = Some e" "if_round e \<noteq> r"
  shows "tp_inflight (rollback_round r p) k = Some e"
proof -
  have "bm_ok (tp_mineable (p\<lparr>tp_by_round := (tp_by_round p)(r := None)\<rparr>))"
    "distinct (entry_list (tp_by_round p) r)"
    "\<forall>k \<in> set (entry_list (tp_by_round p) r).
       tp_inflight (p\<lparr>tp_by_round := (tp_by_round p)(r := None)\<rparr>) k \<noteq> None"
    using inv tp_inv_idx [OF inv] by (auto simp: tp_inv_def)
  from rollback_keys_lookup [OF this, of k] show ?thesis
    using k tp_inv_idx [OF inv, of k r] by (simp add: rollback_round_eq)
qed

lemma rollback_other:
  "tp_inv ops p \<Longrightarrow> tp_inflight p k = Some e \<Longrightarrow> if_round e \<notin> set rs \<Longrightarrow>
     tp_inflight (rollback rs p) k = Some e"
proof (induction rs arbitrary: p)
  case (Cons r rs)
  then have "tp_inflight (rollback_round r p) k = Some e" by (simp add: rollback_round_other)
  with Cons show ?case by (simp add: rollback_def rollback_round_inv)
qed (simp add: rollback_def)

text \<open>Replay protection from any state the pool can be in.\<close>

lemma committed_stays_out:
  assumes "tp_inv ops p" "tx \<in> set b" "tx_client_id ops tx' = tx_client_id ops tx" "tx_nonce ops tx' \<le> tx_nonce ops tx"
  shows "tx' \<notin> set (fst (make_batch r' (foldl (pool_step ops) (commit_pool ops b r p) os')))"
proof
  let ?p = "commit_pool ops b r p"
  let ?q = "foldl (pool_step ops) ?p os'"
  assume "tx' \<in> set (fst (make_batch r' ?q))"
  moreover have inv: "tp_inv ops ?p" by (intro inv_intros assms(1))
  then have invq: "tp_inv ops ?q" by (intro pool.run_inv) (simp_all add: list_all_iff)
  ultimately have "map_of (tp_mineable ?q) (tx_key_of ops tx') \<noteq> None" by (intro make_batch_keys)
  then have "hi_of ?q (tx_client_id ops tx') < tx_nonce ops tx'"
    using tp_inv_mineable(1) [OF invq] by (force simp: tx_key_of_def)
  moreover have "tx_nonce ops tx \<le> hi_of ?p (tx_client_id ops tx)"
    unfolding hi_commit by (rule foldl_max_elem [OF assms(2)]) simp
  moreover have "hi_of ?p (tx_client_id ops tx) \<le> hi_of ?q (tx_client_id ops tx)"
    by (rule hi_run_mono [OF inv])
  ultimately show False using assms(3,4) by simp
qed

subsection \<open>Properties\<close>

text \<open>C34. Whatever sequence of client transactions, proposals, batches, commits and rollbacks a
  fresh pool goes through, no transaction is both Mineable and InFlight (the code's own
  \<open>debug_assert\<close>), the byte counter is the exact sum of the Mineable sizes, so no subtraction in
  the code underflows, and the whole pool invariant holds.\<close>

theorem txpool_consistent:
  "key_sets_disjoint (foldl (pool_step ops) (txpool_new bs) os) \<and>
   tp_bytes (foldl (pool_step ops) (txpool_new bs) os) =
     bm_weight snd (tp_mineable (foldl (pool_step ops) (txpool_new bs) os)) \<and>
   tp_inv ops (foldl (pool_step ops) (txpool_new bs) os)"
  using run_reachable [of ops bs os] tp_inv_disjoint [of ops "foldl (pool_step ops) (txpool_new bs) os"]
  by (simp add: tp_inv_def)

text \<open>C35. Replay protection: once a batch is committed, no later batch of this pool contains a
  transaction of the same client with the same or a lower nonce, whatever happens in between.\<close>

theorem committed_never_batched_again:
  assumes "tx \<in> set b" "tx_client_id ops tx' = tx_client_id ops tx" "tx_nonce ops tx' \<le> tx_nonce ops tx"
  shows "tx' \<notin> set (fst (make_batch r' (foldl (pool_step ops)
           (commit_pool ops b r (foldl (pool_step ops) (txpool_new bs) os)) os')))"
  by (rule committed_stays_out [OF run_reachable assms])

theorem committed_never_batched_again_witness:
  "(7 :: nat, 1 :: nat) \<notin> set (fst (make_batch 5 (foldl
      (pool_step \<lparr>tx_client_id = fst, tx_nonce = snd, tx_serialized_size = \<lambda>_. Some 8\<rparr>)
      (commit_pool \<lparr>tx_client_id = fst, tx_nonce = snd, tx_serialized_size = \<lambda>_. Some 8\<rparr> [(7, 2)] 3
        (foldl (pool_step \<lparr>tx_client_id = fst, tx_nonce = snd, tx_serialized_size = \<lambda>_. Some 8\<rparr>)
           (txpool_new 100) [PAdd (7, 2) 8]))
      [PAdd (7, 1) 8])))"
  by (rule committed_never_batched_again [where tx = "(7, 2)"]) simp_all

text \<open>No transaction is lost: once Mineable or InFlight, it stays so through any sequence of
  operations until the client's committed high-water mark reaches its nonce.\<close>

theorem txpool_never_loses:
  assumes "tracked (foldl (pool_step ops) (txpool_new bs) os) k"
    and "hi_of (foldl (pool_step ops) (txpool_new bs) (os @ os')) (fst k) < snd k"
  shows "tracked (foldl (pool_step ops) (txpool_new bs) (os @ os')) k"
  using tracked_run [OF run_reachable assms(1)] assms(2) by simp

theorem txpool_never_loses_witness:
  "tracked (foldl (pool_step \<lparr>tx_client_id = fst, tx_nonce = snd, tx_serialized_size = \<lambda>_. Some 8\<rparr>)
     (txpool_new 100) ([PAdd (7 :: nat, 2 :: nat) 8] @ [PAdmit [(7, 2)] 3, PRollback [3]])) (7, 2)"
  by (rule txpool_never_loses)
     (simp_all add: tracked_def pool_step_def add_tx_def txpool_new_def hi_of_def Let_def
        admit_proposal_def touch_round_def admit_one_def rollback_def rollback_round_def
        rollback_one_def set_insert_def entry_list_def)

text \<open>The proposer's batch is the shortest prefix of Mineable in key order that reaches
  \<open>batch_size\<close> bytes (all of Mineable when that is too small); what it takes goes InFlight at the
  round, the rest stays Mineable.\<close>

theorem make_batch_takes_shortest_prefix:
  "\<exists>pre rest. tp_mineable p = pre @ rest \<and> tp_mineable (snd (make_batch r p)) = rest \<and>
     fst (make_batch r p) = map (fst \<circ> snd) pre \<and>
     tp_inflight (snd (make_batch r p)) = tp_inflight p ++ flight_map r pre \<and>
     (rest = [] \<or> tp_batch_size p \<le> bm_weight snd pre) \<and>
     (pre = [] \<or> bm_weight snd (butlast pre) < tp_batch_size p)"
proof -
  let ?pre = "batch_prefix (tp_batch_size p) 0 (tp_mineable p)"
  have "?pre = [] \<or> bm_weight snd (butlast ?pre) < tp_batch_size p"
    using batch_prefix_minimal [of "tp_batch_size p" 0 "tp_mineable p" "butlast ?pre" "last ?pre"]
    by (cases "?pre = []") simp_all
  with make_batch_split [of p r] show ?thesis by blast
qed

text \<open>Rolling back the round of a batch just made puts the pool back: the same Mineable map
  (in the same order, with the same byte counter) and the same InFlight table, when the pool had
  nothing in flight for that round.\<close>

theorem rollback_undoes_make_batch:
  assumes inv: "tp_inv ops p" and fresh: "entry_list (tp_by_round p) r = []"
  shows "tp_mineable (rollback [r] (snd (make_batch r p))) = tp_mineable p \<and>
    tp_bytes (rollback [r] (snd (make_batch r p))) = tp_bytes p \<and>
    tp_inflight (rollback [r] (snd (make_batch r p))) = tp_inflight p"
proof -
  let ?q = "snd (make_batch r p)" and ?pre = "batch_prefix (tp_batch_size p) 0 (tp_mineable p)"
  let ?res = "rollback [r] ?q" and ?ks = "entry_list (tp_by_round ?q) r"
  obtain rest where split: "tp_mineable p = ?pre @ rest" "tp_mineable ?q = rest"
    "tp_inflight ?q = tp_inflight p ++ flight_map r ?pre"
    using make_batch_split [of p r] by auto
  have invq: "tp_inv ops ?q" and inv': "tp_inv ops ?res" using inv by (auto intro: inv_intros)
  have dist: "distinct (map fst ?pre)" "fst ` set ?pre \<inter> fst ` set rest = {}"
    using inv split(1) unfolding tp_inv_def bm_ok_def strict_sorted_iff
    by (metis distinct_append map_append, metis distinct_append map_append list.set_map)
  have pre_mine: "map_of (tp_mineable p) k = Some v" if "map_of ?pre k = Some v" for k v
    using that by (subst split(1)) (simp add: map_add_def)
  have none_p: "\<not> (\<exists>e. tp_inflight p k = Some e \<and> if_round e = r)" for k
    using tp_inv_idx [OF inv, of k r] fresh by simp
  have ks: "k \<in> set ?ks \<longleftrightarrow> k \<in> fst ` set ?pre" for k
  proof -
    have "k \<in> set ?ks \<longleftrightarrow> (\<exists>e. tp_inflight ?q k = Some e \<and> if_round e = r)"
      by (rule tp_inv_idx [OF invq])
    also have "\<dots> \<longleftrightarrow> k \<in> fst ` set ?pre"
    proof (cases "map_of ?pre k")
      case None
      then have "k \<notin> fst ` set ?pre" "flight_map r ?pre k = None"
        by (simp_all add: flight_map_None map_of_eq_None_iff)
      then show ?thesis using none_p [of k] by (simp add: split(3) map_add_def)
    next
      case (Some v)
      then show ?thesis using flight_map_Some [OF dist(1), of k "fst v" "snd v" r]
        by (force simp: split(3) map_add_def dest: map_of_SomeD)
    qed
    finally show ?thesis .
  qed
  have "bm_ok (tp_mineable (?q\<lparr>tp_by_round := (tp_by_round ?q)(r := None)\<rparr>))" "distinct ?ks"
    "\<forall>k \<in> set ?ks. tp_inflight (?q\<lparr>tp_by_round := (tp_by_round ?q)(r := None)\<rparr>) k \<noteq> None"
    using invq tp_inv_idx [OF invq] by (auto simp: tp_inv_def)
  note look = rollback_keys_lookup [OF this]
  have res: "?res = foldl (\<lambda>p k. rollback_one k p) (?q\<lparr>tp_by_round := (tp_by_round ?q)(r := None)\<rparr>) ?ks"
    by (simp add: rollback_def rollback_round_eq)
  have "map_of (tp_mineable ?res) k = map_of (tp_mineable p) k \<and> tp_inflight ?res k = tp_inflight p k" for k
  proof (cases "map_of ?pre k")
    case None
    then have "k \<notin> set ?ks" by (simp add: ks map_of_eq_None_iff)
    moreover have "map_of (tp_mineable p) k = map_of rest k"
      using None by (subst split(1)) (simp add: map_add_def)
    moreover have "flight_map r ?pre k = None" using None by (simp add: flight_map_None map_of_eq_None_iff)
    ultimately show ?thesis using look [of k] unfolding res by (simp add: split(2,3) map_add_def)
  next
    case (Some v)
    then have "k \<in> set ?ks" using ks [of k] by (force dest: map_of_SomeD)
    moreover have "tp_inflight ?q k = Some \<lparr>if_tx = fst v, if_size = snd v, if_round = r\<rparr>"
      using flight_map_Some [OF dist(1), of k "fst v" "snd v" r] Some
      by (simp add: split(3) map_add_def)
    moreover have "map_of (tp_mineable p) k = Some (fst v, snd v)" using pre_mine [OF Some] by simp
    moreover from this have "hi_of p (fst k) < snd k" "tp_inflight p k = None"
      using tp_inv_mineable [OF inv] by blast+
    ultimately show ?thesis using look [of k] unfolding res by simp
  qed
  then have maps: "map_of (tp_mineable ?res) = map_of (tp_mineable p)" "tp_inflight ?res = tp_inflight p"
    by (simp_all add: fun_eq_iff)
  then have "tp_mineable ?res = tp_mineable p"
    using inv inv' by (intro bm_extensional) (simp_all add: tp_inv_def)
  with maps inv inv' show ?thesis by (simp add: tp_inv_def)
qed


theorem rollback_undoes_make_batch_witness:
  "tp_mineable (rollback [4] (snd (make_batch 4 (add_tx
     \<lparr>tx_client_id = fst, tx_nonce = snd, tx_serialized_size = \<lambda>_. Some 8\<rparr> (7 :: nat, 2 :: nat) 8
     (txpool_new 100))))) = [((7, 2), (7, 2), 8)]"
proof -
  let ?ops = "\<lparr>tx_client_id = fst, tx_nonce = snd, tx_serialized_size = \<lambda>_. Some 8\<rparr> :: (nat \<times> nat) tx_ops"
  let ?p = "add_tx ?ops (7, 2) 8 (txpool_new 100)"
  have "tp_inv ?ops ?p" by (intro inv_intros)
  moreover have "entry_list (tp_by_round ?p) 4 = []" "tp_mineable ?p = [((7, 2), (7, 2), 8)]"
    by (simp_all add: add_tx_def txpool_new_def hi_of_def Let_def)
  ultimately show ?thesis using rollback_undoes_make_batch [of ?ops ?p 4] by simp
qed

text \<open>A transaction with nonce 0 never enters the pool: the default high-water mark of an
  unknown client is 0 and both ways in require a nonce above it. The stress clients number their
  transactions from 0.\<close>

theorem nonce_zero_never_enters:
  assumes "tx_nonce ops tx = 0"
  shows "add_tx ops tx sz p = p \<and> admit_proposal ops [tx] r p = touch_round r p"
  using assms by (simp add: add_tx_def admit_proposal_def admit_one_def Let_def)

theorem nonce_zero_never_enters_witness:
  "add_tx \<lparr>tx_client_id = fst, tx_nonce = snd, tx_serialized_size = \<lambda>_. Some 8\<rparr> (7 :: nat, 0 :: nat) 8
     (txpool_new 100) = txpool_new 100"
  using nonce_zero_never_enters
    [of "\<lparr>tx_client_id = fst, tx_nonce = snd, tx_serialized_size = \<lambda>_. Some 8\<rparr>" "(7, 0)" 8 "txpool_new 100" 1]
  by simp

end
