(* ===== verification/Batcher.thy ===== *)
theory Batcher
  imports Txpool
begin

section \<open>The round-robin batcher\<close>

text \<open>
  \<^verbatim>\<open>server/rr_batcher.rs\<close>: the task that owns the transaction pool. Its \<^verbatim>\<open>select!\<close> loop waits
  for a timer tick (only while it may propose), a client transaction or a message of the
  consensus engine; each is one step. A closed input channel, and a failed send of a batch, end
  the loop with an error. \<open>b_out\<close> is the log of the batches sent to the proposer.
\<close>

datatype 'tx batcher_msg =
    NewRound node_id round
  | Proposed "'tx batch" round
  | Committed "'tx batch" round
  | Rollback "round list"

record batcher_params =
  bp_my_id :: node_id
  bp_initial_leader :: node_id
  bp_batch_size :: nat

record 'tx batcher =
  b_my_id :: node_id
  b_leader :: node_id
  b_round :: round
  b_proposed :: bool
  b_pool :: "'tx txpool"
  b_out :: "'tx batch list"
  b_out_open :: bool

datatype 'tx batcher_event =
    BTick
  | BTx "('tx \<times> nat) option"
  | BMsg "'tx batcher_msg option"

definition batcher_spawn :: "batcher_params \<Rightarrow> 'tx batcher" where
  "batcher_spawn ps =
     \<lparr>b_my_id = bp_my_id ps, b_leader = bp_initial_leader ps, b_round = 0, b_proposed = False,
      b_pool = txpool_new (bp_batch_size ps), b_out = [], b_out_open = True\<rparr>"

definition can_propose :: "'tx batcher \<Rightarrow> bool" where
  "can_propose b \<longleftrightarrow> b_my_id b = b_leader b \<and> \<not> b_proposed b"

definition propose :: "'tx batch \<Rightarrow> 'tx batcher \<Rightarrow> unit outcome \<times> 'tx batcher" where
  "propose bt b =
     (let b' = b\<lparr>b_proposed := True\<rparr> in
      if b_out_open b then (Ok (), b'\<lparr>b_out := b_out b @ [bt]\<rparr>) else (Err ChannelClosed, b'))"

definition seal_and_propose :: "'tx batcher \<Rightarrow> unit outcome \<times> 'tx batcher" where
  "seal_and_propose b =
     (let (bt, pool) = make_batch (b_round b) (b_pool b) in propose bt (b\<lparr>b_pool := pool\<rparr>))"

definition try_propose :: "'tx batcher \<Rightarrow> unit outcome \<times> 'tx batcher" where
  "try_propose b =
     (if b_my_id b = b_leader b \<and> \<not> b_proposed b \<and> pool_ready (b_pool b)
      then seal_and_propose b else (Ok (), b))"

definition batcher_step ::
  "'tx tx_ops \<Rightarrow> 'tx batcher_event \<Rightarrow> 'tx batcher \<Rightarrow> unit outcome \<times> 'tx batcher" where
  "batcher_step ops ev b = (case ev of
     BTick \<Rightarrow> if can_propose b then seal_and_propose b else (Ok (), b)
   | BTx None \<Rightarrow> (Err ChannelClosed, b)
   | BTx (Some (tx, sz)) \<Rightarrow>
       let b' = b\<lparr>b_pool := add_tx ops tx sz (b_pool b)\<rparr> in
       if can_propose b \<and> pool_ready (b_pool b') then seal_and_propose b' else (Ok (), b')
   | BMsg None \<Rightarrow> (Err ChannelClosed, b)
   | BMsg (Some (NewRound l r)) \<Rightarrow>
       try_propose (b\<lparr>b_leader := l, b_round := r, b_proposed := False,
                      b_pool := reset_timer (b_pool b)\<rparr>)
   | BMsg (Some (Proposed bt r)) \<Rightarrow> (Ok (), b\<lparr>b_pool := admit_proposal ops bt r (b_pool b)\<rparr>)
   | BMsg (Some (Committed bt r)) \<Rightarrow> (Ok (), b\<lparr>b_pool := commit_pool ops bt r (b_pool b)\<rparr>)
   | BMsg (Some (Rollback rs)) \<Rightarrow> (Ok (), b\<lparr>b_pool := rollback rs (b_pool b)\<rparr>))"

text \<open>The loop: it stops with the first error.\<close>

fun batcher_run ::
  "'tx tx_ops \<Rightarrow> 'tx batcher_event list \<Rightarrow> 'tx batcher \<Rightarrow> unit outcome \<times> 'tx batcher" where
  "batcher_run ops [] b = (Ok (), b)"
| "batcher_run ops (ev # evs) b = bind_s (batcher_step ops ev) (\<lambda>_. batcher_run ops evs) b"

subsection \<open>The pool invariant\<close>

lemma seal_and_propose_pool: "b_pool (snd (seal_and_propose b)) = snd (make_batch (b_round b) (b_pool b))"
  by (simp add: seal_and_propose_def propose_def Let_def case_prod_beta)

lemma batcher_step_inv:
  assumes "tp_inv ops (b_pool b)"
  shows "tp_inv ops (b_pool (snd (batcher_step ops ev b)))"
  using assms
  by (auto simp: batcher_step_def try_propose_def seal_and_propose_pool Let_def add_tx_inv
      make_batch_inv reset_timer_inv admit_proposal_inv commit_pool_inv rollback_inv
      split: batcher_event.splits option.splits batcher_msg.splits)

interpretation batching: step_machine "\<lambda>b ev. snd (batcher_step ops ev b)" "\<lambda>_. True"
  "\<lambda>b. tp_inv ops (b_pool b)" for ops
  by unfold_locales (rule batcher_step_inv)

subsection \<open>Who proposes, and how often\<close>

text \<open>\<open>proposals_in\<close> counts the batches sent; a step that is no new round sends at most one, sets
  the flag when it does, and sends none when the flag is set or another node leads.\<close>

fun new_round :: "'tx batcher_event \<Rightarrow> bool" where
  "new_round (BMsg (Some (NewRound _ _))) = True"
| "new_round _ = False"

lemma seal_and_propose_sel [simp]:
  "b_proposed (snd (seal_and_propose b))" "b_my_id (snd (seal_and_propose b)) = b_my_id b"
  "b_leader (snd (seal_and_propose b)) = b_leader b" "b_round (snd (seal_and_propose b)) = b_round b"
  "b_out (snd (seal_and_propose b)) = b_out b @
     (if b_out_open b then [fst (make_batch (b_round b) (b_pool b))] else [])"
  "b_out_open (snd (seal_and_propose b)) = b_out_open b"
  by (simp_all add: seal_and_propose_def propose_def Let_def case_prod_beta)

lemma batcher_step_same_round:
  assumes "\<not> new_round ev"
  shows "b_my_id (snd (batcher_step ops ev b)) = b_my_id b"
    and "b_leader (snd (batcher_step ops ev b)) = b_leader b"
    and "b_round (snd (batcher_step ops ev b)) = b_round b"
    and "b_proposed b \<Longrightarrow> b_proposed (snd (batcher_step ops ev b))"
    and "\<not> can_propose b \<Longrightarrow> b_out (snd (batcher_step ops ev b)) = b_out b"
    and "length (b_out (snd (batcher_step ops ev b))) \<le>
      length (b_out b) + (if b_proposed (snd (batcher_step ops ev b)) \<and> \<not> b_proposed b then 1 else 0)"
  using assms
  by (auto simp: batcher_step_def can_propose_def Let_def
      split: batcher_event.splits option.splits batcher_msg.splits)

lemma batcher_run_same_round:
  assumes "list_all (\<lambda>ev. \<not> new_round ev) evs"
  shows "length (b_out (snd (batcher_run ops evs b))) \<le> length (b_out b) + (if b_proposed b then 0 else 1)
    \<and> (b_my_id b \<noteq> b_leader b \<longrightarrow> b_out (snd (batcher_run ops evs b)) = b_out b)"
  using assms
proof (induction evs arbitrary: b)
  case Nil
  then show ?case by simp
next
  case (Cons ev evs)
  obtain r b' where s: "batcher_step ops ev b = (r, b')" by fastforce
  have nr: "\<not> new_round ev" using Cons.prems by simp
  note st = batcher_step_same_round [OF nr, where ops = ops and b = b, unfolded s snd_conv]
  have IH: "length (b_out (snd (batcher_run ops evs b'))) \<le> length (b_out b') + (if b_proposed b' then 0 else 1)
    \<and> (b_my_id b' \<noteq> b_leader b' \<longrightarrow> b_out (snd (batcher_run ops evs b')) = b_out b')"
    using Cons by simp
  have "snd (batcher_run ops (ev # evs) b) \<in> {b', snd (batcher_run ops evs b')}"
    by (auto simp: bind_s_def s split: outcome.splits)
  then show ?case
    using st IH by (auto simp: can_propose_def split: if_splits)
qed

lemma batcher_run_inv:
  "tp_inv ops (b_pool b) \<Longrightarrow> tp_inv ops (b_pool (snd (batcher_run ops evs b)))"
proof (induction evs arbitrary: b)
  case (Cons ev evs)
  have "tp_inv ops (b_pool (snd (bind_s (batcher_step ops ev) (\<lambda>_. batcher_run ops evs) b)))"
  proof (rule bind_s_inv [where I = "\<lambda>b. tp_inv ops (b_pool b)"])
    show "tp_inv ops (b_pool (snd (batcher_step ops ev b)))"
      using batching.step_inv [OF Cons.prems TrueI] .
  qed (rule Cons.IH)
  then show ?case by simp
qed simp

lemma batcher_run_round:
  "list_all (\<lambda>ev. \<not> new_round ev) evs \<Longrightarrow> b_round (snd (batcher_run ops evs b)) = b_round b"
proof (induction evs arbitrary: b)
  case (Cons ev evs)
  obtain r b' where s: "batcher_step ops ev b = (r, b')" by fastforce
  then have "b_round b' = b_round b"
    using batcher_step_same_round(3) [of ev ops b] Cons.prems by simp
  with Cons s show ?case by (simp add: bind_s_def split: outcome.splits)
qed simp

subsection \<open>Properties\<close>

text \<open>From one round announcement to the next the batcher seals at most one batch, and none
  unless the announced leader is this node.\<close>

theorem one_batch_per_round:
  assumes "list_all (\<lambda>ev. \<not> new_round ev) evs"
  shows "length (b_out (snd (batcher_run ops (BMsg (Some (NewRound l r)) # evs) b))) \<le> length (b_out b) + 1
    \<and> (l \<noteq> b_my_id b \<longrightarrow>
        b_out (snd (batcher_run ops (BMsg (Some (NewRound l r)) # evs) b)) = b_out b)"
proof -
  let ?b = "b\<lparr>b_leader := l, b_round := r, b_proposed := False, b_pool := reset_timer (b_pool b)\<rparr>"
  obtain res b' where s: "batcher_step ops (BMsg (Some (NewRound l r))) b = (res, b')" by fastforce
  then have "b' = snd (try_propose ?b)" by (simp add: batcher_step_def)
  then have b': "length (b_out b') \<le> length (b_out b) + (if b_proposed b' then 1 else 0)"
    "l \<noteq> b_my_id b \<Longrightarrow> b_out b' = b_out b \<and> b_my_id b' \<noteq> b_leader b'"
    by (simp_all add: try_propose_def)
  have "snd (batcher_run ops (BMsg (Some (NewRound l r)) # evs) b) \<in> {b', snd (batcher_run ops evs b')}"
    by (auto simp: bind_s_def s split: outcome.splits)
  then show ?thesis
    using b' batcher_run_same_round [OF assms, of ops b'] by (auto split: if_splits)
qed


theorem one_batch_per_round_witness:
  "length (b_out (snd (batcher_run \<lparr>tx_client_id = fst, tx_nonce = snd, tx_serialized_size = \<lambda>_. Some 8\<rparr>
     (BMsg (Some (NewRound 1 4)) # [BTick, BTx (Some ((7 :: nat, 2 :: nat), 8)), BTick])
     (batcher_spawn \<lparr>bp_my_id = 1, bp_initial_leader = 0, bp_batch_size = 4\<rparr>)))) \<le> 1"
  using one_batch_per_round [where l = 1 and r = 4
      and evs = "[BTick, BTx (Some ((7 :: nat, 2 :: nat), 8)), BTick]"
      and b = "batcher_spawn \<lparr>bp_my_id = 1, bp_initial_leader = 0, bp_batch_size = 4\<rparr>"
      and ops = "\<lparr>tx_client_id = fst, tx_nonce = snd, tx_serialized_size = \<lambda>_. Some 8\<rparr>"]
  by (simp add: batcher_spawn_def)

text \<open>The pool the batcher owns satisfies the pool invariant after any run of the loop, from
  start-up, whether or not the run ended with an error.\<close>

theorem batcher_pool_consistent:
  "tp_inv ops (b_pool (snd (batcher_run ops evs (batcher_spawn ps))))"
  by (rule batcher_run_inv) (simp add: batcher_spawn_def txpool_new_inv)

text \<open>A batch the initial leader seals before the first round announcement is in flight for
  round 0, although consensus proposes it in round 1: rolling back any rounds but 0 leaves its
  transactions InFlight, so they are not proposed again when their proposal is orphaned.\<close>

theorem first_batch_stuck_after_rollback:
  assumes b: "b = snd (batcher_run ops evs (batcher_spawn ps))" "list_all (\<lambda>ev. \<not> new_round ev) evs"
    and cp: "can_propose b" and tx: "tx \<in> set (fst (make_batch (b_round b) (b_pool b)))"
    and rs: "0 \<notin> set rs"
  shows "tp_inflight (b_pool (snd (batcher_step ops (BMsg (Some (Rollback rs)))
           (snd (batcher_step ops BTick b))))) (tx_key_of ops tx) \<noteq> None"
proof -
  have inv: "tp_inv ops (b_pool b)"
    unfolding b(1) by (rule batcher_run_inv) (simp add: batcher_spawn_def txpool_new_inv)
  have "b_round b = 0" unfolding b(1) batcher_run_round [OF b(2)] by (simp add: batcher_spawn_def)
  then obtain e where "tp_inflight (snd (make_batch 0 (b_pool b))) (tx_key_of ops tx) = Some e" "if_round e = 0"
    using make_batch_inflight [OF inv tx] by auto
  then show ?thesis
    using rollback_other [OF make_batch_inv [OF inv, of 0], of _ e rs] rs cp \<open>b_round b = 0\<close>
    by (simp add: batcher_step_def seal_and_propose_pool)
qed

theorem first_batch_stuck_after_rollback_witness:
  "tp_inflight (b_pool (snd (batcher_step \<lparr>tx_client_id = fst, tx_nonce = snd, tx_serialized_size = \<lambda>_. Some 8\<rparr>
     (BMsg (Some (Rollback [1])))
     (snd (batcher_step \<lparr>tx_client_id = fst, tx_nonce = snd, tx_serialized_size = \<lambda>_. Some 8\<rparr> BTick
       (snd (batcher_run \<lparr>tx_client_id = fst, tx_nonce = snd, tx_serialized_size = \<lambda>_. Some 8\<rparr>
          [BTx (Some ((7 :: nat, 2 :: nat), 8))]
          (batcher_spawn \<lparr>bp_my_id = 0, bp_initial_leader = 0, bp_batch_size = 100\<rparr>)))))))) (7, 2) \<noteq> None"
proof -
  let ?ops = "\<lparr>tx_client_id = fst, tx_nonce = snd, tx_serialized_size = \<lambda>_. Some 8\<rparr> :: (nat \<times> nat) tx_ops"
  let ?b = "snd (batcher_run ?ops [BTx (Some ((7, 2), 8))]
     (batcher_spawn \<lparr>bp_my_id = 0, bp_initial_leader = 0, bp_batch_size = 100\<rparr>))"
  note defs = bind_s_def batcher_step_def batcher_spawn_def add_tx_def txpool_new_def hi_of_def
    Let_def can_propose_def pool_ready_def
  have "(7, 2) \<in> set (fst (make_batch (b_round ?b) (b_pool ?b)))"
    using make_batch_split [of "b_pool ?b" "b_round ?b"] by (simp add: defs)
  moreover have "can_propose ?b" by (simp add: defs)
  ultimately show ?thesis
    using first_batch_stuck_after_rollback [of ?b ?ops "[BTx (Some ((7, 2), 8))]"
        "\<lparr>bp_my_id = 0, bp_initial_leader = 0, bp_batch_size = 100\<rparr>" "(7, 2)" "[1]"]
    by (simp add: tx_key_of_def)
qed

end
