(* ===== verification/Commit.thy ===== *)
theory Commit
  imports Instances Batcher
begin

section \<open>The commit context\<close>

text \<open>
  \<^verbatim>\<open>server/leto/phases/commit.rs\<close>: the task that receives the highest chain element at every
  end of round, keeps the queue of uncommitted elements and the count of their proposers, and
  commits from the front while the queue has proposals of a quorum of different proposers.
  The walk towards the parents may not end on a cyclic store and so is a partial function:
  \<open>None\<close> is the walk that does not return. Logging and the throughput metric's printing have no
  effect on the state; the metric's counter is kept.
\<close>

record ('q, 'u, 'tx) commit_ctx =
  cm_commit_len :: nat
  cm_highest_element :: "'tx element"
  cm_highest_hash :: digest
  cm_unique :: 'u
  cm_queue :: 'q
  cm_to_batcher :: "'tx batcher_msg list"
  cm_committed :: "'tx batch list"
  cm_commit_open :: bool
  cm_emit_dp :: bool
  cm_tx_count :: nat

type_synonym ('q, 'tx) queue_ops = "('q, digest, 'tx element) lhm_ops"
type_synonym 'u count_ops = "('u, node_id, nat) lhm_ops"

definition el_round :: "'tx element \<Rightarrow> round" where
  "el_round el = p_round (el_proposal el)"

definition el_proposer :: "'tx element \<Rightarrow> node_id" where
  "el_proposer el = sig_id (el_auth el)"

text \<open>The set-up part of \<^verbatim>\<open>run\<close>: the genesis element is written and becomes the queue.\<close>

definition commit_init ::
  "('s, 'tx, 'b) env \<Rightarrow> ('q, 'tx) queue_ops \<Rightarrow> 'u count_ops \<Rightarrow> nat \<Rightarrow> nat \<Rightarrow> node_id \<Rightarrow> node_id \<Rightarrow> 's
    \<Rightarrow> ('q, 'u, 'tx) commit_ctx outcome \<times> 's" where
  "commit_init e qo uo n f my_id metrics_node s =
     (let (r, cs) = genesis_setup e (chain_state_new e s);
          g = element_genesis START_ID;
          gh = ser_and_hash (crypt e) (cd_element e) g
      in (bind_o r (\<lambda>_. Ok
           \<lparr>cm_commit_len = (n + f + 1) div 2, cm_highest_element = g, cm_highest_hash = gh,
            cm_unique = lhm_insert uo (el_proposer g) 1 (lhm_empty uo),
            cm_queue = lhm_insert qo gh g (lhm_empty qo),
            cm_to_batcher = [], cm_committed = [], cm_commit_open = True,
            cm_emit_dp = (my_id = metrics_node), cm_tx_count = 0\<rparr>), cs_db cs))"

text \<open>The walk: whether it connected to the back of the queue, the local queue, the local counts.\<close>

partial_function (option) commit_walk ::
  "('s, 'tx, 'b) env \<Rightarrow> ('q, 'tx) queue_ops \<Rightarrow> 'u count_ops \<Rightarrow> 's \<Rightarrow> ('q, 'u, 'tx) commit_ctx
    \<Rightarrow> 'tx element \<Rightarrow> digest \<Rightarrow> 'q \<Rightarrow> 'u \<Rightarrow> (bool \<times> 'q \<times> 'u) option" where
  "commit_walk e qo uo s cm head head_hash lq lu =
     (if el_round (cm_highest_element cm) < el_round head then
        if (case lhm_back qo (cm_queue cm) of None \<Rightarrow> False | Some (h, _) \<Rightarrow> h = head_hash)
        then Some (True, lq, lu)
        else if head_hash = cm_highest_hash cm then Some (False, lq, lu)
        else
          (case db_read (store e) (cd_element e) s head_hash of
             Ok (Some parent) \<Rightarrow>
               commit_walk e qo uo s cm parent (parent_hash (el_proposal parent))
                 (lhm_insert qo head_hash head lq) (lhm_bump uo (el_proposer head) 1 lu)
           | _ \<Rightarrow> Some (False, lhm_insert qo head_hash head lq, lhm_bump uo (el_proposer head) 1 lu))
      else Some (False, lq, lu))"

text \<open>A chain switch replaces the queue, after the orphaned rounds (all but 0) are reported.\<close>

definition replace_queue ::
  "('q, 'tx) queue_ops \<Rightarrow> 'q \<Rightarrow> 'u \<Rightarrow> ('q, 'u, 'tx) commit_ctx \<Rightarrow> ('q, 'u, 'tx) commit_ctx" where
  "replace_queue qo lq lu cm =
     (let orphaned = filter (\<lambda>r. r \<noteq> 0) (map (\<lambda>x. el_round (snd x)) (lhm_iter qo (cm_queue cm)))
      in cm\<lparr>cm_to_batcher := (if orphaned \<noteq> [] then cm_to_batcher cm @ [Rollback orphaned]
                              else cm_to_batcher cm),
            cm_queue := lq, cm_unique := lu\<rparr>)"

definition extend_queue ::
  "('q, 'tx) queue_ops \<Rightarrow> 'u count_ops \<Rightarrow> 'q \<Rightarrow> 'u \<Rightarrow> ('q, 'u, 'tx) commit_ctx \<Rightarrow> ('q, 'u, 'tx) commit_ctx" where
  "extend_queue qo uo lq lu cm =
     cm\<lparr>cm_queue := lhm_extend qo (cm_queue cm) lq,
        cm_unique := foldl (\<lambda>u x. lhm_bump uo (fst x) (snd x) u) (cm_unique cm) (lhm_iter uo lu)\<rparr>"

partial_function (option) commit_loop ::
  "('q, 'tx) queue_ops \<Rightarrow> 'u count_ops \<Rightarrow> ('q, 'u, 'tx) commit_ctx
    \<Rightarrow> (unit outcome \<times> ('q, 'u, 'tx) commit_ctx) option" where
  "commit_loop qo uo cm =
     (if cm_commit_len cm \<le> lhm_len uo (cm_unique cm) then
        (case lhm_pop_front qo (cm_queue cm) of
           None \<Rightarrow> Some (Panic, cm)
         | Some ((h, el), q) \<Rightarrow>
             (case lhm_get uo (cm_unique cm) (el_proposer el) of
                None \<Rightarrow> Some (Panic, cm\<lparr>cm_queue := q\<rparr>)
              | Some c \<Rightarrow>
                  if c = 0 then Some (Panic, cm\<lparr>cm_queue := q\<rparr>)
                  else
                    let u = lhm_modify uo (el_proposer el) (\<lambda>c. c - 1) (cm_unique cm);
                        u' = (if c - 1 = 0 then lhm_remove uo (el_proposer el) u else u);
                        cm1 = cm\<lparr>cm_queue := q, cm_unique := u',
                                 cm_tx_count := (if cm_emit_dp cm then cm_tx_count cm + length (el_batch el)
                                                 else cm_tx_count cm),
                                 cm_to_batcher := cm_to_batcher cm @ [Committed (el_batch el) (el_round el)]\<rparr>
                    in if cm_commit_open cm1 then
                         commit_loop qo uo (cm1\<lparr>cm_committed := cm_committed cm1 @ [el_batch el],
                                               cm_highest_hash := h, cm_highest_element := el\<rparr>)
                       else Some (Err ChannelClosed, cm1)))
      else Some (Ok (), cm))"

definition end_round ::
  "('s, 'tx, 'b) env \<Rightarrow> ('q, 'tx) queue_ops \<Rightarrow> 'u count_ops \<Rightarrow> 's \<Rightarrow> digest \<Rightarrow> 'tx element
    \<Rightarrow> ('q, 'u, 'tx) commit_ctx \<Rightarrow> (unit outcome \<times> ('q, 'u, 'tx) commit_ctx) option" where
  "end_round e qo uo s h el cm =
     (if el_round el = 0 then Some (Ok (), cm)
      else case commit_walk e qo uo s cm el h (lhm_empty qo) (lhm_empty uo) of
        None \<Rightarrow> None
      | Some (connected, lq, lu) \<Rightarrow>
          commit_loop qo uo
            (if connected then extend_queue qo uo lq lu cm else replace_queue qo lq lu cm))"

text \<open>The metrics branch of the loop: the counter is printed and cleared.\<close>

definition bench_tick :: "('q, 'u, 'tx) commit_ctx \<Rightarrow> ('q, 'u, 'tx) commit_ctx" where
  "bench_tick cm = (if cm_emit_dp cm then cm\<lparr>cm_tx_count := 0\<rparr> else cm)"


subsection \<open>Proposer counts\<close>

definition proposers :: "(digest \<times> 'tx element) list \<Rightarrow> node_id list" where
  "proposers xs = map (\<lambda>x. el_proposer (snd x)) xs"

lemma proposers_simps [simp]:
  "proposers [] = []" "proposers (x # xs) = el_proposer (snd x) # proposers xs"
  "proposers (xs @ ys) = proposers xs @ proposers ys"
  by (simp_all add: proposers_def)

text \<open>The count map holds exactly how often each node proposed in the queue.\<close>

definition counts_ok :: "'u count_ops \<Rightarrow> 'u \<Rightarrow> node_id list \<Rightarrow> bool" where
  "counts_ok uo u ids \<longleftrightarrow> distinct (map fst (lhm_iter uo u)) \<and>
     (\<forall>i. map_of (lhm_iter uo u) i = (if i \<in> set ids then Some (count_list ids i) else None))"

lemma counts_len:
  assumes "lhm_ok uo" "counts_ok uo u ids"
  shows "lhm_len uo u = card (set ids)"
proof -
  have "dom (map_of (lhm_iter uo u)) = set ids"
    using assms(2) by (auto simp: counts_ok_def dom_def split: if_splits)
  then have "set (map fst (lhm_iter uo u)) = set ids" by (simp add: dom_map_of_conv_image_fst)
  then show ?thesis
    using assms(2) lhm_okD(7) [OF assms(1)] unfolding counts_ok_def
    by (metis distinct_card length_map)
qed

lemma counts_push:
  assumes "lhm_ok uo" "counts_ok uo u ids"
  shows "counts_ok uo (lhm_bump uo i 1 u) (ids @ [i])"
  using assms lhm_bump_distinct [OF assms(1), of u i 1] lhm_bump_lookup [OF assms(1), of i 1 u]
  by (auto simp: counts_ok_def count_list_append)

lemma count_list_pos: "i \<in> set xs \<Longrightarrow> 0 < count_list xs i"
  by (metis count_list_0_iff gr0I)

lemma counts_pop:
  assumes "lhm_ok uo" "counts_ok uo u (i # ids)"
  defines "u1 \<equiv> lhm_modify uo i (\<lambda>c. c - 1) u"
  shows "lhm_get uo u i = Some (Suc (count_list ids i))"
    and "counts_ok uo (if count_list ids i = 0 then lhm_remove uo i u1 else u1) ids"
proof -
  show "lhm_get uo u i = Some (Suc (count_list ids i))"
    using assms(2) by (simp add: lhm_okD [OF assms(1)] counts_ok_def)
  have d1: "distinct (map fst (lhm_iter uo u1))"
    using assms(2) by (simp add: u1_def lhm_okD [OF assms(1)] counts_ok_def o_def)
  have l1: "map_of (lhm_iter uo u1) j = (if j = i then Some (count_list ids i)
      else if j \<in> set ids then Some (count_list ids j) else None)" for j
    using assms(2) by (auto simp: u1_def lhm_modify_lookup [OF assms(1)] counts_ok_def)
  have rem: "map_of (filter (\<lambda>e. fst e \<noteq> i) xs) j = (if j = i then None else map_of xs j)"
    for j and xs :: "(node_id \<times> nat) list"
    by (induction xs) auto
  show "counts_ok uo (if count_list ids i = 0 then lhm_remove uo i u1 else u1) ids"
  proof (cases "i \<in> set ids")
    case True
    then show ?thesis using d1 l1 count_list_pos [OF True] by (simp add: counts_ok_def)
  next
    case False
    then have "count_list ids i = 0" by simp
    with False d1 l1 rem show ?thesis
      by (simp add: counts_ok_def lhm_okD [OF assms(1)] distinct_map_filter)
  qed
qed

subsection \<open>The commit loop\<close>

definition commit_front ::
  "'u count_ops \<Rightarrow> digest \<Rightarrow> 'tx element \<Rightarrow> 'q \<Rightarrow> bool \<Rightarrow> ('q, 'u, 'tx) commit_ctx \<Rightarrow> ('q, 'u, 'tx) commit_ctx" where
  "commit_front uo h el q lst cm =
     (let u = lhm_modify uo (el_proposer el) (\<lambda>c. c - 1) (cm_unique cm) in
      cm\<lparr>cm_queue := q, cm_unique := (if lst then lhm_remove uo (el_proposer el) u else u),
         cm_tx_count := (if cm_emit_dp cm then cm_tx_count cm + length (el_batch el) else cm_tx_count cm),
         cm_to_batcher := cm_to_batcher cm @ [Committed (el_batch el) (el_round el)],
         cm_committed := cm_committed cm @ [el_batch el], cm_highest_hash := h, cm_highest_element := el\<rparr>)"

lemma commit_front_sel [simp]:
  "cm_queue (commit_front uo h el q lst cm) = q"
  "cm_committed (commit_front uo h el q lst cm) = cm_committed cm @ [el_batch el]"
  "cm_highest_hash (commit_front uo h el q lst cm) = h"
  "cm_highest_element (commit_front uo h el q lst cm) = el"
  "cm_commit_len (commit_front uo h el q lst cm) = cm_commit_len cm"
  "cm_commit_open (commit_front uo h el q lst cm) = cm_commit_open cm"
  "cm_to_batcher (commit_front uo h el q lst cm) =
     cm_to_batcher cm @ [Committed (el_batch el) (el_round el)]"
  by (simp_all add: commit_front_def Let_def)

text \<open>
  With consistent counts the loop ends without a panic: it commits the shortest prefix of the
  queue after which fewer than \<open>L\<close> different proposers remain.
\<close>

definition commits ::
  "('q, 'tx) queue_ops \<Rightarrow> 'u count_ops \<Rightarrow> ('q, 'u, 'tx) commit_ctx \<Rightarrow> ('q, 'u, 'tx) commit_ctx
    \<Rightarrow> (digest \<times> 'tx element) list \<Rightarrow> (digest \<times> 'tx element) list \<Rightarrow> bool" where
  "commits qo uo cm cm' done rest' \<longleftrightarrow>
    lhm_iter qo (cm_queue cm') = rest' \<and> counts_ok uo (cm_unique cm') (proposers rest') \<and>
    cm_committed cm' = cm_committed cm @ map (el_batch \<circ> snd) done \<and>
    card (set (proposers rest')) < cm_commit_len cm \<and>
    (done \<noteq> [] \<longrightarrow> cm_commit_len cm \<le> card (set (proposers (last done # rest')))) \<and>
    cm_highest_element cm' = (if done = [] then cm_highest_element cm else snd (last done)) \<and>
    cm_highest_hash cm' = (if done = [] then cm_highest_hash cm else fst (last done)) \<and>
    cm_commit_len cm' = cm_commit_len cm \<and> cm_commit_open cm' \<and>
    cm_to_batcher cm' = cm_to_batcher cm @ map (\<lambda>x. Committed (el_batch (snd x)) (el_round (snd x))) done"

lemma commit_loop_spec:
  assumes "lhm_ok qo" "lhm_ok uo" "0 < cm_commit_len cm" "cm_commit_open cm"
    and "lhm_iter qo (cm_queue cm) = rest" "counts_ok uo (cm_unique cm) (proposers rest)"
  shows "\<exists>cm' done rest'. commit_loop qo uo cm = Some (Ok (), cm') \<and> rest = done @ rest' \<and>
    commits qo uo cm cm' done rest'"
  using assms(3-)
proof (induction rest arbitrary: cm)
  case Nil
  then have "\<not> cm_commit_len cm \<le> lhm_len uo (cm_unique cm)"
    using counts_len [OF assms(2) Nil(4)] by simp
  then have "commit_loop qo uo cm = Some (Ok (), cm)" by (subst commit_loop.simps) simp
  with Nil show ?case by (intro exI [of _ cm] exI [of _ "[]"]) (simp add: commits_def)
next
  case (Cons x rest)
  obtain h el where x: "x = (h, el)" by fastforce
  have len: "lhm_len uo (cm_unique cm) = card (set (proposers (x # rest)))"
    by (rule counts_len [OF assms(2) Cons.prems(4)])
  show ?case
  proof (cases "cm_commit_len cm \<le> card (set (proposers (x # rest)))")
    case False
    then have "commit_loop qo uo cm = Some (Ok (), cm)"
      using len by (subst commit_loop.simps) simp
    with False Cons.prems show ?thesis
      by (intro exI [of _ cm] exI [of _ "[]"] exI [of _ "x # rest"]) (simp add: commits_def not_le)
  next
    case True
    obtain q where q: "lhm_pop_front qo (cm_queue cm) = Some (x, q)" "lhm_iter qo q = rest"
      using lhm_pop_front_Cons [OF assms(1) Cons.prems(3)] by blast
    have cnt: "counts_ok uo (cm_unique cm) (el_proposer el # proposers rest)" using Cons.prems(4) x by simp
    let ?cm = "commit_front uo h el q (count_list (proposers rest) (el_proposer el) = 0) cm"
    have step: "commit_loop qo uo cm = commit_loop qo uo ?cm"
      using True len q(1) counts_pop(1) [OF assms(2) cnt] Cons.prems(2) x
      by (subst commit_loop.simps) (simp add: Let_def commit_front_def)
    have "counts_ok uo (cm_unique ?cm) (proposers rest)"
      using counts_pop(2) [OF assms(2) cnt] by (simp add: commit_front_def Let_def del: One_nat_def)
    then obtain cm' d r' where r: "commit_loop qo uo ?cm = Some (Ok (), cm')" "rest = d @ r'"
      "commits qo uo ?cm cm' d r'"
      using Cons.IH [of ?cm] Cons.prems(1,2) q(2) by (simp only: commit_front_sel) blast
    have "commits qo uo cm cm' (x # d) r'"
      using r(3) True r(2) by (cases "d = []") (simp_all add: commits_def x)
    then show ?thesis using step r by (metis append_Cons)
  qed
qed

subsection \<open>Following a chain\<close>

text \<open>A chain in the store: hashes all different, rounds increasing from 0, each element naming
  its predecessor as its parent, every element but the first readable under its hash.\<close>

type_synonym 'tx chain = "(digest \<times> 'tx element) list"

definition chain_ok :: "('s, 'tx, 'b) env \<Rightarrow> 's \<Rightarrow> 'tx chain \<Rightarrow> bool" where
  "chain_ok e s c \<longleftrightarrow> c \<noteq> [] \<and> distinct (map fst c) \<and> el_round (snd (hd c)) = 0 \<and>
     sorted_wrt (\<lambda>x y. el_round (snd x) < el_round (snd y)) c \<and>
     successively (\<lambda>x y. parent_hash (el_proposal (snd y)) = fst x) c \<and>
     (\<forall>x \<in> set (tl c). db_read (store e) (cd_element e) s (fst x) = Ok (Some (snd x)))"

text \<open>The context follows the chain: \<open>pre\<close> is committed, in order, and \<open>rest\<close> is queued.\<close>

definition cm_follows ::
  "('q, 'tx) queue_ops \<Rightarrow> 'u count_ops \<Rightarrow> 'tx chain \<Rightarrow> 'tx chain \<Rightarrow> ('q, 'u, 'tx) commit_ctx \<Rightarrow> bool" where
  "cm_follows qo uo pre rest cm \<longleftrightarrow>
     rest \<noteq> [] \<and> lhm_iter qo (cm_queue cm) = rest \<and> counts_ok uo (cm_unique cm) (proposers rest) \<and>
     cm_committed cm = map (el_batch \<circ> snd) pre \<and> cm_commit_open cm \<and>
     el_round (cm_highest_element cm) = (if pre = [] then 0 else el_round (snd (last pre))) \<and>
     cm_highest_hash cm = (if pre = [] then fst (hd rest) else fst (last pre)) \<and>
     card (set (proposers rest)) < cm_commit_len cm \<and>
     (pre \<noteq> [] \<longrightarrow> cm_commit_len cm \<le> card (set (proposers (last pre # rest))))"

lemma card_proposers_Cons:
  "card (set (proposers (x # xs))) \<le> Suc (card (set (proposers xs)))"
  by (simp add: card_insert_if)

lemma card_proposers_mono:
  "card (set (proposers (x # xs))) \<le> card (set (proposers (x # xs @ ys)))"
  by (intro card_mono) auto

text \<open>After the commit loop the context follows the chain again.\<close>

lemma commit_loop_follows:
  assumes ok: "lhm_ok qo" "lhm_ok uo" and L: "2 \<le> cm_commit_len cm"
    and st: "cm_commit_open cm" "lhm_iter qo (cm_queue cm) = rest" "rest \<noteq> []"
      "counts_ok uo (cm_unique cm) (proposers rest)"
    and hi: "cm_committed cm = map (el_batch \<circ> snd) pre"
      "el_round (cm_highest_element cm) = (if pre = [] then 0 else el_round (snd (last pre)))"
      "cm_highest_hash cm = (if pre = [] then fst (hd rest) else fst (last pre))"
      "pre \<noteq> [] \<longrightarrow> cm_commit_len cm \<le> card (set (proposers (last pre # rest)))"
  shows "\<exists>cm' done rest'. commit_loop qo uo cm = Some (Ok (), cm') \<and> rest = done @ rest' \<and>
    cm_follows qo uo (pre @ done) rest' cm' \<and> cm_commit_len cm' = cm_commit_len cm"
proof -
  have "0 < cm_commit_len cm" using L by simp
  from commit_loop_spec [OF ok this st(1,2,4)] obtain cm' d r' where
    run: "commit_loop qo uo cm = Some (Ok (), cm')" "rest = d @ r'"
    and res: "commits qo uo cm cm' d r'" by blast
  have "r' \<noteq> []"
  proof
    assume r: "r' = []"
    then have "d \<noteq> []" using st(3) run(2) by simp
    then have "cm_commit_len cm \<le> card (set (proposers [last d]))" using res r by (simp add: commits_def)
    then show False using L by simp
  qed
  then have "cm_follows qo uo (pre @ d) r' cm'"
    using res hi run(2) by (cases "d = []") (simp_all add: cm_follows_def commits_def)
  with run res show ?thesis by (auto simp: commits_def)
qed

text \<open>A repeated end of round (a round that ended with a blame) changes nothing.\<close>

lemma commit_walk_connected:
  assumes "lhm_back qo (cm_queue cm) = Some (h, x)" "el_round (cm_highest_element cm) < el_round head"
  shows "commit_walk e qo uo s cm head h lq lu = Some (True, lq, lu)"
  using assms by (subst commit_walk.simps) simp

lemma end_round_same:
  assumes ok: "lhm_ok qo" "lhm_ok uo" and L: "2 \<le> cm_commit_len cm"
    and ch: "chain_ok e s (pre @ rest)" and fol: "cm_follows qo uo pre rest cm"
    and lst: "last rest = (h, el)"
  shows "\<exists>cm'. end_round e qo uo s h el cm = Some (Ok (), cm') \<and> cm_follows qo uo pre rest cm' \<and>
    cm_commit_len cm' = cm_commit_len cm"
proof (cases "el_round el = 0")
  case True
  with fol show ?thesis by (simp add: end_round_def)
next
  case False
  have rest: "rest \<noteq> []" and q: "lhm_iter qo (cm_queue cm) = rest" using fol by (simp_all add: cm_follows_def)
  have backq: "lhm_back qo (cm_queue cm) = Some (h, el)" using q rest lst lhm_okD(6) [OF ok(1)] by simp
  have "el_round (cm_highest_element cm) < el_round el"
  proof (cases "pre = []")
    case True
    with fol False show ?thesis by (simp add: cm_follows_def)
  next
    case ne: False
    have "last pre \<in> set pre" "(h, el) \<in> set rest"
      using ne rest lst by (simp, metis last_in_set)
    moreover have "\<forall>x \<in> set pre. \<forall>y \<in> set rest. el_round (snd x) < el_round (snd y)"
      using ch by (simp add: chain_ok_def sorted_wrt_append)
    ultimately have "el_round (snd (last pre)) < el_round el" by fastforce
    with ne fol show ?thesis by (simp add: cm_follows_def)
  qed
  from commit_walk_connected [OF backq this]
  have walk: "commit_walk e qo uo s cm el h (lhm_empty qo) (lhm_empty uo) = Some (True, lhm_empty qo, lhm_empty uo)" .
  let ?cm = "extend_queue qo uo (lhm_empty qo) (lhm_empty uo) cm"
  have fol': "cm_follows qo uo pre rest ?cm" "cm_commit_len ?cm = cm_commit_len cm"
    using fol by (simp_all add: cm_follows_def extend_queue_def lhm_okD [OF ok(1)] lhm_okD [OF ok(2)])
  then have "\<not> cm_commit_len ?cm \<le> lhm_len uo (cm_unique ?cm)"
    using counts_len [OF ok(2)] unfolding cm_follows_def by fastforce
  then have "commit_loop qo uo ?cm = Some (Ok (), ?cm)" by (subst commit_loop.simps) simp
  with walk fol' False show ?thesis by (simp add: end_round_def)
qed

text \<open>A child of the chain's end extends the queue by exactly itself.\<close>

lemma end_round_child:
  assumes ok: "lhm_ok qo" "lhm_ok uo" and L: "2 \<le> cm_commit_len cm"
    and ch: "chain_ok e s (pre @ rest @ [(h, el)])" and fol: "cm_follows qo uo pre rest cm"
  shows "\<exists>cm' done rest'. end_round e qo uo s h el cm = Some (Ok (), cm') \<and>
    rest @ [(h, el)] = done @ rest' \<and> cm_follows qo uo (pre @ done) rest' cm' \<and>
    cm_commit_len cm' = cm_commit_len cm"
proof -
  have rest: "rest \<noteq> []" and q: "lhm_iter qo (cm_queue cm) = rest" using fol by (simp_all add: cm_follows_def)
  obtain hp p where lastr: "last rest = (hp, p)" by fastforce
  have backq: "lhm_back qo (cm_queue cm) = Some (hp, p)" using q rest lastr lhm_okD(6) [OF ok(1)] by simp
  have succ: "successively (\<lambda>x y. parent_hash (el_proposal (snd y)) = fst x) ((pre @ rest) @ [(h, el)])"
    and dist: "distinct (map fst ((pre @ rest) @ [(h, el)]))"
    and ord: "sorted_wrt (\<lambda>x y. el_round (snd x) < el_round (snd y)) ((pre @ rest) @ [(h, el)])"
    using ch by (simp_all add: chain_ok_def)
  have par: "parent_hash (el_proposal el) = hp"
    using succ rest lastr by (simp add: successively_append_iff)
  have new: "h \<notin> fst ` set (pre @ rest)" using dist by auto
  have hpin: "(hp, p) \<in> set rest" using rest lastr by (metis last_in_set)
  have less: "el_round (cm_highest_element cm) < el_round el"
  proof (cases "pre = []")
    case True
    have "el_round p < el_round el" using ord hpin by (auto simp: sorted_wrt_append)
    with True fol show ?thesis by (simp add: cm_follows_def)
  next
    case False
    have "el_round (snd (last pre)) < el_round el" using ord False by (auto simp: sorted_wrt_append)
    with False fol show ?thesis by (simp add: cm_follows_def)
  qed
  have nothi: "h \<noteq> cm_highest_hash cm"
  proof -
    have "cm_highest_hash cm \<in> fst ` set (pre @ rest)"
      using fol rest by (auto simp: cm_follows_def)
    with new show ?thesis by metis
  qed
  have "h \<noteq> hp" using new hpin by force
  have rd: "db_read (store e) (cd_element e) s h = Ok (Some el)"
    using ch rest by (auto simp: chain_ok_def tl_append split: list.splits)
  let ?lq = "lhm_insert qo h el (lhm_empty qo)" and ?lu = "lhm_bump uo (el_proposer el) 1 (lhm_empty uo)"
  have walk: "commit_walk e qo uo s cm el h (lhm_empty qo) (lhm_empty uo) = Some (True, ?lq, ?lu)"
    using less nothi \<open>h \<noteq> hp\<close> backq rd commit_walk_connected [OF backq less] par
    by (subst commit_walk.simps) simp
  let ?cm = "extend_queue qo uo ?lq ?lu cm"
  have lq: "lhm_iter qo ?lq = [(h, el)]" by (simp add: lhm_okD [OF ok(1)] back_insert_def)
  have lu: "lhm_iter uo ?lu = [(el_proposer el, 1)]"
    by (simp add: lhm_bump_def lhm_okD [OF ok(2)] back_insert_def)
  have q': "lhm_iter qo (cm_queue ?cm) = rest @ [(h, el)]"
    using new q lq back_insert_new [of h rest el]
    by (simp add: extend_queue_def lhm_okD(8) [OF ok(1)] image_Un)
  have u': "counts_ok uo (cm_unique ?cm) (proposers (rest @ [(h, el)]))"
    using counts_push [OF ok(2)] fol lu by (simp add: extend_queue_def cm_follows_def)
  have mono: "pre \<noteq> [] \<longrightarrow> cm_commit_len ?cm \<le> card (set (proposers (last pre # rest @ [(h, el)])))"
    using fol card_proposers_mono [of "last pre" rest "[(h, el)]"]
    by (auto simp: cm_follows_def extend_queue_def intro: le_trans)
  have rnd: "el_round el \<noteq> 0" using less by simp
  have L': "2 \<le> cm_commit_len ?cm" using L by (simp add: extend_queue_def)
  have "hd (rest @ [(h, el)]) = hd rest" using rest by simp
  then have "\<exists>cm' done rest'. commit_loop qo uo ?cm = Some (Ok (), cm') \<and> rest @ [(h, el)] = done @ rest' \<and>
      cm_follows qo uo (pre @ done) rest' cm' \<and> cm_commit_len cm' = cm_commit_len ?cm"
    using fol mono by (intro commit_loop_follows [OF ok L' _ q' _ u']) (simp_all add: cm_follows_def extend_queue_def)
  then show ?thesis using walk rnd by (simp add: end_round_def extend_queue_def)
qed


text \<open>A run of the task over the messages it receives; each comes with the store at that time.\<close>

fun commit_run ::
  "('s, 'tx, 'b) env \<Rightarrow> ('q, 'tx) queue_ops \<Rightarrow> 'u count_ops \<Rightarrow> ('s \<times> digest \<times> 'tx element) list
    \<Rightarrow> ('q, 'u, 'tx) commit_ctx \<Rightarrow> (unit outcome \<times> ('q, 'u, 'tx) commit_ctx) option" where
  "commit_run e qo uo [] cm = Some (Ok (), cm)"
| "commit_run e qo uo ((s, h, el) # ms) cm =
     (case end_round e qo uo s h el cm of
        None \<Rightarrow> None
      | Some (Ok _, cm') \<Rightarrow> commit_run e qo uo ms cm'
      | Some (Err er, cm') \<Rightarrow> Some (Err er, cm')
      | Some (Panic, cm') \<Rightarrow> Some (Panic, cm'))"

text \<open>The messages of a node whose chain only grows: each repeats the end of the chain or adds a
  child of it.\<close>

fun grows :: "('s, 'tx, 'b) env \<Rightarrow> 'tx chain \<Rightarrow> ('s \<times> digest \<times> 'tx element) list \<Rightarrow> bool" where
  "grows e c [] = True"
| "grows e c ((s, x) # ms) =
     (if x = last c then chain_ok e s c \<and> grows e c ms
      else chain_ok e s (c @ [x]) \<and> grows e (c @ [x]) ms)"

fun grown :: "'tx chain \<Rightarrow> ('s \<times> digest \<times> 'tx element) list \<Rightarrow> 'tx chain" where
  "grown c [] = c"
| "grown c ((s, x) # ms) = grown (if x = last c then c else c @ [x]) ms"

lemma commit_run_follows:
  assumes ok: "lhm_ok qo" "lhm_ok uo"
  shows "2 \<le> cm_commit_len cm \<Longrightarrow> cm_follows qo uo pre rest cm \<Longrightarrow> grows e (pre @ rest) ms \<Longrightarrow>
    \<exists>cm' pre' rest'. commit_run e qo uo ms cm = Some (Ok (), cm') \<and> grown (pre @ rest) ms = pre' @ rest' \<and>
      cm_follows qo uo pre' rest' cm' \<and> cm_commit_len cm' = cm_commit_len cm"
proof (induction ms arbitrary: pre rest cm)
  case Nil
  then show ?case by auto
next
  case (Cons m ms)
  obtain s h el where m: "m = (s, h, el)" by (cases m) auto
  have ne: "rest \<noteq> []" using Cons.prems(2) by (simp add: cm_follows_def)
  show ?case
  proof (cases "(h, el) = last (pre @ rest)")
    case True
    have "chain_ok e s (pre @ rest)" "last rest = (h, el)" using True m ne Cons.prems(3) by simp_all
    from end_round_same [OF ok Cons.prems(1) this(1) Cons.prems(2) this(2)]
    obtain cm1 where "end_round e qo uo s h el cm = Some (Ok (), cm1)" "cm_follows qo uo pre rest cm1"
      "cm_commit_len cm1 = cm_commit_len cm" by blast
    moreover from this have "commit_run e qo uo (m # ms) cm = commit_run e qo uo ms cm1"
      using m by simp
    moreover have "grown (pre @ rest) (m # ms) = grown (pre @ rest) ms" "grows e (pre @ rest) ms"
      using True m Cons.prems(3) by simp_all
    ultimately show ?thesis using Cons.IH [of cm1 pre rest] Cons.prems(1) by simp
  next
    case False
    have "chain_ok e s (pre @ rest @ [(h, el)])" using False m Cons.prems(3) by simp
    from end_round_child [OF ok Cons.prems(1) this Cons.prems(2)]
    obtain cm1 d r where step: "end_round e qo uo s h el cm = Some (Ok (), cm1)"
      "rest @ [(h, el)] = d @ r" "cm_follows qo uo (pre @ d) r cm1"
      "cm_commit_len cm1 = cm_commit_len cm" by blast
    have "pre @ rest @ [(h, el)] = (pre @ d) @ r" using step(2) by simp
    then show ?thesis using Cons.IH [of cm1 "pre @ d" r] Cons.prems(1,3) step False m by simp
  qed
qed

lemma commit_init_follows:
  fixes e :: "('s, 'tx, 'b) env"
  assumes ok: "lhm_ok qo" "lhm_ok uo" and init: "commit_init e qo uo n f my_id met s = (Ok cm, s')"
    and n: "3 \<le> n + f"
  shows "cm_follows qo uo [] [(ser_and_hash (crypt e) (cd_element e) (element_genesis START_ID),
           element_genesis START_ID)] cm" and "cm_commit_len cm = quorum n f"
proof -
  let ?g = "element_genesis START_ID :: 'tx element"
  let ?gh = "ser_and_hash (crypt e) (cd_element e) ?g"
  have cm: "cm = \<lparr>cm_commit_len = (n + f + 1) div 2, cm_highest_element = ?g, cm_highest_hash = ?gh,
            cm_unique = lhm_insert uo (el_proposer ?g) 1 (lhm_empty uo),
            cm_queue = lhm_insert qo ?gh ?g (lhm_empty qo),
            cm_to_batcher = [], cm_committed = [], cm_commit_open = True,
            cm_emit_dp = (my_id = met), cm_tx_count = 0\<rparr>"
    using init by (auto simp: commit_init_def Let_def case_prod_beta bind_o_Ok_iff)
  have "1 < (n + f + 1) div 2" using n by linarith
  then show "cm_follows qo uo [] [(?gh, ?g)] cm"
    unfolding cm
    by (simp add: cm_follows_def lhm_okD [OF ok(1)] lhm_okD [OF ok(2)] back_insert_def counts_ok_def
        el_round_def)
  show "cm_commit_len cm = quorum n f" by (simp add: cm quorum_def)
qed

text \<open>Rounds decrease from a stored element to its stored parent.\<close>

definition rounds_decrease :: "('s, 'tx, 'b) env \<Rightarrow> 's \<Rightarrow> bool" where
  "rounds_decrease e s \<longleftrightarrow> (\<forall>h el el'. db_read (store e) (cd_element e) s h = Ok (Some el) \<longrightarrow>
     db_read (store e) (cd_element e) s (parent_hash (el_proposal el)) = Ok (Some el') \<longrightarrow>
     el_round el' < el_round el)"

lemma commit_walk_returns_from:
  assumes "rounds_decrease e s" and "db_read (store e) (cd_element e) s h0 = Ok (Some head)"
  shows "commit_walk e qo uo s cm head (parent_hash (el_proposal head)) lq lu \<noteq> None"
  using assms(2)
proof (induction "el_round head" arbitrary: head h0 lq lu rule: less_induct)
  case less
  show ?case
  proof (cases "db_read (store e) (cd_element e) s (parent_hash (el_proposal head))")
    case (Ok r)
    show ?thesis
    proof (cases r)
      case None
      with Ok show ?thesis by (subst commit_walk.simps) (simp del: not_None_eq)
    next
      case (Some el')
      with Ok have rd: "db_read (store e) (cd_element e) s (parent_hash (el_proposal head)) = Ok (Some el')"
        by simp
      have "el_round el' < el_round head" using assms(1) less.prems rd unfolding rounds_decrease_def by blast
      from less.hyps [OF this rd] rd show ?thesis by (subst commit_walk.simps) (simp del: not_None_eq)
    qed
  qed (subst commit_walk.simps; simp del: not_None_eq)+
qed

lemma commit_loop_returns:
  assumes "lhm_ok qo"
  shows "commit_loop qo uo cm \<noteq> None"
proof (induction "lhm_iter qo (cm_queue cm)" arbitrary: cm)
  case Nil
  then have "lhm_pop_front qo (cm_queue cm) = None" using lhm_pop_front_Nil [OF assms] by simp
  then show ?case by (subst commit_loop.simps) simp
next
  case (Cons x xs)
  obtain q where q: "lhm_pop_front qo (cm_queue cm) = Some (x, q)" "lhm_iter qo q = xs"
    using lhm_pop_front_Cons [OF assms Cons.hyps(2) [symmetric]] by blast
  obtain h el where x: "x = (h, el)" by fastforce
  have "commit_loop qo uo cm' \<noteq> None" if "cm_queue cm' = q" for cm' :: "('a, 'c, 'b) commit_ctx"
    using Cons.hyps(1) [of cm'] q(2) that by simp
  then show ?case using q(1) x
    by (subst commit_loop.simps) (simp add: Let_def del: not_None_eq split: option.splits)
qed

subsection \<open>Properties\<close>

text \<open>C1. For a node whose chain only grows, the commit task never panics, never stops and never
  hangs; it commits the elements of the chain in order, each exactly once, and nothing else; an
  element is committed as soon as it and its successors carry proposals of a quorum of different
  nodes, and not before.\<close>

theorem commits_chain_in_order:
  assumes "lhm_ok qo" "lhm_ok uo" and init: "commit_init e qo uo n f my_id met s = (Ok cm, s')"
    and n: "3 \<le> n + f"
    and "grows e [(ser_and_hash (crypt e) (cd_element e) (element_genesis START_ID),
           element_genesis START_ID)] ms"
  shows "\<exists>cm' pre rest. commit_run e qo uo ms cm = Some (Ok (), cm') \<and>
    grown [(ser_and_hash (crypt e) (cd_element e) (element_genesis START_ID),
      element_genesis START_ID)] ms = pre @ rest \<and>
    cm_committed cm' = map (el_batch \<circ> snd) pre \<and> lhm_iter qo (cm_queue cm') = rest \<and>
    card (set (proposers rest)) < quorum n f \<and>
    (pre \<noteq> [] \<longrightarrow> quorum n f \<le> card (set (proposers (last pre # rest))))"
proof -
  note init' = commit_init_follows [OF assms(1,2) init n]
  have "2 \<le> cm_commit_len cm" unfolding init'(2) quorum_def using n by linarith
  from commit_run_follows [OF assms(1,2) this init'(1), of e ms] assms(5) init'(2)
  show ?thesis by (auto simp: cm_follows_def)
qed


theorem commits_chain_in_order_witness:
  "\<exists>cm s' cm' pre rest.
     commit_init test_env lhm_list lhm_list 4 1 0 0 Map.empty = (Ok cm, s') \<and>
     commit_run test_env lhm_list lhm_list
       [([1110 \<mapsto> SElement (test_element 1 1 1000 [])], 1110, test_element 1 1 1000 [])] cm = Some (Ok (), cm') \<and>
     [(1000 :: digest, element_genesis START_ID), (1110, test_element 1 1 1000 [])] = pre @ rest \<and>
     cm_committed cm' = map (el_batch \<circ> snd) pre"
proof -
  let ?ms = "[([1110 \<mapsto> SElement (test_element 1 1 1000 [])], 1110, test_element 1 1 1000 [])]"
  let ?g = "[(1000 :: digest, element_genesis START_ID :: nat element)]"
  have gh: "ser_and_hash (crypt test_env) (cd_element test_env) (element_genesis START_ID) = 1000"
    by (simp add: START_ID_def)
  obtain cm s' where init: "commit_init test_env lhm_list lhm_list 4 1 0 0 Map.empty = (Ok cm, s')"
    using genesis_setup_ok(1) [OF test_env_ok test_env_content]
    by (auto simp: commit_init_def Let_def case_prod_beta)
  have "grows test_env ?g ?ms"
    by (simp add: chain_ok_def el_round_def test_element_def parent_hash_def)
  moreover have "grown ?g ?ms = [(1000, element_genesis START_ID), (1110, test_element 1 1 1000 [])]"
    by simp
  ultimately show ?thesis
    using commits_chain_in_order [OF lhm_list_ok lhm_list_ok init, of ?ms, unfolded gh] init
    by simp blast
qed

text \<open>The walk and the commit loop always return when rounds decrease from a stored element to
  its stored parent: one end of round never hangs the commit task, on any branch.\<close>

theorem end_round_returns:
  assumes "lhm_ok qo" "rounds_decrease e s"
  shows "end_round e qo uo s h el cm \<noteq> None"
proof -
  note from_stored = commit_walk_returns_from [OF assms(2)]
  have "commit_walk e qo uo s cm el h lq lu \<noteq> None" for lq lu
    by (subst commit_walk.simps)
       (simp add: from_stored del: not_None_eq split: outcome.splits option.splits)
  then show ?thesis
    by (simp add: end_round_def commit_loop_returns [OF assms(1)] case_prod_beta
        del: not_None_eq split: option.splits)
qed

theorem end_round_returns_witness:
  "\<forall>cm :: ((digest \<times> nat element) list, (node_id \<times> nat) list, nat) commit_ctx.
     end_round test_env lhm_list lhm_list [1110 \<mapsto> SElement (test_element 1 1 1000 [])] 1110
       (test_element 1 1 1000 []) cm \<noteq> None"
proof
  fix cm :: "((digest \<times> nat element) list, (node_id \<times> nat) list, nat) commit_ctx"
  have "rounds_decrease test_env [1110 \<mapsto> SElement (test_element 1 1 1000 [])]"
    by (auto simp: rounds_decrease_def test_element_def parent_hash_def split: if_splits)
  then show "end_round test_env lhm_list lhm_list [1110 \<mapsto> SElement (test_element 1 1 1000 [])] 1110
      (test_element 1 1 1000 []) cm \<noteq> None"
    by (rule end_round_returns [OF lhm_list_ok])
qed

text \<open>A walk of two steps loses the intermediate element: when the task, holding only the
  genesis element, is told of the element of round 2, it queues that element twice, once under its
  parent's hash, newest first, and never the parent itself, because the walk reads the element
  under its own hash before it moves to the parent.\<close>

theorem two_step_walk_loses_parent:
  assumes ok: "lhm_ok qo" "lhm_ok uo"
    and ch: "chain_ok e s [(gh, g), (h1, e1), (h2, e2)]"
    and fol: "cm_follows qo uo [] [(gh, g)] cm" and L: "3 \<le> cm_commit_len cm"
  shows "\<exists>cm'. end_round e qo uo s h2 e2 cm = Some (Ok (), cm') \<and>
    lhm_iter qo (cm_queue cm') = [(gh, g), (h2, e2), (h1, e2)]"
proof -
  have back0: "lhm_back qo (cm_queue cm) = Some (gh, g)"
    using fol lhm_okD(6) [OF ok(1)] by (simp add: cm_follows_def)
  have f: "h1 \<noteq> gh" "h2 \<noteq> gh" "h2 \<noteq> h1" "el_round g = 0" "0 < el_round e1" "el_round e1 < el_round e2"
    "parent_hash (el_proposal e1) = gh" "parent_hash (el_proposal e2) = h1"
    "db_read (store e) (cd_element e) s h1 = Ok (Some e1)"
    "db_read (store e) (cd_element e) s h2 = Ok (Some e2)"
    using ch by (auto simp: chain_ok_def)
  have hi: "el_round (cm_highest_element cm) = 0" "cm_highest_hash cm = gh"
    using fol by (simp_all add: cm_follows_def)
  let ?lq1 = "lhm_insert qo h2 e2 (lhm_empty qo)" and ?lu1 = "lhm_bump uo (el_proposer e2) 1 (lhm_empty uo)"
  let ?lq = "lhm_insert qo h1 e2 ?lq1" and ?lu = "lhm_bump uo (el_proposer e2) 1 ?lu1"
  have w3: "commit_walk e qo uo s cm e1 gh ?lq ?lu = Some (True, ?lq, ?lu)"
    using f hi by (intro commit_walk_connected [OF back0]) simp
  have w2: "commit_walk e qo uo s cm e2 h1 ?lq1 ?lu1 = Some (True, ?lq, ?lu)"
    using f hi back0 w3 by (subst commit_walk.simps) simp
  have walk: "commit_walk e qo uo s cm e2 h2 (lhm_empty qo) (lhm_empty uo) = Some (True, ?lq, ?lu)"
    using f hi back0 w2 by (subst commit_walk.simps) simp
  let ?cm = "extend_queue qo uo ?lq ?lu cm"
  have q0: "lhm_iter qo (cm_queue cm) = [(gh, g)]" using fol by (simp add: cm_follows_def)
  have lq: "lhm_iter qo ?lq = [(h2, e2), (h1, e2)]"
    using f by (simp add: lhm_okD [OF ok(1)] back_insert_def)
  have lu: "lhm_iter uo ?lu = [(el_proposer e2, 2)]"
    by (simp add: lhm_bump_def lhm_okD [OF ok(2)] back_insert_def)
  have q: "lhm_iter qo (cm_queue ?cm) = [(gh, g), (h2, e2), (h1, e2)]"
    using f q0 lq by (simp add: extend_queue_def lhm_okD(8) [OF ok(1)] back_insert_def)
  have u0: "counts_ok uo (cm_unique cm) [el_proposer g]" using fol by (simp add: cm_follows_def)
  have "counts_ok uo (lhm_bump uo (el_proposer e2) 2 (cm_unique cm)) [el_proposer g, el_proposer e2, el_proposer e2]"
    using u0 lhm_bump_distinct [OF ok(2), of "cm_unique cm" "el_proposer e2" 2]
      lhm_bump_lookup [OF ok(2), of "el_proposer e2" 2 "cm_unique cm"]
    by (auto simp: counts_ok_def)
  then have "lhm_len uo (cm_unique ?cm) \<le> 2"
    using counts_len [OF ok(2)] lu card_insert_le_m1 [of 2 "{el_proposer e2}" "el_proposer g"]
    by (fastforce simp: extend_queue_def)
  then have "commit_loop qo uo ?cm = Some (Ok (), ?cm)"
    using L by (subst commit_loop.simps) (simp add: extend_queue_def)
  with walk q f show ?thesis by (simp add: end_round_def)
qed

theorem two_step_walk_loses_parent_witness:
  "\<exists>cm s' cm'. commit_init test_env lhm_list lhm_list 4 1 0 0 Map.empty = (Ok cm, s') \<and>
     end_round test_env lhm_list lhm_list
       [1110 \<mapsto> SElement (test_element 1 1 1000 []), 1220 \<mapsto> SElement (test_element 2 2 1110 [])]
       1220 (test_element 2 2 1110 []) cm = Some (Ok (), cm') \<and>
     cm_queue cm' = [(1000, element_genesis START_ID), (1220, test_element 2 2 1110 []),
       (1110, test_element 2 2 1110 [])]"
proof -
  let ?s = "[1110 \<mapsto> SElement (test_element 1 1 1000 []), 1220 \<mapsto> SElement (test_element 2 2 1110 [])]"
  have gh: "ser_and_hash (crypt test_env) (cd_element test_env) (element_genesis START_ID) = 1000"
    by (simp add: START_ID_def)
  obtain cm s' where init: "commit_init test_env lhm_list lhm_list 4 1 0 0 Map.empty = (Ok cm, s')"
    using genesis_setup_ok(1) [OF test_env_ok test_env_content]
    by (auto simp: commit_init_def Let_def case_prod_beta)
  note fol = commit_init_follows [OF lhm_list_ok lhm_list_ok init, unfolded gh, simplified]
  have "3 \<le> cm_commit_len cm" using fol(2) by (simp add: quorum_def)
  moreover have "chain_ok test_env ?s [(1000, element_genesis START_ID), (1110, test_element 1 1 1000 []),
      (1220, test_element 2 2 1110 [])]"
    by (simp add: chain_ok_def el_round_def test_element_def parent_hash_def)
  moreover have "lhm_iter lhm_list q = q" for q :: "(digest \<times> nat element) list"
    by (simp add: lhm_list_def)
  ultimately show ?thesis
    using two_step_walk_loses_parent [OF lhm_list_ok lhm_list_ok _ fol(1)] init by fastforce
qed

end
