(* ===== verification/ZeusInstances.thy ===== *)
theory ZeusInstances
  imports ZeusTypes
begin

section \<open>A concrete environment for Zeus\<close>

text \<open>
  The parameters of the Zeus model, chosen concretely for transactions that are numbers: serialized
  data is the tagged value, a block's hash encodes its epoch, height and payload length, and a
  signature is the key followed by the digest's last byte.
\<close>

datatype zser =
    ZBatch "attestation list"
  | ZElement "attestation element"
  | ZProposal proposal
  | ZRound round
  | ZTx attestation
  | ZDataEnv "nat data_block_envelope"
  | ZAttEnv attestation_envelope
  | ZBlame blame_signed
  | ZBlock "nat data_block"

fun ztest_hash :: "zser \<Rightarrow> digest" where
  "ztest_hash (ZBatch b) = of_nat (100 + length b)"
| "ztest_hash (ZElement el) =
     of_nat (1000 + 100 * p_round (el_proposal el) + 10 * sig_id (el_auth el) + length (el_batch el))"
| "ztest_hash (ZProposal p) = of_nat (5000 + p_round p)"
| "ztest_hash (ZRound r) = of_nat (9000 + r)"
| "ztest_hash (ZTx a) = of_nat (7000 + ae_round_s (at_envelope a))"
| "ztest_hash (ZDataEnv en) =
     of_nat (20000 + 1000 * de_epoch en + 10 * de_height en + length (de_payload en))"
| "ztest_hash (ZAttEnv en) = of_nat (40000 + 100 * ae_round_s en + ae_block_height en)"
| "ztest_hash (ZBlame bs) = of_nat (60000 + 10 * bs_epoch bs + length (bs_payload_bytes bs))"
| "ztest_hash (ZBlock b) = of_nat (80000 + b_height b)"

definition ztest_crypto :: "zser crypto" where
  "ztest_crypto = \<lparr>do_hash = ztest_hash, sk_sign = (\<lambda>sk h. Inr (sk @ [ucast h])),
     pk_verify = (\<lambda>pk h raw. raw = pk @ [ucast h])\<rparr>"

type_synonym ztest_db = "digest \<rightharpoonup> zser"

definition ztest_store :: "(ztest_db, zser) storage" where
  "ztest_store = \<lparr>st_read = (\<lambda>s k. Inr (s k)), st_write = (\<lambda>s k v. s(k \<mapsto> v))\<rparr>"

definition ztest_env :: "(ztest_db, attestation, zser) env" where
  "ztest_env =
     \<lparr>crypt = ztest_crypto, store = ztest_store,
      cd_batch = \<lparr>encode = ZBatch, decode = (\<lambda>x. case x of ZBatch b \<Rightarrow> Some b | _ \<Rightarrow> None)\<rparr>,
      cd_element = \<lparr>encode = ZElement, decode = (\<lambda>x. case x of ZElement b \<Rightarrow> Some b | _ \<Rightarrow> None)\<rparr>,
      cd_proposal = \<lparr>encode = ZProposal, decode = (\<lambda>x. case x of ZProposal b \<Rightarrow> Some b | _ \<Rightarrow> None)\<rparr>,
      cd_round = \<lparr>encode = ZRound, decode = (\<lambda>x. case x of ZRound b \<Rightarrow> Some b | _ \<Rightarrow> None)\<rparr>,
      cd_tx = \<lparr>encode = ZTx, decode = (\<lambda>x. case x of ZTx b \<Rightarrow> Some b | _ \<Rightarrow> None)\<rparr>\<rparr>"

definition ztest :: "(ztest_db, nat, zser) zenv" where
  "ztest =
     \<lparr>z_env = ztest_env,
      cd_denv = \<lparr>encode = ZDataEnv, decode = (\<lambda>x. case x of ZDataEnv b \<Rightarrow> Some b | _ \<Rightarrow> None)\<rparr>,
      cd_aenv = \<lparr>encode = ZAttEnv, decode = (\<lambda>x. case x of ZAttEnv b \<Rightarrow> Some b | _ \<Rightarrow> None)\<rparr>,
      cd_blame = \<lparr>encode = ZBlame, decode = (\<lambda>x. case x of ZBlame b \<Rightarrow> Some b | _ \<Rightarrow> None)\<rparr>,
      cd_block = \<lparr>encode = ZBlock, decode = (\<lambda>x. case x of ZBlock b \<Rightarrow> Some b | _ \<Rightarrow> None)\<rparr>\<rparr>"

lemma ztest_ok: "zenv_ok ztest"
  by (simp add: zenv_ok_def env_ok_def storage_ok_def codec_ok_def ztest_def ztest_env_def ztest_store_def)

lemma ztest_sel [simp]:
  "data_block_hash ztest b = ztest_hash (ZDataEnv (db_envelope b))"
  "attestation_hash ztest a = ztest_hash (ZAttEnv (at_envelope a))"
  "ser_and_hash (crypt (z_env ztest)) (cd_blame ztest) bs = ztest_hash (ZBlame bs)"
  "ser_and_hash (crypt (z_env ztest)) (cd_proposal (z_env ztest)) p = ztest_hash (ZProposal p)"
  "ser_and_hash (crypt (z_env ztest)) (cd_round (z_env ztest)) r = ztest_hash (ZRound r)"
  "ser_and_hash (crypt (z_env ztest)) (cd_element (z_env ztest)) el = ztest_hash (ZElement el)"
  "ser_and_hash (crypt (z_env ztest)) (cd_batch (z_env ztest)) bt = ztest_hash (ZBatch bt)"
  "pk_verify (crypt (z_env ztest)) pk h raw = (raw = pk @ [ucast h])"
  "sk_sign (crypt (z_env ztest)) sk h = Inr (sk @ [ucast h])"
  "encode (cd_block ztest) = ZBlock"
  by (simp_all add: data_block_hash_def attestation_hash_def ser_and_hash_def ztest_def ztest_env_def
      ztest_crypto_def)

text \<open>A block of a given epoch, height, parent and payload, signed by the leader of the epoch in a
  committee of \<open>n\<close> nodes in which node \<open>i\<close> has the key \<open>[i]\<close>.\<close>

definition ztest_block :: "nat \<Rightarrow> nat \<Rightarrow> nat \<Rightarrow> digest \<Rightarrow> nat list \<Rightarrow> nat data_block" where
  "ztest_block n e h par txs =
     (let en = \<lparr>de_epoch = e, de_height = h, de_payload = txs, de_parent = par\<rparr>
      in \<lparr>db_envelope = en,
          db_sig = \<lparr>ds_raw = [of_nat (e mod n), ucast (ztest_hash (ZDataEnv en))], ds_signer = e mod n\<rparr>\<rparr>)"

lemma ztest_block_envelope [simp]:
  "db_envelope (ztest_block n e h par txs) = \<lparr>de_epoch = e, de_height = h, de_payload = txs, de_parent = par\<rparr>"
  by (simp add: ztest_block_def Let_def)

text \<open>An attestation of a round, made and signed by node \<open>i\<close>, that pins a block.\<close>

definition ztest_att :: "round \<Rightarrow> node_id \<Rightarrow> digest \<Rightarrow> nat \<Rightarrow> nat \<Rightarrow> digest \<Rightarrow> attestation" where
  "ztest_att r i h ht ep par =
     (let en = \<lparr>ae_epoch_s = 1, ae_round_s = r, ae_block_hash = h, ae_block_height = ht,
                ae_block_epoch = ep, ae_parent_s = par\<rparr>
      in \<lparr>at_envelope = en, at_sig = \<lparr>as_raw = [of_nat i, ucast (ztest_hash (ZAttEnv en))], as_signer = i\<rparr>\<rparr>)"

lemma ztest_att_envelope [simp]:
  "at_envelope (ztest_att r i h ht ep par) =
     \<lparr>ae_epoch_s = 1, ae_round_s = r, ae_block_hash = h, ae_block_height = ht,
      ae_block_epoch = ep, ae_parent_s = par\<rparr>"
  by (simp add: ztest_att_def Let_def)

end
