(* ===== verification/ZeusDB.thy ===== *)
theory ZeusDB
  imports ZeusInstances
begin

section \<open>The data-block store of Zeus\<close>

text \<open>
  \<^verbatim>\<open>server/zeus/chain_state/db.rs\<close>: an index of all admitted blocks, a cache of whole blocks with a
  budget in bytes and first-in-first-out eviction, and a disk store that receives only evicted
  blocks that were not emitted yet. Writes go through a channel to a background task: \<open>dd_writes\<close>
  is that channel and \<open>db_flush\<close> one turn of the task. \<open>dd_emitted\<close> is the atomic counter the
  store shares with the committer.
\<close>

record data_block_meta =
  dm_epoch :: nat
  dm_height :: nat
  dm_parent :: digest
  dm_hash :: digest

record ('s, 'tx, 'b) data_block_db =
  dd_disk :: 's
  dd_writes :: "(digest \<times> 'b) list"
  dd_emitted :: nat
  dd_meta :: "digest \<rightharpoonup> data_block_meta"
  dd_cache :: "digest \<rightharpoonup> ('tx data_block \<times> nat)"
  dd_order :: "digest list"
  dd_resident :: nat
  dd_cap :: nat
  dd_genesis :: "'tx data_block"
  dd_genesis_hash :: digest

definition meta_of_block :: "'tx data_block \<Rightarrow> digest \<Rightarrow> data_block_meta" where
  "meta_of_block b h =
     \<lparr>dm_epoch = b_epoch b, dm_height = b_height b, dm_parent = b_parent b, dm_hash = h\<rparr>"

definition db_contains :: "digest \<Rightarrow> ('s, 'tx, 'b) data_block_db \<Rightarrow> bool" where
  "db_contains h db \<longleftrightarrow> dd_meta db h \<noteq> None"

definition db_meta :: "digest \<Rightarrow> ('s, 'tx, 'b) data_block_db \<Rightarrow> data_block_meta option" where
  "db_meta h db = dd_meta db h"

definition db_epoch_of :: "digest \<Rightarrow> ('s, 'tx, 'b) data_block_db \<Rightarrow> nat option" where
  "db_epoch_of h db = map_option dm_epoch (dd_meta db h)"

definition db_resident_bytes :: "('s, 'tx, 'b) data_block_db \<Rightarrow> nat" where
  "db_resident_bytes db = dd_resident db"

definition db_cached_blocks :: "('s, 'tx, 'b) data_block_db \<Rightarrow> nat" where
  "db_cached_blocks db = card (dom (dd_cache db))"

definition DEFAULT_DATA_BLOCK_CACHE_BYTES :: nat where
  "DEFAULT_DATA_BLOCK_CACHE_BYTES = 128 * 1024 * 1024"

definition db_with_byte_budget :: "('s, 'tx, 'b) zenv \<Rightarrow> 's \<Rightarrow> nat \<Rightarrow> nat \<Rightarrow> ('s, 'tx, 'b) data_block_db" where
  "db_with_byte_budget ze s cap emitted =
     (let g = data_genesis; gh = data_block_hash ze g
      in \<lparr>dd_disk = s, dd_writes = [], dd_emitted = emitted,
          dd_meta = [gh \<mapsto> meta_of_block g gh], dd_cache = Map.empty, dd_order = [],
          dd_resident = 0, dd_cap = max cap 1, dd_genesis = g, dd_genesis_hash = gh\<rparr>)"

definition db_with_emitted_high :: "('s, 'tx, 'b) zenv \<Rightarrow> 's \<Rightarrow> nat \<Rightarrow> ('s, 'tx, 'b) data_block_db" where
  "db_with_emitted_high ze s emitted = db_with_byte_budget ze s DEFAULT_DATA_BLOCK_CACHE_BYTES emitted"

definition db_cache_get :: "digest \<Rightarrow> ('s, 'tx, 'b) data_block_db \<Rightarrow> 'tx data_block option" where
  "db_cache_get h db =
     (if h = dd_genesis_hash db then Some (dd_genesis db) else map_option fst (dd_cache db h))"

definition db_get ::
  "('s, 'tx, 'b) zenv \<Rightarrow> digest \<Rightarrow> ('s, 'tx, 'b) data_block_db \<Rightarrow> 'tx data_block option outcome" where
  "db_get ze h db =
     (if h = dd_genesis_hash db then Ok (Some (dd_genesis db))
      else if dd_meta db h = None then Ok None
      else case dd_cache db h of
        Some (b, _) \<Rightarrow> Ok (Some b)
      | None \<Rightarrow> db_read_as (store (z_env ze)) (cd_block ze) (dd_disk db) h)"

subsection \<open>Insertion and eviction\<close>

text \<open>The body of the eviction loop, after the oldest hash was taken from the queue.\<close>

definition evict_one ::
  "('s, 'tx, 'b) zenv \<Rightarrow> digest \<Rightarrow> ('s, 'tx, 'b) data_block_db \<Rightarrow> ('s, 'tx, 'b) data_block_db" where
  "evict_one ze old db = (case dd_cache db old of
     None \<Rightarrow> db
   | Some (b, sz) \<Rightarrow>
       db\<lparr>dd_cache := (dd_cache db)(old := None), dd_resident := dd_resident db - sz,
          dd_writes := (if dd_emitted db < b_height b
                        then dd_writes db @ [(old, encode (cd_block ze) b)] else dd_writes db)\<rparr>)"

lemma evict_one_order [simp]: "dd_order (evict_one ze old db) = dd_order db"
  by (simp add: evict_one_def split: option.split prod.split)

function evict ::
  "('s, 'tx, 'b) zenv \<Rightarrow> ('s, 'tx, 'b) data_block_db \<Rightarrow> ('s, 'tx, 'b) data_block_db" where
  "evict ze db =
     (if dd_cap db < dd_resident db \<and> 1 < db_cached_blocks db then
        (case dd_order db of
           [] \<Rightarrow> db
         | old # rest \<Rightarrow> evict ze (evict_one ze old (db\<lparr>dd_order := rest\<rparr>)))
      else db)"
  by pat_completeness auto
termination by (relation "measure (\<lambda>(ze, db). length (dd_order db))") auto

declare evict.simps [simp del]

definition cache_put ::
  "('s, 'tx, 'b) zenv \<Rightarrow> digest \<Rightarrow> 'tx data_block \<Rightarrow> nat \<Rightarrow> ('s, 'tx, 'b) data_block_db
    \<Rightarrow> ('s, 'tx, 'b) data_block_db" where
  "cache_put ze h b sz db =
     (let db1 = db\<lparr>dd_cache := (dd_cache db)(h \<mapsto> (b, sz))\<rparr>
      in evict ze (case dd_cache db h of
           Some (_, old_size) \<Rightarrow> db1\<lparr>dd_resident := dd_resident db + sz - old_size\<rparr>
         | None \<Rightarrow> db1\<lparr>dd_order := dd_order db @ [h], dd_resident := dd_resident db + sz\<rparr>))"

definition block_size :: "'tx data_block \<Rightarrow> nat" where
  "block_size b = (length (b_payload b) + 1) * 64"

definition db_insert ::
  "('s, 'tx, 'b) zenv \<Rightarrow> 'tx data_block \<Rightarrow> ('s, 'tx, 'b) data_block_db \<Rightarrow> ('s, 'tx, 'b) data_block_db" where
  "db_insert ze b db =
     (let h = data_block_hash ze b;
          db1 = db\<lparr>dd_meta := (case dd_meta db h of
                     Some _ \<Rightarrow> dd_meta db
                   | None \<Rightarrow> (dd_meta db)(h \<mapsto> meta_of_block b h))\<rparr>
      in cache_put ze h b (block_size b) db1)"

text \<open>One turn of the background writer, and the committer raising the shared counter.\<close>

definition db_flush :: "('s, 'tx, 'b) zenv \<Rightarrow> ('s, 'tx, 'b) data_block_db \<Rightarrow> ('s, 'tx, 'b) data_block_db" where
  "db_flush ze db = (case dd_writes db of
     [] \<Rightarrow> db
   | (k, v) # ws \<Rightarrow> db\<lparr>dd_disk := st_write (store (z_env ze)) (dd_disk db) k v, dd_writes := ws\<rparr>)"

definition db_emit :: "nat \<Rightarrow> ('s, 'tx, 'b) data_block_db \<Rightarrow> ('s, 'tx, 'b) data_block_db" where
  "db_emit h db = db\<lparr>dd_emitted := max (dd_emitted db) h\<rparr>"

datatype 'tx db_event = DbInsert "'tx data_block" | DbFlush | DbEmit nat

definition db_step ::
  "('s, 'tx, 'b) zenv \<Rightarrow> ('s, 'tx, 'b) data_block_db \<Rightarrow> 'tx db_event \<Rightarrow> ('s, 'tx, 'b) data_block_db" where
  "db_step ze db ev = (case ev of
     DbInsert b \<Rightarrow> db_insert ze b db | DbFlush \<Rightarrow> db_flush ze db | DbEmit h \<Rightarrow> db_emit h db)"

subsection \<open>The cache is exactly accounted\<close>

definition cached_size :: "('s, 'tx, 'b) data_block_db \<Rightarrow> digest \<Rightarrow> nat" where
  "cached_size db h = (case dd_cache db h of Some (b, sz) \<Rightarrow> sz | None \<Rightarrow> 0)"

definition db_inv :: "('s, 'tx, 'b) data_block_db \<Rightarrow> bool" where
  "db_inv db \<longleftrightarrow> dom (dd_cache db) = set (dd_order db) \<and> distinct (dd_order db) \<and>
     dd_resident db = sum_list (map (cached_size db) (dd_order db)) \<and>
     dom (dd_cache db) \<subseteq> dom (dd_meta db) \<and> dd_genesis_hash db \<in> dom (dd_meta db)"

definition within_budget :: "('s, 'tx, 'b) data_block_db \<Rightarrow> bool" where
  "within_budget db \<longleftrightarrow> dd_resident db \<le> dd_cap db \<or> db_cached_blocks db \<le> 1"

lemma evict_one_sel [simp]:
  "dd_meta (evict_one ze old db) = dd_meta db" "dd_emitted (evict_one ze old db) = dd_emitted db"
  "dd_cap (evict_one ze old db) = dd_cap db" "dd_disk (evict_one ze old db) = dd_disk db"
  "dd_genesis_hash (evict_one ze old db) = dd_genesis_hash db"
  "dd_genesis (evict_one ze old db) = dd_genesis db"
  "dd_cache (evict_one ze old db) = (dd_cache db)(old := None)"
  by (auto simp: evict_one_def split: option.split)

lemma sum_list_map_other:
  "\<forall>x \<in> set xs. f x = g x \<Longrightarrow> sum_list (map f xs) = sum_list (map g xs)" for f g :: "'a \<Rightarrow> nat"
  by (induction xs) auto

lemma db_inv_pop:
  assumes "db_inv db" "dd_order db = old # rest"
  shows "db_inv (evict_one ze old (db\<lparr>dd_order := rest\<rparr>))"
proof -
  have "old \<in> dom (dd_cache db)" using assms by (auto simp: db_inv_def)
  then obtain b sz where c: "dd_cache db old = Some (b, sz)" by auto
  have "sum_list (map (cached_size (evict_one ze old (db\<lparr>dd_order := rest\<rparr>))) rest) =
      sum_list (map (cached_size db) rest)"
    using assms by (intro sum_list_map_other) (auto simp: db_inv_def cached_size_def)
  with assms c show ?thesis
    by (auto simp: db_inv_def evict_one_def cached_size_def)
qed

lemma evict_inv: "db_inv db \<Longrightarrow> db_inv (evict ze db) \<and> within_budget (evict ze db)"
proof (induction ze db rule: evict.induct)
  case (1 ze db)
  show ?case
  proof (cases "dd_cap db < dd_resident db \<and> 1 < db_cached_blocks db")
    case False
    with 1 show ?thesis by (subst (1 2) evict.simps) (auto simp: within_budget_def)
  next
    case over: True
    then have "dom (dd_cache db) \<noteq> {}" by (auto simp: db_cached_blocks_def)
    with "1.prems" have "dd_order db \<noteq> []" by (auto simp: db_inv_def)
    then obtain old rest where o: "dd_order db = old # rest" by (cases "dd_order db") auto
    with over "1.IH" [OF over o] db_inv_pop [OF "1.prems" o, of ze] show ?thesis
      by (subst (1 2) evict.simps) simp
  qed
qed

lemma evict_sel [simp]:
  "dd_meta (evict ze db) = dd_meta db" "dd_emitted (evict ze db) = dd_emitted db"
  "dd_cap (evict ze db) = dd_cap db" "dd_disk (evict ze db) = dd_disk db"
  "dd_genesis_hash (evict ze db) = dd_genesis_hash db" "dd_genesis (evict ze db) = dd_genesis db"
  by (induction ze db rule: evict.induct, (subst evict.simps, simp split: list.split)+)

lemma sum_list_put:
  assumes "distinct xs" "k \<in> set xs" "\<forall>x. x \<noteq> k \<longrightarrow> g x = f x"
  shows "sum_list (map f xs) + g k - f k = (sum_list (map g xs) :: nat)"
  using assms
proof (induction xs)
  case (Cons x xs)
  show ?case
  proof (cases "x = k")
    case True
    with Cons.prems have "sum_list (map f xs) = sum_list (map g xs)"
      by (intro sum_list_map_other) auto
    with True show ?thesis by simp
  next
    case False
    with Cons have "k \<in> set xs" "g x = f x" by auto
    moreover from this have "f k \<le> sum_list (map f xs)" by (auto intro: member_le_sum_list)
    ultimately show ?thesis using Cons by auto
  qed
qed simp

lemma cache_put_inv:
  assumes "db_inv db" "h \<in> dom (dd_meta db)"
  shows "db_inv (cache_put ze h b sz db) \<and> within_budget (cache_put ze h b sz db)"
proof (cases "dd_cache db h")
  case None
  then have "h \<notin> set (dd_order db)" using assms by (auto simp: db_inv_def)
  then have "sum_list (map (cached_size (db\<lparr>dd_cache := (dd_cache db)(h \<mapsto> (b, sz)),
        dd_order := dd_order db @ [h], dd_resident := dd_resident db + sz\<rparr>)) (dd_order db)) =
      sum_list (map (cached_size db) (dd_order db))"
    by (intro sum_list_map_other) (auto simp: cached_size_def)
  with None assms \<open>h \<notin> set (dd_order db)\<close> show ?thesis
    unfolding cache_put_def Let_def
    by (intro evict_inv) (auto simp: db_inv_def cached_size_def)
next
  case (Some e)
  then obtain b0 old where c: "dd_cache db h = Some (b0, old)" by (cases e) auto
  define db1 where "db1 = db\<lparr>dd_cache := (dd_cache db)(h \<mapsto> (b, sz)),
    dd_resident := dd_resident db + sz - old\<rparr>"
  have "h \<in> set (dd_order db)" using assms c by (auto simp: db_inv_def)
  then have "sum_list (map (cached_size db) (dd_order db)) + sz - old =
      sum_list (map (cached_size db1) (dd_order db))"
    using sum_list_put [of "dd_order db" h "cached_size db1" "cached_size db"] assms c
    by (auto simp: db_inv_def db1_def cached_size_def)
  with assms c \<open>h \<in> set (dd_order db)\<close> have "db_inv db1"
    by (auto simp: db_inv_def db1_def)
  then show ?thesis using evict_inv [of db1 ze] c by (simp add: cache_put_def db1_def)
qed

lemma db_insert_inv: "db_inv db \<Longrightarrow> db_inv (db_insert ze b db) \<and> within_budget (db_insert ze b db)"
  unfolding db_insert_def Let_def
  by (rule cache_put_inv) (auto simp: db_inv_def cached_size_def cong: map_cong split: option.split)

lemma cache_put_sel [simp]:
  "dd_meta (cache_put ze h b sz db) = dd_meta db" "dd_emitted (cache_put ze h b sz db) = dd_emitted db"
  "dd_cap (cache_put ze h b sz db) = dd_cap db" "dd_disk (cache_put ze h b sz db) = dd_disk db"
  "dd_genesis_hash (cache_put ze h b sz db) = dd_genesis_hash db"
  "dd_genesis (cache_put ze h b sz db) = dd_genesis db"
  by (auto simp: cache_put_def Let_def split: option.split)

lemma db_insert_sel [simp]:
  "dd_emitted (db_insert ze b db) = dd_emitted db" "dd_cap (db_insert ze b db) = dd_cap db"
  "dd_genesis_hash (db_insert ze b db) = dd_genesis_hash db"
  "dd_genesis (db_insert ze b db) = dd_genesis db"
  "dd_meta (db_insert ze b db) h =
     (if dd_meta db h = None \<and> h = data_block_hash ze b
      then Some (meta_of_block b (data_block_hash ze b)) else dd_meta db h)"
  by (auto simp: db_insert_def Let_def split: option.split)

lemma db_contains_insert [simp]:
  "db_contains h (db_insert ze b db) \<longleftrightarrow> db_contains h db \<or> h = data_block_hash ze b"
  by (auto simp: db_contains_def)

lemma db_flush_sel [simp]:
  "dd_meta (db_flush ze db) = dd_meta db" "dd_emitted (db_flush ze db) = dd_emitted db"
  "dd_cap (db_flush ze db) = dd_cap db" "dd_cache (db_flush ze db) = dd_cache db"
  "dd_genesis_hash (db_flush ze db) = dd_genesis_hash db" "dd_order (db_flush ze db) = dd_order db"
  "dd_genesis (db_flush ze db) = dd_genesis db" "dd_resident (db_flush ze db) = dd_resident db"
  by (auto simp: db_flush_def split: list.split)

lemma db_emit_sel [simp]:
  "dd_meta (db_emit k db) = dd_meta db" "dd_emitted (db_emit k db) = max (dd_emitted db) k"
  "dd_cap (db_emit k db) = dd_cap db" "dd_cache (db_emit k db) = dd_cache db"
  "dd_genesis_hash (db_emit k db) = dd_genesis_hash db" "dd_order (db_emit k db) = dd_order db"
  "dd_genesis (db_emit k db) = dd_genesis db" "dd_resident (db_emit k db) = dd_resident db"
  "dd_writes (db_emit k db) = dd_writes db" "dd_disk (db_emit k db) = dd_disk db"
  by (auto simp: db_emit_def)

lemma db_step_inv: "db_inv db \<Longrightarrow> db_inv (db_step ze db ev)"
proof (cases ev)
  case (DbInsert b)
  then show "db_inv db \<Longrightarrow> ?thesis" by (simp add: db_step_def db_insert_inv)
qed (auto simp: db_step_def db_inv_def cached_size_def cong: map_cong)

lemma db_new_inv: "db_inv (db_with_byte_budget ze s cap em)"
  by (simp add: db_with_byte_budget_def Let_def db_inv_def)

interpretation bdb: step_machine "db_step ze" "\<lambda>ev. True" db_inv
  by unfold_locales (rule db_step_inv)

text \<open>C26. Whatever is inserted, written back and marked as emitted, the byte counter of the cache
  is the exact sum of the sizes of the cached blocks, its queue lists the cached blocks once, and
  every insertion leaves the cache within its budget or with a single block.\<close>

theorem block_cache_bounded:
  "(let db = foldl (db_step ze) (db_with_byte_budget ze s cap em) evs
    in dd_resident db = sum_list (map (\<lambda>h. snd (the (dd_cache db h))) (dd_order db)) \<and>
       distinct (dd_order db) \<and> set (dd_order db) = dom (dd_cache db) \<and>
       within_budget (db_insert ze b db))"
proof -
  define db where "db = foldl (db_step ze) (db_with_byte_budget ze s cap em) evs"
  have "db_inv db" unfolding db_def by (rule bdb.run_inv) (auto simp: db_new_inv list.pred_True)
  moreover from this have "sum_list (map (cached_size db) (dd_order db)) =
      sum_list (map (\<lambda>h. snd (the (dd_cache db h))) (dd_order db))"
    by (intro sum_list_map_other) (auto simp: db_inv_def cached_size_def split: option.split)
  ultimately show ?thesis
    unfolding db_def [symmetric] Let_def using db_insert_inv [of db ze b] by (auto simp: db_inv_def)
qed

subsection \<open>What the store holds\<close>

text \<open>
  The abstract content: what a read of a hash finds in the cache, in the write channel (the newest
  write first) or on disk. Eviction moves a block between them and must not lose it.
\<close>

definition db_view ::
  "('s, 'tx, 'b) zenv \<Rightarrow> ('s, 'tx, 'b) data_block_db \<Rightarrow> digest \<Rightarrow> 'tx data_block option" where
  "db_view ze db h = (case dd_cache db h of
     Some (b, _) \<Rightarrow> Some b
   | None \<Rightarrow> (case map_of (rev (dd_writes db)) h of
       Some v \<Rightarrow> decode (cd_block ze) v
     | None \<Rightarrow> (case st_read (store (z_env ze)) (dd_disk db) h of
         Inr (Some v) \<Rightarrow> decode (cd_block ze) v
       | _ \<Rightarrow> None)))"

lemma map_of_snoc [simp]: "map_of (xs @ [(k, v)]) h =
    (case map_of xs h of None \<Rightarrow> if h = k then Some v else None | Some w \<Rightarrow> Some w)"
  by (simp add: map_add_def split: option.split)

lemma db_view_flush: "zenv_ok ze \<Longrightarrow> db_view ze (db_flush ze db) = db_view ze db"
  by (rule ext)
     (auto simp: db_view_def db_flush_def zenv_ok_def env_ok_def storage_ok_def
       split: list.split option.split)

lemma db_view_emit [simp]: "db_view ze (db_emit k db) = db_view ze db"
  by (simp add: db_view_def fun_eq_iff cong: option.case_cong)

lemma db_view_evict_one:
  assumes "zenv_ok ze" "db_view ze db h = Some b" "dd_emitted db < b_height b"
  shows "db_view ze (evict_one ze old db) h = Some b"
proof (cases "dd_cache db old")
  case None
  with assms show ?thesis by (simp add: evict_one_def)
next
  case (Some e)
  then obtain c sz where c: "dd_cache db old = Some (c, sz)" by (cases e) auto
  have dec: "decode (cd_block ze) (encode (cd_block ze) c) = Some c"
    using assms(1) by (simp add: zenv_ok_def codec_ok_def)
  show ?thesis
  proof (cases "h = old")
    case True
    with c assms(2,3) dec show ?thesis by (simp add: db_view_def evict_one_def)
  next
    case False
    with c assms(2) show ?thesis
      by (cases "dd_cache db h"; cases "map_of (rev (dd_writes db)) h")
         (auto simp: db_view_def evict_one_def)
  qed
qed

lemma db_view_order [simp]: "db_view ze (db\<lparr>dd_order := xs\<rparr>) = db_view ze db"
  by (simp add: db_view_def fun_eq_iff cong: option.case_cong)

lemma db_view_evict:
  "zenv_ok ze \<Longrightarrow> db_view ze db h = Some b \<Longrightarrow> dd_emitted db < b_height b \<Longrightarrow>
     db_view ze (evict ze db) h = Some b"
proof (induction ze db rule: evict.induct)
  case (1 ze db)
  then show ?case
    by (subst evict.simps) (auto simp: db_view_evict_one split: list.split)
qed

lemma db_view_insert:
  assumes "zenv_ok ze"
    and "(if h = data_block_hash ze c then Some c else db_view ze db h) = Some b"
    and "dd_emitted db < b_height b"
  shows "db_view ze (db_insert ze c db) h = Some b"
proof -
  define m where "m = (case dd_meta db (data_block_hash ze c) of Some _ \<Rightarrow> dd_meta db
    | None \<Rightarrow> (dd_meta db)(data_block_hash ze c \<mapsto> meta_of_block c (data_block_hash ze c)))"
  have "db_view ze (case dd_cache db (data_block_hash ze c) of
      Some (_, old) \<Rightarrow> db\<lparr>dd_meta := m, dd_cache := (dd_cache db)(data_block_hash ze c \<mapsto> (c, block_size c)),
        dd_resident := dd_resident db + block_size c - old\<rparr>
    | None \<Rightarrow> db\<lparr>dd_meta := m, dd_cache := (dd_cache db)(data_block_hash ze c \<mapsto> (c, block_size c)),
        dd_order := dd_order db @ [data_block_hash ze c], dd_resident := dd_resident db + block_size c\<rparr>) h = Some b"
    using assms(2) by (auto simp: db_view_def split: option.splits if_splits)
  from db_view_evict [OF assms(1) this] assms(3) show ?thesis
    by (auto simp: db_insert_def cache_put_def Let_def m_def [symmetric] split: option.splits)
qed

text \<open>All pending writes reach the disk.\<close>

definition db_flush_all :: "('s, 'tx, 'b) zenv \<Rightarrow> ('s, 'tx, 'b) data_block_db \<Rightarrow> ('s, 'tx, 'b) data_block_db" where
  "db_flush_all ze db = foldl (db_step ze) db (replicate (length (dd_writes db)) DbFlush)"

lemma db_flush_all_writes: "dd_writes (db_flush_all ze db) = []"
proof -
  have "dd_writes (foldl (db_step ze) db (replicate n DbFlush)) = drop n (dd_writes db)" for n
    by (induction n arbitrary: db)
       (auto simp: db_step_def db_flush_def drop_Suc split: list.split)
  then show ?thesis by (simp add: db_flush_all_def)
qed

lemma db_flush_all_sel:
  "dd_genesis_hash (db_flush_all ze db) = dd_genesis_hash db" "dd_meta (db_flush_all ze db) = dd_meta db"
  "zenv_ok ze \<Longrightarrow> db_view ze (db_flush_all ze db) = db_view ze db"
proof -
  have "dd_genesis_hash (foldl (db_step ze) db (replicate n DbFlush)) = dd_genesis_hash db \<and>
      dd_meta (foldl (db_step ze) db (replicate n DbFlush)) = dd_meta db \<and>
      (zenv_ok ze \<longrightarrow> db_view ze (foldl (db_step ze) db (replicate n DbFlush)) = db_view ze db)" for n
    by (induction n arbitrary: db) (auto simp: db_step_def db_view_flush)
  then show "dd_genesis_hash (db_flush_all ze db) = dd_genesis_hash db"
    "dd_meta (db_flush_all ze db) = dd_meta db"
    "zenv_ok ze \<Longrightarrow> db_view ze (db_flush_all ze db) = db_view ze db"
    by (auto simp: db_flush_all_def)
qed

lemma db_get_flushed:
  assumes "dd_writes db = []" "db_view ze db h = Some b" "dd_meta db h \<noteq> None" "h \<noteq> dd_genesis_hash db"
  shows "db_get ze h db = Ok (Some b)"
  using assms by (auto simp: db_get_def db_view_def db_read_as_def split: option.splits sum.splits)

text \<open>
  The abstract content of an unemitted block through one event. Two inserted blocks with one hash
  have one envelope.
\<close>

definition db_keeps :: "('s, 'tx, 'b) zenv \<Rightarrow> 'tx data_block \<Rightarrow> ('s, 'tx, 'b) data_block_db \<Rightarrow> bool" where
  "db_keeps ze b db \<longleftrightarrow> dd_meta db (data_block_hash ze b) \<noteq> None \<and>
     (dd_emitted db < b_height b \<longrightarrow>
       (\<exists>b'. db_view ze db (data_block_hash ze b) = Some b' \<and> db_envelope b' = db_envelope b))"

lemma db_keeps_insert:
  assumes "zenv_ok ze" "b = c \<or> db_keeps ze b db"
    and "data_block_hash ze c = data_block_hash ze b \<Longrightarrow> db_envelope c = db_envelope b"
  shows "db_keeps ze b (db_insert ze c db)"
proof (cases "data_block_hash ze b = data_block_hash ze c")
  case True
  then have "db_envelope c = db_envelope b" using assms(3) by simp
  then have "dd_emitted db < b_height b \<Longrightarrow> db_view ze (db_insert ze c db) (data_block_hash ze b) = Some c"
    using True by (intro db_view_insert [OF assms(1)]) auto
  with True \<open>db_envelope c = db_envelope b\<close> show ?thesis by (auto simp: db_keeps_def)
next
  case False
  with assms(2) have k: "db_keeps ze b db" by auto
  have "\<exists>b'. db_view ze (db_insert ze c db) (data_block_hash ze b) = Some b' \<and> db_envelope b' = db_envelope b"
    if em: "dd_emitted db < b_height b"
  proof -
    from k em obtain b' where v: "db_view ze db (data_block_hash ze b) = Some b'"
      and e: "db_envelope b' = db_envelope b" by (auto simp: db_keeps_def)
    have "db_view ze (db_insert ze c db) (data_block_hash ze b) = Some b'"
      using False v em e by (intro db_view_insert [OF assms(1)]) auto
    with e show ?thesis by blast
  qed
  with k show ?thesis by (auto simp: db_keeps_def)
qed

lemma db_keeps_step:
  assumes "zenv_ok ze" "db_keeps ze b db"
    and "\<And>c. ev = DbInsert c \<Longrightarrow> data_block_hash ze c = data_block_hash ze b \<Longrightarrow> db_envelope c = db_envelope b"
  shows "db_keeps ze b (db_step ze db ev)"
proof (cases ev)
  case (DbInsert c)
  with assms show ?thesis by (auto simp: db_step_def intro: db_keeps_insert)
qed (use assms in \<open>auto simp: db_step_def db_keeps_def db_view_flush\<close>)

lemma db_keeps_run:
  assumes "zenv_ok ze" "db_keeps ze b db"
    and "\<And>c. DbInsert c \<in> set evs \<Longrightarrow> data_block_hash ze c = data_block_hash ze b \<Longrightarrow> db_envelope c = db_envelope b"
  shows "db_keeps ze b (foldl (db_step ze) db evs)"
  using assms(2,3)
proof (induction evs arbitrary: db)
  case (Cons ev evs)
  have "db_keeps ze b (db_step ze db ev)"
    by (rule db_keeps_step [OF assms(1) Cons.prems(1)], rule Cons.prems(2)) simp_all
  then have "db_keeps ze b (foldl (db_step ze) (db_step ze db ev) evs)"
    by (rule Cons.IH, intro Cons.prems(2)) simp_all
  then show ?case by simp
qed simp

lemma dd_genesis_hash_run [simp]:
  "dd_genesis_hash (foldl (db_step ze) db evs) = dd_genesis_hash db"
  by (induction evs arbitrary: db) (auto simp: db_step_def split: db_event.split)

text \<open>C18. No admitted block is lost before it was emitted: after any run of insertions, write-backs
  and emissions that follow the insertion of a block, if the committer's counter is still below the
  block's height then, once the pending writes have reached the disk, a read of its hash returns
  the block, however small the cache. (Blocks of the run that have the same hash have the same
  envelope.)\<close>

theorem block_db_refines_map:
  assumes "zenv_ok ze"
    and "\<forall>c. DbInsert c \<in> set evs \<longrightarrow> data_block_hash ze c = data_block_hash ze b \<longrightarrow>
      db_envelope c = db_envelope b"
    and "data_block_hash ze b \<noteq> dd_genesis_hash db"
    and "dd_emitted (foldl (db_step ze) (db_insert ze b db) evs) < b_height b"
  shows "\<exists>b'. db_get ze (data_block_hash ze b)
           (db_flush_all ze (foldl (db_step ze) (db_insert ze b db) evs)) = Ok (Some b') \<and>
         db_envelope b' = db_envelope b"
proof -
  define db' where "db' = foldl (db_step ze) (db_insert ze b db) evs"
  have "db_keeps ze b (db_insert ze b db)" using assms(1) by (intro db_keeps_insert) auto
  then have "db_keeps ze b db'" unfolding db'_def
    by (rule db_keeps_run [OF assms(1)]) (use assms(2) in blast)
  with assms(4) obtain b' where v: "db_view ze db' (data_block_hash ze b) = Some b'"
    and e: "db_envelope b' = db_envelope b" and m: "dd_meta db' (data_block_hash ze b) \<noteq> None"
    by (auto simp: db_keeps_def db'_def)
  have "db_get ze (data_block_hash ze b) (db_flush_all ze db') = Ok (Some b')"
    using v m assms(1,3)
    by (intro db_get_flushed)
       (auto simp: db_flush_all_writes db_flush_all_sel db'_def)
  with e show ?thesis unfolding db'_def by blast
qed

text \<open>A cache of one block: the second insertion evicts the first block, which is spilled.\<close>

theorem block_db_refines_map_witness:
  "\<exists>b'. db_get ztest 21012 (db_flush_all ztest (db_insert ztest (ztest_block 4 1 2 21012 [8, 9])
           (db_insert ztest (ztest_block 4 1 1 20000 [5, 6]) (db_with_byte_budget ztest Map.empty 100 0)))) =
         Ok (Some b') \<and> db_envelope b' = \<lparr>de_epoch = 1, de_height = 1, de_payload = [5, 6], de_parent = 20000\<rparr>"
proof -
  have h: "data_block_hash ztest (ztest_block 4 1 1 20000 [5, 6]) = 21012"
    "dd_genesis_hash (db_with_byte_budget ztest s 100 0) = 20000" for s
    by (simp_all add: db_with_byte_budget_def Let_def data_genesis_def)
  have em: "dd_emitted (foldl (db_step ztest) (db_insert ztest (ztest_block 4 1 1 20000 [5, 6])
      (db_with_byte_budget ztest Map.empty 100 0)) [DbInsert (ztest_block 4 1 2 21012 [8, 9])]) = 0"
    by (simp add: db_step_def db_with_byte_budget_def Let_def)
  show ?thesis
    using block_db_refines_map [OF ztest_ok, of "[DbInsert (ztest_block 4 1 2 21012 [8, 9])]"
        "ztest_block 4 1 1 20000 [5, 6]" "db_with_byte_budget ztest Map.empty 100 0"] em h(1)
    by (simp add: db_step_def h(2) del: ztest_sel(1))
       simp
qed

end
