(* ===== verification/ZeusChain.thy ===== *)
theory ZeusChain
  imports ZeusDB
begin

section \<open>The data chain: validity, conflicts and blames\<close>

text \<open>
  \<^verbatim>\<open>server/zeus/chain_state/data_chain.rs\<close>: the head of the data chain, the epoch gate, the check
  of a block against the committed prefix, and the validity of blames of an epoch's leader and of
  the certificates made of them.
\<close>

record 'tx data_chain_state =
  dc_head_hash :: digest
  dc_head_height :: nat
  dc_child_of :: "digest \<rightharpoonup> digest"
  dc_pending :: "digest \<rightharpoonup> 'tx data_block list"

type_synonym 'tx pending_attestations = "digest \<rightharpoonup> 'tx zeus_msg list"
type_synonym 'tx admitted_change_qcs = "nat \<rightharpoonup> 'tx eleader_change_qc"
type_synonym commit_lock = "(nat \<times> attestation) list"

definition data_chain_genesis :: "('s, 'tx, 'b) zenv \<Rightarrow> 'tx data_chain_state" where
  "data_chain_genesis ze =
     \<lparr>dc_head_hash = data_block_hash ze data_genesis, dc_head_height = 0,
      dc_child_of = Map.empty, dc_pending = Map.empty\<rparr>"

definition epoch_gate_valid :: "'tx data_block \<Rightarrow> nat \<Rightarrow> 'tx admitted_change_qcs \<Rightarrow> bool" where
  "epoch_gate_valid b e_cur qcs =
     (if b_epoch b < e_cur then False
      else if e_cur < b_epoch b \<and> qcs (b_epoch b - 1) = None then False
      else True)"

definition data_chain_valid :: "digest \<Rightarrow> ('s, 'tx, 'b) data_block_db \<Rightarrow> bool" where
  "data_chain_valid h db = db_contains h db"

text \<open>The inner loop: the hash at the end of the walk, or \<open>Some None\<close> when an ancestor is missing.
  Only hash links bound the walk, so it is partial: \<open>None\<close> is the walk that does not return.\<close>

partial_function (option) ancestor_walk ::
  "('s, 'tx, 'b) data_block_db \<Rightarrow> nat \<Rightarrow> digest \<Rightarrow> nat \<Rightarrow> digest \<Rightarrow> digest option option" where
  "ancestor_walk db pinned cur_hash cur_height cur_parent =
     (if pinned < cur_height then
        (case db_meta cur_parent db of
           Some m \<Rightarrow> ancestor_walk db pinned (dm_hash m) (dm_height m) (dm_parent m)
         | None \<Rightarrow> Some None)
      else Some (Some cur_hash))"

fun conflicts_data_prefix ::
  "digest \<Rightarrow> nat \<Rightarrow> digest \<Rightarrow> commit_lock \<Rightarrow> ('s, 'tx, 'b) data_block_db \<Rightarrow> bool option" where
  "conflicts_data_prefix h ht par [] db = Some False"
| "conflicts_data_prefix h ht par ((r, att) # lock) db =
     (if att_height att \<le> ht then
        (case ancestor_walk db (att_height att) h ht par of
           None \<Rightarrow> None
         | Some None \<Rightarrow> Some True
         | Some (Some cur) \<Rightarrow>
             if cur \<noteq> ae_block_hash (at_envelope att) then Some True
             else conflicts_data_prefix h ht par lock db)
      else Some True)"

text \<open>\<^verbatim>\<open>max_by_key\<close> returns the last of several maximal elements.\<close>

definition max_att :: "attestation option \<Rightarrow> attestation \<Rightarrow> attestation option" where
  "max_att best a = (case best of
     None \<Rightarrow> Some a
   | Some b \<Rightarrow> if att_height b \<le> att_height a then Some a else Some b)"

definition latest_committed_attestation :: "commit_lock \<Rightarrow> attestation option" where
  "latest_committed_attestation lock = foldl max_att None (map snd lock)"

text \<open>\<^verbatim>\<open>epoch % num_nodes\<close>; a committee has at least this node, so the divisor is positive.\<close>

definition eleader :: "nat \<Rightarrow> nat \<Rightarrow> node_id" where
  "eleader epoch n = epoch mod n"

subsection \<open>Blames\<close>

definition silence_payload_bytes :: "nat \<Rightarrow> bytes" where
  "silence_payload_bytes h = u64_le_bytes h"

definition equivocation_payload_bytes ::
  "('s, 'tx, 'b) zenv \<Rightarrow> 'tx data_block \<Rightarrow> 'tx data_block \<Rightarrow> bytes" where
  "equivocation_payload_bytes ze a b =
     digest_bytes (data_block_hash ze a) @ digest_bytes (data_block_hash ze b)"

definition blame_signed_bytes ::
  "('s, 'tx, 'b) zenv \<Rightarrow> nat \<Rightarrow> blame_reason \<Rightarrow> 'tx blame_payload \<Rightarrow> digest outcome" where
  "blame_signed_bytes ze epoch reason payload =
     bind_o (case reason of
         Silence \<Rightarrow>
           Ok (TAG_REASON_SILENCE,
               silence_payload_bytes (case payload of SilenceP h \<Rightarrow> h | _ \<Rightarrow> 0))
       | Equivocation \<Rightarrow>
           (case payload of
              EquivocationP _ a b \<Rightarrow> Ok (TAG_REASON_EQUIVOCATION, equivocation_payload_bytes ze a b)
            | _ \<Rightarrow> Panic))
       (\<lambda>(tag, payload_bytes).
          Ok (ser_and_hash (crypt (z_env ze)) (cd_blame ze)
            \<lparr>bs_tag = TAG_ELEADER_BLAME, bs_epoch = epoch, bs_reason_tag = tag,
             bs_payload_bytes = payload_bytes\<rparr>))"

definition equivocation_checks ::
  "('s, 'tx, 'b) zenv \<Rightarrow> 'tx blame_payload \<Rightarrow> pk_map \<Rightarrow> node_id \<Rightarrow> bool" where
  "equivocation_checks ze payload pks expected = (case payload of
     EquivocationP height a b \<Rightarrow>
       (if data_block_hash ze a = data_block_hash ze b then False
        else if b_height a \<noteq> height \<or> b_height b \<noteq> height then False
        else (case pks expected of
          None \<Rightarrow> False
        | Some pk \<Rightarrow>
            pk_verify (crypt (z_env ze)) pk (data_block_hash ze a) (ds_raw (db_sig a)) \<and>
            pk_verify (crypt (z_env ze)) pk (data_block_hash ze b) (ds_raw (db_sig b))))
   | _ \<Rightarrow> False)"

definition eleader_blame_valid ::
  "('s, 'tx, 'b) zenv \<Rightarrow> 'tx eleader_blame \<Rightarrow> pk_map \<Rightarrow> node_id \<Rightarrow> bool outcome" where
  "eleader_blame_valid ze bl pks expected = (case pks (eb_signer bl) of
     None \<Rightarrow> Ok False
   | Some pk \<Rightarrow>
       bind_o (blame_signed_bytes ze (eb_epoch bl) (eb_reason bl) (eb_payload bl)) (\<lambda>digest.
         if \<not> pk_verify (crypt (z_env ze)) pk digest (eb_raw bl) then Ok False
         else (case eb_reason bl of
             Silence \<Rightarrow> Ok True
           | Equivocation \<Rightarrow> Ok (equivocation_checks ze (eb_payload bl) pks expected))))"

fun change_qc_loop ::
  "('s, 'tx, 'b) zenv \<Rightarrow> nat \<Rightarrow> pk_map \<Rightarrow> node_id \<Rightarrow> 'tx eleader_blame list \<Rightarrow> node_id set
    \<Rightarrow> node_id set option outcome" where
  "change_qc_loop ze epoch pks expected [] seen = Ok (Some seen)"
| "change_qc_loop ze epoch pks expected (bl # bls) seen =
     (if eb_epoch bl \<noteq> epoch then Ok None
      else bind_o (eleader_blame_valid ze bl pks expected) (\<lambda>ok.
        if \<not> ok then Ok None
        else change_qc_loop ze epoch pks expected bls (insert (eb_signer bl) seen)))"

definition eleader_change_qc_valid ::
  "('s, 'tx, 'b) zenv \<Rightarrow> 'tx eleader_change_qc \<Rightarrow> pk_map \<Rightarrow> nat \<Rightarrow> nat \<Rightarrow> bool outcome" where
  "eleader_change_qc_valid ze qc pks nf n =
     bind_o (change_qc_loop ze (ec_epoch qc) pks (eleader (ec_epoch qc) n) (ec_blames qc) {})
       (\<lambda>r. case r of None \<Rightarrow> Ok False | Some seen \<Rightarrow> Ok (nf < card seen))"

subsection \<open>The conflict check against its specification\<close>

text \<open>\<open>on_chain db h par x\<close>: the block \<open>x\<close> is the block \<open>h\<close>, whose parent is \<open>par\<close>, or one of its
  ancestors in the index.\<close>

inductive on_chain :: "('s, 'tx, 'b) data_block_db \<Rightarrow> digest \<Rightarrow> digest \<Rightarrow> digest \<Rightarrow> bool" for db where
  here: "on_chain db h par h"
| up: "db_meta par db = Some m \<Longrightarrow> on_chain db (dm_hash m) (dm_parent m) x \<Longrightarrow> on_chain db h par x"

inductive_simps on_chain_iff: "on_chain db h par x"

text \<open>Heights fall towards the parents, and the index is keyed by hash.\<close>

definition chain_heights :: "('s, 'tx, 'b) data_block_db \<Rightarrow> bool" where
  "chain_heights db \<longleftrightarrow> (\<forall>h m. db_meta h db = Some m \<longrightarrow> dm_hash m = h \<and>
     (\<forall>p. db_meta (dm_parent m) db = Some p \<longrightarrow> dm_height p < dm_height m))"

definition candidate_ok :: "('s, 'tx, 'b) data_block_db \<Rightarrow> digest \<Rightarrow> nat \<Rightarrow> digest \<Rightarrow> bool" where
  "candidate_ok db h ht par \<longleftrightarrow>
     (\<forall>m. db_meta h db = Some m \<longrightarrow> dm_height m = ht) \<and>
     (\<forall>p. db_meta par db = Some p \<longrightarrow> dm_height p < ht)"

definition lock_ok :: "('s, 'tx, 'b) data_block_db \<Rightarrow> commit_lock \<Rightarrow> bool" where
  "lock_ok db lock \<longleftrightarrow> (\<forall>e \<in> set lock. \<exists>m. db_meta (ae_block_hash (at_envelope (snd e))) db = Some m \<and>
     dm_height m = att_height (snd e))"

lemma candidate_ok_parent:
  "chain_heights db \<Longrightarrow> db_meta par db = Some m \<Longrightarrow>
     candidate_ok db (dm_hash m) (dm_height m) (dm_parent m) \<and> db_meta (dm_hash m) db = Some m"
  by (auto simp: chain_heights_def candidate_ok_def)

lemma on_chain_height:
  "on_chain db h par x \<Longrightarrow> chain_heights db \<Longrightarrow> candidate_ok db h ht par \<Longrightarrow>
     db_meta x db = Some mx \<Longrightarrow> dm_height mx \<le> ht"
proof (induction arbitrary: ht rule: on_chain.induct)
  case (here h par)
  then show ?case by (auto simp: candidate_ok_def)
next
  case (up par m x h)
  then have "dm_height mx \<le> dm_height m" using candidate_ok_parent by blast
  moreover have "dm_height m < ht" using up by (auto simp: candidate_ok_def)
  ultimately show ?case by simp
qed

lemma ancestor_walk_finds:
  assumes "chain_heights db" "candidate_ok db h ht par"
    and "db_meta y db = Some my" "dm_height my = pinned" "pinned \<le> ht"
  shows "\<exists>r. ancestor_walk db pinned h ht par = Some r \<and> (r = Some y \<longleftrightarrow> on_chain db h par y)"
  using assms(2,5)
proof (induction ht arbitrary: h par rule: less_induct)
  case (less ht)
  show ?case
  proof (cases "pinned < ht")
    case False
    with less.prems have eq: "ht = pinned" by simp
    have "h = y" if on: "on_chain db h par y"
    proof (rule ccontr)
      assume "h \<noteq> y"
      with on obtain m where m: "db_meta par db = Some m" and c: "on_chain db (dm_hash m) (dm_parent m) y"
        by (auto simp: on_chain_iff [of db h par y])
      have "pinned \<le> dm_height m"
        using on_chain_height [OF c assms(1) _ assms(3)] candidate_ok_parent [OF assms(1) m] assms(4) by auto
      with m less.prems eq show False by (auto simp: candidate_ok_def)
    qed
    with eq show ?thesis by (subst ancestor_walk.simps) (auto intro: on_chain.here)
  next
    case True
    have ne: "h \<noteq> y" using True less.prems assms(3,4) by (auto simp: candidate_ok_def)
    show ?thesis
    proof (cases "db_meta par db")
      case None
      with True ne show ?thesis
        by (subst ancestor_walk.simps) (simp add: on_chain_iff [of db h par y])
    next
      case (Some m)
      have on: "on_chain db h par y \<longleftrightarrow> on_chain db (dm_hash m) (dm_parent m) y"
        using Some ne by (simp add: on_chain_iff [of db h par y])
      show ?thesis
      proof (cases "pinned \<le> dm_height m")
        case True
        have "dm_height m < ht" using less.prems(1) Some by (auto simp: candidate_ok_def)
        from less.IH [OF this _ True, of "dm_hash m" "dm_parent m"] candidate_ok_parent [OF assms(1) Some]
        obtain r where "ancestor_walk db pinned (dm_hash m) (dm_height m) (dm_parent m) = Some r"
          "r = Some y \<longleftrightarrow> on_chain db (dm_hash m) (dm_parent m) y" by blast
        with on Some \<open>pinned < ht\<close> show ?thesis by (subst ancestor_walk.simps) simp
      next
        case low: False
        have "\<not> on_chain db (dm_hash m) (dm_parent m) y"
          using on_chain_height [OF _ assms(1) _ assms(3)] candidate_ok_parent [OF assms(1) Some] assms(4) low
          by blast
        moreover have "dm_hash m \<noteq> y"
          using candidate_ok_parent [OF assms(1) Some] assms(3,4) low by auto
        moreover have "ancestor_walk db pinned (dm_hash m) (dm_height m) (dm_parent m) = Some (Some (dm_hash m))"
          using low by (subst ancestor_walk.simps) simp
        ultimately show ?thesis using Some on \<open>pinned < ht\<close>
          by (subst ancestor_walk.simps) simp
      qed
    qed
  qed
qed

lemma conflict_check_honest:
  assumes "chain_heights db" "candidate_ok db h ht par" "lock_ok db lock"
  shows "conflicts_data_prefix h ht par lock db =
     Some (\<exists>e \<in> set lock. \<not> on_chain db h par (ae_block_hash (at_envelope (snd e))))"
  using assms(3)
proof (induction lock)
  case Nil
  then show ?case by simp
next
  case (Cons e lock)
  obtain r a where e: "e = (r, a)" by (cases e)
  from Cons.prems e obtain m where m: "db_meta (ae_block_hash (at_envelope a)) db = Some m"
    and ht: "dm_height m = att_height a" and rest: "lock_ok db lock" by (auto simp: lock_ok_def)
  note IH = Cons.IH [OF rest]
  show ?case
  proof (cases "att_height a \<le> ht")
    case True
    from ancestor_walk_finds [OF assms(1,2) m ht True] obtain w where
      w: "ancestor_walk db (att_height a) h ht par = Some w"
         "w = Some (ae_block_hash (at_envelope a)) \<longleftrightarrow> on_chain db h par (ae_block_hash (at_envelope a))"
      by blast
    with True IH e show ?thesis by (cases w) auto
  next
    case False
    then have "\<not> on_chain db h par (ae_block_hash (at_envelope a))"
      using on_chain_height [OF _ assms(1,2) m] ht by auto
    with False e show ?thesis by simp
  qed
qed

text \<open>Nothing in the code makes heights fall or an attestation claim the height of the block it pins. In
  general the check looks at one block for each entry of the lock: the first one on the way along the
  parents, the candidate included, whose height is at most the claimed one.\<close>

inductive parent_path ::
  "('s, 'tx, 'b) data_block_db \<Rightarrow> digest \<Rightarrow> nat \<Rightarrow> digest \<Rightarrow> (digest \<times> nat) list \<Rightarrow> bool" for db where
  path_here: "parent_path db h ht par [(h, ht)]"
| path_up: "db_meta par db = Some m \<Longrightarrow> parent_path db (dm_hash m) (dm_height m) (dm_parent m) ps \<Longrightarrow>
    parent_path db h ht par ((h, ht) # ps)"

inductive_simps parent_path_one: "parent_path db h ht par [p]"
inductive_simps parent_path_more: "parent_path db h ht par (p # q # ps)"
inductive_cases parent_path_Nil: "parent_path db h ht par []"

definition first_at_most :: "('s, 'tx, 'b) data_block_db \<Rightarrow> nat \<Rightarrow> digest \<Rightarrow> nat \<Rightarrow> digest \<Rightarrow> digest \<Rightarrow> bool" where
  "first_at_most db claimed h ht par x \<longleftrightarrow> (\<exists>ps k. parent_path db h ht par (ps @ [(x, k)]) \<and> k \<le> claimed \<and>
     (\<forall>(y, j) \<in> set ps. claimed < j))"

lemma first_at_most_here: "ht \<le> claimed \<Longrightarrow> first_at_most db claimed h ht par x \<longleftrightarrow> x = h"
proof
  assume ht: "ht \<le> claimed"
  show "x = h" if f: "first_at_most db claimed h ht par x"
  proof -
    from f obtain ps k where p: "parent_path db h ht par (ps @ [(x, k)])" "\<forall>(y, j) \<in> set ps. claimed < j"
      unfolding first_at_most_def by blast
    show ?thesis
    proof (cases ps)
      case (Cons q qs)
      with p(1) have "q = (h, ht)" by (auto elim: parent_path.cases)
      with p(2) Cons ht show ?thesis by auto
    qed (use p(1) in \<open>auto simp: parent_path_one\<close>)
  qed
  show "first_at_most db claimed h ht par x" if "x = h"
    unfolding first_at_most_def using that ht
    by (intro exI [of _ "[]"] exI [of _ ht]) (simp add: path_here)
qed

lemma first_at_most_up:
  assumes "claimed < ht"
  shows "first_at_most db claimed h ht par x \<longleftrightarrow>
    (\<exists>m. db_meta par db = Some m \<and> first_at_most db claimed (dm_hash m) (dm_height m) (dm_parent m) x)"
proof
  assume "first_at_most db claimed h ht par x"
  then obtain ps k where p: "parent_path db h ht par (ps @ [(x, k)])" "k \<le> claimed" "\<forall>(y, j) \<in> set ps. claimed < j"
    unfolding first_at_most_def by blast
  from p(1) show "\<exists>m. db_meta par db = Some m \<and> first_at_most db claimed (dm_hash m) (dm_height m) (dm_parent m) x"
  proof cases
    case path_here
    with p(2) assms show ?thesis by simp
  next
    case (path_up m qs)
    then obtain ps' where "ps = (h, ht) # ps'" "qs = ps' @ [(x, k)]"
      by (cases ps) (auto elim: parent_path_Nil)
    with path_up p(2,3) show ?thesis unfolding first_at_most_def by auto
  qed
next
  assume "\<exists>m. db_meta par db = Some m \<and> first_at_most db claimed (dm_hash m) (dm_height m) (dm_parent m) x"
  then obtain m ps k where m: "db_meta par db = Some m"
    and p: "parent_path db (dm_hash m) (dm_height m) (dm_parent m) (ps @ [(x, k)])" "k \<le> claimed" "\<forall>(y, j) \<in> set ps. claimed < j"
    unfolding first_at_most_def by blast
  from path_up [OF m p(1), of h ht] p(2,3) assms show "first_at_most db claimed h ht par x"
    unfolding first_at_most_def by (intro exI [of _ "(h, ht) # ps"] exI [of _ k]) simp
qed

text \<open>Parent links do not run in circles.\<close>

definition links_ranked :: "('s, 'tx, 'b) data_block_db \<Rightarrow> (digest \<Rightarrow> nat) \<Rightarrow> bool" where
  "links_ranked db rank \<longleftrightarrow> (\<forall>h m. db_meta h db = Some m \<longrightarrow> rank (dm_parent m) < rank h)"

lemma ancestor_walk_first:
  assumes "links_ranked db rank"
  shows "\<exists>r. ancestor_walk db claimed h ht par = Some r \<and> (\<forall>x. r = Some x \<longleftrightarrow> first_at_most db claimed h ht par x)"
proof (induction "rank par" arbitrary: h ht par rule: less_induct)
  case less
  show ?case
  proof (cases "claimed < ht")
    case False
    then show ?thesis by (subst ancestor_walk.simps) (auto simp: first_at_most_here)
  next
    case True
    note up = first_at_most_up [OF True, of db h par]
    show ?thesis
    proof (cases "db_meta par db")
      case None
      with True up show ?thesis by (subst ancestor_walk.simps) simp
    next
      case (Some m)
      with assms have "rank (dm_parent m) < rank par" by (simp add: links_ranked_def)
      from less [OF this, of "dm_hash m" "dm_height m"] True Some up
      show ?thesis by (subst ancestor_walk.simps) simp
    qed
  qed
qed

lemma conflict_check_first:
  assumes "links_ranked db rank"
  shows "conflicts_data_prefix h ht par lock db =
     Some (\<exists>e \<in> set lock. ht < att_height (snd e) \<or>
       \<not> first_at_most db (att_height (snd e)) h ht par (ae_block_hash (at_envelope (snd e))))"
proof (induction lock)
  case (Cons e lock)
  obtain r a where e: "e = (r, a)" by (cases e)
  obtain w where w: "ancestor_walk db (att_height a) h ht par = Some w"
    "\<And>x. w = Some x \<longleftrightarrow> first_at_most db (att_height a) h ht par x"
    using ancestor_walk_first [OF assms] by blast
  show ?case
  proof (cases "att_height a \<le> ht")
    case True
    with Cons e w(1) w(2) [of "ae_block_hash (at_envelope a)"] show ?thesis by (cases w) auto
  qed (simp add: e)
qed simp


text \<open>A candidate of height 3 over two blocks, the first of them committed.\<close>

definition ztest_chain_db :: "(ztest_db, nat, zser) data_block_db" where
  "ztest_chain_db =
     db_insert ztest (ztest_block 4 1 2 21012 [7])
       (db_insert ztest (ztest_block 4 1 1 20000 [5, 6]) (db_with_byte_budget ztest Map.empty 10000 0))"

lemma ztest_chain_meta:
  "db_meta h ztest_chain_db =
     (if h = 20000 then Some \<lparr>dm_epoch = 0, dm_height = 0, dm_parent = 0, dm_hash = 20000\<rparr>
      else if h = 21012 then Some \<lparr>dm_epoch = 1, dm_height = 1, dm_parent = 20000, dm_hash = 21012\<rparr>
      else if h = 21021 then Some \<lparr>dm_epoch = 1, dm_height = 2, dm_parent = 21012, dm_hash = 21021\<rparr>
      else None)"
  by (simp add: db_meta_def ztest_chain_db_def db_with_byte_budget_def Let_def meta_of_block_def
      data_genesis_def EMPTY_HASH_def)


subsection \<open>Certificates of a change of leader\<close>

text \<open>What a valid certificate shows: each of its blames is of its epoch and signed by a known
  signer, and the signers are more than the faults.\<close>

definition blame_signed_ok :: "('s, 'tx, 'b) zenv \<Rightarrow> pk_map \<Rightarrow> 'tx eleader_blame \<Rightarrow> bool" where
  "blame_signed_ok ze pks bl \<longleftrightarrow> (\<exists>pk d. pks (eb_signer bl) = Some pk \<and>
     blame_signed_bytes ze (eb_epoch bl) (eb_reason bl) (eb_payload bl) = Ok d \<and>
     pk_verify (crypt (z_env ze)) pk d (eb_raw bl))"

lemma eleader_blame_valid_signed:
  "eleader_blame_valid ze bl pks ex = Ok True \<Longrightarrow> blame_signed_ok ze pks bl"
  by (auto simp: eleader_blame_valid_def blame_signed_ok_def bind_o_Ok_iff split: option.splits if_splits)

lemma change_qc_loop_Ok:
  "change_qc_loop ze e pks ex bls seen = Ok (Some S) \<Longrightarrow>
     S = seen \<union> eb_signer ` set bls \<and>
     (\<forall>bl \<in> set bls. eb_epoch bl = e \<and> eleader_blame_valid ze bl pks ex = Ok True)"
  by (induction bls arbitrary: seen) (auto simp: bind_o_Ok_iff split: if_splits)

lemma change_qc_quorum:
  assumes "eleader_change_qc_valid ze qc pks nf n = Ok True"
  shows "nf < card (eb_signer ` set (ec_blames qc))"
    and "bl \<in> set (ec_blames qc) \<Longrightarrow> eb_epoch bl = ec_epoch qc \<and> blame_signed_ok ze pks bl"
proof -
  from assms obtain S where S: "change_qc_loop ze (ec_epoch qc) pks (eleader (ec_epoch qc) n) (ec_blames qc) {} =
      Ok (Some S)" "nf < card S"
    by (auto simp: eleader_change_qc_valid_def bind_o_Ok_iff split: option.splits)
  from change_qc_loop_Ok [OF S(1)] S(2) eleader_blame_valid_signed
  show "nf < card (eb_signer ` set (ec_blames qc))"
    and "bl \<in> set (ec_blames qc) \<Longrightarrow> eb_epoch bl = ec_epoch qc \<and> blame_signed_ok ze pks bl"
    by (simp, blast)
qed

text \<open>Evidence of equivocation is not tied to an epoch: two blocks of the same height that a node
  signed as the leader of two different epochs, which an honest leader does when it leads again
  after a change of leader, are a valid equivocation blame against it in every epoch it leads.\<close>

theorem honest_leader_is_blamed:
  assumes "signing_ok (crypt (z_env ze)) pub" "pks i = Some (pub sk)" "pks s = Some (pub sks)"
    and "sk_sign (crypt (z_env ze)) sk (data_block_hash ze a) = Inr (ds_raw (db_sig a))"
    and "sk_sign (crypt (z_env ze)) sk (data_block_hash ze b) = Inr (ds_raw (db_sig b))"
    and "eleader (b_epoch a) n = i" "eleader (b_epoch b) n = i" "b_epoch a \<noteq> b_epoch b"
    and "b_height a = b_height b" "data_block_hash ze a \<noteq> data_block_hash ze b"
    and "blame_signed_bytes ze e Equivocation (EquivocationP (b_height a) a b) = Ok d"
    and "sk_sign (crypt (z_env ze)) sks d = Inr raw" "eleader e n = i"
  shows "eleader_blame_valid ze \<lparr>eb_epoch = e, eb_reason = Equivocation,
      eb_payload = EquivocationP (b_height a) a b, eb_signer = s, eb_raw = raw\<rparr> pks (eleader e n) = Ok True"
  using assms by (simp add: eleader_blame_valid_def equivocation_checks_def signing_ok_def)

theorem honest_leader_is_blamed_witness:
  "eleader_blame_valid ztest \<lparr>eb_epoch = 9, eb_reason = Equivocation,
      eb_payload = EquivocationP 3 (ztest_block 4 1 3 21021 [7]) (ztest_block 4 5 3 21021 [7]),
      eb_signer = 2, eb_raw = [2, ucast (ztest_hash (ZBlame \<lparr>bs_tag = TAG_ELEADER_BLAME, bs_epoch = 9,
        bs_reason_tag = TAG_REASON_EQUIVOCATION, bs_payload_bytes = equivocation_payload_bytes ztest
          (ztest_block 4 1 3 21021 [7]) (ztest_block 4 5 3 21021 [7])\<rparr>))]\<rparr>
      (\<lambda>i. if i < 4 then Some [of_nat i] else None) 1 = Ok True"
  using honest_leader_is_blamed [of ztest "\<lambda>k. k" "\<lambda>i. if i < 4 then Some [of_nat i] else None" 1 "[1]" 2 "[2]"
      "ztest_block 4 1 3 21021 [7]" "ztest_block 4 5 3 21021 [7]" 4 9
      "ztest_hash (ZBlame \<lparr>bs_tag = TAG_ELEADER_BLAME, bs_epoch = 9,
        bs_reason_tag = TAG_REASON_EQUIVOCATION, bs_payload_bytes = equivocation_payload_bytes ztest
          (ztest_block 4 1 3 21021 [7]) (ztest_block 4 5 3 21021 [7])\<rparr>)"]
  by (simp add: signing_ok_def eleader_def blame_signed_bytes_def ztest_block_def)

end
