(* ===== verification/ZeusCommit.thy ===== *)
theory ZeusCommit
  imports Commit ZeusChain
begin

section \<open>The commit tasks of Zeus\<close>

text \<open>
  \<^verbatim>\<open>server/zeus/phases/commit.rs\<close>: the task that applies Leto's commit rule to the signature chain
  and reports the attestations it commits (\<open>zc_fired\<close>), and the committer that emits the data
  blocks the replica hands over. Both are background tasks; the replica's own part of the commit is
  in the theory of the replica. Logging is left out.
\<close>

subsection \<open>The commit rule on the signature chain\<close>

record ('q, 'u) zeus_commit =
  zc_checked :: bool
  zc_commit_len :: nat
  zc_highest_element :: "attestation element"
  zc_highest_hash :: digest
  zc_unique :: 'u
  zc_queue :: 'q
  zc_fired :: "(round \<times> attestation) list"

definition zeus_commit_init ::
  "bool \<Rightarrow> ('s, 'tx, 'b) zenv \<Rightarrow> ('q, attestation) queue_ops \<Rightarrow> 'u count_ops \<Rightarrow> nat \<Rightarrow> nat \<Rightarrow> 's
    \<Rightarrow> ('q, 'u) zeus_commit outcome \<times> 's" where
  "zeus_commit_init checked ze qo uo n f s =
     (let (r, cs) = genesis_setup (z_env ze) (chain_state_new (z_env ze) s);
          g = element_genesis START_ID;
          gh = ser_and_hash (crypt (z_env ze)) (cd_element (z_env ze)) g
      in (bind_o r (\<lambda>_. Ok
           \<lparr>zc_checked = checked, zc_commit_len = (n + f + 1) div 2, zc_highest_element = g, zc_highest_hash = gh,
            zc_unique = lhm_insert uo (el_proposer g) 1 (lhm_empty uo),
            zc_queue = lhm_insert qo gh g (lhm_empty qo), zc_fired = []\<rparr>), cs_db cs))"

partial_function (option) zeus_commit_walk ::
  "('s, 'tx, 'b) zenv \<Rightarrow> ('q, attestation) queue_ops \<Rightarrow> 'u count_ops \<Rightarrow> 's \<Rightarrow> ('q, 'u) zeus_commit
    \<Rightarrow> attestation element \<Rightarrow> digest \<Rightarrow> 'q \<Rightarrow> 'u \<Rightarrow> (bool \<times> 'q \<times> 'u) option" where
  "zeus_commit_walk ze qo uo s zc head head_hash lq lu =
     (if el_round (zc_highest_element zc) < el_round head then
        if (case lhm_back qo (zc_queue zc) of None \<Rightarrow> False | Some (h, _) \<Rightarrow> h = head_hash)
        then Some (True, lq, lu)
        else if head_hash = zc_highest_hash zc then Some (False, lq, lu)
        else
          (let lu' = lhm_bump uo (el_proposer head) 1 lu;
               lq' = lhm_insert qo head_hash head lq
           in case db_read (store (z_env ze)) (cd_element (z_env ze)) s head_hash of
                Ok (Some parent) \<Rightarrow>
                  zeus_commit_walk ze qo uo s zc parent (parent_hash (el_proposal parent)) lq' lu'
              | _ \<Rightarrow> Some (False, lq', lu'))
      else Some (False, lq, lu))"

text \<open>The attestation of a batch with the greatest data height, the last of several.\<close>

definition best_att :: "attestation list \<Rightarrow> attestation option" where
  "best_att atts = foldl max_att None atts"

text \<open>Unlike Leto the task does not assert that the count it lowers is positive: in a build with
  overflow checks a count of zero is a panic, in a release build it wraps.\<close>

partial_function (option) zeus_commit_loop ::
  "('q, attestation) queue_ops \<Rightarrow> 'u count_ops \<Rightarrow> ('q, 'u) zeus_commit
    \<Rightarrow> (unit outcome \<times> ('q, 'u) zeus_commit) option" where
  "zeus_commit_loop qo uo zc =
     (if zc_commit_len zc \<le> lhm_len uo (zc_unique zc) then
        (case lhm_pop_front qo (zc_queue zc) of
           None \<Rightarrow> Some (Panic, zc)
         | Some ((h, el), q) \<Rightarrow>
             (case lhm_get uo (zc_unique zc) (el_proposer el) of
                None \<Rightarrow> Some (Panic, zc\<lparr>zc_queue := q\<rparr>)
              | Some c \<Rightarrow>
                  if c = 0 \<and> zc_checked zc then Some (Panic, zc\<lparr>zc_queue := q\<rparr>)
                  else
                    let c' = (if c = 0 then 2 ^ 64 - 1 else c - 1);
                        u = lhm_modify uo (el_proposer el) (if c = 0 then (\<lambda>_. c') else (\<lambda>c. c - 1)) (zc_unique zc);
                        u' = (if c' = 0 then lhm_remove uo (el_proposer el) u else u);
                        fired = (case best_att (el_batch el) of
                                   None \<Rightarrow> zc_fired zc
                                 | Some a \<Rightarrow> zc_fired zc @ [(el_round el, a)])
                    in zeus_commit_loop qo uo
                         (zc\<lparr>zc_queue := q, zc_unique := u', zc_fired := fired,
                             zc_highest_hash := h, zc_highest_element := el\<rparr>)))
      else Some (Ok (), zc))"

definition zeus_end_round ::
  "('s, 'tx, 'b) zenv \<Rightarrow> ('q, attestation) queue_ops \<Rightarrow> 'u count_ops \<Rightarrow> 's \<Rightarrow> digest
    \<Rightarrow> attestation element \<Rightarrow> ('q, 'u) zeus_commit \<Rightarrow> (unit outcome \<times> ('q, 'u) zeus_commit) option" where
  "zeus_end_round ze qo uo s h el zc =
     (if el_round el = 0 then Some (Ok (), zc)
      else case zeus_commit_walk ze qo uo s zc el h (lhm_empty qo) (lhm_empty uo) of
        None \<Rightarrow> None
      | Some (connected, lq, lu) \<Rightarrow>
          zeus_commit_loop qo uo
            (if \<not> connected then zc\<lparr>zc_queue := lq, zc_unique := lu\<rparr>
             else zc\<lparr>zc_queue := lhm_extend qo (zc_queue zc) lq,
                     zc_unique := foldl (\<lambda>u x. lhm_bump uo (fst x) (snd x) u) (zc_unique zc) (lhm_iter uo lu)\<rparr>))"

subsection \<open>The committer\<close>

datatype 'tx commit_item = Resident "'tx data_block" | Spilled digest

record 'tx committer =
  ct_items :: "'tx commit_item list"
  ct_stopped :: bool
  ct_open :: bool
  ct_emit_dp :: bool
  ct_tx_count :: nat
  ct_committed :: "'tx batch list"
  ct_to_batcher :: "'tx batcher_msg list"

text \<open>The body of the loop for a block that was read; the emitted height is raised last.\<close>

definition committer_emit ::
  "'tx data_block \<Rightarrow> 'tx committer \<Rightarrow> ('s, 'tx, 'b) data_block_db
    \<Rightarrow> 'tx committer \<times> ('s, 'tx, 'b) data_block_db" where
  "committer_emit b ct db =
     (if b_payload b = [] then (ct, db_emit (b_height b) db)
      else
        let ct1 = ct\<lparr>ct_tx_count := (if ct_emit_dp ct then ct_tx_count ct + length (b_payload b)
                                     else ct_tx_count ct),
                     ct_to_batcher := ct_to_batcher ct @ [Committed (b_payload b) (b_height b)]\<rparr>
        in if ct_open ct1
           then (ct1\<lparr>ct_committed := ct_committed ct1 @ [b_payload b]\<rparr>, db_emit (b_height b) db)
           else (ct1\<lparr>ct_stopped := True\<rparr>, db))"

text \<open>One turn: the next item is emitted, skipped when its read fails, or waited for while its
  spilled payload has not reached the disk.\<close>

definition committer_step ::
  "('s, 'tx, 'b) zenv \<Rightarrow> 'tx committer \<times> ('s, 'tx, 'b) data_block_db
    \<Rightarrow> 'tx committer \<times> ('s, 'tx, 'b) data_block_db" where
  "committer_step ze x = (case x of (ct, db) \<Rightarrow>
     if ct_stopped ct then (ct, db)
     else case ct_items ct of
       [] \<Rightarrow> (ct, db)
     | Resident b # rest \<Rightarrow> committer_emit b (ct\<lparr>ct_items := rest\<rparr>) db
     | Spilled h # rest \<Rightarrow>
         (case db_notify_read (store (z_env ze)) (cd_block ze) (dd_disk db) h of
            Ok (Some b) \<Rightarrow> committer_emit b (ct\<lparr>ct_items := rest\<rparr>) db
          | Ok None \<Rightarrow> (ct, db)
          | _ \<Rightarrow> (ct\<lparr>ct_items := rest\<rparr>, db)))"

subsection \<open>The rule is Leto's\<close>

text \<open>What Leto's task reports to its batcher, as the attestations Zeus reports.\<close>

fun fired_of :: "attestation batcher_msg \<Rightarrow> (round \<times> attestation) list" where
  "fired_of (Committed b r) = (case best_att b of None \<Rightarrow> [] | Some a \<Rightarrow> [(r, a)])"
| "fired_of _ = []"

definition zc_matches :: "('q, 'u) zeus_commit \<Rightarrow> ('q, 'u, attestation) commit_ctx \<Rightarrow> bool" where
  "zc_matches zc cm \<longleftrightarrow>
     zc_commit_len zc = cm_commit_len cm \<and> zc_highest_element zc = cm_highest_element cm \<and>
     zc_highest_hash zc = cm_highest_hash cm \<and> zc_unique zc = cm_unique cm \<and>
     zc_queue zc = cm_queue cm \<and> zc_fired zc = concat (map fired_of (cm_to_batcher cm)) \<and>
     cm_commit_open cm"

lemmas zeus_walk_induct = zeus_commit_walk.raw_induct [rotated, consumes 1, case_names step]
lemmas leto_walk_induct = commit_walk.raw_induct [rotated, consumes 1, case_names step]
lemmas zeus_loop_induct = zeus_commit_loop.raw_induct [rotated, consumes 1, case_names step]
lemmas leto_loop_induct = commit_loop.raw_induct [rotated, consumes 1, case_names step]

lemma zeus_walk_imp_walk:
  "zeus_commit_walk ze qo uo s zc head h lq lu = Some r \<Longrightarrow> zc_matches zc cm \<Longrightarrow>
     commit_walk (z_env ze) qo uo s cm head h lq lu = Some r"
proof (induction ze qo uo s zc head h lq lu r rule: zeus_walk_induct)
  case (step walk ze qo uo s zc head h lq lu r)
  from step.prems(1) step.hyps step.IH [OF _ step.prems] show ?case
    by (subst commit_walk.simps)
       (auto simp: Let_def zc_matches_def split: if_splits option.splits outcome.splits)
qed

lemma walk_imp_zeus_walk:
  "commit_walk e qo uo s cm head h lq lu = Some r \<Longrightarrow> e = z_env ze \<Longrightarrow> zc_matches zc cm \<Longrightarrow>
     zeus_commit_walk ze qo uo s zc head h lq lu = Some r"
proof (induction e qo uo s cm head h lq lu r rule: leto_walk_induct)
  case (step walk e qo uo s cm head h lq lu r)
  from step.prems step.hyps step.IH [OF _ step.prems] show ?case
    by (subst zeus_commit_walk.simps)
       (auto simp: Let_def zc_matches_def split: if_splits option.splits outcome.splits)
qed

lemma zeus_walk_eq:
  "zc_matches zc cm \<Longrightarrow>
     zeus_commit_walk ze qo uo s zc head h lq lu = commit_walk (z_env ze) qo uo s cm head h lq lu"
  using zeus_walk_imp_walk walk_imp_zeus_walk [OF _ refl] by (metis not_Some_eq)

text \<open>What a matching state needs besides: a build that checks, or counts that are never zero.\<close>

definition zc_counts :: "'u count_ops \<Rightarrow> ('q, 'u) zeus_commit \<Rightarrow> bool" where
  "zc_counts uo zc \<longleftrightarrow> zc_checked zc \<or> lhm_ok uo \<and> counts_pos uo (zc_unique zc)"

lemma zc_counts_nonzero:
  "zc_counts uo zc \<Longrightarrow> lhm_get uo (zc_unique zc) k = Some c \<Longrightarrow> c = 0 \<Longrightarrow> zc_checked zc"
  by (auto simp: zc_counts_def counts_pos_def)

text \<open>One turn of the loop that commits an element, on both sides.\<close>

definition zeus_front ::
  "'u count_ops \<Rightarrow> digest \<Rightarrow> attestation element \<Rightarrow> 'q \<Rightarrow> bool \<Rightarrow> ('q, 'u) zeus_commit \<Rightarrow> ('q, 'u) zeus_commit" where
  "zeus_front uo h el q lst zc =
     (let u = lhm_modify uo (el_proposer el) (\<lambda>c. c - 1) (zc_unique zc) in
      zc\<lparr>zc_queue := q, zc_unique := (if lst then lhm_remove uo (el_proposer el) u else u),
         zc_fired := (case best_att (el_batch el) of None \<Rightarrow> zc_fired zc | Some a \<Rightarrow> zc_fired zc @ [(el_round el, a)]),
         zc_highest_hash := h, zc_highest_element := el\<rparr>)"

lemma zeus_front_matches:
  "zc_matches zc cm \<Longrightarrow> zc_matches (zeus_front uo h el q lst zc) (commit_front uo h el q lst cm)"
  by (auto simp: zc_matches_def zeus_front_def commit_front_def Let_def split: option.split)

lemma zeus_front_counts:
  "zc_counts uo zc \<Longrightarrow> lhm_get uo (zc_unique zc) (el_proposer el) = Some c \<Longrightarrow>
     zc_counts uo (zeus_front uo h el q (c - 1 = 0) zc)"
  using counts_pos_decrement [of uo "zc_unique zc" "el_proposer el" c]
  by (auto simp: zc_counts_def zeus_front_def Let_def)

lemma zeus_loop_imp_loop:
  "zeus_commit_loop qo uo zc = Some (r, zc') \<Longrightarrow> zc_matches zc cm \<Longrightarrow> zc_counts uo zc \<Longrightarrow>
     \<exists>cm'. commit_loop qo uo cm = Some (r, cm') \<and> zc_matches zc' cm' \<and> zc_counts uo zc'"
proof (induction qo uo zc "(r, zc')" arbitrary: cm rule: zeus_loop_induct)
  case (step loop qo uo zc)
  note m = step.prems(1) and cp = step.prems(2)
  show ?case
  proof (cases "zc_commit_len zc \<le> lhm_len uo (zc_unique zc)")
    case False
    with step.hyps m cp show ?thesis by (subst commit_loop.simps) (auto simp: zc_matches_def)
  next
    case len: True
    show ?thesis
    proof (cases "lhm_pop_front qo (zc_queue zc)")
      case None
      with step.hyps m cp len show ?thesis by (subst commit_loop.simps) (auto simp: zc_matches_def)
    next
      case (Some x)
      obtain h el q where x: "x = ((h, el), q)" by (metis prod.exhaust)
      show ?thesis
      proof (cases "lhm_get uo (zc_unique zc) (el_proposer el)")
        case None
        with step.hyps m cp len Some x show ?thesis
          by (subst commit_loop.simps) (auto simp: zc_matches_def zc_counts_def)
      next
        case c: (Some c)
        show ?thesis
        proof (cases "c = 0")
          case True
          with step.hyps m cp len Some x c zc_counts_nonzero [OF cp c] show ?thesis
            by (subst commit_loop.simps) (auto simp: zc_matches_def zc_counts_def)
        next
          case False
          let ?zc = "zeus_front uo h el q (c - 1 = 0) zc" and ?cm = "commit_front uo h el q (c - 1 = 0) cm"
          have "loop qo uo ?zc = Some (r, zc')"
            using step.hyps len Some x c False
            by (cases "c - 1 = 0") (simp_all add: Let_def zeus_front_def)
          then obtain cm' where "commit_loop qo uo ?cm = Some (r, cm')" "zc_matches zc' cm'" "zc_counts uo zc'"
            using step.hyps(1) zeus_front_matches [OF m] zeus_front_counts [OF cp c] by blast
          moreover have "commit_loop qo uo cm = commit_loop qo uo ?cm"
            using m len Some x c False
            by (subst commit_loop.simps) (simp add: Let_def zc_matches_def commit_front_def)
          ultimately show ?thesis by auto
        qed
      qed
    qed
  qed
qed

lemma loop_imp_zeus_loop:
  "commit_loop qo uo cm = Some y \<Longrightarrow> zc_matches zc cm \<Longrightarrow> zc_counts uo zc \<Longrightarrow> zeus_commit_loop qo uo zc \<noteq> None"
proof (induction qo uo cm y arbitrary: zc rule: leto_loop_induct)
  case (step loop qo uo cm y)
  note m = step.prems(1) and cp = step.prems(2)
  show ?case
  proof (cases "zc_commit_len zc \<le> lhm_len uo (zc_unique zc) \<and> lhm_pop_front qo (zc_queue zc) \<noteq> None")
    case False
    then show ?thesis by (subst zeus_commit_loop.simps) (auto simp del: not_None_eq)
  next
    case True
    then obtain h el q where x: "lhm_pop_front qo (zc_queue zc) = Some ((h, el), q)" by (metis not_None_eq prod.exhaust)
    show ?thesis
    proof (cases "\<exists>c. lhm_get uo (zc_unique zc) (el_proposer el) = Some c \<and> c \<noteq> 0")
      case False
      with x zc_counts_nonzero [OF cp, of "el_proposer el"] show ?thesis
        by (subst zeus_commit_loop.simps) (auto simp del: not_None_eq split: option.split)
    next
      case cc: True
      then obtain c where c: "lhm_get uo (zc_unique zc) (el_proposer el) = Some c" "c \<noteq> 0" by blast
      let ?zc = "zeus_front uo h el q (c - 1 = 0) zc" and ?cm = "commit_front uo h el q (c - 1 = 0) cm"
      have "loop qo uo ?cm = Some y"
        using step.hyps m True x c by (auto simp: zc_matches_def Let_def commit_front_def)
      then have "zeus_commit_loop qo uo ?zc \<noteq> None"
        using step.IH zeus_front_matches [OF m] zeus_front_counts [OF cp c(1)] by blast
      moreover have "zeus_commit_loop qo uo zc = zeus_commit_loop qo uo ?zc"
        using True x c by (subst zeus_commit_loop.simps) (simp add: Let_def zeus_front_def)
      ultimately show ?thesis by simp
    qed
  qed
qed

lemma zeus_loop_matches:
  assumes "zc_matches zc cm" "zc_counts uo zc"
  shows "rel_option (\<lambda>(r, zc') (r', cm'). r = r' \<and> zc_matches zc' cm' \<and> zc_counts uo zc')
    (zeus_commit_loop qo uo zc) (commit_loop qo uo cm)"
proof (cases "zeus_commit_loop qo uo zc")
  case None
  with assms loop_imp_zeus_loop [of qo uo cm _ zc] have "commit_loop qo uo cm = None"
    by (cases "commit_loop qo uo cm") auto
  with None show ?thesis by simp
next
  case (Some x)
  obtain r zc' where x: "x = (r, zc')" by (cases x)
  with Some zeus_loop_imp_loop [OF _ assms] obtain cm' where
    "commit_loop qo uo cm = Some (r, cm')" "zc_matches zc' cm'" "zc_counts uo zc'" by blast
  with Some x show ?thesis by simp
qed

text \<open>The walk collects counts of at least one.\<close>

lemma zeus_walk_pos:
  "zeus_commit_walk ze qo uo s zc head h lq lu = Some (con, lq', lu') \<Longrightarrow> lhm_ok uo \<Longrightarrow> iter_pos uo lu \<Longrightarrow> iter_pos uo lu'"
proof (induction ze qo uo s zc head h lq lu "(con, lq', lu')" rule: zeus_walk_induct)
  case (step walk ze qo uo s zc head h lq lu)
  from step.hyps step.prems iter_pos_bump [OF step.prems, of "el_proposer head"] show ?case
    by (auto simp: Let_def split: if_splits option.splits outcome.splits)
qed

text \<open>C15. Zeus's commit task is Leto's: at every end of round, from matching states, the two tasks
  return or hang alike, with the same result, and reach matching states, in which Zeus has reported
  exactly the best attestations of the batches Leto has committed, with their rounds, in order. In a
  release build, where lowering a count of zero does not panic, this is so while no count is zero,
  and none becomes zero.\<close>

theorem zeus_commits_as_leto:
  assumes "zc_matches zc cm" "zc_counts uo zc"
  shows "rel_option (\<lambda>(r, zc') (r', cm'). r = r' \<and> zc_matches zc' cm' \<and> zc_counts uo zc')
    (zeus_end_round ze qo uo s h el zc) (end_round (z_env ze) qo uo s h el cm)"
proof -
  have loops: "rel_option (\<lambda>(r, zc') (r', cm'). r = r' \<and> zc_matches zc' cm' \<and> zc_counts uo zc')
      (zeus_commit_loop qo uo (if \<not> con then zc\<lparr>zc_queue := lq, zc_unique := lu\<rparr>
         else zc\<lparr>zc_queue := lhm_extend qo (zc_queue zc) lq,
              zc_unique := foldl (\<lambda>u x. lhm_bump uo (fst x) (snd x) u) (zc_unique zc) (lhm_iter uo lu)\<rparr>))
      (commit_loop qo uo (if con then extend_queue qo uo lq lu cm else replace_queue qo lq lu cm))"
    if "lhm_ok uo \<longrightarrow> iter_pos uo lu" for con lq lu
    by (rule zeus_loop_matches)
       (use assms that iter_pos_counts counts_pos_merge [of uo "zc_unique zc" "lhm_iter uo lu"] in
         \<open>auto simp: zc_matches_def zc_counts_def extend_queue_def replace_queue_def iter_pos_def Let_def\<close>)
  have w: "zeus_commit_walk ze qo uo s zc el h (lhm_empty qo) (lhm_empty uo) =
      commit_walk (z_env ze) qo uo s cm el h (lhm_empty qo) (lhm_empty uo)"
    by (rule zeus_walk_eq [OF assms(1)])
  show ?thesis
  proof (cases "commit_walk (z_env ze) qo uo s cm el h (lhm_empty qo) (lhm_empty uo)")
    case None
    with w assms show ?thesis by (simp add: zeus_end_round_def end_round_def)
  next
    case (Some x)
    obtain con lq lu where x: "x = (con, lq, lu)" by (cases x)
    have "lhm_ok uo \<longrightarrow> iter_pos uo lu" using zeus_walk_pos iter_pos_empty w Some x by metis
    with w assms Some x loops [where con = con and lq = lq and lu = lu] show ?thesis
      by (simp add: zeus_end_round_def end_round_def)
  qed
qed

text \<open>The two tasks start in matching states, with a count of one.\<close>

lemma zeus_commit_init_matches:
  assumes "fst (zeus_commit_init checked ze qo uo n f s) = Ok zc"
    and "fst (commit_init (z_env ze) qo uo n f my_id metrics s) = Ok cm"
  shows "zc_matches zc cm" "lhm_ok uo \<Longrightarrow> zc_counts uo zc"
proof -
  show "zc_matches zc cm"
    using assms by (auto simp: zeus_commit_init_def commit_init_def Let_def case_prod_beta bind_o_Ok_iff zc_matches_def)
  assume ok: "lhm_ok uo"
  have "iter_pos uo (lhm_insert uo i 1 (lhm_empty uo))" for i
    by (simp add: iter_pos_def lhm_okD(1,2) [OF ok] back_insert_def)
  from iter_pos_counts [OF ok this] assms(1) ok show "zc_counts uo zc"
    by (auto simp: zeus_commit_init_def Let_def case_prod_beta bind_o_Ok_iff zc_counts_def)
qed

lemma ztest_content: "content_addressed (crypt (z_env ztest)) (store (z_env ztest)) Map.empty"
  by (simp add: content_addressed_def ztest_def ztest_env_def ztest_store_def)

definition ztest_element :: "attestation element" where
  "ztest_element =
     \<lparr>el_proposal = \<lparr>p_block = \<lparr>batch_hash = 101, prev_hash = 1000\<rparr>, p_qc = None, p_round = 1\<rparr>,
      el_auth = \<lparr>sig_raw = [], sig_id = 1\<rparr>, el_batch = [ztest_att 1 1 20000 0 0 1000]\<rparr>"

theorem zeus_commits_as_leto_witness:
  "\<exists>zc cm. fst (zeus_commit_init False ztest lhm_list lhm_list 4 1 Map.empty) = Ok zc \<and>
     rel_option (\<lambda>(r, zc') (r', cm'). r = r' \<and> zc_matches zc' cm' \<and> zc_counts lhm_list zc')
       (zeus_end_round ztest lhm_list lhm_list [1111 \<mapsto> ZElement ztest_element] 1111 ztest_element zc)
       (end_round (z_env ztest) lhm_list lhm_list [1111 \<mapsto> ZElement ztest_element] 1111 ztest_element cm)"
proof -
  have g: "fst (genesis_setup (z_env ztest) (chain_state_new (z_env ztest) Map.empty)) = Ok True"
    using genesis_setup_ok(1) [OF _ ztest_content] ztest_ok by (simp add: zenv_ok_def)
  obtain zc where zc: "fst (zeus_commit_init False ztest lhm_list lhm_list 4 1 Map.empty) = Ok zc"
    using g by (auto simp: zeus_commit_init_def Let_def case_prod_beta)
  obtain cm where cm: "fst (commit_init (z_env ztest) lhm_list lhm_list 4 1 0 0 Map.empty) = Ok cm"
    using g by (auto simp: commit_init_def Let_def case_prod_beta)
  show ?thesis
    by (intro exI conjI) (rule zc, rule zeus_commits_as_leto, rule zeus_commit_init_matches(1) [OF zc cm],
      rule zeus_commit_init_matches(2) [OF zc cm lhm_list_ok])
qed

end
