(* ===== verification/Zeus.thy ===== *)
theory Zeus
  imports ZeusRound ZeusCommit
begin

section \<open>The Zeus replica\<close>

text \<open>
  \<^verbatim>\<open>server/zeus/core.rs\<close> and \<^verbatim>\<open>server/zeus/phases\<close>: the replica's state, every handler of both
  planes and one turn of the \<^verbatim>\<open>select!\<close> loop. Effects are logs in the state: \<open>z_out\<close> is what was
  sent (by the reliable sender or, for data proposals, the best-effort one), \<open>z_to_batcher\<close> and
  \<open>z_to_commit\<close> the channels to the batcher and the commit task; the committer, which shares the
  emitted height with the store, is the field \<open>z_ct\<close>. The interval timers are kept as in Leto; the
  data timer is armed (with its kind) or not. A handler that follows hash links may not return:
  its result \<open>None\<close> is that it never does.

  Heights and epochs are \<^verbatim>\<open>u64\<close> and may be what a peer claimed, so that the next one need not exist.
  Each such addition is cut to 64 bits and leaves a mark, \<open>z_overflow\<close>: in a build with overflow checks
  (\<open>zp_checked\<close>) the turn that leaves the mark is a crash at that addition (what the model computes
  after it is not reached), in a release build it goes on with the wrapped value. The rounds, which
  start at 1 and go up by one per turn, stay within 64 bits.
\<close>

datatype data_timer_kind = TimerDataRoundEntry | RleaderWaitingFresh

record ('tx, 'c) znet =
  zn_bcast :: "nat \<Rightarrow> node_id list \<Rightarrow> 'tx zeus_msg \<Rightarrow> 'c list"
  zn_send :: "nat \<Rightarrow> node_id \<Rightarrow> 'tx zeus_msg \<Rightarrow> 'c option"

record ('s, 'tx, 'b, 'c, 'g) zeus_params =
  zp_env :: "('s, 'tx, 'b) zenv"
  zp_net :: "('tx, 'c) znet"
  zp_pick :: "'g chooser"
  zp_order :: "node_id set \<Rightarrow> node_id list"
  zp_gc :: nat
  zp_checked :: bool

record ('s, 'tx, 'b, 'c, 'g) zeus =
  z_id :: node_id
  z_secret :: secret_key
  z_system :: pk_map
  z_peers :: "node_id list"
  z_nodes :: nat
  z_faults :: nat
  z_loopback :: "'tx zeus_msg list"
  z_loopback_open :: bool
  z_to_batcher :: "'tx batcher_msg list"
  z_ct :: "'tx committer"
  z_to_commit :: "(digest \<times> attestation element) list"
  z_commit_open :: bool
  z_out :: "(node_id list \<times> 'tx zeus_msg) list"
  z_cs :: "('s, attestation) chain_state"
  z_lc :: "'g leader_context"
  z_rs :: "('tx, 'c) zeus_round_state"
  z_timer :: round_timer
  z_sig_epoch :: nat
  z_epoch :: nat
  z_chain :: "'tx data_chain_state"
  z_db :: "('s, 'tx, 'b) data_block_db"
  z_pend_att :: "'tx pending_attestations"
  z_qcs :: "'tx admitted_change_qcs"
  z_blames :: "nat \<rightharpoonup> 'tx eleader_blame list"
  z_last_seen :: "'tx data_block"
  z_lock :: commit_lock
  z_latest :: "'tx data_block option"
  z_last_att :: nat
  z_dtimer :: "data_timer_kind option"
  z_waiting :: bool
  z_wakeup :: bool
  z_committed_high :: nat
  z_last_committed :: digest
  z_proposed :: nat
  z_last_proposed :: "digest option"
  z_overflow :: bool

type_synonym ('s, 'tx, 'b, 'c, 'g, 'r) zhandler =
  "('s, 'tx, 'b, 'c, 'g) zeus \<Rightarrow> 'r outcome \<times> ('s, 'tx, 'b, 'c, 'g) zeus"

type_synonym ('s, 'tx, 'b, 'c, 'g, 'r) zloop =
  "('s, 'tx, 'b, 'c, 'g) zeus \<Rightarrow> ('r outcome \<times> ('s, 'tx, 'b, 'c, 'g) zeus) option"

text \<open>Sequencing of handlers that may not return.\<close>

definition bind_z ::
  "('z \<Rightarrow> ('a outcome \<times> 'z) option) \<Rightarrow> ('a \<Rightarrow> 'z \<Rightarrow> ('b outcome \<times> 'z) option) \<Rightarrow> 'z \<Rightarrow> ('b outcome \<times> 'z) option" where
  "bind_z m k z = Option.bind (m z) (\<lambda>x. case x of
     (Ok a, z') \<Rightarrow> k a z' | (Err e, z') \<Rightarrow> Some (Err e, z') | (Panic, z') \<Rightarrow> Some (Panic, z'))"

definition ret :: "('z \<Rightarrow> 'r outcome \<times> 'z) \<Rightarrow> 'z \<Rightarrow> ('r outcome \<times> 'z) option" where
  "ret h z = Some (h z)"

definition STEADY_STATE_SIG_EPOCH :: nat where
  "STEADY_STATE_SIG_EPOCH = 1"

definition INITIAL_DATA_EPOCH :: nat where
  "INITIAL_DATA_EPOCH = 1"

text \<open>The state \<^verbatim>\<open>spawn\<close> builds. The sentinel certificate admits the step from epoch 0 to 1.\<close>

definition zeus_spawn ::
  "('s, 'tx, 'b, 'c, 'g) zeus_params \<Rightarrow> node_id \<Rightarrow> secret_key \<Rightarrow> pk_map \<Rightarrow> node_id list \<Rightarrow> config
    \<Rightarrow> nat \<Rightarrow> bool \<Rightarrow> 'g \<Rightarrow> 's \<Rightarrow> 's \<Rightarrow> ('s, 'tx, 'b, 'c, 'g) zeus outcome" where
  "zeus_spawn P my_id sk sys all_peers conf delay_in_ms emit_dp seed s data_s =
     bind_o (ok_or (NotInConfig my_id) (get_party conf my_id)) (\<lambda>me.
     bind_o (get_consensus_peers conf my_id) (\<lambda>peers.
     bind_o (leader_new (zp_pick P) seed (get_all_ids (zp_order P) conf) (num_faults conf)) (\<lambda>lc.
     bind_o (interval (u64 (zp_checked P) (4 * delay_in_ms))) (\<lambda>_.
     Ok \<lparr>z_id = my_id, z_secret = sk, z_system = sys,
         z_peers = filter (\<lambda>x. x \<noteq> my_id) all_peers,
         z_nodes = num_nodes conf, z_faults = num_faults conf,
         z_loopback = [], z_loopback_open = True, z_to_batcher = [],
         z_ct = \<lparr>ct_items = [], ct_stopped = False, ct_open = True, ct_emit_dp = emit_dp,
                 ct_tx_count = 0, ct_committed = [], ct_to_batcher = []\<rparr>,
         z_to_commit = [], z_commit_open = True, z_out = [],
         z_cs = chain_state_new (z_env (zp_env P)) s, z_lc = lc, z_rs = zr_new (num_nodes conf),
         z_timer = \<lparr>tm_resets = 0, tm_enabled = True\<rparr>, z_sig_epoch = STEADY_STATE_SIG_EPOCH,
         z_epoch = INITIAL_DATA_EPOCH, z_chain = data_chain_genesis (zp_env P),
         z_db = db_with_emitted_high (zp_env P) data_s 0, z_pend_att = Map.empty,
         z_qcs = [0 \<mapsto> \<lparr>ec_epoch = 0, ec_blames = []\<rparr>], z_blames = Map.empty,
         z_last_seen = data_genesis, z_lock = [], z_latest = None, z_last_att = 0,
         z_dtimer = None, z_waiting = False, z_wakeup = False, z_committed_high = 0,
         z_last_committed = data_block_hash (zp_env P) data_genesis,
         z_proposed = 0, z_last_proposed = None, z_overflow = False\<rparr>))))"

definition is_eleader :: "('s, 'tx, 'b, 'c, 'g) zeus \<Rightarrow> bool" where
  "is_eleader z \<longleftrightarrow> eleader (z_epoch z) (z_nodes z) = z_id z"

definition rleader :: "('s, 'tx, 'b, 'c, 'g) zeus \<Rightarrow> node_id" where
  "rleader z = leader (z_lc z)"

definition arm_data_timer ::
  "data_timer_kind \<Rightarrow> ('s, 'tx, 'b, 'c, 'g) zeus \<Rightarrow> ('s, 'tx, 'b, 'c, 'g) zeus" where
  "arm_data_timer kind z = z\<lparr>z_dtimer := Some kind\<rparr>"

definition disarm_data_timer :: "('s, 'tx, 'b, 'c, 'g) zeus \<Rightarrow> ('s, 'tx, 'b, 'c, 'g) zeus" where
  "disarm_data_timer z = z\<lparr>z_dtimer := None\<rparr>"

definition latest_height :: "('s, 'tx, 'b, 'c, 'g) zeus \<Rightarrow> nat" where
  "latest_height z = (case z_latest z of Some b \<Rightarrow> b_height b | None \<Rightarrow> 0)"

subsection \<open>Sending\<close>

definition z_broadcast ::
  "('s, 'tx, 'b, 'c, 'g) zeus_params \<Rightarrow> 'tx zeus_msg \<Rightarrow> ('s, 'tx, 'b, 'c, 'g) zeus \<Rightarrow> ('s, 'tx, 'b, 'c, 'g) zeus" where
  "z_broadcast P m z =
     z\<lparr>z_rs := zr_add_handlers (zn_bcast (zp_net P) (length (z_out z)) (z_peers z) m) (z_rs z),
       z_out := z_out z @ [(z_peers z, m)]\<rparr>"

definition z_send ::
  "('s, 'tx, 'b, 'c, 'g) zeus_params \<Rightarrow> node_id \<Rightarrow> 'tx zeus_msg \<Rightarrow> ('s, 'tx, 'b, 'c, 'g) zeus \<Rightarrow> ('s, 'tx, 'b, 'c, 'g) zeus" where
  "z_send P i m z =
     (let z1 = z\<lparr>z_out := z_out z @ [([i], m)]\<rparr>
      in case zn_send (zp_net P) (length (z_out z)) i m of
           None \<Rightarrow> z1
         | Some h \<Rightarrow> z1\<lparr>z_rs := zr_add_handler h (z_rs z1)\<rparr>)"

definition data_broadcast ::
  "'tx zeus_msg \<Rightarrow> ('s, 'tx, 'b, 'c, 'g) zeus \<Rightarrow> ('s, 'tx, 'b, 'c, 'g) zeus" where
  "data_broadcast m z = z\<lparr>z_out := z_out z @ [(z_peers z, m)]\<rparr>"

definition z_send_loopback :: "'tx zeus_msg \<Rightarrow> ('s, 'tx, 'b, 'c, 'g, unit) zhandler" where
  "z_send_loopback m z =
     (if z_loopback_open z then (Ok (), z\<lparr>z_loopback := z_loopback z @ [m]\<rparr>) else (Err ChannelClosed, z))"

text \<open>An increment whose exact result is \<open>n\<close>: its 64-bit value, and the mark it leaves when \<open>n\<close> does
  not fit.\<close>

definition incremented :: "nat \<Rightarrow> nat" where
  "incremented n = (if n < 2 ^ 64 then n else 0)"

definition mark_overflow :: "nat \<Rightarrow> ('s, 'tx, 'b, 'c, 'g) zeus \<Rightarrow> ('s, 'tx, 'b, 'c, 'g) zeus" where
  "mark_overflow n z = (if n < 2 ^ 64 then z else z\<lparr>z_overflow := True\<rparr>)"

definition prime_batcher :: "node_id \<Rightarrow> ('s, 'tx, 'b, 'c, 'g) zeus \<Rightarrow> ('s, 'tx, 'b, 'c, 'g) zeus" where
  "prime_batcher l z =
     (let next = z_proposed z + 1; z1 = mark_overflow next z
      in z1\<lparr>z_to_batcher := z_to_batcher z1 @ [NewRound l (incremented next)]\<rparr>)"

definition broadcast_data_request ::
  "('s, 'tx, 'b, 'c, 'g) zeus_params \<Rightarrow> digest \<Rightarrow> ('s, 'tx, 'b, 'c, 'g) zeus \<Rightarrow> ('s, 'tx, 'b, 'c, 'g) zeus" where
  "broadcast_data_request P h z = z_broadcast P (DataRequest h (z_id z)) z"

subsection \<open>Signature plane\<close>

definition make_attestation ::
  "('s, 'tx, 'b, 'c, 'g) zeus_params \<Rightarrow> round \<Rightarrow> ('s, 'tx, 'b, 'c, 'g) zeus \<Rightarrow> attestation outcome" where
  "make_attestation P r z =
     (let h = dc_head_hash (z_chain z);
          en = \<lparr>ae_epoch_s = z_sig_epoch z, ae_round_s = r, ae_block_hash = h,
                ae_block_height = dc_head_height (z_chain z),
                ae_block_epoch = (case db_epoch_of h (z_db z) of Some e \<Rightarrow> e | None \<Rightarrow> 0),
                ae_parent_s = highest_hash (z_cs z)\<rparr>;
          eh = ser_and_hash (crypt (z_env (zp_env P))) (cd_aenv (zp_env P)) en
      in bind_o (of_result (sk_sign (crypt (z_env (zp_env P))) (z_secret z) eh)) (\<lambda>raw.
         Ok (attestation_new en \<lparr>as_raw = raw, as_signer = z_id z\<rparr>)))"

definition sig_proposal ::
  "('s, 'tx, 'b, 'c, 'g) zeus_params \<Rightarrow> round \<Rightarrow> attestation \<Rightarrow> ('s, 'tx, 'b, 'c, 'g) zeus \<Rightarrow> proposal" where
  "sig_proposal P r att z =
     \<lparr>p_block = \<lparr>batch_hash = attestation_hash (zp_env P) att, prev_hash = highest_hash (z_cs z)\<rparr>,
      p_qc = None, p_round = r\<rparr>"

definition proposal_hash :: "('s, 'tx, 'b, 'c, 'g) zeus_params \<Rightarrow> proposal \<Rightarrow> digest" where
  "proposal_hash P p = ser_and_hash (crypt (z_env (zp_env P))) (cd_proposal (z_env (zp_env P))) p"

definition round_hash :: "('s, 'tx, 'b, 'c, 'g) zeus_params \<Rightarrow> round \<Rightarrow> digest" where
  "round_hash P r = ser_and_hash (crypt (z_env (zp_env P))) (cd_round (z_env (zp_env P))) r"

definition handle_new_sig_round ::
  "('s, 'tx, 'b, 'c, 'g) zeus_params \<Rightarrow> ('s, 'tx, 'b, 'c, 'g, unit) zhandler" where
  "handle_new_sig_round P z =
     (let r = zr_round (z_rs z);
          latest_h = latest_height z;
          z1 = disarm_data_timer (z\<lparr>z_waiting := False\<rparr>)
      in case make_attestation P r z1 of Err e \<Rightarrow> (Err e, z1) | Panic \<Rightarrow> (Panic, z1)
       | Ok att \<Rightarrow>
           let p = sig_proposal P r att z1
           in case signature_new (crypt (z_env (zp_env P))) (proposal_hash P p) (z_id z1) (z_secret z1) of
                Err e \<Rightarrow> (Err e, z1) | Panic \<Rightarrow> (Panic, z1)
              | Ok auth \<Rightarrow>
                  let m = SigPropose p auth att (z_id z1)
                  in bind_s (z_send_loopback m) (\<lambda>_ z2. (Ok (), z2\<lparr>z_last_att := latest_h\<rparr>))
                       (z_broadcast P m z1))"

definition z_try_commit :: "('s, 'tx, 'b, 'c, 'g, unit) zhandler" where
  "z_try_commit z =
     (if z_commit_open z
      then (Ok (), z\<lparr>z_to_commit := z_to_commit z @ [(highest_hash (z_cs z), highest_chain (z_cs z))]\<rparr>)
      else (Err ChannelClosed, z))"

definition advance_rounds ::
  "('s, 'tx, 'b, 'c, 'g) zeus_params \<Rightarrow> ('s, 'tx, 'b, 'c, 'g, unit) zhandler" where
  "advance_rounds P z = (case leader_advance_round (zp_pick P) (z_lc z) of
     Ok lc \<Rightarrow>
       let (tm, rs) = zr_advance_round (zp_gc P) (z_timer z) (z_rs z)
       in (Ok (), z\<lparr>z_lc := lc, z_timer := tm, z_rs := rs\<rparr>)
   | Err e \<Rightarrow> (Err e, z) | Panic \<Rightarrow> (Panic, z))"

text \<open>The error of a proposal made by the new leader is only logged.\<close>

definition propose_if_leader ::
  "('s, 'tx, 'b, 'c, 'g) zeus_params \<Rightarrow> ('s, 'tx, 'b, 'c, 'g, unit) zhandler" where
  "propose_if_leader P z =
     (if leader (z_lc z) = z_id z
      then (case handle_new_sig_round P z of (Panic, z') \<Rightarrow> (Panic, z') | (_, z') \<Rightarrow> (Ok (), z'))
      else (Ok (), z))"

definition advance_sig_round ::
  "('s, 'tx, 'b, 'c, 'g) zeus_params \<Rightarrow> ('s, 'tx, 'b, 'c, 'g, unit) zhandler" where
  "advance_sig_round P =
     bind_s (advance_rounds P) (\<lambda>_.
     bind_s z_try_commit (\<lambda>_ z.
     propose_if_leader P (arm_data_timer TimerDataRoundEntry z)))"

subsection \<open>Blames of the signature chain\<close>

definition sig_blame_certificate ::
  "(node_id set \<Rightarrow> node_id list) \<Rightarrow> (node_id \<rightharpoonup> signature) \<Rightarrow> certificate" where
  "sig_blame_certificate order m =
     foldl certificate_add certificate_empty (map (\<lambda>i. the (m i)) (order (dom m)))"

definition handle_sig_blame_qc ::
  "('s, 'tx, 'b, 'c, 'g) zeus_params \<Rightarrow> round \<Rightarrow> certificate \<Rightarrow> ('s, 'tx, 'b, 'c, 'g, unit) zhandler" where
  "handle_sig_blame_qc P r qc z =
     (let z1 = z\<lparr>z_rs := (z_rs z)\<lparr>zr_got_qc := True\<rparr>\<rparr>;
          z2 = z_broadcast P (SigBlameQC r qc) z1
      in advance_sig_round P (z2\<lparr>z_cs := add_qc r qc (z_cs z2)\<rparr>))"

definition on_sig_blame_qc ::
  "('s, 'tx, 'b, 'c, 'g) zeus_params \<Rightarrow> round \<Rightarrow> certificate \<Rightarrow> ('s, 'tx, 'b, 'c, 'g, unit) zhandler" where
  "on_sig_blame_qc P r qc z =
     (if zr_got_qc (z_rs z) then (Ok (), z)
      else case certificate_verify (crypt (z_env (zp_env P))) qc (round_hash P r) (z_system z) of
        Err e \<Rightarrow> (Err e, z) | Panic \<Rightarrow> (Panic, z)
      | Ok _ \<Rightarrow> handle_sig_blame_qc P r qc z)"

definition z_qc_len :: "('s, 'tx, 'b, 'c, 'g) zeus \<Rightarrow> nat" where
  "z_qc_len z = (z_nodes z + z_faults z + 1) div 2"

definition handle_sig_blame ::
  "('s, 'tx, 'b, 'c, 'g) zeus_params \<Rightarrow> round \<Rightarrow> signature \<Rightarrow> ('s, 'tx, 'b, 'c, 'g, unit) zhandler" where
  "handle_sig_blame P r auth z =
     (if el_round (highest_chain (z_cs z)) = r then (Ok (), z)
      else if zr_got_qc (z_rs z) then (Ok (), z)
      else case z_system z (sig_id auth) of
        None \<Rightarrow> (Err (UnknownId (sig_id auth)), z)
      | Some pk \<Rightarrow>
          (case verify_without_id_check (crypt (z_env (zp_env P))) auth (round_hash P r) pk of
             Err e \<Rightarrow> (Err e, z) | Panic \<Rightarrow> (Panic, z)
           | Ok _ \<Rightarrow>
               let m = (zr_blame_map (z_rs z))(sig_id auth \<mapsto> auth)
               in if card (dom m) \<noteq> z_qc_len z
                  then (Ok (), z\<lparr>z_rs := (z_rs z)\<lparr>zr_blame_map := m\<rparr>\<rparr>)
                  else handle_sig_blame_qc P r (sig_blame_certificate (zp_order P) m)
                         (z\<lparr>z_rs := (z_rs z)\<lparr>zr_got_qc := True, zr_blame_map := Map.empty\<rparr>\<rparr>)))"

definition z_on_round_timeout ::
  "('s, 'tx, 'b, 'c, 'g) zeus_params \<Rightarrow> ('s, 'tx, 'b, 'c, 'g, unit) zhandler" where
  "z_on_round_timeout P z =
     (let z1 = z\<lparr>z_timer := zr_disable_timer (z_timer z)\<rparr>;
          r = zr_round (z_rs z1)
      in case signature_new (crypt (z_env (zp_env P))) (round_hash P r) (z_id z1) (z_secret z1) of
           Err e \<Rightarrow> (Err e, z1) | Panic \<Rightarrow> (Panic, z1)
         | Ok auth \<Rightarrow> z_send_loopback (SigBlame r auth) (z_broadcast P (SigBlame r auth) z1))"

subsection \<open>Attestations and proposals\<close>

datatype attestation_validity = Valid | Invalid | Parked digest

definition park_attestation ::
  "digest \<Rightarrow> 'tx zeus_msg \<Rightarrow> ('s, 'tx, 'b, 'c, 'g) zeus \<Rightarrow> ('s, 'tx, 'b, 'c, 'g) zeus" where
  "park_attestation h m z = z\<lparr>z_pend_att := push_entry h m (z_pend_att z)\<rparr>"

definition attestation_valid ::
  "('s, 'tx, 'b, 'c, 'g) zeus_params \<Rightarrow> attestation \<Rightarrow> 'tx zeus_msg \<Rightarrow> ('s, 'tx, 'b, 'c, 'g) zeus
    \<Rightarrow> (attestation_validity \<times> ('s, 'tx, 'b, 'c, 'g) zeus) option" where
  "attestation_valid P att parked_msg z =
     (case z_system z (as_signer (at_sig att)) of
        None \<Rightarrow> Some (Invalid, z)
      | Some pk \<Rightarrow>
          if \<not> pk_verify (crypt (z_env (zp_env P))) pk (attestation_hash (zp_env P) att) (as_raw (at_sig att))
          then Some (Invalid, z)
          else
            let genesis = (ae_block_height (at_envelope att) = 0 \<and> ae_block_epoch (at_envelope att) = 0);
                h = ae_block_hash (at_envelope att)
            in if \<not> genesis \<and> \<not> db_contains h (z_db z)
               then Some (Parked h, park_attestation h parked_msg z)
               else if \<not> data_chain_valid h (z_db z)
               then Some (Parked h, park_attestation h parked_msg z)
               else (case db_meta h (z_db z) of
                   Some m \<Rightarrow>
                     (case conflicts_data_prefix h (dm_height m) (dm_parent m) (z_lock z) (z_db z) of
                        None \<Rightarrow> None
                      | Some True \<Rightarrow> Some (Invalid, z)
                      | Some False \<Rightarrow> Some (Valid, z))
                 | None \<Rightarrow> if \<not> genesis then Some (Invalid, z) else Some (Valid, z)))"

definition sig_leader_for_round :: "round \<Rightarrow> ('s, 'tx, 'b, 'c, 'g) zeus \<Rightarrow> node_id" where
  "sig_leader_for_round r z = (r - 1) mod z_nodes z"

definition relay_sig_proposal ::
  "('s, 'tx, 'b, 'c, 'g) zeus_params \<Rightarrow> proposal \<Rightarrow> signature \<Rightarrow> ('s, 'tx, 'b, 'c, 'g) zeus \<Rightarrow> ('s, 'tx, 'b, 'c, 'g) zeus" where
  "relay_sig_proposal P p auth z =
     (let nl = next_leader (z_lc z)
      in if nl = z_id z then z else z_send P nl (SigRelay p auth (batch_hash (p_block p)) (z_id z)) z)"

definition on_correct_sig_proposal ::
  "('s, 'tx, 'b, 'c, 'g) zeus_params \<Rightarrow> proposal \<Rightarrow> signature \<Rightarrow> attestation \<Rightarrow> ('s, 'tx, 'b, 'c, 'g, unit) zhandler" where
  "on_correct_sig_proposal P p auth att z =
     (let z1 = relay_sig_proposal P p auth z;
          z2 = z1\<lparr>z_cs := update_highest_chain (z_env (zp_env P)) p auth [att] (z_cs z1)\<rparr>
      in advance_sig_round P z2)"

definition check_sig_leader ::
  "('s, 'tx, 'b, 'c, 'g) zeus_params \<Rightarrow> proposal \<Rightarrow> signature \<Rightarrow> ('s, 'tx, 'b, 'c, 'g) zeus \<Rightarrow> unit outcome" where
  "check_sig_leader P p auth z =
     (let l = leader (z_lc z)
      in if l \<noteq> z_id z then
           bind_o (ok_or (UnknownId l) (z_system z l)) (\<lambda>pk.
             signature_verify (crypt (z_env (zp_env P))) auth (proposal_hash P p) l pk)
         else Ok ())"

definition handle_sig_proposal ::
  "('s, 'tx, 'b, 'c, 'g) zeus_params \<Rightarrow> proposal \<Rightarrow> signature \<Rightarrow> attestation \<Rightarrow> node_id
    \<Rightarrow> ('s, 'tx, 'b, 'c, 'g, unit) zloop" where
  "handle_sig_proposal P p auth att sender z =
     (if p_round p \<noteq> zr_round (z_rs z) then Some (Ok (), z)
      else case check_sig_leader P p auth z of
        Err e \<Rightarrow> Some (Err e, z) | Panic \<Rightarrow> Some (Panic, z)
      | Ok _ \<Rightarrow>
          (case attestation_valid P att (SigPropose p auth att sender) z of
             None \<Rightarrow> None
           | Some (Invalid, z1) \<Rightarrow> Some (Ok (), z1)
           | Some (Parked h, z1) \<Rightarrow> Some (Ok (), broadcast_data_request P h z1)
           | Some (Valid, z1) \<Rightarrow> Some (on_correct_sig_proposal P p auth att z1)))"

subsection \<open>Change of an epoch's leader\<close>

definition purge_pending_blocks ::
  "nat \<Rightarrow> ('s, 'tx, 'b) data_block_db \<Rightarrow> (digest \<rightharpoonup> 'tx data_block list) \<Rightarrow> (digest \<rightharpoonup> 'tx data_block list)" where
  "purge_pending_blocks ht db pend =
     (let kept = (\<lambda>k. map_option (filter (\<lambda>b. b_height b \<le> ht)) (pend k))
      in (\<lambda>k. case kept k of
            Some bs \<Rightarrow>
              if bs \<noteq> [] \<and> (case db_meta k db of Some m \<Rightarrow> dm_height m \<le> ht | None \<Rightarrow> False)
              then Some bs else None
          | None \<Rightarrow> None))"

definition purge_pending_attestations ::
  "nat \<Rightarrow> ('s, 'tx, 'b) data_block_db \<Rightarrow> 'tx pending_attestations \<Rightarrow> 'tx pending_attestations" where
  "purge_pending_attestations ht db pend =
     (\<lambda>k. case db_meta k db of
        None \<Rightarrow> None
      | Some m \<Rightarrow> if ht < dm_height m then None else pend k)"

definition advance_to_epoch ::
  "('s, 'tx, 'b, 'c, 'g) zeus_params \<Rightarrow> nat \<Rightarrow> ('s, 'tx, 'b, 'c, 'g) zeus \<Rightarrow> ('s, 'tx, 'b, 'c, 'g) zeus" where
  "advance_to_epoch P new_epoch z =
     (let (h, ht) = (case latest_committed_attestation (z_lock z) of
            Some att \<Rightarrow> (ae_block_hash (at_envelope att), ae_block_height (at_envelope att))
          | None \<Rightarrow> (data_block_hash (zp_env P) data_genesis, 0));
          z1 = z\<lparr>z_epoch := new_epoch,
                 z_chain := (z_chain z)\<lparr>dc_head_hash := h, dc_head_height := ht,
                   dc_pending := purge_pending_blocks ht (z_db z) (dc_pending (z_chain z))\<rparr>,
                 z_proposed := ht, z_last_proposed := None, z_waiting := False, z_latest := None,
                 z_pend_att := purge_pending_attestations ht (z_db z) (z_pend_att z)\<rparr>;
          z2 = arm_data_timer TimerDataRoundEntry z1
      in if z_id z2 = eleader new_epoch (z_nodes z2) then prime_batcher (z_id z2) z2 else z2)"

text \<open>The end shared by the formation and the reception of a certificate.\<close>

definition advance_past ::
  "('s, 'tx, 'b, 'c, 'g) zeus_params \<Rightarrow> nat \<Rightarrow> ('s, 'tx, 'b, 'c, 'g) zeus \<Rightarrow> ('s, 'tx, 'b, 'c, 'g) zeus" where
  "advance_past P epoch z =
     (if z_epoch z \<le> epoch
      then advance_to_epoch P (incremented (epoch + 1)) (mark_overflow (epoch + 1) z) else z)"

definition try_form_change_qc ::
  "('s, 'tx, 'b, 'c, 'g) zeus_params \<Rightarrow> nat \<Rightarrow> ('s, 'tx, 'b, 'c, 'g, unit) zhandler" where
  "try_form_change_qc P epoch z =
     (if z_qcs z epoch \<noteq> None then (Ok (), z)
      else case z_blames z epoch of
        None \<Rightarrow> (Ok (), z)
      | Some blames \<Rightarrow>
          if card (eb_signer ` set blames) < z_faults z + 1 then (Ok (), z)
          else
            let qc = \<lparr>ec_epoch = epoch, ec_blames = blames\<rparr>
            in case eleader_change_qc_valid (zp_env P) qc (z_system z) (z_faults z) (z_nodes z) of
                 Err e \<Rightarrow> (Err e, z) | Panic \<Rightarrow> (Panic, z)
               | Ok ok \<Rightarrow>
                   if \<not> ok then (Ok (), z)
                   else (Ok (), advance_past P epoch
                     (z_broadcast P (EleaderChangeQC qc) (z\<lparr>z_qcs := (z_qcs z)(epoch \<mapsto> qc)\<rparr>))))"

definition same_blame :: "'tx eleader_blame \<Rightarrow> 'tx eleader_blame \<Rightarrow> bool" where
  "same_blame a b \<longleftrightarrow> eb_signer a = eb_signer b \<and> eb_reason a = eb_reason b"

definition on_eleader_blame ::
  "('s, 'tx, 'b, 'c, 'g) zeus_params \<Rightarrow> 'tx eleader_blame \<Rightarrow> ('s, 'tx, 'b, 'c, 'g, unit) zhandler" where
  "on_eleader_blame P bl z =
     (case eleader_blame_valid (zp_env P) bl (z_system z) (eleader (eb_epoch bl) (z_nodes z)) of
        Err e \<Rightarrow> (Err e, z) | Panic \<Rightarrow> (Panic, z)
      | Ok ok \<Rightarrow>
          if \<not> ok then (Ok (), z)
          else
            let existing = entry_list (z_blames z) (eb_epoch bl);
                z1 = z\<lparr>z_blames := (z_blames z)(eb_epoch bl \<mapsto> existing)\<rparr>
            in if \<exists>b \<in> set existing. same_blame b bl then (Ok (), z1)
               else try_form_change_qc P (eb_epoch bl)
                      (z1\<lparr>z_blames := push_entry (eb_epoch bl) bl (z_blames z1)\<rparr>))"

definition merge_blames :: "'tx eleader_blame list \<Rightarrow> 'tx eleader_blame list \<Rightarrow> 'tx eleader_blame list" where
  "merge_blames local new =
     foldl (\<lambda>l b. if \<exists>x \<in> set l. same_blame x b then l else l @ [b]) local new"

definition on_eleader_change_qc ::
  "('s, 'tx, 'b, 'c, 'g) zeus_params \<Rightarrow> 'tx eleader_change_qc \<Rightarrow> ('s, 'tx, 'b, 'c, 'g, unit) zhandler" where
  "on_eleader_change_qc P qc z =
     (if z_qcs z (ec_epoch qc) \<noteq> None then (Ok (), z)
      else case eleader_change_qc_valid (zp_env P) qc (z_system z) (z_faults z) (z_nodes z) of
        Err e \<Rightarrow> (Err e, z) | Panic \<Rightarrow> (Panic, z)
      | Ok ok \<Rightarrow>
          if \<not> ok then (Ok (), z)
          else
            let e = ec_epoch qc;
                z1 = z\<lparr>z_qcs := (z_qcs z)(e \<mapsto> qc),
                       z_blames := (z_blames z)(e \<mapsto> merge_blames (entry_list (z_blames z) e) (ec_blames qc))\<rparr>
            in (Ok (), advance_past P e z1))"

definition make_equivocation_blame ::
  "('s, 'tx, 'b, 'c, 'g) zeus_params \<Rightarrow> nat \<Rightarrow> nat \<Rightarrow> 'tx data_block \<Rightarrow> 'tx data_block
    \<Rightarrow> ('s, 'tx, 'b, 'c, 'g) zeus \<Rightarrow> 'tx eleader_blame outcome" where
  "make_equivocation_blame P epoch height a b z =
     (let payload = EquivocationP height a b
      in bind_o (blame_signed_bytes (zp_env P) epoch Equivocation payload) (\<lambda>digest.
         bind_o (of_result (sk_sign (crypt (z_env (zp_env P))) (z_secret z) digest)) (\<lambda>raw.
         Ok \<lparr>eb_epoch = epoch, eb_reason = Equivocation, eb_payload = payload,
             eb_signer = z_id z, eb_raw = raw\<rparr>)))"

text \<open>A node's own blame is broadcast and put into its list unchecked.\<close>

definition cast_blame ::
  "('s, 'tx, 'b, 'c, 'g) zeus_params \<Rightarrow> 'tx eleader_blame \<Rightarrow> ('s, 'tx, 'b, 'c, 'g, unit) zhandler" where
  "cast_blame P bl z =
     (let z1 = z_broadcast P (EleaderBlame bl) z
      in try_form_change_qc P (eb_epoch bl) (z1\<lparr>z_blames := push_entry (eb_epoch bl) bl (z_blames z1)\<rparr>))"

definition on_data_timer_expired ::
  "('s, 'tx, 'b, 'c, 'g) zeus_params \<Rightarrow> ('s, 'tx, 'b, 'c, 'g, unit) zhandler" where
  "on_data_timer_expired P z =
     (case z_dtimer z of
        None \<Rightarrow> (Ok (), z)
      | Some TimerDataRoundEntry \<Rightarrow>
          let z1 = z\<lparr>z_dtimer := None\<rparr>;
              epoch = z_epoch z1;
              payload = SilenceP (latest_height z1)
          in (case bind_o (blame_signed_bytes (zp_env P) epoch Silence payload) (\<lambda>digest.
                     of_result (sk_sign (crypt (z_env (zp_env P))) (z_secret z1) digest)) of
                Err e \<Rightarrow> (Err e, z1) | Panic \<Rightarrow> (Panic, z1)
              | Ok raw \<Rightarrow> cast_blame P \<lparr>eb_epoch = epoch, eb_reason = Silence, eb_payload = payload,
                           eb_signer = z_id z1, eb_raw = raw\<rparr> z1)
      | Some RleaderWaitingFresh \<Rightarrow> (Ok (), arm_data_timer RleaderWaitingFresh (z\<lparr>z_dtimer := None\<rparr>)))"

subsection \<open>Data plane: proposing\<close>

text \<open>The parent and the height of the eleader's next block, before the height is cut to 64 bits.\<close>

definition next_block_position ::
  "('s, 'tx, 'b, 'c, 'g) zeus_params \<Rightarrow> ('s, 'tx, 'b, 'c, 'g) zeus \<Rightarrow> digest \<times> nat" where
  "next_block_position P z =
     (case z_last_proposed z of
        Some lph \<Rightarrow> (lph, z_proposed z + 1)
      | None \<Rightarrow>
          let genesis = (data_block_hash (zp_env P) data_genesis, b_height (data_genesis :: 'tx data_block));
              (h, ht) = (case latest_committed_attestation (z_lock z) of
                 None \<Rightarrow> genesis
               | Some a \<Rightarrow> (case db_meta (ae_block_hash (at_envelope a)) (z_db z) of
                    Some m \<Rightarrow> (dm_hash m, dm_height m)
                  | None \<Rightarrow> genesis))
          in (h, ht + 1))"

definition on_eleader_propose ::
  "('s, 'tx, 'b, 'c, 'g) zeus_params \<Rightarrow> 'tx batch \<Rightarrow> ('s, 'tx, 'b, 'c, 'g, unit) zhandler" where
  "on_eleader_propose P batch z =
     (if batch = [] then (Ok (), z)
      else
        let (par, next) = next_block_position P z;
            ht = incremented next;
            z = mark_overflow next z;
            en = \<lparr>de_epoch = z_epoch z, de_height = ht, de_payload = batch, de_parent = par\<rparr>;
            eh = ser_and_hash (crypt (z_env (zp_env P))) (cd_denv (zp_env P)) en
        in case sk_sign (crypt (z_env (zp_env P))) (z_secret z) eh of
             Inl e \<Rightarrow> (Err e, z)
           | Inr raw \<Rightarrow>
               let b = \<lparr>db_envelope = en, db_sig = \<lparr>ds_raw = raw, ds_signer = z_id z\<rparr>\<rparr>;
                   z1 = z\<lparr>z_proposed := ht, z_last_proposed := Some (data_block_hash (zp_env P) b)\<rparr>;
                   z2 = prime_batcher (eleader (z_epoch z1) (z_nodes z1)) z1;
                   z3 = data_broadcast (DataPropose b (z_id z2)) z2
               in (Ok (), snd (z_send_loopback (DataPropose b (z_id z3)) z3)))"

subsection \<open>Data plane: admission\<close>

definition verify_data_block_sig ::
  "('s, 'tx, 'b, 'c, 'g) zeus_params \<Rightarrow> 'tx data_block \<Rightarrow> ('s, 'tx, 'b, 'c, 'g) zeus \<Rightarrow> bool" where
  "verify_data_block_sig P b z =
     (case z_system z (eleader (b_epoch b) (z_nodes z)) of
        None \<Rightarrow> False
      | Some pk \<Rightarrow> pk_verify (crypt (z_env (zp_env P))) pk (data_block_hash (zp_env P) b) (ds_raw (db_sig b)))"

definition drain_pending_attestations ::
  "digest \<Rightarrow> ('s, 'tx, 'b, 'c, 'g) zeus \<Rightarrow> ('s, 'tx, 'b, 'c, 'g) zeus" where
  "drain_pending_attestations h z =
     foldl (\<lambda>z m. snd (z_send_loopback m z)) (z\<lparr>z_pend_att := (z_pend_att z)(h := None)\<rparr>)
       (entry_list (z_pend_att z) h)"

definition timer_reset_effect :: "('s, 'tx, 'b, 'c, 'g) zeus \<Rightarrow> ('s, 'tx, 'b, 'c, 'g) zeus" where
  "timer_reset_effect z =
     (if z_dtimer z = Some TimerDataRoundEntry then disarm_data_timer z else z)"

definition window_effect :: "('s, 'tx, 'b, 'c, 'g) zeus \<Rightarrow> ('s, 'tx, 'b, 'c, 'g) zeus" where
  "window_effect z =
     (if is_eleader z \<and> z_proposed z - dc_head_height (z_chain z) = 0
      then prime_batcher (eleader (z_epoch z) (z_nodes z)) z else z)"

definition wakeup_effect :: "nat \<Rightarrow> ('s, 'tx, 'b, 'c, 'g) zeus \<Rightarrow> ('s, 'tx, 'b, 'c, 'g) zeus" where
  "wakeup_effect admitted z =
     (if z_waiting z \<and> leader (z_lc z) = z_id z \<and> z_last_att z < admitted
      then (if z_dtimer z = Some RleaderWaitingFresh then disarm_data_timer z else z)
             \<lparr>z_waiting := False, z_wakeup := True\<rparr>
      else z)"

definition post_admit_side_effects :: "nat \<Rightarrow> ('s, 'tx, 'b, 'c, 'g) zeus \<Rightarrow> ('s, 'tx, 'b, 'c, 'g) zeus" where
  "post_admit_side_effects admitted z = wakeup_effect admitted (window_effect (timer_reset_effect z))"

text \<open>A new head: shared by the fast path and the walk along \<^verbatim>\<open>child_of\<close>.\<close>

definition set_head ::
  "digest \<Rightarrow> 'tx data_block \<Rightarrow> ('s, 'tx, 'b, 'c, 'g) zeus \<Rightarrow> ('s, 'tx, 'b, 'c, 'g) zeus" where
  "set_head h b z =
     (let z1 = z\<lparr>z_chain := (z_chain z)\<lparr>dc_head_hash := h, dc_head_height := b_height b\<rparr>,
                 z_last_seen := b\<rparr>;
          z2 = (if latest_height z1 < b_height b then z1\<lparr>z_latest := Some b\<rparr> else z1)
      in post_admit_side_effects (b_height b) z2)"

definition link_child :: "digest \<Rightarrow> digest \<Rightarrow> ('s, 'tx, 'b, 'c, 'g) zeus \<Rightarrow> ('s, 'tx, 'b, 'c, 'g) zeus" where
  "link_child par h z = z\<lparr>z_chain := (z_chain z)\<lparr>dc_child_of := (dc_child_of (z_chain z))(par \<mapsto> h)\<rparr>\<rparr>"

definition insert_non_head ::
  "('s, 'tx, 'b, 'c, 'g) zeus_params \<Rightarrow> 'tx data_block \<Rightarrow> digest \<Rightarrow> digest
    \<Rightarrow> ('s, 'tx, 'b, 'c, 'g) zeus \<Rightarrow> ('s, 'tx, 'b, 'c, 'g) zeus" where
  "insert_non_head P b h par z = link_child par h (z\<lparr>z_db := db_insert (zp_env P) b (z_db z)\<rparr>)"

definition insert_and_advance ::
  "('s, 'tx, 'b, 'c, 'g) zeus_params \<Rightarrow> 'tx data_block \<Rightarrow> digest \<Rightarrow> digest
    \<Rightarrow> ('s, 'tx, 'b, 'c, 'g) zeus \<Rightarrow> ('s, 'tx, 'b, 'c, 'g) zeus" where
  "insert_and_advance P b h par z =
     set_head h b (link_child par h (z\<lparr>z_db := db_insert (zp_env P) b (z_db z)\<rparr>))"

partial_function (option) advance_head_via_child_of ::
  "('s, 'tx, 'b, 'c, 'g) zeus_params \<Rightarrow> ('s, 'tx, 'b, 'c, 'g, unit) zloop" where
  "advance_head_via_child_of P z =
     (case dc_child_of (z_chain z) (dc_head_hash (z_chain z)) of
        None \<Rightarrow> Some (Ok (), z)
      | Some h \<Rightarrow>
          (case db_get (zp_env P) h (z_db z) of
             Err e \<Rightarrow> Some (Err e, z)
           | Panic \<Rightarrow> Some (Panic, z)
           | Ok None \<Rightarrow> Some (Ok (), z)
           | Ok (Some b) \<Rightarrow> advance_head_via_child_of P (set_head h b z)))"

definition park_block ::
  "('s, 'tx, 'b, 'c, 'g) zeus_params \<Rightarrow> 'tx data_block \<Rightarrow> ('s, 'tx, 'b, 'c, 'g) zeus \<Rightarrow> ('s, 'tx, 'b, 'c, 'g) zeus" where
  "park_block P b z =
     (if b_parent b = data_block_hash (zp_env P) (data_genesis :: 'tx data_block) then z
      else broadcast_data_request P (b_parent b)
        (z\<lparr>z_chain := (z_chain z)\<lparr>dc_pending := push_entry (b_parent b) b (dc_pending (z_chain z))\<rparr>\<rparr>))"

text \<open>
  \<^verbatim>\<open>admit_data_block\<close> and \<^verbatim>\<open>drain_pending_data_blocks\<close> call each other; they are one function over
  three jobs: to admit a block, to admit a list of parked blocks in order, and to drain the blocks
  parked under the head.
\<close>

datatype 'tx admit_job = AdmitBlock "'tx data_block" | AdmitAll "'tx data_block list" | DrainPending

definition drain_head ::
  "('s, 'tx, 'b, 'c, 'g) zeus \<Rightarrow> ('s, 'tx, 'b, 'c, 'g) zeus" where
  "drain_head z = drain_pending_attestations (dc_head_hash (z_chain z)) z"

definition take_pending ::
  "('s, 'tx, 'b, 'c, 'g) zeus \<Rightarrow> 'tx data_block list \<times> ('s, 'tx, 'b, 'c, 'g) zeus" where
  "take_pending z =
     (let h = dc_head_hash (z_chain z)
      in (entry_list (dc_pending (z_chain z)) h,
          z\<lparr>z_chain := (z_chain z)\<lparr>dc_pending := (dc_pending (z_chain z))(h := None)\<rparr>\<rparr>))"

lemma bind_z_mono [partial_function_mono]:
  assumes "mono_option (\<lambda>f. m f z)" "\<And>a z'. mono_option (\<lambda>f. k f a z')"
  shows "mono_option (\<lambda>f. bind_z (m f) (k f) z)"
proof -
  have "mono_option (\<lambda>f. case x of (Ok a, z') \<Rightarrow> k f a z' | (Err e, z') \<Rightarrow> Some (Err e, z')
      | (Panic, z') \<Rightarrow> Some (Panic, z'))" for x
    using assms(2) by (cases x; cases "fst x") (auto intro: option.const_mono)
  then show ?thesis unfolding bind_z_def by (intro bind_mono assms(1))
qed

partial_function (option) admit_run ::
  "('s, 'tx, 'b, 'c, 'g) zeus_params \<Rightarrow> 'tx admit_job \<Rightarrow> ('s, 'tx, 'b, 'c, 'g, unit) zloop" where
  "admit_run P job z = (case job of
     AdmitBlock b \<Rightarrow>
       let h = data_block_hash (zp_env P) b; par = b_parent b
       in if par = dc_head_hash (z_chain z)
          then bind_z (admit_run P DrainPending) (\<lambda>_ z. Some (Ok (), drain_head z))
                 (insert_and_advance P b h par z)
          else if db_contains par (z_db z)
          then bind_z (admit_run P DrainPending) (\<lambda>_ z.
               bind_z (advance_head_via_child_of P) (\<lambda>_ z. Some (Ok (), drain_head z)) z)
                 (insert_non_head P b h par z)
          else Some (Ok (), park_block P b z)
   | AdmitAll bs \<Rightarrow>
       (case bs of
          [] \<Rightarrow> Some (Ok (), z)
        | b # bs' \<Rightarrow> bind_z (admit_run P (AdmitBlock b)) (\<lambda>_ z. admit_run P (AdmitAll bs') z) z)
   | DrainPending \<Rightarrow>
       let (parked, z1) = take_pending z
       in if parked = [] then Some (Ok (), z1)
          else bind_z (admit_run P (AdmitAll parked)) (\<lambda>_ z. admit_run P DrainPending z) z1)"

definition admit_data_block ::
  "('s, 'tx, 'b, 'c, 'g) zeus_params \<Rightarrow> 'tx data_block \<Rightarrow> ('s, 'tx, 'b, 'c, 'g, unit) zloop" where
  "admit_data_block P b = admit_run P (AdmitBlock b)"

definition drain_pending_data_blocks ::
  "('s, 'tx, 'b, 'c, 'g) zeus_params \<Rightarrow> ('s, 'tx, 'b, 'c, 'g, unit) zloop" where
  "drain_pending_data_blocks P = admit_run P DrainPending"

text \<open>The wake-up that an admission may have left is acted on by the outermost handler.\<close>

definition process_wakeup ::
  "('s, 'tx, 'b, 'c, 'g) zeus_params \<Rightarrow> ('s, 'tx, 'b, 'c, 'g, unit) zhandler" where
  "process_wakeup P z =
     (if z_wakeup z
      then (case handle_new_sig_round P (z\<lparr>z_wakeup := False\<rparr>) of
              (Panic, z') \<Rightarrow> (Panic, z') | (_, z') \<Rightarrow> (Ok (), z'))
      else (Ok (), z))"

definition on_equivocation ::
  "('s, 'tx, 'b, 'c, 'g) zeus_params \<Rightarrow> digest \<Rightarrow> 'tx data_block \<Rightarrow> ('s, 'tx, 'b, 'c, 'g, unit) zhandler" where
  "on_equivocation P existing b z =
     (case db_get (zp_env P) existing (z_db z) of
        Err e \<Rightarrow> (Err e, z) | Panic \<Rightarrow> (Panic, z)
      | Ok None \<Rightarrow> (Ok (), z)
      | Ok (Some a) \<Rightarrow>
          (case make_equivocation_blame P (b_epoch b) (b_height b) a b z of
             Ok bl \<Rightarrow> cast_blame P bl z
           | Err _ \<Rightarrow> (Ok (), z)
           | Panic \<Rightarrow> (Panic, z)))"

definition admit_and_wake ::
  "('s, 'tx, 'b, 'c, 'g) zeus_params \<Rightarrow> 'tx data_block \<Rightarrow> ('s, 'tx, 'b, 'c, 'g, unit) zloop" where
  "admit_and_wake P b = bind_z (admit_data_block P b) (\<lambda>_. ret (process_wakeup P))"

definition on_data_propose ::
  "('s, 'tx, 'b, 'c, 'g) zeus_params \<Rightarrow> 'tx data_block \<Rightarrow> node_id \<Rightarrow> ('s, 'tx, 'b, 'c, 'g, unit) zloop" where
  "on_data_propose P b sender z =
     (let h = data_block_hash (zp_env P) b
      in if sender \<noteq> eleader (b_epoch b) (z_nodes z) then Some (Ok (), z)
         else if \<not> verify_data_block_sig P b z then Some (Ok (), z)
         else if \<not> epoch_gate_valid b (z_epoch z) (z_qcs z) then Some (Ok (), z)
         else if db_contains h (z_db z) then Some (Ok (), z)
         else if dc_child_of (z_chain z) (b_parent b) \<notin> {None, Some h}
         then Some (on_equivocation P (the (dc_child_of (z_chain z) (b_parent b))) b z)
         else (case conflicts_data_prefix h (b_height b) (b_parent b) (z_lock z) (z_db z) of
             None \<Rightarrow> None
           | Some True \<Rightarrow> Some (Ok (), z)
           | Some False \<Rightarrow> admit_and_wake P b z))"

definition on_data_request ::
  "('s, 'tx, 'b, 'c, 'g) zeus_params \<Rightarrow> digest \<Rightarrow> node_id \<Rightarrow> ('s, 'tx, 'b, 'c, 'g, unit) zhandler" where
  "on_data_request P h source z =
     (case db_get (zp_env P) h (z_db z) of
        Err e \<Rightarrow> (Err e, z) | Panic \<Rightarrow> (Panic, z)
      | Ok None \<Rightarrow> (Ok (), z)
      | Ok (Some b) \<Rightarrow> (Ok (), z_send P source (DataResponse b) z))"

definition on_data_response ::
  "('s, 'tx, 'b, 'c, 'g) zeus_params \<Rightarrow> 'tx data_block \<Rightarrow> ('s, 'tx, 'b, 'c, 'g, unit) zloop" where
  "on_data_response P b z =
     (let h = data_block_hash (zp_env P) b
      in if db_contains h (z_db z) then Some (Ok (), z)
         else if \<not> verify_data_block_sig P b z then Some (Ok (), z)
         else if \<not> epoch_gate_valid b (b_epoch b) (z_qcs z) then Some (Ok (), z)
         else if dc_child_of (z_chain z) (b_parent b) \<notin> {None, Some h} then Some (Ok (), z)
         else admit_and_wake P b z)"

subsection \<open>Committed attestations\<close>

text \<open>The forward walk from the last committed block: the items, the last height and hash.\<close>

partial_function (option) commit_prefix_walk ::
  "('tx data_chain_state \<times> ('s, 'tx, 'b) data_block_db) \<Rightarrow> nat \<Rightarrow> digest \<Rightarrow> 'tx commit_item list \<Rightarrow> nat \<Rightarrow> digest option
    \<Rightarrow> ('tx commit_item list \<times> nat \<times> digest option) option" where
  "commit_prefix_walk x new_height cur acc last_height last_hash =
     (case dc_child_of (fst x) cur of
        None \<Rightarrow> Some (acc, last_height, last_hash)
      | Some child \<Rightarrow>
          (case db_meta child (snd x) of
             None \<Rightarrow> Some (acc, last_height, last_hash)
           | Some m \<Rightarrow>
               let item = (case db_cache_get child (snd x) of Some b \<Rightarrow> Resident b | None \<Rightarrow> Spilled child);
                   acc' = acc @ [item]
               in if new_height \<le> dm_height m then Some (acc', dm_height m, Some child)
                  else commit_prefix_walk x new_height child acc' (dm_height m) (Some child)))"

definition update_lock :: "nat \<Rightarrow> attestation \<Rightarrow> commit_lock \<Rightarrow> commit_lock" where
  "update_lock r att lock =
     (let lock1 = filter (\<lambda>e. att_height att \<le> att_height (snd e)) lock
      in if \<exists>e \<in> set lock1. att_height att \<le> att_height (snd e) then lock1 else lock1 @ [(r, att)])"

definition on_committed_attestation ::
  "nat \<Rightarrow> attestation \<Rightarrow> ('s, 'tx, 'b, 'c, 'g) zeus \<Rightarrow> ('s, 'tx, 'b, 'c, 'g) zeus option" where
  "on_committed_attestation r att z =
     (let z1 = z\<lparr>z_lock := update_lock r att (z_lock z)\<rparr>
      in if att_height att \<le> z_committed_high z1 then Some z1
         else case commit_prefix_walk (z_chain z1, z_db z1) (att_height att) (z_last_committed z1) []
                     (z_committed_high z1) None of
           None \<Rightarrow> None
         | Some (items, ht, None) \<Rightarrow> Some z1
         | Some (items, ht, Some h) \<Rightarrow>
             Some (z1\<lparr>z_committed_high := ht, z_last_committed := h,
                      z_ct := (z_ct z1)\<lparr>ct_items := ct_items (z_ct z1) @ items\<rparr>\<rparr>))"

subsection \<open>Dispatch and the loop\<close>

definition z_enqueue :: "'tx zeus_msg \<Rightarrow> round \<Rightarrow> ('s, 'tx, 'b, 'c, 'g) zeus \<Rightarrow> ('s, 'tx, 'b, 'c, 'g) zeus" where
  "z_enqueue m r z = z\<lparr>z_rs := zr_enqueue m r (z_rs z)\<rparr>"

definition dispatch ::
  "('s, 'tx, 'b, 'c, 'g) zeus_params \<Rightarrow> 'tx zeus_msg \<Rightarrow> ('s, 'tx, 'b, 'c, 'g, unit) zloop" where
  "dispatch P m z = (case m of
     DataPropose b sender \<Rightarrow> on_data_propose P b sender z
   | DataRequest h source \<Rightarrow> Some (on_data_request P h source z)
   | DataResponse b \<Rightarrow> on_data_response P b z
   | EleaderBlame bl \<Rightarrow> Some (on_eleader_blame P bl z)
   | EleaderChangeQC qc \<Rightarrow> Some (on_eleader_change_qc P qc z)
   | SigPropose p _ _ _ \<Rightarrow> Some (Ok (), z_enqueue m (p_round p) z)
   | SigBlame r _ \<Rightarrow> Some (Ok (), z_enqueue m r z)
   | SigBlameQC r _ \<Rightarrow> Some (Ok (), z_enqueue m r z)
   | _ \<Rightarrow> Some (Ok (), z))"

definition handle_sig_ordered ::
  "('s, 'tx, 'b, 'c, 'g) zeus_params \<Rightarrow> 'tx zeus_msg \<Rightarrow> ('s, 'tx, 'b, 'c, 'g, unit) zloop" where
  "handle_sig_ordered P m z = (case m of
     SigPropose p auth att sender \<Rightarrow> handle_sig_proposal P p auth att sender z
   | SigBlame r auth \<Rightarrow> Some (handle_sig_blame P r auth z)
   | SigBlameQC r qc \<Rightarrow> Some (on_sig_blame_qc P r qc z)
   | _ \<Rightarrow> Some (Ok (), z))"

datatype 'tx zeus_event =
    ZExit
  | ZBatch "'tx batch option"
  | ZRound
  | ZTimer
  | ZLoopback
  | ZNet "'tx zeus_msg option"
  | ZCommitted "(nat \<times> attestation) option"
  | ZDataTimer
  | ZBench

datatype zeus_result = ZContinue | ZExited | ZFailed error | ZCrashed | ZHangs

text \<open>Errors of handlers are logged; a panic ends the task; a handler that does not return hangs it.\<close>

definition z_logged ::
  "'z \<Rightarrow> (unit outcome \<times> 'z) option \<Rightarrow> zeus_result \<times> 'z" where
  "z_logged z r = (case r of
     None \<Rightarrow> (ZHangs, z) | Some (Panic, z') \<Rightarrow> (ZCrashed, z') | Some (_, z') \<Rightarrow> (ZContinue, z'))"

text \<open>A closed batch channel, loopback or network ends the loop with an error.\<close>

definition zeus_enabled :: "'tx zeus_event \<Rightarrow> ('s, 'tx, 'b, 'c, 'g) zeus \<Rightarrow> bool" where
  "zeus_enabled ev z = (case ev of
     ZBatch _ \<Rightarrow> is_eleader z
   | ZRound \<Rightarrow> zr_is_ready (z_rs z)
   | ZTimer \<Rightarrow> tm_enabled (z_timer z)
   | ZLoopback \<Rightarrow> z_loopback z \<noteq> []
   | ZDataTimer \<Rightarrow> z_dtimer z \<noteq> None
   | ZBench \<Rightarrow> ct_emit_dp (z_ct z)
   | _ \<Rightarrow> True)"

definition zeus_turn ::
  "('s, 'tx, 'b, 'c, 'g) zeus_params \<Rightarrow> 'tx zeus_event \<Rightarrow> ('s, 'tx, 'b, 'c, 'g) zeus
    \<Rightarrow> zeus_result \<times> ('s, 'tx, 'b, 'c, 'g) zeus" where
  "zeus_turn P ev z =
     (if \<not> zeus_enabled ev z then (ZContinue, z)
      else case ev of
        ZExit \<Rightarrow> (ZExited, z)
      | ZBatch None \<Rightarrow> (ZFailed ChannelClosed, z)
      | ZBatch (Some b) \<Rightarrow> z_logged z (Some (on_eleader_propose P b z))
      | ZRound \<Rightarrow>
          (case zr_pop_msg (z_rs z) of
             (None, _) \<Rightarrow> (ZContinue, z)
           | (Some m, rs) \<Rightarrow> z_logged (z\<lparr>z_rs := rs\<rparr>) (handle_sig_ordered P m (z\<lparr>z_rs := rs\<rparr>)))
      | ZTimer \<Rightarrow> z_logged z (Some (z_on_round_timeout P z))
      | ZLoopback \<Rightarrow>
          (let z1 = z\<lparr>z_loopback := tl (z_loopback z)\<rparr>
           in z_logged z1 (dispatch P (hd (z_loopback z)) z1))
      | ZNet None \<Rightarrow> (ZFailed ChannelClosed, z)
      | ZNet (Some m) \<Rightarrow> z_logged z (dispatch P m z)
      | ZCommitted None \<Rightarrow> (ZContinue, z)
      | ZCommitted (Some (r, att)) \<Rightarrow>
          z_logged z (map_option (\<lambda>z'. (Ok (), z')) (on_committed_attestation r att z))
      | ZDataTimer \<Rightarrow> z_logged z (Some (on_data_timer_expired P z))
      | ZBench \<Rightarrow> (ZContinue, z\<lparr>z_ct := (z_ct z)\<lparr>ct_tx_count := 0\<rparr>\<rparr>))"

text \<open>In a build with overflow checks a turn that leaves the overflow mark has ended in a panic.\<close>

definition zeus_step ::
  "('s, 'tx, 'b, 'c, 'g) zeus_params \<Rightarrow> 'tx zeus_event \<Rightarrow> ('s, 'tx, 'b, 'c, 'g) zeus
    \<Rightarrow> zeus_result \<times> ('s, 'tx, 'b, 'c, 'g) zeus" where
  "zeus_step P ev z =
     (let (res, z') = zeus_turn P ev z
      in (if zp_checked P \<and> z_overflow z' \<and> \<not> z_overflow z then ZCrashed else res, z'))"

text \<open>The start of \<^verbatim>\<open>run\<close>, before the loop. Nothing has been proposed yet: priming cannot overflow.\<close>

definition zeus_start ::
  "('s, 'tx, 'b, 'c, 'g) zeus_params \<Rightarrow> ('s, 'tx, 'b, 'c, 'g, bool) zhandler" where
  "zeus_start P z =
     (let (r, cs) = genesis_setup (z_env (zp_env P)) (z_cs z);
          z1 = z\<lparr>z_cs := cs, z_timer := (z_timer z)\<lparr>tm_resets := tm_resets (z_timer z) + 1\<rparr>\<rparr>;
          z2 = prime_batcher (eleader (z_epoch z1) (z_nodes z1)) z1;
          z3 = arm_data_timer TimerDataRoundEntry z2
      in (r, if leader (z_lc z3) = z_id z3 then z3\<lparr>z_waiting := True\<rparr> else z3))"

text \<open>The tasks that share the replica's data store: the background writer and the committer.\<close>

definition zeus_flush ::
  "('s, 'tx, 'b, 'c, 'g) zeus_params \<Rightarrow> ('s, 'tx, 'b, 'c, 'g) zeus \<Rightarrow> ('s, 'tx, 'b, 'c, 'g) zeus" where
  "zeus_flush P z = z\<lparr>z_db := db_flush (zp_env P) (z_db z)\<rparr>"

definition zeus_emit ::
  "('s, 'tx, 'b, 'c, 'g) zeus_params \<Rightarrow> ('s, 'tx, 'b, 'c, 'g) zeus \<Rightarrow> ('s, 'tx, 'b, 'c, 'g) zeus" where
  "zeus_emit P z = (let (ct, db) = committer_step (zp_env P) (z_ct z, z_db z) in z\<lparr>z_ct := ct, z_db := db\<rparr>)"

end
