(* ===== verification/ZeusSafety.thy ===== *)
theory ZeusSafety
  imports Zeus
begin

section \<open>Frames and invariants of the Zeus replica\<close>

text \<open>
  What each handler leaves alone, in two views of the state: the data plane, and the leader
  context of the signature plane. Then the invariants: of the certificates and blames a replica
  keeps, of the blocks it stores, and of the links between blocks.
\<close>

subsection \<open>Frames\<close>

definition static_view where
  "static_view z = (z_id z, z_secret z, z_system z, z_nodes z, z_faults z)"

definition ctl_view where
  "ctl_view z = (static_view z,
     (z_epoch z, z_qcs z, z_blames z, z_lock z, z_ct z, z_committed_high z, z_last_committed z))"

definition data_view where
  "data_view z = (ctl_view z,
     (z_chain z, z_db z, z_latest z, z_last_seen z, z_proposed z, z_last_proposed z))"

definition sig_view where
  "sig_view z = (z_lc z, z_cs z, zr_round (z_rs z), zr_msg_buf (z_rs z), zr_future (z_rs z))"

lemmas view_defs = data_view_def ctl_view_def static_view_def sig_view_def

lemma data_viewD:
  assumes "data_view z' = data_view z"
  shows "ctl_view z' = ctl_view z" "static_view z' = static_view z" "z_chain z' = z_chain z"
    "z_db z' = z_db z" "z_latest z' = z_latest z" "z_proposed z' = z_proposed z"
    "z_last_proposed z' = z_last_proposed z"
  using assms by (simp_all add: data_view_def ctl_view_def)

lemma ctl_viewD:
  assumes "ctl_view z' = ctl_view z"
  shows "z_id z' = z_id z" "z_secret z' = z_secret z" "z_system z' = z_system z" "z_nodes z' = z_nodes z"
    "z_faults z' = z_faults z" "z_epoch z' = z_epoch z" "z_qcs z' = z_qcs z" "z_blames z' = z_blames z"
    "z_lock z' = z_lock z" "z_ct z' = z_ct z" "z_committed_high z' = z_committed_high z"
    "z_last_committed z' = z_last_committed z" "static_view z' = static_view z"
  using assms by (simp_all add: ctl_view_def static_view_def)

lemma zr_handlers_sel [simp]:
  "zr_round (zr_add_handler h s) = zr_round s" "zr_msg_buf (zr_add_handler h s) = zr_msg_buf s"
  "zr_future (zr_add_handler h s) = zr_future s" "zr_got_qc (zr_add_handler h s) = zr_got_qc s"
  "zr_round (zr_add_handlers hs s) = zr_round s" "zr_msg_buf (zr_add_handlers hs s) = zr_msg_buf s"
  "zr_future (zr_add_handlers hs s) = zr_future s" "zr_got_qc (zr_add_handlers hs s) = zr_got_qc s"
  by (simp_all add: zr_add_handler_def zr_add_handlers_def)

lemma z_broadcast_view [simp]:
  "data_view (z_broadcast P m z) = data_view z" "sig_view (z_broadcast P m z) = sig_view z"
  "z_pend_att (z_broadcast P m z) = z_pend_att z" "z_loopback (z_broadcast P m z) = z_loopback z"
  by (simp_all add: z_broadcast_def view_defs)

lemma z_send_view [simp]:
  "data_view (z_send P i m z) = data_view z" "sig_view (z_send P i m z) = sig_view z"
  "z_pend_att (z_send P i m z) = z_pend_att z" "z_loopback (z_send P i m z) = z_loopback z"
  by (simp_all add: z_send_def view_defs Let_def split: option.split)

lemma z_send_loopback_view [simp]:
  "data_view (snd (z_send_loopback m z)) = data_view z" "sig_view (snd (z_send_loopback m z)) = sig_view z"
  "z_pend_att (snd (z_send_loopback m z)) = z_pend_att z"
  "set (z_loopback (snd (z_send_loopback m z))) \<subseteq> insert m (set (z_loopback z))"
  "fst (z_send_loopback m z) \<noteq> Panic"
  by (auto simp: z_send_loopback_def view_defs)

lemma data_broadcast_view [simp]:
  "data_view (data_broadcast m z) = data_view z" "sig_view (data_broadcast m z) = sig_view z"
  "z_pend_att (data_broadcast m z) = z_pend_att z" "z_loopback (data_broadcast m z) = z_loopback z"
  by (simp_all add: data_broadcast_def view_defs)

lemma mark_overflow_view [simp]:
  "data_view (mark_overflow n z) = data_view z" "sig_view (mark_overflow n z) = sig_view z"
  "z_pend_att (mark_overflow n z) = z_pend_att z" "z_loopback (mark_overflow n z) = z_loopback z"
  "z_epoch (mark_overflow n z) = z_epoch z" "z_qcs (mark_overflow n z) = z_qcs z"
  "z_blames (mark_overflow n z) = z_blames z" "z_system (mark_overflow n z) = z_system z"
  "z_faults (mark_overflow n z) = z_faults z" "z_lock (mark_overflow n z) = z_lock z"
  "z_db (mark_overflow n z) = z_db z" "z_nodes (mark_overflow n z) = z_nodes z" "z_id (mark_overflow n z) = z_id z"
  "z_overflow (mark_overflow n z) = (z_overflow z \<or> 2 ^ 64 \<le> n)"
  by (auto simp: mark_overflow_def view_defs)

lemma prime_batcher_view [simp]:
  "data_view (prime_batcher l z) = data_view z" "sig_view (prime_batcher l z) = sig_view z"
  "z_pend_att (prime_batcher l z) = z_pend_att z" "z_loopback (prime_batcher l z) = z_loopback z"
  by (simp_all add: prime_batcher_def mark_overflow_def Let_def view_defs)

lemma data_timer_view [simp]:
  "data_view (arm_data_timer k z) = data_view z" "sig_view (arm_data_timer k z) = sig_view z"
  "data_view (disarm_data_timer z) = data_view z" "sig_view (disarm_data_timer z) = sig_view z"
  "z_pend_att (arm_data_timer k z) = z_pend_att z" "z_loopback (arm_data_timer k z) = z_loopback z"
  "z_pend_att (disarm_data_timer z) = z_pend_att z" "z_loopback (disarm_data_timer z) = z_loopback z"
  by (simp_all add: arm_data_timer_def disarm_data_timer_def view_defs)

lemma upd_view [simp]:
  "data_view (z\<lparr>z_waiting := w\<rparr>) = data_view z" "sig_view (z\<lparr>z_waiting := w\<rparr>) = sig_view z"
  "data_view (z\<lparr>z_wakeup := w\<rparr>) = data_view z" "sig_view (z\<lparr>z_wakeup := w\<rparr>) = sig_view z"
  "data_view (z\<lparr>z_last_att := n\<rparr>) = data_view z" "sig_view (z\<lparr>z_last_att := n\<rparr>) = sig_view z"
  "data_view (z\<lparr>z_pend_att := q\<rparr>) = data_view z" "sig_view (z\<lparr>z_pend_att := q\<rparr>) = sig_view z"
  "data_view (z\<lparr>z_rs := rs\<rparr>) = data_view z" "data_view (z\<lparr>z_cs := cs\<rparr>) = data_view z"
  "data_view (z\<lparr>z_timer := tm\<rparr>) = data_view z" "sig_view (z\<lparr>z_timer := tm\<rparr>) = sig_view z"
  "data_view (z\<lparr>z_loopback := l\<rparr>) = data_view z" "sig_view (z\<lparr>z_loopback := l\<rparr>) = sig_view z"
  "data_view (z\<lparr>z_to_commit := l'\<rparr>) = data_view z" "sig_view (z\<lparr>z_to_commit := l'\<rparr>) = sig_view z"
  "data_view (z\<lparr>z_dtimer := d\<rparr>) = data_view z" "sig_view (z\<lparr>z_dtimer := d\<rparr>) = sig_view z"
  by (simp_all add: view_defs)

lemma handle_new_sig_round_view [simp]:
  "data_view (snd (handle_new_sig_round P z)) = data_view z"
  "sig_view (snd (handle_new_sig_round P z)) = sig_view z"
  "z_pend_att (snd (handle_new_sig_round P z)) = z_pend_att z"
  by (simp_all add: handle_new_sig_round_def Let_def bind_s_def case_prod_beta split: outcome.split)

lemma make_attestation_no_panic [simp]: "make_attestation P r z \<noteq> Panic"
  by (auto simp: make_attestation_def Let_def bind_o_def of_result_def split: sum.split)

lemma handle_new_sig_round_no_panic [simp]: "fst (handle_new_sig_round P z) \<noteq> Panic"
  by (auto simp: handle_new_sig_round_def Let_def bind_s_def z_send_loopback_def split: outcome.split)

lemma handle_new_sig_round_loopback:
  "set (z_loopback (snd (handle_new_sig_round P z))) \<subseteq> set (z_loopback z) \<union> {m. sig_round m \<noteq> None}"
  by (auto simp: handle_new_sig_round_def Let_def bind_s_def z_send_loopback_def sig_round_def
      z_broadcast_def disarm_data_timer_def split: outcome.splits)

lemma propose_if_leader_view [simp]:
  "data_view (snd (propose_if_leader P z)) = data_view z"
  "sig_view (snd (propose_if_leader P z)) = sig_view z"
  "z_pend_att (snd (propose_if_leader P z)) = z_pend_att z"
  "fst (propose_if_leader P z) = Ok ()"
  "set (z_loopback (snd (propose_if_leader P z))) \<subseteq> set (z_loopback z) \<union> {m. sig_round m \<noteq> None}"
proof -
  let ?x = "handle_new_sig_round P z"
  have "propose_if_leader P z = (if leader (z_lc z) = z_id z then (Ok (), snd ?x) else (Ok (), z))"
    using handle_new_sig_round_no_panic [of P z]
    by (cases ?x; cases "fst ?x") (auto simp: propose_if_leader_def)
  then show "data_view (snd (propose_if_leader P z)) = data_view z"
    "sig_view (snd (propose_if_leader P z)) = sig_view z"
    "z_pend_att (snd (propose_if_leader P z)) = z_pend_att z"
    "fst (propose_if_leader P z) = Ok ()"
    "set (z_loopback (snd (propose_if_leader P z))) \<subseteq> set (z_loopback z) \<union> {m. sig_round m \<noteq> None}"
    using handle_new_sig_round_loopback [of P z] by simp_all
qed

lemma z_try_commit_view [simp]:
  "data_view (snd (z_try_commit z)) = data_view z" "sig_view (snd (z_try_commit z)) = sig_view z"
  "z_pend_att (snd (z_try_commit z)) = z_pend_att z" "z_loopback (snd (z_try_commit z)) = z_loopback z"
  "fst (z_try_commit z) \<noteq> Panic"
  by (simp_all add: z_try_commit_def)

lemma advance_rounds_view [simp]:
  "data_view (snd (advance_rounds P z)) = data_view z"
  "z_pend_att (snd (advance_rounds P z)) = z_pend_att z" "z_loopback (snd (advance_rounds P z)) = z_loopback z"
  by (simp_all add: advance_rounds_def Let_def case_prod_beta view_defs split: outcome.split)

definition zeus_leader_ok :: "node_id set \<Rightarrow> nat \<Rightarrow> ('s, 'tx, 'b, 'c, 'g) zeus \<Rightarrow> bool" where
  "zeus_leader_ok N L z \<longleftrightarrow> leader_inv N L (z_lc z)"

lemma zeus_leader_ok_sig: "sig_view z' = sig_view z \<Longrightarrow> zeus_leader_ok N L z' = zeus_leader_ok N L z"
  by (simp add: zeus_leader_ok_def sig_view_def)

text \<open>A round advances by one, to the next leader of the window, and never panics.\<close>

lemma advance_rounds_ok:
  assumes "zeus_leader_ok N L z" "chooser_ok (zp_pick P)"
  shows "\<exists>z'. advance_rounds P z = (Ok (), z') \<and> zeus_leader_ok N L z' \<and>
    zr_round (z_rs z') = Suc (zr_round (z_rs z)) \<and> \<not> zr_got_qc (z_rs z') \<and>
    zr_msg_buf (z_rs z') = zr_msg_buf (z_rs z) @ entry_list (zr_future (z_rs z)) (Suc (zr_round (z_rs z)))"
proof -
  from leader_advance_ok [of start_twice N L "z_lc z" "zp_pick P"] assms obtain lc where
    "leader_advance_round (zp_pick P) (z_lc z) = Ok lc" "leader_inv N L lc"
    by (auto simp: zeus_leader_ok_def)
  then show ?thesis
    by (simp add: advance_rounds_def zr_advance_round_def Let_def zeus_leader_ok_def)
qed

lemma advance_sig_round_ok:
  assumes "zeus_leader_ok N L z" "chooser_ok (zp_pick P)"
  shows "fst (advance_sig_round P z) \<noteq> Panic" "zeus_leader_ok N L (snd (advance_sig_round P z))"
    "zr_round (z_rs (snd (advance_sig_round P z))) = Suc (zr_round (z_rs z))"
    "zr_msg_buf (z_rs (snd (advance_sig_round P z))) =
       zr_msg_buf (z_rs z) @ entry_list (zr_future (z_rs z)) (Suc (zr_round (z_rs z)))"
proof -
  obtain z1 where z1: "advance_rounds P z = (Ok (), z1)" "zeus_leader_ok N L z1"
    "zr_round (z_rs z1) = Suc (zr_round (z_rs z))"
    "zr_msg_buf (z_rs z1) = zr_msg_buf (z_rs z) @ entry_list (zr_future (z_rs z)) (Suc (zr_round (z_rs z)))"
    using advance_rounds_ok [OF assms] by blast
  obtain r2 z2 where z2: "z_try_commit z1 = (r2, z2)" by fastforce
  then have v2: "sig_view z2 = sig_view z1" "r2 \<noteq> Panic"
    using z_try_commit_view(2,5) [of z1] by simp_all
  let ?z3 = "arm_data_timer TimerDataRoundEntry z2"
  have eq: "advance_sig_round P z = (case r2 of Ok _ \<Rightarrow> propose_if_leader P ?z3 | Err e \<Rightarrow> (Err e, z2)
      | Panic \<Rightarrow> (Panic, z2))"
    using z1 z2 by (simp add: advance_sig_round_def bind_s_def split: outcome.split)
  show "fst (advance_sig_round P z) \<noteq> Panic"
    using eq v2(2) propose_if_leader_view(4) [of P ?z3] by (auto split: outcome.splits)
  have "sig_view (snd (advance_sig_round P z)) = sig_view z1"
    using eq v2 by (auto split: outcome.splits)
  then show "zeus_leader_ok N L (snd (advance_sig_round P z))"
    "zr_round (z_rs (snd (advance_sig_round P z))) = Suc (zr_round (z_rs z))"
    "zr_msg_buf (z_rs (snd (advance_sig_round P z))) =
       zr_msg_buf (z_rs z) @ entry_list (zr_future (z_rs z)) (Suc (zr_round (z_rs z)))"
    using z1 zeus_leader_ok_sig by (auto simp: sig_view_def zeus_leader_ok_def)
qed

lemma advance_sig_round_view [simp]:
  fixes P :: "('s, 'tx, 'b, 'c, 'g) zeus_params"
  shows "data_view (snd (advance_sig_round P z)) = data_view z"
  "z_pend_att (snd (advance_sig_round P z)) = z_pend_att z"
  "set (z_loopback (snd (advance_sig_round P z))) \<subseteq> set (z_loopback z) \<union> {m. sig_round m \<noteq> None}"
proof -
  define I where "I z' \<longleftrightarrow> data_view z' = data_view z \<and> z_pend_att z' = z_pend_att z \<and>
    set (z_loopback z') \<subseteq> set (z_loopback z) \<union> {m. sig_round m \<noteq> None}" for z' :: "('s, 'tx, 'b, 'c, 'g) zeus"
  have "I (snd (advance_sig_round P z))"
    unfolding advance_sig_round_def
  proof (rule bind_s_inv, goal_cases)
    case (2 a z1)
    show ?case
    proof (rule bind_s_inv, goal_cases)
      case (2 b z2)
      then show ?case
        using propose_if_leader_view(5) [of P "arm_data_timer TimerDataRoundEntry z2"] by (auto simp: I_def)
    qed (use 2 in \<open>simp add: I_def\<close>)
  qed (simp add: I_def)
  then show "data_view (snd (advance_sig_round P z)) = data_view z"
    "z_pend_att (snd (advance_sig_round P z)) = z_pend_att z"
    "set (z_loopback (snd (advance_sig_round P z))) \<subseteq> set (z_loopback z) \<union> {m. sig_round m \<noteq> None}"
    by (simp_all add: I_def)
qed

subsection \<open>The signature plane leaves the data plane alone\<close>

text \<open>What a signature-plane handler may do: it keeps the data plane and the leader context's
  invariant, and it adds nothing but signature-plane messages to the loopback and to the parked
  messages.\<close>

definition sig_step ::
  "node_id set \<Rightarrow> nat \<Rightarrow> ('s, 'tx, 'b, 'c, 'g) zeus \<Rightarrow> ('s, 'tx, 'b, 'c, 'g) zeus \<Rightarrow> bool" where
  "sig_step N L z z' \<longleftrightarrow> data_view z' = data_view z \<and>
     (zeus_leader_ok N L z \<longrightarrow> zeus_leader_ok N L z') \<and>
     (\<forall>m \<in> set (z_loopback z'). m \<in> set (z_loopback z) \<or> sig_round m \<noteq> None) \<and>
     (\<forall>k. \<forall>m \<in> set (entry_list (z_pend_att z') k). m \<in> set (entry_list (z_pend_att z) k) \<or> sig_round m \<noteq> None)"

lemma sig_step_refl [simp]: "sig_step N L z z"
  by (simp add: sig_step_def)

lemma sig_step_trans [trans]: "sig_step N L z z' \<Longrightarrow> sig_step N L z' z'' \<Longrightarrow> sig_step N L z z''"
  unfolding sig_step_def by (metis (no_types, lifting))

lemma sig_step_same:
  "data_view z' = data_view z \<Longrightarrow> sig_view z' = sig_view z \<Longrightarrow> z_pend_att z' = z_pend_att z \<Longrightarrow>
     set (z_loopback z') \<subseteq> set (z_loopback z) \<union> {m. sig_round m \<noteq> None} \<Longrightarrow> sig_step N L z z'"
  by (auto simp: sig_step_def zeus_leader_ok_def sig_view_def)

lemma advance_sig_round_step:
  "chooser_ok (zp_pick P) \<Longrightarrow> sig_step N L z (snd (advance_sig_round P z))"
  using advance_sig_round_view(3) [of P z] advance_sig_round_ok(2) [of N L z P]
  unfolding sig_step_def by auto

lemma handle_sig_blame_qc_step:
  assumes "chooser_ok (zp_pick P)"
  shows "sig_step N L z (snd (handle_sig_blame_qc P r qc z))"
    and "zeus_leader_ok N L z \<Longrightarrow> fst (handle_sig_blame_qc P r qc z) \<noteq> Panic"
proof -
  define z1 where "z1 = z\<lparr>z_rs := (z_rs z)\<lparr>zr_got_qc := True\<rparr>\<rparr>"
  define z2 where "z2 = (z_broadcast P (SigBlameQC r qc) z1)
    \<lparr>z_cs := add_qc r qc (z_cs (z_broadcast P (SigBlameQC r qc) z1))\<rparr>"
  have eq: "handle_sig_blame_qc P r qc z = advance_sig_round P z2"
    by (simp add: handle_sig_blame_qc_def Let_def z1_def z2_def)
  have s: "sig_step N L z z2"
    by (simp add: sig_step_def z2_def z1_def zeus_leader_ok_def z_broadcast_def view_defs)
  then show "sig_step N L z (snd (handle_sig_blame_qc P r qc z))"
    unfolding eq using sig_step_trans advance_sig_round_step [OF assms] by blast
  show "fst (handle_sig_blame_qc P r qc z) \<noteq> Panic" if "zeus_leader_ok N L z"
    unfolding eq using advance_sig_round_ok(1) [OF _ assms] s that by (auto simp: sig_step_def)
qed

lemma on_sig_blame_qc_step:
  assumes "chooser_ok (zp_pick P)"
  shows "sig_step N L z (snd (on_sig_blame_qc P r qc z))"
    and "zeus_leader_ok N L z \<Longrightarrow> fst (on_sig_blame_qc P r qc z) \<noteq> Panic"
  using handle_sig_blame_qc_step [OF assms, of N L z r qc]
  by (auto simp: on_sig_blame_qc_def split: outcome.split)

lemma handle_sig_blame_step:
  assumes "chooser_ok (zp_pick P)"
  shows "sig_step N L z (snd (handle_sig_blame P r auth z))"
    and "zeus_leader_ok N L z \<Longrightarrow> fst (handle_sig_blame P r auth z) \<noteq> Panic"
proof -
  define m where "m = (zr_blame_map (z_rs z))(sig_id auth \<mapsto> auth)"
  define z1 where "z1 = z\<lparr>z_rs := (z_rs z)\<lparr>zr_blame_map := m\<rparr>\<rparr>"
  define z2 where "z2 = z\<lparr>z_rs := (z_rs z)\<lparr>zr_got_qc := True, zr_blame_map := Map.empty\<rparr>\<rparr>"
  have s: "sig_step N L z z1" "sig_step N L z z2"
    by (simp_all add: sig_step_def z2_def z1_def zeus_leader_ok_def)
  have cases: "handle_sig_blame P r auth z \<in> {(Ok (), z), (Ok (), z1)} \<or>
      (\<exists>e. handle_sig_blame P r auth z = (Err e, z)) \<or>
      handle_sig_blame P r auth z = handle_sig_blame_qc P r (sig_blame_certificate (zp_order P) m) z2"
    using verify_without_id_check_no_panic
    by (auto simp: handle_sig_blame_def Let_def m_def [symmetric] z1_def z2_def
        split: option.split outcome.split)
  note qc = handle_sig_blame_qc_step [OF assms, of N L z2 r "sig_blame_certificate (zp_order P) m"]
  show "sig_step N L z (snd (handle_sig_blame P r auth z))"
    using cases s sig_step_trans [OF s(2) qc(1)] by auto
  show "fst (handle_sig_blame P r auth z) \<noteq> Panic" if "zeus_leader_ok N L z"
    using cases s qc(2) that by (auto simp: sig_step_def)
qed

lemma z_on_round_timeout_step:
  "sig_step N L z (snd (z_on_round_timeout P z))" "fst (z_on_round_timeout P z) \<noteq> Panic"
  by (auto simp: z_on_round_timeout_def Let_def sig_step_def zeus_leader_ok_def z_send_loopback_def
      z_broadcast_def view_defs sig_round_def split: outcome.split)

lemma attestation_valid_step:
  "attestation_valid P att m z = Some (v, z') \<Longrightarrow> sig_round m \<noteq> None \<Longrightarrow> sig_step N L z z'"
  by (auto simp: attestation_valid_def Let_def park_attestation_def sig_step_def zeus_leader_ok_def
      split: option.splits if_splits bool.splits)

lemma relay_view [simp]:
  "data_view (relay_sig_proposal P p auth z) = data_view z" "sig_view (relay_sig_proposal P p auth z) = sig_view z"
  "z_pend_att (relay_sig_proposal P p auth z) = z_pend_att z"
  "z_loopback (relay_sig_proposal P p auth z) = z_loopback z"
  by (simp_all add: relay_sig_proposal_def Let_def)

lemma on_correct_sig_proposal_step:
  assumes "chooser_ok (zp_pick P)"
  shows "sig_step N L z (snd (on_correct_sig_proposal P p auth att z))"
    and "zeus_leader_ok N L z \<Longrightarrow> fst (on_correct_sig_proposal P p auth att z) \<noteq> Panic"
proof -
  define z1 where "z1 = relay_sig_proposal P p auth z"
  define z2 where "z2 = z1\<lparr>z_cs := update_highest_chain (z_env (zp_env P)) p auth [att] (z_cs z1)\<rparr>"
  have eq: "on_correct_sig_proposal P p auth att z = advance_sig_round P z2"
    by (simp add: on_correct_sig_proposal_def Let_def z1_def z2_def)
  have "sig_view z1 = sig_view z" by (simp add: z1_def)
  then have s: "sig_step N L z z2"
    by (simp add: sig_step_def z2_def zeus_leader_ok_def) (simp add: z1_def sig_view_def)
  then show "sig_step N L z (snd (on_correct_sig_proposal P p auth att z))"
    unfolding eq using sig_step_trans advance_sig_round_step [OF assms] by blast
  show "fst (on_correct_sig_proposal P p auth att z) \<noteq> Panic" if "zeus_leader_ok N L z"
    unfolding eq using advance_sig_round_ok(1) [OF _ assms] s that by (auto simp: sig_step_def)
qed

lemma check_sig_leader_no_panic [simp]: "check_sig_leader P p auth z \<noteq> Panic"
  by (auto simp: check_sig_leader_def Let_def bind_o_def split: outcome.split)

lemma broadcast_data_request_view [simp]:
  "data_view (broadcast_data_request P h z) = data_view z" "sig_view (broadcast_data_request P h z) = sig_view z"
  "z_pend_att (broadcast_data_request P h z) = z_pend_att z"
  "z_loopback (broadcast_data_request P h z) = z_loopback z"
  by (simp_all add: broadcast_data_request_def)

lemma handle_sig_proposal_step:
  assumes "chooser_ok (zp_pick P)" "handle_sig_proposal P p auth att sender z = Some (r, z')"
  shows "sig_step N L z z'" and "zeus_leader_ok N L z \<Longrightarrow> r \<noteq> Panic"
proof -
  have "(z' = z \<and> r \<noteq> Panic) \<or>
    (\<exists>v z1. attestation_valid P att (SigPropose p auth att sender) z = Some (v, z1) \<and>
      ((r, z') = (Ok (), z1) \<or> (\<exists>h. (r, z') = (Ok (), broadcast_data_request P h z1)) \<or>
       (r, z') = on_correct_sig_proposal P p auth att z1))"
    using assms(2) check_sig_leader_no_panic [of P p auth z]
    by (auto simp: handle_sig_proposal_def
        split: if_splits outcome.splits option.splits attestation_validity.splits)
  then consider "z' = z" "r \<noteq> Panic"
    | v z1 where "attestation_valid P att (SigPropose p auth att sender) z = Some (v, z1)"
        "z' = z1 \<or> (\<exists>h. z' = broadcast_data_request P h z1)" "r \<noteq> Panic"
    | v z1 where "attestation_valid P att (SigPropose p auth att sender) z = Some (v, z1)"
        "(r, z') = on_correct_sig_proposal P p auth att z1"
    by auto
  then have "sig_step N L z z' \<and> (zeus_leader_ok N L z \<longrightarrow> r \<noteq> Panic)"
  proof cases
    case (2 v z1)
    have "sig_step N L z z1" by (rule attestation_valid_step [OF 2(1)]) (simp add: sig_round_def)
    moreover have "sig_step N L z1 z'" using 2(2) by (auto intro: sig_step_same)
    ultimately show ?thesis using 2(3) sig_step_trans by blast
  next
    case (3 v z1)
    have s: "sig_step N L z z1" by (rule attestation_valid_step [OF 3(1)]) (simp add: sig_round_def)
    have "z' = snd (on_correct_sig_proposal P p auth att z1)" "r = fst (on_correct_sig_proposal P p auth att z1)"
      using 3(2) by (metis fst_conv snd_conv)+
    with s on_correct_sig_proposal_step [OF assms(1), of N L z1 p auth att] sig_step_trans show ?thesis
      by (metis sig_step_def)
  qed auto
  then show "sig_step N L z z'" "zeus_leader_ok N L z \<Longrightarrow> r \<noteq> Panic" by auto
qed

lemma handle_sig_ordered_step:
  assumes "chooser_ok (zp_pick P)" "handle_sig_ordered P m z = Some (r, z')"
  shows "sig_step N L z z'" and "zeus_leader_ok N L z \<Longrightarrow> r \<noteq> Panic"
  using assms(2) handle_sig_proposal_step [OF assms(1)] handle_sig_blame_step [OF assms(1), of N L z]
    on_sig_blame_qc_step [OF assms(1), of N L z]
  by (auto simp: handle_sig_ordered_def split: zeus_msg.splits) (metis fst_conv snd_conv)+

subsection \<open>Blames and certificates\<close>

text \<open>A blame whose reason is equivocation but whose payload is the one of silence: the only input
  on which the validity check panics, and it does so before it looks at the signature.\<close>

definition mismatched :: "'tx eleader_blame \<Rightarrow> bool" where
  "mismatched bl \<longleftrightarrow> eb_reason bl = Equivocation \<and> (\<exists>h. eb_payload bl = SilenceP h)"

lemma blame_signed_bytes_cases:
  "mismatched bl \<Longrightarrow> blame_signed_bytes ze e (eb_reason bl) (eb_payload bl) = Panic"
  "\<not> mismatched bl \<Longrightarrow> \<exists>d. blame_signed_bytes ze e (eb_reason bl) (eb_payload bl) = Ok d"
  by (auto simp: blame_signed_bytes_def mismatched_def split: blame_reason.split blame_payload.split)

lemma eleader_blame_valid_cases:
  "pks (eb_signer bl) \<noteq> None \<and> mismatched bl \<Longrightarrow> eleader_blame_valid ze bl pks ex = Panic"
  "\<not> (pks (eb_signer bl) \<noteq> None \<and> mismatched bl) \<Longrightarrow> \<exists>ok. eleader_blame_valid ze bl pks ex = Ok ok"
  "eleader_blame_valid ze bl pks ex = Ok True \<Longrightarrow> \<not> mismatched bl"
proof -
  show panic: "eleader_blame_valid ze bl pks ex = Panic" if "pks (eb_signer bl) \<noteq> None \<and> mismatched bl"
    using that blame_signed_bytes_cases(1) [of bl ze "eb_epoch bl"] by (auto simp: eleader_blame_valid_def)
  show "\<exists>ok. eleader_blame_valid ze bl pks ex = Ok ok" if n: "\<not> (pks (eb_signer bl) \<noteq> None \<and> mismatched bl)"
  proof (cases "pks (eb_signer bl)")
    case (Some pk)
    with n obtain d where "blame_signed_bytes ze (eb_epoch bl) (eb_reason bl) (eb_payload bl) = Ok d"
      using blame_signed_bytes_cases(2) [of bl ze "eb_epoch bl"] by auto
    with Some show ?thesis by (auto simp: eleader_blame_valid_def split: blame_reason.split)
  qed (auto simp: eleader_blame_valid_def)
  show "\<not> mismatched bl" if "eleader_blame_valid ze bl pks ex = Ok True"
    using that panic by (cases "pks (eb_signer bl)") (auto simp: eleader_blame_valid_def)
qed

text \<open>Where exactly the loop over a certificate's blames panics.\<close>

fun poisoned_blames ::
  "('s, 'tx, 'b) zenv \<Rightarrow> nat \<Rightarrow> pk_map \<Rightarrow> node_id \<Rightarrow> 'tx eleader_blame list \<Rightarrow> bool" where
  "poisoned_blames ze e pks ex [] = False"
| "poisoned_blames ze e pks ex (bl # bls) \<longleftrightarrow> eb_epoch bl = e \<and>
     (pks (eb_signer bl) \<noteq> None \<and> mismatched bl \<or>
      eleader_blame_valid ze bl pks ex = Ok True \<and> poisoned_blames ze e pks ex bls)"

lemma poisoned_blames_mismatched:
  "poisoned_blames ze e pks ex bls \<Longrightarrow> \<exists>bl \<in> set bls. mismatched bl"
  by (induction bls) auto

lemma change_qc_loop_cases:
  "poisoned_blames ze e pks ex bls \<Longrightarrow> change_qc_loop ze e pks ex bls seen = Panic"
  "\<not> poisoned_blames ze e pks ex bls \<Longrightarrow> \<exists>r. change_qc_loop ze e pks ex bls seen = Ok r"
proof (induction bls arbitrary: seen)
  case (Cons bl bls)
  { case 1 with Cons(1) show ?case using eleader_blame_valid_cases(1) [of pks bl ze ex] by auto }
  { case 2
    show ?case
    proof (cases "eb_epoch bl = e")
      case True
      with 2 obtain ok where "eleader_blame_valid ze bl pks ex = Ok ok"
        using eleader_blame_valid_cases(2) [of pks bl ze ex] by auto
      with 2 Cons(2) True show ?thesis by auto
    qed simp }
qed simp_all

lemma change_qc_valid_cases:
  "poisoned_blames ze (ec_epoch qc) pks (eleader (ec_epoch qc) n) (ec_blames qc) \<Longrightarrow>
     eleader_change_qc_valid ze qc pks nf n = Panic"
  "\<not> poisoned_blames ze (ec_epoch qc) pks (eleader (ec_epoch qc) n) (ec_blames qc) \<Longrightarrow>
     \<exists>ok. eleader_change_qc_valid ze qc pks nf n = Ok ok"
proof -
  assume "poisoned_blames ze (ec_epoch qc) pks (eleader (ec_epoch qc) n) (ec_blames qc)"
  from change_qc_loop_cases(1) [OF this] show "eleader_change_qc_valid ze qc pks nf n = Panic"
    by (simp add: eleader_change_qc_valid_def)
next
  assume "\<not> poisoned_blames ze (ec_epoch qc) pks (eleader (ec_epoch qc) n) (ec_blames qc)"
  from change_qc_loop_cases(2) [OF this, of "{}"] show "\<exists>ok. eleader_change_qc_valid ze qc pks nf n = Ok ok"
    by (auto simp: eleader_change_qc_valid_def split: option.split)
qed

lemma change_qc_blames_matched:
  assumes "eleader_change_qc_valid ze qc pks nf n = Ok True" "bl \<in> set (ec_blames qc)"
  shows "\<not> mismatched bl"
proof -
  from assms(1) obtain S where "change_qc_loop ze (ec_epoch qc) pks (eleader (ec_epoch qc) n) (ec_blames qc) {} =
      Ok (Some S)"
    by (auto simp: eleader_change_qc_valid_def bind_o_Ok_iff split: option.splits)
  from change_qc_loop_Ok [OF this] assms(2) eleader_blame_valid_cases(3) [of ze bl pks] show ?thesis by blast
qed

text \<open>
  The invariant: every admitted certificate but the sentinel holds correctly signed blames of its
  epoch by more nodes than can be faulty, the current epoch was entered with such a certificate,
  and no kept blame is mismatched.
\<close>

definition qc_ok ::
  "('s, 'tx, 'b) zenv \<Rightarrow> pk_map \<Rightarrow> nat \<Rightarrow> nat \<Rightarrow> 'tx eleader_change_qc \<Rightarrow> bool" where
  "qc_ok ze pks nf e qc \<longleftrightarrow> ec_epoch qc = e \<and> nf < card (eb_signer ` set (ec_blames qc)) \<and>
     (\<forall>bl \<in> set (ec_blames qc). eb_epoch bl = e \<and> blame_signed_ok ze pks bl)"

definition zeus_cert_ok ::
  "('s, 'tx, 'b, 'c, 'g) zeus_params \<Rightarrow> ('s, 'tx, 'b, 'c, 'g) zeus \<Rightarrow> bool" where
  "zeus_cert_ok P z \<longleftrightarrow> z_qcs z 0 \<noteq> None \<and> z_qcs z (z_epoch z - 1) \<noteq> None \<and>
     (\<forall>e qc. 0 < e \<longrightarrow> z_qcs z e = Some qc \<longrightarrow> qc_ok (zp_env P) (z_system z) (z_faults z) e qc) \<and>
     (\<forall>e. \<forall>bl \<in> set (entry_list (z_blames z) e). \<not> mismatched bl)"

lemma zeus_cert_ok_view:
  "ctl_view z' = ctl_view z \<Longrightarrow> zeus_cert_ok P z' = zeus_cert_ok P z"
  by (simp add: zeus_cert_ok_def ctl_view_def static_view_def)

text \<open>What the handlers of a change of leader may do to the rest of the state.\<close>

definition ctl_frame where
  "ctl_frame z = ((sig_view z, static_view z, z_loopback z, z_db z),
     (z_lock z, z_ct z, z_committed_high z, z_last_committed z, dc_child_of (z_chain z)))"

definition shrinks :: "('s, 'tx, 'b, 'c, 'g) zeus \<Rightarrow> ('s, 'tx, 'b, 'c, 'g) zeus \<Rightarrow> bool" where
  "shrinks z z' \<longleftrightarrow> dom (dc_pending (z_chain z')) \<subseteq> dom (dc_pending (z_chain z)) \<and>
     (\<forall>k. set (entry_list (dc_pending (z_chain z')) k) \<subseteq> set (entry_list (dc_pending (z_chain z)) k)) \<and>
     (\<forall>k. set (entry_list (z_pend_att z') k) \<subseteq> set (entry_list (z_pend_att z) k))"

definition ctl_step :: "('s, 'tx, 'b, 'c, 'g) zeus \<Rightarrow> ('s, 'tx, 'b, 'c, 'g) zeus \<Rightarrow> bool" where
  "ctl_step z z' \<longleftrightarrow> ctl_frame z' = ctl_frame z \<and> z_latest z' \<in> {None, z_latest z} \<and> shrinks z z'"

lemma shrinks_trans: "shrinks z z' \<Longrightarrow> shrinks z' z'' \<Longrightarrow> shrinks z z''"
  unfolding shrinks_def by (meson order_trans)

lemma ctl_step_refl [simp]: "ctl_step z z"
  by (simp add: ctl_step_def shrinks_def)

lemma ctl_step_trans [trans]: "ctl_step z z' \<Longrightarrow> ctl_step z' z'' \<Longrightarrow> ctl_step z z''"
  using shrinks_trans [of z z' z''] unfolding ctl_step_def by auto

lemma ctl_step_same:
  "data_view z' = data_view z \<Longrightarrow> sig_view z' = sig_view z \<Longrightarrow> z_pend_att z' = z_pend_att z \<Longrightarrow>
     z_loopback z' = z_loopback z \<Longrightarrow> ctl_step z z'"
  by (simp add: ctl_step_def shrinks_def ctl_frame_def data_view_def ctl_view_def)

lemma ctl_step_blames: "ctl_step z z' \<Longrightarrow> ctl_step z (z'\<lparr>z_blames := bl\<rparr>)"
  by (simp add: ctl_step_def shrinks_def ctl_frame_def view_defs)

lemma ctl_step_qcs: "ctl_step z z' \<Longrightarrow> ctl_step z (z'\<lparr>z_qcs := q\<rparr>)"
  by (simp add: ctl_step_def shrinks_def ctl_frame_def view_defs)

lemma entry_list_purge:
  "set (entry_list (purge_pending_blocks ht db pend) k) \<subseteq> set (entry_list pend k)"
  "dom (purge_pending_blocks ht db pend) \<subseteq> dom pend"
  "set (entry_list (purge_pending_attestations ht db att) k) \<subseteq> set (entry_list att k)"
  by (auto simp: purge_pending_blocks_def purge_pending_attestations_def entry_list_def Let_def
      split: option.splits if_splits)

lemma prime_if_view [simp]:
  "data_view (if b then prime_batcher l z else z) = data_view z"
  "sig_view (if b then prime_batcher l z else z) = sig_view z"
  "z_pend_att (if b then prime_batcher l z else z) = z_pend_att z"
  "z_loopback (if b then prime_batcher l z else z) = z_loopback z"
  by simp_all

lemma advance_to_epoch_step:
  "ctl_step z (advance_to_epoch P e z)" "z_epoch (advance_to_epoch P e z) = e"
  "z_qcs (advance_to_epoch P e z) = z_qcs z" "z_blames (advance_to_epoch P e z) = z_blames z"
proof -
  obtain h ht where h: "(case latest_committed_attestation (z_lock z) of
      Some att \<Rightarrow> (ae_block_hash (at_envelope att), ae_block_height (at_envelope att))
    | None \<Rightarrow> (data_block_hash (zp_env P) data_genesis, 0)) = (h, ht)" by fastforce
  define z1 where "z1 = z\<lparr>z_epoch := e,
    z_chain := (z_chain z)\<lparr>dc_head_hash := h, dc_head_height := ht,
      dc_pending := purge_pending_blocks ht (z_db z) (dc_pending (z_chain z))\<rparr>,
    z_proposed := ht, z_last_proposed := None, z_waiting := False, z_latest := None,
    z_pend_att := purge_pending_attestations ht (z_db z) (z_pend_att z)\<rparr>"
  define z2 where "z2 = arm_data_timer TimerDataRoundEntry z1"
  have eq: "advance_to_epoch P e z = (if z_id z2 = eleader e (z_nodes z2) then prime_batcher (z_id z2) z2 else z2)"
    using h by (simp add: advance_to_epoch_def Let_def z1_def [symmetric] z2_def)
  have dv: "data_view (advance_to_epoch P e z) = data_view z1"
    "sig_view (advance_to_epoch P e z) = sig_view z1" "z_pend_att (advance_to_epoch P e z) = z_pend_att z1"
    "z_loopback (advance_to_epoch P e z) = z_loopback z1"
    unfolding eq by (simp_all add: z2_def)
  have "ctl_step z z1"
    by (simp add: ctl_step_def ctl_frame_def shrinks_def z1_def view_defs entry_list_purge)
  moreover have "ctl_step z1 (advance_to_epoch P e z)" using dv by (rule ctl_step_same)
  ultimately show "ctl_step z (advance_to_epoch P e z)" by (rule ctl_step_trans)
  show "z_epoch (advance_to_epoch P e z) = e" "z_qcs (advance_to_epoch P e z) = z_qcs z"
    "z_blames (advance_to_epoch P e z) = z_blames z"
    using ctl_viewD [OF data_viewD(1) [OF dv(1)]] by (simp_all add: z1_def)
qed

text \<open>After a certificate of an epoch was admitted, a replica that is not past the epoch enters the next.\<close>

lemma ctl_step_mark [simp]: "ctl_step (mark_overflow n z) z' = ctl_step z z'"
  by (simp add: mark_overflow_def ctl_step_def shrinks_def ctl_frame_def view_defs)

lemma advance_past_ok:
  assumes "zeus_cert_ok P z" "z_qcs z e \<noteq> None"
  shows "ctl_step z (advance_past P e z)" "zeus_cert_ok P (advance_past P e z)"
    "z_qcs (advance_past P e z) = z_qcs z" "z_blames (advance_past P e z) = z_blames z"
    "e + 1 < 2 ^ 64 \<Longrightarrow> z_epoch z \<le> z_epoch (advance_past P e z)"
    "e + 1 < 2 ^ 64 \<Longrightarrow> e < z_epoch (advance_past P e z)"
proof -
  define e' where "e' = incremented (e + 1)"
  let ?z = "mark_overflow (e + 1) z"
  note st = advance_to_epoch_step [where e = e' and z = ?z and P = P, simplified]
  have eq: "advance_past P e z = (if z_epoch z \<le> e then advance_to_epoch P e' ?z else z)"
    by (simp add: advance_past_def e'_def)
  have sv: "static_view (advance_to_epoch P e' ?z) = static_view z"
    using st(1) by (simp add: ctl_step_def ctl_frame_def)
  show c: "ctl_step z (advance_past P e z)" "z_qcs (advance_past P e z) = z_qcs z" "z_blames (advance_past P e z) = z_blames z"
    using st by (simp_all add: eq)
  have "e' = Suc e \<or> e' = 0" by (simp add: e'_def incremented_def)
  then show "zeus_cert_ok P (advance_past P e z)"
    using assms st(2-4) sv unfolding eq zeus_cert_ok_def static_view_def by (cases "z_epoch z \<le> e") auto
  assume "e + 1 < 2 ^ 64"
  then have "e' = Suc e" by (simp add: e'_def incremented_def)
  then show "z_epoch z \<le> z_epoch (advance_past P e z)" "e < z_epoch (advance_past P e z)"
    using st(2) by (simp_all add: eq)
qed

lemma zeus_cert_ok_add_qc:
  assumes "zeus_cert_ok P z" "e = 0 \<or> qc_ok (zp_env P) (z_system z) (z_faults z) e qc"
  shows "zeus_cert_ok P (z\<lparr>z_qcs := (z_qcs z)(e \<mapsto> qc)\<rparr>)"
  using assms by (auto simp: zeus_cert_ok_def)

lemma zeus_cert_ok_blames:
  "zeus_cert_ok P z \<Longrightarrow> \<forall>e. \<forall>bl \<in> set (entry_list bls e). \<not> mismatched bl \<Longrightarrow>
     zeus_cert_ok P (z\<lparr>z_blames := bls\<rparr>)"
  by (simp add: zeus_cert_ok_def)

lemma change_qc_valid_ok:
  assumes "eleader_change_qc_valid ze qc pks nf n = Ok True"
  shows "qc_ok ze pks nf (ec_epoch qc) qc"
  using change_qc_quorum [OF assms] by (auto simp: qc_ok_def)

definition ctl_ok ::
  "('s, 'tx, 'b, 'c, 'g) zeus_params \<Rightarrow> ('s, 'tx, 'b, 'c, 'g) zeus \<Rightarrow> unit outcome \<times> ('s, 'tx, 'b, 'c, 'g) zeus \<Rightarrow> bool" where
  "ctl_ok P z x \<longleftrightarrow> ctl_step z (snd x) \<and> zeus_cert_ok P (snd x)"

lemma try_form_change_qc_ok:
  assumes "zeus_cert_ok P z"
  shows "ctl_ok P z (try_form_change_qc P e z)" "fst (try_form_change_qc P e z) = Ok ()"
proof -
  have "ctl_ok P z (try_form_change_qc P e z) \<and> fst (try_form_change_qc P e z) = Ok ()"
  proof (cases "z_qcs z e = None \<and> (\<exists>bls. z_blames z e = Some bls \<and> z_faults z + 1 \<le> card (eb_signer ` set bls))")
    case False
    then have "try_form_change_qc P e z = (Ok (), z)"
      by (auto simp: try_form_change_qc_def Let_def split: option.split)
    with assms show ?thesis by (simp add: ctl_ok_def)
  next
    case True
    then obtain bls where bls: "z_blames z e = Some bls" "\<not> card (eb_signer ` set bls) < z_faults z + 1" by auto
    define qc where "qc = \<lparr>ec_epoch = e, ec_blames = bls\<rparr>"
    have "\<forall>bl \<in> set bls. \<not> mismatched bl"
    proof
      fix bl assume "bl \<in> set bls"
      then have "bl \<in> set (entry_list (z_blames z) e)" using bls(1) by (simp add: entry_list_def)
      with assms show "\<not> mismatched bl" unfolding zeus_cert_ok_def by blast
    qed
    then have "\<not> poisoned_blames (zp_env P) e (z_system z) (eleader e (z_nodes z)) bls"
      using poisoned_blames_mismatched by blast
    then obtain ok where ok: "eleader_change_qc_valid (zp_env P) qc (z_system z) (z_faults z) (z_nodes z) = Ok ok"
      using change_qc_valid_cases(2) [of "zp_env P" qc "z_system z" "z_nodes z" "z_faults z"]
      by (auto simp: qc_def)
    show ?thesis
    proof (cases ok)
      case False
      with True bls ok assms show ?thesis
        by (simp add: try_form_change_qc_def qc_def ctl_ok_def)
    next
      case ok1: True
      define z1 where "z1 = z\<lparr>z_qcs := (z_qcs z)(e \<mapsto> qc)\<rparr>"
      define z2 where "z2 = z_broadcast P (EleaderChangeQC qc) z1"
      have eq: "try_form_change_qc P e z = (Ok (), advance_past P e z2)"
        using True bls ok ok1 by (simp add: try_form_change_qc_def Let_def qc_def z1_def z2_def)
      have "qc_ok (zp_env P) (z_system z) (z_faults z) e qc"
        using change_qc_valid_ok [of "zp_env P" qc] ok ok1 by (simp add: qc_def)
      then have c1: "zeus_cert_ok P z1" unfolding z1_def by (intro zeus_cert_ok_add_qc assms) simp
      have "data_view z2 = data_view z1" by (simp add: z2_def)
      then have c2: "zeus_cert_ok P z2" "z_qcs z2 e \<noteq> None"
        using zeus_cert_ok_view [OF data_viewD(1)] ctl_viewD(7) [OF data_viewD(1), of z2 z1] c1
        by (auto simp: z1_def)
      have "ctl_step z z1" unfolding z1_def by (intro ctl_step_qcs) simp
      also have "ctl_step z1 z2" by (rule ctl_step_same) (simp_all add: z2_def)
      also have "ctl_step z2 (advance_past P e z2)" by (rule advance_past_ok(1) [OF c2])
      finally show ?thesis using eq advance_past_ok(2) [OF c2] by (simp add: ctl_ok_def)
    qed
  qed
  then show "ctl_ok P z (try_form_change_qc P e z)" "fst (try_form_change_qc P e z) = Ok ()" by auto
qed

lemma ctl_okI: "zeus_cert_ok P z \<Longrightarrow> snd x = z \<Longrightarrow> ctl_ok P z x"
  by (simp add: ctl_ok_def)

lemma ctl_ok_after: "ctl_step z z1 \<Longrightarrow> ctl_ok P z1 x \<Longrightarrow> ctl_ok P z x"
  using ctl_step_trans [of z z1 "snd x"] by (simp add: ctl_ok_def)

lemma zeus_cert_ok_matched:
  "zeus_cert_ok P z \<Longrightarrow> bl \<in> set (entry_list (z_blames z) e) \<Longrightarrow> \<not> mismatched bl"
  by (auto simp: zeus_cert_ok_def)

lemma zeus_cert_ok_push:
  assumes "zeus_cert_ok P z" "\<not> mismatched bl"
  shows "zeus_cert_ok P (z\<lparr>z_blames := push_entry e bl (z_blames z)\<rparr>)"
  using assms by (intro zeus_cert_ok_blames) (auto simp: zeus_cert_ok_def)

lemma on_eleader_blame_ok:
  assumes "zeus_cert_ok P z"
  shows "ctl_ok P z (on_eleader_blame P bl z)"
    and "fst (on_eleader_blame P bl z) = Panic \<longleftrightarrow> z_system z (eb_signer bl) \<noteq> None \<and> mismatched bl"
proof -
  let ?v = "eleader_blame_valid (zp_env P) bl (z_system z) (eleader (eb_epoch bl) (z_nodes z))"
  define z1 where "z1 = z\<lparr>z_blames := (z_blames z)(eb_epoch bl \<mapsto> entry_list (z_blames z) (eb_epoch bl))\<rparr>"
  define z2 where "z2 = z1\<lparr>z_blames := push_entry (eb_epoch bl) bl (z_blames z1)\<rparr>"
  have "entry_list ((z_blames z)(eb_epoch bl \<mapsto> entry_list (z_blames z) (eb_epoch bl))) e = entry_list (z_blames z) e" for e
    by (simp add: entry_list_def)
  then have c1: "zeus_cert_ok P z1" unfolding z1_def
    using zeus_cert_ok_matched [OF assms] by (intro zeus_cert_ok_blames assms) simp
  have s1: "ctl_step z z1" "ctl_step z z2"
    by (auto simp: z1_def z2_def intro!: ctl_step_blames)
  have panic: "fst (on_eleader_blame P bl z) = Panic" "snd (on_eleader_blame P bl z) = z"
    if "z_system z (eb_signer bl) \<noteq> None \<and> mismatched bl"
    using eleader_blame_valid_cases(1) [of "z_system z" bl "zp_env P"] that by (simp_all add: on_eleader_blame_def)
  have ok: "ctl_ok P z (on_eleader_blame P bl z) \<and> fst (on_eleader_blame P bl z) = Ok ()" if v: "?v = Ok ok" for ok
  proof (cases ok)
    case False
    with v assms show ?thesis by (simp add: on_eleader_blame_def ctl_ok_def)
  next
    case True
    have m: "\<not> mismatched bl" using v True eleader_blame_valid_cases(3) [of "zp_env P" bl] by simp
    then have "zeus_cert_ok P z2" unfolding z2_def by (intro zeus_cert_ok_push c1)
    note tf = try_form_change_qc_ok [OF this, of "eb_epoch bl"]
    show ?thesis
    proof (cases "\<exists>b \<in> set (entry_list (z_blames z) (eb_epoch bl)). same_blame b bl")
      case dup: True
      then have "on_eleader_blame P bl z = (Ok (), z1)"
        using v True by (simp add: on_eleader_blame_def Let_def z1_def)
      with s1 c1 show ?thesis by (simp add: ctl_ok_def)
    next
      case False
      then have "on_eleader_blame P bl z = try_form_change_qc P (eb_epoch bl) z2"
        using v True by (simp add: on_eleader_blame_def Let_def z1_def z2_def)
      with ctl_ok_after [OF s1(2) tf(1)] tf(2) show ?thesis by simp
    qed
  qed
  show "ctl_ok P z (on_eleader_blame P bl z)"
    and "fst (on_eleader_blame P bl z) = Panic \<longleftrightarrow> z_system z (eb_signer bl) \<noteq> None \<and> mismatched bl"
    using panic ok assms eleader_blame_valid_cases(2) [of "z_system z" bl "zp_env P" "eleader (eb_epoch bl) (z_nodes z)"]
    by (cases "z_system z (eb_signer bl) \<noteq> None \<and> mismatched bl"; auto simp: ctl_ok_def)+
qed

lemma set_merge_blames: "set (merge_blames l bls) \<subseteq> set l \<union> set bls"
proof (induction bls arbitrary: l)
  case (Cons b bls)
  let ?l = "if \<exists>x \<in> set l. same_blame x b then l else l @ [b]"
  have "set (merge_blames l (b # bls)) \<subseteq> set ?l \<union> set bls"
    using Cons [of ?l] by (simp add: merge_blames_def)
  then show ?case by (auto split: if_splits)
qed (simp add: merge_blames_def)

lemma on_eleader_change_qc_ok:
  assumes "zeus_cert_ok P z"
  shows "ctl_ok P z (on_eleader_change_qc P qc z)"
    and "fst (on_eleader_change_qc P qc z) = Panic \<longleftrightarrow> z_qcs z (ec_epoch qc) = None \<and>
      poisoned_blames (zp_env P) (ec_epoch qc) (z_system z) (eleader (ec_epoch qc) (z_nodes z)) (ec_blames qc)"
proof -
  let ?v = "eleader_change_qc_valid (zp_env P) qc (z_system z) (z_faults z) (z_nodes z)"
  let ?p = "poisoned_blames (zp_env P) (ec_epoch qc) (z_system z) (eleader (ec_epoch qc) (z_nodes z)) (ec_blames qc)"
  have "ctl_ok P z (on_eleader_change_qc P qc z) \<and>
    (fst (on_eleader_change_qc P qc z) = Panic \<longleftrightarrow> z_qcs z (ec_epoch qc) = None \<and> ?p)"
  proof (cases "z_qcs z (ec_epoch qc) = None")
    case False
    with assms show ?thesis by (auto simp: on_eleader_change_qc_def ctl_ok_def)
  next
    case new: True
    show ?thesis
    proof (cases ?p)
      case True
      with new assms show ?thesis
        using change_qc_valid_cases(1) [OF True] by (simp add: on_eleader_change_qc_def ctl_ok_def)
    next
      case False
      then obtain ok where ok: "?v = Ok ok"
        using change_qc_valid_cases(2) [of "zp_env P" qc "z_system z" "z_nodes z" "z_faults z"] by auto
      show ?thesis
      proof (cases ok)
        case no: False
        with new ok assms False show ?thesis by (simp add: on_eleader_change_qc_def ctl_ok_def)
      next
        case True
        with ok have v: "?v = Ok True" by simp
        define bls where "bls = (z_blames z)(ec_epoch qc \<mapsto>
          merge_blames (entry_list (z_blames z) (ec_epoch qc)) (ec_blames qc))"
        define z1 where "z1 = z\<lparr>z_qcs := (z_qcs z)(ec_epoch qc \<mapsto> qc), z_blames := bls\<rparr>"
        have "zeus_cert_ok P (z\<lparr>z_qcs := (z_qcs z)(ec_epoch qc \<mapsto> qc)\<rparr>)"
          by (rule zeus_cert_ok_add_qc [OF assms disjI2]) (rule change_qc_valid_ok [OF v])
        moreover have "\<not> mismatched bl" if bl: "bl \<in> set (entry_list bls e)" for e bl
        proof (cases "e = ec_epoch qc")
          case True
          with bl have "bl \<in> set (entry_list (z_blames z) (ec_epoch qc)) \<union> set (ec_blames qc)"
            using set_merge_blames [of "entry_list (z_blames z) (ec_epoch qc)" "ec_blames qc"]
            by (auto simp: bls_def entry_list_def)
          then show ?thesis
            using zeus_cert_ok_matched [OF assms] change_qc_blames_matched [OF v] by blast
        next
          case False
          with bl have "bl \<in> set (entry_list (z_blames z) e)" by (simp add: bls_def entry_list_def)
          then show ?thesis using zeus_cert_ok_matched [OF assms] by blast
        qed
        ultimately have c1: "zeus_cert_ok P z1" unfolding z1_def
          using zeus_cert_ok_blames [of P "z\<lparr>z_qcs := (z_qcs z)(ec_epoch qc \<mapsto> qc)\<rparr>" bls] by simp
        have q1: "z_qcs z1 (ec_epoch qc) \<noteq> None" by (simp add: z1_def)
        have eq: "on_eleader_change_qc P qc z = (Ok (), advance_past P (ec_epoch qc) z1)"
          using new v by (simp add: on_eleader_change_qc_def Let_def z1_def bls_def)
        have "ctl_step z z1" unfolding z1_def
          by (rule ctl_step_blames [OF ctl_step_qcs [OF ctl_step_refl]])
        also have "ctl_step z1 (advance_past P (ec_epoch qc) z1)" by (rule advance_past_ok(1) [OF c1 q1])
        finally show ?thesis using eq advance_past_ok(2) [OF c1 q1] False by (simp add: ctl_ok_def)
      qed
    qed
  qed
  then show "ctl_ok P z (on_eleader_change_qc P qc z)"
    and "fst (on_eleader_change_qc P qc z) = Panic \<longleftrightarrow> z_qcs z (ec_epoch qc) = None \<and> ?p" by auto
qed

lemma cast_blame_ok:
  assumes "zeus_cert_ok P z" "\<not> mismatched bl"
  shows "ctl_ok P z (cast_blame P bl z)" "fst (cast_blame P bl z) = Ok ()"
proof -
  define z1 where "z1 = z_broadcast P (EleaderBlame bl) z"
  define z2 where "z2 = z1\<lparr>z_blames := push_entry (eb_epoch bl) bl (z_blames z1)\<rparr>"
  have eq: "cast_blame P bl z = try_form_change_qc P (eb_epoch bl) z2"
    by (simp add: cast_blame_def Let_def z1_def z2_def)
  have "data_view z1 = data_view z" by (simp add: z1_def)
  then have "zeus_cert_ok P z1" using zeus_cert_ok_view [OF data_viewD(1)] assms(1) by blast
  then have c2: "zeus_cert_ok P z2" unfolding z2_def by (intro zeus_cert_ok_push assms(2))
  have "ctl_step z z1" by (rule ctl_step_same) (simp_all add: z1_def)
  then have "ctl_step z z2" unfolding z2_def by (rule ctl_step_blames)
  from ctl_ok_after [OF this try_form_change_qc_ok(1) [OF c2]] try_form_change_qc_ok(2) [OF c2]
  show "ctl_ok P z (cast_blame P bl z)" "fst (cast_blame P bl z) = Ok ()" by (simp_all add: eq)
qed

end
