(* ===== verification/ZeusAdmission.thy ===== *)
theory ZeusAdmission
  imports ZeusSafety
begin

section \<open>Admission of data blocks\<close>

text \<open>
  The admission of a block, the drain of the blocks parked under the head and the walk of the head
  call each other. The locale \<open>admission\<close> states what a property of the state needs to hold through
  all of them: that the elementary operations keep it. Its interpretations are the frames of
  admission, the authenticity of the stored blocks and the soundness of the links between blocks;
  the last gives that admission returns.
\<close>

lemma db_get_no_panic [simp]: "db_get ze h db \<noteq> Panic"
  by (auto simp: db_get_def db_read_as_def bind_o_def split: option.splits outcome.splits prod.split)

lemma insert_and_advance_eq:
  "insert_and_advance P b h par z = set_head h b (insert_non_head P b h par z)"
  by (simp add: insert_and_advance_def insert_non_head_def)

text \<open>The induction rules of the two loops, with the parameters fixed.\<close>

lemma head_walk_induct [consumes 1, case_names step]:
  fixes P :: "('s, 'tx, 'b, 'c, 'g) zeus_params"
  assumes "advance_head_via_child_of P z = Some y"
    and step: "\<And>self z y. (\<And>z y. self z = Some y \<Longrightarrow> R z y) \<Longrightarrow>
      (case dc_child_of (z_chain z) (dc_head_hash (z_chain z)) of
         None \<Rightarrow> Some (Ok (), z)
       | Some h \<Rightarrow> (case db_get (zp_env P) h (z_db z) of
           Err e \<Rightarrow> Some (Err e, z) | Panic \<Rightarrow> Some (Panic, z)
         | Ok None \<Rightarrow> Some (Ok (), z)
         | Ok (Some b) \<Rightarrow> self (set_head h b z))) = Some y \<Longrightarrow> R z y"
  shows "R z y"
proof -
  have "(\<lambda>(Q, z) y. Q = P \<longrightarrow> R z y) (P, z) y"
  proof (rule advance_head_via_child_of.raw_induct [OF _ assms(1)], goal_cases)
    case h: (1 self Q z y)
    show ?case unfolding prod.case
    proof
      assume q: "Q = P"
      have "R z y" if "self P z = Some y" for z y using h(1) [OF that] by simp
      then show "R z y" using h(2) unfolding q by (rule step)
    qed
  qed
  then show ?thesis by simp
qed

lemma admit_run_induct [consumes 1, case_names step]:
  fixes P :: "('s, 'tx, 'b, 'c, 'g) zeus_params"
  assumes "admit_run P job z = Some y"
    and step: "\<And>self job z y. (\<And>job z y. self job z = Some y \<Longrightarrow> R job z y) \<Longrightarrow>
      (case job of
         AdmitBlock b \<Rightarrow>
           let h = data_block_hash (zp_env P) b; par = b_parent b
           in if par = dc_head_hash (z_chain z)
              then bind_z (self DrainPending) (\<lambda>_ z. Some (Ok (), drain_head z)) (insert_and_advance P b h par z)
              else if db_contains par (z_db z)
              then bind_z (self DrainPending) (\<lambda>_. bind_z (advance_head_via_child_of P)
                     (\<lambda>_ z. Some (Ok (), drain_head z))) (insert_non_head P b h par z)
              else Some (Ok (), park_block P b z)
       | AdmitAll [] \<Rightarrow> Some (Ok (), z)
       | AdmitAll (b # bs') \<Rightarrow> bind_z (self (AdmitBlock b)) (\<lambda>_. self (AdmitAll bs')) z
       | DrainPending \<Rightarrow>
           let (parked, z1) = take_pending z
           in if parked = [] then Some (Ok (), z1)
              else bind_z (self (AdmitAll parked)) (\<lambda>_. self DrainPending) z1) = Some y \<Longrightarrow> R job z y"
  shows "R job z y"
proof -
  have "(\<lambda>((Q, job), z) y. Q = P \<longrightarrow> R job z y) ((P, job), z) y"
  proof (rule admit_run.raw_induct [OF _ assms(1)], goal_cases)
    case h: (1 self Q job z y)
    show ?case unfolding prod.case
    proof
      assume q: "Q = P"
      have "R job z y" if "self P job z = Some y" for job z y using h(1) [OF that] by simp
      then show "R job z y" using h(2) unfolding q by (rule step)
    qed
  qed
  then show ?thesis by simp
qed

locale admission =
  fixes P :: "('s, 'tx, 'b, 'c, 'g) zeus_params"
    and I :: "('s, 'tx, 'b, 'c, 'g) zeus \<Rightarrow> bool"
    and Q :: "'tx data_block \<Rightarrow> bool"
  assumes insert: "I z \<Longrightarrow> Q b \<Longrightarrow> I (insert_non_head P b (data_block_hash (zp_env P) b) (b_parent b) z)"
    and head: "I z \<Longrightarrow> dc_child_of (z_chain z) (dc_head_hash (z_chain z)) = Some h \<Longrightarrow> I (set_head h c z)"
    and park: "I z \<Longrightarrow> Q b \<Longrightarrow> I (park_block P b z)"
    and take: "I z \<Longrightarrow> I (snd (take_pending z))"
    and parked: "I z \<Longrightarrow> b \<in> set (fst (take_pending z)) \<Longrightarrow> Q b"
    and replay: "I z \<Longrightarrow> I (drain_head z)"
begin

lemma advance:
  "I z \<Longrightarrow> Q b \<Longrightarrow> b_parent b = dc_head_hash (z_chain z) \<Longrightarrow>
     I (insert_and_advance P b (data_block_hash (zp_env P) b) (b_parent b) z)"
  unfolding insert_and_advance_eq
  by (intro head insert) (simp_all add: insert_non_head_def link_child_def)

lemma walk: "advance_head_via_child_of P z = Some x \<Longrightarrow> I z \<Longrightarrow> I (snd x) \<and> fst x \<noteq> Panic"
proof (induction rule: head_walk_induct)
  case (step self z x)
  show ?case
  proof (cases "dc_child_of (z_chain z) (dc_head_hash (z_chain z))")
    case None
    with step show ?thesis by auto
  next
    case (Some h)
    then have "I (set_head h c z)" for c using step.prems by (intro head)
    with step.hyps step.IH Some show ?thesis
      using db_get_no_panic [of "zp_env P" h "z_db z"] step.prems
      by (auto split: outcome.splits option.splits)
  qed
qed

definition job_ok :: "'tx admit_job \<Rightarrow> bool" where
  "job_ok job = (case job of AdmitBlock b \<Rightarrow> Q b | AdmitAll bs \<Rightarrow> \<forall>b \<in> set bs. Q b | DrainPending \<Rightarrow> True)"

lemma bind_z_keeps:
  assumes "bind_z m k z = Some x" "I z"
    and "\<And>y. m z = Some y \<Longrightarrow> I z \<Longrightarrow> I (snd y) \<and> fst y \<noteq> Panic"
    and "\<And>z1. m z = Some (Ok (), z1) \<Longrightarrow> I z1 \<Longrightarrow> k () z1 = Some x \<Longrightarrow> I (snd x) \<and> fst x \<noteq> Panic"
  shows "I (snd x) \<and> fst x \<noteq> Panic"
proof -
  from assms(1) obtain r z1 where m: "m z = Some (r, z1)"
    by (auto simp: bind_z_def Option.bind_eq_Some_conv)
  note i = assms(3) [OF m assms(2)]
  show ?thesis
    using assms(1,4) m i by (cases r) (auto simp: bind_z_def)
qed

lemma admit: "admit_run P job z = Some x \<Longrightarrow> I z \<Longrightarrow> job_ok job \<Longrightarrow> I (snd x) \<and> fst x \<noteq> Panic"
proof (induction rule: admit_run_induct)
  case (step self job z x)
  have drained: "I (snd x) \<and> fst x \<noteq> Panic" if "Some (Ok (), drain_head z') = Some x" "I z'" for z'
    using that replay by auto
  show ?case
  proof (cases job)
    case (AdmitBlock b)
    with step.prems have q: "Q b" by (simp add: job_ok_def)
    define h where "h = data_block_hash (zp_env P) b"
    consider (top) "b_parent b = dc_head_hash (z_chain z)"
      | (old) "b_parent b \<noteq> dc_head_hash (z_chain z)" "db_contains (b_parent b) (z_db z)"
      | (missing) "b_parent b \<noteq> dc_head_hash (z_chain z)" "\<not> db_contains (b_parent b) (z_db z)" by blast
    then show ?thesis
    proof cases
      case top
      with AdmitBlock step.hyps
      have "bind_z (self DrainPending) (\<lambda>_ z. Some (Ok (), drain_head z))
          (insert_and_advance P b h (b_parent b) z) = Some x" by (simp add: h_def)
      moreover have "I (insert_and_advance P b h (b_parent b) z)"
        unfolding h_def using step.prems q top by (intro advance) auto
      ultimately show ?thesis
        by (rule bind_z_keeps) (use step.IH drained in \<open>auto simp: job_ok_def\<close>)
    next
      case old
      with AdmitBlock step.hyps
      have "bind_z (self DrainPending) (\<lambda>_. bind_z (advance_head_via_child_of P)
          (\<lambda>_ z. Some (Ok (), drain_head z))) (insert_non_head P b h (b_parent b) z) = Some x"
        by (simp add: h_def)
      moreover have "I (insert_non_head P b h (b_parent b) z)"
        unfolding h_def using step.prems q by (intro insert) auto
      ultimately show ?thesis
      proof (rule bind_z_keeps, goal_cases)
        case (2 z1)
        from 2(3,2) show ?case by (rule bind_z_keeps) (use walk drained in auto)
      qed (use step.IH in \<open>auto simp: job_ok_def\<close>)
    next
      case missing
      with AdmitBlock step.hyps have "x = (Ok (), park_block P b z)" by simp
      with park step.prems q show ?thesis by simp
    qed
  next
    case (AdmitAll bs)
    show ?thesis
    proof (cases bs)
      case Nil
      with AdmitAll step show ?thesis by auto
    next
      case (Cons b bs')
      with AdmitAll step.prems have q: "job_ok (AdmitBlock b)" "job_ok (AdmitAll bs')"
        by (auto simp: job_ok_def)
      from Cons AdmitAll step.hyps have "bind_z (self (AdmitBlock b)) (\<lambda>_. self (AdmitAll bs')) z = Some x"
        by simp
      from this step.prems(1) show ?thesis by (rule bind_z_keeps) (use step.IH q in auto)
    qed
  next
    case DrainPending
    obtain ps z1 where tp: "take_pending z = (ps, z1)" by fastforce
    with take [OF step.prems(1)] parked [OF step.prems(1)]
    have i: "I z1" "job_ok (AdmitAll ps)" by (auto simp: job_ok_def)
    show ?thesis
    proof (cases "ps = []")
      case True
      with DrainPending tp step.hyps i show ?thesis by auto
    next
      case False
      with DrainPending tp step.hyps
      have "bind_z (self (AdmitAll ps)) (\<lambda>_. self DrainPending) z1 = Some x" by simp
      from this i(1) show ?thesis by (rule bind_z_keeps) (use step.IH i in \<open>auto simp: job_ok_def\<close>)
    qed
  qed
qed

end

subsection \<open>What the elementary operations change\<close>

lemma z_send_sel [simp]:
  "z_chain (z_broadcast P m z) = z_chain z" "z_db (z_broadcast P m z) = z_db z"
  "z_chain (z_send P i m z) = z_chain z" "z_db (z_send P i m z) = z_db z"
  by (simp_all add: z_broadcast_def z_send_def Let_def split: option.split)

lemma effects_view [simp]:
  "ctl_view (post_admit_side_effects n z) = ctl_view z" "sig_view (post_admit_side_effects n z) = sig_view z"
  "z_chain (post_admit_side_effects n z) = z_chain z" "z_db (post_admit_side_effects n z) = z_db z"
  "z_pend_att (post_admit_side_effects n z) = z_pend_att z"
  "z_loopback (post_admit_side_effects n z) = z_loopback z"
  by (simp_all add: post_admit_side_effects_def wakeup_effect_def window_effect_def timer_reset_effect_def
      disarm_data_timer_def prime_batcher_def mark_overflow_def Let_def ctl_view_def static_view_def sig_view_def)

lemma set_head_view [simp]:
  "ctl_view (set_head h b z) = ctl_view z" "sig_view (set_head h b z) = sig_view z"
  "z_chain (set_head h b z) = (z_chain z)\<lparr>dc_head_hash := h, dc_head_height := b_height b\<rparr>"
  "z_db (set_head h b z) = z_db z" "z_pend_att (set_head h b z) = z_pend_att z"
  "z_loopback (set_head h b z) = z_loopback z"
  by (simp_all add: set_head_def Let_def) (simp_all add: ctl_view_def static_view_def sig_view_def)

lemma insert_non_head_view [simp]:
  "ctl_view (insert_non_head P b h par z) = ctl_view z" "sig_view (insert_non_head P b h par z) = sig_view z"
  "z_chain (insert_non_head P b h par z) =
     (z_chain z)\<lparr>dc_child_of := (dc_child_of (z_chain z))(par \<mapsto> h)\<rparr>"
  "z_db (insert_non_head P b h par z) = db_insert (zp_env P) b (z_db z)"
  "z_pend_att (insert_non_head P b h par z) = z_pend_att z"
  "z_loopback (insert_non_head P b h par z) = z_loopback z"
  by (simp_all add: insert_non_head_def link_child_def) (simp_all add: ctl_view_def static_view_def sig_view_def)

lemma park_block_view [simp]:
  "ctl_view (park_block P b z) = ctl_view z" "sig_view (park_block P b z) = sig_view z"
  "z_chain (park_block P b z) =
     (if b_parent b = data_block_hash (zp_env P) (data_genesis :: 'tx data_block) then z_chain z
      else (z_chain z)\<lparr>dc_pending := push_entry (b_parent b) b (dc_pending (z_chain z))\<rparr>)"
  "z_db (park_block P b z) = z_db z" "z_pend_att (park_block P b z) = z_pend_att z"
  "z_loopback (park_block P b z) = z_loopback z"
  for b :: "'tx data_block"
  by (simp_all add: park_block_def broadcast_data_request_def z_broadcast_def)
     (simp_all add: ctl_view_def static_view_def sig_view_def)

lemma take_pending_view [simp]:
  "ctl_view (snd (take_pending z)) = ctl_view z" "sig_view (snd (take_pending z)) = sig_view z"
  "z_chain (snd (take_pending z)) =
     (z_chain z)\<lparr>dc_pending := (dc_pending (z_chain z))(dc_head_hash (z_chain z) := None)\<rparr>"
  "z_db (snd (take_pending z)) = z_db z" "z_pend_att (snd (take_pending z)) = z_pend_att z"
  "z_loopback (snd (take_pending z)) = z_loopback z"
  "fst (take_pending z) = entry_list (dc_pending (z_chain z)) (dc_head_hash (z_chain z))"
  by (simp_all add: take_pending_def Let_def) (simp_all add: ctl_view_def static_view_def sig_view_def)

lemma replay_view [simp]:
  "data_view (foldl (\<lambda>z m. snd (z_send_loopback m z)) z ms) = data_view z"
  "sig_view (foldl (\<lambda>z m. snd (z_send_loopback m z)) z ms) = sig_view z"
  "z_pend_att (foldl (\<lambda>z m. snd (z_send_loopback m z)) z ms) = z_pend_att z"
  "set (z_loopback (foldl (\<lambda>z m. snd (z_send_loopback m z)) z ms)) \<subseteq> set ms \<union> set (z_loopback z)"
proof (induction ms arbitrary: z)
  case (Cons m ms)
  { case 4
    show ?case using subset_trans [OF Cons.IH(4) [of "snd (z_send_loopback m z)"]
        Un_mono [OF subset_refl z_send_loopback_view(4) [of m z]]] by simp }
qed simp_all

lemma drain_head_view [simp]:
  "data_view (drain_head z) = data_view z" "sig_view (drain_head z) = sig_view z"
  "z_pend_att (drain_head z) = (z_pend_att z)(dc_head_hash (z_chain z) := None)"
  "set (z_loopback (drain_head z)) \<subseteq>
     set (entry_list (z_pend_att z) (dc_head_hash (z_chain z))) \<union> set (z_loopback z)"
  using replay_view(4) [where z = "z\<lparr>z_pend_att := (z_pend_att z)(dc_head_hash (z_chain z) := None)\<rparr>"
      and ms = "entry_list (z_pend_att z) (dc_head_hash (z_chain z))"]
  by (simp_all add: drain_head_def drain_pending_attestations_def)

lemma drain_head_sel [simp]:
  "ctl_view (drain_head z) = ctl_view z" "z_chain (drain_head z) = z_chain z" "z_db (drain_head z) = z_db z"
  using drain_head_view(1) [of z] by (simp_all add: data_view_def)

subsection \<open>The frame of admission\<close>

text \<open>The messages a replica keeps for itself: its own data proposals and signature-plane messages
  in the loopback, proposals under the hash they wait for.\<close>

definition own_msg :: "'tx zeus_msg \<Rightarrow> bool" where
  "own_msg m \<longleftrightarrow> sig_round m \<noteq> None \<or> (\<exists>b s. m = DataPropose b s)"

definition msgs_ok :: "('s, 'tx, 'b, 'c, 'g) zeus \<Rightarrow> bool" where
  "msgs_ok z \<longleftrightarrow> (\<forall>m \<in> set (z_loopback z). own_msg m) \<and>
     (\<forall>k. \<forall>m \<in> set (entry_list (z_pend_att z) k). sig_round m \<noteq> None)"

lemma msgs_ok_drain:
  assumes "msgs_ok z"
  shows "msgs_ok (drain_head z)"
proof -
  have "own_msg m" if "m \<in> set (z_loopback (drain_head z))" for m
    using subsetD [OF drain_head_view(4) that] assms by (auto simp: msgs_ok_def own_msg_def)
  with assms show ?thesis by (simp add: msgs_ok_def)
qed

lemma msgs_ok_same [simp]:
  "msgs_ok (set_head h b z) = msgs_ok z" "msgs_ok (insert_non_head P b h par z) = msgs_ok z"
  "msgs_ok (park_block P b z) = msgs_ok z" "msgs_ok (snd (take_pending z)) = msgs_ok z"
  by (simp_all add: msgs_ok_def)

definition adm_frame :: "('s, 'tx, 'b, 'c, 'g) zeus \<Rightarrow> ('s, 'tx, 'b, 'c, 'g) zeus \<Rightarrow> bool" where
  "adm_frame z0 z \<longleftrightarrow> ctl_view z = ctl_view z0 \<and> sig_view z = sig_view z0 \<and> msgs_ok z"

interpretation adm_frame: admission P "adm_frame z0" "\<lambda>b. True"
  by unfold_locales (simp_all add: adm_frame_def msgs_ok_drain)

subsection \<open>The blocks a replica knows\<close>

text \<open>Every hash of the index, of the cache, of the children and of the parked blocks belongs to a
  block of a set \<open>B\<close>, and the index and the links are those of the block.\<close>

definition known_db :: "('s, 'tx, 'b) zenv \<Rightarrow> 'tx data_block set \<Rightarrow> ('s, 'tx, 'b) data_block_db \<Rightarrow> bool" where
  "known_db ze B db \<longleftrightarrow>
     (\<forall>h m. db_meta h db = Some m \<longrightarrow> (\<exists>b \<in> B. data_block_hash ze b = h \<and> m = meta_of_block b h)) \<and>
     (\<forall>h b sz. dd_cache db h = Some (b, sz) \<longrightarrow> data_block_hash ze b = h) \<and>
     data_block_hash ze (dd_genesis db) = dd_genesis_hash db"

definition known :: "('s, 'tx, 'b) zenv \<Rightarrow> 'tx data_block set \<Rightarrow> ('s, 'tx, 'b, 'c, 'g) zeus \<Rightarrow> bool" where
  "known ze B z \<longleftrightarrow> known_db ze B (z_db z) \<and>
     (\<forall>p h. dc_child_of (z_chain z) p = Some h \<longrightarrow>
        db_contains h (z_db z) \<and> (\<exists>b \<in> B. data_block_hash ze b = h \<and> b_parent b = p)) \<and>
     (\<forall>k. \<forall>b \<in> set (entry_list (dc_pending (z_chain z)) k). b \<in> B \<and> b_parent b = k) \<and>
     finite (dom (dc_child_of (z_chain z))) \<and> finite (dom (dc_pending (z_chain z)))"

lemma evict_cache: "dd_cache (evict ze db) h = Some x \<Longrightarrow> dd_cache db h = Some x"
proof (induction ze db rule: evict.induct)
  case (1 ze db)
  then show ?case
    by (subst (asm) (2) evict.simps) (auto split: if_splits list.splits)
qed

lemma db_insert_cache:
  "dd_cache (db_insert ze b db) h = Some (c, sz) \<Longrightarrow>
     h = data_block_hash ze b \<and> c = b \<or> dd_cache db h = Some (c, sz)"
  by (auto simp: db_insert_def cache_put_def Let_def dest!: evict_cache split: option.splits if_splits)

lemma known_db_insert:
  assumes "known_db ze B db" "b \<in> B"
  shows "known_db ze B (db_insert ze b db)"
  unfolding known_db_def
proof (intro conjI allI impI)
  fix h m assume "db_meta h (db_insert ze b db) = Some m"
  then show "\<exists>b \<in> B. data_block_hash ze b = h \<and> m = meta_of_block b h"
    using assms by (auto simp: known_db_def db_meta_def split: if_splits)
next
  fix h c sz assume "dd_cache (db_insert ze b db) h = Some (c, sz)"
  from db_insert_cache [OF this] show "data_block_hash ze c = h"
    using assms(1) by (auto simp: known_db_def)
qed (use assms in \<open>simp add: known_db_def\<close>)

lemma known_db_flush [simp]: "known_db ze B (db_flush ze db) = known_db ze B db"
  by (simp add: known_db_def db_meta_def)

lemma known_db_emit [simp]: "known_db ze B (db_emit k db) = known_db ze B db"
  by (simp add: known_db_def db_meta_def)

lemma known_insert:
  assumes "known ze B z" "b \<in> B" "ze = zp_env P"
  shows "known ze B (insert_non_head P b (data_block_hash ze b) (b_parent b) z)"
  using assms by (auto simp: known_def known_db_insert)

lemma known_park: "known ze B z \<Longrightarrow> b \<in> B \<Longrightarrow> known ze B (park_block P b z)"
  by (auto simp: known_def split: if_splits)

lemma known_take: "known ze B z \<Longrightarrow> known ze B (snd (take_pending z))"
  by (auto simp: known_def)

interpretation adm_known: admission P "known (zp_env P) B" "\<lambda>b. b \<in> B"
proof (unfold_locales, goal_cases)
  case (1 z b)
  then show ?case by (rule known_insert) simp
next
  case (5 z b)
  then show ?case by (auto simp: known_def)
qed (auto simp: known_park known_take, auto simp: known_def)

subsection \<open>Admission returns\<close>

text \<open>
  Hash links do not run in circles: some rank grows from every parent to its child. Then the head
  only climbs, and a hash under which blocks are parked is drained at most once.
\<close>

definition ranked :: "('s, 'tx, 'b) zenv \<Rightarrow> 'tx data_block set \<Rightarrow> (digest \<Rightarrow> nat) \<Rightarrow> bool" where
  "ranked ze B rank \<longleftrightarrow> (\<forall>b \<in> B. rank (b_parent b) < rank (data_block_hash ze b))"

abbreviation zhead :: "('s, 'tx, 'b, 'c, 'g) zeus \<Rightarrow> digest" where
  "zhead z \<equiv> dc_head_hash (z_chain z)"

definition live :: "(digest \<Rightarrow> nat) \<Rightarrow> ('s, 'tx, 'b, 'c, 'g) zeus \<Rightarrow> digest set" where
  "live rank z = {k \<in> dom (dc_pending (z_chain z)). rank (zhead z) \<le> rank k}"

text \<open>A state whose head has at least rank \<open>r\<close>, with at most \<open>n\<close> hashes left to drain.\<close>

definition calm ::
  "('s, 'tx, 'b, 'c, 'g) zeus_params \<Rightarrow> 'tx data_block set \<Rightarrow> (digest \<Rightarrow> nat) \<Rightarrow> nat \<Rightarrow> nat
    \<Rightarrow> ('s, 'tx, 'b, 'c, 'g) zeus \<Rightarrow> bool" where
  "calm P B rank r n z \<longleftrightarrow> known (zp_env P) B z \<and> r \<le> rank (zhead z) \<and> card (live rank z) \<le> n"

lemma calm_mono: "calm P B rank r n z \<Longrightarrow> r' \<le> r \<Longrightarrow> n \<le> n' \<Longrightarrow> calm P B rank r' n' z"
  by (auto simp: calm_def)

lemma known_finite_live: "known ze B z \<Longrightarrow> finite (live rank z)"
  by (simp add: known_def live_def)

lemma known_child_rank:
  "known ze B z \<Longrightarrow> ranked ze B rank \<Longrightarrow> dc_child_of (z_chain z) p = Some h \<Longrightarrow> rank p < rank h"
  by (force simp: known_def ranked_def)

lemma calm_head:
  assumes "calm P B rank r n z" "ranked (zp_env P) B rank" "dc_child_of (z_chain z) (zhead z) = Some h"
  shows "calm P B rank (max r (Suc (rank (zhead z)))) n (set_head h c z)"
proof -
  have up: "rank (zhead z) < rank h" using assms known_child_rank by (auto simp: calm_def)
  have "known (zp_env P) B (set_head h c z)"
    using assms by (intro adm_known.head) (auto simp: calm_def)
  moreover have "live rank (set_head h c z) \<subseteq> live rank z" using up by (auto simp: live_def)
  then have "card (live rank (set_head h c z)) \<le> card (live rank z)"
    using assms known_finite_live by (intro card_mono) (auto simp: calm_def)
  ultimately show ?thesis using assms up by (simp add: calm_def)
qed

lemma calm_insert:
  "calm P B rank r n z \<Longrightarrow> b \<in> B \<Longrightarrow>
     calm P B rank r n (insert_non_head P b (data_block_hash (zp_env P) b) (b_parent b) z)"
  using adm_known.insert [of P B z b] by (simp add: calm_def live_def)

lemma calm_advance:
  assumes "calm P B rank r n z" "ranked (zp_env P) B rank" "b \<in> B" "b_parent b = zhead z"
  shows "calm P B rank (max r (Suc (rank (zhead z)))) n
    (insert_and_advance P b (data_block_hash (zp_env P) b) (b_parent b) z)"
  using calm_head [OF calm_insert [OF assms(1,3)] assms(2), of "data_block_hash (zp_env P) b" b] assms(4)
  by (simp add: insert_and_advance_eq)

lemma calm_park:
  assumes "calm P B rank r n z" "b \<in> B" "rank (b_parent b) < r"
  shows "calm P B rank r n (park_block P b z)"
proof -
  have "live rank (park_block P b z) = live rank z" using assms(1,3) by (auto simp: live_def calm_def)
  with assms adm_known.park [of P B z b] show ?thesis by (simp add: calm_def)
qed

lemma calm_drain_head: "calm P B rank r n z \<Longrightarrow> calm P B rank r n (drain_head z)"
  using adm_known.replay [of P B z] by (simp add: calm_def live_def)

lemma calm_take:
  assumes "calm P B rank r n z" "fst (take_pending z) \<noteq> []"
  shows "0 < n" "calm P B rank r (n - 1) (snd (take_pending z))"
proof -
  have k: "known (zp_env P) B z" using assms by (simp add: calm_def)
  have h: "zhead z \<in> live rank z" using assms(2) by (auto simp: live_def entry_list_def split: option.splits)
  have "live rank (snd (take_pending z)) = live rank z - {zhead z}" by (auto simp: live_def)
  then have "card (live rank (snd (take_pending z))) = card (live rank z) - 1" using h by simp
  moreover have "0 < card (live rank z)" using h known_finite_live [OF k, of rank] card_gt_0_iff by blast
  ultimately show "0 < n" "calm P B rank r (n - 1) (snd (take_pending z))"
    using assms(1) known_take [OF k] by (auto simp: calm_def)
qed

lemma bind_z_returns:
  assumes "m z = Some y" "R (snd y)" "\<And>z'. R z' \<Longrightarrow> \<exists>x. k () z' = Some x \<and> R (snd x)"
  shows "\<exists>x. bind_z m k z = Some x \<and> R (snd x)"
  using assms by (cases y; cases "fst y") (auto simp: bind_z_def)

text \<open>The walk of the head.\<close>

lemma head_walk_returns:
  assumes "calm P B rank r n z" "ranked (zp_env P) B rank"
  shows "\<exists>x. advance_head_via_child_of P z = Some x \<and> calm P B rank r n (snd x)"
  using assms(1)
proof (induction "card {p \<in> dom (dc_child_of (z_chain z)). rank (zhead z) \<le> rank p}" arbitrary: z rule: less_induct)
  case (less z)
  show ?case
  proof (cases "dc_child_of (z_chain z) (zhead z)")
    case None
    with less.prems show ?thesis by (subst advance_head_via_child_of.simps) simp
  next
    case (Some h)
    have up: "rank (zhead z) < rank h" using less.prems assms(2) Some known_child_rank by (auto simp: calm_def)
    have fin: "finite (dom (dc_child_of (z_chain z)))" using less.prems by (auto simp: calm_def known_def)
    have "zhead z \<in> {p \<in> dom (dc_child_of (z_chain z)). rank (zhead z) \<le> rank p}" using Some by auto
    moreover have "{p \<in> dom (dc_child_of (z_chain z)). rank h \<le> rank p} \<subseteq>
        {p \<in> dom (dc_child_of (z_chain z)). rank (zhead z) \<le> rank p} - {zhead z}" using up by auto
    ultimately have "card {p \<in> dom (dc_child_of (z_chain (set_head h c z))). rank (zhead (set_head h c z)) \<le> rank p}
        < card {p \<in> dom (dc_child_of (z_chain z)). rank (zhead z) \<le> rank p}" for c
      using fin by (intro psubset_card_mono) auto
    then have "\<exists>x. advance_head_via_child_of P (set_head h c z) = Some x \<and> calm P B rank r n (snd x)" for c
      using calm_mono [OF calm_head [OF less.prems assms(2) Some, of c], of r n] less.hyps by simp
    with Some less.prems show ?thesis
      by (subst advance_head_via_child_of.simps) (auto split: outcome.split option.split)
  qed
qed

text \<open>The three jobs, from the smaller number of hashes left to drain to the larger.\<close>

definition drains ::
  "('s, 'tx, 'b, 'c, 'g) zeus_params \<Rightarrow> 'tx data_block set \<Rightarrow> (digest \<Rightarrow> nat) \<Rightarrow> nat \<Rightarrow> bool" where
  "drains P B rank n \<longleftrightarrow> (\<forall>r z. calm P B rank r n z \<longrightarrow>
     (\<exists>x. admit_run P DrainPending z = Some x \<and> calm P B rank r n (snd x)))"

lemma admit_top_returns:
  assumes "drains P B rank n" "ranked (zp_env P) B rank" "calm P B rank r n z" "b \<in> B" "b_parent b = zhead z"
  shows "\<exists>x. admit_run P (AdmitBlock b) z = Some x \<and> calm P B rank (max r (Suc (rank (zhead z)))) n (snd x)"
proof -
  let ?r = "max r (Suc (rank (zhead z)))" and ?h = "data_block_hash (zp_env P) b"
  have "calm P B rank ?r n (insert_and_advance P b ?h (b_parent b) z)"
    by (rule calm_advance [OF assms(3,2,4,5)])
  with assms(1) obtain y where "admit_run P DrainPending (insert_and_advance P b ?h (b_parent b) z) = Some y"
    "calm P B rank ?r n (snd y)" unfolding drains_def by blast
  then have "\<exists>x. bind_z (admit_run P DrainPending) (\<lambda>_ z. Some (Ok (), drain_head z))
      (insert_and_advance P b ?h (b_parent b) z) = Some x \<and> calm P B rank ?r n (snd x)"
    by (rule bind_z_returns) (simp add: calm_drain_head)
  with assms(5) show ?thesis by (subst admit_run.simps) simp
qed

lemma admit_side_returns:
  assumes "drains P B rank n" "ranked (zp_env P) B rank" "calm P B rank r n z" "b \<in> B" "b_parent b \<noteq> zhead z"
    and "db_contains (b_parent b) (z_db z)"
  shows "\<exists>x. admit_run P (AdmitBlock b) z = Some x \<and> calm P B rank r n (snd x)"
proof -
  let ?h = "data_block_hash (zp_env P) b"
  from calm_insert [OF assms(3,4)] assms(1) obtain y where
    "admit_run P DrainPending (insert_non_head P b ?h (b_parent b) z) = Some y"
    "calm P B rank r n (snd y)" unfolding drains_def by blast
  then have "\<exists>x. bind_z (admit_run P DrainPending) (\<lambda>_. bind_z (advance_head_via_child_of P)
      (\<lambda>_ z. Some (Ok (), drain_head z))) (insert_non_head P b ?h (b_parent b) z) = Some x \<and>
      calm P B rank r n (snd x)"
  proof (rule bind_z_returns)
    fix z' assume "calm P B rank r n z'"
    from head_walk_returns [OF this assms(2)] obtain y where
      "advance_head_via_child_of P z' = Some y" "calm P B rank r n (snd y)" by blast
    then show "\<exists>x. bind_z (advance_head_via_child_of P) (\<lambda>_ z. Some (Ok (), drain_head z)) z' = Some x \<and>
        calm P B rank r n (snd x)"
      by (rule bind_z_returns) (simp add: calm_drain_head)
  qed
  with assms(5,6) show ?thesis by (subst admit_run.simps) simp
qed

lemma admit_below_returns:
  assumes "drains P B rank n" "ranked (zp_env P) B rank" "calm P B rank r n z" "b \<in> B" "rank (b_parent b) < r"
  shows "\<exists>x. admit_run P (AdmitBlock b) z = Some x \<and> calm P B rank r n (snd x)"
proof -
  have ne: "b_parent b \<noteq> zhead z" using assms(3,5) by (auto simp: calm_def)
  show ?thesis
  proof (cases "db_contains (b_parent b) (z_db z)")
    case True
    with assms ne show ?thesis by (intro admit_side_returns) auto
  next
    case False
    with ne calm_park [OF assms(3-5)] show ?thesis by (subst admit_run.simps) simp
  qed
qed

lemma admit_all_returns:
  assumes "drains P B rank n" "ranked (zp_env P) B rank" "calm P B rank r n z"
    and "\<forall>b \<in> set bs. b \<in> B \<and> rank (b_parent b) < r"
  shows "\<exists>x. admit_run P (AdmitAll bs) z = Some x \<and> calm P B rank r n (snd x)"
  using assms(3,4)
proof (induction bs arbitrary: z)
  case Nil
  then show ?case by (subst admit_run.simps) simp
next
  case (Cons b bs)
  from Cons.prems(2) have "b \<in> B" "rank (b_parent b) < r" by auto
  from admit_below_returns [OF assms(1,2) Cons.prems(1) this] obtain y where
    "admit_run P (AdmitBlock b) z = Some y" "calm P B rank r n (snd y)" by blast
  then have "\<exists>x. bind_z (admit_run P (AdmitBlock b)) (\<lambda>_. admit_run P (AdmitAll bs)) z = Some x \<and>
      calm P B rank r n (snd x)"
    by (rule bind_z_returns) (use Cons in auto)
  then show ?case by (subst admit_run.simps) simp
qed

lemma drains_all:
  assumes "ranked (zp_env P) B rank"
  shows "drains P B rank n"
proof (induction n)
  have idle: "\<exists>x. admit_run P DrainPending z = Some x \<and> calm P B rank r n (snd x)"
    if "calm P B rank r n z" "fst (take_pending z) = []" for r n z
  proof -
    obtain ps z1 where t: "take_pending z = (ps, z1)" by fastforce
    have "live rank (snd (take_pending z)) \<subseteq> live rank z" by (auto simp: live_def)
    then have "card (live rank (snd (take_pending z))) \<le> card (live rank z)"
      using that(1) known_finite_live by (intro card_mono) (auto simp: calm_def)
    then have "calm P B rank r n (snd (take_pending z))"
      using that(1) known_take [of "zp_env P" B z] by (simp add: calm_def)
    with t that(2) show ?thesis by (subst admit_run.simps) simp
  qed
  {
    case 0
    have "fst (take_pending z) = []" if "calm P B rank r 0 z" for r z
      using calm_take(1) [OF that] by blast
    with idle show ?case unfolding drains_def by blast
  next
    case (Suc n)
    show ?case unfolding drains_def
    proof (intro allI impI)
      fix r z assume c: "calm P B rank r (Suc n) z"
      show "\<exists>x. admit_run P DrainPending z = Some x \<and> calm P B rank r (Suc n) (snd x)"
      proof (cases "fst (take_pending z)")
        case Nil
        with idle c show ?thesis by blast
      next
        case (Cons b bs)
        obtain ps z1 where t: "take_pending z = (ps, z1)" by fastforce
        have ps: "ps = b # bs" and z1: "z1 = snd (take_pending z)" using t Cons by auto
        let ?r = "max r (Suc (rank (zhead z)))"
        have "\<forall>d \<in> set (fst (take_pending z)). d \<in> B \<and> b_parent d = zhead z"
          using c unfolding calm_def known_def take_pending_view(7) by blast
        then have in_B: "\<forall>d \<in> set (b # bs). d \<in> B \<and> b_parent d = zhead z" unfolding Cons .
        have "calm P B rank r n z1" using calm_take(2) [OF c] Cons z1 by simp
        moreover have "zhead z1 = zhead z" by (simp add: z1)
        ultimately obtain y where "admit_run P (AdmitBlock b) z1 = Some y" "calm P B rank ?r n (snd y)"
          using admit_top_returns [OF Suc assms, of r z1 b] in_B by auto
        then have "\<exists>x. bind_z (admit_run P (AdmitBlock b)) (\<lambda>_. admit_run P (AdmitAll bs)) z1 = Some x \<and>
            calm P B rank ?r n (snd x)"
        proof (rule bind_z_returns)
          fix z' assume "calm P B rank ?r n z'"
          then show "\<exists>x. admit_run P (AdmitAll bs) z' = Some x \<and> calm P B rank ?r n (snd x)"
            by (rule admit_all_returns [OF Suc assms]) (use in_B in auto)
        qed
        then obtain y2 where y2: "admit_run P (AdmitAll ps) z1 = Some y2" "calm P B rank ?r n (snd y2)"
          using ps by (auto simp: admit_run.simps [of P "AdmitAll (b # bs)"])
        then have "\<exists>x. bind_z (admit_run P (AdmitAll ps)) (\<lambda>_. admit_run P DrainPending) z1 = Some x \<and>
            calm P B rank ?r n (snd x)"
          by (rule bind_z_returns) (use Suc in \<open>auto simp: drains_def\<close>)
        then obtain x where "admit_run P DrainPending z = Some x" "calm P B rank ?r n (snd x)"
          using t ps by (auto simp: admit_run.simps [of P DrainPending])
        then show ?thesis using calm_mono [of P B rank ?r n "snd x" r "Suc n"] by auto
      qed
    qed
  }
qed

lemma admit_returns:
  assumes "known (zp_env P) B z" "ranked (zp_env P) B rank" "b \<in> B"
  shows "\<exists>x. admit_run P (AdmitBlock b) z = Some x"
proof -
  have c: "calm P B rank 0 (card (live rank z)) z" using assms(1) by (simp add: calm_def)
  consider "b_parent b = zhead z" | "b_parent b \<noteq> zhead z" "db_contains (b_parent b) (z_db z)"
    | "b_parent b \<noteq> zhead z" "\<not> db_contains (b_parent b) (z_db z)" by blast
  then show ?thesis
  proof cases
    case 1
    with admit_top_returns [OF drains_all [OF assms(2)] assms(2) c assms(3)] show ?thesis by blast
  next
    case 2
    with admit_side_returns [OF drains_all [OF assms(2)] assms(2) c assms(3)] show ?thesis by blast
  next
    case 3
    then show ?thesis by (subst admit_run.simps) simp
  qed
qed

end
