(* ===== verification/Synchronizer.thy ===== *)
theory Synchronizer
  imports Instances
begin

section \<open>Synchronizer, sync helper and request helper\<close>

text \<open>
  \<^verbatim>\<open>server/leto/synchronizer\<close> and \<^verbatim>\<open>server/leto/helper.rs\<close>. The synchronizer lets a message
  through once the batch and the parent element it names are in the store, and otherwise hands
  it to the sync-helper task, which asks the sender and waits. The channels between the two are
  queues in the state (\<open>sy_inner\<close>, \<open>sy_outer\<close>, \<open>sy_helper\<close>) with a flag that says whether the
  receiver is alive; the network is the log of what was sent; a future in a
  \<^verbatim>\<open>FuturesUnordered\<close> is a value of \<open>waiting\<close>. The store is shared, so it is passed along.
\<close>

datatype 'tx sync_msg =
    DeliverBatchOnly digest node_id proposal signature
  | DeliverParentOnly digest node_id proposal signature "'tx batch"
  | DeliverParentAndBatch digest node_id proposal signature
  | AdvanceRound round

datatype helper_request =
    HBatchRequest node_id request
  | HElementRequest node_id request

record 'tx synchronizer =
  sy_inner :: "'tx sync_msg list"
  sy_inner_open :: bool
  sy_outer :: "'tx protocol_msg list"
  sy_outer_open :: bool
  sy_helper :: "helper_request list"
  sy_helper_open :: bool

definition synchronizer_new :: "'tx synchronizer" where
  "synchronizer_new =
     \<lparr>sy_inner = [], sy_inner_open = True, sy_outer = [], sy_outer_open = True,
      sy_helper = [], sy_helper_open = True\<rparr>"

definition send_inner :: "'tx sync_msg \<Rightarrow> 'tx synchronizer \<Rightarrow> unit outcome \<times> 'tx synchronizer" where
  "send_inner m sy = (if sy_inner_open sy then (Ok (), sy\<lparr>sy_inner := sy_inner sy @ [m]\<rparr>)
                      else (Err ChannelClosed, sy))"

definition send_outer :: "'tx protocol_msg \<Rightarrow> 'tx synchronizer \<Rightarrow> unit outcome \<times> 'tx synchronizer" where
  "send_outer m sy = (if sy_outer_open sy then (Ok (), sy\<lparr>sy_outer := sy_outer sy @ [m]\<rparr>)
                      else (Err ChannelClosed, sy))"

definition send_helper :: "helper_request \<Rightarrow> 'tx synchronizer \<Rightarrow> unit outcome \<times> 'tx synchronizer" where
  "send_helper m sy = (if sy_helper_open sy then (Ok (), sy\<lparr>sy_helper := sy_helper sy @ [m]\<rparr>)
                       else (Err ChannelClosed, sy))"

definition sync_advance_round :: "round \<Rightarrow> 'tx synchronizer \<Rightarrow> unit outcome \<times> 'tx synchronizer" where
  "sync_advance_round r sy = send_inner (AdvanceRound r) sy"

definition on_response :: "('s, 'tx, 'b) env \<Rightarrow> ('v, 'b) codec \<Rightarrow> 'v response \<Rightarrow> 's \<Rightarrow> 's" where
  "on_response e cd resp s = db_write (crypt e) (store e) cd s (resp_value resp)"

definition sync_propose_msg ::
  "('s, 'tx, 'b) env \<Rightarrow> proposal \<Rightarrow> signature \<Rightarrow> 'tx batch \<Rightarrow> node_id
    \<Rightarrow> 's \<times> 'tx synchronizer \<Rightarrow> unit outcome \<times> 's \<times> 'tx synchronizer" where
  "sync_propose_msg e p a b sender st =
     (let (s, sy) = st; s' = db_write (crypt e) (store e) (cd_batch e) s b in
      case db_read (store e) (cd_element e) s' (parent_hash p) of
        Err er \<Rightarrow> (Err er, s', sy)
      | Panic \<Rightarrow> (Panic, s', sy)
      | Ok (Some _) \<Rightarrow> (let (r, sy') = send_outer (Propose p a b sender) sy in (r, s', sy'))
      | Ok None \<Rightarrow> (let (r, sy') = send_inner (DeliverParentOnly (parent_hash p) sender p a b) sy
                     in (r, s', sy')))"

definition sync_relay_msg ::
  "('s, 'tx, 'b) env \<Rightarrow> proposal \<Rightarrow> signature \<Rightarrow> digest \<Rightarrow> node_id
    \<Rightarrow> 's \<times> 'tx synchronizer \<Rightarrow> unit outcome \<times> 's \<times> 'tx synchronizer" where
  "sync_relay_msg e p a bh sender st =
     (let (s, sy) = st in
      case db_read (store e) (cd_batch e) s bh of
        Err er \<Rightarrow> (Err er, s, sy)
      | Panic \<Rightarrow> (Panic, s, sy)
      | Ok batch_opt \<Rightarrow>
        (case db_read (store e) (cd_element e) s (parent_hash p) of
           Err er \<Rightarrow> (Err er, s, sy)
         | Panic \<Rightarrow> (Panic, s, sy)
         | Ok parent_opt \<Rightarrow>
             let (r, sy') =
               (case (batch_opt, parent_opt) of
                  (None, None) \<Rightarrow> send_inner (DeliverParentAndBatch bh sender p a) sy
                | (Some b, None) \<Rightarrow> send_inner (DeliverParentOnly (parent_hash p) sender p a b) sy
                | (None, Some _) \<Rightarrow> send_inner (DeliverBatchOnly bh sender p a) sy
                | (Some b, Some _) \<Rightarrow> send_outer (Propose p a b sender) sy)
             in (r, s, sy')))"

definition sync_msg ::
  "('s, 'tx, 'b) env \<Rightarrow> 'tx protocol_msg \<Rightarrow> 's \<times> 'tx synchronizer
    \<Rightarrow> unit outcome \<times> 's \<times> 'tx synchronizer" where
  "sync_msg e m st = (case m of
     Propose p a b sender \<Rightarrow> sync_propose_msg e p a b sender st
   | Relay p a bh sender \<Rightarrow> sync_relay_msg e p a bh sender st
   | BatchRequest source req \<Rightarrow>
       (let (r, sy') = send_helper (HBatchRequest source req) (snd st) in (r, fst st, sy'))
   | BatchResponse resp \<Rightarrow> (Ok (), on_response e (cd_batch e) resp (fst st), snd st)
   | ElementRequest source req \<Rightarrow>
       (let (r, sy') = send_helper (HElementRequest source req) (snd st) in (r, fst st, sy'))
   | ElementResponse resp \<Rightarrow> (Ok (), on_response e (cd_element e) resp (fst st), snd st)
   | Blame r a \<Rightarrow> (let (res, sy') = send_outer m (snd st) in (res, fst st, sy'))
   | BlameQC r qc \<Rightarrow> (let (res, sy') = send_outer m (snd st) in (res, fst st, sy')))"

text \<open>The stream side: \<open>synchronizer.next()\<close> yields the oldest synchronized message.\<close>

definition sync_next :: "'tx synchronizer \<Rightarrow> ('tx protocol_msg \<times> 'tx synchronizer) option" where
  "sync_next sy = (case sy_outer sy of [] \<Rightarrow> None | m # ms \<Rightarrow> Some (m, sy\<lparr>sy_outer := ms\<rparr>))"

subsection \<open>The sync-helper task\<close>

datatype 'tx waiting =
    WaitBatch digest proposal signature node_id
  | WaitParent "'tx batch" proposal signature node_id
  | WaitBoth digest proposal signature node_id

record 'tx sync_helper =
  sh_my_id :: node_id
  sh_round :: round
  sh_relays :: "(round \<times> node_id) \<rightharpoonup> digest list"
  sh_elements :: "(round \<times> node_id) \<rightharpoonup> digest list"
  sh_sent :: "(node_id \<times> 'tx protocol_msg) list"
  sh_relays_waiting :: "'tx waiting list"
  sh_elements_waiting :: "'tx waiting list"

definition sync_helper_new :: "node_id \<Rightarrow> 'tx sync_helper" where
  "sync_helper_new my_id =
     \<lparr>sh_my_id = my_id, sh_round = 0, sh_relays = Map.empty, sh_elements = Map.empty, sh_sent = [],
      sh_relays_waiting = [], sh_elements_waiting = []\<rparr>"

definition touch_entry :: "'k \<Rightarrow> ('k \<rightharpoonup> 'v list) \<Rightarrow> ('k \<rightharpoonup> 'v list)" where
  "touch_entry k m = m(k \<mapsto> entry_list m k)"

definition on_sync_request :: "'tx sync_msg \<Rightarrow> 'tx sync_helper \<Rightarrow> 'tx sync_helper" where
  "on_sync_request m sh = (case m of
     DeliverBatchOnly bh sender p a \<Rightarrow>
       let k = (sh_round sh, sender) in
       if bh \<in> set (entry_list (sh_relays sh) k) then sh\<lparr>sh_relays := touch_entry k (sh_relays sh)\<rparr>
       else sh\<lparr>sh_relays := push_entry k bh (sh_relays sh),
               sh_sent := sh_sent sh @ [(sender, BatchRequest (sh_my_id sh) \<lparr>req_hash = bh\<rparr>)],
               sh_relays_waiting := sh_relays_waiting sh @ [WaitBatch bh p a sender]\<rparr>
   | DeliverParentOnly ph sender p a b \<Rightarrow>
       let k = (sh_round sh, sender) in
       if ph \<in> set (entry_list (sh_elements sh) k) then sh\<lparr>sh_elements := touch_entry k (sh_elements sh)\<rparr>
       else sh\<lparr>sh_elements := push_entry k ph (sh_elements sh),
               sh_sent := sh_sent sh @ [(sender, ElementRequest (sh_my_id sh) \<lparr>req_hash = ph\<rparr>)],
               sh_elements_waiting := sh_elements_waiting sh @ [WaitParent b p a sender]\<rparr>
   | DeliverParentAndBatch bh sender p a \<Rightarrow>
       let k = (sh_round sh, sender);
           sh1 = sh\<lparr>sh_elements_waiting := sh_elements_waiting sh @ [WaitBoth bh p a sender]\<rparr> in
       if bh \<in> set (entry_list (sh_relays sh1) k) then sh1\<lparr>sh_relays := touch_entry k (sh_relays sh1)\<rparr>
       else sh1\<lparr>sh_relays := push_entry k bh (sh_relays sh1),
                sh_sent := sh_sent sh1 @ [(sender, BatchRequest (sh_my_id sh1) \<lparr>req_hash = bh\<rparr>)]\<rparr>
   | AdvanceRound r \<Rightarrow>
       if r < sh_round sh then sh
       else sh\<lparr>sh_relays := retain_keys (\<lambda>k. r \<le> fst k) (sh_relays sh),
               sh_elements := retain_keys (\<lambda>k. r \<le> fst k) (sh_elements sh), sh_round := r\<rparr>)"

text \<open>The futures. \<open>Ok None\<close> is a future that still waits in \<^verbatim>\<open>notify_read\<close>.\<close>

definition on_deliver_batch ::
  "('s, 'tx, 'b) env \<Rightarrow> digest \<Rightarrow> proposal \<Rightarrow> signature \<Rightarrow> node_id \<Rightarrow> 's
    \<Rightarrow> 'tx protocol_msg option outcome \<times> 's" where
  "on_deliver_batch e bh p a sender s =
     (case db_notify_read (store e) (cd_batch e) s bh of
        Err er \<Rightarrow> (Err er, s) | Panic \<Rightarrow> (Panic, s)
      | Ok None \<Rightarrow> (Ok None, s)
      | Ok (Some b) \<Rightarrow> (Ok (Some (Propose p a b sender)),
                       db_write (crypt e) (store e) (cd_element e) s (element_new p a b)))"

definition on_deliver_parent ::
  "('s, 'tx, 'b) env \<Rightarrow> 'tx batch \<Rightarrow> proposal \<Rightarrow> signature \<Rightarrow> node_id \<Rightarrow> 's
    \<Rightarrow> 'tx protocol_msg option outcome \<times> 's" where
  "on_deliver_parent e b p a sender s =
     (case db_notify_read (store e) (cd_element e) s (parent_hash p) of
        Err er \<Rightarrow> (Err er, s) | Panic \<Rightarrow> (Panic, s)
      | Ok None \<Rightarrow> (Ok None, s)
      | Ok (Some _) \<Rightarrow> (Ok (Some (Propose p a b sender)),
                       db_write (crypt e) (store e) (cd_element e) s (element_new p a b)))"

definition on_deliver_parent_and_batch ::
  "('s, 'tx, 'b) env \<Rightarrow> digest \<Rightarrow> proposal \<Rightarrow> signature \<Rightarrow> node_id \<Rightarrow> 's
    \<Rightarrow> 'tx protocol_msg option outcome \<times> 's" where
  "on_deliver_parent_and_batch e bh p a sender s =
     (case db_notify_read (store e) (cd_batch e) s bh of
        Err er \<Rightarrow> (Err er, s) | Panic \<Rightarrow> (Panic, s)
      | Ok None \<Rightarrow> (Ok None, s)
      | Ok (Some b) \<Rightarrow>
        (case db_notify_read (store e) (cd_element e) s (parent_hash p) of
           Err er \<Rightarrow> (Err er, s) | Panic \<Rightarrow> (Panic, s)
         | Ok None \<Rightarrow> (Ok None, s)
         | Ok (Some _) \<Rightarrow> (Ok (Some (Propose p a b sender)),
                          db_write (crypt e) (store e) (cd_element e) s (element_new p a b))))"

definition poll_waiting ::
  "('s, 'tx, 'b) env \<Rightarrow> 'tx waiting \<Rightarrow> 's \<Rightarrow> 'tx protocol_msg option outcome \<times> 's" where
  "poll_waiting e w s = (case w of
     WaitBatch bh p a sender \<Rightarrow> on_deliver_batch e bh p a sender s
   | WaitParent b p a sender \<Rightarrow> on_deliver_parent e b p a sender s
   | WaitBoth bh p a sender \<Rightarrow> on_deliver_parent_and_batch e bh p a sender s)"


subsection \<open>The request helper\<close>

definition handle_request ::
  "('s, 'tx, 'b) env \<Rightarrow> ('v, 'b) codec \<Rightarrow> node_id \<Rightarrow> request \<Rightarrow> 's
    \<Rightarrow> (node_id \<times> request \<times> 'v) option outcome" where
  "handle_request e cd source req s =
     bind_o (db_read (store e) cd s (req_hash req)) (\<lambda>opt.
     Ok (map_option (\<lambda>v. (source, req, v)) opt))"

text \<open>One request through the helper task: a value that is found is sent back to the requester; a
  missing value and a read error send nothing.\<close>

definition helper_step ::
  "('s, 'tx, 'b) env \<Rightarrow> helper_request \<Rightarrow> 's \<Rightarrow> (node_id \<times> 'tx protocol_msg) list" where
  "helper_step e hr s = (case hr of
     HBatchRequest source req \<Rightarrow>
       (case handle_request e (cd_batch e) source req s of
          Ok (Some (src, rq, b)) \<Rightarrow> [(src, BatchResponse \<lparr>resp_hash = req_hash rq, resp_value = b\<rparr>)]
        | _ \<Rightarrow> [])
   | HElementRequest source req \<Rightarrow>
       (case handle_request e (cd_element e) source req s of
          Ok (Some (src, rq, el)) \<Rightarrow> [(src, ElementResponse \<lparr>resp_hash = req_hash rq, resp_value = el\<rparr>)]
        | _ \<Rightarrow> []))"

subsection \<open>The synchronizer as a system\<close>

text \<open>
  The tasks interleave: a message from the network is synchronized, the sync helper takes a
  request from its channel, a future that is ready completes (its message is forwarded, an error
  is logged), the protocol takes a synchronized message or announces a round, and any other task
  writes a batch or an element to the shared store.
\<close>

type_synonym ('s, 'tx) sync_system = "'s \<times> 'tx synchronizer \<times> 'tx sync_helper"

definition drop_nth :: "nat \<Rightarrow> 'a list \<Rightarrow> 'a list" where
  "drop_nth i xs = take i xs @ drop (Suc i) xs"

inductive sync_step ::
  "('s, 'tx, 'b) env \<Rightarrow> ('s, 'tx) sync_system \<Rightarrow> ('s, 'tx) sync_system \<Rightarrow> bool" for e where
  recv: "sync_msg e m (s, sy) = (r, s', sy') \<Longrightarrow> sync_step e (s, sy, sh) (s', sy', sh)"
| inner: "sy_inner sy = m # ms \<Longrightarrow>
    sync_step e (s, sy, sh) (s, sy\<lparr>sy_inner := ms\<rparr>, on_sync_request m sh)"
| relay_ready: "i < length (sh_relays_waiting sh) \<Longrightarrow>
    poll_waiting e (sh_relays_waiting sh ! i) s = (Ok (Some m), s') \<Longrightarrow> send_outer m sy = (r, sy') \<Longrightarrow>
    sync_step e (s, sy, sh) (s', sy', sh\<lparr>sh_relays_waiting := drop_nth i (sh_relays_waiting sh)\<rparr>)"
| relay_failed: "i < length (sh_relays_waiting sh) \<Longrightarrow>
    poll_waiting e (sh_relays_waiting sh ! i) s = (Err er, s') \<Longrightarrow>
    sync_step e (s, sy, sh) (s', sy, sh\<lparr>sh_relays_waiting := drop_nth i (sh_relays_waiting sh)\<rparr>)"
| element_ready: "i < length (sh_elements_waiting sh) \<Longrightarrow>
    poll_waiting e (sh_elements_waiting sh ! i) s = (Ok (Some m), s') \<Longrightarrow> send_outer m sy = (r, sy') \<Longrightarrow>
    sync_step e (s, sy, sh) (s', sy', sh\<lparr>sh_elements_waiting := drop_nth i (sh_elements_waiting sh)\<rparr>)"
| element_failed: "i < length (sh_elements_waiting sh) \<Longrightarrow>
    poll_waiting e (sh_elements_waiting sh ! i) s = (Err er, s') \<Longrightarrow>
    sync_step e (s, sy, sh) (s', sy, sh\<lparr>sh_elements_waiting := drop_nth i (sh_elements_waiting sh)\<rparr>)"
| taken: "sync_next sy = Some (m, sy') \<Longrightarrow> sync_step e (s, sy, sh) (s, sy', sh)"
| round: "sync_advance_round rd sy = (r, sy') \<Longrightarrow> sync_step e (s, sy, sh) (s, sy', sh)"
| batch_written: "s' = db_write (crypt e) (store e) (cd_batch e) s b \<Longrightarrow> sync_step e (s, sy, sh) (s', sy, sh)"
| element_written: "s' = db_write (crypt e) (store e) (cd_element e) s el \<Longrightarrow> sync_step e (s, sy, sh) (s', sy, sh)"

inductive sync_reach ::
  "('s, 'tx, 'b) env \<Rightarrow> ('s, 'tx) sync_system \<Rightarrow> ('s, 'tx) sync_system \<Rightarrow> bool" for e c0 where
  start: "sync_reach e c0 c0"
| further: "sync_reach e c0 c \<Longrightarrow> sync_step e c c' \<Longrightarrow> sync_reach e c0 c'"

inductive_cases sync_stepE: "sync_step e c c'"

text \<open>Every pending hash has been requested from the node it is pending for, and no request is
  repeated: the pending lists have no repetition.\<close>

definition pend_ok ::
  "(digest \<Rightarrow> 'tx protocol_msg) \<Rightarrow> round \<Rightarrow> (node_id \<times> 'tx protocol_msg) list
    \<Rightarrow> ((round \<times> node_id) \<rightharpoonup> digest list) \<Rightarrow> bool" where
  "pend_ok req r sent pend \<longleftrightarrow>
     (\<forall>k h. h \<in> set (entry_list pend k) \<longrightarrow> (snd k, req h) \<in> set sent) \<and>
     (\<forall>k. distinct (entry_list pend k)) \<and> (\<forall>k \<in> dom pend. fst k = r)"

definition sh_inv :: "'tx sync_helper \<Rightarrow> bool" where
  "sh_inv sh \<longleftrightarrow>
     pend_ok (\<lambda>h. BatchRequest (sh_my_id sh) \<lparr>req_hash = h\<rparr>) (sh_round sh) (sh_sent sh) (sh_relays sh) \<and>
     pend_ok (\<lambda>h. ElementRequest (sh_my_id sh) \<lparr>req_hash = h\<rparr>) (sh_round sh) (sh_sent sh) (sh_elements sh)"

lemma entry_list_touch [simp]: "entry_list (touch_entry k m) = entry_list m"
  by (simp add: touch_entry_def entry_list_def fun_eq_iff)

lemma dom_touch [simp]: "dom (touch_entry k m) = insert k (dom m)"
  by (auto simp: touch_entry_def)

lemma pend_ok_sent: "pend_ok req r sent pend \<Longrightarrow> pend_ok req r (sent @ ms) pend"
  by (auto simp: pend_ok_def)

lemma pend_ok_touch: "pend_ok req r sent pend \<Longrightarrow> fst k = r \<Longrightarrow> pend_ok req r sent (touch_entry k pend)"
  by (simp add: pend_ok_def)

lemma pend_ok_push:
  "pend_ok req r sent pend \<Longrightarrow> fst k = r \<Longrightarrow> h \<notin> set (entry_list pend k) \<Longrightarrow>
     pend_ok req r (sent @ [(snd k, req h)]) (push_entry k h pend)"
  unfolding pend_ok_def by auto

lemma pend_ok_retain:
  "pend_ok req r sent pend \<Longrightarrow> r \<le> r' \<Longrightarrow> pend_ok req r' sent (retain_keys (\<lambda>k. r' \<le> fst k) pend)"
  unfolding pend_ok_def by (auto dest: le_antisym)

lemma sync_helper_new_inv: "sh_inv (sync_helper_new i)"
  by (simp add: sh_inv_def pend_ok_def sync_helper_new_def)

lemma on_sync_request_inv [inv_intros]:
  assumes "sh_inv sh"
  shows "sh_inv (on_sync_request m sh)"
proof (cases m)
  case (DeliverBatchOnly bh sender p a)
  then show ?thesis
    using assms pend_ok_push [of "\<lambda>h. BatchRequest (sh_my_id sh) \<lparr>req_hash = h\<rparr>" "sh_round sh"
        "sh_sent sh" "sh_relays sh" "(sh_round sh, sender)" bh]
    by (simp add: sh_inv_def on_sync_request_def Let_def pend_ok_sent pend_ok_touch)
next
  case (DeliverParentOnly ph sender p a b)
  then show ?thesis
    using assms pend_ok_push [of "\<lambda>h. ElementRequest (sh_my_id sh) \<lparr>req_hash = h\<rparr>" "sh_round sh"
        "sh_sent sh" "sh_elements sh" "(sh_round sh, sender)" ph]
    by (simp add: sh_inv_def on_sync_request_def Let_def pend_ok_sent pend_ok_touch)
next
  case (DeliverParentAndBatch bh sender p a)
  then show ?thesis
    using assms pend_ok_push [of "\<lambda>h. BatchRequest (sh_my_id sh) \<lparr>req_hash = h\<rparr>" "sh_round sh"
        "sh_sent sh" "sh_relays sh" "(sh_round sh, sender)" bh]
    by (simp add: sh_inv_def on_sync_request_def Let_def pend_ok_sent pend_ok_touch)
next
  case (AdvanceRound r)
  then show ?thesis using assms by (auto simp: sh_inv_def on_sync_request_def intro: pend_ok_retain)
qed

lemma sync_helper_fields [simp]:
  "sh_inv (sh\<lparr>sh_relays_waiting := ws\<rparr>) = sh_inv sh" "sh_inv (sh\<lparr>sh_elements_waiting := ws\<rparr>) = sh_inv sh"
  by (simp_all add: sh_inv_def)

lemma sync_step_sh_inv: "sync_step e c c' \<Longrightarrow> sh_inv (snd (snd c)) \<Longrightarrow> sh_inv (snd (snd c'))"
  by (induction rule: sync_step.induct) (auto intro: on_sync_request_inv)

lemma poll_waiting_content:
  assumes "storage_ok (store e)" "content_addressed (crypt e) (store e) s" "poll_waiting e w s = (r, s')"
  shows "content_addressed (crypt e) (store e) s'"
  using assms(3) assms(1,2)
  by (cases w)
     (auto simp: poll_waiting_def on_deliver_batch_def on_deliver_parent_def on_deliver_parent_and_batch_def
       intro: content_addressed_db_write split: outcome.splits option.splits)

lemma sync_msg_content:
  assumes "storage_ok (store e)" "content_addressed (crypt e) (store e) s" "sync_msg e m (s, sy) = (r, s', sy')"
  shows "content_addressed (crypt e) (store e) s'"
  using assms(3) assms(1,2)
  by (cases m)
     (auto simp: sync_msg_def sync_propose_msg_def sync_relay_msg_def on_response_def Let_def
       intro: content_addressed_db_write split: outcome.splits option.splits prod.splits)

lemma sync_step_content:
  "sync_step e c c' \<Longrightarrow> storage_ok (store e) \<Longrightarrow> content_addressed (crypt e) (store e) (fst c) \<Longrightarrow>
     content_addressed (crypt e) (store e) (fst c')"
  by (induction rule: sync_step.induct)
     (auto intro: sync_msg_content poll_waiting_content content_addressed_db_write)


interpretation helper: step_machine "\<lambda>sh m. on_sync_request m sh" "\<lambda>_. True" sh_inv
  by unfold_locales (rule on_sync_request_inv)

lemma sync_reach_inv:
  assumes "sync_reach e c c'" "sh_inv (snd (snd c))"
  shows "sh_inv (snd (snd c'))"
  using assms by (induction rule: sync_reach.induct) (auto intro: sync_step_sh_inv)

lemma sync_reach_content:
  assumes "sync_reach e c c'" "storage_ok (store e)" "content_addressed (crypt e) (store e) (fst c)"
  shows "content_addressed (crypt e) (store e) (fst c')"
  using assms by (induction rule: sync_reach.induct) (auto intro: sync_step_content)

text \<open>Every future waits for something its node was asked for: a batch under the hash the proposal's
  message carried, a parent under the proposal's parent hash. A future that waits for both has asked for
  the batch alone.\<close>

definition asked_for :: "node_id \<Rightarrow> (node_id \<times> 'tx protocol_msg) list \<Rightarrow> 'tx waiting \<Rightarrow> bool" where
  "asked_for me sent w = (case w of
     WaitBatch bh p a sender \<Rightarrow> (sender, BatchRequest me \<lparr>req_hash = bh\<rparr>) \<in> set sent
   | WaitParent b p a sender \<Rightarrow> (sender, ElementRequest me \<lparr>req_hash = parent_hash p\<rparr>) \<in> set sent
   | WaitBoth bh p a sender \<Rightarrow> (sender, BatchRequest me \<lparr>req_hash = bh\<rparr>) \<in> set sent)"

definition parent_named :: "'tx sync_msg \<Rightarrow> bool" where
  "parent_named m = (case m of DeliverParentOnly ph sender p a b \<Rightarrow> ph = parent_hash p | _ \<Rightarrow> True)"

definition waits_ok :: "'tx sync_helper \<Rightarrow> bool" where
  "waits_ok sh \<longleftrightarrow> sh_inv sh \<and>
     list_all (asked_for (sh_my_id sh) (sh_sent sh)) (sh_relays_waiting sh @ sh_elements_waiting sh)"

lemma asked_for_sent: "asked_for me sent w \<Longrightarrow> asked_for me (sent @ ms) w"
  by (cases w) (simp_all add: asked_for_def)

lemma asked_for_all: "list_all (asked_for me sent) ws \<Longrightarrow> list_all (asked_for me (sent @ ms)) ws"
  by (auto simp: list_all_iff intro: asked_for_sent)

lemma pend_ok_asked: "pend_ok req r sent pend \<Longrightarrow> h \<in> set (entry_list pend (r', i)) \<Longrightarrow> (i, req h) \<in> set sent"
  unfolding pend_ok_def by force

lemma on_sync_request_waits:
  assumes "waits_ok sh" "parent_named m"
  shows "waits_ok (on_sync_request m sh)"
proof -
  have "sh_inv (on_sync_request m sh)" using assms(1) by (auto simp: waits_ok_def intro: on_sync_request_inv)
  moreover have "list_all (asked_for (sh_my_id (on_sync_request m sh)) (sh_sent (on_sync_request m sh)))
    (sh_relays_waiting (on_sync_request m sh) @ sh_elements_waiting (on_sync_request m sh))"
    using assms
    by (cases m)
       (auto simp: on_sync_request_def Let_def waits_ok_def sh_inv_def parent_named_def asked_for_def [of _ _ "WaitBatch _ _ _ _"]
          asked_for_def [of _ _ "WaitParent _ _ _ _"] asked_for_def [of _ _ "WaitBoth _ _ _ _"]
          intro: asked_for_all dest: pend_ok_asked)
  ultimately show ?thesis by (simp add: waits_ok_def)
qed

lemma send_inner_named:
  "send_inner m sy = (r, sy') \<Longrightarrow> list_all parent_named (sy_inner sy) \<Longrightarrow> parent_named m \<Longrightarrow> list_all parent_named (sy_inner sy')"
  by (auto simp: send_inner_def split: if_splits)

lemma send_other_inner [simp]:
  "sy_inner (snd (send_outer m sy)) = sy_inner sy" "sy_inner (snd (send_helper hr sy)) = sy_inner sy"
  by (simp_all add: send_outer_def send_helper_def)

lemma send_other_eq:
  "send_outer m sy = (r, sy') \<Longrightarrow> sy_inner sy' = sy_inner sy"
  "send_helper hr sy = (r, sy') \<Longrightarrow> sy_inner sy' = sy_inner sy"
  using send_other_inner(1) [of m sy] send_other_inner(2) [of hr sy] by simp_all

lemma sync_msg_named:
  assumes "sync_msg e m (s, sy) = (r, s', sy')" "list_all parent_named (sy_inner sy)"
  shows "list_all parent_named (sy_inner sy')"
  using assms
  by (cases m)
     (auto simp: sync_msg_def sync_propose_msg_def sync_relay_msg_def Let_def parent_named_def [of "DeliverParentOnly _ _ _ _ _"]
        parent_named_def [of "DeliverParentAndBatch _ _ _ _"] parent_named_def [of "DeliverBatchOnly _ _ _ _"]
        split: outcome.splits option.splits prod.splits dest!: send_other_eq intro: send_inner_named)

lemma drop_nth_all: "list_all Q xs \<Longrightarrow> list_all Q (drop_nth i xs)"
  by (auto simp: drop_nth_def list_all_iff dest: in_set_takeD in_set_dropD)

lemma sync_step_waits:
  "sync_step e c c' \<Longrightarrow> list_all parent_named (sy_inner (fst (snd c))) \<and> waits_ok (snd (snd c)) \<Longrightarrow>
     list_all parent_named (sy_inner (fst (snd c'))) \<and> waits_ok (snd (snd c'))"
proof (induction rule: sync_step.induct)
  case (recv m s sy r s' sy' sh)
  then show ?case using sync_msg_named [OF recv.hyps] by simp
next
  case (inner sy m ms s sh)
  then show ?case by (auto intro: on_sync_request_waits)
next
  case (relay_ready i sh s m s' sy r sy')
  then show ?case using send_other_eq(1) [OF relay_ready.hyps(3)] by (auto simp: waits_ok_def intro: drop_nth_all)
next
  case (relay_failed i sh s er s' sy)
  then show ?case by (auto simp: waits_ok_def intro: drop_nth_all)
next
  case (element_ready i sh s m s' sy r sy')
  then show ?case using send_other_eq(1) [OF element_ready.hyps(3)] by (auto simp: waits_ok_def intro: drop_nth_all)
next
  case (element_failed i sh s er s' sy)
  then show ?case by (auto simp: waits_ok_def intro: drop_nth_all)
next
  case (taken sy m sy' s sh)
  then show ?case by (auto simp: sync_next_def split: list.splits)
next
  case (round rd sy r sy' s sh)
  then show ?case
    using send_inner_named [of "AdvanceRound rd" sy r sy'] by (simp add: sync_advance_round_def parent_named_def [of "AdvanceRound rd"])
qed simp_all

lemma sync_reach_waits:
  assumes "sync_reach e (s, synchronizer_new, sync_helper_new me) c"
  shows "waits_ok (snd (snd c))"
proof -
  have "list_all parent_named (sy_inner (fst (snd c))) \<and> waits_ok (snd (snd c))"
    using assms
  proof (induction rule: sync_reach.induct)
    case start
    show ?case using sync_helper_new_inv [of me] by (simp add: synchronizer_new_def waits_ok_def sync_helper_new_def)
  next
    case (further c c')
    then show ?case using sync_step_waits by blast
  qed
  then show ?thesis by blast
qed

subsection \<open>Properties\<close>



lemma held_read:
  assumes "codec_ok cd" "st_read st s (ser_and_hash cr cd v) = Inr (Some (encode cd v))"
  shows "db_read st cd s (ser_and_hash cr cd v) = Ok (Some v)"
  using assms by (simp add: db_read_def codec_ok_def)

lemma missing_read: "st_read st s h = Inr None \<Longrightarrow> db_read st cd s h = Ok None"
  by (simp add: db_read_def)

lemma response_read:
  assumes "storage_ok (store e)" "codec_ok cd"
  shows "db_read (store e) cd (on_response e cd \<lparr>resp_hash = h, resp_value = v\<rparr> s) (ser_and_hash (crypt e) cd v) = Ok (Some v)"
  using assms by (simp add: on_response_def db_write_def Let_def ser_and_hash_def)

text \<open>C40. Request and response: a helper whose store holds the serialization of an element or of a batch
  under its hash answers a request for it, and the answer makes the value readable under that hash at the
  requester, whatever was in the requester's store; a helper that does not hold what is asked for sends
  nothing.\<close>

theorem request_response_roundtrip:
  assumes ok: "env_ok e"
  shows "(st_read (store e) sB (ser_and_hash (crypt e) (cd_element e) el) = Inr (Some (encode (cd_element e) el)) \<longrightarrow>
      (\<exists>resp. helper_step e (HElementRequest src \<lparr>req_hash = ser_and_hash (crypt e) (cd_element e) el\<rparr>) sB =
          [(src, ElementResponse resp)] \<and>
        db_read (store e) (cd_element e) (fst (snd (sync_msg e (ElementResponse resp) (sA, sy))))
          (ser_and_hash (crypt e) (cd_element e) el) = Ok (Some el))) \<and>
    (st_read (store e) sB (ser_and_hash (crypt e) (cd_batch e) b) = Inr (Some (encode (cd_batch e) b)) \<longrightarrow>
      (\<exists>resp. helper_step e (HBatchRequest src \<lparr>req_hash = ser_and_hash (crypt e) (cd_batch e) b\<rparr>) sB =
          [(src, BatchResponse resp)] \<and>
        db_read (store e) (cd_batch e) (fst (snd (sync_msg e (BatchResponse resp) (sA, sy))))
          (ser_and_hash (crypt e) (cd_batch e) b) = Ok (Some b))) \<and>
    (st_read (store e) sB h = Inr None \<longrightarrow>
      helper_step e (HElementRequest src \<lparr>req_hash = h\<rparr>) sB = [] \<and> helper_step e (HBatchRequest src \<lparr>req_hash = h\<rparr>) sB = [])"
proof (intro conjI impI)
  have o: "storage_ok (store e)" "codec_ok (cd_element e)" "codec_ok (cd_batch e)" using ok by (simp_all add: env_ok_def)
  show "\<exists>resp. helper_step e (HElementRequest src \<lparr>req_hash = ser_and_hash (crypt e) (cd_element e) el\<rparr>) sB =
          [(src, ElementResponse resp)] \<and>
        db_read (store e) (cd_element e) (fst (snd (sync_msg e (ElementResponse resp) (sA, sy))))
          (ser_and_hash (crypt e) (cd_element e) el) = Ok (Some el)"
    if "st_read (store e) sB (ser_and_hash (crypt e) (cd_element e) el) = Inr (Some (encode (cd_element e) el))"
    using held_read [OF o(2) that] response_read [OF o(1,2)]
    by (simp add: helper_step_def handle_request_def sync_msg_def)
  show "\<exists>resp. helper_step e (HBatchRequest src \<lparr>req_hash = ser_and_hash (crypt e) (cd_batch e) b\<rparr>) sB =
          [(src, BatchResponse resp)] \<and>
        db_read (store e) (cd_batch e) (fst (snd (sync_msg e (BatchResponse resp) (sA, sy))))
          (ser_and_hash (crypt e) (cd_batch e) b) = Ok (Some b)"
    if "st_read (store e) sB (ser_and_hash (crypt e) (cd_batch e) b) = Inr (Some (encode (cd_batch e) b))"
    using held_read [OF o(3) that] response_read [OF o(1,3)]
    by (simp add: helper_step_def handle_request_def sync_msg_def)
qed (simp_all add: helper_step_def handle_request_def missing_read)

theorem request_response_roundtrip_witness:
  "\<exists>resp. helper_step test_env (HElementRequest 3 \<lparr>req_hash = 1110\<rparr>)
       [1110 \<mapsto> SElement (test_element 1 1 1000 [])] = [(3, ElementResponse resp)] \<and>
     db_read (store test_env) (cd_element test_env)
       (fst (snd (sync_msg test_env (ElementResponse resp) (Map.empty, synchronizer_new)))) 1110 =
       Ok (Some (test_element 1 1 1000 []))"
proof -
  have h: "ser_and_hash (crypt test_env) (cd_element test_env) (test_element 1 1 1000 []) = 1110"
    by (simp add: test_element_def)
  have "st_read (store test_env) [1110 \<mapsto> SElement (test_element 1 1 1000 [])] 1110 =
      Inr (Some (encode (cd_element test_env) (test_element 1 1 1000 [])))"
    by (simp add: test_env_def test_store_def)
  with conjunct1 [OF request_response_roundtrip [OF test_env_ok, of "[1110 \<mapsto> SElement (test_element 1 1 1000 [])]"
      "test_element 1 1 1000 []" 3 Map.empty synchronizer_new], unfolded h]
  show ?thesis by blast
qed

text \<open>When both batch and parent of a relayed proposal are unknown, the sync helper requests
  only the batch: nothing asks for the parent, although the queued future waits for it.\<close>

theorem parent_never_requested:
  assumes "db_read (store e) (cd_batch e) s bh = Ok None"
    and "db_read (store e) (cd_element e) s (parent_hash p) = Ok None"
    and "sy_inner_open sy" "sy_inner sy = []"
  shows "\<exists>s' sy'. sync_msg e (Relay p a bh sender) (s, sy) = (Ok (), s', sy') \<and>
    sy_inner sy' = [DeliverParentAndBatch bh sender p a] \<and>
    sh_elements_waiting (on_sync_request (hd (sy_inner sy')) sh) = sh_elements_waiting sh @ [WaitBoth bh p a sender] \<and>
    filter (\<lambda>m. case snd m of ElementRequest _ _ \<Rightarrow> True | _ \<Rightarrow> False)
      (sh_sent (on_sync_request (hd (sy_inner sy')) sh)) =
    filter (\<lambda>m. case snd m of ElementRequest _ _ \<Rightarrow> True | _ \<Rightarrow> False) (sh_sent sh)"
  using assms by (simp add: sync_msg_def sync_relay_msg_def send_inner_def on_sync_request_def Let_def)

theorem parent_never_requested_witness:
  "\<exists>s' sy'. sync_msg test_env (Relay (el_proposal (test_element 2 2 1110 [])) \<lparr>sig_raw = [], sig_id = 2\<rparr> 100 3)
     (Map.empty, synchronizer_new) = (Ok (), s', sy')"
  using parent_never_requested [of test_env Map.empty 100 "el_proposal (test_element 2 2 1110 [])"
      synchronizer_new "\<lparr>sig_raw = [], sig_id = 2\<rparr>" 3 "sync_helper_new 0"]
  by (simp add: synchronizer_new_def) blast

end
