(* ===== verification/Leto.thy ===== *)
theory Leto
  imports RoundContext Commit Synchronizer
begin

section \<open>The Leto replica\<close>

text \<open>
  \<^verbatim>\<open>server/leto/core.rs\<close> and \<^verbatim>\<open>server/leto/phases/{blame,proposal,relay,commit}.rs\<close>: the replica
  state, every handler and one turn of the \<^verbatim>\<open>select!\<close> loop. A handler maps a state to its result
  and the new state; the effects are logs in the state: \<open>l_out\<close> (network), \<open>l_to_batcher\<close>,
  \<open>l_to_commit\<close>, \<open>l_loopback\<close>. The reliable sender (crate \<^verbatim>\<open>tcp-reliable-sender\<close>) is the record
  \<open>net\<close>: the cancel handlers of the sends that were accepted, which may depend on how much was sent
  before. \<open>lp_order\<close> is the iteration order of an \<^verbatim>\<open>FnvHashMap\<close>'s keys; \<open>lp_checked\<close> says whether the
  build checks arithmetic for overflow.
\<close>

record ('tx, 'c) net =
  net_bcast :: "nat \<Rightarrow> node_id list \<Rightarrow> 'tx protocol_msg \<Rightarrow> 'c list"
  net_send :: "nat \<Rightarrow> node_id \<Rightarrow> 'tx protocol_msg \<Rightarrow> 'c option"

record ('s, 'tx, 'b, 'c, 'g) leto_params =
  lp_env :: "('s, 'tx, 'b) env"
  lp_net :: "('tx, 'c) net"
  lp_pick :: "'g chooser"
  lp_order :: "node_id set \<Rightarrow> node_id list"
  lp_gc :: nat
  lp_checked :: bool

record ('s, 'tx, 'c, 'g) leto =
  l_my_id :: node_id
  l_secret :: secret_key
  l_system :: pk_map
  l_peers :: "node_id list"
  l_num_nodes :: nat
  l_num_faults :: nat
  l_rc :: "('tx, 'c) round_context"
  l_lc :: "'g leader_context"
  l_cs :: "('s, 'tx) chain_state"
  l_sy :: "'tx synchronizer"
  l_timer :: round_timer
  l_loopback :: "'tx protocol_msg list"
  l_loopback_open :: bool
  l_to_batcher :: "'tx batcher_msg list"
  l_batcher_open :: bool
  l_to_commit :: "(digest \<times> 'tx element) list"
  l_commit_open :: bool
  l_out :: "(node_id list \<times> 'tx protocol_msg) list"

type_synonym ('s, 'tx, 'c, 'g, 'r) handler = "('s, 'tx, 'c, 'g) leto \<Rightarrow> 'r outcome \<times> ('s, 'tx, 'c, 'g) leto"

text \<open>The state \<^verbatim>\<open>spawn\<close> builds for the protocol task, with the panics of its construction: too small a
  committee for the leader context, a round timer without a period. Leto builds it inside the task it
  starts, so that such a panic ends the task and not its starter.\<close>

definition leto_spawn ::
  "('s, 'tx, 'b, 'c, 'g) leto_params \<Rightarrow> node_id \<Rightarrow> secret_key \<Rightarrow> pk_map \<Rightarrow> node_id list \<Rightarrow> config \<Rightarrow> nat \<Rightarrow> 'g \<Rightarrow> 's
    \<Rightarrow> ('s, 'tx, 'c, 'g) leto outcome" where
  "leto_spawn P my_id sk sys all_peers conf delay_in_ms seed s =
     bind_o (ok_or (NotInConfig my_id) (get_party conf my_id)) (\<lambda>me.
     bind_o (get_consensus_peers conf my_id) (\<lambda>peers.
     bind_o (leader_new (lp_pick P) seed (get_all_ids (lp_order P) conf) (num_faults conf)) (\<lambda>lc.
     bind_o (interval (u64 (lp_checked P) (4 * delay_in_ms))) (\<lambda>_.
     Ok \<lparr>l_my_id = my_id, l_secret = sk, l_system = sys,
         l_peers = filter (\<lambda>x. x \<noteq> my_id) all_peers,
         l_num_nodes = num_nodes conf, l_num_faults = num_faults conf,
         l_rc = rc_new (num_nodes conf), l_lc = lc, l_cs = chain_state_new (lp_env P) s,
         l_sy = synchronizer_new, l_timer = \<lparr>tm_resets = 0, tm_enabled = True\<rparr>,
         l_loopback = [], l_loopback_open = True, l_to_batcher = [], l_batcher_open = True,
         l_to_commit = [], l_commit_open = True, l_out = []\<rparr>))))"

definition qc_len :: "('s, 'tx, 'c, 'g) leto \<Rightarrow> nat" where
  "qc_len l = (l_num_nodes l + l_num_faults l + 1) div 2"

subsection \<open>Sending\<close>

definition broadcast ::
  "('s, 'tx, 'b, 'c, 'g) leto_params \<Rightarrow> 'tx protocol_msg \<Rightarrow> ('s, 'tx, 'c, 'g) leto \<Rightarrow> ('s, 'tx, 'c, 'g) leto" where
  "broadcast P m l =
     l\<lparr>l_rc := add_handlers (net_bcast (lp_net P) (length (l_out l)) (l_peers l) m) (l_rc l),
       l_out := l_out l @ [(l_peers l, m)]\<rparr>"

definition send_loopback :: "'tx protocol_msg \<Rightarrow> ('s, 'tx, 'c, 'g, unit) handler" where
  "send_loopback m l =
     (if l_loopback_open l then (Ok (), l\<lparr>l_loopback := l_loopback l @ [m]\<rparr>) else (Err ChannelClosed, l))"

definition send_batcher :: "'tx batcher_msg \<Rightarrow> ('s, 'tx, 'c, 'g, unit) handler" where
  "send_batcher m l =
     (if l_batcher_open l then (Ok (), l\<lparr>l_to_batcher := l_to_batcher l @ [m]\<rparr>) else (Err ChannelClosed, l))"

definition try_commit :: "('s, 'tx, 'c, 'g, unit) handler" where
  "try_commit l =
     (if l_commit_open l
      then (Ok (), l\<lparr>l_to_commit := l_to_commit l @ [(highest_hash (l_cs l), highest_chain (l_cs l))]\<rparr>)
      else (Err ChannelClosed, l))"

subsection \<open>Advancing the round\<close>

definition advance_leader :: "('s, 'tx, 'b, 'c, 'g) leto_params \<Rightarrow> ('s, 'tx, 'c, 'g, unit) handler" where
  "advance_leader P l = (case leader_advance_round (lp_pick P) (l_lc l) of
     Ok lc \<Rightarrow> (Ok (), l\<lparr>l_lc := lc\<rparr>) | Err er \<Rightarrow> (Err er, l) | Panic \<Rightarrow> (Panic, l))"

definition advance_context :: "('s, 'tx, 'b, 'c, 'g) leto_params \<Rightarrow> ('s, 'tx, 'c, 'g, unit) handler" where
  "advance_context P l =
     (let (tm, rc) = rc_advance_round (lp_gc P) (l_timer l) (l_rc l)
      in (Ok (), l\<lparr>l_timer := tm, l_rc := rc\<rparr>))"

definition advance_synchronizer :: "('s, 'tx, 'c, 'g, unit) handler" where
  "advance_synchronizer l =
     (let (r, sy) = sync_advance_round (rc_round (l_rc l)) (l_sy l) in (r, l\<lparr>l_sy := sy\<rparr>))"

definition announce_round :: "('s, 'tx, 'c, 'g, unit) handler" where
  "announce_round l = send_batcher (NewRound (leader (l_lc l)) (rc_round (l_rc l))) l"

definition leto_advance_round :: "('s, 'tx, 'b, 'c, 'g) leto_params \<Rightarrow> ('s, 'tx, 'c, 'g, unit) handler" where
  "leto_advance_round P =
     bind_s (advance_leader P) (\<lambda>_.
     bind_s (advance_context P) (\<lambda>_.
     bind_s advance_synchronizer (\<lambda>_.
     bind_s try_commit (\<lambda>_. announce_round))))"

subsection \<open>Blame\<close>

definition on_round_timeout :: "('s, 'tx, 'b, 'c, 'g) leto_params \<Rightarrow> ('s, 'tx, 'c, 'g, unit) handler" where
  "on_round_timeout P l =
     (let l1 = l\<lparr>l_timer := disable_blame_timers (l_timer l)\<rparr>;
          r = rc_round (l_rc l1);
          h = ser_and_hash (crypt (lp_env P)) (cd_round (lp_env P)) r
      in case signature_new (crypt (lp_env P)) h (l_my_id l1) (l_secret l1) of
           Err er \<Rightarrow> (Err er, l1) | Panic \<Rightarrow> (Panic, l1)
         | Ok auth \<Rightarrow> send_loopback (Blame r auth) (broadcast P (Blame r auth) l1))"

definition handle_blame_qc ::
  "('s, 'tx, 'b, 'c, 'g) leto_params \<Rightarrow> round \<Rightarrow> certificate \<Rightarrow> ('s, 'tx, 'c, 'g, unit) handler" where
  "handle_blame_qc P r qc l =
     (let l1 = l\<lparr>l_rc := (l_rc l)\<lparr>rc_got_qc := True\<rparr>\<rparr>;
          l2 = broadcast P (BlameQC r qc) l1;
          l3 = l2\<lparr>l_cs := add_qc r qc (l_cs l2)\<rparr>
      in leto_advance_round P l3)"

definition on_blame_qc ::
  "('s, 'tx, 'b, 'c, 'g) leto_params \<Rightarrow> round \<Rightarrow> certificate \<Rightarrow> ('s, 'tx, 'c, 'g, unit) handler" where
  "on_blame_qc P r qc l =
     (if rc_got_qc (l_rc l) then (Ok (), l)
      else case certificate_verify (crypt (lp_env P)) qc
                  (ser_and_hash (crypt (lp_env P)) (cd_round (lp_env P)) r) (l_system l) of
             Err er \<Rightarrow> (Err er, l) | Panic \<Rightarrow> (Panic, l)
           | Ok _ \<Rightarrow> handle_blame_qc P r qc l)"

text \<open>The certificate takes the signatures in the iteration order of the map.\<close>

definition blame_certificate ::
  "(node_id set \<Rightarrow> node_id list) \<Rightarrow> (node_id \<rightharpoonup> signature) \<Rightarrow> certificate" where
  "blame_certificate order m = foldl certificate_add certificate_empty (map (\<lambda>i. the (m i)) (order (dom m)))"

definition handle_blame ::
  "('s, 'tx, 'b, 'c, 'g) leto_params \<Rightarrow> round \<Rightarrow> signature \<Rightarrow> ('s, 'tx, 'c, 'g, unit) handler" where
  "handle_blame P r auth l =
     (if el_round (highest_chain (l_cs l)) = r then (Ok (), l)
      else if rc_got_qc (l_rc l) then (Ok (), l)
      else case l_system l (sig_id auth) of
        None \<Rightarrow> (Err (UnknownId (sig_id auth)), l)
      | Some pk \<Rightarrow>
        (case verify_without_id_check (crypt (lp_env P)) auth
                (ser_and_hash (crypt (lp_env P)) (cd_round (lp_env P)) r) pk of
           Err er \<Rightarrow> (Err er, l) | Panic \<Rightarrow> (Panic, l)
         | Ok _ \<Rightarrow>
             let m = (rc_blame_map (l_rc l))(sig_id auth \<mapsto> auth);
                 l1 = l\<lparr>l_rc := (l_rc l)\<lparr>rc_blame_map := m\<rparr>\<rparr>
             in if card (dom m) \<noteq> qc_len l then (Ok (), l1)
                else handle_blame_qc P r (blame_certificate (lp_order P) m)
                       (l1\<lparr>l_rc := (l_rc l1)\<lparr>rc_got_qc := True, rc_blame_map := Map.empty\<rparr>\<rparr>)))"


subsection \<open>Proposals\<close>

text \<open>
  The validity loop of \<^verbatim>\<open>handle_proposal\<close>: one blame certificate per round between the parent's
  round and the proposal's, in ascending order. \<^verbatim>\<open>qc_vec[idx]\<close> out of bounds is a panic. The index
  is checked against \<open>num_faults\<close> after the certificate, so the loop ends. Both additions are on
  \<^verbatim>\<open>u64\<close> values a peer may have chosen: the parent's round is read from a stored element.
\<close>

function check_qcs ::
  "bool \<Rightarrow> ('s, 'tx, 'b) env \<Rightarrow> pk_map \<Rightarrow> nat \<Rightarrow> nat \<Rightarrow> proposal \<Rightarrow> round \<Rightarrow> nat \<Rightarrow> bool outcome" where
  "check_qcs checked e sys len nf p start idx =
     (if p_round p = start then Ok True
      else case p_qc p of
        None \<Rightarrow> Ok False
      | Some qcs \<Rightarrow>
          if length qcs \<le> idx then Panic
          else if unique_len (qcs ! idx) \<noteq> len then Ok False
          else if certificate_verify (crypt e) (qcs ! idx) (ser_and_hash (crypt e) (cd_round e) start) sys \<noteq> Ok ()
          then Ok False
          else if nf < idx then Ok False
          else bind_o (u64 checked (start + 1)) (\<lambda>start'. check_qcs checked e sys len nf p start' (idx + 1)))"
  by pat_completeness auto
termination by (relation "measure (\<lambda>(checked, e, sys, len, nf, p, start, idx). Suc nf - idx)") auto

declare check_qcs.simps [simp del]

definition proposal_valid ::
  "bool \<Rightarrow> ('s, 'tx, 'b) env \<Rightarrow> pk_map \<Rightarrow> nat \<Rightarrow> nat \<Rightarrow> proposal \<Rightarrow> round \<Rightarrow> bool outcome" where
  "proposal_valid checked e sys len nf p parent_round =
     bind_o (u64 checked (parent_round + 1)) (\<lambda>start. check_qcs checked e sys len nf p start 0)"

definition find_parent ::
  "('s, 'tx, 'b, 'c, 'g) leto_params \<Rightarrow> digest \<Rightarrow> ('s, 'tx, 'c, 'g) leto \<Rightarrow> 'tx element outcome" where
  "find_parent P h l =
     (if h = highest_hash (l_cs l) then Ok (highest_chain (l_cs l))
      else bind_o (get_element (lp_env P) (l_cs l) h) (\<lambda>r. case r of None \<Rightarrow> Panic | Some el \<Rightarrow> Ok el))"

definition relay_proposal ::
  "('s, 'tx, 'b, 'c, 'g) leto_params \<Rightarrow> proposal \<Rightarrow> signature \<Rightarrow> digest \<Rightarrow> ('s, 'tx, 'c, 'g) leto \<Rightarrow> ('s, 'tx, 'c, 'g) leto" where
  "relay_proposal P p auth bh l =
     (let nl = next_leader (l_lc l) in
      if nl = l_my_id l then l
      else
        let m = Relay p auth bh (l_my_id l);
            l1 = l\<lparr>l_out := l_out l @ [([nl], m)]\<rparr>
        in case net_send (lp_net P) (length (l_out l)) nl m of
             None \<Rightarrow> l1
           | Some h \<Rightarrow> l1\<lparr>l_rc := add_handler h (l_rc l1)\<rparr>)"

definition on_correct_proposal ::
  "('s, 'tx, 'b, 'c, 'g) leto_params \<Rightarrow> proposal \<Rightarrow> signature \<Rightarrow> 'tx batch \<Rightarrow> ('s, 'tx, 'c, 'g, unit) handler" where
  "on_correct_proposal P p auth b l =
     (let l1 = relay_proposal P p auth (batch_hash (p_block p)) l;
          l2 = l1\<lparr>l_cs := update_highest_chain (lp_env P) p auth b (l_cs l1)\<rparr>
      in bind_s (send_batcher (Proposed (el_batch (highest_chain (l_cs l2))) (el_round (highest_chain (l_cs l2)))))
           (\<lambda>_. leto_advance_round P) l2)"

definition handle_proposal ::
  "('s, 'tx, 'b, 'c, 'g) leto_params \<Rightarrow> proposal \<Rightarrow> signature \<Rightarrow> 'tx batch \<Rightarrow> ('s, 'tx, 'c, 'g, unit) handler" where
  "handle_proposal P p auth b l =
     (case find_parent P (parent_hash p) l of
        Err er \<Rightarrow> (Err er, l) | Panic \<Rightarrow> (Panic, l)
      | Ok parent \<Rightarrow>
        (case proposal_valid (lp_checked P) (lp_env P) (l_system l) (qc_len l) (l_num_faults l) p (el_round parent) of
           Err er \<Rightarrow> (Err er, l) | Panic \<Rightarrow> (Panic, l)
         | Ok valid \<Rightarrow>
           (case (if leader (l_lc l) \<noteq> l_my_id l then
                    bind_o (ok_or UnknownProposalSigner (l_system l (leader (l_lc l)))) (\<lambda>pk.
                      signature_verify (crypt (lp_env P)) auth
                        (ser_and_hash (crypt (lp_env P)) (cd_proposal (lp_env P)) p) (leader (l_lc l)) pk)
                  else Ok ()) of
              Err er \<Rightarrow> (Err er, l) | Panic \<Rightarrow> (Panic, l)
            | Ok _ \<Rightarrow> on_correct_proposal P p auth b l)))"

text \<open>The certificates a new leader attaches, from the round before down to the highest element.\<close>

fun collect_qcs :: "('s, 'tx) chain_state \<Rightarrow> round \<Rightarrow> round \<Rightarrow> certificate list \<Rightarrow> certificate list outcome" where
  "collect_qcs cs en 0 acc = Ok acc"
| "collect_qcs cs en (Suc start) acc =
     (if en < Suc start then
        (case get_qc cs (Suc start) of
           None \<Rightarrow> Panic
         | Some qc \<Rightarrow> collect_qcs cs en start (acc @ [qc]))
      else Ok acc)"

definition new_proposal :: "digest \<Rightarrow> certificate list \<Rightarrow> ('s, 'tx, 'c, 'g) leto \<Rightarrow> proposal" where
  "new_proposal bh qcs l =
     \<lparr>p_block = \<lparr>batch_hash = bh, prev_hash = highest_hash (l_cs l)\<rparr>,
      p_qc = (if qcs = [] then None else Some qcs), p_round = rc_round (l_rc l)\<rparr>"

text \<open>Sign, fetch the batch, broadcast, and handle the own proposal; an error of that last step is
  only logged.\<close>

definition send_proposal ::
  "('s, 'tx, 'b, 'c, 'g) leto_params \<Rightarrow> proposal \<Rightarrow> ('s, 'tx, 'c, 'g, unit) handler" where
  "send_proposal P p l =
     (case signature_new (crypt (lp_env P))
             (ser_and_hash (crypt (lp_env P)) (cd_proposal (lp_env P)) p) (l_my_id l) (l_secret l) of
        Err er \<Rightarrow> (Err er, l) | Panic \<Rightarrow> (Panic, l)
      | Ok auth \<Rightarrow>
        (case bind_o (get_batch (lp_env P) (l_cs l) (batch_hash (p_block p))) (ok_or ProposerBatchMissing) of
           Err er \<Rightarrow> (Err er, l) | Panic \<Rightarrow> (Panic, l)
         | Ok b \<Rightarrow>
             let res = handle_proposal P p auth b (broadcast P (Propose p auth b (l_my_id l)) l)
             in (if fst res = Panic then Panic else Ok (), snd res)))"

definition handle_new_batch ::
  "('s, 'tx, 'b, 'c, 'g) leto_params \<Rightarrow> digest \<Rightarrow> ('s, 'tx, 'c, 'g, unit) handler" where
  "handle_new_batch P bh l =
     (case collect_qcs (l_cs l) (el_round (highest_chain (l_cs l))) (rc_round (l_rc l) - 1) [] of
        Err er \<Rightarrow> (Err er, l) | Panic \<Rightarrow> (Panic, l)
      | Ok qcs \<Rightarrow> send_proposal P (new_proposal bh qcs l) l)"

subsection \<open>Dispatch and the loop\<close>

definition handle_msg ::
  "('s, 'tx, 'b, 'c, 'g) leto_params \<Rightarrow> 'tx protocol_msg \<Rightarrow> ('s, 'tx, 'c, 'g, unit) handler" where
  "handle_msg P m = (case m of
     Propose p auth b _ \<Rightarrow> handle_proposal P p auth b
   | Blame r auth \<Rightarrow> handle_blame P r auth
   | BlameQC r qc \<Rightarrow> on_blame_qc P r qc
   | _ \<Rightarrow> (\<lambda>l. (Panic, l)))"

datatype 'tx leto_event =
    LExit
  | LBatch "digest option"
  | LSynced
  | LRound
  | LTimer
  | LLoopback
  | LNet "'tx protocol_msg option"

datatype loop_result = Continue | Exited | Failed error | Crashed

text \<open>A handler's error is logged and the loop goes on; a panic ends the task.\<close>

definition logged :: "unit outcome \<times> 'l \<Rightarrow> loop_result \<times> 'l" where
  "logged r = (case fst r of Panic \<Rightarrow> (Crashed, snd r) | _ \<Rightarrow> (Continue, snd r))"

definition context_sync :: "'tx protocol_msg \<Rightarrow> ('s, 'tx, 'c, 'g, unit) handler" where
  "context_sync m l = (let (r, rc) = rc_sync m (l_rc l) in (r, l\<lparr>l_rc := rc\<rparr>))"

text \<open>The guards of the \<^verbatim>\<open>select!\<close>: a branch whose guard is false, or that has nothing to
  receive, is not taken.\<close>

definition leto_enabled :: "'tx leto_event \<Rightarrow> ('s, 'tx, 'c, 'g) leto \<Rightarrow> bool" where
  "leto_enabled ev l = (case ev of
     LBatch _ \<Rightarrow> leader (l_lc l) = l_my_id l
   | LSynced \<Rightarrow> sy_outer (l_sy l) \<noteq> []
   | LRound \<Rightarrow> rc_is_ready (l_rc l)
   | LTimer \<Rightarrow> tm_enabled (l_timer l)
   | LLoopback \<Rightarrow> l_loopback l \<noteq> []
   | _ \<Rightarrow> True)"

definition on_net_msg ::
  "('s, 'tx, 'b, 'c, 'g) leto_params \<Rightarrow> 'tx protocol_msg \<Rightarrow> ('s, 'tx, 'c, 'g, unit) handler" where
  "on_net_msg P m l =
     (let slow = (let (r, s, sy) = sync_msg (lp_env P) m (cs_db (l_cs l), l_sy l)
                  in (r, l\<lparr>l_cs := (l_cs l)\<lparr>cs_db := s\<rparr>, l_sy := sy\<rparr>))
      in case m of
           Propose p auth b sender \<Rightarrow>
             if p_round p = rc_round (l_rc l) \<and> parent_hash p = highest_hash (l_cs l)
             then context_sync m (l\<lparr>l_cs := write_batch_ref (lp_env P) b (l_cs l)\<rparr>)
             else slow
         | _ \<Rightarrow> slow)"

definition leto_step ::
  "('s, 'tx, 'b, 'c, 'g) leto_params \<Rightarrow> 'tx leto_event \<Rightarrow> ('s, 'tx, 'c, 'g) leto \<Rightarrow> loop_result \<times> ('s, 'tx, 'c, 'g) leto" where
  "leto_step P ev l =
     (if \<not> leto_enabled ev l then (Continue, l)
      else case ev of
        LExit \<Rightarrow> (Exited, l)
      | LBatch None \<Rightarrow> (Failed ChannelClosed, l)
      | LBatch (Some bh) \<Rightarrow> logged (handle_new_batch P bh l)
      | LSynced \<Rightarrow>
          (case sync_next (l_sy l) of
             None \<Rightarrow> (Continue, l)
           | Some (m, sy) \<Rightarrow> logged (context_sync m (l\<lparr>l_sy := sy\<rparr>)))
      | LRound \<Rightarrow>
          (case rc_poll_next (l_rc l) of
             (Ok m, rc) \<Rightarrow> logged (handle_msg P m (l\<lparr>l_rc := rc\<rparr>))
           | (Err er, rc) \<Rightarrow> (Failed er, l\<lparr>l_rc := rc\<rparr>)
           | (Panic, rc) \<Rightarrow> (Crashed, l\<lparr>l_rc := rc\<rparr>))
      | LTimer \<Rightarrow> logged (on_round_timeout P l)
      | LLoopback \<Rightarrow> logged (context_sync (hd (l_loopback l)) (l\<lparr>l_loopback := tl (l_loopback l)\<rparr>))
      | LNet None \<Rightarrow> (Failed ChannelClosed, l)
      | LNet (Some m) \<Rightarrow> logged (on_net_msg P m l))"

text \<open>The start of \<^verbatim>\<open>run\<close>: the genesis set-up, then the timer is reset.\<close>

definition leto_start :: "('s, 'tx, 'b, 'c, 'g) leto_params \<Rightarrow> ('s, 'tx, 'c, 'g, bool) handler" where
  "leto_start P l =
     (let (r, cs) = genesis_setup (lp_env P) (l_cs l)
      in (r, l\<lparr>l_cs := cs, l_timer := (l_timer l)\<lparr>tm_resets := tm_resets (l_timer l) + 1\<rparr>\<rparr>))"

end
