(* ===== verification/LetoSafety.thy ===== *)
theory LetoSafety
  imports Leto
begin

section \<open>Leto: invariants and properties\<close>

text \<open>
  The replica invariant over all runs of the loop, interleaved with the other tasks that share
  its store and its synchronizer channels, and the properties of the phases.
\<close>

definition channels_open :: "('s, 'tx, 'c, 'g) leto \<Rightarrow> bool" where
  "channels_open l \<longleftrightarrow> l_loopback_open l \<and> l_batcher_open l \<and> l_commit_open l \<and>
     sy_inner_open (l_sy l) \<and> sy_outer_open (l_sy l) \<and> sy_helper_open (l_sy l)"

text \<open>
  \<open>leto_ok N L gc hi l\<close>: leader and round context are well-formed and in step, channels are open,
  queued messages are of the kinds the round context takes, the highest element is of a round
  below \<open>hi\<close>, and every round between it and \<open>hi\<close> has a blame certificate.
\<close>

definition leto_ok :: "node_id set \<Rightarrow> nat \<Rightarrow> nat \<Rightarrow> round \<Rightarrow> ('s, 'tx, 'c, 'g) leto \<Rightarrow> bool" where
  "leto_ok N L gc hi l \<longleftrightarrow>
     leader_inv N L (l_lc l) \<and> rc_inv gc (l_rc l) \<and> rc_round (l_rc l) = Suc (lc_round (l_lc l)) \<and>
     channels_open l \<and> list_all syncable (l_loopback l) \<and> list_all syncable (sy_outer (l_sy l)) \<and>
     el_round (cs_highest_element (l_cs l)) < hi \<and>
     (\<forall>r. el_round (cs_highest_element (l_cs l)) < r \<and> r < hi \<longrightarrow> cs_qc_map (l_cs l) r \<noteq> None)"

abbreviation leto_inv :: "node_id set \<Rightarrow> nat \<Rightarrow> nat \<Rightarrow> ('s, 'tx, 'c, 'g) leto \<Rightarrow> bool" where
  "leto_inv N L gc l \<equiv> leto_ok N L gc (rc_round (l_rc l)) l"

lemma rc_inv_fields [simp]:
  "rc_inv gc (rc\<lparr>rc_got_qc := b\<rparr>) = rc_inv gc rc" "rc_inv gc (rc\<lparr>rc_blame_map := m\<rparr>) = rc_inv gc rc"
  by (simp_all add: rc_inv_def rc_pending_def)

lemma rc_pending_fields [simp]:
  "rc_pending (rc\<lparr>rc_got_qc := b\<rparr>) = rc_pending rc" "rc_pending (rc\<lparr>rc_blame_map := m\<rparr>) = rc_pending rc"
  by (simp_all add: rc_pending_def fun_eq_iff)

lemma rc_is_ready_pending: "rc_is_ready rc \<longleftrightarrow> rc_pending rc (rc_round rc) \<noteq> {#}"
  by (simp add: rc_is_ready_def rc_pending_def entry_list_def split: option.split)

lemma add_handlers_sel [simp]:
  "rc_round (add_handlers hs rc) = rc_round rc" "rc_got_qc (add_handlers hs rc) = rc_got_qc rc"
  "rc_blame_map (add_handlers hs rc) = rc_blame_map rc" "rc_msg_buf (add_handlers hs rc) = rc_msg_buf rc"
  "rc_round (add_handler h rc) = rc_round rc" "rc_got_qc (add_handler h rc) = rc_got_qc rc"
  "rc_blame_map (add_handler h rc) = rc_blame_map rc" "rc_msg_buf (add_handler h rc) = rc_msg_buf rc"
  by (simp_all add: add_handlers_def add_handler_def)

lemma broadcast_sel [simp]:
  "l_my_id (broadcast P m l) = l_my_id l" "l_secret (broadcast P m l) = l_secret l"
  "l_system (broadcast P m l) = l_system l" "l_peers (broadcast P m l) = l_peers l"
  "l_num_nodes (broadcast P m l) = l_num_nodes l" "l_num_faults (broadcast P m l) = l_num_faults l"
  "l_lc (broadcast P m l) = l_lc l" "l_cs (broadcast P m l) = l_cs l" "l_sy (broadcast P m l) = l_sy l"
  "l_timer (broadcast P m l) = l_timer l" "l_loopback (broadcast P m l) = l_loopback l"
  "l_to_batcher (broadcast P m l) = l_to_batcher l" "l_to_commit (broadcast P m l) = l_to_commit l"
  "l_out (broadcast P m l) = l_out l @ [(l_peers l, m)]"
  "rc_round (l_rc (broadcast P m l)) = rc_round (l_rc l)"
  "rc_got_qc (l_rc (broadcast P m l)) = rc_got_qc (l_rc l)"
  "rc_blame_map (l_rc (broadcast P m l)) = rc_blame_map (l_rc l)"
  "channels_open (broadcast P m l) = channels_open l"
  "rc_pending (l_rc (broadcast P m l)) = rc_pending (l_rc l)"
  by (simp_all add: broadcast_def channels_open_def)

lemma broadcast_ok [simp]: "leto_ok N L gc hi l \<Longrightarrow> leto_ok N L gc hi (broadcast P m l)"
  by (simp add: leto_ok_def broadcast_def channels_open_def add_handlers_inv)

lemma relay_proposal_sel [simp]:
  "l_my_id (relay_proposal P p a bh l) = l_my_id l" "l_system (relay_proposal P p a bh l) = l_system l"
  "l_lc (relay_proposal P p a bh l) = l_lc l" "l_cs (relay_proposal P p a bh l) = l_cs l"
  "l_sy (relay_proposal P p a bh l) = l_sy l" "l_loopback (relay_proposal P p a bh l) = l_loopback l"
  "l_to_batcher (relay_proposal P p a bh l) = l_to_batcher l"
  "l_to_commit (relay_proposal P p a bh l) = l_to_commit l"
  "l_batcher_open (relay_proposal P p a bh l) = l_batcher_open l"
  "rc_round (l_rc (relay_proposal P p a bh l)) = rc_round (l_rc l)"
  "channels_open (relay_proposal P p a bh l) = channels_open l"
  "rc_pending (l_rc (relay_proposal P p a bh l)) = rc_pending (l_rc l)"
  by (simp_all add: relay_proposal_def Let_def channels_open_def split: option.splits)

lemma relay_proposal_out: "set (l_out l) \<subseteq> set (l_out (relay_proposal P p a bh l))"
  by (auto simp: relay_proposal_def Let_def split: option.splits)

lemma relay_proposal_rc: "rc_inv gc (l_rc l) \<Longrightarrow> rc_inv gc (l_rc (relay_proposal P p a bh l))"
  by (simp add: relay_proposal_def Let_def add_handler_inv split: option.splits)

subsection \<open>Advancing\<close>

text \<open>What is still waiting once round \<open>r\<close> has been left.\<close>

definition beyond :: "round \<Rightarrow> (round \<Rightarrow> 'a multiset) \<Rightarrow> round \<Rightarrow> 'a multiset" where
  "beyond r M = (\<lambda>r'. if r' \<le> r then {#} else M r')"

lemma beyond_empty [simp]: "beyond r (\<lambda>r. {#}) = (\<lambda>r. {#})"
  by (simp add: beyond_def)

text \<open>With a well-formed leader context and open channels a round change always succeeds; this is
  the state it leaves.\<close>

lemma leto_advance_eq:
  assumes inv: "leader_inv N L (l_lc l)" and ch: "chooser_ok (lp_pick P)" and op: "channels_open l"
  shows "\<exists>lc'. leader_advance_round (lp_pick P) (l_lc l) = Ok lc' \<and> leader_inv N L lc' \<and>
    lc_round lc' = Suc (lc_round (l_lc l)) \<and> lc_leader lc' = lc_next_leader (l_lc l) \<and>
    leto_advance_round P l = (Ok (), l\<lparr>l_lc := lc',
      l_timer := \<lparr>tm_resets = tm_resets (l_timer l) + 1, tm_enabled = True\<rparr>,
      l_rc := snd (rc_advance_round (lp_gc P) (l_timer l) (l_rc l)),
      l_sy := (l_sy l)\<lparr>sy_inner := sy_inner (l_sy l) @ [AdvanceRound (Suc (rc_round (l_rc l)))]\<rparr>,
      l_to_commit := l_to_commit l @ [(cs_highest_hash (l_cs l), cs_highest_element (l_cs l))],
      l_to_batcher := l_to_batcher l @ [NewRound (lc_leader lc') (Suc (rc_round (l_rc l)))]\<rparr>)"
proof -
  obtain lc' where lc': "leader_advance_round (lp_pick P) (l_lc l) = Ok lc'" "leader_inv N L lc'"
    "lc_leader lc' = lc_next_leader (l_lc l)" "lc_round lc' = Suc (lc_round (l_lc l))"
    using leader_advance_ok [OF inv ch] by auto
  obtain tm rc where rc: "rc_advance_round (lp_gc P) (l_timer l) (l_rc l) = (tm, rc)" by fastforce
  then have tm: "tm = \<lparr>tm_resets = tm_resets (l_timer l) + 1, tm_enabled = True\<rparr>"
    and rnd: "rc_round rc = Suc (rc_round (l_rc l))"
    using rc_advance_timer [of "lp_gc P" "l_timer l" "l_rc l"] rc_advance_sel(1) [of "lp_gc P" "l_timer l" "l_rc l"]
    by simp_all
  have "leto_advance_round P l = (Ok (), l\<lparr>l_lc := lc', l_timer := tm, l_rc := rc,
      l_sy := (l_sy l)\<lparr>sy_inner := sy_inner (l_sy l) @ [AdvanceRound (rc_round rc)]\<rparr>,
      l_to_commit := l_to_commit l @ [(cs_highest_hash (l_cs l), cs_highest_element (l_cs l))],
      l_to_batcher := l_to_batcher l @ [NewRound (lc_leader lc') (rc_round rc)]\<rparr>)"
    using op lc'(1)
    by (simp add: leto_advance_round_def bind_s_def advance_leader_def advance_context_def rc
        advance_synchronizer_def sync_advance_round_def send_inner_def try_commit_def announce_round_def
        send_batcher_def channels_open_def highest_hash_def highest_chain_def leader_def)
  then have "leto_advance_round P l = (Ok (), l\<lparr>l_lc := lc',
      l_timer := \<lparr>tm_resets = tm_resets (l_timer l) + 1, tm_enabled = True\<rparr>,
      l_rc := snd (rc_advance_round (lp_gc P) (l_timer l) (l_rc l)),
      l_sy := (l_sy l)\<lparr>sy_inner := sy_inner (l_sy l) @ [AdvanceRound (Suc (rc_round (l_rc l)))]\<rparr>,
      l_to_commit := l_to_commit l @ [(cs_highest_hash (l_cs l), cs_highest_element (l_cs l))],
      l_to_batcher := l_to_batcher l @ [NewRound (lc_leader lc') (Suc (rc_round (l_rc l)))]\<rparr>)"
    unfolding rc snd_conv tm rnd .
  with lc' show ?thesis by blast
qed

lemma leto_advance_ok:
  assumes ok: "leto_ok N L (lp_gc P) (Suc (rc_round (l_rc l))) l" and ch: "chooser_ok (lp_pick P)"
  shows "\<exists>l'. leto_advance_round P l = (Ok (), l') \<and> leto_inv N L (lp_gc P) l' \<and>
    rc_round (l_rc l') = Suc (rc_round (l_rc l)) \<and> l_cs l' = l_cs l \<and>
    lc_leader (l_lc l') = lc_next_leader (l_lc l) \<and> l_my_id l' = l_my_id l \<and> l_system l' = l_system l \<and>
    l_out l' = l_out l \<and> rc_blame_map (l_rc l') = Map.empty \<and>
    rc_pending (l_rc l') = beyond (rc_round (l_rc l)) (rc_pending (l_rc l)) \<and>
    l_num_nodes l' = l_num_nodes l \<and> l_num_faults l' = l_num_faults l"
proof -
  have inv: "leader_inv N L (l_lc l)" "channels_open l" using ok by (simp_all add: leto_ok_def)
  have rci: "rc_inv (lp_gc P) (snd (rc_advance_round (lp_gc P) (l_timer l) (l_rc l)))"
    using ok by (intro rc_advance_inv) (simp add: leto_ok_def)
  from leto_advance_eq [OF inv(1) ch inv(2)] obtain lc' where
    "leader_inv N L lc'" "lc_round lc' = Suc (lc_round (l_lc l))" "lc_leader lc' = lc_next_leader (l_lc l)"
    "leto_advance_round P l = (Ok (), l\<lparr>l_lc := lc',
      l_timer := \<lparr>tm_resets = tm_resets (l_timer l) + 1, tm_enabled = True\<rparr>,
      l_rc := snd (rc_advance_round (lp_gc P) (l_timer l) (l_rc l)),
      l_sy := (l_sy l)\<lparr>sy_inner := sy_inner (l_sy l) @ [AdvanceRound (Suc (rc_round (l_rc l)))]\<rparr>,
      l_to_commit := l_to_commit l @ [(cs_highest_hash (l_cs l), cs_highest_element (l_cs l))],
      l_to_batcher := l_to_batcher l @ [NewRound (lc_leader lc') (Suc (rc_round (l_rc l)))]\<rparr>)" by blast
  with ok rci show ?thesis by (simp add: leto_ok_def channels_open_def rc_advance_pending beyond_def fun_eq_iff)
qed


subsection \<open>The handlers keep the invariant\<close>

lemma leto_ok_fields [simp]:
  "leto_ok N L gc hi (l\<lparr>l_rc := (l_rc l)\<lparr>rc_got_qc := b\<rparr>\<rparr>) = leto_ok N L gc hi l"
  "leto_ok N L gc hi (l\<lparr>l_rc := (l_rc l)\<lparr>rc_blame_map := m\<rparr>\<rparr>) = leto_ok N L gc hi l"
  "leto_ok N L gc hi (l\<lparr>l_rc := (l_rc l)\<lparr>rc_got_qc := b, rc_blame_map := m\<rparr>\<rparr>) = leto_ok N L gc hi l"
  "leto_ok N L gc hi (l\<lparr>l_timer := tm\<rparr>) = leto_ok N L gc hi l"
  "leto_ok N L gc hi (l\<lparr>l_cs := (l_cs l)\<lparr>cs_db := s\<rparr>\<rparr>) = leto_ok N L gc hi l"
  by (simp_all add: leto_ok_def channels_open_def)

lemma add_qc_ok:
  "leto_ok N L gc r l \<Longrightarrow> r = rc_round (l_rc l) \<Longrightarrow>
     leto_ok N L gc (Suc r) (l\<lparr>l_cs := add_qc r qc (l_cs l)\<rparr>)"
  by (auto simp: leto_ok_def channels_open_def less_Suc_eq)

lemma handle_blame_qc_ok:
  assumes inv: "leto_inv N L (lp_gc P) l" and ch: "chooser_ok (lp_pick P)" and r: "r = rc_round (l_rc l)"
  shows "\<exists>l'. handle_blame_qc P r qc l = (Ok (), l') \<and> leto_inv N L (lp_gc P) l' \<and>
    rc_round (l_rc l') = Suc r \<and> cs_highest_element (l_cs l') = cs_highest_element (l_cs l) \<and>
    cs_qc_map (l_cs l') = (cs_qc_map (l_cs l))(r \<mapsto> qc) \<and> l_out l' = l_out l @ [(l_peers l, BlameQC r qc)] \<and>
    lc_leader (l_lc l') = lc_next_leader (l_lc l) \<and> l_system l' = l_system l \<and>
    rc_blame_map (l_rc l') = Map.empty \<and> cs_highest_hash (l_cs l') = cs_highest_hash (l_cs l) \<and>
    rc_pending (l_rc l') = beyond r (rc_pending (l_rc l)) \<and>
    l_num_nodes l' = l_num_nodes l \<and> l_num_faults l' = l_num_faults l"
proof -
  let ?l1 = "broadcast P (BlameQC r qc) (l\<lparr>l_rc := (l_rc l)\<lparr>rc_got_qc := True\<rparr>\<rparr>)"
  let ?l2 = "?l1\<lparr>l_cs := add_qc r qc (l_cs ?l1)\<rparr>"
  have "leto_ok N L (lp_gc P) r ?l1" using inv r by simp
  then have "leto_ok N L (lp_gc P) (Suc (rc_round (l_rc ?l2))) ?l2"
    using add_qc_ok [of N L "lp_gc P" r ?l1 qc] r by simp
  from leto_advance_ok [OF this ch] r show ?thesis
    by (auto simp: handle_blame_qc_def Let_def)
qed

lemma on_blame_qc_ok:
  assumes "leto_inv N L (lp_gc P) l" "chooser_ok (lp_pick P)" "r = rc_round (l_rc l)"
  shows "leto_inv N L (lp_gc P) (snd (on_blame_qc P r qc l)) \<and> fst (on_blame_qc P r qc l) \<noteq> Panic"
  using handle_blame_qc_ok [OF assms, of qc] assms(1)
  by (auto simp: on_blame_qc_def split: outcome.splits)

lemma handle_blame_ok:
  assumes inv: "leto_inv N L (lp_gc P) l" and ch: "chooser_ok (lp_pick P)" and r: "r = rc_round (l_rc l)"
  shows "leto_inv N L (lp_gc P) (snd (handle_blame P r auth l)) \<and> fst (handle_blame P r auth l) \<noteq> Panic"
proof -
  have "leto_inv N L (lp_gc P) (snd (handle_blame_qc P r qc (l\<lparr>l_rc := (l_rc l)\<lparr>rc_got_qc := True, rc_blame_map := m\<rparr>\<rparr>))) \<and>
      fst (handle_blame_qc P r qc (l\<lparr>l_rc := (l_rc l)\<lparr>rc_got_qc := True, rc_blame_map := m\<rparr>\<rparr>)) \<noteq> Panic" for qc m
    using handle_blame_qc_ok [of N L P "l\<lparr>l_rc := (l_rc l)\<lparr>rc_got_qc := True, rc_blame_map := m\<rparr>\<rparr>" r qc] inv ch r
    by auto
  then show ?thesis using inv
    by (auto simp: handle_blame_def Let_def split: outcome.splits option.splits)
qed

lemma update_highest_ok:
  "leto_ok N L gc hi l \<Longrightarrow> p_round p < hi' \<Longrightarrow> hi' \<le> Suc (p_round p) \<Longrightarrow>
     leto_ok N L gc hi' (l\<lparr>l_cs := update_highest_chain e p a b (l_cs l)\<rparr>)"
  by (auto simp: leto_ok_def channels_open_def el_round_def)

lemma leto_ok_relay: "leto_ok N L gc hi l \<Longrightarrow> leto_ok N L gc hi (relay_proposal P p a bh l)"
  using relay_proposal_rc [of gc l P p a bh] by (simp add: leto_ok_def)

lemma leto_ok_batcher [simp]:
  "leto_ok N L gc hi (l\<lparr>l_to_batcher := bs\<rparr>) = leto_ok N L gc hi l"
  by (simp add: leto_ok_def channels_open_def)

text \<open>An accepted proposal becomes the highest element and ends the round.\<close>

lemma on_correct_proposal_ok:
  assumes inv: "leto_inv N L (lp_gc P) l" and ch: "chooser_ok (lp_pick P)" and r: "p_round p = rc_round (l_rc l)"
  shows "\<exists>l'. on_correct_proposal P p a b l = (Ok (), l') \<and> leto_inv N L (lp_gc P) l' \<and>
    rc_round (l_rc l') = Suc (rc_round (l_rc l)) \<and>
    l_cs l' = update_highest_chain (lp_env P) p a b (l_cs l) \<and>
    lc_leader (l_lc l') = lc_next_leader (l_lc l) \<and> l_system l' = l_system l \<and> l_my_id l' = l_my_id l \<and>
    rc_blame_map (l_rc l') = Map.empty \<and>
    rc_pending (l_rc l') = beyond (rc_round (l_rc l)) (rc_pending (l_rc l)) \<and>
    l_out l' = l_out (relay_proposal P p a (batch_hash (p_block p)) l)"
proof -
  let ?l1 = "relay_proposal P p a (batch_hash (p_block p)) l"
  let ?l2 = "?l1\<lparr>l_cs := update_highest_chain (lp_env P) p a b (l_cs ?l1)\<rparr>"
  let ?l3 = "?l2\<lparr>l_to_batcher := l_to_batcher l @ [Proposed b (p_round p)]\<rparr>"
  have "leto_ok N L (lp_gc P) (Suc (rc_round (l_rc ?l3))) ?l3"
    using update_highest_ok [OF leto_ok_relay [OF inv], where p = p and hi' = "Suc (p_round p)"] r by simp
  from leto_advance_ok [OF this ch] obtain l' where l': "leto_advance_round P ?l3 = (Ok (), l')"
    "leto_inv N L (lp_gc P) l'" "rc_round (l_rc l') = Suc (rc_round (l_rc l))"
    "l_cs l' = update_highest_chain (lp_env P) p a b (l_cs l)"
    "lc_leader (l_lc l') = lc_next_leader (l_lc l)" "l_system l' = l_system l" "l_my_id l' = l_my_id l"
    "rc_blame_map (l_rc l') = Map.empty"
    "rc_pending (l_rc l') = beyond (rc_round (l_rc l)) (rc_pending (l_rc l))"
    "l_out l' = l_out ?l1" by auto
  have "l_batcher_open l" using inv by (simp add: leto_ok_def channels_open_def)
  then have "send_batcher (Proposed (el_batch (highest_chain (l_cs ?l2))) (el_round (highest_chain (l_cs ?l2)))) ?l2
      = (Ok (), ?l3)"
    by (simp add: send_batcher_def highest_chain_def el_round_def)
  then have "on_correct_proposal P p a b l = (Ok (), l')"
    using l'(1) unfolding on_correct_proposal_def Let_def by (simp add: bind_s_Ok)
  with l' show ?thesis by blast
qed

text \<open>The proposal handler either refuses and leaves the state alone, or accepts.\<close>

lemma handle_proposal_cases:
  "handle_proposal P p a b l = on_correct_proposal P p a b l \<or> snd (handle_proposal P p a b l) = l"
  by (auto simp: handle_proposal_def split: outcome.splits)

lemma handle_proposal_inv:
  assumes "leto_inv N L (lp_gc P) l" "chooser_ok (lp_pick P)" "p_round p = rc_round (l_rc l)"
  shows "leto_inv N L (lp_gc P) (snd (handle_proposal P p a b l))"
  using handle_proposal_cases [of P p a b l] on_correct_proposal_ok [OF assms, of a b] assms(1) by auto

lemma collect_qcs_ok:
  "(\<And>r. en < r \<Longrightarrow> r \<le> start \<Longrightarrow> cs_qc_map cs r \<noteq> None) \<Longrightarrow>
     collect_qcs cs en start acc = Ok (acc @ map (\<lambda>r. the (cs_qc_map cs r)) (rev [Suc en..<Suc start]))"
proof (induction start arbitrary: acc)
  case (Suc start)
  show ?case
  proof (cases "en < Suc start")
    case True
    then obtain qc where qc: "cs_qc_map cs (Suc start) = Some qc" using Suc.prems by blast
    have "collect_qcs cs en start (acc @ [qc]) =
        Ok ((acc @ [qc]) @ map (\<lambda>r. the (cs_qc_map cs r)) (rev [Suc en..<Suc start]))"
      using Suc.prems by (intro Suc.IH) simp
    with True qc show ?thesis by (simp add: get_qc_def)
  qed simp
qed simp

lemma leto_collect_qcs:
  assumes "leto_inv N L gc l"
  shows "collect_qcs (l_cs l) (el_round (highest_chain (l_cs l))) (rc_round (l_rc l) - 1) [] =
    Ok (map (\<lambda>r. the (cs_qc_map (l_cs l) r)) (rev [Suc (el_round (highest_chain (l_cs l)))..<rc_round (l_rc l)]))"
proof -
  obtain r0 where r0: "rc_round (l_rc l) = Suc r0" using assms by (simp add: leto_ok_def)
  have "cs_qc_map (l_cs l) r \<noteq> None" if "el_round (highest_chain (l_cs l)) < r" "r \<le> r0" for r
    using assms that unfolding leto_ok_def highest_chain_def r0 by (simp add: less_Suc_eq_le del: not_None_eq)
  from collect_qcs_ok [of _ _ "l_cs l", OF this] show ?thesis by (simp add: r0)
qed

lemma send_proposal_inv:
  assumes "leto_inv N L (lp_gc P) l" "chooser_ok (lp_pick P)" "p_round p = rc_round (l_rc l)"
  shows "leto_inv N L (lp_gc P) (snd (send_proposal P p l))"
proof -
  have "leto_inv N L (lp_gc P) (snd (handle_proposal P p a b (broadcast P m l)))" for a b m
    using assms by (intro handle_proposal_inv) simp_all
  then show ?thesis using assms(1)
    by (simp add: send_proposal_def Let_def split: outcome.splits)
qed

lemma handle_new_batch_inv:
  assumes inv: "leto_inv N L (lp_gc P) l" and ch: "chooser_ok (lp_pick P)"
  shows "leto_inv N L (lp_gc P) (snd (handle_new_batch P bh l))"
  unfolding handle_new_batch_def leto_collect_qcs [OF inv]
  by (simp add: send_proposal_inv [OF inv ch] new_proposal_def)

lemma on_round_timeout_ok:
  assumes "leto_inv N L (lp_gc P) l"
  shows "leto_inv N L (lp_gc P) (snd (on_round_timeout P l)) \<and> fst (on_round_timeout P l) \<noteq> Panic"
proof -
  have "leto_inv N L (lp_gc P) (broadcast P m (l\<lparr>l_timer := tm\<rparr>))" for m tm
    using assms by simp
  then show ?thesis using assms
    by (auto simp: on_round_timeout_def Let_def send_loopback_def signature_new_def bind_o_def
        leto_ok_def channels_open_def split: outcome.splits)
qed

lemma context_sync_ok:
  assumes "leto_inv N L gc l" "syncable m"
  shows "leto_inv N L gc (snd (context_sync m l)) \<and> fst (context_sync m l) \<noteq> Panic"
proof -
  have "rc_inv gc (snd (rc_sync m (l_rc l)))" using assms by (intro rc_sync_inv) (simp_all add: leto_ok_def)
  then show ?thesis using assms rc_sync_panics_iff [of m "l_rc l"]
    by (simp add: context_sync_def case_prod_beta leto_ok_def channels_open_def)
qed


lemma sync_msg_frame:
  assumes "sync_msg e m (s, sy) = (r, s', sy')"
  shows "r \<noteq> Panic" and "list_all syncable (sy_outer sy) \<Longrightarrow> list_all syncable (sy_outer sy')"
    and "sy_inner_open sy' = sy_inner_open sy" "sy_outer_open sy' = sy_outer_open sy"
      "sy_helper_open sy' = sy_helper_open sy"
  using assms
  by (auto simp: sync_msg_def sync_propose_msg_def sync_relay_msg_def Let_def send_outer_def send_inner_def
      send_helper_def split: protocol_msg.splits outcome.splits option.splits if_splits)

lemma on_net_msg_ok:
  assumes inv: "leto_inv N L gc l"
  shows "leto_inv N L gc (snd (on_net_msg P m l)) \<and> fst (on_net_msg P m l) \<noteq> Panic"
proof -
  obtain r s sy where slow: "sync_msg (lp_env P) m (cs_db (l_cs l), l_sy l) = (r, s, sy)"
    by (metis prod_cases3)
  have slow_ok: "leto_inv N L gc (l\<lparr>l_cs := (l_cs l)\<lparr>cs_db := s\<rparr>, l_sy := sy\<rparr>)" "r \<noteq> Panic"
    using inv sync_msg_frame [OF slow] by (simp_all add: leto_ok_def channels_open_def)
  have "leto_inv N L gc (l\<lparr>l_cs := write_batch_ref (lp_env P) b (l_cs l)\<rparr>)" for b
    using inv by (simp add: leto_ok_def channels_open_def)
  then have "leto_inv N L gc (snd (context_sync (Propose p a b x) (l\<lparr>l_cs := write_batch_ref (lp_env P) b (l_cs l)\<rparr>)))
      \<and> fst (context_sync (Propose p a b x) (l\<lparr>l_cs := write_batch_ref (lp_env P) b (l_cs l)\<rparr>)) \<noteq> Panic" for p a b x
    by (intro context_sync_ok) simp_all
  then show ?thesis using slow_ok slow
    by (cases m) (simp_all add: on_net_msg_def Let_def)
qed

lemma handle_msg_inv:
  assumes "leto_inv N L (lp_gc P) l" "chooser_ok (lp_pick P)" "syncable m" "msg_round m = rc_round (l_rc l)"
  shows "leto_inv N L (lp_gc P) (snd (handle_msg P m l))"
  using assms handle_proposal_inv [of N L P l] handle_blame_ok [of N L P l] on_blame_qc_ok [of N L P l]
  by (cases m) (simp_all add: handle_msg_def)

lemma leto_inv_poll:
  assumes "leto_inv N L gc l" "rc_poll_next (l_rc l) = (r, rc)"
  shows "leto_inv N L gc (l\<lparr>l_rc := rc\<rparr>)" and "rc_round rc = rc_round (l_rc l)"
proof -
  have "rc_inv gc (l_rc l)" using assms(1) by (simp add: leto_ok_def)
  then have "rc_inv gc rc" using rc_poll_next_inv [of gc "l_rc l"] assms(2) by simp
  moreover show rnd: "rc_round rc = rc_round (l_rc l)"
  proof (cases "rc_is_ready (l_rc l)")
    case True
    then show ?thesis using rc_poll_next_ready [OF True] assms(2) by auto
  qed (use assms(2) rc_poll_next_not_ready [of "l_rc l"] in simp)
  ultimately show "leto_inv N L gc (l\<lparr>l_rc := rc\<rparr>)"
    using assms(1) by (simp add: leto_ok_def channels_open_def)
qed

lemma logged_snd [simp]: "snd (logged r) = snd r"
  by (simp add: logged_def split: outcome.splits)

lemma logged_crash: "fst (logged r) = Crashed \<longleftrightarrow> fst r = Panic"
  by (simp add: logged_def split: outcome.splits)

lemma leto_step_inv:
  assumes inv: "leto_inv N L (lp_gc P) l" and ch: "chooser_ok (lp_pick P)"
  shows "leto_inv N L (lp_gc P) (snd (leto_step P ev l))"
proof (cases "leto_enabled ev l")
  case False
  with inv show ?thesis by (simp add: leto_step_def)
next
  case en: True
  show ?thesis
  proof (cases ev)
    case (LBatch bh)
    with en show ?thesis
      by (cases bh) (simp_all add: leto_step_def inv handle_new_batch_inv [OF inv ch])
  next
    case LSynced
    with en obtain m ms where out: "sy_outer (l_sy l) = m # ms"
      by (auto simp: leto_enabled_def neq_Nil_conv)
    then have "syncable m" "leto_inv N L (lp_gc P) (l\<lparr>l_sy := (l_sy l)\<lparr>sy_outer := ms\<rparr>\<rparr>)"
      using inv by (simp_all add: leto_ok_def channels_open_def)
    with en LSynced out show ?thesis
      using context_sync_ok [of N L "lp_gc P" "l\<lparr>l_sy := (l_sy l)\<lparr>sy_outer := ms\<rparr>\<rparr>" m]
      by (simp add: leto_step_def sync_next_def)
  next
    case LRound
    obtain r rc where poll: "rc_poll_next (l_rc l) = (r, rc)" by fastforce
    note pi = leto_inv_poll [OF inv poll]
    show ?thesis
    proof (cases r)
      case (Ok m)
      then have "syncable m \<and> msg_round m = rc_round rc"
        using rc_poll_next_msg [of "lp_gc P" "l_rc l" m rc] inv poll pi(2) by (simp add: leto_ok_def)
      with pi en LRound poll Ok show ?thesis
        using handle_msg_inv [OF _ ch, of N L "l\<lparr>l_rc := rc\<rparr>" m] by (simp add: leto_step_def)
    qed (use pi en LRound poll in \<open>simp_all add: leto_step_def\<close>)
  next
    case LTimer
    with en show ?thesis using on_round_timeout_ok [OF inv] by (simp add: leto_step_def)
  next
    case LLoopback
    then obtain m ms where lo: "l_loopback l = m # ms"
      using en by (auto simp: leto_enabled_def neq_Nil_conv)
    then have "syncable m" "leto_inv N L (lp_gc P) (l\<lparr>l_loopback := ms\<rparr>)"
      using inv by (simp_all add: leto_ok_def channels_open_def)
    with en LLoopback lo show ?thesis
      using context_sync_ok [of N L "lp_gc P" "l\<lparr>l_loopback := ms\<rparr>" m] by (simp add: leto_step_def)
  next
    case (LNet m)
    with en show ?thesis using on_net_msg_ok [OF inv, where P = P] by (cases m) (simp_all add: leto_step_def inv)
  qed (use en inv in \<open>simp add: leto_step_def\<close>)
qed

subsection \<open>Runs\<close>

text \<open>A run interleaves the replica's own steps with the other tasks: they write the shared store,
  take requests from the synchronizer's channel and put synchronized messages on the other.\<close>

datatype ('s, 'tx) leto_action =
    Own "'tx leto_event"
  | Others 's nat "'tx protocol_msg list"

definition leto_act ::
  "('s, 'tx, 'b, 'c, 'g) leto_params \<Rightarrow> ('s, 'tx, 'c, 'g) leto \<Rightarrow> ('s, 'tx) leto_action \<Rightarrow> ('s, 'tx, 'c, 'g) leto" where
  "leto_act P l act = (case act of
     Own ev \<Rightarrow> snd (leto_step P ev l)
   | Others s k ms \<Rightarrow> l\<lparr>l_cs := (l_cs l)\<lparr>cs_db := s\<rparr>,
       l_sy := (l_sy l)\<lparr>sy_inner := drop k (sy_inner (l_sy l)), sy_outer := sy_outer (l_sy l) @ ms\<rparr>\<rparr>)"

definition action_ok :: "('s, 'tx) leto_action \<Rightarrow> bool" where
  "action_ok act = (case act of Own _ \<Rightarrow> True | Others _ _ ms \<Rightarrow> list_all syncable ms)"

interpretation letom: step_machine "leto_act P" action_ok
  "\<lambda>l. chooser_ok (lp_pick P) \<and> leto_inv N L (lp_gc P) l" for P N L
proof (unfold_locales, goal_cases)
  case (1 l act)
  then show ?case
    by (cases act) (auto simp: leto_act_def action_ok_def leto_step_inv, simp add: leto_ok_def channels_open_def)
qed


subsection \<open>When a step crashes\<close>

lemma check_qcs_no_panic:
  "idx \<le> length qcs \<Longrightarrow> p_qc p = Some qcs \<Longrightarrow> start \<le> p_round p \<Longrightarrow> p_round p \<le> start + (length qcs - idx) \<Longrightarrow>
     p_round p < 2 ^ 64 \<Longrightarrow> check_qcs checked e sys len nf p start idx \<noteq> Panic"
proof (induction checked e sys len nf p start idx rule: check_qcs.induct)
  case (1 checked e sys len nf p start idx)
  show ?case
  proof (cases "p_round p = start")
    case True
    then show ?thesis by (subst check_qcs.simps) simp
  next
    case False
    then have lt: "idx < length qcs" "Suc start \<le> p_round p" "p_round p \<le> Suc start + (length qcs - Suc idx)"
      using 1(3-5) by auto
    then have "Suc start < 2 ^ 64" using 1(6) by linarith
    then show ?thesis
      using 1(1) [OF False 1(3)] lt 1(3,6) False by (subst check_qcs.simps) (simp add: Suc_le_eq)
  qed
qed

lemma check_qcs_no_certificates: "p_qc p = None \<Longrightarrow> check_qcs checked e sys len nf p start idx \<noteq> Panic"
  by (subst check_qcs.simps) simp

lemma check_qcs_panic:
  assumes "check_qcs checked e sys len nf p start 0 = Panic" "p_round p < 2 ^ 64"
  shows "\<exists>qcs. p_qc p = Some qcs \<and> (p_round p < start \<or> start + length qcs < p_round p)"
proof -
  obtain qcs where qcs: "p_qc p = Some qcs"
    using assms(1) check_qcs_no_certificates [of p checked e sys len nf start 0] by (cases "p_qc p") simp_all
  have "\<not> (start \<le> p_round p \<and> p_round p \<le> start + (length qcs - 0))"
    using check_qcs_no_panic [OF le0 qcs, of start checked e sys len nf] assms by blast
  with qcs show ?thesis by auto
qed

text \<open>
  The proposals whose check does not return: the round after the parent's does not exist, or the list
  of certificates is too short for the rounds from there to the proposal's, or the proposal is of an
  earlier round than that. In a build without checks the round after the last one is 0.
\<close>

definition uncheckable :: "bool \<Rightarrow> proposal \<Rightarrow> round \<Rightarrow> bool" where
  "uncheckable checked p parent_round \<longleftrightarrow>
     (checked \<and> 2 ^ 64 \<le> parent_round + 1) \<or>
     (\<exists>qcs. p_qc p = Some qcs \<and>
        (p_round p < (parent_round + 1) mod 2 ^ 64 \<or> (parent_round + 1) mod 2 ^ 64 + length qcs < p_round p))"

lemma proposal_valid_panic:
  assumes "proposal_valid checked e sys len nf p r = Panic" "p_round p < 2 ^ 64"
  shows "uncheckable checked p r"
proof (cases "u64 checked (r + 1)")
  case (Ok start)
  with assms have "check_qcs checked e sys len nf p start 0 = Panic" by (simp add: proposal_valid_def)
  from check_qcs_panic [OF this assms(2)] u64_cases(3) [OF Ok] show ?thesis by (simp add: uncheckable_def)
next
  case Panic
  then show ?thesis by (simp add: u64_cases(1) uncheckable_def)
qed (simp add: u64_cases(2))

lemma on_correct_proposal_no_panic:
  "leto_inv N L (lp_gc P) l \<Longrightarrow> chooser_ok (lp_pick P) \<Longrightarrow> p_round p = rc_round (l_rc l) \<Longrightarrow>
     fst (on_correct_proposal P p a b l) \<noteq> Panic"
  using on_correct_proposal_ok [of N L P l p a b] by fastforce

lemma handle_proposal_panic:
  assumes inv: "leto_inv N L (lp_gc P) l" and ch: "chooser_ok (lp_pick P)" and r: "p_round p = rc_round (l_rc l)"
    and panic: "fst (handle_proposal P p a b l) = Panic"
  shows "find_parent P (parent_hash p) l = Panic \<or>
    (\<exists>parent. find_parent P (parent_hash p) l = Ok parent \<and>
       proposal_valid (lp_checked P) (lp_env P) (l_system l) (qc_len l) (l_num_faults l) p (el_round parent) = Panic)"
  using panic on_correct_proposal_no_panic [OF inv ch r, of a b]
  by (auto simp: handle_proposal_def bind_o_def ok_or_def split: outcome.splits if_splits option.splits)

text \<open>The certificates a leader collects are as many as there are skipped rounds, so that its proposal
  can be checked by anyone without a panic.\<close>

abbreviation collected :: "('s, 'tx, 'c, 'g) leto \<Rightarrow> certificate list" where
  "collected l \<equiv> map (\<lambda>r. the (cs_qc_map (l_cs l) r)) (rev [Suc (el_round (highest_chain (l_cs l)))..<rc_round (l_rc l)])"

lemma new_proposal_check:
  assumes "leto_inv N L gc l" "rc_round (l_rc l) < 2 ^ 64"
  shows "proposal_valid checked e sys len nf (new_proposal bh (collected l) l) (el_round (highest_chain (l_cs l))) \<noteq> Panic"
proof -
  let ?h = "el_round (highest_chain (l_cs l))" and ?p = "new_proposal bh (collected l) l"
  have lt: "?h < rc_round (l_rc l)" using assms(1) by (simp add: leto_ok_def highest_chain_def)
  have "check_qcs checked e sys len nf ?p (?h + 1) 0 \<noteq> Panic"
  proof (cases "collected l = []")
    case True
    then show ?thesis by (intro check_qcs_no_certificates) (simp add: new_proposal_def)
  next
    case False
    then have "p_qc ?p = Some (collected l)" by (simp add: new_proposal_def)
    then show ?thesis using lt assms(2)
      by (intro check_qcs_no_panic [of 0 "collected l"]) (simp_all add: new_proposal_def)
  qed
  then show ?thesis using lt assms(2) by (simp add: proposal_valid_def)
qed

text \<open>The leader's own proposal never panics.\<close>

lemma handle_new_batch_no_panic:
  assumes inv: "leto_inv N L (lp_gc P) l" and ch: "chooser_ok (lp_pick P)" and u: "rc_round (l_rc l) < 2 ^ 64"
  shows "fst (handle_new_batch P bh l) \<noteq> Panic"
proof -
  let ?p = "new_proposal bh (collected l) l"
  have pr: "p_round ?p = rc_round (l_rc l)" "parent_hash ?p = highest_hash (l_cs l)"
    by (simp_all add: new_proposal_def parent_hash_def)
  have "fst (handle_proposal P ?p a b (broadcast P m l)) \<noteq> Panic" for a b m
  proof
    assume "fst (handle_proposal P ?p a b (broadcast P m l)) = Panic"
    then have "find_parent P (parent_hash ?p) (broadcast P m l) = Panic \<or>
        (\<exists>parent. find_parent P (parent_hash ?p) (broadcast P m l) = Ok parent \<and>
           proposal_valid (lp_checked P) (lp_env P) (l_system l) (qc_len (broadcast P m l)) (l_num_faults l) ?p (el_round parent) = Panic)"
      using handle_proposal_panic [of N L P "broadcast P m l" ?p a b] inv ch pr by simp
    moreover have "find_parent P (parent_hash ?p) (broadcast P m l) = Ok (highest_chain (l_cs l))"
      unfolding find_parent_def pr by simp
    ultimately show False using new_proposal_check [OF inv u, of "lp_checked P" "lp_env P"] by simp
  qed
  then have "fst (send_proposal P ?p l) \<noteq> Panic"
    by (simp add: send_proposal_def Let_def signature_new_def bind_o_def get_batch_def split: outcome.splits)
  then show ?thesis unfolding handle_new_batch_def leto_collect_qcs [OF inv] by simp
qed

end
