(* ===== verification/LetoProperties.thy ===== *)
theory LetoProperties
  imports LetoSafety Instances
begin

section \<open>Leto: the properties\<close>

text \<open>
  What the invariant of \<^verbatim>\<open>LetoSafety\<close> gives over whole runs, what the handlers do on their main
  branches, and the parameters on which the concrete runs are evaluated.
\<close>

subsection \<open>Authenticity\<close>

text \<open>
  The blames counted in the current round are keyed by their signer and verify for this round, and
  every certificate kept for a round verifies for it.
\<close>

definition verified_for :: "('s, 'tx, 'b) env \<Rightarrow> pk_map \<Rightarrow> round \<Rightarrow> signature \<Rightarrow> bool" where
  "verified_for e sys r sg \<longleftrightarrow>
     (\<exists>pk. sys (sig_id sg) = Some pk \<and>
           pk_verify (crypt e) pk (ser_and_hash (crypt e) (cd_round e) r) (sig_raw sg))"

definition blames_ok :: "('s, 'tx, 'b) env \<Rightarrow> ('s, 'tx, 'c, 'g) leto \<Rightarrow> bool" where
  "blames_ok e l \<longleftrightarrow>
     finite (dom (rc_blame_map (l_rc l))) \<and>
     (\<forall>i sg. rc_blame_map (l_rc l) i = Some sg \<longrightarrow> sig_id sg = i \<and> verified_for e (l_system l) (rc_round (l_rc l)) sg)"

definition certs_ok :: "('s, 'tx, 'b) env \<Rightarrow> ('s, 'tx, 'c, 'g) leto \<Rightarrow> bool" where
  "certs_ok e l \<longleftrightarrow>
     (\<forall>r qc. cs_qc_map (l_cs l) r = Some qc \<longrightarrow> (\<forall>sg \<in> set (raw_sigs qc). verified_for e (l_system l) r sg))"

definition order_ok :: "(node_id set \<Rightarrow> node_id list) \<Rightarrow> bool" where
  "order_ok order \<longleftrightarrow> (\<forall>S. finite S \<longrightarrow> set (order S) = S \<and> distinct (order S))"

lemma certificate_verify_iff:
  "certificate_verify (crypt e) qc (ser_and_hash (crypt e) (cd_round e) r) sys = Ok u \<longleftrightarrow>
     (\<forall>sg \<in> set (raw_sigs qc). verified_for e sys r sg)"
  by (simp add: certificate_verify_def verify_sigs_Ok verified_for_def)

lemma foldl_certificate_add: "raw_sigs (foldl certificate_add c sgs) = raw_sigs c @ sgs"
  by (induction sgs arbitrary: c) (simp_all add: certificate_add_def)

lemma blame_certificate_sigs:
  "raw_sigs (blame_certificate order m) = map (\<lambda>i. the (m i)) (order (dom m))"
  by (simp add: blame_certificate_def foldl_certificate_add certificate_empty_def)

text \<open>The certificate built from verified blames carries one valid signature per counted node.\<close>

lemma blame_certificate_quorum:
  assumes ord: "order_ok order" and fin: "finite (dom m)"
    and ok: "\<And>i sg. m i = Some sg \<Longrightarrow> sig_id sg = i \<and> verified_for e sys r sg"
  shows "unique_len (blame_certificate order m) = card (dom m)"
    and "certificate_len (blame_certificate order m) = card (dom m)"
    and "certificate_verify (crypt e) (blame_certificate order m) (ser_and_hash (crypt e) (cd_round e) r) sys = Ok ()"
proof -
  have s: "set (order (dom m)) = dom m" "distinct (order (dom m))"
    using ord fin by (simp_all add: order_ok_def)
  have key: "sig_id (the (m i)) = i \<and> verified_for e sys r (the (m i))" if "i \<in> dom m" for i
    using that ok by fastforce
  have "sig_id ` set (raw_sigs (blame_certificate order m)) = dom m"
    using s key by (force simp: blame_certificate_sigs image_image)
  then show "unique_len (blame_certificate order m) = card (dom m)" by (simp add: unique_len_card)
  show "certificate_len (blame_certificate order m) = card (dom m)"
    using s distinct_card [of "order (dom m)"] by (simp add: certificate_len_def blame_certificate_sigs)
  show "certificate_verify (crypt e) (blame_certificate order m) (ser_and_hash (crypt e) (cd_round e) r) sys = Ok ()"
    unfolding certificate_verify_iff using s key by (simp add: blame_certificate_sigs)
qed

subsection \<open>Accepting a proposal\<close>

definition signer_ok :: "('s, 'tx, 'b) env \<Rightarrow> proposal \<Rightarrow> signature \<Rightarrow> ('s, 'tx, 'c, 'g) leto \<Rightarrow> bool" where
  "signer_ok e p a l \<longleftrightarrow>
     leader (l_lc l) = l_my_id l \<or>
     (sig_id a = leader (l_lc l) \<and>
      (\<exists>pk. l_system l (leader (l_lc l)) = Some pk \<and>
            pk_verify (crypt e) pk (ser_and_hash (crypt e) (cd_proposal e) p) (sig_raw a)))"

lemma signer_check:
  "(if leader (l_lc l) \<noteq> l_my_id l then
      bind_o (ok_or UnknownProposalSigner (l_system l (leader (l_lc l)))) (\<lambda>pk.
        signature_verify (crypt e) a (ser_and_hash (crypt e) (cd_proposal e) p) (leader (l_lc l)) pk)
    else Ok ()) = Ok u \<longleftrightarrow> signer_ok e p a l"
  by (auto simp: signer_ok_def bind_o_Ok_iff ok_or_def split: option.splits)

lemma handle_proposal_accepts:
  assumes "find_parent P (parent_hash p) l = Ok parent"
    and "proposal_valid (lp_checked P) (lp_env P) (l_system l) (qc_len l) (l_num_faults l) p (el_round parent) = Ok v"
    and "signer_ok (lp_env P) p a l"
  shows "handle_proposal P p a b l = on_correct_proposal P p a b l"
proof -
  obtain u where "(if leader (l_lc l) \<noteq> l_my_id l then
      bind_o (ok_or UnknownProposalSigner (l_system l (leader (l_lc l)))) (\<lambda>pk.
        signature_verify (crypt (lp_env P)) a (ser_and_hash (crypt (lp_env P)) (cd_proposal (lp_env P)) p)
          (leader (l_lc l)) pk)
    else Ok ()) = Ok u"
    using assms(3) signer_check [where l = l and e = "lp_env P" and p = p and a = a] by blast
  with assms(1,2) show ?thesis by (simp add: handle_proposal_def)
qed

lemma handle_proposal_rejects:
  assumes "\<not> (\<exists>parent v. find_parent P (parent_hash p) l = Ok parent \<and>
    proposal_valid (lp_checked P) (lp_env P) (l_system l) (qc_len l) (l_num_faults l) p (el_round parent) = Ok v \<and>
    signer_ok (lp_env P) p a l)"
  shows "fst (handle_proposal P p a b l) \<noteq> Ok () \<and> snd (handle_proposal P p a b l) = l"
proof (cases "find_parent P (parent_hash p) l")
  case parent: (Ok parent)
  show ?thesis
  proof (cases "proposal_valid (lp_checked P) (lp_env P) (l_system l) (qc_len l) (l_num_faults l) p (el_round parent)")
    case (Ok v)
    with parent assms have "\<not> signer_ok (lp_env P) p a l" by blast
    then have "(if leader (l_lc l) \<noteq> l_my_id l then
        bind_o (ok_or UnknownProposalSigner (l_system l (leader (l_lc l)))) (\<lambda>pk.
          signature_verify (crypt (lp_env P)) a (ser_and_hash (crypt (lp_env P)) (cd_proposal (lp_env P)) p)
            (leader (l_lc l)) pk)
      else Ok ()) \<noteq> Ok ()"
      using signer_check [where l = l and e = "lp_env P" and p = p and a = a] by blast
    then show ?thesis unfolding handle_proposal_def parent outcome.case Ok
      by (cases "leader (l_lc l) = l_my_id l") (simp_all split: outcome.split)
  qed (use parent in \<open>simp_all add: handle_proposal_def\<close>)
qed (simp_all add: handle_proposal_def)

lemma handle_proposal_iff:
  "fst (handle_proposal P p a b l) = Ok () \<longleftrightarrow>
     (\<exists>parent v. find_parent P (parent_hash p) l = Ok parent \<and>
       proposal_valid (lp_checked P) (lp_env P) (l_system l) (qc_len l) (l_num_faults l) p (el_round parent) = Ok v \<and>
       signer_ok (lp_env P) p a l \<and> fst (on_correct_proposal P p a b l) = Ok ())"
  using handle_proposal_accepts [of P p l _ _ a b] handle_proposal_rejects [of P p l a b] by metis

subsection \<open>Preservation of authenticity\<close>

definition auth_ok :: "('s, 'tx, 'b) env \<Rightarrow> ('s, 'tx, 'c, 'g) leto \<Rightarrow> bool" where
  "auth_ok e l \<longleftrightarrow> blames_ok e l \<and> certs_ok e l"

text \<open>What authenticity reads of the state.\<close>

lemma auth_ok_cong:
  "rc_blame_map (l_rc l') = rc_blame_map (l_rc l) \<Longrightarrow> rc_round (l_rc l') = rc_round (l_rc l) \<Longrightarrow>
   l_system l' = l_system l \<Longrightarrow> cs_qc_map (l_cs l') = cs_qc_map (l_cs l) \<Longrightarrow> auth_ok e l' = auth_ok e l"
  by (simp add: auth_ok_def blames_ok_def certs_ok_def)

lemma auth_ok_advance:
  assumes "rc_blame_map (l_rc l') = Map.empty" "certs_ok e l" "l_system l' = l_system l"
    and "cs_qc_map (l_cs l') = cs_qc_map (l_cs l)"
  shows "auth_ok e l'"
  using assms by (simp add: auth_ok_def blames_ok_def certs_ok_def)

lemma rc_sync_blame [simp]: "rc_blame_map (snd (rc_sync m rc)) = rc_blame_map rc"
  by (simp add: rc_sync_def queue_defs split: protocol_msg.splits)

lemma rc_poll_blame [simp]: "rc_blame_map (snd (rc_poll_next rc)) = rc_blame_map rc"
  by (simp add: rc_poll_next_def split: option.splits list.splits)

lemma relay_proposal_blame [simp]: "rc_blame_map (l_rc (relay_proposal P p a bh l)) = rc_blame_map (l_rc l)"
  by (simp add: relay_proposal_def Let_def split: option.splits)

lemma handle_blame_qc_auth:
  assumes inv: "leto_inv N L (lp_gc P) l" and ch: "chooser_ok (lp_pick P)" and r: "r = rc_round (l_rc l)"
    and auth: "certs_ok (lp_env P) l" and qc: "\<forall>sg \<in> set (raw_sigs qc). verified_for (lp_env P) (l_system l) r sg"
  shows "auth_ok (lp_env P) (snd (handle_blame_qc P r qc l))"
proof -
  have "certs_ok (lp_env P) (l\<lparr>l_cs := add_qc r qc (l_cs l)\<rparr>)" using auth qc by (simp add: certs_ok_def)
  then show ?thesis using handle_blame_qc_ok [OF inv ch r, of qc] auth_ok_advance by fastforce
qed

lemma on_correct_proposal_auth:
  assumes "leto_inv N L (lp_gc P) l" "chooser_ok (lp_pick P)" "p_round p = rc_round (l_rc l)"
    and "certs_ok (lp_env P) l"
  shows "auth_ok (lp_env P) (snd (on_correct_proposal P p a b l))"
  using on_correct_proposal_ok [OF assms(1-3), of a b] auth_ok_advance [OF _ assms(4)] by fastforce

lemma handle_proposal_auth:
  assumes "leto_inv N L (lp_gc P) l" "chooser_ok (lp_pick P)" "p_round p = rc_round (l_rc l)"
    and "auth_ok (lp_env P) l"
  shows "auth_ok (lp_env P) (snd (handle_proposal P p a b l))"
  using handle_proposal_cases [of P p a b l] on_correct_proposal_auth [OF assms(1-3), of a b] assms(4)
  by (auto simp: auth_ok_def)

lemma on_blame_qc_auth:
  assumes "leto_inv N L (lp_gc P) l" "chooser_ok (lp_pick P)" "r = rc_round (l_rc l)" "auth_ok (lp_env P) l"
  shows "auth_ok (lp_env P) (snd (on_blame_qc P r qc l))"
  using handle_blame_qc_auth [OF assms(1-3), of qc] assms(4)
  by (auto simp: on_blame_qc_def auth_ok_def certificate_verify_iff split: outcome.splits)

text \<open>A blame that verifies may join the counted ones.\<close>

lemma blames_ok_insert:
  assumes "blames_ok e l" "verified_for e (l_system l) (rc_round (l_rc l)) auth"
  shows "blames_ok e (l\<lparr>l_rc := (l_rc l)\<lparr>rc_blame_map := (rc_blame_map (l_rc l))(sig_id auth \<mapsto> auth)\<rparr>\<rparr>)"
  using assms by (auto simp: blames_ok_def)

text \<open>A fresh verified blame is counted; the one that completes the quorum ends the round.\<close>

lemma handle_blame_counts:
  assumes "el_round (highest_chain (l_cs l)) \<noteq> r" "\<not> rc_got_qc (l_rc l)"
    and "verified_for (lp_env P) (l_system l) r a"
    and m: "m = (rc_blame_map (l_rc l))(sig_id a \<mapsto> a)"
  shows "handle_blame P r a l =
    (if card (dom m) \<noteq> qc_len l then (Ok (), l\<lparr>l_rc := (l_rc l)\<lparr>rc_blame_map := m\<rparr>\<rparr>)
     else handle_blame_qc P r (blame_certificate (lp_order P) m)
            (l\<lparr>l_rc := (l_rc l)\<lparr>rc_got_qc := True, rc_blame_map := Map.empty\<rparr>\<rparr>))"
proof -
  from assms(3) obtain pk where pk: "l_system l (sig_id a) = Some pk"
    "verify_without_id_check (crypt (lp_env P)) a
       (ser_and_hash (crypt (lp_env P)) (cd_round (lp_env P)) r) pk = Ok ()"
    by (auto simp: verified_for_def)
  let ?l1 = "l\<lparr>l_rc := (l_rc l)\<lparr>rc_blame_map := m\<rparr>\<rparr>"
  have "?l1\<lparr>l_rc := (l_rc ?l1)\<lparr>rc_got_qc := True, rc_blame_map := Map.empty\<rparr>\<rparr> =
      l\<lparr>l_rc := (l_rc l)\<lparr>rc_got_qc := True, rc_blame_map := Map.empty\<rparr>\<rparr>" by simp
  then show ?thesis using assms(1,2)
    unfolding handle_blame_def pk option.case outcome.case Let_def m [symmetric] by (simp only: if_False simp_thms)
qed

lemma handle_blame_auth:
  assumes inv: "leto_inv N L (lp_gc P) l" and ch: "chooser_ok (lp_pick P)" and r: "r = rc_round (l_rc l)"
    and auth: "auth_ok (lp_env P) l" and ord: "order_ok (lp_order P)"
  shows "auth_ok (lp_env P) (snd (handle_blame P r a l))"
proof (cases "el_round (highest_chain (l_cs l)) = r \<or> rc_got_qc (l_rc l) \<or>
    \<not> verified_for (lp_env P) (l_system l) r a")
  case True
  then show ?thesis using auth
    by (auto simp: handle_blame_def verified_for_def split: option.splits outcome.splits)
next
  case False
  define m where "m = (rc_blame_map (l_rc l))(sig_id a \<mapsto> a)"
  let ?l1 = "l\<lparr>l_rc := (l_rc l)\<lparr>rc_blame_map := m\<rparr>\<rparr>"
  let ?l2 = "l\<lparr>l_rc := (l_rc l)\<lparr>rc_got_qc := True, rc_blame_map := Map.empty\<rparr>\<rparr>"
  let ?qc = "blame_certificate (lp_order P) m"
  have b1: "blames_ok (lp_env P) ?l1"
    unfolding m_def using False auth r by (intro blames_ok_insert) (simp_all add: auth_ok_def)
  have c: "certs_ok (lp_env P) ?l1" "certs_ok (lp_env P) ?l2"
    using auth by (simp_all add: auth_ok_def certs_ok_def)
  have m: "sig_id sg = i \<and> verified_for (lp_env P) (l_system l) r sg" if "m i = Some sg" for i sg
    using b1 that r unfolding blames_ok_def by simp
  have fin: "finite (dom m)" using b1 by (simp add: blames_ok_def)
  have "certificate_verify (crypt (lp_env P)) ?qc
      (ser_and_hash (crypt (lp_env P)) (cd_round (lp_env P)) r) (l_system l) = Ok ()"
    by (rule blame_certificate_quorum(3) [OF ord fin m])
  then have "\<forall>sg \<in> set (raw_sigs ?qc). verified_for (lp_env P) (l_system l) r sg"
    by (simp only: certificate_verify_iff)
  then have 2: "auth_ok (lp_env P) (snd (handle_blame_qc P r ?qc ?l2))"
    using inv r c by (intro handle_blame_qc_auth [OF _ ch]) simp_all
  have 1: "auth_ok (lp_env P) ?l1" using b1 c by (simp add: auth_ok_def)
  have "handle_blame P r a l = (if card (dom m) \<noteq> qc_len l then (Ok (), ?l1) else handle_blame_qc P r ?qc ?l2)"
    using False by (intro handle_blame_counts m_def) auto
  with 1 2 show ?thesis by (simp split: if_split)
qed

lemma auth_ok_fields [simp]:
  "auth_ok e (l\<lparr>l_timer := tm\<rparr>) = auth_ok e l" "auth_ok e (l\<lparr>l_loopback := ms\<rparr>) = auth_ok e l"
  "auth_ok e (l\<lparr>l_sy := sy\<rparr>) = auth_ok e l" "auth_ok e (broadcast P m l) = auth_ok e l"
  "auth_ok e (l\<lparr>l_cs := write_batch_ref e' b (l_cs l)\<rparr>) = auth_ok e l"
  "auth_ok e (l\<lparr>l_cs := (l_cs l)\<lparr>cs_db := s\<rparr>\<rparr>) = auth_ok e l"
  "auth_ok e (l\<lparr>l_cs := (l_cs l)\<lparr>cs_db := s\<rparr>, l_sy := sy\<rparr>) = auth_ok e l"
  by (rule auth_ok_cong; simp)+

lemma context_sync_auth [simp]: "auth_ok e (snd (context_sync m l)) = auth_ok e l"
  by (rule auth_ok_cong) (simp_all add: context_sync_def case_prod_beta)

lemma on_round_timeout_auth [simp]: "auth_ok e (snd (on_round_timeout P l)) = auth_ok e l"
  by (simp add: on_round_timeout_def Let_def send_loopback_def split: outcome.splits)

lemma on_net_msg_auth [simp]: "auth_ok e (snd (on_net_msg P m l)) = auth_ok e l"
  by (cases m) (simp_all add: on_net_msg_def Let_def case_prod_beta)

lemma send_proposal_auth:
  assumes "leto_inv N L (lp_gc P) l" "chooser_ok (lp_pick P)" "p_round p = rc_round (l_rc l)"
    and "auth_ok (lp_env P) l"
  shows "auth_ok (lp_env P) (snd (send_proposal P p l))"
proof -
  have "auth_ok (lp_env P) (snd (handle_proposal P p a b (broadcast P m l)))" for a b m
    using assms by (intro handle_proposal_auth [of N L]) simp_all
  then show ?thesis using assms(4) by (simp add: send_proposal_def Let_def split: outcome.splits)
qed

lemma handle_msg_auth:
  assumes "leto_inv N L (lp_gc P) l" "chooser_ok (lp_pick P)" "msg_round m = rc_round (l_rc l)"
    and "auth_ok (lp_env P) l" "order_ok (lp_order P)"
  shows "auth_ok (lp_env P) (snd (handle_msg P m l))"
  using assms handle_proposal_auth [of N L P l] handle_blame_auth [of N L P l] on_blame_qc_auth [of N L P l]
  by (cases m) (simp_all add: handle_msg_def)

lemma leto_step_auth:
  assumes inv: "leto_inv N L (lp_gc P) l" and ch: "chooser_ok (lp_pick P)"
    and auth: "auth_ok (lp_env P) l" and ord: "order_ok (lp_order P)"
  shows "auth_ok (lp_env P) (snd (leto_step P ev l))"
proof (cases "leto_enabled ev l")
  case en: True
  show ?thesis
  proof (cases ev)
    case (LBatch bh)
    have "auth_ok (lp_env P) (snd (handle_new_batch P h l))" for h
      unfolding handle_new_batch_def leto_collect_qcs [OF inv]
      by (simp add: send_proposal_auth [OF inv ch] new_proposal_def auth)
    with en LBatch auth show ?thesis by (cases bh) (simp_all add: leto_step_def)
  next
    case LRound
    obtain r rc where poll: "rc_poll_next (l_rc l) = (r, rc)" by fastforce
    note pi = leto_inv_poll [OF inv poll]
    have a: "auth_ok (lp_env P) (l\<lparr>l_rc := rc\<rparr>)"
      using auth pi(2) rc_poll_blame [of "l_rc l"] by (subst auth_ok_cong) (simp_all add: poll)
    show ?thesis
    proof (cases r)
      case (Ok m)
      then have "msg_round m = rc_round rc"
        using rc_poll_next_msg [of "lp_gc P" "l_rc l" m rc] inv poll pi(2) by (simp add: leto_ok_def)
      with pi en LRound poll Ok a show ?thesis
        using handle_msg_auth [OF _ ch _ _ ord, of N L "l\<lparr>l_rc := rc\<rparr>" m] by (simp add: leto_step_def)
    qed (use a en LRound poll in \<open>simp_all add: leto_step_def\<close>)
  next
    case (LNet m)
    with en auth show ?thesis by (cases m) (simp_all add: leto_step_def)
  qed (use en auth in \<open>simp_all add: leto_step_def split: option.split\<close>)
qed (simp add: leto_step_def auth)

interpretation letoa: step_machine "leto_act P" action_ok
  "\<lambda>l. chooser_ok (lp_pick P) \<and> order_ok (lp_order P) \<and> leto_inv N L (lp_gc P) l \<and> auth_ok (lp_env P) l" for P N L
proof (unfold_locales, goal_cases)
  case (1 l act)
  have "auth_ok (lp_env P) (leto_act P l act)"
    using 1 leto_step_auth [of N L P l] by (cases act) (simp_all add: leto_act_def)
  with 1 show ?case using letom.step_inv [of P N L l act] by blast
qed

subsection \<open>The initial state\<close>

lemma rc_new_sel [simp]: "rc_round (rc_new n) = 1" "rc_blame_map (rc_new n) = Map.empty"
  by (simp_all add: rc_new_def)

lemma leto_start_inv:
  assumes ch: "chooser_ok (lp_pick P)" and c: "committee_ok (lp_order P) conf"
    and sp: "leto_spawn P me sk sys peers conf delay seed s = Ok l0"
  shows "leto_inv (set (get_all_ids (lp_order P) conf))
      (quorum (length (get_all_ids (lp_order P) conf)) (num_faults conf)) (lp_gc P) (snd (leto_start P l0))"
    and "auth_ok (lp_env P) (snd (leto_start P l0))"
proof -
  obtain lc where lc: "leader_new (lp_pick P) seed (get_all_ids (lp_order P) conf) (num_faults conf) = Ok lc"
    "leader_inv (set (get_all_ids (lp_order P) conf))
       (quorum (length (get_all_ids (lp_order P) conf)) (num_faults conf)) lc" "lc_round lc = 0"
    using leader_new_ok [OF ch _ _ _ refl, of "get_all_ids (lp_order P) conf" "num_faults conf" seed] c
    by (auto simp: committee_ok_def)
  have l0: "l_rc l0 = rc_new (num_nodes conf)" "l_lc l0 = lc" "l_cs l0 = chain_state_new (lp_env P) s"
    "l_sy l0 = synchronizer_new" "l_loopback l0 = []" "channels_open l0" "l_system l0 = sys"
    using sp lc(1) by (auto simp: leto_spawn_def bind_o_Ok_iff channels_open_def synchronizer_new_def)
  have cs: "cs_highest_element (snd (genesis_setup (lp_env P) (chain_state_new (lp_env P) s))) = element_genesis START_ID"
      "cs_qc_map (snd (genesis_setup (lp_env P) (chain_state_new (lp_env P) s))) = Map.empty"
    by (simp_all add: genesis_setup_def chain_state_new_def Let_def case_prod_beta split: outcome.splits)
  show "leto_inv (set (get_all_ids (lp_order P) conf))
      (quorum (length (get_all_ids (lp_order P) conf)) (num_faults conf)) (lp_gc P) (snd (leto_start P l0))"
    using l0 lc(2,3) cs
    by (simp add: leto_start_def case_prod_beta leto_ok_def channels_open_def synchronizer_new_def el_round_def rc_new_inv)
      (metis neq0_conv)
  show "auth_ok (lp_env P) (snd (leto_start P l0))"
    using l0 cs by (simp add: leto_start_def case_prod_beta auth_ok_def blames_ok_def certs_ok_def)
qed

subsection \<open>Concrete parameters\<close>

definition test_pick :: "unit chooser" where
  "test_pick g S = (if S = {} then None else Some (Min S), g)"

definition test_net :: "(nat, nat) net" where
  "test_net = \<lparr>net_bcast = (\<lambda>k ids m. map (\<lambda>i. 10 * k + i) ids), net_send = (\<lambda>k i m. Some (10 * k + i))\<rparr>"

definition test_params :: "(test_db, nat, ser, nat, unit) leto_params" where
  "test_params = \<lparr>lp_env = test_env, lp_net = test_net, lp_pick = test_pick,
                  lp_order = sorted_list_of_set, lp_gc = 4, lp_checked = True\<rparr>"

definition test_party :: "node_id \<Rightarrow> party" where
  "test_party i = \<lparr>party_id = i, mempool_address = ''127.0.0.1'', mempool_port = 7000 + i,
      consensus_address = ''127.0.0.1'', consensus_port = 8000 + i, client_port = 9000 + i,
      consensus_client_port = 10000 + i\<rparr>"

definition test_config :: config where
  "test_config = \<lparr>parties = (\<lambda>i. if i < 4 then Some (test_party i) else None)\<rparr>"

definition test_keys :: pk_map where
  "test_keys = (\<lambda>i. if i < 4 then Some [of_nat i] else None)"

definition test_replica :: "node_id \<Rightarrow> (test_db, nat, nat, unit) leto" where
  "test_replica i =
     (case leto_spawn test_params i [of_nat i] test_keys [0, 1, 2, 3] test_config 500 () Map.empty of
        Ok l \<Rightarrow> snd (leto_start test_params l))"

lemma test_pick_ok: "chooser_ok test_pick"
  by (simp add: chooser_ok_def test_pick_def)

lemma test_order_ok: "order_ok sorted_list_of_set"
  by (simp add: order_ok_def)

lemma test_params_sel [simp]:
  "lp_env test_params = test_env" "lp_net test_params = test_net" "lp_pick test_params = test_pick"
  "lp_order test_params = sorted_list_of_set" "lp_gc test_params = 4" "lp_checked test_params"
  by (simp_all add: test_params_def)

lemma test_config_sel:
  "dom (parties test_config) = {0, 1, 2, 3}" "num_nodes test_config = 4" "num_faults test_config = 1"
  "get_all_ids sorted_list_of_set test_config = [0, 1, 2, 3]"
proof -
  show d: "dom (parties test_config) = {0, 1, 2, 3}" by (auto simp: test_config_def dom_def)
  show "num_nodes test_config = 4" by (simp add: num_nodes_def d)
  then show "num_faults test_config = 1" by (simp add: num_faults_eq)
  show "get_all_ids sorted_list_of_set test_config = [0, 1, 2, 3]" by (simp add: get_all_ids_def d)
qed

lemma test_committee_ok: "committee_ok sorted_list_of_set test_config"
  by (simp add: committee_ok_def test_config_sel quorum_def START_ID_def)

definition test_leader :: "unit leader_context" where
  "test_leader = \<lparr>lc_rng = (), lc_round = 0, lc_elligible = {3}, lc_history = [0, 1, 2], lc_leader = 0,
                  lc_next_leader = 3\<rparr>"

lemma test_leader_new: "leader_new test_pick () [0, 1, 2, 3] 1 = Ok test_leader"
proof -
  have "pop_history 3 [0, 1, 2, 3] [] = Ok ([0], [1, 2, 3])"
    using pop_history_ok [of 3 "[0, 1, 2, 3]" "[]"] by simp
  then show ?thesis
    by (simp add: leader_new_def leader_advance_round_def test_pick_def test_leader_def START_ID_def insert_Diff_if)
qed

lemma test_localhost: "parse_ipv4 ''127.0.0.1'' = Some 2130706433"
proof -
  have "split_dots [] ''127.0.0.1'' = [''127'', ''0'', ''0'', ''1'']" by simp
  moreover have "parse_octet ''127'' = Some 127" "parse_octet ''0'' = Some 0" "parse_octet ''1'' = Some 1"
    by (simp_all add: parse_octet_def digit_val_def)
  ultimately show ?thesis by (simp add: parse_ipv4_def)
qed

lemma test_get_party: "get_party test_config i = (if i < 4 then Some (test_party i) else None)"
  by (simp add: get_party_def test_config_def)

lemma test_address: "to_socket_address (consensus_address (test_party i)) p = Ok (2130706433, p)"
  by (simp add: to_socket_address_def test_party_def test_localhost)

lemma test_peers_loop:
  "list_all (\<lambda>j. j < 4) is \<Longrightarrow>
     \<exists>m'. peers_loop test_config (\<lambda>pty. (consensus_address pty, consensus_port pty)) i is m = Ok m'"
proof (induction "is" arbitrary: m)
  case (Cons j js)
  then show ?case
    by (simp only: peers_loop.simps list.pred_inject test_get_party if_True ok_or_simps bind_o_simps prod.case test_address)
      (cases "j = i"; simp)
qed simp

lemma test_peers: "\<exists>m. get_consensus_peers test_config i = Ok m"
  unfolding get_consensus_peers_def test_config_sel by (rule test_peers_loop) (simp add: list_all_iff)

text \<open>The freshly started replica of the example committee.\<close>

definition test_start :: "node_id \<Rightarrow> (test_db, nat, nat, unit) leto" where
  "test_start i = \<lparr>l_my_id = i, l_secret = [of_nat i], l_system = test_keys,
     l_peers = filter (\<lambda>x. x \<noteq> i) [0, 1, 2, 3], l_num_nodes = 4, l_num_faults = 1,
     l_rc = rc_new 4, l_lc = test_leader,
     l_cs = \<lparr>cs_db = [1000 \<mapsto> SElement (element_genesis 0)], cs_highest_hash = 1000,
             cs_highest_element = element_genesis 0, cs_qc_map = Map.empty\<rparr>,
     l_sy = synchronizer_new, l_timer = \<lparr>tm_resets = 1, tm_enabled = True\<rparr>,
     l_loopback = [], l_loopback_open = True, l_to_batcher = [], l_batcher_open = True,
     l_to_commit = [], l_commit_open = True, l_out = []\<rparr>"

lemma test_spawn:
  assumes "i < 4"
  shows "\<exists>l. leto_spawn test_params i [of_nat i] test_keys [0, 1, 2, 3] test_config 500 () Map.empty = Ok l \<and>
    snd (leto_start test_params l) = test_start i"
proof -
  obtain m where m: "get_consensus_peers test_config i = Ok m" using test_peers by blast
  have "get_party test_config i = Some (test_party i)" using assms by (simp add: test_get_party)
  then show ?thesis
    using m by (simp add: leto_spawn_def ok_or_def test_config_sel test_leader_new [simplified] leto_start_def genesis_setup_def
        chain_state_new_def write_element_def db_write_def test_start_def START_ID_def case_prod_beta Let_def)
      (simp add: test_env_def test_crypto_def test_store_def)
qed

subsection \<open>Whole runs\<close>



lemma leto_step_disabled: "\<not> leto_enabled ev l \<Longrightarrow> leto_step P ev l = (Continue, l)"
  by (simp add: leto_step_def)

lemma find_parent_rc [simp]: "find_parent P h (l\<lparr>l_rc := rc\<rparr>) = find_parent P h l"
  by (simp add: find_parent_def)

lemma handle_msg_crash:
  assumes inv: "leto_inv N L (lp_gc P) l" and ch: "chooser_ok (lp_pick P)" and m: "syncable m" "msg_round m = rc_round (l_rc l)"
    and u: "rc_round (l_rc l) < 2 ^ 64" and panic: "fst (handle_msg P m l) = Panic"
  shows "\<exists>p a b sender. m = Propose p a b sender \<and>
    (find_parent P (parent_hash p) l = Panic \<or>
     (\<exists>parent. find_parent P (parent_hash p) l = Ok parent \<and> uncheckable (lp_checked P) p (el_round parent)))"
proof (cases m)
  case (Propose p a b sender)
  with panic have "fst (handle_proposal P p a b l) = Panic" by (simp add: handle_msg_def)
  from handle_proposal_panic [OF inv ch _ this] m u Propose show ?thesis
    by (auto dest: proposal_valid_panic)
qed (use panic m handle_blame_ok [OF inv ch] on_blame_qc_ok [OF inv ch] in \<open>simp_all add: handle_msg_def\<close>)

lemma round_step_crash:
  assumes inv: "leto_inv N L (lp_gc P) l" and ch: "chooser_ok (lp_pick P)" and u: "rc_round (l_rc l) < 2 ^ 64"
    and en: "leto_enabled LRound l" and crash: "fst (leto_step P LRound l) = Crashed"
  shows "\<exists>p a b sender rc. rc_poll_next (l_rc l) = (Ok (Propose p a b sender), rc) \<and>
    (find_parent P (parent_hash p) l = Panic \<or>
     (\<exists>parent. find_parent P (parent_hash p) l = Ok parent \<and> uncheckable (lp_checked P) p (el_round parent)))"
proof -
  have ready: "rc_is_ready (l_rc l)" using en by (simp add: leto_enabled_def)
  obtain m rc where poll: "rc_poll_next (l_rc l) = (Ok m, rc)" using rc_poll_next_ready [OF ready] by auto
  note pi = leto_inv_poll [OF inv poll]
  have m: "syncable m" "msg_round m = rc_round rc"
    using rc_poll_next_msg [of "lp_gc P" "l_rc l" m rc] inv poll pi(2) by (simp_all add: leto_ok_def)
  have "fst (handle_msg P m (l\<lparr>l_rc := rc\<rparr>)) = Panic"
    using crash en poll by (simp add: leto_step_def logged_crash)
  then have "\<exists>p a b sender. m = Propose p a b sender \<and>
    (find_parent P (parent_hash p) (l\<lparr>l_rc := rc\<rparr>) = Panic \<or>
     (\<exists>parent. find_parent P (parent_hash p) (l\<lparr>l_rc := rc\<rparr>) = Ok parent \<and> uncheckable (lp_checked P) p (el_round parent)))"
    using pi m u by (intro handle_msg_crash [OF _ ch]) simp_all
  with poll show ?thesis by auto
qed


lemma test_start_inv:
  assumes "i < 4"
  shows "leto_inv {0, 1, 2, 3} 3 4 (test_start i)"
proof -
  obtain l where l: "leto_spawn test_params i [of_nat i] test_keys [0, 1, 2, 3] test_config 500 () Map.empty = Ok l"
    "snd (leto_start test_params l) = test_start i"
    using test_spawn [OF assms] by blast
  from leto_start_inv(1) [OF _ _ l(1)] show ?thesis
    by (simp add: l(2) test_pick_ok test_committee_ok test_config_sel quorum_def numeral_3_eq_3)
qed

definition orphan :: "nat protocol_msg" where
  "orphan = Propose \<lparr>p_block = \<lparr>batch_hash = 101, prev_hash = 7\<rparr>, p_qc = None, p_round = 1\<rparr>
     \<lparr>sig_raw = [0], sig_id = 0\<rparr> [5] 0"


lemma handle_proposal_short:
  assumes "parent_hash p = highest_hash (l_cs l)" "p_qc p = Some []"
    and "p_round p \<noteq> el_round (highest_chain (l_cs l)) + 1" "el_round (highest_chain (l_cs l)) + 1 < 2 ^ 64"
  shows "handle_proposal P p a b l = (Panic, l)"
proof -
  have "check_qcs (lp_checked P) (lp_env P) sys len nf p (el_round (highest_chain (l_cs l)) + 1) 0 = Panic" for sys len nf
    using assms(2,3) by (subst check_qcs.simps) simp
  then have "proposal_valid (lp_checked P) (lp_env P) sys len nf p (el_round (highest_chain (l_cs l))) = Panic" for sys len nf
    using assms(4) by (simp add: proposal_valid_def)
  then show ?thesis using assms(1) by (simp add: handle_proposal_def find_parent_def)
qed

text \<open>In a build with overflow checks a proposal on a stored element that claims the last 64-bit round is
  a panic too, with or without certificates: the round after the parent's is computed first.\<close>

theorem last_round_parent_panics:
  assumes "lp_checked P" "find_parent P (parent_hash p) l = Ok parent" "2 ^ 64 \<le> el_round parent + 1"
  shows "handle_proposal P p a b l = (Panic, l)"
  using assms by (simp add: handle_proposal_def proposal_valid_def u64_def)

text \<open>A proposal of the current round on the highest element, arriving at an idle replica, is handled
  in the next turn, with its batch stored.\<close>

lemma propose_then_round:
  assumes "p_round p = rc_round (l_rc l)" "parent_hash p = highest_hash (l_cs l)" "\<not> rc_is_ready (l_rc l)"
  shows "\<exists>l2. leto_step P LRound (snd (leto_step P (LNet (Some (Propose p a b sender))) l)) =
      logged (handle_proposal P p a b l2) \<and>
    l_cs l2 = write_batch_ref (lp_env P) b (l_cs l) \<and> rc_round (l_rc l2) = rc_round (l_rc l) \<and>
    l_lc l2 = l_lc l \<and> l_my_id l2 = l_my_id l \<and> l_system l2 = l_system l \<and>
    (\<forall>N L gc. leto_inv N L gc l \<longrightarrow> leto_inv N L gc l2)"
proof -
  let ?m = "Propose p a b sender"
  let ?l1 = "l\<lparr>l_cs := write_batch_ref (lp_env P) b (l_cs l)\<rparr>"
  obtain ms where ms: "entry_list (rc_msg_buf (l_rc l)) (rc_round (l_rc l)) = [] \<and> ms = [?m]"
    using assms(3) by (simp add: rc_is_ready_def entry_list_def split: option.splits)
  obtain rc where rc: "rc_sync ?m (l_rc l) = (Ok (), rc)" "rc_is_ready rc" "rc_round rc = rc_round (l_rc l)"
    "rc_poll_next rc = (Ok ?m, rc\<lparr>rc_msg_buf := (rc_msg_buf rc)(rc_round rc \<mapsto> [])\<rparr>)"
    using assms(1) ms by (auto simp: rc_sync_def push_entry_def extend_entry_def rc_is_ready_def rc_poll_next_def)
  let ?l2 = "?l1\<lparr>l_rc := rc\<rparr>"
  let ?l3 = "?l2\<lparr>l_rc := rc\<lparr>rc_msg_buf := (rc_msg_buf rc)(rc_round rc \<mapsto> [])\<rparr>\<rparr>"
  have 1: "snd (leto_step P (LNet (Some ?m)) l) = ?l2"
    using assms(1,2) rc(1) by (simp add: leto_step_def leto_enabled_def on_net_msg_def context_sync_def)
  have "leto_step P LRound ?l2 = logged (handle_proposal P p a b ?l3)"
    using rc(2,4) by (simp add: leto_step_def leto_enabled_def handle_msg_def)
  moreover have "leto_inv N L gc ?l3" if inv: "leto_inv N L gc l" for N L gc
  proof -
    have "leto_inv N L gc ?l1" using inv by (simp add: leto_ok_def channels_open_def)
    then have "leto_inv N L gc ?l2" using context_sync_ok [of N L gc ?l1 ?m] rc(1) by (simp add: context_sync_def)
    then show ?thesis using leto_inv_poll(1) [of N L gc ?l2] rc(4) by simp
  qed
  ultimately show ?thesis unfolding 1 using rc(3) by (intro exI [of _ ?l3]) simp
qed

text \<open>A proposal of the current round on the highest element whose certificate list is empty
  although a round was skipped crashes the receiver when it is handled, whoever sent it and
  whatever its signature: the certificates are indexed before any of them, or the signature, is
  checked.\<close>

theorem short_certificate_list_crashes:
  assumes "p_round p = rc_round (l_rc l)" "parent_hash p = highest_hash (l_cs l)" "p_qc p = Some []"
    and "el_round (highest_chain (l_cs l)) + 1 < rc_round (l_rc l)" "\<not> rc_is_ready (l_rc l)" "rc_round (l_rc l) < 2 ^ 64"
  shows "fst (leto_step P LRound (snd (leto_step P (LNet (Some (Propose p a b sender))) l))) = Crashed"
proof -
  obtain l2 where l2: "leto_step P LRound (snd (leto_step P (LNet (Some (Propose p a b sender))) l)) =
      logged (handle_proposal P p a b l2)" "l_cs l2 = write_batch_ref (lp_env P) b (l_cs l)"
    using propose_then_round [OF assms(1,2,5), of P a b sender] by blast
  have "handle_proposal P p a b l2 = (Panic, l2)"
    using assms(1-4,6) l2(2) by (intro handle_proposal_short) (simp_all add: highest_hash_def highest_chain_def)
  then show ?thesis by (simp add: l2(1) logged_def)
qed

definition test_blamed :: "node_id \<Rightarrow> (test_db, nat, nat, unit) leto" where
  "test_blamed i = snd (on_blame_qc test_params 1 certificate_empty (test_start i))"

lemma test_start_sel:
  "rc_round (l_rc (test_start i)) = 1" "rc_got_qc (l_rc (test_start i)) = False"
  "cs_highest_hash (l_cs (test_start i)) = 1000" "cs_highest_element (l_cs (test_start i)) = element_genesis 0"
  "cs_qc_map (l_cs (test_start i)) = Map.empty" "l_lc (test_start i) = test_leader"
  "l_my_id (test_start i) = i" "l_system (test_start i) = test_keys" "l_secret (test_start i) = [of_nat i]"
  "rc_pending (l_rc (test_start i)) = (\<lambda>r. {#})" "l_num_nodes (test_start i) = 4" "l_num_faults (test_start i) = 1"
  by (simp_all add: test_start_def rc_new_def rc_pending_def fun_eq_iff)

lemma test_blamed:
  assumes "i < 4"
  shows "on_blame_qc test_params 1 certificate_empty (test_start i) = (Ok (), test_blamed i)"
    and "leto_inv {0, 1, 2, 3} 3 4 (test_blamed i)"
    and "rc_round (l_rc (test_blamed i)) = 2" "cs_highest_hash (l_cs (test_blamed i)) = 1000"
    and "cs_highest_element (l_cs (test_blamed i)) = element_genesis 0" "leader (l_lc (test_blamed i)) = 3"
    and "\<not> rc_is_ready (l_rc (test_blamed i))" "l_system (test_blamed i) = test_keys"
    and "cs_qc_map (l_cs (test_blamed i)) = [1 \<mapsto> certificate_empty]"
proof -
  obtain l' where l': "handle_blame_qc test_params 1 certificate_empty (test_start i) = (Ok (), l')"
    "leto_inv {0, 1, 2, 3} 3 4 l'" "rc_round (l_rc l') = 2" "cs_highest_hash (l_cs l') = 1000"
    "cs_highest_element (l_cs l') = element_genesis 0" "lc_leader (l_lc l') = 3" "l_system l' = test_keys"
    "rc_pending (l_rc l') = (\<lambda>r. {#})" "cs_qc_map (l_cs l') = [1 \<mapsto> certificate_empty]"
    using handle_blame_qc_ok [of "{0, 1, 2, 3}" 3 test_params "test_start i" 1 certificate_empty] test_start_inv [OF assms]
    by (auto simp: test_pick_ok test_start_sel test_leader_def numeral_2_eq_2 [symmetric])
  then have "on_blame_qc test_params 1 certificate_empty (test_start i) = (Ok (), l')"
    by (simp add: on_blame_qc_def test_start_sel)
  moreover from this have "test_blamed i = l'" by (simp add: test_blamed_def)
  ultimately show "on_blame_qc test_params 1 certificate_empty (test_start i) = (Ok (), test_blamed i)"
    and "leto_inv {0, 1, 2, 3} 3 4 (test_blamed i)"
    and "rc_round (l_rc (test_blamed i)) = 2" "cs_highest_hash (l_cs (test_blamed i)) = 1000"
    and "cs_highest_element (l_cs (test_blamed i)) = element_genesis 0" "leader (l_lc (test_blamed i)) = 3"
    and "\<not> rc_is_ready (l_rc (test_blamed i))" "l_system (test_blamed i) = test_keys"
    and "cs_qc_map (l_cs (test_blamed i)) = [1 \<mapsto> certificate_empty]"
    using l' by (simp_all add: rc_is_ready_pending leader_def)
qed

definition empty_handed :: proposal where
  "empty_handed = \<lparr>p_block = \<lparr>batch_hash = 100, prev_hash = 1000\<rparr>, p_qc = Some [], p_round = 2\<rparr>"

theorem short_certificate_list_crashes_witness:
  "fst (leto_step test_params LRound (snd (leto_step test_params
     (LNet (Some (Propose empty_handed \<lparr>sig_raw = [], sig_id = 2\<rparr> [] 2))) (test_blamed 1)))) = Crashed"
  by (rule short_certificate_list_crashes)
     (simp_all add: test_blamed empty_handed_def parent_hash_def el_round_def highest_hash_def highest_chain_def)

subsection \<open>What a replica accepts\<close>

lemma check_qcs_no_error: "check_qcs checked e sys len nf p start idx \<noteq> Err er"
proof (induction checked e sys len nf p start idx rule: check_qcs.induct)
  case (1 checked e sys len nf p start idx)
  then show ?case by (subst check_qcs.simps) (auto simp: bind_o_def u64_cases(2) split: option.split outcome.split)
qed

lemma proposal_valid_no_error: "proposal_valid checked e sys len nf p r \<noteq> Err er"
  by (simp add: proposal_valid_def bind_o_def check_qcs_no_error u64_cases(2) split: outcome.split)

text \<open>C36. In a state its runs reach, a replica accepts a proposal of the current round exactly when it
  has the parent, the check of the certificates returns, whatever its verdict (it panics when the list is
  too short, or when the round after the parent's overflows), and it is the leader itself or the leader's
  signature verifies; then the proposal is its highest element and it is in the next round under
  the next leader, and otherwise nothing changes. The verdict on the certificates plays no part.\<close>

theorem proposal_accepted_iff:
  assumes "leto_inv N L (lp_gc P) l" "chooser_ok (lp_pick P)" "p_round p = rc_round (l_rc l)"
  shows "(fst (handle_proposal P p a b l) = Ok () \<longleftrightarrow>
      (\<exists>parent v. find_parent P (parent_hash p) l = Ok parent \<and>
        proposal_valid (lp_checked P) (lp_env P) (l_system l) (qc_len l) (l_num_faults l) p (el_round parent) = Ok v \<and>
        signer_ok (lp_env P) p a l)) \<and>
    (fst (handle_proposal P p a b l) = Ok () \<longrightarrow>
      highest_chain (l_cs (snd (handle_proposal P p a b l))) = element_new p a b \<and>
      rc_round (l_rc (snd (handle_proposal P p a b l))) = rc_round (l_rc l) + 1 \<and>
      leader (l_lc (snd (handle_proposal P p a b l))) = next_leader (l_lc l)) \<and>
    (fst (handle_proposal P p a b l) \<noteq> Ok () \<longrightarrow> snd (handle_proposal P p a b l) = l)"
proof -
  obtain l' where l': "on_correct_proposal P p a b l = (Ok (), l')" "rc_round (l_rc l') = Suc (rc_round (l_rc l))"
    "l_cs l' = update_highest_chain (lp_env P) p a b (l_cs l)" "lc_leader (l_lc l') = lc_next_leader (l_lc l)"
    using on_correct_proposal_ok [OF assms, of a b] by blast
  have iff: "fst (handle_proposal P p a b l) = Ok () \<longleftrightarrow>
      (\<exists>parent v. find_parent P (parent_hash p) l = Ok parent \<and>
        proposal_valid (lp_checked P) (lp_env P) (l_system l) (qc_len l) (l_num_faults l) p (el_round parent) = Ok v \<and>
        signer_ok (lp_env P) p a l)"
    unfolding handle_proposal_iff l'(1) by simp
  then have acc: "fst (handle_proposal P p a b l) = Ok () \<Longrightarrow> handle_proposal P p a b l = (Ok (), l')"
    using handle_proposal_accepts [of P p l _ _ a b] l'(1) by auto
  have rej: "fst (handle_proposal P p a b l) \<noteq> Ok () \<Longrightarrow> snd (handle_proposal P p a b l) = l"
    using handle_proposal_cases [of P p a b l] l'(1) by auto
  show ?thesis using iff acc rej l' by (auto simp: highest_chain_def leader_def next_leader_def)
qed

definition test_proposal :: proposal where
  "test_proposal = \<lparr>p_block = \<lparr>batch_hash = 101, prev_hash = 1000\<rparr>, p_qc = None, p_round = 1\<rparr>"

definition test_auth :: signature where
  "test_auth = \<lparr>sig_raw = [0, ucast (5001 :: 256 word)], sig_id = 0\<rparr>"

lemma test_accepts:
  "find_parent test_params (parent_hash test_proposal) (test_start i) = Ok (element_genesis 0)"
  "proposal_valid True test_env sys k nf test_proposal (el_round (element_genesis 0)) = Ok True"
  "signer_ok test_env test_proposal test_auth (test_start i)" "p_round test_proposal = 1"
  by (simp_all add: find_parent_def test_proposal_def parent_hash_def highest_hash_def highest_chain_def test_start_sel
      proposal_valid_def check_qcs.simps el_round_def signer_ok_def test_auth_def test_leader_def leader_def test_keys_def)

theorem proposal_accepted_iff_witness:
  "fst (handle_proposal test_params test_proposal test_auth [5] (test_start 1)) = Ok () \<and>
   highest_chain (l_cs (snd (handle_proposal test_params test_proposal test_auth [5] (test_start 1)))) =
     element_new test_proposal test_auth [5]"
proof -
  have "leto_inv {0, 1, 2, 3} 3 (lp_gc test_params) (test_start 1)" using test_start_inv [of 1] by simp
  from proposal_accepted_iff [OF this, of test_proposal test_auth "[5]"] test_pick_ok show ?thesis
    by (auto simp: test_start_sel test_accepts)
qed

text \<open>A replica that is the leader of its round accepts an unsigned proposal from anyone: the
  handler skips the signature check whenever the leader is itself, also for what the network
  delivered. Any batch and any signature bytes become its highest element.\<close>

theorem leader_accepts_unsigned_proposal:
  assumes "leto_inv N L (lp_gc P) l" "chooser_ok (lp_pick P)" "leader (l_lc l) = l_my_id l"
    and "p_round p = rc_round (l_rc l)" "parent_hash p = highest_hash (l_cs l)" "p_qc p = None"
    and "\<not> rc_is_ready (l_rc l)" "rc_round (l_rc l) < 2 ^ 64"
  shows "\<exists>l'. leto_step P LRound (snd (leto_step P (LNet (Some (Propose p a b sender))) l)) = (Continue, l') \<and>
    highest_chain (l_cs l') = element_new p a b \<and> rc_round (l_rc l') = rc_round (l_rc l) + 1"
proof -
  obtain l2 where l2: "leto_step P LRound (snd (leto_step P (LNet (Some (Propose p a b sender))) l)) =
      logged (handle_proposal P p a b l2)" "l_cs l2 = write_batch_ref (lp_env P) b (l_cs l)"
    "rc_round (l_rc l2) = rc_round (l_rc l)" "l_lc l2 = l_lc l" "l_my_id l2 = l_my_id l"
    "leto_inv N L (lp_gc P) l2"
    using propose_then_round [OF assms(4,5,7), of P a b sender] assms(1) by blast
  have "check_qcs checked e sys len nf p start 0 = Ok (p_round p = start)" for checked e sys len nf start
    using assms(6) by (subst check_qcs.simps) simp
  moreover have "el_round (highest_chain (l_cs l)) + 1 < 2 ^ 64"
    using assms(1,8) by (simp add: leto_ok_def highest_chain_def)
  ultimately have "proposal_valid checked e sys len nf p (el_round (highest_chain (l_cs l2))) =
      Ok (p_round p = el_round (highest_chain (l_cs l2)) + 1)" for checked e sys len nf
    using l2(2) by (simp add: proposal_valid_def highest_chain_def)
  moreover have "find_parent P (parent_hash p) l2 = Ok (highest_chain (l_cs l2))" "signer_ok (lp_env P) p a l2"
    using assms(3,5) l2 by (simp_all add: find_parent_def highest_hash_def signer_ok_def)
  ultimately have acc: "handle_proposal P p a b l2 = on_correct_proposal P p a b l2"
    by (intro handle_proposal_accepts)
  obtain l' where "on_correct_proposal P p a b l2 = (Ok (), l')" "rc_round (l_rc l') = Suc (rc_round (l_rc l))"
    "l_cs l' = update_highest_chain (lp_env P) p a b (l_cs l2)"
    using on_correct_proposal_ok [OF l2(6) assms(2), of p a b] assms(4) l2(3) by auto
  then show ?thesis by (simp add: l2(1) acc logged_def highest_chain_def)
qed

theorem leader_accepts_unsigned_proposal_witness:
  "\<exists>l'. leto_step test_params LRound (snd (leto_step test_params
      (LNet (Some (Propose test_proposal \<lparr>sig_raw = [], sig_id = 7\<rparr> [6, 6] 2))) (test_start 0))) = (Continue, l') \<and>
    highest_chain (l_cs l') = element_new test_proposal \<lparr>sig_raw = [], sig_id = 7\<rparr> [6, 6]"
proof -
  have "leto_inv {0, 1, 2, 3} 3 (lp_gc test_params) (test_start 0)" using test_start_inv [of 0] by simp
  from leader_accepts_unsigned_proposal [OF this, of test_proposal] show ?thesis
    by (fastforce simp: test_pick_ok test_start_sel test_leader_def leader_def test_proposal_def parent_hash_def
        highest_hash_def rc_is_ready_pending)
qed

text \<open>The batch that comes with a proposal is not compared with the batch hash the leader signed:
  if a proposal is accepted with one batch it is accepted with any other, and the two receivers
  end up with different highest elements of the same round.\<close>

theorem batch_not_bound_to_signature:
  assumes "leto_inv N L (lp_gc P) l" "chooser_ok (lp_pick P)" "p_round p = rc_round (l_rc l)"
    and "fst (handle_proposal P p a b l) = Ok ()"
  shows "fst (handle_proposal P p a b' l) = Ok () \<and>
    highest_chain (l_cs (snd (handle_proposal P p a b l))) = element_new p a b \<and>
    highest_chain (l_cs (snd (handle_proposal P p a b' l))) = element_new p a b'"
proof -
  obtain parent v where "find_parent P (parent_hash p) l = Ok parent"
    "proposal_valid (lp_checked P) (lp_env P) (l_system l) (qc_len l) (l_num_faults l) p (el_round parent) = Ok v"
    "signer_ok (lp_env P) p a l"
    using assms(4) unfolding handle_proposal_iff by blast
  then have acc: "handle_proposal P p a x l = on_correct_proposal P p a x l" for x
    by (rule handle_proposal_accepts)
  have "highest_chain (l_cs (snd (on_correct_proposal P p a x l))) = element_new p a x \<and>
      fst (on_correct_proposal P p a x l) = Ok ()" for x
    using on_correct_proposal_ok [OF assms(1-3), of a x] by (auto simp: highest_chain_def)
  then show ?thesis unfolding acc by simp
qed

theorem batch_not_bound_to_signature_witness:
  "fst (handle_proposal test_params test_proposal test_auth [99, 98, 97] (test_start 1)) = Ok () \<and>
   highest_chain (l_cs (snd (handle_proposal test_params test_proposal test_auth [99, 98, 97] (test_start 1)))) =
     element_new test_proposal test_auth [99, 98, 97]"
proof -
  have inv: "leto_inv {0, 1, 2, 3} 3 (lp_gc test_params) (test_start 1)" using test_start_inv [of 1] by simp
  have "handle_proposal test_params test_proposal test_auth [5] (test_start 1) =
      on_correct_proposal test_params test_proposal test_auth [5] (test_start 1)"
    using test_accepts by (intro handle_proposal_accepts) simp_all
  then have "fst (handle_proposal test_params test_proposal test_auth [5] (test_start 1)) = Ok ()"
    using on_correct_proposal_ok [OF inv, of test_proposal test_auth "[5]"]
    by (auto simp: test_pick_ok test_start_sel test_accepts)
  from batch_not_bound_to_signature [OF inv _ _ this, of "[99, 98, 97]"] show ?thesis
    by (simp add: test_pick_ok test_start_sel test_accepts)
qed

subsection \<open>Blame\<close>

text \<open>C37. The blame that completes a quorum of different, verified signers in the current round ends the
  round: the replica broadcasts and keeps a certificate for it with exactly a quorum of distinct
  signers, all of which verify, and enters the next round under the next leader.\<close>

theorem blame_quorum_ends_round:
  assumes "leto_inv N L (lp_gc P) l" "chooser_ok (lp_pick P)" "order_ok (lp_order P)" "auth_ok (lp_env P) l"
    and "r = rc_round (l_rc l)" "\<not> rc_got_qc (l_rc l)" "verified_for (lp_env P) (l_system l) r a"
    and "card (dom ((rc_blame_map (l_rc l))(sig_id a \<mapsto> a))) = qc_len l"
  shows "\<exists>l' qc. handle_blame P r a l = (Ok (), l') \<and>
    unique_len qc = qc_len l \<and> certificate_len qc = qc_len l \<and>
    certificate_verify (crypt (lp_env P)) qc (ser_and_hash (crypt (lp_env P)) (cd_round (lp_env P)) r) (l_system l) = Ok () \<and>
    (l_peers l, BlameQC r qc) \<in> set (l_out l') \<and> get_qc (l_cs l') r = Some qc \<and>
    rc_round (l_rc l') = r + 1 \<and> leader (l_lc l') = next_leader (l_lc l) \<and>
    highest_chain (l_cs l') = highest_chain (l_cs l)"
proof -
  define m where "m = (rc_blame_map (l_rc l))(sig_id a \<mapsto> a)"
  let ?qc = "blame_certificate (lp_order P) m"
  let ?l2 = "l\<lparr>l_rc := (l_rc l)\<lparr>rc_got_qc := True, rc_blame_map := Map.empty\<rparr>\<rparr>"
  have "blames_ok (lp_env P) (l\<lparr>l_rc := (l_rc l)\<lparr>rc_blame_map := m\<rparr>\<rparr>)"
    unfolding m_def using assms(4,5,7) by (intro blames_ok_insert) (simp_all add: auth_ok_def)
  then have fin: "finite (dom m)" and ok: "m i = Some sg \<Longrightarrow> sig_id sg = i \<and> verified_for (lp_env P) (l_system l) r sg" for i sg
    using assms(5) unfolding blames_ok_def by simp_all
  note quorum = blame_certificate_quorum [OF assms(3) fin ok]
  have card: "card (dom m) = qc_len l" using assms(8) by (simp only: m_def)
  have "el_round (highest_chain (l_cs l)) \<noteq> r"
    using assms(1,5) by (simp add: leto_ok_def highest_chain_def)
  then have eq: "handle_blame P r a l = handle_blame_qc P r ?qc ?l2"
    using assms(6,7) card by (subst handle_blame_counts [OF _ _ _ m_def]) simp_all
  have "leto_inv N L (lp_gc P) ?l2" using assms(1) by simp
  from handle_blame_qc_ok [OF this assms(2), of r ?qc] assms(5) obtain l' where l':
    "handle_blame_qc P r ?qc ?l2 = (Ok (), l')" "rc_round (l_rc l') = Suc r"
    "cs_highest_element (l_cs l') = cs_highest_element (l_cs l)" "cs_qc_map (l_cs l') r = Some ?qc"
    "l_out l' = l_out l @ [(l_peers l, BlameQC r ?qc)]" "lc_leader (l_lc l') = lc_next_leader (l_lc l)" by auto
  then have "(l_peers l, BlameQC r ?qc) \<in> set (l_out l')" by simp
  with l' eq quorum card show ?thesis
    unfolding get_qc_def leader_def next_leader_def highest_chain_def by (intro exI [of _ l'] exI [of _ ?qc]) simp
qed

definition test_blame :: "round \<Rightarrow> node_id \<Rightarrow> signature" where
  "test_blame r i = \<lparr>sig_raw = [of_nat i, ucast (of_nat (9000 + r) :: 256 word)], sig_id = i\<rparr>"

lemma test_blame_verified: "i < 4 \<Longrightarrow> verified_for test_env test_keys r (test_blame r i)"
  by (simp add: verified_for_def test_blame_def test_keys_def)

definition test_two_blames :: "(test_db, nat, nat, unit) leto" where
  "test_two_blames =
     (test_start 3)\<lparr>l_rc := (l_rc (test_start 3))\<lparr>rc_blame_map := [0 \<mapsto> test_blame 1 0, 2 \<mapsto> test_blame 1 2]\<rparr>\<rparr>"

lemma test_two_blames_auth: "auth_ok test_env test_two_blames"
proof -
  have "blames_ok test_env test_two_blames"
    using test_blame_verified [of 0 1] test_blame_verified [of 2 1]
    by (simp add: blames_ok_def test_two_blames_def test_start_sel) (simp add: test_blame_def)
  then show ?thesis by (simp add: auth_ok_def certs_ok_def test_two_blames_def test_start_sel)
qed

theorem blame_quorum_ends_round_witness:
  "\<exists>l' qc. handle_blame test_params 1 (test_blame 1 1) test_two_blames = (Ok (), l') \<and>
    unique_len qc = 3 \<and> get_qc (l_cs l') 1 = Some qc \<and> rc_round (l_rc l') = 2 \<and> leader (l_lc l') = 3"
proof -
  have inv: "leto_inv {0, 1, 2, 3} 3 (lp_gc test_params) test_two_blames"
    using test_start_inv [of 3] by (simp add: test_two_blames_def)
  have len: "qc_len test_two_blames = 3" by (simp add: qc_len_def test_two_blames_def test_start_sel)
  have "dom ((rc_blame_map (l_rc test_two_blames))(sig_id (test_blame 1 1) \<mapsto> test_blame 1 1)) = {0, 1, 2}"
    by (auto simp: test_two_blames_def test_blame_def split: if_splits)
  then have card: "card (dom ((rc_blame_map (l_rc test_two_blames))(sig_id (test_blame 1 1) \<mapsto> test_blame 1 1)))
      = qc_len test_two_blames" by (simp add: len)
  have hyps: "chooser_ok (lp_pick test_params)" "order_ok (lp_order test_params)" "auth_ok (lp_env test_params) test_two_blames"
    "1 = rc_round (l_rc test_two_blames)" "\<not> rc_got_qc (l_rc test_two_blames)"
    "verified_for (lp_env test_params) (l_system test_two_blames) 1 (test_blame 1 1)"
    "next_leader (l_lc test_two_blames) = 3"
    using test_blame_verified [of 1 1]
    by (simp_all add: test_pick_ok test_order_ok test_two_blames_auth)
      (simp_all add: test_two_blames_def test_start_sel next_leader_def test_leader_def)
  obtain l' qc where "handle_blame test_params 1 (test_blame 1 1) test_two_blames = (Ok (), l')"
    "unique_len qc = 3" "get_qc (l_cs l') 1 = Some qc" "rc_round (l_rc l') = 1 + 1" "leader (l_lc l') = 3"
    using blame_quorum_ends_round [OF inv hyps(1-6) card] unfolding len hyps(7) by blast
  then show ?thesis by (intro exI [of _ l'] exI [of _ qc]) (simp only: one_add_one simp_thms)
qed

text \<open>A blame certificate is only checked for the signatures it carries, not for their number: one
  without any signature makes every replica that has not yet left the round leave it, change the
  leader, and keep and spread that certificate.\<close>

theorem empty_blame_certificate_ends_round:
  assumes "leto_inv N L (lp_gc P) l" "chooser_ok (lp_pick P)" "\<not> rc_got_qc (l_rc l)"
  shows "\<exists>l'. on_blame_qc P (rc_round (l_rc l)) certificate_empty l = (Ok (), l') \<and>
    rc_round (l_rc l') = rc_round (l_rc l) + 1 \<and> leader (l_lc l') = next_leader (l_lc l) \<and>
    get_qc (l_cs l') (rc_round (l_rc l)) = Some certificate_empty \<and>
    (l_peers l, BlameQC (rc_round (l_rc l)) certificate_empty) \<in> set (l_out l')"
  using handle_blame_qc_ok [OF assms(1,2) refl, of certificate_empty] assms(3)
  by (auto simp: on_blame_qc_def get_qc_def leader_def next_leader_def)

theorem empty_blame_certificate_ends_round_witness:
  "\<exists>l'. on_blame_qc test_params 1 certificate_empty (test_start 2) = (Ok (), l') \<and>
    rc_round (l_rc l') = 2 \<and> leader (l_lc l') = 3"
  using empty_blame_certificate_ends_round [of "{0, 1, 2, 3}" 3 test_params "test_start 2"] test_start_inv [of 2]
  by (auto simp: test_pick_ok test_start_sel next_leader_def test_leader_def numeral_2_eq_2 [symmetric])

subsection \<open>The certificates of an honest proposal\<close>

lemma proposal_valid_one:
  assumes "p_qc p = Some [qc]" "p_round p = r + 2" "unique_len qc = len" "p_round p < 2 ^ 64"
    and "certificate_verify (crypt e) qc (ser_and_hash (crypt e) (cd_round e) (r + 1)) sys = Ok ()"
  shows "proposal_valid checked e sys len nf p r = Ok True"
proof -
  have "check_qcs checked e sys len nf p (r + 2) 1 = Ok True" using assms(2) by (subst check_qcs.simps) simp
  then have "check_qcs checked e sys len nf p (r + 1) 0 = Ok True"
    using assms by (subst check_qcs.simps) (simp add: numeral_2_eq_2)
  then show ?thesis using assms(2,4) by (simp add: proposal_valid_def)
qed

text \<open>After one round without a proposal, the proposal an honest leader builds passes the
  certificate check, if the certificate it holds for that round has a quorum of signers.\<close>

theorem one_skipped_round_passes_check:
  assumes "leto_inv N L (lp_gc P) l" "auth_ok (lp_env P) l"
    and "rc_round (l_rc l) = el_round (highest_chain (l_cs l)) + 2"
    and "get_qc (l_cs l) (el_round (highest_chain (l_cs l)) + 1) = Some qc" "unique_len qc = qc_len l"
    and "rc_round (l_rc l) < 2 ^ 64"
  shows "\<exists>qcs. collect_qcs (l_cs l) (el_round (highest_chain (l_cs l))) (rc_round (l_rc l) - 1) [] = Ok qcs \<and>
    proposal_valid (lp_checked P) (lp_env P) (l_system l) (qc_len l) (l_num_faults l) (new_proposal bh qcs l)
      (el_round (highest_chain (l_cs l))) = Ok True"
proof -
  let ?h = "el_round (highest_chain (l_cs l))"
  have "collect_qcs (l_cs l) ?h (rc_round (l_rc l) - 1) [] = Ok [qc]"
    using assms(3,4) by (subst leto_collect_qcs [OF assms(1)]) (simp add: get_qc_def upt_rec)
  moreover have "certificate_verify (crypt (lp_env P)) qc
      (ser_and_hash (crypt (lp_env P)) (cd_round (lp_env P)) (?h + 1)) (l_system l) = Ok ()"
    unfolding certificate_verify_iff using assms(2,4) by (simp add: auth_ok_def certs_ok_def get_qc_def)
  then have "proposal_valid (lp_checked P) (lp_env P) (l_system l) (qc_len l) (l_num_faults l) (new_proposal bh [qc] l) ?h = Ok True"
    using assms(3,5,6) by (intro proposal_valid_one) (simp_all add: new_proposal_def)
  ultimately show ?thesis by blast
qed

text \<open>After two rounds without a proposal the same leader's proposal fails the check of every
  receiver: the leader lists the certificates newest first, the check reads them oldest first, so
  the certificate of the later round is verified for the earlier one.\<close>

theorem two_skipped_rounds_fail_check:
  assumes "leto_inv N L (lp_gc P) l" and "rc_round (l_rc l) = el_round (highest_chain (l_cs l)) + 3"
    and "get_qc (l_cs l) (el_round (highest_chain (l_cs l)) + 2) = Some qc"
    and "certificate_verify (crypt e) qc (ser_and_hash (crypt e) (cd_round e) (el_round (highest_chain (l_cs l)) + 1)) sys \<noteq> Ok ()"
    and "rc_round (l_rc l) < 2 ^ 64"
  shows "\<exists>qcs. collect_qcs (l_cs l) (el_round (highest_chain (l_cs l))) (rc_round (l_rc l) - 1) [] = Ok qcs \<and>
    length qcs = 2 \<and>
    proposal_valid checked e sys len nf (new_proposal bh qcs l) (el_round (highest_chain (l_cs l))) = Ok False"
proof -
  let ?h = "el_round (highest_chain (l_cs l))"
  let ?qcs = "[qc, the (cs_qc_map (l_cs l) (Suc ?h))]"
  have "rev [Suc ?h..<?h + 3] = [?h + 2, Suc ?h]" by (simp add: upt_rec)
  then have "collect_qcs (l_cs l) ?h (rc_round (l_rc l) - 1) [] = Ok ?qcs"
    using assms(2,3) by (subst leto_collect_qcs [OF assms(1)]) (simp add: get_qc_def)
  moreover have "check_qcs checked e sys len nf (new_proposal bh ?qcs l) (?h + 1) 0 = Ok False"
    using assms(2,4) by (subst check_qcs.simps) (simp add: new_proposal_def)
  then have "proposal_valid checked e sys len nf (new_proposal bh ?qcs l) ?h = Ok False"
    using assms(2,5) by (simp add: proposal_valid_def)
  ultimately show ?thesis by auto
qed

definition test_certificate :: "round \<Rightarrow> certificate" where
  "test_certificate r = \<lparr>raw_sigs = [test_blame r 0, test_blame r 1, test_blame r 2]\<rparr>"

lemma test_certificate_ok:
  "unique_len (test_certificate r) = 3" "sg \<in> set (raw_sigs (test_certificate r)) \<Longrightarrow> verified_for test_env test_keys r sg"
  using test_blame_verified [of 0 r] test_blame_verified [of 1 r] test_blame_verified [of 2 r]
  by (auto simp: test_certificate_def unique_len_card) (simp add: test_blame_def)

lemma test_one_skipped:
  assumes "i < 4"
  shows "\<exists>l. handle_blame_qc test_params 1 (test_certificate 1) (test_start i) = (Ok (), l) \<and>
    leto_inv {0, 1, 2, 3} 3 4 l \<and> auth_ok test_env l \<and> rc_round (l_rc l) = 2 \<and>
    highest_chain (l_cs l) = element_genesis 0 \<and> l_system l = test_keys \<and>
    get_qc (l_cs l) 1 = Some (test_certificate 1) \<and> l_num_nodes l = 4 \<and> l_num_faults l = 1"
proof -
  have inv: "leto_inv {0, 1, 2, 3} 3 (lp_gc test_params) (test_start i)" using test_start_inv [OF assms] by simp
  have "auth_ok (lp_env test_params) (snd (handle_blame_qc test_params 1 (test_certificate 1) (test_start i)))"
    using test_certificate_ok(2) by (intro handle_blame_qc_auth [OF inv]) (simp_all add: test_pick_ok test_start_sel certs_ok_def)
  with handle_blame_qc_ok [OF inv, of 1 "test_certificate 1"] show ?thesis
    by (auto simp: test_pick_ok test_start_sel get_qc_def highest_chain_def numeral_2_eq_2 [symmetric])
qed

theorem two_skipped_rounds_fail_check_witness:
  "\<exists>l qcs. collect_qcs (l_cs l) 0 2 [] = Ok qcs \<and> auth_ok test_env l \<and>
     proposal_valid True test_env test_keys 3 1 (new_proposal 101 qcs (l :: (test_db, nat, nat, unit) leto)) 0 = Ok False"
proof -
  obtain l1 :: "(test_db, nat, nat, unit) leto" where l1: "leto_inv {0, 1, 2, 3} 3 (lp_gc test_params) l1" "auth_ok test_env l1" "rc_round (l_rc l1) = 2"
    "highest_chain (l_cs l1) = element_genesis 0" "l_system l1 = test_keys"
    using test_one_skipped [of 3] by auto
  have ch: "chooser_ok (lp_pick test_params)" by (simp add: test_pick_ok)
  have two: "2 = rc_round (l_rc l1)" by (simp add: l1)
  have auth: "auth_ok (lp_env test_params) (snd (handle_blame_qc test_params 2 (test_certificate 2) l1))"
    using l1 test_certificate_ok(2) by (intro handle_blame_qc_auth [OF l1(1) ch two]) (simp_all add: auth_ok_def)
  obtain l where l: "handle_blame_qc test_params 2 (test_certificate 2) l1 = (Ok (), l)"
    "leto_inv {0, 1, 2, 3} 3 (lp_gc test_params) l" "rc_round (l_rc l) = Suc 2"
    "highest_chain (l_cs l) = element_genesis 0" "get_qc (l_cs l) (0 + 2) = Some (test_certificate 2)"
    using handle_blame_qc_ok [OF l1(1) ch two, of "test_certificate 2"] l1(4)
    by (auto simp: get_qc_def highest_chain_def)
  have g: "el_round (highest_chain (l_cs l)) = 0" using l(4) by (simp add: el_round_def)
  have "\<not> verified_for test_env test_keys 1 (test_blame 2 0)"
    by (simp add: verified_for_def test_blame_def test_keys_def)
  then have "certificate_verify (crypt test_env) (test_certificate 2)
      (ser_and_hash (crypt test_env) (cd_round test_env) (0 + 1)) test_keys \<noteq> Ok ()"
    unfolding certificate_verify_iff by (simp add: test_certificate_def)
  from two_skipped_rounds_fail_check [OF l(2), unfolded g, OF _ l(5) this, of True 3 1 101] l(3)
  obtain qcs where "collect_qcs (l_cs l) 0 (rc_round (l_rc l) - 1) [] = Ok qcs"
    "proposal_valid True test_env test_keys 3 1 (new_proposal 101 qcs l) 0 = Ok False" by auto
  moreover have "rc_round (l_rc l) - 1 = 2" using l(3) by simp
  moreover have "auth_ok test_env l" using auth l(1) by simp
  ultimately show ?thesis by (intro exI [of _ l] exI [of _ qcs]) (simp only: add_0 simp_thms)
qed

theorem one_skipped_round_passes_check_witness:
  "\<exists>l qcs. collect_qcs (l_cs l) 0 1 [] = Ok qcs \<and> auth_ok test_env l \<and>
     proposal_valid True test_env test_keys 3 1 (new_proposal 101 qcs (l :: (test_db, nat, nat, unit) leto)) 0 = Ok True"
proof -
  obtain l :: "(test_db, nat, nat, unit) leto" where l: "leto_inv {0, 1, 2, 3} 3 (lp_gc test_params) l" "auth_ok (lp_env test_params) l" "rc_round (l_rc l) = 2"
    "highest_chain (l_cs l) = element_genesis 0" "l_system l = test_keys" "get_qc (l_cs l) (0 + 1) = Some (test_certificate 1)"
    "l_num_nodes l = 4" "l_num_faults l = 1"
    using test_one_skipped [of 2] by auto
  have g: "el_round (highest_chain (l_cs l)) = 0" using l(4) by (simp add: el_round_def)
  have len: "qc_len l = 3" using l(7,8) by (simp add: qc_len_def)
  obtain qcs where "collect_qcs (l_cs l) 0 (rc_round (l_rc l) - 1) [] = Ok qcs"
    "proposal_valid True test_env test_keys 3 1 (new_proposal 101 qcs l) 0 = Ok True"
    using one_skipped_round_passes_check [OF l(1,2), unfolded g, OF _ l(6), of 101] l(3,5,8) len
    by (auto simp: test_certificate_ok)
  moreover have "rc_round (l_rc l) - 1 = 1" using l(3) by simp
  ultimately show ?thesis using l(2) by (intro exI [of _ l] exI [of _ qcs]) (simp only: add_0 simp_thms test_params_sel)
qed

subsection \<open>A round with an honest leader\<close>

lemma proposal_valid_total:
  "proposal_valid checked e sys len nf p r \<noteq> Panic \<Longrightarrow> \<exists>v. proposal_valid checked e sys len nf p r = Ok v"
  using proposal_valid_no_error [of checked e sys len nf p r] by (cases "proposal_valid checked e sys len nf p r") auto

text \<open>What a leader does with a batch of its store.\<close>

lemma handle_new_batch_accepts:
  assumes inv: "leto_inv N L (lp_gc P) l" and ch: "chooser_ok (lp_pick P)"
    and u: "rc_round (l_rc l) < 2 ^ 64" and lead: "leader (l_lc l) = l_my_id l" and b: "get_batch (lp_env P) (l_cs l) bh = Ok (Some b)"
    and p: "p = new_proposal bh (collected l) l"
    and raw: "sk_sign (crypt (lp_env P)) (l_secret l) (ser_and_hash (crypt (lp_env P)) (cd_proposal (lp_env P)) p) = Inr raw"
  shows "\<exists>l'. handle_new_batch P bh l = (Ok (), l') \<and>
    (l_peers l, Propose p \<lparr>sig_raw = raw, sig_id = l_my_id l\<rparr> b (l_my_id l)) \<in> set (l_out l') \<and>
    rc_round (l_rc l') = rc_round (l_rc l) + 1 \<and>
    l_cs l' = update_highest_chain (lp_env P) p \<lparr>sig_raw = raw, sig_id = l_my_id l\<rparr> b (l_cs l)"
proof -
  let ?a = "\<lparr>sig_raw = raw, sig_id = l_my_id l\<rparr>"
  let ?l1 = "broadcast P (Propose p ?a b (l_my_id l)) l"
  have pf: "p_round p = rc_round (l_rc l)" "parent_hash p = highest_hash (l_cs l)" "batch_hash (p_block p) = bh"
    by (simp_all add: p new_proposal_def parent_hash_def)
  obtain v where "proposal_valid (lp_checked P) (lp_env P) (l_system ?l1) (qc_len ?l1) (l_num_faults ?l1) p (el_round (highest_chain (l_cs l))) = Ok v"
    using proposal_valid_total [OF new_proposal_check [OF inv u]] unfolding p by blast
  then have acc: "handle_proposal P p ?a b ?l1 = on_correct_proposal P p ?a b ?l1"
    using lead pf(2) by (intro handle_proposal_accepts [where parent = "highest_chain (l_cs l)"])
      (simp_all add: find_parent_def signer_ok_def)
  have "leto_inv N L (lp_gc P) ?l1" using inv by simp
  from on_correct_proposal_ok [OF this ch, of p ?a b] pf(1) obtain l' where l':
    "on_correct_proposal P p ?a b ?l1 = (Ok (), l')" "rc_round (l_rc l') = Suc (rc_round (l_rc l))"
    "l_cs l' = update_highest_chain (lp_env P) p ?a b (l_cs l)"
    "l_out l' = l_out (relay_proposal P p ?a (batch_hash (p_block p)) ?l1)" by auto
  have "handle_new_batch P bh l = send_proposal P p l"
    unfolding handle_new_batch_def leto_collect_qcs [OF inv] p by simp
  also have "\<dots> = (Ok (), l')"
    using raw b pf(3) acc l'(1) by (simp add: send_proposal_def signature_new_def of_result_def)
  finally have "handle_new_batch P bh l = (Ok (), l')" .
  moreover have "(l_peers l, Propose p ?a b (l_my_id l)) \<in> set (l_out l')"
    using relay_proposal_out [of ?l1 P p ?a "batch_hash (p_block p)"] unfolding l'(4) by auto
  ultimately show ?thesis using l' by auto
qed

text \<open>C6. A leader and an idle replica in the same round, on the same highest element and under the same
  leader, the round within 64 bits: when the leader is handed a batch of its store it sends a proposal, and the replica that
  receives it accepts it; both then have the same highest element, with that batch, under the
  same hash, and are in the next round.\<close>

theorem honest_proposal_reaches_replica:
  assumes "leto_inv N L (lp_gc P) A" "leto_inv N' L' (lp_gc P) B" "chooser_ok (lp_pick P)"
    and "signing_ok (crypt (lp_env P)) pub" "\<And>h. \<exists>raw. sk_sign (crypt (lp_env P)) (l_secret A) h = Inr raw"
    and "leader (l_lc A) = l_my_id A" "leader (l_lc B) = l_my_id A" "l_my_id B \<noteq> l_my_id A"
    and "l_system B (l_my_id A) = Some (pub (l_secret A))" "rc_round (l_rc A) = rc_round (l_rc B)"
    and "highest_hash (l_cs A) = highest_hash (l_cs B)" "highest_chain (l_cs A) = highest_chain (l_cs B)"
    and "get_batch (lp_env P) (l_cs A) bh = Ok (Some b)" "\<not> rc_is_ready (l_rc B)"
    and "rc_round (l_rc A) < 2 ^ 64"
  shows "\<exists>A' p a B'. leto_step P (LBatch (Some bh)) A = (Continue, A') \<and>
    (l_peers A, Propose p a b (l_my_id A)) \<in> set (l_out A') \<and> batch_hash (p_block p) = bh \<and>
    leto_step P LRound (snd (leto_step P (LNet (Some (Propose p a b (l_my_id A)))) B)) = (Continue, B') \<and>
    highest_chain (l_cs A') = element_new p a b \<and> highest_chain (l_cs B') = element_new p a b \<and>
    highest_hash (l_cs A') = highest_hash (l_cs B') \<and>
    rc_round (l_rc A') = rc_round (l_rc A) + 1 \<and> rc_round (l_rc B') = rc_round (l_rc B) + 1"
proof -
  define p where "p = new_proposal bh (collected A) A"
  have pf: "p_round p = rc_round (l_rc A)" "parent_hash p = highest_hash (l_cs A)" "batch_hash (p_block p) = bh"
    by (simp_all add: p_def new_proposal_def parent_hash_def)
  obtain raw where raw: "sk_sign (crypt (lp_env P)) (l_secret A)
      (ser_and_hash (crypt (lp_env P)) (cd_proposal (lp_env P)) p) = Inr raw" using assms(5) by blast
  define a where "a = \<lparr>sig_raw = raw, sig_id = l_my_id A\<rparr>"
  obtain A' where A': "handle_new_batch P bh A = (Ok (), A')" "(l_peers A, Propose p a b (l_my_id A)) \<in> set (l_out A')"
    "rc_round (l_rc A') = rc_round (l_rc A) + 1" "l_cs A' = update_highest_chain (lp_env P) p a b (l_cs A)"
    using handle_new_batch_accepts [OF assms(1,3,15,6,13) p_def raw] unfolding a_def by blast
  have stepA: "leto_step P (LBatch (Some bh)) A = (Continue, A')"
    using assms(6) A'(1) by (simp add: leto_step_def leto_enabled_def logged_def)
  obtain B2 where B2: "leto_step P LRound (snd (leto_step P (LNet (Some (Propose p a b (l_my_id A)))) B)) =
      logged (handle_proposal P p a b B2)" "l_cs B2 = write_batch_ref (lp_env P) b (l_cs B)"
    "rc_round (l_rc B2) = rc_round (l_rc B)" "l_lc B2 = l_lc B" "l_my_id B2 = l_my_id B" "l_system B2 = l_system B"
    "leto_inv N' L' (lp_gc P) B2"
    using propose_then_round [of p B P a b "l_my_id A"] pf(1,2) assms(2,10,11,14) by auto
  obtain v where v: "proposal_valid (lp_checked P) (lp_env P) (l_system B2) (qc_len B2) (l_num_faults B2) p (el_round (highest_chain (l_cs A))) = Ok v"
    using proposal_valid_total [OF new_proposal_check [OF assms(1,15)]] unfolding p_def by blast
  have "signer_ok (lp_env P) p a B2"
    using assms(4,7,8,9) raw B2(4-6) by (auto simp: signer_ok_def a_def signing_ok_def)
  moreover have "find_parent P (parent_hash p) B2 = Ok (highest_chain (l_cs A))"
    using pf(2) B2(2) assms(11,12) by (simp add: find_parent_def highest_hash_def highest_chain_def)
  ultimately have acc: "handle_proposal P p a b B2 = on_correct_proposal P p a b B2"
    using v by (intro handle_proposal_accepts)
  have "p_round p = rc_round (l_rc B2)" using pf(1) B2(3) assms(10) by simp
  from on_correct_proposal_ok [OF B2(7) assms(3) this, of a b] obtain B' where B':
    "on_correct_proposal P p a b B2 = (Ok (), B')" "rc_round (l_rc B') = Suc (rc_round (l_rc B2))"
    "l_cs B' = update_highest_chain (lp_env P) p a b (l_cs B2)" by blast
  have "leto_step P LRound (snd (leto_step P (LNet (Some (Propose p a b (l_my_id A)))) B)) = (Continue, B')"
    unfolding B2(1) acc B'(1) by (simp add: logged_def)
  moreover have "highest_hash (l_cs A') = highest_hash (l_cs B')" "highest_chain (l_cs A') = element_new p a b"
    "highest_chain (l_cs B') = element_new p a b"
    unfolding A'(4) B'(3) by (simp_all add: highest_hash_def highest_chain_def)
  ultimately show ?thesis using stepA A'(2,3) pf(3) B'(2) B2(3)
    by (intro exI [of _ A'] exI [of _ p] exI [of _ a] exI [of _ B']) simp
qed

definition test_proposer :: "(test_db, nat, nat, unit) leto" where
  "test_proposer = (test_start 0)\<lparr>l_cs := write_batch_ref test_env [5] (l_cs (test_start 0))\<rparr>"

theorem honest_proposal_reaches_replica_witness:
  "\<exists>A' p a B'. leto_step test_params (LBatch (Some 101)) test_proposer = (Continue, A') \<and>
    leto_step test_params LRound (snd (leto_step test_params (LNet (Some (Propose p a [5] 0))) (test_start 1))) = (Continue, B') \<and>
    highest_chain (l_cs B') = element_new p a [5] \<and> highest_hash (l_cs A') = highest_hash (l_cs B')"
proof -
  have invA: "leto_inv {0, 1, 2, 3} 3 (lp_gc test_params) test_proposer"
    and invB: "leto_inv {0, 1, 2, 3} 3 (lp_gc test_params) (test_start 1)"
    using test_start_inv [of 0] test_start_inv [of 1] by (simp_all add: test_proposer_def leto_ok_def channels_open_def)
  have batch: "get_batch (lp_env test_params) (l_cs test_proposer) 101 = Ok (Some [5])"
    by (simp add: get_batch_def test_proposer_def test_env_def test_store_def db_read_def test_crypto_def
        write_batch_ref_def db_write_serialized_def)
  have hyps: "chooser_ok (lp_pick test_params)" "signing_ok (crypt (lp_env test_params)) (\<lambda>sk. sk)"
    "\<exists>raw. sk_sign (crypt (lp_env test_params)) (l_secret test_proposer) h = Inr raw"
    "leader (l_lc test_proposer) = l_my_id test_proposer" "leader (l_lc (test_start 1)) = l_my_id test_proposer"
    "l_my_id (test_start 1) \<noteq> l_my_id test_proposer"
    "l_system (test_start 1) (l_my_id test_proposer) = Some (l_secret test_proposer)"
    "rc_round (l_rc test_proposer) = rc_round (l_rc (test_start 1))"
    "highest_hash (l_cs test_proposer) = highest_hash (l_cs (test_start 1))"
    "highest_chain (l_cs test_proposer) = highest_chain (l_cs (test_start 1))"
    "\<not> rc_is_ready (l_rc (test_start 1))" "rc_round (l_rc test_proposer) < 2 ^ 64" "l_my_id test_proposer = 0" for h
    by (simp_all add: test_pick_ok test_signing_ok test_proposer_def test_start_sel leader_def test_leader_def
        test_keys_def highest_hash_def highest_chain_def rc_is_ready_pending)
  show ?thesis
    using honest_proposal_reaches_replica [OF invA invB hyps(1-3) hyps(4-10) batch hyps(11,12)]
    unfolding hyps(13) by blast
qed

end
