(* ===== verification/ZeusRun.thy ===== *)
theory ZeusRun
  imports ZeusAdmission LetoProperties
begin

section \<open>Runs of the Zeus replica\<close>

text \<open>
  The invariant of a replica and its preservation by every event, the messages on which it
  crashes, the return of every handler, and the chain of blocks handed to the committer.
\<close>

subsection \<open>Walks return\<close>

lemma known_db_parent:
  "known_db ze B db \<Longrightarrow> ranked ze B rank \<Longrightarrow> db_meta h db = Some m \<Longrightarrow> rank (dm_parent m) < rank h"
  unfolding known_db_def ranked_def meta_of_block_def by fastforce

lemma ancestor_walk_returns:
  assumes "known_db ze B db" "ranked ze B rank"
  shows "\<exists>r. ancestor_walk db pinned h ht par = Some r"
proof (induction "rank par" arbitrary: h ht par rule: less_induct)
  case less
  show ?case
  proof (cases "db_meta par db")
    case None
    then show ?thesis by (subst ancestor_walk.simps) simp
  next
    case (Some m)
    from less [OF known_db_parent [OF assms Some]] obtain r where
      "ancestor_walk db pinned (dm_hash m) (dm_height m) (dm_parent m) = Some r" by blast
    with Some show ?thesis by (subst ancestor_walk.simps) simp
  qed
qed

lemma conflicts_returns:
  assumes "known_db ze B db" "ranked ze B rank"
  shows "\<exists>c. conflicts_data_prefix h ht par lock db = Some c"
proof (induction lock)
  case (Cons e lock)
  obtain r att where e: "e = (r, att)" by (cases e)
  from ancestor_walk_returns [OF assms] obtain w where
    "ancestor_walk db (att_height att) h ht par = Some w" by blast
  with Cons e show ?case by (auto split: option.split)
qed auto

text \<open>The items of a commit walk: consecutive children from the cursor, and the cursor after them.\<close>

definition item_hash :: "('s, 'tx, 'b) zenv \<Rightarrow> 'tx commit_item \<Rightarrow> digest" where
  "item_hash ze it = (case it of Resident b \<Rightarrow> data_block_hash ze b | Spilled h \<Rightarrow> h)"

fun linked_from :: "('s, 'tx, 'b) zenv \<Rightarrow> 'tx data_block set \<Rightarrow> digest \<Rightarrow> digest list \<Rightarrow> bool" where
  "linked_from ze B p [] = True"
| "linked_from ze B p (h # hs) \<longleftrightarrow>
     (\<exists>b \<in> B. data_block_hash ze b = h \<and> b_parent b = p) \<and> linked_from ze B h hs"

lemma linked_from_append [simp]:
  "linked_from ze B p (xs @ ys) \<longleftrightarrow> linked_from ze B p xs \<and> linked_from ze B (last (p # xs)) ys"
  by (induction xs arbitrary: p) auto

lemma linked_from_above:
  "linked_from ze B p hs \<Longrightarrow> ranked ze B rank \<Longrightarrow> distinct hs \<and> (\<forall>h \<in> set hs. rank p < rank h)"
proof (induction hs arbitrary: p)
  case (Cons h hs)
  then have "distinct hs" "\<forall>h' \<in> set hs. rank h < rank h'" "rank p < rank h"
    by (auto simp: ranked_def)
  then show ?case by fastforce
qed simp

lemma known_cache_item:
  assumes "known ze B z"
  shows "item_hash ze (case db_cache_get h (z_db z) of Some b \<Rightarrow> Resident b | None \<Rightarrow> Spilled h) = h"
  using assms
  by (auto simp: item_hash_def known_def known_db_def db_cache_get_def split: option.splits if_splits)

lemma commit_walk_ok:
  assumes "known ze B z" "ranked ze B rank"
  shows "\<exists>items ht lh. commit_prefix_walk (z_chain z, z_db z) nh cur acc ht0 lh0 = Some (acc @ items, ht, lh) \<and>
    linked_from ze B cur (map (item_hash ze) items) \<and>
    lh = (if items = [] then lh0 else Some (last (map (item_hash ze) items)))"
proof (induction "card {p \<in> dom (dc_child_of (z_chain z)). rank cur \<le> rank p}" arbitrary: cur acc ht0 lh0
    rule: less_induct)
  case less
  show ?case
  proof (cases "dc_child_of (z_chain z) cur")
    case None
    then show ?thesis by (subst commit_prefix_walk.simps) auto
  next
    case (Some h)
    have b: "\<exists>b \<in> B. data_block_hash ze b = h \<and> b_parent b = cur" and "db_contains h (z_db z)"
      using assms(1) Some unfolding known_def by blast+
    then obtain m where m: "db_meta h (z_db z) = Some m" by (auto simp: db_contains_def db_meta_def)
    define it where "it = (case db_cache_get h (z_db z) of Some b \<Rightarrow> Resident b | None \<Rightarrow> Spilled h)"
    have it: "item_hash ze it = h" unfolding it_def by (rule known_cache_item [OF assms(1)])
    show ?thesis
    proof (cases "nh \<le> dm_height m")
      case True
      with Some m have "commit_prefix_walk (z_chain z, z_db z) nh cur acc ht0 lh0 =
          Some (acc @ [it], dm_height m, Some h)"
        by (subst commit_prefix_walk.simps) (simp add: it_def Let_def)
      with it b show ?thesis by (intro exI [of _ "[it]"]) auto
    next
      case False
      with Some m have eq: "commit_prefix_walk (z_chain z, z_db z) nh cur acc ht0 lh0 =
          commit_prefix_walk (z_chain z, z_db z) nh h (acc @ [it]) (dm_height m) (Some h)"
        by (subst commit_prefix_walk.simps) (simp add: it_def Let_def)
      have up: "rank cur < rank h" by (rule known_child_rank [OF assms Some])
      have "cur \<in> {p \<in> dom (dc_child_of (z_chain z)). rank cur \<le> rank p}" using Some by auto
      moreover have "{p \<in> dom (dc_child_of (z_chain z)). rank h \<le> rank p} \<subseteq>
          {p \<in> dom (dc_child_of (z_chain z)). rank cur \<le> rank p} - {cur}" using up by auto
      moreover have "finite (dom (dc_child_of (z_chain z)))" using assms(1) by (simp add: known_def)
      ultimately have "card {p \<in> dom (dc_child_of (z_chain z)). rank h \<le> rank p}
          < card {p \<in> dom (dc_child_of (z_chain z)). rank cur \<le> rank p}"
        by (intro psubset_card_mono) auto
      from less [OF this, of "acc @ [it]" "dm_height m" "Some h"] obtain items ht lh where
        "commit_prefix_walk (z_chain z, z_db z) nh h (acc @ [it]) (dm_height m) (Some h) =
           Some ((acc @ [it]) @ items, ht, lh)"
        "linked_from ze B h (map (item_hash ze) items)"
        "lh = (if items = [] then Some h else Some (last (map (item_hash ze) items)))" by blast
      with eq it b show ?thesis by (intro exI [of _ "it # items"]) auto
    qed
  qed
qed

subsection \<open>The invariant\<close>

definition zinv ::
  "('s, 'tx, 'b, 'c, 'g) zeus_params \<Rightarrow> node_id set \<Rightarrow> nat \<Rightarrow> 'tx data_block set
    \<Rightarrow> ('s, 'tx, 'b, 'c, 'g) zeus \<Rightarrow> bool" where
  "zinv P N L B z \<longleftrightarrow> zeus_leader_ok N L z \<and> zeus_cert_ok P z \<and> msgs_ok z \<and> known (zp_env P) B z \<and>
     length (z_lock z) \<le> 1"

definition quiet_view where
  "quiet_view z = (static_view z, z_lock z, ct_items (z_ct z), z_last_committed z)"

text \<open>What every handler but the one of committed attestations does: it keeps the invariant, the
  lock, the cursor and what was handed to the committer.\<close>

definition keeps ::
  "('s, 'tx, 'b, 'c, 'g) zeus_params \<Rightarrow> node_id set \<Rightarrow> nat \<Rightarrow> 'tx data_block set
    \<Rightarrow> ('s, 'tx, 'b, 'c, 'g) zeus \<Rightarrow> ('s, 'tx, 'b, 'c, 'g) zeus \<Rightarrow> bool" where
  "keeps P N L B z z' \<longleftrightarrow> (zinv P N L B z \<longrightarrow> zinv P N L B z') \<and> quiet_view z' = quiet_view z"

lemma keeps_refl [simp]: "keeps P N L B z z"
  by (simp add: keeps_def)

lemma keeps_trans [trans]: "keeps P N L B z z' \<Longrightarrow> keeps P N L B z' z'' \<Longrightarrow> keeps P N L B z z''"
  by (simp add: keeps_def)

lemma sig_step_keeps:
  assumes "sig_step N L z z'"
  shows "keeps P N L B z z'"
proof -
  have d: "data_view z' = data_view z" using assms by (simp add: sig_step_def)
  have m: "msgs_ok z \<Longrightarrow> msgs_ok z'" using assms unfolding sig_step_def msgs_ok_def own_msg_def by blast
  have k: "known (zp_env P) B z' = known (zp_env P) B z" using data_viewD(3,4) [OF d] by (simp add: known_def)
  have c: "zeus_cert_ok P z' = zeus_cert_ok P z" by (rule zeus_cert_ok_view [OF data_viewD(1) [OF d]])
  have "zinv P N L B z \<Longrightarrow> zinv P N L B z'"
    using assms m k c ctl_viewD(9) [OF data_viewD(1) [OF d]] by (simp add: zinv_def sig_step_def)
  then show ?thesis
    using ctl_viewD(9,10,12,13) [OF data_viewD(1) [OF d]] by (simp add: keeps_def quiet_view_def)
qed

lemma ctl_ok_keeps:
  assumes "zeus_cert_ok P z \<Longrightarrow> ctl_ok P z x" "zinv P N L B z"
  shows "keeps P N L B z (snd x)"
proof -
  have st: "ctl_step z (snd x)" and c: "zeus_cert_ok P (snd x)"
    using assms by (auto simp: ctl_ok_def zinv_def)
  then have f: "sig_view (snd x) = sig_view z" "static_view (snd x) = static_view z"
    "z_loopback (snd x) = z_loopback z" "z_db (snd x) = z_db z" "z_lock (snd x) = z_lock z"
    "z_ct (snd x) = z_ct z" "z_last_committed (snd x) = z_last_committed z"
    "dc_child_of (z_chain (snd x)) = dc_child_of (z_chain z)"
    by (simp_all add: ctl_step_def ctl_frame_def)
  have sh: "set (entry_list (z_pend_att (snd x)) k) \<subseteq> set (entry_list (z_pend_att z) k)"
    "set (entry_list (dc_pending (z_chain (snd x))) k) \<subseteq> set (entry_list (dc_pending (z_chain z)) k)"
    "dom (dc_pending (z_chain (snd x))) \<subseteq> dom (dc_pending (z_chain z))" for k
    using st by (simp_all add: ctl_step_def shrinks_def)
  have "sig_round m \<noteq> None" if "m \<in> set (entry_list (z_pend_att (snd x)) k)" for m k
    using subsetD [OF sh(1) that] assms(2) unfolding zinv_def msgs_ok_def by blast
  then have "msgs_ok (snd x)" using assms(2) unfolding zinv_def msgs_ok_def f(3) by blast
  moreover have "b \<in> B \<and> b_parent b = k" if "b \<in> set (entry_list (dc_pending (z_chain (snd x))) k)" for b k
    using subsetD [OF sh(2) that] assms(2) unfolding zinv_def known_def by blast
  then have "known (zp_env P) B (snd x)"
    using assms(2) finite_subset [OF sh(3)] unfolding zinv_def known_def f(4,8) by blast
  ultimately have "zinv P N L B (snd x)"
    using assms(2) c f zeus_leader_ok_sig [OF f(1)] by (auto simp: zinv_def)
  then show ?thesis using f by (simp add: keeps_def quiet_view_def)
qed

lemma adm_keeps:
  assumes "adm_frame z z'" "known (zp_env P) B z'"
  shows "keeps P N L B z z'"
  using assms zeus_leader_ok_sig [of z' z N L] zeus_cert_ok_view [of z' z P] ctl_viewD(9,10,12,13) [of z' z]
  by (auto simp: adm_frame_def keeps_def zinv_def quiet_view_def)

lemma admit_keeps:
  assumes "admit_run P (AdmitBlock b) z = Some x" "zinv P N L B z" "b \<in> B"
  shows "keeps P N L B z (snd x)" "fst x \<noteq> Panic"
proof -
  have "adm_frame z (snd x) \<and> fst x \<noteq> Panic"
    by (rule adm_frame.admit [OF assms(1)])
       (use assms(2) in \<open>simp_all add: adm_frame_def zinv_def adm_frame.job_ok_def\<close>)
  moreover have "known (zp_env P) B (snd x) \<and> fst x \<noteq> Panic"
    by (rule adm_known.admit [OF assms(1)])
       (use assms(2,3) in \<open>simp_all add: zinv_def adm_known.job_ok_def\<close>)
  ultimately show "keeps P N L B z (snd x)" "fst x \<noteq> Panic" by (auto intro: adm_keeps)
qed

subsection \<open>The remaining handlers\<close>

lemma on_data_timer_expired_ok:
  assumes "zeus_cert_ok P z"
  shows "ctl_ok P z (on_data_timer_expired P z)" "fst (on_data_timer_expired P z) \<noteq> Panic"
proof -
  have c: "zeus_cert_ok P (z\<lparr>z_dtimer := d\<rparr>)" for d
    using zeus_cert_ok_view [of "z\<lparr>z_dtimer := d\<rparr>" z P] assms data_viewD(1) [OF upd_view(17)] by blast
  have s: "ctl_step z (z\<lparr>z_dtimer := d\<rparr>)" for d by (rule ctl_step_same) simp_all
  have "ctl_ok P z (on_data_timer_expired P z) \<and> fst (on_data_timer_expired P z) \<noteq> Panic"
  proof (cases "z_dtimer z")
    case None
    with assms show ?thesis by (simp add: on_data_timer_expired_def ctl_ok_def)
  next
    case (Some k)
    show ?thesis
    proof (cases k)
      case RleaderWaitingFresh
      with Some c s show ?thesis by (simp add: on_data_timer_expired_def ctl_ok_def arm_data_timer_def)
    next
      case TimerDataRoundEntry
      let ?z = "z\<lparr>z_dtimer := None\<rparr>"
      have "\<exists>d. blame_signed_bytes (zp_env P) (z_epoch ?z) Silence (SilenceP (latest_height ?z)) = Ok d"
        by (simp add: blame_signed_bytes_def)
      then obtain d where d: "blame_signed_bytes (zp_env P) (z_epoch ?z) Silence (SilenceP (latest_height ?z)) = Ok d"
        by blast
      show ?thesis
      proof (cases "sk_sign (crypt (z_env (zp_env P))) (z_secret ?z) d")
        case (Inl e)
        with Some TimerDataRoundEntry d c s show ?thesis by (simp add: on_data_timer_expired_def ctl_ok_def)
      next
        case (Inr raw)
        let ?bl = "\<lparr>eb_epoch = z_epoch ?z, eb_reason = Silence, eb_payload = SilenceP (latest_height ?z),
          eb_signer = z_id ?z, eb_raw = raw\<rparr>"
        have eq: "on_data_timer_expired P z = cast_blame P ?bl ?z"
          using Some TimerDataRoundEntry d Inr by (simp add: on_data_timer_expired_def Let_def)
        have "\<not> mismatched ?bl" by (simp add: mismatched_def)
        note cb = cast_blame_ok [OF c this]
        show ?thesis unfolding eq cb(2) using ctl_ok_after [OF s cb(1)] by simp
      qed
    qed
  qed
  then show "ctl_ok P z (on_data_timer_expired P z)" "fst (on_data_timer_expired P z) \<noteq> Panic" by auto
qed

lemma make_equivocation_blame_cases:
  "make_equivocation_blame P e h a b z \<noteq> Panic"
  "make_equivocation_blame P e h a b z = Ok bl \<Longrightarrow> \<not> mismatched bl"
  by (auto simp: make_equivocation_blame_def Let_def bind_o_def blame_signed_bytes_def mismatched_def
      split: outcome.splits)

lemma on_equivocation_ok:
  assumes "zeus_cert_ok P z"
  shows "ctl_ok P z (on_equivocation P h b z)" "fst (on_equivocation P h b z) \<noteq> Panic"
proof -
  have "on_equivocation P h b z = (Ok (), z) \<or> (\<exists>e. on_equivocation P h b z = (Err e, z)) \<or>
    (\<exists>a bl. make_equivocation_blame P (b_epoch b) (b_height b) a b z = Ok bl \<and>
      on_equivocation P h b z = cast_blame P bl z)"
    using db_get_no_panic [of "zp_env P" h "z_db z"] make_equivocation_blame_cases(1) [of P]
    by (auto simp: on_equivocation_def split: outcome.split option.split)
  then have "ctl_ok P z (on_equivocation P h b z) \<and> fst (on_equivocation P h b z) \<noteq> Panic"
    using cast_blame_ok [OF assms] make_equivocation_blame_cases(2) assms by (fastforce simp: ctl_ok_def)
  then show "ctl_ok P z (on_equivocation P h b z)" "fst (on_equivocation P h b z) \<noteq> Panic" by auto
qed

text \<open>A change of the fields that neither the invariant nor the committer looks at.\<close>

lemma keeps_same:
  assumes "data_view z' = data_view z" "sig_view z' = sig_view z" "z_pend_att z' = z_pend_att z"
    and "set (z_loopback z') \<subseteq> set (z_loopback z) \<union> {m. sig_round m \<noteq> None}"
  shows "keeps P N L B z z'"
  by (rule sig_step_keeps [OF sig_step_same [OF assms]])

lemma process_wakeup_eq:
  "process_wakeup P z =
     (Ok (), if z_wakeup z then snd (handle_new_sig_round P (z\<lparr>z_wakeup := False\<rparr>)) else z)"
  using handle_new_sig_round_no_panic [of P "z\<lparr>z_wakeup := False\<rparr>"]
  by (cases "handle_new_sig_round P (z\<lparr>z_wakeup := False\<rparr>)";
      cases "fst (handle_new_sig_round P (z\<lparr>z_wakeup := False\<rparr>))") (auto simp: process_wakeup_def)

lemma process_wakeup_result:
  "fst (process_wakeup P z) = Ok ()" "data_view (snd (process_wakeup P z)) = data_view z"
  by (simp_all add: process_wakeup_eq)

lemma process_wakeup_keeps: "keeps P N L B z (snd (process_wakeup P z))" "fst (process_wakeup P z) \<noteq> Panic"
proof -
  let ?x = "handle_new_sig_round P (z\<lparr>z_wakeup := False\<rparr>)"
  have "set (z_loopback (snd ?x)) \<subseteq> set (z_loopback z) \<union> {m. sig_round m \<noteq> None}"
    using handle_new_sig_round_loopback [of P "z\<lparr>z_wakeup := False\<rparr>"] by simp
  then have "keeps P N L B z (snd ?x)" by (intro keeps_same) simp_all
  then show "keeps P N L B z (snd (process_wakeup P z))" "fst (process_wakeup P z) \<noteq> Panic"
    by (simp_all add: process_wakeup_eq)
qed

lemma admit_and_wake_keeps:
  assumes "admit_and_wake P b z = Some x" "zinv P N L B z" "b \<in> B"
  shows "keeps P N L B z (snd x)" "fst x \<noteq> Panic"
proof -
  from assms(1) obtain r z1 where a: "admit_run P (AdmitBlock b) z = Some (r, z1)"
    by (auto simp: admit_and_wake_def admit_data_block_def bind_z_def Option.bind_eq_Some_conv)
  note k = admit_keeps [OF a assms(2,3)]
  have "x = process_wakeup P z1 \<or> (\<exists>e. x = (Err e, z1))"
    using assms(1) a k(2) by (cases r) (auto simp: admit_and_wake_def admit_data_block_def bind_z_def ret_def)
  then show "keeps P N L B z (snd x)" "fst x \<noteq> Panic"
    using k(1) keeps_trans [OF k(1) process_wakeup_keeps(1)] process_wakeup_keeps(2) by auto
qed

lemma admit_and_wake_returns:
  assumes "known (zp_env P) B z" "ranked (zp_env P) B rank" "b \<in> B"
  shows "admit_and_wake P b z \<noteq> None"
proof -
  from admit_returns [OF assms] obtain r z1 where "admit_run P (AdmitBlock b) z = Some (r, z1)" by auto
  then show ?thesis
    by (cases r) (simp_all add: admit_and_wake_def admit_data_block_def bind_z_def ret_def)
qed

text \<open>The admission of a block on top of the head, with nothing parked under it.\<close>

lemma admit_top:
  assumes "b_parent b = zhead z" "dc_pending (z_chain z) (data_block_hash (zp_env P) b) = None"
  shows "\<exists>z'. admit_and_wake P b z = Some (Ok (), z') \<and> ctl_view z' = ctl_view z \<and>
    z_db z' = db_insert (zp_env P) b (z_db z) \<and>
    dc_child_of (z_chain z') = (dc_child_of (z_chain z))(zhead z \<mapsto> data_block_hash (zp_env P) b) \<and>
    dc_head_hash (z_chain z') = data_block_hash (zp_env P) b \<and>
    dc_pending (z_chain z') = dc_pending (z_chain z)"
proof -
  let ?h = "data_block_hash (zp_env P) b"
  let ?z = "insert_and_advance P b ?h (zhead z) z"
  have z: "z_chain ?z = (z_chain z)\<lparr>dc_child_of := (dc_child_of (z_chain z))(zhead z \<mapsto> ?h), dc_head_hash := ?h,
      dc_head_height := b_height b\<rparr>" "z_db ?z = db_insert (zp_env P) b (z_db z)" "ctl_view ?z = ctl_view z"
    by (simp_all add: insert_and_advance_eq)
  obtain ps z1 where t: "take_pending ?z = (ps, z1)" by fastforce
  have ps: "ps = []" using take_pending_view(7) [of ?z] t z(1) assms(2) by (simp add: entry_list_def)
  have z1: "z_chain z1 = z_chain ?z" "z_db z1 = z_db ?z" "ctl_view z1 = ctl_view ?z"
    using take_pending_view(1,3,4) [of ?z] t z(1) assms(2) by (simp_all add: fun_upd_idem)
  have "admit_run P DrainPending ?z = Some (Ok (), z1)"
    using t ps by (subst admit_run.simps) simp
  then have "admit_run P (AdmitBlock b) z = Some (Ok (), drain_head z1)"
    using assms(1) by (subst admit_run.simps) (simp add: bind_z_def)
  then have "admit_and_wake P b z = Some (process_wakeup P (drain_head z1))"
    by (simp add: admit_and_wake_def admit_data_block_def bind_z_def ret_def)
  moreover have "data_view (snd (process_wakeup P (drain_head z1))) = data_view z1"
    by (simp add: process_wakeup_result)
  ultimately show ?thesis
    using process_wakeup_result(1) [of P "drain_head z1"] data_viewD [of "snd (process_wakeup P (drain_head z1))" z1] z1 z
    by (intro exI [of _ "snd (process_wakeup P (drain_head z1))"]) (simp add: prod_eq_iff)
qed

lemma on_eleader_propose_view:
  defines "v \<equiv> \<lambda>z. (ctl_view z, sig_view z, z_chain z, z_db z, z_pend_att z)"
  shows "v (snd (on_eleader_propose P batch z)) = v z" "fst (on_eleader_propose P batch z) \<noteq> Panic"
    "\<forall>m \<in> set (z_loopback (snd (on_eleader_propose P batch z))). m \<in> set (z_loopback z) \<or> (\<exists>b s. m = DataPropose b s)"
proof -
  obtain par n where np: "next_block_position P z = (par, n)" by fastforce
  have same: "v z2 = v z1" if "data_view z2 = data_view z1" "sig_view z2 = sig_view z1" "z_pend_att z2 = z_pend_att z1"
    for z1 z2 :: "('a, 'b, 'c, 'd, 'e) zeus"
    using that data_viewD(1,3,4) [OF that(1)] by (simp add: v_def)
  have upd: "v (z1\<lparr>z_proposed := ht, z_last_proposed := lp\<rparr>) = v z1"
    for z1 :: "('a, 'b, 'c, 'd, 'e) zeus" and ht lp by (simp add: v_def view_defs)
  have steps: "v (mark_overflow k z1) = v z1" "v (prime_batcher l z1) = v z1" "v (data_broadcast m z1) = v z1"
    "v (snd (z_send_loopback m z1)) = v z1" for k l m and z1 :: "('a, 'b, 'c, 'd, 'e) zeus"
    by (rule same; simp)+
  show "v (snd (on_eleader_propose P batch z)) = v z" "fst (on_eleader_propose P batch z) \<noteq> Panic"
    by (simp_all add: on_eleader_propose_def np Let_def steps upd split: sum.split)
  have lb: "m \<in> set (z_loopback (snd (z_send_loopback m1 z1))) \<Longrightarrow> m = m1 \<or> m \<in> set (z_loopback z1)"
    for m m1 and z1 :: "('a, 'b, 'c, 'd, 'e) zeus"
    using z_send_loopback_view(4) [of m1 z1] by blast
  show "\<forall>m \<in> set (z_loopback (snd (on_eleader_propose P batch z))). m \<in> set (z_loopback z) \<or> (\<exists>b s. m = DataPropose b s)"
    by (auto simp: on_eleader_propose_def np Let_def dest!: lb split: sum.splits if_splits)
qed

lemma on_eleader_propose_keeps:
  "keeps P N L B z (snd (on_eleader_propose P batch z))" "fst (on_eleader_propose P batch z) \<noteq> Panic"
proof -
  let ?x = "on_eleader_propose P batch z"
  have v: "ctl_view (snd ?x) = ctl_view z" "sig_view (snd ?x) = sig_view z" "z_chain (snd ?x) = z_chain z"
    "z_db (snd ?x) = z_db z" "z_pend_att (snd ?x) = z_pend_att z"
    using on_eleader_propose_view(1) [of P batch z] by simp_all
  have m: "msgs_ok z \<Longrightarrow> msgs_ok (snd ?x)"
    using on_eleader_propose_view(3) [of P batch z] v(5) unfolding msgs_ok_def own_msg_def by metis
  show "keeps P N L B z (snd ?x)"
    using v m zeus_leader_ok_sig [of "snd ?x" z N L] zeus_cert_ok_view [of "snd ?x" z P]
      ctl_viewD(9,10,12,13) [of "snd ?x" z]
    by (simp add: keeps_def zinv_def quiet_view_def known_def)
qed (rule on_eleader_propose_view(2))

subsection \<open>Messages\<close>

definition msg_blocks :: "'tx zeus_msg \<Rightarrow> 'tx data_block set" where
  "msg_blocks m = (case m of DataPropose b _ \<Rightarrow> {b} | DataResponse b \<Rightarrow> {b} | _ \<Rightarrow> {})"

text \<open>The correctly signed blocks of a message are in \<open>B\<close>.\<close>

definition blocks_in ::
  "('s, 'tx, 'b, 'c, 'g) zeus_params \<Rightarrow> 'tx data_block set \<Rightarrow> ('s, 'tx, 'b, 'c, 'g) zeus \<Rightarrow> 'tx zeus_msg \<Rightarrow> bool" where
  "blocks_in P B z m \<longleftrightarrow> (\<forall>b \<in> msg_blocks m. verify_data_block_sig P b z \<longrightarrow> b \<in> B)"

definition poison :: "('s, 'tx, 'b, 'c, 'g) zeus_params \<Rightarrow> ('s, 'tx, 'b, 'c, 'g) zeus \<Rightarrow> 'tx zeus_msg \<Rightarrow> bool" where
  "poison P z m = (case m of
     EleaderBlame bl \<Rightarrow> z_system z (eb_signer bl) \<noteq> None \<and> mismatched bl
   | EleaderChangeQC qc \<Rightarrow> z_qcs z (ec_epoch qc) = None \<and>
       poisoned_blames (zp_env P) (ec_epoch qc) (z_system z) (eleader (ec_epoch qc) (z_nodes z)) (ec_blames qc)
   | _ \<Rightarrow> False)"

lemma own_msg_not_poison: "own_msg m \<Longrightarrow> \<not> poison P z m"
  by (auto simp: own_msg_def poison_def sig_round_def split: zeus_msg.splits)

definition result_ok ::
  "('s, 'tx, 'b, 'c, 'g) zeus_params \<Rightarrow> node_id set \<Rightarrow> nat \<Rightarrow> 'tx data_block set \<Rightarrow> ('s, 'tx, 'b, 'c, 'g) zeus
    \<Rightarrow> bool \<Rightarrow> (unit outcome \<times> ('s, 'tx, 'b, 'c, 'g) zeus) option \<Rightarrow> bool" where
  "result_ok P N L B z p r \<longleftrightarrow> (\<forall>x. r = Some x \<longrightarrow> keeps P N L B z (snd x) \<and> (fst x = Panic \<longleftrightarrow> p))"

lemma result_okI:
  "keeps P N L B z (snd x) \<Longrightarrow> (fst x = Panic \<longleftrightarrow> p) \<Longrightarrow> result_ok P N L B z p (Some x)"
  by (simp add: result_ok_def)

lemma on_data_propose_result:
  assumes "zinv P N L B z" "verify_data_block_sig P b z \<longrightarrow> b \<in> B"
  shows "result_ok P N L B z False (on_data_propose P b s z)"
proof -
  have c: "zeus_cert_ok P z" using assms(1) by (simp add: zinv_def)
  have e: "result_ok P N L B z False (Some (on_equivocation P h b z))" for h
    using ctl_ok_keeps [OF on_equivocation_ok(1) assms(1)] on_equivocation_ok(2) [OF c]
    by (intro result_okI) auto
  have a: "result_ok P N L B z False (admit_and_wake P b z)" if "b \<in> B"
    using admit_and_wake_keeps [OF _ assms(1) that] by (auto simp: result_ok_def)
  have i: "result_ok P N L B z False (Some (Ok (), z))" "result_ok P N L B z False None"
    by (simp_all add: result_ok_def)
  from assms(2) e a i show ?thesis
    by (auto simp: on_data_propose_def Let_def split: option.split bool.split)
qed

lemma on_data_response_result:
  assumes "zinv P N L B z" "verify_data_block_sig P b z \<longrightarrow> b \<in> B"
  shows "result_ok P N L B z False (on_data_response P b z)"
proof -
  have a: "result_ok P N L B z False (admit_and_wake P b z)" if "b \<in> B"
    using admit_and_wake_keeps [OF _ assms(1) that] by (auto simp: result_ok_def)
  have i: "result_ok P N L B z False (Some (Ok (), z))" by (simp add: result_ok_def)
  from assms(2) a i show ?thesis by (simp add: on_data_response_def Let_def)
qed

lemma on_data_request_result: "result_ok P N L B z False (Some (on_data_request P h s z))"
proof -
  have "keeps P N L B z (z_send P s m z)" for m by (intro keeps_same) simp_all
  then show ?thesis
    using db_get_no_panic [of "zp_env P" h "z_db z"]
    by (auto simp: on_data_request_def result_ok_def split: outcome.splits option.split)
qed

lemma dispatch_result:
  assumes "zinv P N L B z" "blocks_in P B z m"
  shows "result_ok P N L B z (poison P z m) (dispatch P m z)"
proof -
  have c: "zeus_cert_ok P z" using assms(1) by (simp add: zinv_def)
  have enq: "result_ok P N L B z False (Some (Ok (), z_enqueue m r z))" for r
  proof -
    have "data_view (z_enqueue m r z) = data_view z" "z_lc (z_enqueue m r z) = z_lc z"
      "z_pend_att (z_enqueue m r z) = z_pend_att z" "z_loopback (z_enqueue m r z) = z_loopback z"
      by (simp_all add: z_enqueue_def)
    then have "sig_step N L z (z_enqueue m r z)" by (simp add: sig_step_def zeus_leader_ok_def)
    then show ?thesis by (simp add: result_ok_def sig_step_keeps)
  qed
  have skip: "result_ok P N L B z False (Some (Ok (), z))" by (simp add: result_ok_def)
  have bl: "result_ok P N L B z (z_system z (eb_signer bl) \<noteq> None \<and> mismatched bl)
      (Some (on_eleader_blame P bl z))" for bl
    using ctl_ok_keeps [OF on_eleader_blame_ok(1) assms(1)] on_eleader_blame_ok(2) [OF c]
    by (intro result_okI) auto
  have qc: "result_ok P N L B z (z_qcs z (ec_epoch qc) = None \<and> poisoned_blames (zp_env P) (ec_epoch qc)
      (z_system z) (eleader (ec_epoch qc) (z_nodes z)) (ec_blames qc)) (Some (on_eleader_change_qc P qc z))" for qc
    using ctl_ok_keeps [OF on_eleader_change_qc_ok(1) assms(1)] on_eleader_change_qc_ok(2) [OF c]
    by (intro result_okI) auto
  show ?thesis
    using assms enq skip bl qc on_data_propose_result [OF assms(1)] on_data_response_result [OF assms(1)]
      on_data_request_result
    by (cases m) (simp_all add: dispatch_def poison_def blocks_in_def msg_blocks_def)
qed

text \<open>A message is handled to the end when the hash links of the blocks are ranked.\<close>

lemma dispatch_returns:
  assumes "known (zp_env P) B z" "ranked (zp_env P) B rank" "blocks_in P B z m"
  shows "dispatch P m z \<noteq> None"
proof -
  have db: "known_db (zp_env P) B (z_db z)" using assms(1) by (simp add: known_def)
  define c where "c = (\<lambda>h ht par. the (conflicts_data_prefix h ht par (z_lock z) (z_db z)))"
  have c: "conflicts_data_prefix h ht par (z_lock z) (z_db z) = Some (c h ht par)" for h ht par
    using conflicts_returns [OF db assms(2), of h ht par "z_lock z"] by (auto simp: c_def)
  show ?thesis
    using assms admit_and_wake_returns [OF assms(1,2)]
    by (auto simp: dispatch_def on_data_propose_def on_data_response_def Let_def c blocks_in_def msg_blocks_def
        split: zeus_msg.splits bool.splits)
qed

lemma handle_sig_ordered_returns:
  assumes "known (zp_env P) B z" "ranked (zp_env P) B rank"
  shows "handle_sig_ordered P m z \<noteq> None"
proof -
  have db: "known_db (zp_env P) B (z_db z)" using assms(1) by (simp add: known_def)
  define c where "c = (\<lambda>h ht par. the (conflicts_data_prefix h ht par (z_lock z) (z_db z)))"
  have c: "conflicts_data_prefix h ht par (z_lock z) (z_db z) = Some (c h ht par)" for h ht par
    using conflicts_returns [OF db assms(2), of h ht par "z_lock z"] by (auto simp: c_def)
  have "(attestation_valid P att pm z = None) = False" for att pm
    by (auto simp: attestation_valid_def Let_def c split: option.splits bool.splits)
  then show ?thesis
    by (auto simp del: not_None_eq simp: handle_sig_ordered_def handle_sig_proposal_def
        split: zeus_msg.splits outcome.splits option.splits attestation_validity.splits)
qed

subsection \<open>One turn of the loop\<close>

definition incoming :: "'tx zeus_event \<Rightarrow> ('s, 'tx, 'b, 'c, 'g) zeus \<Rightarrow> 'tx zeus_msg option" where
  "incoming ev z = (case ev of
     ZNet m \<Rightarrow> m
   | ZLoopback \<Rightarrow> (case z_loopback z of [] \<Rightarrow> None | m # _ \<Rightarrow> Some m)
   | _ \<Rightarrow> None)"

definition event_ok ::
  "('s, 'tx, 'b, 'c, 'g) zeus_params \<Rightarrow> 'tx data_block set \<Rightarrow> ('s, 'tx, 'b, 'c, 'g) zeus \<Rightarrow> 'tx zeus_event \<Rightarrow> bool" where
  "event_ok P B z ev \<longleftrightarrow> (\<forall>m. incoming ev z = Some m \<longrightarrow> blocks_in P B z m)"

lemma logged_result:
  assumes "result_ok P N L B z p r" "z_logged z r = (res, z')" "p \<Longrightarrow> r \<noteq> None"
  shows "keeps P N L B z z'" "res = ZCrashed \<longleftrightarrow> p"
proof -
  have "keeps P N L B z z' \<and> (res = ZCrashed \<longleftrightarrow> p)"
  proof (cases r)
    case None
    with assms show ?thesis by (auto simp: z_logged_def)
  next
    case (Some x)
    with assms show ?thesis
      by (cases x; cases "fst x") (auto simp: result_ok_def z_logged_def)
  qed
  then show "keeps P N L B z z'" "res = ZCrashed \<longleftrightarrow> p" by auto
qed

lemma poison_returns: "poison P z m \<Longrightarrow> dispatch P m z \<noteq> None"
  by (auto simp: poison_def dispatch_def split: zeus_msg.splits)

lemma zeus_turn_keeps:
  assumes "zinv P N L B z" "chooser_ok (zp_pick P)" "zeus_turn P ev z = (res, z')" "event_ok P B z ev"
    and "\<And>c. ev \<noteq> ZCommitted (Some c)"
  shows "keeps P N L B z z'" and "res = ZCrashed \<longleftrightarrow> (\<exists>m. ev = ZNet (Some m) \<and> poison P z m)"
proof -
  have "keeps P N L B z z' \<and> (res = ZCrashed \<longleftrightarrow> (\<exists>m. ev = ZNet (Some m) \<and> poison P z m))"
  proof (cases "zeus_enabled ev z")
    case False
    with assms(3) show ?thesis by (auto simp: zeus_turn_def zeus_enabled_def)
  next
    case on: True
    have lead: "zeus_leader_ok N L z" and c: "zeus_cert_ok P z" using assms(1) by (simp_all add: zinv_def)
    show ?thesis
    proof (cases ev)
      case ZExit
      with assms(3) on show ?thesis by (auto simp: zeus_turn_def)
    next
      case (ZBatch b)
      have r: "result_ok P N L B z False (Some (on_eleader_propose P d z))" for d
        by (intro result_okI) (simp_all add: on_eleader_propose_keeps)
      show ?thesis
      proof (cases b)
        case None
        with ZBatch assms(3) on show ?thesis by (auto simp: zeus_turn_def)
      next
        case (Some d)
        with ZBatch assms(3) on have "z_logged z (Some (on_eleader_propose P d z)) = (res, z')"
          by (simp add: zeus_turn_def)
        from logged_result [OF r this] ZBatch show ?thesis by simp
      qed
    next
      case ZRound
      obtain m rs where pm: "zr_pop_msg (z_rs z) = (m, rs)" by fastforce
      show ?thesis
      proof (cases m)
        case None
        with ZRound assms(3) on pm show ?thesis by (simp add: zeus_turn_def)
      next
        case (Some msg)
        let ?z = "z\<lparr>z_rs := rs\<rparr>"
        have k: "keeps P N L B z ?z" by (rule sig_step_keeps) (simp add: sig_step_def zeus_leader_ok_def)
        have l: "zeus_leader_ok N L ?z" using lead by (simp add: zeus_leader_ok_def)
        have "result_ok P N L B ?z False (handle_sig_ordered P msg ?z)"
          using handle_sig_ordered_step [OF assms(2), where z = ?z and m = msg and N = N and L = L] l sig_step_keeps
          by (fastforce simp: result_ok_def)
        moreover have "z_logged ?z (handle_sig_ordered P msg ?z) = (res, z')"
          using ZRound assms(3) on pm Some by (simp add: zeus_turn_def)
        ultimately have "keeps P N L B ?z z'" "res \<noteq> ZCrashed" using logged_result by blast+
        with ZRound keeps_trans [OF k] show ?thesis by simp
      qed
    next
      case ZTimer
      have "result_ok P N L B z False (Some (z_on_round_timeout P z))"
        by (intro result_okI sig_step_keeps) (simp_all add: z_on_round_timeout_step)
      from logged_result [OF this] ZTimer assms(3) on show ?thesis by (simp add: zeus_turn_def)
    next
      case ZLoopback
      let ?z = "z\<lparr>z_loopback := tl (z_loopback z)\<rparr>" and ?m = "hd (z_loopback z)"
      have ne: "z_loopback z \<noteq> []" using ZLoopback on by (simp add: zeus_enabled_def)
      have "\<forall>m \<in> set (z_loopback ?z). m \<in> set (z_loopback z)" by (auto dest: list.set_sel(2) [OF ne])
      then have k: "keeps P N L B z ?z"
        by (intro sig_step_keeps) (auto simp: sig_step_def zeus_leader_ok_def)
      have i: "zinv P N L B ?z" using k assms(1) by (simp add: keeps_def)
      have own: "own_msg ?m" using assms(1) ne by (simp add: zinv_def msgs_ok_def)
      have "incoming ev z = Some ?m" using ZLoopback ne by (auto simp: incoming_def split: list.split)
      then have "blocks_in P B ?z ?m"
        using assms(4) by (simp add: event_ok_def blocks_in_def verify_data_block_sig_def)
      note d = dispatch_result [OF i this]
      have "z_logged ?z (dispatch P ?m ?z) = (res, z')"
        using ZLoopback assms(3) on by (simp add: zeus_turn_def Let_def)
      from logged_result [OF d this poison_returns] own_msg_not_poison [OF own] keeps_trans [OF k] ZLoopback
      show ?thesis by simp
    next
      case (ZNet m)
      show ?thesis
      proof (cases m)
        case None
        with ZNet assms(3) on show ?thesis by (auto simp: zeus_turn_def)
      next
        case (Some msg)
        have b: "blocks_in P B z msg" using assms(4) ZNet Some by (simp add: event_ok_def incoming_def)
        have "z_logged z (dispatch P msg z) = (res, z')"
          using ZNet Some assms(3) on by (simp add: zeus_turn_def)
        note l = logged_result [OF dispatch_result [OF assms(1) b] this poison_returns]
        show ?thesis using l ZNet Some by simp
      qed
    next
      case (ZCommitted c)
      with assms(3,5) on show ?thesis by (cases c) (auto simp: zeus_turn_def)
    next
      case ZDataTimer
      have "result_ok P N L B z False (Some (on_data_timer_expired P z))"
        using ctl_ok_keeps [OF on_data_timer_expired_ok(1) assms(1)] on_data_timer_expired_ok(2) [OF c]
        by (intro result_okI) auto
      from logged_result [OF this] ZDataTimer assms(3) on show ?thesis by (simp add: zeus_turn_def)
    next
      case ZBench
      let ?z = "z\<lparr>z_ct := (z_ct z)\<lparr>ct_tx_count := 0\<rparr>\<rparr>"
      have "res = ZContinue" "z' = ?z" using ZBench assms(3) on by (simp_all add: zeus_turn_def)
      moreover have "zeus_cert_ok P ?z = zeus_cert_ok P z" by (simp add: zeus_cert_ok_def)
      then have "keeps P N L B z ?z"
        by (simp add: keeps_def zinv_def quiet_view_def static_view_def zeus_leader_ok_def msgs_ok_def known_def)
      ultimately show ?thesis using ZBench by simp
    qed
  qed
  then show "keeps P N L B z z'" "res = ZCrashed \<longleftrightarrow> (\<exists>m. ev = ZNet (Some m) \<and> poison P z m)" by auto
qed

text \<open>A turn that leaves the overflow mark in a build with checks.\<close>

definition overflowed ::
  "('s, 'tx, 'b, 'c, 'g) zeus_params \<Rightarrow> ('s, 'tx, 'b, 'c, 'g) zeus \<Rightarrow> ('s, 'tx, 'b, 'c, 'g) zeus \<Rightarrow> bool" where
  "overflowed P z z' \<longleftrightarrow> zp_checked P \<and> z_overflow z' \<and> \<not> z_overflow z"

lemma zeus_step_turn:
  "zeus_step P ev z = (res, z') \<longleftrightarrow>
     (\<exists>r. zeus_turn P ev z = (r, z') \<and> res = (if overflowed P z z' then ZCrashed else r))"
  by (auto simp: zeus_step_def overflowed_def split: prod.split)

lemma zeus_step_parts:
  "snd (zeus_step P ev z) = snd (zeus_turn P ev z)"
  "fst (zeus_step P ev z) = (if overflowed P z (snd (zeus_turn P ev z)) then ZCrashed else fst (zeus_turn P ev z))"
  "\<not> zp_checked P \<Longrightarrow> zeus_step P ev z = zeus_turn P ev z"
  by (simp_all add: zeus_step_def overflowed_def case_prod_beta)

lemma zeus_step_ZContinue: "zeus_step P ev z = (ZContinue, z') \<Longrightarrow> zeus_turn P ev z = (ZContinue, z')"
  by (auto simp: zeus_step_turn split: if_splits)

subsection \<open>Committed attestations and the tasks that share the store\<close>

lemma length_update_lock: "length lock \<le> 1 \<Longrightarrow> length (update_lock r att lock) \<le> 1"
proof -
  assume "length lock \<le> 1"
  then consider "lock = []" | e where "lock = [e]" by (cases lock) auto
  then show ?thesis
  proof cases
    case (2 e)
    then show ?thesis
      by (cases "att_height att \<le> att_height (snd e)") (simp_all add: update_lock_def)
  qed (simp add: update_lock_def)
qed

text \<open>An attestation below the committed height moves the lock only.\<close>

lemma on_committed_cases:
  assumes "on_committed_attestation r att z = Some z'"
  shows "(z_lock z' = update_lock r att (z_lock z) \<and> z_ct z' = z_ct z \<and> z_last_committed z' = z_last_committed z \<or>
     z_lock z' = update_lock r att (z_lock z) \<and> (\<exists>items ht h.
       commit_prefix_walk (z_chain z, z_db z) (att_height att) (z_last_committed z) [] (z_committed_high z) None =
         Some (items, ht, Some h) \<and>
       z_ct z' = (z_ct z)\<lparr>ct_items := ct_items (z_ct z) @ items\<rparr> \<and> z_last_committed z' = h)) \<and>
     static_view z' = static_view z \<and> sig_view z' = sig_view z \<and> z_chain z' = z_chain z \<and> z_db z' = z_db z \<and>
     z_pend_att z' = z_pend_att z \<and> z_loopback z' = z_loopback z \<and>
     z_epoch z' = z_epoch z \<and> z_qcs z' = z_qcs z \<and> z_blames z' = z_blames z"
proof -
  let ?z = "z\<lparr>z_lock := update_lock r att (z_lock z)\<rparr>"
  consider (lock) "z' = ?z"
    | (walk) items ht h where "commit_prefix_walk (z_chain z, z_db z) (att_height att) (z_last_committed z) []
        (z_committed_high z) None = Some (items, ht, Some h)"
      "z' = ?z\<lparr>z_committed_high := ht, z_last_committed := h, z_ct := (z_ct z)\<lparr>ct_items := ct_items (z_ct z) @ items\<rparr>\<rparr>"
    using assms by (auto simp: on_committed_attestation_def Let_def split: if_splits option.splits prod.splits)
  then show ?thesis
  proof cases
    case lock
    then show ?thesis by (intro conjI disjI1) (simp_all add: static_view_def sig_view_def)
  next
    case walk
    then show ?thesis
      by (intro conjI disjI2 exI [of _ items] exI [of _ ht] exI [of _ h]) (simp_all add: static_view_def sig_view_def)
  qed
qed

lemma on_committed_inv:
  assumes "on_committed_attestation r att z = Some z'" "zinv P N L B z"
  shows "zinv P N L B z'"
proof -
  note c = on_committed_cases [OF assms(1)]
  have s: "static_view z' = static_view z" "sig_view z' = sig_view z" "z_chain z' = z_chain z" "z_db z' = z_db z"
    "z_pend_att z' = z_pend_att z" "z_loopback z' = z_loopback z" "z_epoch z' = z_epoch z" "z_qcs z' = z_qcs z"
    "z_blames z' = z_blames z" "z_lock z' = update_lock r att (z_lock z)" using c by auto
  then show ?thesis
    using assms(2) length_update_lock [of "z_lock z" r att] zeus_leader_ok_sig [OF s(2)]
    by (simp add: zinv_def zeus_cert_ok_def msgs_ok_def known_def static_view_def)
qed

lemma on_committed_links:
  assumes "known (zp_env P) B z" "ranked (zp_env P) B rank"
  shows "\<exists>z' items. on_committed_attestation r att z = Some z' \<and> ct_items (z_ct z') = ct_items (z_ct z) @ items \<and>
    linked_from (zp_env P) B (z_last_committed z) (map (item_hash (zp_env P)) items) \<and>
    z_last_committed z' = last (z_last_committed z # map (item_hash (zp_env P)) items)"
proof -
  let ?z = "z\<lparr>z_lock := update_lock r att (z_lock z)\<rparr>"
  show ?thesis
  proof (cases "att_height att \<le> z_committed_high z")
    case True
    then show ?thesis by (intro exI [of _ ?z] exI [of _ "[]"]) (simp add: on_committed_attestation_def)
  next
    case False
    from commit_walk_ok [OF assms, of "att_height att" "z_last_committed z" "[]" "z_committed_high z" None]
    obtain items ht lh where w: "commit_prefix_walk (z_chain z, z_db z) (att_height att) (z_last_committed z) []
        (z_committed_high z) None = Some (items, ht, lh)"
      "linked_from (zp_env P) B (z_last_committed z) (map (item_hash (zp_env P)) items)"
      "lh = (if items = [] then None else Some (last (map (item_hash (zp_env P)) items)))" by auto
    show ?thesis
    proof (cases "items = []")
      case True
      with False w show ?thesis
        by (intro exI [of _ ?z] exI [of _ "[]"]) (simp add: on_committed_attestation_def Let_def)
    next
      case items: False
      let ?z2 = "?z\<lparr>z_committed_high := ht, z_last_committed := last (map (item_hash (zp_env P)) items),
        z_ct := (z_ct z)\<lparr>ct_items := ct_items (z_ct z) @ items\<rparr>\<rparr>"
      from False items w show ?thesis
        by (intro exI [of _ ?z2] exI [of _ items]) (simp add: on_committed_attestation_def Let_def)
    qed
  qed
qed

lemma committer_step_db:
  assumes "committer_step ze (ct, db) = (ct', db')"
  shows "db' = db \<or> (\<exists>k. db' = db_emit k db)"
  using assms by (auto simp: committer_step_def committer_emit_def Let_def
      split: if_splits list.splits commit_item.splits outcome.splits option.splits)

lemma zeus_tasks_inv:
  assumes "zinv P N L B z"
  shows "zinv P N L B (zeus_flush P z)" "zinv P N L B (zeus_emit P z)"
proof -
  have upd: "zinv P N L B (z\<lparr>z_ct := ct, z_db := db\<rparr>)"
    if "known_db (zp_env P) B db" "dd_meta db = dd_meta (z_db z)" for ct db
    using assms that
    by (simp add: zinv_def zeus_cert_ok_def msgs_ok_def known_def zeus_leader_ok_def db_contains_def)
  have k: "known_db (zp_env P) B (z_db z)" using assms by (simp add: zinv_def known_def)
  show "zinv P N L B (zeus_flush P z)"
    using upd [of "db_flush (zp_env P) (z_db z)" "z_ct z"] k by (simp add: zeus_flush_def)
  obtain ct db where e: "committer_step (zp_env P) (z_ct z, z_db z) = (ct, db)" by fastforce
  from committer_step_db [OF e] k have "known_db (zp_env P) B db" "dd_meta db = dd_meta (z_db z)" by auto
  with e upd show "zinv P N L B (zeus_emit P z)" by (simp add: zeus_emit_def)
qed

lemma zeus_tasks_static [simp]:
  "static_view (zeus_flush P z) = static_view z" "static_view (zeus_emit P z) = static_view z"
  by (simp_all add: zeus_flush_def zeus_emit_def case_prod_beta static_view_def)

subsection \<open>Runs\<close>

text \<open>
  A run from a state, with the items handed to the committer so far. The turns of the loop, of the
  background writer and of the committer interleave; the correctly signed blocks that arrive are
  in \<open>B\<close>.
\<close>

definition handed :: "('s, 'tx, 'b, 'c, 'g) zeus \<Rightarrow> ('s, 'tx, 'b, 'c, 'g) zeus \<Rightarrow> 'tx commit_item list" where
  "handed z z' = drop (length (ct_items (z_ct z))) (ct_items (z_ct z'))"

inductive zeus_run ::
  "('s, 'tx, 'b, 'c, 'g) zeus_params \<Rightarrow> 'tx data_block set \<Rightarrow> ('s, 'tx, 'b, 'c, 'g) zeus
    \<Rightarrow> 'tx commit_item list \<Rightarrow> ('s, 'tx, 'b, 'c, 'g) zeus \<Rightarrow> bool" for P B z0 where
  start: "zeus_run P B z0 [] z0"
| turn: "zeus_run P B z0 log z \<Longrightarrow> event_ok P B z ev \<Longrightarrow> zeus_step P ev z = (ZContinue, z') \<Longrightarrow>
    zeus_run P B z0 (log @ handed z z') z'"
| flush: "zeus_run P B z0 log z \<Longrightarrow> zeus_run P B z0 log (zeus_flush P z)"
| emit: "zeus_run P B z0 log z \<Longrightarrow> zeus_run P B z0 log (zeus_emit P z)"

text \<open>A replica of a proper committee after the start of \<^verbatim>\<open>run\<close>.\<close>

definition zeus_booted ::
  "('s, 'tx, 'b, 'c, 'g) zeus_params \<Rightarrow> config \<Rightarrow> ('s, 'tx, 'b, 'c, 'g) zeus \<Rightarrow> bool" where
  "zeus_booted P conf z0 \<longleftrightarrow> chooser_ok (zp_pick P) \<and> committee_ok (zp_order P) conf \<and>
     (\<exists>me sk sys peers delay emit_dp seed s ds z. zeus_spawn P me sk sys peers conf delay emit_dp seed s ds = Ok z \<and>
        z0 = snd (zeus_start P z))"

definition genesis_digest :: "('s, 'tx, 'b, 'c, 'g) zeus_params \<Rightarrow> digest" where
  "genesis_digest P = data_block_hash (zp_env P) data_genesis"

text \<open>What a spawned replica starts from.\<close>

lemma zeus_booted_init:
  assumes "zeus_booted P conf z0" "data_genesis \<in> B"
  shows "\<exists>N L. zinv P N L B z0" "chooser_ok (zp_pick P)" "z_last_committed z0 = genesis_digest P"
    "ct_items (z_ct z0) = []" "z_lock z0 = []" "z_epoch z0 = 1"
proof -
  from assms(1) obtain me sk sys peers delay emit_dp seed s ds z where ch: "chooser_ok (zp_pick P)"
    and c: "committee_ok (zp_order P) conf"
    and sp: "zeus_spawn P me sk sys peers conf delay emit_dp seed s ds = Ok z" and z0: "z0 = snd (zeus_start P z)"
    unfolding zeus_booted_def by blast
  let ?ids = "get_all_ids (zp_order P) conf"
  obtain lc where lc: "leader_new (zp_pick P) seed ?ids (num_faults conf) = Ok lc"
    "leader_inv (set ?ids) (quorum (length ?ids) (num_faults conf)) lc"
    using leader_new_ok [OF ch _ _ _ refl, of ?ids "num_faults conf" seed] c by (auto simp: committee_ok_def)
  have z: "z_lc z = lc" "z_epoch z = 1" "z_qcs z = [0 \<mapsto> \<lparr>ec_epoch = 0, ec_blames = []\<rparr>]" "z_blames z = Map.empty"
    "z_loopback z = []" "z_pend_att z = Map.empty" "z_lock z = []" "z_last_committed z = genesis_digest P"
    "ct_items (z_ct z) = []" "z_chain z = data_chain_genesis (zp_env P)"
    "z_db z = db_with_emitted_high (zp_env P) ds 0"
    using sp lc(1) by (auto simp: zeus_spawn_def bind_o_Ok_iff genesis_digest_def INITIAL_DATA_EPOCH_def)
  have v: "z_lc z0 = z_lc z" "z_epoch z0 = z_epoch z" "z_qcs z0 = z_qcs z" "z_blames z0 = z_blames z"
    "z_loopback z0 = z_loopback z" "z_pend_att z0 = z_pend_att z" "z_lock z0 = z_lock z"
    "z_last_committed z0 = z_last_committed z" "z_ct z0 = z_ct z" "z_chain z0 = z_chain z" "z_db z0 = z_db z"
    unfolding z0 by (simp_all add: zeus_start_def case_prod_beta Let_def arm_data_timer_def prime_batcher_def mark_overflow_def)
  have "known (zp_env P) B z0"
    using assms(2)
    by (auto simp: known_def known_db_def v z data_chain_genesis_def db_with_emitted_high_def
        db_with_byte_budget_def Let_def db_meta_def)
  then have "zinv P (set ?ids) (quorum (length ?ids) (num_faults conf)) B z0"
    using lc(2) by (simp add: zinv_def zeus_leader_ok_def zeus_cert_ok_def msgs_ok_def v z)
  then show "\<exists>N L. zinv P N L B z0" by blast
  show "chooser_ok (zp_pick P)" "z_last_committed z0 = genesis_digest P"
    "ct_items (z_ct z0) = []" "z_lock z0 = []" "z_epoch z0 = 1" using ch v z by simp_all
qed

text \<open>The invariant and the static part through a turn, whatever the event.\<close>

lemma zeus_turn_inv:
  assumes "zinv P N L B z" "chooser_ok (zp_pick P)" "event_ok P B z ev" "zeus_turn P ev z = (res, z')"
  shows "zinv P N L B z'" "static_view z' = static_view z"
    "res = ZCrashed \<longleftrightarrow> (\<exists>m. ev = ZNet (Some m) \<and> poison P z m)"
proof -
  have "zinv P N L B z' \<and> static_view z' = static_view z \<and>
    (res = ZCrashed \<longleftrightarrow> (\<exists>m. ev = ZNet (Some m) \<and> poison P z m))"
  proof (cases "\<exists>c. ev = ZCommitted (Some c)")
    case False
    with zeus_turn_keeps [OF assms(1,2,4,3)] assms(1) show ?thesis
      by (auto simp: keeps_def quiet_view_def)
  next
    case True
    then obtain r att where ev: "ev = ZCommitted (Some (r, att))" by auto
    show ?thesis
    proof (cases "on_committed_attestation r att z")
      case None
      with ev assms(1,4) show ?thesis by (auto simp: zeus_turn_def zeus_enabled_def z_logged_def)
    next
      case (Some z1)
      then have "res = ZContinue" "z' = z1"
        using ev assms(4) by (auto simp: zeus_turn_def zeus_enabled_def z_logged_def)
      with on_committed_inv [OF Some assms(1)] on_committed_cases [OF Some] ev show ?thesis by auto
    qed
  qed
  then show "zinv P N L B z'" "static_view z' = static_view z"
    "res = ZCrashed \<longleftrightarrow> (\<exists>m. ev = ZNet (Some m) \<and> poison P z m)" by auto
qed

lemma zeus_step_inv:
  assumes "zinv P N L B z" "chooser_ok (zp_pick P)" "event_ok P B z ev" "zeus_step P ev z = (res, z')"
  shows "zinv P N L B z'" "static_view z' = static_view z"
    "res = ZCrashed \<longleftrightarrow> overflowed P z z' \<or> (\<exists>m. ev = ZNet (Some m) \<and> poison P z m)"
proof -
  from assms(4) obtain r where r: "zeus_turn P ev z = (r, z')" "res = (if overflowed P z z' then ZCrashed else r)"
    unfolding zeus_step_turn by blast
  note i = zeus_turn_inv [OF assms(1-3) r(1)]
  show "zinv P N L B z'" "static_view z' = static_view z" by (rule i)+
  show "res = ZCrashed \<longleftrightarrow> overflowed P z z' \<or> (\<exists>m. ev = ZNet (Some m) \<and> poison P z m)" using r(2) i(3) by auto
qed

lemma zeus_run_inv:
  assumes "zeus_run P B z0 log z" "zinv P N L B z0" "chooser_ok (zp_pick P)"
  shows "zinv P N L B z \<and> static_view z = static_view z0"
  using assms(1)
proof (induction rule: zeus_run.induct)
  case (turn log z ev z')
  with zeus_step_inv [OF _ assms(3) turn.hyps(2,3), of N L] show ?case by simp
qed (use assms(2) zeus_tasks_inv in \<open>auto\<close>)

text \<open>Only the correctly signed ones of the arriving blocks matter.\<close>

lemma zeus_run_signed:
  assumes "zeus_run P B z0 log z" "zinv P N L UNIV z0" "chooser_ok (zp_pick P)"
  shows "zeus_run P {b. b = data_genesis \<or> verify_data_block_sig P b z0} z0 log z"
  using assms(1)
proof (induction rule: zeus_run.induct)
  case (turn log z ev z')
  have "zeus_run P UNIV z0 log z"
    using turn.hyps(1) by (induction rule: zeus_run.induct) (auto intro: zeus_run.intros simp: event_ok_def blocks_in_def)
  then have "static_view z = static_view z0" using zeus_run_inv [OF _ assms(2,3)] by blast
  then have "event_ok P {b. b = data_genesis \<or> verify_data_block_sig P b z0} z ev"
    by (simp add: event_ok_def blocks_in_def verify_data_block_sig_def static_view_def)
  with turn show ?case by (intro zeus_run.turn)
qed (auto intro: zeus_run.intros)

text \<open>What was handed to the committer is a chain of blocks, and the cursor is its end.\<close>

lemma zeus_run_chain:
  assumes "zeus_run P B z0 log z" "zinv P N L B z0" "chooser_ok (zp_pick P)" "ranked (zp_env P) B rank"
    and "z_last_committed z0 = p"
  shows "linked_from (zp_env P) B p (map (item_hash (zp_env P)) log) \<and>
    z_last_committed z = last (p # map (item_hash (zp_env P)) log)"
  using assms(1)
proof (induction rule: zeus_run.induct)
  case start
  then show ?case using assms(5) by simp
next
  case (turn log z ev z')
  have i: "zinv P N L B z" using zeus_run_inv [OF turn.hyps(1) assms(2,3)] by blast
  have "\<exists>items. handed z z' = items \<and>
    linked_from (zp_env P) B (z_last_committed z) (map (item_hash (zp_env P)) items) \<and>
    z_last_committed z' = last (z_last_committed z # map (item_hash (zp_env P)) items)"
  proof (cases "\<exists>c. ev = ZCommitted (Some c)")
    case False
    then have "\<And>c. ev \<noteq> ZCommitted (Some c)" by blast
    from zeus_turn_keeps(1) [OF i assms(3) zeus_step_ZContinue [OF turn.hyps(3)] turn.hyps(2) this] show ?thesis
      by (simp add: keeps_def quiet_view_def handed_def)
  next
    case True
    then obtain r att where ev: "ev = ZCommitted (Some (r, att))" by auto
    have k: "known (zp_env P) B z" using i by (simp add: zinv_def)
    from on_committed_links [OF k assms(4), of r att] obtain z1 items where
      z1: "on_committed_attestation r att z = Some z1" and
      it: "ct_items (z_ct z1) = ct_items (z_ct z) @ items"
        "linked_from (zp_env P) B (z_last_committed z) (map (item_hash (zp_env P)) items)"
        "z_last_committed z1 = last (z_last_committed z # map (item_hash (zp_env P)) items)" by blast
    have "z' = z1" using z1 ev zeus_step_ZContinue [OF turn.hyps(3)] by (simp add: zeus_turn_def zeus_enabled_def z_logged_def)
    with it show ?thesis by (simp add: handed_def)
  qed
  with turn.IH show ?case by auto
next
  case (flush log z)
  then show ?case by (simp add: zeus_flush_def)
next
  case (emit log z)
  then show ?case by (simp add: zeus_emit_def case_prod_beta)
qed

end
