(* ===== verification/ZeusProperties.thy ===== *)
theory ZeusProperties
  imports ZeusRun
begin

section \<open>Properties of the Zeus replica\<close>

text \<open>
  What holds over every run of the replica, and the behaviours of single handlers that the
  protocol's safety or liveness depends on.
\<close>

subsection \<open>A concrete replica\<close>

definition zt_net :: "(nat, nat) znet" where
  "zt_net = \<lparr>zn_bcast = (\<lambda>k ids m. map (\<lambda>i. 10 * k + i) ids), zn_send = (\<lambda>k i m. Some (10 * k + i))\<rparr>"

definition zt_params :: "(ztest_db, nat, zser, nat, unit) zeus_params" where
  "zt_params = \<lparr>zp_env = ztest, zp_net = zt_net, zp_pick = test_pick, zp_order = sorted_list_of_set,
    zp_gc = 4, zp_checked = False\<rparr>"

lemma zt_params_sel [simp]:
  "zp_env zt_params = ztest" "zp_net zt_params = zt_net" "zp_pick zt_params = test_pick"
  "zp_order zt_params = sorted_list_of_set" "zp_gc zt_params = 4" "\<not> zp_checked zt_params"
  by (simp_all add: zt_params_def)

lemmas zt_step = zeus_step_parts(3) [OF zt_params_sel(6)]

lemma zt_genesis [simp]: "data_block_hash ztest data_genesis = 20000" "genesis_digest zt_params = 20000"
  by (simp_all add: data_genesis_def genesis_digest_def)

definition zt_start :: "node_id \<Rightarrow> (ztest_db, nat, zser, nat, unit) zeus" where
  "zt_start i = \<lparr>z_id = i, z_secret = [of_nat i], z_system = test_keys,
     z_peers = filter (\<lambda>x. x \<noteq> i) [0, 1, 2, 3], z_nodes = 4, z_faults = 1,
     z_loopback = [], z_loopback_open = True, z_to_batcher = [NewRound 1 1],
     z_ct = \<lparr>ct_items = [], ct_stopped = False, ct_open = True, ct_emit_dp = False,
             ct_tx_count = 0, ct_committed = [], ct_to_batcher = []\<rparr>,
     z_to_commit = [], z_commit_open = True, z_out = [],
     z_cs = \<lparr>cs_db = [1000 \<mapsto> ZElement (element_genesis 0)], cs_highest_hash = 1000,
             cs_highest_element = element_genesis 0, cs_qc_map = Map.empty\<rparr>,
     z_lc = test_leader, z_rs = zr_new 4, z_timer = \<lparr>tm_resets = 1, tm_enabled = True\<rparr>, z_sig_epoch = 1,
     z_epoch = 1, z_chain = \<lparr>dc_head_hash = 20000, dc_head_height = 0, dc_child_of = Map.empty, dc_pending = Map.empty\<rparr>,
     z_db = db_with_emitted_high ztest Map.empty 0, z_pend_att = Map.empty,
     z_qcs = [0 \<mapsto> \<lparr>ec_epoch = 0, ec_blames = []\<rparr>], z_blames = Map.empty,
     z_last_seen = data_genesis, z_lock = [], z_latest = None, z_last_att = 0,
     z_dtimer = Some TimerDataRoundEntry, z_waiting = (i = 0), z_wakeup = False, z_committed_high = 0,
     z_last_committed = 20000, z_proposed = 0, z_last_proposed = None, z_overflow = False\<rparr>"

lemma zt_spawn:
  assumes "i < 4"
  shows "\<exists>z. zeus_spawn zt_params i [of_nat i] test_keys [0, 1, 2, 3] test_config 500 False () Map.empty Map.empty = Ok z \<and>
    snd (zeus_start zt_params z) = zt_start i"
proof -
  obtain m where m: "get_consensus_peers test_config i = Ok m" using test_peers by blast
  have g: "get_party test_config i = Some (test_party i)" using assms by (simp add: test_get_party)
  have l: "leader test_leader = 0" by (simp add: leader_def test_leader_def)
  define z :: "(ztest_db, nat, zser, nat, unit) zeus" where "z = \<lparr>z_id = i, z_secret = [of_nat i], z_system = test_keys,
     z_peers = filter (\<lambda>x. x \<noteq> i) [0, 1, 2, 3], z_nodes = 4, z_faults = 1,
     z_loopback = [], z_loopback_open = True, z_to_batcher = [],
     z_ct = \<lparr>ct_items = [], ct_stopped = False, ct_open = True, ct_emit_dp = False,
             ct_tx_count = 0, ct_committed = [], ct_to_batcher = []\<rparr>,
     z_to_commit = [], z_commit_open = True, z_out = [],
     z_cs = chain_state_new ztest_env Map.empty,
     z_lc = test_leader, z_rs = zr_new 4, z_timer = \<lparr>tm_resets = 0, tm_enabled = True\<rparr>, z_sig_epoch = 1,
     z_epoch = 1, z_chain = \<lparr>dc_head_hash = 20000, dc_head_height = 0, dc_child_of = Map.empty, dc_pending = Map.empty\<rparr>,
     z_db = db_with_emitted_high ztest Map.empty 0, z_pend_att = Map.empty,
     z_qcs = [0 \<mapsto> \<lparr>ec_epoch = 0, ec_blames = []\<rparr>], z_blames = Map.empty,
     z_last_seen = data_genesis, z_lock = [], z_latest = None, z_last_att = 0,
     z_dtimer = None, z_waiting = False, z_wakeup = False, z_committed_high = 0,
     z_last_committed = 20000, z_proposed = 0, z_last_proposed = None, z_overflow = False\<rparr>"
  have ze: "z_env ztest = ztest_env" by (simp add: ztest_def)
  have iv: "interval (u64 (zp_checked zt_params) (4 * 500)) = Ok ()" by simp
  have "zeus_spawn zt_params i [of_nat i] test_keys [0, 1, 2, 3] test_config 500 False () Map.empty Map.empty = Ok z"
    unfolding zeus_spawn_def zt_params_sel test_config_sel test_leader_new g ok_or_simps m bind_o_simps iv
      zt_genesis STEADY_STATE_SIG_EPOCH_def INITIAL_DATA_EPOCH_def data_chain_genesis_def ze z_def ..
  moreover have "snd (genesis_setup ztest_env (chain_state_new ztest_env Map.empty)) =
      \<lparr>cs_db = [1000 \<mapsto> ZElement (element_genesis 0)], cs_highest_hash = 1000,
       cs_highest_element = element_genesis 0, cs_qc_map = Map.empty\<rparr>"
    by (simp add: genesis_setup_def chain_state_new_def write_element_def db_write_def START_ID_def Let_def)
      (simp add: ztest_env_def ztest_crypto_def ztest_store_def ser_and_hash_def element_genesis_def)
  then have "snd (zeus_start zt_params z) = zt_start i"
    by (simp add: zeus_start_def zt_start_def z_def prime_batcher_def mark_overflow_def incremented_def arm_data_timer_def eleader_def l case_prod_beta
        Let_def ze)
  ultimately show ?thesis by blast
qed

lemma zt_booted: "i < 4 \<Longrightarrow> zeus_booted zt_params test_config (zt_start i)"
  using zt_spawn [of i] test_pick_ok test_committee_ok by (auto simp: zeus_booted_def) metis

lemma z_logged_hangs [simp]: "fst (z_logged z r) = ZHangs \<longleftrightarrow> r = None"
  by (cases r; cases "fst (the r)") (auto simp: z_logged_def)

subsection \<open>Safety over runs\<close>

abbreviation "zb1 \<equiv> ztest_block 4 1 1 20000 [5, 6]"

lemma zt_verify: "verify_data_block_sig zt_params (ztest_block 4 e h par txs) (zt_start i)"
  by (simp add: verify_data_block_sig_def zt_start_def eleader_def test_keys_def)
     (simp add: ztest_block_def Let_def)

lemma zt_view:
  assumes "ctl_view z = ctl_view (zt_start 2)"
  shows "z_system z = test_keys" "z_nodes z = 4" "z_faults z = 1" "z_epoch z = 1" "z_lock z = []"
    "z_committed_high z = 0" "z_last_committed z = 20000" "ct_items (z_ct z) = []"
    "z_qcs z = [0 \<mapsto> \<lparr>ec_epoch = 0, ec_blames = []\<rparr>]"
  using ctl_viewD [OF assms] by (simp_all add: zt_start_def)

text \<open>Node 2 admits the first block of the leader of epoch 1, and commits it.\<close>

lemma zt_run:
  "\<exists>z1 z2. zeus_step zt_params (ZNet (Some (DataPropose zb1 1))) (zt_start 2) = (ZContinue, z1) \<and>
     zeus_step zt_params (ZCommitted (Some (1, ztest_att 1 0 21012 1 1 1000))) z1 = (ZContinue, z2) \<and>
     z_lock z2 = [(1, ztest_att 1 0 21012 1 1 1000)] \<and> ct_items (z_ct z1) = [] \<and> ct_items (z_ct z2) = [Resident zb1] \<and>
     z_committed_high z2 = 1 \<and> z_chain z2 = z_chain z1 \<and> z_db z2 = z_db z1 \<and>
     z_db z1 = db_insert ztest zb1 (db_with_emitted_high ztest Map.empty 0) \<and>
     dc_child_of (z_chain z1) = [20000 \<mapsto> 21012] \<and> ctl_view z1 = ctl_view (zt_start 2)"
proof -
  have ch: "z_chain (zt_start 2) = \<lparr>dc_head_hash = 20000, dc_head_height = 0, dc_child_of = Map.empty, dc_pending = Map.empty\<rparr>"
    "z_db (zt_start 2) = db_with_emitted_high ztest Map.empty 0" by (simp_all add: zt_start_def)
  have h: "data_block_hash ztest zb1 = 21012" by simp
  obtain z1 where a: "admit_and_wake zt_params zb1 (zt_start 2) = Some (Ok (), z1)" and v: "ctl_view z1 = ctl_view (zt_start 2)"
    and db: "z_db z1 = db_insert ztest zb1 (db_with_emitted_high ztest Map.empty 0)"
    and child: "dc_child_of (z_chain z1) = [20000 \<mapsto> 21012]"
    using admit_top [of zb1 "zt_start 2" zt_params] unfolding ch zt_params_sel h by (auto simp del: ztest_sel)
  have nc: "\<not> db_contains 21012 (db_with_emitted_high ztest Map.empty 0)"
    by (simp add: db_contains_def db_with_emitted_high_def db_with_byte_budget_def Let_def data_genesis_def)
  have "on_data_propose zt_params zb1 1 (zt_start 2) = Some (Ok (), z1)"
    using a zt_verify [of 1 1 20000 "[5, 6]" 2] nc zt_view [OF refl]
    by (simp add: on_data_propose_def ch eleader_def epoch_gate_valid_def)
  then have s1: "zeus_step zt_params (ZNet (Some (DataPropose zb1 1))) (zt_start 2) = (ZContinue, z1)"
    by (simp add: zt_step zeus_turn_def zeus_enabled_def dispatch_def z_logged_def)
  have m: "db_meta 21012 (z_db z1) = Some (meta_of_block zb1 21012)" "db_cache_get 21012 (z_db z1) = Some zb1"
    unfolding db
    by (simp_all add: db_meta_def db_cache_get_def db_with_emitted_high_def db_with_byte_budget_def Let_def data_genesis_def
        db_insert_def cache_put_def evict.simps DEFAULT_DATA_BLOCK_CACHE_BYTES_def block_size_def meta_of_block_def)
  have w: "commit_prefix_walk (z_chain z1, z_db z1) 1 20000 [] 0 None = Some ([Resident zb1], 1, Some 21012)"
    using m by (subst commit_prefix_walk.simps) (simp add: child meta_of_block_def)
  define z2 where "z2 = z1\<lparr>z_lock := [(1, ztest_att 1 0 21012 1 1 1000)], z_committed_high := 1,
    z_last_committed := 21012, z_ct := (z_ct z1)\<lparr>ct_items := ct_items (z_ct z1) @ [Resident zb1]\<rparr>\<rparr>"
  have "on_committed_attestation 1 (ztest_att 1 0 21012 1 1 1000) z1 = Some z2"
    using w zt_view [OF v]
    by (simp add: on_committed_attestation_def Let_def att_height_def update_lock_def z2_def)
  then have s2: "zeus_step zt_params (ZCommitted (Some (1, ztest_att 1 0 21012 1 1 1000))) z1 = (ZContinue, z2)"
    by (simp add: zt_step zeus_turn_def zeus_enabled_def z_logged_def)
  show ?thesis
    by (intro exI [of _ z1] exI [of _ z2] conjI)
      (use s1 s2 db child v zt_view [OF v] in \<open>simp_all add: z2_def\<close>)
qed

definition zt_blocks :: "nat data_block set" where
  "zt_blocks = {data_genesis, zb1}"

lemma zt_ranked: "data_genesis \<in> zt_blocks" "ranked ztest zt_blocks unat"
  by (simp_all add: zt_blocks_def ranked_def) (simp add: data_genesis_def EMPTY_HASH_def)

lemma zt_runs:
  assumes "zb1 \<in> B"
  shows "\<exists>z. zeus_run zt_params B (zt_start 2) [Resident zb1] z \<and>
    z_lock z = [(1, ztest_att 1 0 21012 1 1 1000)] \<and> db_meta 21012 (z_db z) \<noteq> None"
proof -
  from zt_run obtain z1 z2 where
    s: "zeus_step zt_params (ZNet (Some (DataPropose zb1 1))) (zt_start 2) = (ZContinue, z1)"
      "zeus_step zt_params (ZCommitted (Some (1, ztest_att 1 0 21012 1 1 1000))) z1 = (ZContinue, z2)"
    and z: "z_lock z2 = [(1, ztest_att 1 0 21012 1 1 1000)]" "ct_items (z_ct z1) = []" "ct_items (z_ct z2) = [Resident zb1]"
      "z_db z2 = z_db z1" "z_db z1 = db_insert ztest zb1 (db_with_emitted_high ztest Map.empty 0)" by blast
  have "ct_items (z_ct (zt_start 2)) = []" by (simp add: zt_start_def)
  then have hd: "handed (zt_start 2) z1 = []" "handed z1 z2 = [Resident zb1]" using z by (simp_all add: handed_def)
  have "zeus_run zt_params B (zt_start 2) ([] @ handed (zt_start 2) z1) z1"
    by (rule zeus_run.turn [OF zeus_run.start _ s(1)])
      (use assms in \<open>simp add: event_ok_def blocks_in_def incoming_def msg_blocks_def\<close>)
  from zeus_run.turn [OF this _ s(2)] have "zeus_run zt_params B (zt_start 2) [Resident zb1] z2"
    by (simp add: hd event_ok_def incoming_def)
  moreover have "db_meta 21012 (z_db z2) \<noteq> None" using z(4,5) by (simp add: db_meta_def)
  ultimately show ?thesis using z(1) by blast
qed

text \<open>C8. However the turns of the loop, of the background writer and of the committer interleave, and
  whatever the network delivers: an epoch after the first was entered with an admitted certificate
  of the epoch before, which holds correctly signed blames of that epoch by more different nodes
  than can be faulty; every block of the store but genesis is signed by the leader of its epoch;
  and the commit lock holds at most one attestation.\<close>

theorem zeus_run_safe:
  assumes "zeus_booted P conf z0" "zeus_run P UNIV z0 log z"
  shows "(1 < z_epoch z \<longrightarrow> (\<exists>qc. z_qcs z (z_epoch z - 1) = Some qc \<and>
            z_faults z < card (eb_signer ` set (ec_blames qc)) \<and>
            (\<forall>bl \<in> set (ec_blames qc). eb_epoch bl = z_epoch z - 1 \<and>
               blame_signed_ok (zp_env P) (z_system z) bl))) \<and>
    (\<forall>h m. db_meta h (z_db z) = Some m \<longrightarrow> h = genesis_digest P \<or>
       (\<exists>b. data_block_hash (zp_env P) b = h \<and> m = meta_of_block b h \<and> verify_data_block_sig P b z)) \<and>
    length (z_lock z) \<le> 1"
proof -
  note ch = zeus_booted_init(2) [OF assms(1) UNIV_I]
  let ?B = "{b. b = data_genesis \<or> verify_data_block_sig P b z0}"
  obtain N L where i0: "zinv P N L UNIV z0" using zeus_booted_init(1) [OF assms(1) UNIV_I] by blast
  have g: "data_genesis \<in> ?B" by simp
  obtain N' L' where i1: "zinv P N' L' ?B z0" using zeus_booted_init(1) [OF assms(1) g] by blast
  from zeus_run_inv [OF zeus_run_signed [OF assms(2) i0 ch] i1 ch]
  have i: "zinv P N' L' ?B z" and st: "static_view z = static_view z0" by auto
  have "verify_data_block_sig P b z0 = verify_data_block_sig P b z" for b
    using st by (simp add: verify_data_block_sig_def static_view_def)
  then have B: "b \<in> ?B \<longleftrightarrow> b = data_genesis \<or> verify_data_block_sig P b z" for b by simp
  have "known_db (zp_env P) ?B (z_db z)" using i by (simp add: zinv_def known_def)
  then have meta: "\<exists>b. b \<in> ?B \<and> data_block_hash (zp_env P) b = h \<and> m = meta_of_block b h"
    if "db_meta h (z_db z) = Some m" for h m
    using that unfolding known_db_def by blast
  have "\<forall>h m. db_meta h (z_db z) = Some m \<longrightarrow> h = genesis_digest P \<or>
      (\<exists>b. data_block_hash (zp_env P) b = h \<and> m = meta_of_block b h \<and> verify_data_block_sig P b z)"
    using meta unfolding B genesis_digest_def by blast
  moreover have "qc_ok (zp_env P) (z_system z) (z_faults z) (z_epoch z - 1) qc"
    if "1 < z_epoch z" "z_qcs z (z_epoch z - 1) = Some qc" for qc
    using i that by (simp add: zinv_def zeus_cert_ok_def)
  moreover have "z_qcs z (z_epoch z - 1) \<noteq> None" "length (z_lock z) \<le> 1"
    using i by (simp_all add: zinv_def zeus_cert_ok_def)
  ultimately show ?thesis by (force simp: qc_ok_def)
qed

theorem zeus_run_safe_witness:
  "\<exists>z. zeus_run zt_params UNIV (zt_start 2) [Resident zb1] z \<and> length (z_lock z) = 1 \<and>
     (\<exists>b m. data_block_hash ztest b = 21012 \<and> db_meta 21012 (z_db z) = Some m \<and> m = meta_of_block b 21012 \<and>
        verify_data_block_sig zt_params b z)"
proof -
  obtain z where r: "zeus_run zt_params UNIV (zt_start 2) [Resident zb1] z" and l: "length (z_lock z) = 1"
    and m: "db_meta 21012 (z_db z) \<noteq> None" using zt_runs [of UNIV] by auto
  have "zeus_booted zt_params test_config (zt_start 2)" by (rule zt_booted) simp
  from zeus_run_safe [OF this r] have "\<forall>m. db_meta 21012 (z_db z) = Some m \<longrightarrow> (21012 :: digest) = 20000 \<or>
      (\<exists>b. data_block_hash ztest b = 21012 \<and> m = meta_of_block b 21012 \<and> verify_data_block_sig zt_params b z)"
    unfolding zt_params_sel zt_genesis by blast
  moreover have "(21012 :: digest) \<noteq> 20000" by simp
  ultimately have "\<exists>b m. data_block_hash ztest b = 21012 \<and> db_meta 21012 (z_db z) = Some m \<and>
      m = meta_of_block b 21012 \<and> verify_data_block_sig zt_params b z" using m by blast
  with r l show ?thesis by blast
qed



text \<open>What the overflow needs: the replica becomes the leader of an epoch while it has committed an
  attestation that claims the last 64-bit height. Whoever is the leader of a round can sign such an
  attestation: the claimed height is compared with nothing.\<close>

theorem claimed_height_overflows:
  assumes "zp_checked P" "\<not> z_overflow z" "z_qcs z (ec_epoch qc) = None"
    and "eleader_change_qc_valid (zp_env P) qc (z_system z) (z_faults z) (z_nodes z) = Ok True"
    and "z_epoch z \<le> ec_epoch qc" "ec_epoch qc + 1 < 2 ^ 64"
    and "latest_committed_attestation (z_lock z) = Some att" "ae_block_height (at_envelope att) + 1 = 2 ^ 64"
    and "eleader (ec_epoch qc + 1) (z_nodes z) = z_id z"
  shows "fst (zeus_step P (ZNet (Some (EleaderChangeQC qc))) z) = ZCrashed"
proof -
  let ?e = "ec_epoch qc"
  define z1 where "z1 = z\<lparr>z_qcs := (z_qcs z)(?e \<mapsto> qc),
    z_blames := (z_blames z)(?e \<mapsto> merge_blames (entry_list (z_blames z) ?e) (ec_blames qc))\<rparr>"
  have turn: "zeus_turn P (ZNet (Some (EleaderChangeQC qc))) z = (ZContinue, advance_past P ?e z1)"
    using assms(3,4) by (simp add: zeus_turn_def zeus_enabled_def dispatch_def on_eleader_change_qc_def Let_def
      z_logged_def z1_def)
  have "z_overflow (advance_past P ?e z1)"
    using assms(5-9)
    by (simp add: advance_past_def incremented_def mark_overflow_def z1_def advance_to_epoch_def Let_def arm_data_timer_def
      prime_batcher_def)
  then show ?thesis using assms(1,2) by (simp add: zeus_step_parts(2) turn overflowed_def)
qed

text \<open>C10. When the hash links of the correctly signed blocks that arrive do not run in circles (the
  hash grows in some rank from every parent to its child), every event of every run is handled to
  the end: neither the walk to a pinned block, nor the admission with its parked blocks, nor the
  head's walk, nor the commit walk hangs the replica.\<close>

theorem zeus_never_hangs:
  assumes "zeus_booted P conf z0" "data_genesis \<in> B" "ranked (zp_env P) B rank"
    and "zeus_run P B z0 log z" "event_ok P B z ev"
  shows "fst (zeus_step P ev z) \<noteq> ZHangs"
proof -
  obtain N L where i0: "zinv P N L B z0" using zeus_booted_init(1) [OF assms(1,2)] by blast
  have k: "known (zp_env P) B z"
    using zeus_run_inv [OF assms(4) i0 zeus_booted_init(2) [OF assms(1,2)]] by (simp add: zinv_def)
  have d: "(dispatch P m y = None) = False" if "y = z \<or> y = z\<lparr>z_loopback := tl (z_loopback z)\<rparr>"
    "incoming ev z = Some m" for m y
    using that k assms(5) dispatch_returns [OF _ assms(3), of y m]
    by (auto simp: known_def event_ok_def blocks_in_def verify_data_block_sig_def)
  have s: "(handle_sig_ordered P m (z\<lparr>z_rs := rs\<rparr>) = None) = False" for m rs
    using handle_sig_ordered_returns [OF _ assms(3), of "z\<lparr>z_rs := rs\<rparr>" m] k by (simp add: known_def)
  have c: "(on_committed_attestation r att z = None) = False" for r att
    using on_committed_links [OF k assms(3), of r att] by auto
  have "fst (zeus_turn P ev z) \<noteq> ZHangs"
  proof (cases "zeus_enabled ev z")
    case False
    then show ?thesis by (simp add: zeus_turn_def)
  next
    case True
    then show ?thesis
    proof (cases ev)
      case ZLoopback
      with True have "incoming ev z = Some (hd (z_loopback z))"
        by (auto simp: incoming_def zeus_enabled_def split: list.split)
      with d True ZLoopback show ?thesis by (simp add: zeus_turn_def Let_def)
    next
      case (ZNet m)
      with d True show ?thesis by (cases m) (simp_all add: zeus_turn_def incoming_def)
    next
      case (ZBatch b)
      with True show ?thesis by (cases b) (simp_all add: zeus_turn_def)
    next
      case (ZCommitted x)
      with True c show ?thesis by (cases x) (auto simp: zeus_turn_def simp del: not_None_eq)
    next
      case ZRound
      with True s show ?thesis
        by (cases "zr_pop_msg (z_rs z)"; cases "fst (zr_pop_msg (z_rs z))") (simp_all add: zeus_turn_def)
    qed (simp_all add: zeus_turn_def)
  qed
  then show ?thesis by (simp add: zeus_step_parts(2))
qed

theorem zeus_never_hangs_witness:
  "\<exists>z. zeus_run zt_params zt_blocks (zt_start 2) [Resident zb1] z \<and>
     fst (zeus_step zt_params (ZNet (Some (DataPropose zb1 1))) z) \<noteq> ZHangs"
proof -
  obtain z where r: "zeus_run zt_params zt_blocks (zt_start 2) [Resident zb1] z"
    using zt_runs [of zt_blocks] by (auto simp: zt_blocks_def)
  have b: "zeus_booted zt_params test_config (zt_start 2)" by (rule zt_booted) simp
  have "fst (zeus_step zt_params (ZNet (Some (DataPropose zb1 1))) z) \<noteq> ZHangs"
    by (rule zeus_never_hangs [OF b zt_ranked(1) _ r, of unat])
      (use zt_ranked in \<open>simp_all add: event_ok_def incoming_def blocks_in_def msg_blocks_def zt_blocks_def\<close>)
  with r show ?thesis by blast
qed

text \<open>C3. Under the same rank, the blocks a replica hands to its committer, over all commits of a run,
  are one chain from genesis: each is a correctly signed block whose parent is the one handed over
  before it, no block is handed over twice, and the replica's cursor is the last of them.\<close>

theorem zeus_commits_a_chain:
  assumes "zeus_booted P conf z0" "data_genesis \<in> B" "ranked (zp_env P) B rank" "zeus_run P B z0 log z"
  shows "linked_from (zp_env P) B (genesis_digest P) (map (item_hash (zp_env P)) log) \<and>
    distinct (genesis_digest P # map (item_hash (zp_env P)) log) \<and>
    z_last_committed z = last (genesis_digest P # map (item_hash (zp_env P)) log)"
proof -
  obtain N L where i0: "zinv P N L B z0" using zeus_booted_init(1) [OF assms(1,2)] by blast
  from zeus_run_chain [OF assms(4) i0 zeus_booted_init(2) [OF assms(1,2)] assms(3)
      zeus_booted_init(3) [OF assms(1,2)]]
  have "linked_from (zp_env P) B (genesis_digest P) (map (item_hash (zp_env P)) log)"
    "z_last_committed z = last (genesis_digest P # map (item_hash (zp_env P)) log)" by auto
  with linked_from_above [OF _ assms(3)] show ?thesis by fastforce
qed

theorem zeus_commits_a_chain_witness:
  "\<exists>z. zeus_run zt_params zt_blocks (zt_start 2) [Resident zb1] z \<and> z_last_committed z = 21012"
proof -
  obtain z where r: "zeus_run zt_params zt_blocks (zt_start 2) [Resident zb1] z"
    using zt_runs [of zt_blocks] by (auto simp: zt_blocks_def)
  have b: "zeus_booted zt_params test_config (zt_start 2)" by (rule zt_booted) simp
  have "ranked (zp_env zt_params) zt_blocks unat" using zt_ranked by simp
  from zeus_commits_a_chain [OF b zt_ranked(1) this r] r show ?thesis
    by (auto simp: item_hash_def)
qed

subsection \<open>Handlers that let faults through\<close>

text \<open>The height an attestation claims is never compared with the height of the block it pins: with
  nothing locked yet, any correctly signed attestation of a stored block is valid, and once it is
  committed every block below the claimed height conflicts with it. One leader of the signature
  chain can so stop the data plane.\<close>

theorem attestation_height_unchecked:
  assumes "z_system z (as_signer (at_sig att)) = Some pk"
    and "pk_verify (crypt (z_env (zp_env P))) pk (attestation_hash (zp_env P) att) (as_raw (at_sig att))"
    and "db_contains (ae_block_hash (at_envelope att)) (z_db z)" "z_lock z = []"
  shows "attestation_valid P att m z = Some (Valid, z) \<and>
    (\<forall>z' h ht par. on_committed_attestation r att z = Some z' \<longrightarrow> ht < att_height att \<longrightarrow>
       conflicts_data_prefix h ht par (z_lock z') (z_db z') = Some True)"
proof -
  have "attestation_valid P att m z = Some (Valid, z)"
    using assms by (auto simp: attestation_valid_def Let_def data_chain_valid_def db_contains_def db_meta_def)
  moreover have "z_lock z' = [(r, att)]" if "on_committed_attestation r att z = Some z'" for z'
    using on_committed_cases [OF that] assms(4) by (auto simp: update_lock_def)
  ultimately show ?thesis by simp
qed

text \<open>An attestation of the genesis block that claims height 7.\<close>

theorem attestation_height_unchecked_witness:
  "\<exists>z'. on_committed_attestation 1 (ztest_att 1 0 20000 7 1 1000) (zt_start 2) = Some z' \<and>
     conflicts_data_prefix 21012 1 20000 (z_lock z') (z_db z') = Some True"
proof -
  have c: "db_contains 20000 (db_with_emitted_high ztest Map.empty 0)"
    by (simp add: db_contains_def db_with_emitted_high_def db_with_byte_budget_def Let_def data_genesis_def)
  have w: "commit_prefix_walk (z_chain (zt_start 2), z_db (zt_start 2)) 7 20000 [] 0 None = Some ([], 0, None)"
    by (subst commit_prefix_walk.simps) (simp add: zt_start_def)
  have "on_committed_attestation 1 (ztest_att 1 0 20000 7 1 1000) (zt_start 2) \<noteq> None"
    using w by (simp add: on_committed_attestation_def Let_def zt_view [OF refl] att_height_def)
  then obtain z' where z': "on_committed_attestation 1 (ztest_att 1 0 20000 7 1 1000) (zt_start 2) = Some z'" by blast
  have "conflicts_data_prefix 21012 1 20000 (z_lock z') (z_db z') = Some True"
    using attestation_height_unchecked [where P = zt_params and z = "zt_start 2" and pk = "[0]"
        and att = "ztest_att 1 0 20000 7 1 1000" and r = 1] z' c
    by (simp add: zt_view(1,5) [OF refl] test_keys_def ztest_att_def Let_def att_height_def) (simp add: zt_start_def)
  with z' show ?thesis by blast
qed

text \<open>After a change of the leader of an epoch, the new leader's first block is refused wherever a
  child of the last committed block was admitted before: the leader builds on the committed block,
  whose entry in \<open>child_of\<close> the change does not clear, so the block counts as an equivocation
  and is not stored.\<close>

theorem new_leader_cannot_extend:
  assumes "zinv P N L B z" "z_qcs z e \<noteq> None" "z_epoch z \<le> e"
    and "latest_committed_attestation (z_lock z) = Some att"
    and "db_contains (ae_block_hash (at_envelope att)) (z_db z)"
    and "dc_child_of (z_chain z) (ae_block_hash (at_envelope att)) = Some c"
  shows "fst (next_block_position P (advance_past P e z)) = ae_block_hash (at_envelope att) \<and>
    (\<forall>b s x. b_parent b = ae_block_hash (at_envelope att) \<longrightarrow> data_block_hash (zp_env P) b \<noteq> c \<longrightarrow>
       on_data_propose P b s (advance_past P e z) = Some x \<longrightarrow> z_db (snd x) = z_db z)"
proof -
  let ?z = "advance_past P e z"
  have cert: "zeus_cert_ok P z" and k: "known (zp_env P) B z" using assms(1) by (simp_all add: zinv_def)
  note past = advance_past_ok [OF cert assms(2)]
  have f: "ctl_frame ?z = ctl_frame z" using past(1) by (simp add: ctl_step_def)
  then have db: "z_db ?z = z_db z" and child: "dc_child_of (z_chain ?z) = dc_child_of (z_chain z)"
    and lock: "z_lock ?z = z_lock z" by (simp_all add: ctl_frame_def)
  obtain m where m: "db_meta (ae_block_hash (at_envelope att)) (z_db z) = Some m"
    using assms(5) by (auto simp: db_contains_def db_meta_def)
  then have "dm_hash m = ae_block_hash (at_envelope att)"
    using k unfolding known_def known_db_def meta_of_block_def by fastforce
  moreover have "z_last_proposed ?z = None"
    using assms(3)
    by (simp add: advance_past_def advance_to_epoch_def Let_def case_prod_beta arm_data_timer_def prime_batcher_def mark_overflow_def)
  ultimately have "fst (next_block_position P ?z) = ae_block_hash (at_envelope att)"
    using m assms(4) lock db by (simp add: next_block_position_def Let_def)
  moreover have "z_db (snd x) = z_db z"
    if "b_parent b = ae_block_hash (at_envelope att)" "data_block_hash (zp_env P) b \<noteq> c"
      "on_data_propose P b s ?z = Some x" for b s x
  proof -
    have "x = (Ok (), ?z) \<or> x = on_equivocation P c b ?z"
      using that assms(6) child by (auto simp: on_data_propose_def Let_def split: if_splits)
    moreover have "z_db (snd (on_equivocation P c b ?z)) = z_db ?z"
      using on_equivocation_ok(1) [OF past(2), of c b] by (simp add: ctl_ok_def ctl_step_def ctl_frame_def)
    ultimately show ?thesis using db by auto
  qed
  ultimately show ?thesis by blast
qed

text \<open>The replica that admitted the first block, with genesis committed and epoch 1 blamed by nodes 2 and 3.\<close>

definition zt_silence :: "node_id \<Rightarrow> nat eleader_blame" where
  "zt_silence i = \<lparr>eb_epoch = 1, eb_reason = Silence, eb_payload = SilenceP 0, eb_signer = i, eb_raw = [of_nat i, 114]\<rparr>"

lemma zt_silence_qc:
  "qc_ok ztest test_keys 1 1 \<lparr>ec_epoch = 1, ec_blames = [zt_silence 2, zt_silence 3]\<rparr>"
  by (simp add: qc_ok_def zt_silence_def blame_signed_ok_def blame_signed_bytes_def test_keys_def
      silence_payload_bytes_def u64_le_bytes_def)

theorem new_leader_cannot_extend_witness:
  "\<exists>z. z_epoch (advance_past zt_params 1 z) = 2 \<and> z_lock z = [(1, ztest_att 1 0 20000 0 0 1000)] \<and>
     fst (next_block_position zt_params (advance_past zt_params 1 z)) = 20000 \<and>
     (\<forall>x. on_data_propose zt_params (ztest_block 4 2 1 20000 [9]) 2 (advance_past zt_params 1 z) = Some x \<longrightarrow>
        z_db (snd x) = z_db z)"
proof -
  obtain z1 where s: "zeus_step zt_params (ZNet (Some (DataPropose zb1 1))) (zt_start 2) = (ZContinue, z1)"
    and db: "z_db z1 = db_insert ztest zb1 (db_with_emitted_high ztest Map.empty 0)"
    and child: "dc_child_of (z_chain z1) = [20000 \<mapsto> 21012]" and v: "ctl_view z1 = ctl_view (zt_start 2)"
    using zt_run by blast
  have b: "zeus_booted zt_params test_config (zt_start 2)" by (rule zt_booted) simp
  have ev: "event_ok zt_params UNIV (zt_start 2) ev" for ev by (simp add: event_ok_def blocks_in_def)
  note ch = zeus_booted_init(2) [OF b UNIV_I]
  obtain N L where i0: "zinv zt_params N L UNIV (zt_start 2)" using zeus_booted_init(1) [OF b UNIV_I] by blast
  have i1: "zinv zt_params N L UNIV z1" using zeus_step_inv(1) [OF i0 ch ev s] .
  note sys = zt_view(1,3,4) [OF v]
  let ?att = "ztest_att 1 0 20000 0 0 1000" and ?qc = "\<lparr>ec_epoch = 1, ec_blames = [zt_silence 2, zt_silence 3]\<rparr>"
  define z where "z = z1\<lparr>z_qcs := (z_qcs z1)(1 \<mapsto> ?qc), z_lock := [(1, ?att)]\<rparr>"
  have "zeus_cert_ok zt_params (z1\<lparr>z_qcs := (z_qcs z1)(1 \<mapsto> ?qc)\<rparr>)"
    using i1 zt_silence_qc by (intro zeus_cert_ok_add_qc) (simp_all add: zinv_def sys)
  then have "zinv zt_params N L UNIV z"
    using i1 by (simp add: zinv_def z_def zeus_leader_ok_def zeus_cert_ok_def msgs_ok_def known_def)
  moreover have "z_qcs z 1 \<noteq> None" "z_epoch z \<le> 1" using sys by (simp_all add: z_def)
  moreover have "latest_committed_attestation (z_lock z) = Some ?att"
    by (simp add: z_def latest_committed_attestation_def max_att_def)
  moreover have "db_contains (ae_block_hash (at_envelope ?att)) (z_db z)"
    by (simp add: z_def db db_contains_def db_with_emitted_high_def db_with_byte_budget_def Let_def data_genesis_def)
  moreover have "dc_child_of (z_chain z) (ae_block_hash (at_envelope ?att)) = Some 21012" by (simp add: z_def child)
  ultimately have c: "fst (next_block_position zt_params (advance_past zt_params 1 z)) = ae_block_hash (at_envelope ?att) \<and>
     (\<forall>b s x. b_parent b = ae_block_hash (at_envelope ?att) \<longrightarrow> data_block_hash (zp_env zt_params) b \<noteq> 21012 \<longrightarrow>
        on_data_propose zt_params b s (advance_past zt_params 1 z) = Some x \<longrightarrow> z_db (snd x) = z_db z)"
    by (rule new_leader_cannot_extend)
  have "z_db (snd x) = z_db z"
    if "on_data_propose zt_params (ztest_block 4 2 1 20000 [9]) 2 (advance_past zt_params 1 z) = Some x" for x
    using conjunct2 [OF c, rule_format, OF _ _ that] by simp
  moreover have "z_epoch (advance_past zt_params 1 z) = 2"
    using sys by (simp add: advance_past_def advance_to_epoch_step(2) z_def incremented_def)
  ultimately show ?thesis using c by (intro exI [of _ z]) (auto simp: z_def)
qed

lemma send_got [simp]:
  "zr_got_qc (z_rs (z_broadcast P m z)) = zr_got_qc (z_rs z)"
  "zr_got_qc (z_rs (snd (z_send_loopback m z))) = zr_got_qc (z_rs z)"
  "zr_got_qc (z_rs (disarm_data_timer z)) = zr_got_qc (z_rs z)"
  by (simp_all add: z_broadcast_def z_send_loopback_def disarm_data_timer_def)

lemma handle_new_sig_round_got [simp]:
  "zr_got_qc (z_rs (snd (handle_new_sig_round P z))) = zr_got_qc (z_rs z)"
  unfolding handle_new_sig_round_def Let_def bind_s_def case_prod_beta
  by (cases "make_attestation P (zr_round (z_rs z)) (disarm_data_timer (z\<lparr>z_waiting := False\<rparr>))")
    (simp_all, simp split: outcome.split)

lemma advance_sig_round_got:
  assumes "zeus_leader_ok N L z" "chooser_ok (zp_pick P)"
  shows "\<not> zr_got_qc (z_rs (snd (advance_sig_round P z)))"
proof -
  obtain z1 where z1: "advance_rounds P z = (Ok (), z1)" "\<not> zr_got_qc (z_rs z1)"
    using advance_rounds_ok [OF assms] by blast
  have p: "zr_got_qc (z_rs (snd (propose_if_leader P y))) = zr_got_qc (z_rs y)" for y
    using handle_new_sig_round_got [of P y] handle_new_sig_round_no_panic [of P y]
    by (cases "handle_new_sig_round P y"; cases "fst (handle_new_sig_round P y)") (auto simp: propose_if_leader_def)
  obtain r2 z2 where z2: "z_try_commit z1 = (r2, z2)" by fastforce
  then have g2: "\<not> zr_got_qc (z_rs z2)" using z1(2) by (auto simp: z_try_commit_def split: if_splits)
  let ?z3 = "arm_data_timer TimerDataRoundEntry z2"
  have "\<not> zr_got_qc (z_rs (snd (propose_if_leader P ?z3)))" using p [of ?z3] g2 by (simp add: arm_data_timer_def)
  moreover have "advance_sig_round P z = (case r2 of Ok _ \<Rightarrow> propose_if_leader P ?z3 | Err e \<Rightarrow> (Err e, z2)
      | Panic \<Rightarrow> (Panic, z2))"
    using z1 z2 by (simp add: advance_sig_round_def bind_s_def split: outcome.split)
  ultimately show ?thesis using g2 by (simp split: outcome.split)
qed

text \<open>What a certificate of a skipped round does, whatever its round.\<close>

lemma blame_qc_advances:
  assumes "zeus_leader_ok N L z" "chooser_ok (zp_pick P)" "\<not> zr_got_qc (z_rs z)"
    and "certificate_verify (crypt (z_env (zp_env P))) qc (round_hash P r) (z_system z) = Ok ()"
    and "zr_msg_buf (z_rs z) = SigBlameQC r qc # ms" "zeus_step P ZRound z = (res, z')"
  shows "zeus_leader_ok N L z'" "\<not> zr_got_qc (z_rs z')" "zr_round (z_rs z') = Suc (zr_round (z_rs z))"
    "z_system z' = z_system z" "\<exists>ms'. zr_msg_buf (z_rs z') = ms @ ms'"
proof -
  define z1 where "z1 = z\<lparr>z_rs := (z_rs z)\<lparr>zr_msg_buf := ms, zr_got_qc := True\<rparr>\<rparr>"
  define z2 where "z2 = (z_broadcast P (SigBlameQC r qc) z1)
    \<lparr>z_cs := add_qc r qc (z_cs (z_broadcast P (SigBlameQC r qc) z1))\<rparr>"
  obtain res0 where "zeus_turn P ZRound z = (res0, z')" using assms(6) unfolding zeus_step_turn by blast
  then have "z_logged (z\<lparr>z_rs := (z_rs z)\<lparr>zr_msg_buf := ms\<rparr>\<rparr>) (Some (advance_sig_round P z2)) = (res0, z')"
    using assms(3-5)
    by (simp add: zeus_turn_def zeus_enabled_def zr_is_ready_def zr_pop_msg_def handle_sig_ordered_def
        on_sig_blame_qc_def handle_sig_blame_qc_def Let_def z2_def z1_def)
  then have z': "z' = snd (advance_sig_round P z2)"
    by (cases "advance_sig_round P z2"; cases "fst (advance_sig_round P z2)") (auto simp: z_logged_def)
  have l2: "zeus_leader_ok N L z2" using assms(1) by (simp add: zeus_leader_ok_def z2_def z1_def z_broadcast_def)
  have "zr_round (z_rs z2) = zr_round (z_rs z)" "zr_msg_buf (z_rs z2) = ms" "z_system z2 = z_system z"
    by (simp_all add: z2_def z1_def z_broadcast_def)
  with advance_sig_round_ok [OF l2 assms(2)] advance_sig_round_got [OF l2 assms(2)]
    ctl_viewD(3) [OF data_viewD(1) [OF advance_sig_round_view(1) [of P z2]]]
  show "zeus_leader_ok N L z'" "\<not> zr_got_qc (z_rs z')" "zr_round (z_rs z') = Suc (zr_round (z_rs z))"
    "z_system z' = z_system z" "\<exists>ms'. zr_msg_buf (z_rs z') = ms @ ms'"
    unfolding z' by auto
qed

text \<open>A certificate of a skipped round does not name the round it ends: it is checked against its own
  round only and ends the current one. Two copies that wait together (every node broadcasts the
  certificate it gets) end two rounds, the second of which nobody blamed.\<close>

theorem stale_certificate_skips_round:
  assumes "zeus_leader_ok N L z" "chooser_ok (zp_pick P)" "\<not> zr_got_qc (z_rs z)"
    and "certificate_verify (crypt (z_env (zp_env P))) qc (round_hash P r) (z_system z) = Ok ()"
    and "zr_msg_buf (z_rs z) = SigBlameQC r qc # SigBlameQC r qc # ms"
    and "zeus_step P ZRound z = (res1, z1)" "zeus_step P ZRound z1 = (res2, z2)"
  shows "zr_round (z_rs z2) = zr_round (z_rs z) + 2"
proof -
  note s1 = blame_qc_advances [OF assms(1-6)]
  obtain ms' where "zr_msg_buf (z_rs z1) = SigBlameQC r qc # ms @ ms'" using s1(5) by auto
  from blame_qc_advances(3) [OF s1(1) assms(2) s1(2) _ this assms(7)] s1(3,4) assms(4) show ?thesis by simp
qed

theorem stale_certificate_skips_round_witness:
  "\<exists>z. zr_round (z_rs z) = 1 \<and> zr_round (z_rs (snd (zeus_step zt_params ZRound (snd (zeus_step zt_params ZRound z))))) = 3"
proof -
  define z where "z = (zt_start 2)\<lparr>z_rs := (zr_new 4)\<lparr>zr_msg_buf :=
    [SigBlameQC 1 certificate_empty, SigBlameQC 1 certificate_empty]\<rparr>\<rparr>"
  have b: "zeus_booted zt_params test_config (zt_start 2)" by (rule zt_booted) simp
  obtain N L where "zinv zt_params N L UNIV (zt_start 2)" using zeus_booted_init(1) [OF b UNIV_I] by blast
  then have l: "zeus_leader_ok N L z" by (simp add: zinv_def zeus_leader_ok_def z_def)
  have g: "\<not> zr_got_qc (z_rs z)" "zr_round (z_rs z) = 1" by (simp_all add: z_def zr_new_def)
  have v: "certificate_verify (crypt (z_env (zp_env zt_params))) certificate_empty (round_hash zt_params 1) (z_system z) = Ok ()"
    by (simp add: certificate_verify_def certificate_empty_def)
  have m: "zr_msg_buf (z_rs z) = SigBlameQC 1 certificate_empty # SigBlameQC 1 certificate_empty # []"
    by (simp add: z_def)
  obtain r1 z1 where s1: "zeus_step zt_params ZRound z = (r1, z1)" by fastforce
  obtain r2 z2 where s2: "zeus_step zt_params ZRound z1 = (r2, z2)" by fastforce
  have "zr_round (z_rs z2) = zr_round (z_rs z) + 2"
    by (rule stale_certificate_skips_round [OF l _ g(1) v m s1 s2]) (simp add: test_pick_ok)
  with g s1 s2 show ?thesis by (intro exI [of _ z]) simp
qed

text \<open>
  Two blocks parked under the same missing parent: the second is admitted as well, and the entry of
  the parent in \<open>child_of\<close> then names the second.
\<close>

lemma parked_run:
  assumes "zhead z = b_parent p" "data_block_hash (zp_env P) p = hp"
    and "dc_pending (z_chain z) = [hp \<mapsto> [a, b]]" "b_parent a = hp" "b_parent b = hp"
    and "dc_child_of (z_chain z) (data_block_hash (zp_env P) a) = None"
    and "data_block_hash (zp_env P) a \<noteq> hp" "data_block_hash (zp_env P) a \<noteq> b_parent p"
  shows "\<exists>z'. admit_and_wake P p z = Some (Ok (), z') \<and>
    dc_child_of (z_chain z') hp = Some (data_block_hash (zp_env P) b) \<and>
    dc_child_of (z_chain z') (b_parent p) = (if b_parent p = hp then Some (data_block_hash (zp_env P) b) else Some hp) \<and>
    z_db z' = db_insert (zp_env P) b (db_insert (zp_env P) a (db_insert (zp_env P) p (z_db z))) \<and>
    ctl_view z' = ctl_view z"
proof -
  let ?ha = "data_block_hash (zp_env P) a" and ?hb = "data_block_hash (zp_env P) b"
  have idle: "admit_run P DrainPending y = Some (Ok (), snd (take_pending y))" if "dc_pending (z_chain y) (zhead y) = None" for y
    using that by (cases "take_pending y") (subst admit_run.simps, use take_pending_view(7) [of y] in \<open>simp add: entry_list_def\<close>)
  define z1 where "z1 = insert_and_advance P p hp (b_parent p) z"
  have z1: "z_chain z1 = (z_chain z)\<lparr>dc_child_of := (dc_child_of (z_chain z))(b_parent p \<mapsto> hp), dc_head_hash := hp,
      dc_head_height := b_height p\<rparr>" "z_db z1 = db_insert (zp_env P) p (z_db z)" "ctl_view z1 = ctl_view z"
    by (simp_all add: z1_def insert_and_advance_eq)
  define z2 where "z2 = snd (take_pending z1)"
  have z2: "z_chain z2 = (z_chain z1)\<lparr>dc_pending := Map.empty\<rparr>" "z_db z2 = z_db z1" "ctl_view z2 = ctl_view z"
    "fst (take_pending z1) = [a, b]"
    using z1 assms(3) by (simp_all add: z2_def entry_list_def)
  define z3 where "z3 = drain_head (snd (take_pending (insert_and_advance P a ?ha hp z2)))"
  have z3: "z_chain z3 = (z_chain z2)\<lparr>dc_child_of := (dc_child_of (z_chain z2))(hp \<mapsto> ?ha), dc_head_hash := ?ha,
      dc_head_height := b_height a\<rparr>" "z_db z3 = db_insert (zp_env P) a (z_db z2)" "ctl_view z3 = ctl_view z"
    using z2 by (simp_all add: z3_def insert_and_advance_eq fun_upd_idem)
  have a: "admit_run P (AdmitBlock a) z2 = Some (Ok (), z3)"
    using assms(4) z1 z2
    by (subst admit_run.simps) (simp add: bind_z_def z3_def idle insert_and_advance_eq Let_def)
  define z4 where "z4 = drain_head (snd (take_pending (insert_non_head P b ?hb hp z3)))"
  have z4: "z_chain z4 = (z_chain z3)\<lparr>dc_child_of := (dc_child_of (z_chain z3))(hp \<mapsto> ?hb)\<rparr>"
    "z_db z4 = db_insert (zp_env P) b (z_db z3)" "ctl_view z4 = ctl_view z"
    using z3 z2 by (simp_all add: z4_def fun_upd_idem)
  have stay: "advance_head_via_child_of P y = Some (Ok (), y)" if "dc_child_of (z_chain y) (zhead y) = None" for y
    using that by (subst advance_head_via_child_of.simps) simp
  have "dc_child_of (z_chain (snd (take_pending (insert_non_head P b ?hb hp z3)))) ?ha = None"
    using assms(6-8) z1 z2 z3 by simp
  moreover have "db_contains hp (z_db z3)" using assms(2) z1(2) z2(2) z3(2) by simp
  ultimately have b: "admit_run P (AdmitBlock b) z3 = Some (Ok (), z4)"
    using assms(5,7) z1 z2 z3
    by (subst admit_run.simps) (simp add: bind_z_def z4_def idle stay Let_def)
  have "admit_run P (AdmitAll [b]) z3 = Some (Ok (), z4)"
    using b by (subst admit_run.simps) (simp add: bind_z_def, subst admit_run.simps, simp)
  then have "admit_run P (AdmitAll [a, b]) z2 = Some (Ok (), z4)"
    using a by (subst admit_run.simps) (simp add: bind_z_def)
  moreover have "admit_run P DrainPending z4 = Some (Ok (), snd (take_pending z4))"
    using z2 z3 z4 by (intro idle) simp
  ultimately have "admit_run P DrainPending z1 = Some (Ok (), snd (take_pending z4))"
    using z2(4) by (subst admit_run.simps) (simp add: bind_z_def z2_def case_prod_beta)
  then have "admit_run P (AdmitBlock p) z = Some (Ok (), drain_head (snd (take_pending z4)))"
    using assms(1,2) by (subst admit_run.simps) (simp add: bind_z_def z1_def)
  then have w: "admit_and_wake P p z = Some (process_wakeup P (drain_head (snd (take_pending z4))))"
    by (simp add: admit_and_wake_def admit_data_block_def bind_z_def ret_def)
  let ?z = "snd (process_wakeup P (drain_head (snd (take_pending z4))))"
  have "data_view ?z = data_view (drain_head (snd (take_pending z4)))" by (rule process_wakeup_result)
  note d = data_viewD [OF this]
  show ?thesis
    using w process_wakeup_result(1) [of P "drain_head (snd (take_pending z4))"] d z1 z2 z3 z4
    by (intro exI [of _ ?z]) (simp add: prod_eq_iff)
qed

lemma admit_missing:
  assumes "b_parent b \<noteq> zhead z" "\<not> db_contains (b_parent b) (z_db z)" "b_parent b \<noteq> genesis_digest P"
  shows "\<exists>z'. admit_and_wake P b z = Some (Ok (), z') \<and> ctl_view z' = ctl_view z \<and> z_db z' = z_db z \<and>
    z_chain z' = (z_chain z)\<lparr>dc_pending := push_entry (b_parent b) b (dc_pending (z_chain z))\<rparr>"
proof -
  let ?z = "snd (process_wakeup P (park_block P b z))"
  have "admit_run P (AdmitBlock b) z = Some (Ok (), park_block P b z)"
    using assms by (subst admit_run.simps) simp
  then have "admit_and_wake P b z = Some (Ok (), ?z)"
    using process_wakeup_result(1) [of P "park_block P b z"]
    by (simp add: admit_and_wake_def admit_data_block_def bind_z_def ret_def prod_eq_iff)
  moreover have "data_view ?z = data_view (park_block P b z)" by (rule process_wakeup_result)
  note data_viewD [OF this]
  ultimately show ?thesis using assms(3) by (intro exI [of _ ?z]) (simp add: genesis_digest_def)
qed

abbreviation "zba \<equiv> ztest_block 4 1 2 21012 [7]"
abbreviation "zbb \<equiv> ztest_block 4 1 2 21012 [7, 8]"

lemma zt_propose:
  assumes "ctl_view z = ctl_view (zt_start 2)" "\<not> db_contains (data_block_hash ztest (ztest_block 4 1 h par txs)) (z_db z)"
    and "dc_child_of (z_chain z) par = None"
    and "admit_and_wake zt_params (ztest_block 4 1 h par txs) z = Some (Ok (), z')"
  shows "zeus_step zt_params (ZNet (Some (DataPropose (ztest_block 4 1 h par txs) 1))) z = (ZContinue, z')"
proof -
  note v = zt_view [OF assms(1)]
  have "verify_data_block_sig zt_params (ztest_block 4 1 h par txs) z"
    using zt_verify [of 1 h par txs 2] v by (simp add: verify_data_block_sig_def zt_view [OF refl])
  then have "on_data_propose zt_params (ztest_block 4 1 h par txs) 1 z = Some (Ok (), z')"
    using assms(2-4) v by (simp add: on_data_propose_def eleader_def epoch_gate_valid_def)
  then show ?thesis by (simp add: zt_step zeus_turn_def zeus_enabled_def dispatch_def z_logged_def)
qed

text \<open>Equivocation goes unnoticed when the two blocks arrive before their parent: both are parked,
  both are admitted when the parent arrives, no blame is cast, and the second takes the first one's
  place in \<open>child_of\<close>. A committed attestation that pins the first block then commits the second.\<close>

theorem parked_equivocation:
  "\<exists>z1 z2 z3 z4. zeus_step zt_params (ZNet (Some (DataPropose zba 1))) (zt_start 2) = (ZContinue, z1) \<and>
     zeus_step zt_params (ZNet (Some (DataPropose zbb 1))) z1 = (ZContinue, z2) \<and>
     zeus_step zt_params (ZNet (Some (DataPropose zb1 1))) z2 = (ZContinue, z3) \<and>
     zeus_step zt_params (ZCommitted (Some (1, ztest_att 1 0 (data_block_hash ztest zba) 2 1 1000))) z3 = (ZContinue, z4) \<and>
     z_blames z4 = Map.empty \<and> ct_items (z_ct z4) = [Resident zb1, Resident zbb] \<and>
     z_last_committed z4 = data_block_hash ztest zbb"
proof -
  have h: "data_block_hash ztest zb1 = 21012" "data_block_hash ztest zba = 21021" "data_block_hash ztest zbb = 21022"
    by simp_all
  let ?db = "db_with_emitted_high ztest Map.empty 0 :: (ztest_db, nat, zser) data_block_db"
  have nc: "db_contains x ?db = (x = 20000)" for x
    by (simp add: db_contains_def db_with_emitted_high_def db_with_byte_budget_def Let_def data_genesis_def)
  have ch: "z_chain (zt_start 2) = \<lparr>dc_head_hash = 20000, dc_head_height = 0, dc_child_of = Map.empty, dc_pending = Map.empty\<rparr>"
    "z_db (zt_start 2) = ?db" by (simp_all add: zt_start_def)
  obtain z1 where a1: "admit_and_wake zt_params zba (zt_start 2) = Some (Ok (), z1)"
    and z1: "ctl_view z1 = ctl_view (zt_start 2)" "z_db z1 = ?db"
      "z_chain z1 = \<lparr>dc_head_hash = 20000, dc_head_height = 0, dc_child_of = Map.empty, dc_pending = [21012 \<mapsto> [zba]]\<rparr>"
    using admit_missing [of zba "zt_start 2" zt_params] by (auto simp: ch nc push_entry_def extend_entry_def)
  obtain z2 where a2: "admit_and_wake zt_params zbb z1 = Some (Ok (), z2)"
    and z2: "ctl_view z2 = ctl_view (zt_start 2)" "z_db z2 = ?db"
      "z_chain z2 = \<lparr>dc_head_hash = 20000, dc_head_height = 0, dc_child_of = Map.empty, dc_pending = [21012 \<mapsto> [zba, zbb]]\<rparr>"
    using admit_missing [of zbb z1 zt_params] by (auto simp: z1 nc push_entry_def extend_entry_def entry_list_def)
  obtain z3 where a3: "admit_and_wake zt_params zb1 z2 = Some (Ok (), z3)"
    and z3: "ctl_view z3 = ctl_view (zt_start 2)" "z_db z3 = db_insert ztest zbb (db_insert ztest zba (db_insert ztest zb1 ?db))"
      "dc_child_of (z_chain z3) 21012 = Some 21022" "dc_child_of (z_chain z3) 20000 = Some 21012"
    using parked_run [of z2 zb1 zt_params 21012 zba zbb] unfolding zt_params_sel h by (auto simp: z2 simp del: ztest_sel)
  have s1: "zeus_step zt_params (ZNet (Some (DataPropose zba 1))) (zt_start 2) = (ZContinue, z1)"
    by (rule zt_propose [OF refl _ _ a1]) (simp_all only: h ch nc, simp_all)
  have s2: "zeus_step zt_params (ZNet (Some (DataPropose zbb 1))) z1 = (ZContinue, z2)"
    by (rule zt_propose [OF z1(1) _ _ a2]) (simp_all only: h z1 nc, simp_all)
  have s3: "zeus_step zt_params (ZNet (Some (DataPropose zb1 1))) z2 = (ZContinue, z3)"
    by (rule zt_propose [OF z2(1) _ _ a3]) (simp_all only: h z2 nc, simp_all)
  have m: "db_meta 21012 (z_db z3) = Some (meta_of_block zb1 21012)" "db_cache_get 21012 (z_db z3) = Some zb1"
    "db_meta 21022 (z_db z3) = Some (meta_of_block zbb 21022)" "db_cache_get 21022 (z_db z3) = Some zbb"
    unfolding z3(2)
    by (simp_all add: db_meta_def db_cache_get_def db_with_emitted_high_def db_with_byte_budget_def Let_def data_genesis_def
        db_insert_def cache_put_def evict.simps DEFAULT_DATA_BLOCK_CACHE_BYTES_def block_size_def meta_of_block_def)
  have w: "commit_prefix_walk (z_chain z3, z_db z3) 2 20000 [] 0 None = Some ([Resident zb1, Resident zbb], 2, Some 21022)"
    using m z3(3,4)
    by (subst commit_prefix_walk.simps, simp add: meta_of_block_def)
      (subst commit_prefix_walk.simps, simp add: meta_of_block_def)
  define z4 where "z4 = z3\<lparr>z_lock := [(1, ztest_att 1 0 21021 2 1 1000)], z_committed_high := 2,
    z_last_committed := 21022, z_ct := (z_ct z3)\<lparr>ct_items := ct_items (z_ct z3) @ [Resident zb1, Resident zbb]\<rparr>\<rparr>"
  have "on_committed_attestation 1 (ztest_att 1 0 21021 2 1 1000) z3 = Some z4"
    using w zt_view [OF z3(1)]
    by (simp add: on_committed_attestation_def Let_def att_height_def update_lock_def z4_def)
  then have s4: "zeus_step zt_params (ZCommitted (Some (1, ztest_att 1 0 21021 2 1 1000))) z3 = (ZContinue, z4)"
    by (simp add: zt_step zeus_turn_def zeus_enabled_def z_logged_def)
  have "z_blames z3 = Map.empty" using ctl_viewD(8) [OF z3(1)] by (simp add: zt_start_def)
  then have "z_blames z4 = Map.empty" "ct_items (z_ct z4) = [Resident zb1, Resident zbb]" "z_last_committed z4 = 21022"
    using zt_view(8) [OF z3(1)] by (simp_all add: z4_def)
  with s1 s2 s3 s4 show ?thesis unfolding h by blast
qed

end
