(* ===== verification/HeraTypes.thy ===== *)
theory HeraTypes
  imports ZeusTypes
begin

section \<open>Hera: heads, multi-attestations and messages\<close>

text \<open>
  \<^verbatim>\<open>types/hera.rs\<close> and \<^verbatim>\<open>types/hera_msg.rs\<close>. In Hera every node leads its own chain of data blocks,
  and a batch of the signature chain holds a multi-attestation: the heads of all chains its maker
  has fresh data of, and the authors it has none of. Data blocks and the attestation's signature
  are Zeus's. The cached hash of the code is recomputed here.
\<close>

record data_head =
  dh_author :: node_id
  dh_hash :: digest
  dh_height :: nat
  dh_epoch :: nat

record multi_envelope =
  me_epoch_s :: nat
  me_round_s :: round
  me_parent_s :: digest
  me_heads :: "data_head list"
  me_blames :: "node_id list"

record multi_attestation =
  ma_envelope :: multi_envelope
  ma_sig :: attestation_sig

definition multi_attestation_new :: "multi_envelope \<Rightarrow> attestation_sig \<Rightarrow> multi_attestation" where
  "multi_attestation_new en sg = \<lparr>ma_envelope = en, ma_sig = sg\<rparr>"

lemma multi_attestation_new_sel [simp]:
  "ma_envelope (multi_attestation_new en sg) = en" "ma_sig (multi_attestation_new en sg) = sg"
  by (simp_all add: multi_attestation_new_def)

definition max_head_height :: "multi_attestation \<Rightarrow> nat" where
  "max_head_height a = foldl max 0 (map dh_height (me_heads (ma_envelope a)))"

text \<open>The methods a multi-attestation must have to be a transaction; their values are constants.\<close>

definition ma_client_id :: "multi_attestation \<Rightarrow> node_id" where
  "ma_client_id a = 0"

definition ma_nonce :: "multi_attestation \<Rightarrow> nonce" where
  "ma_nonce a = 0"

definition ma_is_sample :: "multi_attestation \<Rightarrow> bool" where
  "ma_is_sample a = False"

definition ma_get_id :: "multi_attestation \<Rightarrow> nat" where
  "ma_get_id a = 0"

datatype 'tx hera_msg =
    HSigPropose proposal signature multi_attestation node_id
  | HSigRelay proposal signature digest node_id
  | HSigBlame round signature
  | HSigBlameQC round certificate
  | HAttestationRequest node_id request
  | HAttestationResponse "multi_attestation response"
  | HSigElementRequest node_id request
  | HSigElementResponse "multi_attestation element response"
  | HDataPropose "'tx data_block" node_id
  | HDataRequest digest node_id
  | HDataResponse "'tx data_block"

text \<open>The environment: the signature chain is a Leto chain of multi-attestations.\<close>

record ('s, 'tx, 'b) henv =
  h_env :: "('s, multi_attestation, 'b) env"
  hc_block :: "('tx data_block_envelope, 'b) codec"
  hc_multi :: "(multi_envelope, 'b) codec"

definition henv_ok :: "('s, 'tx, 'b) henv \<Rightarrow> bool" where
  "henv_ok he \<longleftrightarrow> env_ok (h_env he) \<and> codec_ok (hc_block he) \<and> codec_ok (hc_multi he)"

definition hera_block_hash :: "('s, 'tx, 'b) henv \<Rightarrow> 'tx data_block \<Rightarrow> digest" where
  "hera_block_hash he b = ser_and_hash (crypt (h_env he)) (hc_block he) (db_envelope b)"

definition multi_attestation_hash :: "('s, 'tx, 'b) henv \<Rightarrow> multi_attestation \<Rightarrow> digest" where
  "multi_attestation_hash he a = ser_and_hash (crypt (h_env he)) (hc_multi he) (ma_envelope a)"

definition multi_attestation_eq ::
  "('s, 'tx, 'b) henv \<Rightarrow> multi_attestation \<Rightarrow> multi_attestation \<Rightarrow> bool" where
  "multi_attestation_eq he a a' \<longleftrightarrow> multi_attestation_hash he a = multi_attestation_hash he a'"

lemma foldl_max_upper: "k \<le> foldl max (k::nat) xs" "x \<in> set xs \<Longrightarrow> x \<le> foldl max k xs"
proof (induction xs arbitrary: k)
  case (Cons y ys)
  { case 1
    show ?case using Cons.IH(1) [of "max k y"] by simp }
  { case 2
    then show ?case using Cons.IH(1) [of "max k y"] Cons.IH(2) [of "max k y"] by auto }
qed simp_all

lemma max_head_height_ge:
  "e \<in> set (me_heads (ma_envelope a)) \<Longrightarrow> dh_height e \<le> max_head_height a"
  unfolding max_head_height_def by (rule foldl_max_upper) simp

end
