(* ===== verification/HeraRound.thy ===== *)
theory HeraRound
  imports RoundContext HeraTypes
begin

section \<open>The round state of Hera's signature plane\<close>

text \<open>
  \<^verbatim>\<open>HeraRoundState\<close> of \<^verbatim>\<open>server/hera/core.rs\<close>, and the split of the inbound messages into the two
  planes. It is a \<open>round_buffer\<close>; like Zeus's it keeps what a finished round left unread. The
  network drops messages instead of cancelling them, so there are no cancel handlers.
\<close>

record 'tx hera_round_state =
  hr_round :: round
  hr_msg_buf :: "'tx hera_msg list"
  hr_future :: "round \<rightharpoonup> 'tx hera_msg list"
  hr_blame_map :: "node_id \<rightharpoonup> signature"
  hr_got_qc :: bool
  hr_num_nodes :: nat

definition hr_new :: "nat \<Rightarrow> 'tx hera_round_state" where
  "hr_new n =
     \<lparr>hr_round = 1, hr_msg_buf = [], hr_future = Map.empty, hr_blame_map = Map.empty,
      hr_got_qc = False, hr_num_nodes = n\<rparr>"

definition hr_is_ready :: "'tx hera_round_state \<Rightarrow> bool" where
  "hr_is_ready s \<longleftrightarrow> hr_msg_buf s \<noteq> []"

definition hr_pop_msg :: "'tx hera_round_state \<Rightarrow> 'tx hera_msg option \<times> 'tx hera_round_state" where
  "hr_pop_msg s = (case hr_msg_buf s of
     [] \<Rightarrow> (None, s) | m # ms \<Rightarrow> (Some m, s\<lparr>hr_msg_buf := ms\<rparr>))"

definition hr_enqueue :: "'tx hera_msg \<Rightarrow> round \<Rightarrow> 'tx hera_round_state \<Rightarrow> 'tx hera_round_state" where
  "hr_enqueue m r s =
     (if r < hr_round s then s
      else if hr_round s < r then s\<lparr>hr_future := push_entry r m (hr_future s)\<rparr>
      else s\<lparr>hr_msg_buf := hr_msg_buf s @ [m]\<rparr>)"

definition hr_advance_round ::
  "round_timer \<Rightarrow> 'tx hera_round_state \<Rightarrow> round_timer \<times> 'tx hera_round_state" where
  "hr_advance_round tm s =
     (let cur = hr_round s + 1
      in (tm\<lparr>tm_resets := tm_resets tm + 1, tm_enabled := True\<rparr>,
          s\<lparr>hr_round := cur, hr_blame_map := Map.empty, hr_got_qc := False,
            hr_msg_buf := hr_msg_buf s @ entry_list (hr_future s) cur,
            hr_future := retain_keys (\<lambda>r. cur \<le> r) ((hr_future s)(cur := None))\<rparr>))"

definition hr_disable_timer :: "round_timer \<Rightarrow> round_timer" where
  "hr_disable_timer tm = tm\<lparr>tm_enabled := False\<rparr>"

text \<open>The plane of a message: bulk data, or signature-plane traffic, which has priority.\<close>

definition is_data_plane :: "'tx hera_msg \<Rightarrow> bool" where
  "is_data_plane m = (case m of
     HDataPropose _ _ \<Rightarrow> True | HDataRequest _ _ \<Rightarrow> True | HDataResponse _ \<Rightarrow> True | _ \<Rightarrow> False)"

text \<open>The task that splits the decoded frames into the two queues.\<close>

definition route_inbound ::
  "'tx hera_msg \<Rightarrow> 'tx hera_msg list \<times> 'tx hera_msg list \<Rightarrow> 'tx hera_msg list \<times> 'tx hera_msg list" where
  "route_inbound m q = (case q of (sig_q, data_q) \<Rightarrow>
     if is_data_plane m then (sig_q, data_q @ [m]) else (sig_q @ [m], data_q))"

subsection \<open>The round-buffer contract\<close>

definition hsig_round :: "'tx hera_msg \<Rightarrow> round option" where
  "hsig_round m = (case m of
     HSigPropose p _ _ _ \<Rightarrow> Some (p_round p)
   | HSigBlame r _ \<Rightarrow> Some r
   | HSigBlameQC r _ \<Rightarrow> Some r
   | _ \<Rightarrow> None)"

definition hmsg_round :: "'tx hera_msg \<Rightarrow> round" where
  "hmsg_round m = (case hsig_round m of Some r \<Rightarrow> r | None \<Rightarrow> 0)"

definition hr_pending :: "'tx hera_round_state \<Rightarrow> round \<Rightarrow> 'tx hera_msg multiset" where
  "hr_pending s r =
     (if r = hr_round s then mset (hr_msg_buf s) else {#}) + mset (entry_list (hr_future s) r)"

interpretation hrb: round_buffer hr_round hmsg_round "\<lambda>m. hsig_round m \<noteq> None" hr_pending
    "\<lambda>m s. hr_enqueue m (hmsg_round m) s" "\<lambda>s. snd (hr_advance_round tm s)" for tm
  by unfold_locales
     (auto simp: hr_enqueue_def hr_advance_round_def Let_def hr_pending_def)

text \<open>A popped message leaves the others where they are.\<close>

lemma hr_pop_pending:
  assumes "hr_pop_msg s = (Some m, s')"
  shows "hr_round s' = hr_round s" "hr_pending s r = (if r = hr_round s then {#m#} else {#}) + hr_pending s' r"
  using assms by (auto simp: hr_pop_msg_def hr_pending_def split: list.splits)

lemma hr_sel [simp]:
  "hr_round (hr_enqueue m r s) = hr_round s" "hr_got_qc (hr_enqueue m r s) = hr_got_qc s"
  "hr_blame_map (hr_enqueue m r s) = hr_blame_map s"
  "hr_round (snd (hr_advance_round tm s)) = Suc (hr_round s)"
  by (simp_all add: hr_enqueue_def hr_advance_round_def Let_def)

end
