(* ===== verification/Loops.thy ===== *)
theory Loops
  imports Prelude
begin

section \<open>Loops that end with a break\<close>

text \<open>
  A \<^verbatim>\<open>loop { .. }\<close> of the source is \<open>run_loop\<close> of its body: \<open>Inl\<close> is the state the next turn starts
  with, \<open>Inr\<close> the result at a \<^verbatim>\<open>break\<close> or \<^verbatim>\<open>return\<close>. A loop that never ends has the value \<open>None\<close>.
\<close>

partial_function (option) run_loop :: "('s \<Rightarrow> 's + 'r) \<Rightarrow> 's \<Rightarrow> 'r option" where
  "run_loop body s = (case body s of Inl s' \<Rightarrow> run_loop body s' | Inr r \<Rightarrow> Some r)"

lemma run_loop_Inr: "body s = Inr r \<Longrightarrow> run_loop body s = Some r"
  by (subst run_loop.simps) simp

lemma run_loop_Inl: "body s = Inl s' \<Longrightarrow> run_loop body s = run_loop body s'"
  by (subst run_loop.simps) simp

lemmas run_loop_raw_induct = run_loop.raw_induct [rotated, consumes 1, case_names step]

text \<open>Partial correctness: an invariant of the turns holds at the end.\<close>

lemma run_loop_inv:
  assumes "run_loop body s = Some r" "I s"
    and turn: "\<And>s s'. I s \<Longrightarrow> body s = Inl s' \<Longrightarrow> I s'"
    and fin: "\<And>s r. I s \<Longrightarrow> body s = Inr r \<Longrightarrow> Q r"
  shows "Q r"
  using assms
proof (induction body s r rule: run_loop_raw_induct)
  case (step loop body s r)
  show ?case
  proof (cases "body s")
    case (Inl s')
    with step.hyps have "loop body s' = Some r" by simp
    moreover have "I s'" using step.prems(1,2) Inl by blast
    ultimately show ?thesis by (rule step.IH) (fact step.prems)+
  next
    case (Inr r')
    with step.hyps step.prems show ?thesis by auto
  qed
qed

text \<open>Total correctness: with a measure that every turn decreases the loop ends.\<close>

lemma run_loop_total:
  fixes m :: "'s \<Rightarrow> nat"
  assumes "I s"
    and turn: "\<And>s s'. I s \<Longrightarrow> body s = Inl s' \<Longrightarrow> I s' \<and> m s' < m s"
    and fin: "\<And>s r. I s \<Longrightarrow> body s = Inr r \<Longrightarrow> Q r"
  shows "\<exists>r. run_loop body s = Some r \<and> Q r"
  using assms(1)
proof (induction "m s" arbitrary: s rule: less_induct)
  case less
  show ?case
  proof (cases "body s")
    case (Inl s')
    with turn [OF less.prems Inl] less.hyps [of s'] show ?thesis by (simp add: run_loop_Inl)
  next
    case (Inr r)
    with fin [OF less.prems Inr] show ?thesis by (simp add: run_loop_Inr)
  qed
qed

text \<open>Simulation: loops whose turns correspond return alike, with results that correspond.\<close>

lemma run_loop_sim_Some:
  assumes "run_loop body s = Some r" "R s t"
    and turn: "\<And>s t. R s t \<Longrightarrow> rel_sum R Q (body s) (body' t)"
  shows "\<exists>r'. run_loop body' t = Some r' \<and> Q r r'"
  using assms
proof (induction body s r arbitrary: t rule: run_loop_raw_induct)
  case (step loop body s r)
  have rel: "rel_sum R Q (body s) (body' t)" using step.prems by blast
  show ?case
  proof (cases "body s")
    case (Inl s')
    with rel obtain t' where t': "body' t = Inl t'" "R s' t'" by (cases "body' t") auto
    have "loop body s' = Some r" using step.hyps Inl by simp
    then have "\<exists>r'. run_loop body' t' = Some r' \<and> Q r r'"
      by (rule step.IH) (fact t'(2), fact step.prems(2))
    with t'(1) show ?thesis by (simp add: run_loop_Inl)
  next
    case (Inr r0)
    with rel obtain r' where "body' t = Inr r'" "Q r0 r'" by (cases "body' t") auto
    moreover have "r0 = r" using step.hyps Inr by simp
    ultimately show ?thesis by (auto simp: run_loop_Inr)
  qed
qed

lemma run_loop_sim:
  assumes "R s t" and turn: "\<And>s t. R s t \<Longrightarrow> rel_sum R Q (body s) (body' t)"
  shows "rel_option Q (run_loop body s) (run_loop body' t)"
proof (cases "run_loop body s")
  case (Some r)
  have "\<exists>r'. run_loop body' t = Some r' \<and> Q r r'"
    using Some assms(1) by (rule run_loop_sim_Some) (fact turn)
  then obtain r' where "run_loop body' t = Some r'" "Q r r'" by blast
  with Some show ?thesis by simp
next
  case None
  have conv: "rel_sum R\<inverse>\<inverse> Q\<inverse>\<inverse> (body' t) (body s)" if "R\<inverse>\<inverse> t s" for s t
    using turn [of s t] that by (cases "body s"; cases "body' t") auto
  have "run_loop body' t = None"
  proof (rule ccontr)
    assume "run_loop body' t \<noteq> None"
    then obtain r' where "run_loop body' t = Some r'" by blast
    moreover have "R\<inverse>\<inverse> t s" using assms(1) by simp
    ultimately show False using run_loop_sim_Some [of body' t r' "R\<inverse>\<inverse>" s "Q\<inverse>\<inverse>" body] conv None by auto
  qed
  with None show ?thesis by simp
qed

text \<open>A function that satisfies the loop's equation and is the least to do so is the loop.\<close>

lemma run_loop_eqI:
  assumes eq: "\<And>s. f s = (case body s of Inl s' \<Rightarrow> f s' | Inr r \<Rightarrow> Some r)"
    and least: "\<And>s r. f s = Some r \<Longrightarrow> run_loop body s = Some r"
  shows "f s = run_loop body s"
proof (cases "run_loop body s")
  case None
  with least show ?thesis by (cases "f s") auto
next
  case (Some r)
  have "\<forall>s r. run_loop body s = Some r \<longrightarrow> f s = Some r"
  proof (intro allI impI)
    fix s r assume "run_loop body s = Some r"
    then show "f s = Some r"
      using eq
    proof (induction body s r rule: run_loop_raw_induct)
      case (step loop body s r)
      show ?case
      proof (cases "body s")
        case (Inl s')
        have "f s' = Some r" by (rule step.IH) (use step.hyps step.prems Inl in simp_all)
        moreover have "f s = f s'" using step.prems [of s] Inl by simp
        ultimately show ?thesis by simp
      next
        case (Inr r0)
        with step.hyps step.prems [of s] show ?thesis by simp
      qed
    qed
  qed
  with Some show ?thesis by simp
qed

end
