(* ===== verification/HeraCommit.thy ===== *)
theory HeraCommit
  imports Commit HeraTypes Loops
begin

section \<open>The commit task of Hera\<close>

text \<open>
  \<^verbatim>\<open>HeraCommitContext\<close> in \<^verbatim>\<open>server/hera/phases/commit.rs\<close>: Leto's commit rule on the signature chain,
  reporting the multi-attestations it commits (\<open>hq_fired\<close>). The walk and the commit loop are
  \<open>run_loop\<close> of one turn each. Logging is left out.
\<close>

record ('q, 'u) hera_commit =
  hq_checked :: bool
  hq_commit_len :: nat
  hq_highest_element :: "multi_attestation element"
  hq_highest_hash :: digest
  hq_unique :: 'u
  hq_queue :: 'q
  hq_fired :: "(round \<times> multi_attestation) list"

definition hera_commit_init ::
  "bool \<Rightarrow> ('s, 'tx, 'b) henv \<Rightarrow> ('q, multi_attestation) queue_ops \<Rightarrow> 'u count_ops \<Rightarrow> nat \<Rightarrow> nat \<Rightarrow> 's
    \<Rightarrow> ('q, 'u) hera_commit outcome \<times> 's" where
  "hera_commit_init checked he qo uo n f s =
     (let (r, cs) = genesis_setup (h_env he) (chain_state_new (h_env he) s);
          g = element_genesis START_ID;
          gh = ser_and_hash (crypt (h_env he)) (cd_element (h_env he)) g
      in (bind_o r (\<lambda>_. Ok
           \<lparr>hq_checked = checked, hq_commit_len = (n + f + 1) div 2, hq_highest_element = g, hq_highest_hash = gh,
            hq_unique = lhm_insert uo (el_proposer g) 1 (lhm_empty uo),
            hq_queue = lhm_insert qo gh g (lhm_empty qo), hq_fired = []\<rparr>), cs_db cs))"

text \<open>One turn of the walk; its state is the element, the hash it is known by, and the local maps.\<close>

definition hera_walk_turn ::
  "('s, 'tx, 'b) henv \<Rightarrow> ('q, multi_attestation) queue_ops \<Rightarrow> 'u count_ops \<Rightarrow> 's \<Rightarrow> ('q, 'u) hera_commit
    \<Rightarrow> multi_attestation element \<times> digest \<times> 'q \<times> 'u
    \<Rightarrow> (multi_attestation element \<times> digest \<times> 'q \<times> 'u) + bool \<times> 'q \<times> 'u" where
  "hera_walk_turn he qo uo s hq x = (case x of (head, head_hash, lq, lu) \<Rightarrow>
     if el_round (hq_highest_element hq) < el_round head then
       if (case lhm_back qo (hq_queue hq) of None \<Rightarrow> False | Some (h, _) \<Rightarrow> h = head_hash)
       then Inr (True, lq, lu)
       else if head_hash = hq_highest_hash hq then Inr (False, lq, lu)
       else
         (let lu' = lhm_bump uo (el_proposer head) 1 lu;
              lq' = lhm_insert qo head_hash head lq
          in case db_read (store (h_env he)) (cd_element (h_env he)) s head_hash of
               Ok (Some e) \<Rightarrow> Inl (e, parent_hash (el_proposal e), lq', lu')
             | _ \<Rightarrow> Inr (False, lq', lu'))
     else Inr (False, lq, lu))"

text \<open>The attestation with the greatest head height, the last of several.\<close>

definition best_multi :: "multi_attestation list \<Rightarrow> multi_attestation option" where
  "best_multi atts = foldl (\<lambda>m a. case m of None \<Rightarrow> Some a
     | Some x \<Rightarrow> if max_head_height x \<le> max_head_height a then Some a else Some x) None atts"

text \<open>Unlike Leto the task does not assert that the count it lowers is positive: in a build with
  overflow checks a count of zero is a panic, in a release build it wraps.\<close>

definition hera_commit_turn ::
  "('q, multi_attestation) queue_ops \<Rightarrow> 'u count_ops \<Rightarrow> ('q, 'u) hera_commit
    \<Rightarrow> ('q, 'u) hera_commit + (unit outcome \<times> ('q, 'u) hera_commit)" where
  "hera_commit_turn qo uo hq =
     (if hq_commit_len hq \<le> lhm_len uo (hq_unique hq) then
        (case lhm_pop_front qo (hq_queue hq) of
           None \<Rightarrow> Inr (Panic, hq)
         | Some ((h, el), q) \<Rightarrow>
             (case lhm_get uo (hq_unique hq) (el_proposer el) of
                None \<Rightarrow> Inr (Panic, hq\<lparr>hq_queue := q\<rparr>)
              | Some c \<Rightarrow>
                  if c = 0 \<and> hq_checked hq then Inr (Panic, hq\<lparr>hq_queue := q\<rparr>)
                  else
                    let c' = (if c = 0 then 2 ^ 64 - 1 else c - 1);
                        u = lhm_modify uo (el_proposer el) (if c = 0 then (\<lambda>_. c') else (\<lambda>c. c - 1)) (hq_unique hq);
                        u' = (if c' = 0 then lhm_remove uo (el_proposer el) u else u);
                        fired = (case best_multi (el_batch el) of
                                   None \<Rightarrow> hq_fired hq
                                 | Some a \<Rightarrow> hq_fired hq @ [(el_round el, a)])
                    in Inl (hq\<lparr>hq_queue := q, hq_unique := u', hq_fired := fired,
                               hq_highest_hash := h, hq_highest_element := el\<rparr>)))
      else Inr (Ok (), hq))"

definition hera_end_round ::
  "('s, 'tx, 'b) henv \<Rightarrow> ('q, multi_attestation) queue_ops \<Rightarrow> 'u count_ops \<Rightarrow> 's \<Rightarrow> digest
    \<Rightarrow> multi_attestation element \<Rightarrow> ('q, 'u) hera_commit
    \<Rightarrow> (unit outcome \<times> ('q, 'u) hera_commit) option" where
  "hera_end_round he qo uo s h el hq =
     (if el_round el = 0 then Some (Ok (), hq)
      else case run_loop (hera_walk_turn he qo uo s hq) (el, h, lhm_empty qo, lhm_empty uo) of
        None \<Rightarrow> None
      | Some (connected, lq, lu) \<Rightarrow>
          run_loop (hera_commit_turn qo uo)
            (if \<not> connected then hq\<lparr>hq_queue := lq, hq_unique := lu\<rparr>
             else hq\<lparr>hq_queue := lhm_extend qo (hq_queue hq) lq,
                     hq_unique := foldl (\<lambda>u x. lhm_bump uo (fst x) (snd x) u) (hq_unique hq) (lhm_iter uo lu)\<rparr>))"

subsection \<open>The rule is Leto's\<close>

text \<open>Leto's walk and loop, as loops of one turn.\<close>

definition leto_walk_turn ::
  "('s, 'tx, 'b) env \<Rightarrow> ('q, 'tx) queue_ops \<Rightarrow> 'u count_ops \<Rightarrow> 's \<Rightarrow> ('q, 'u, 'tx) commit_ctx
    \<Rightarrow> 'tx element \<times> digest \<times> 'q \<times> 'u \<Rightarrow> ('tx element \<times> digest \<times> 'q \<times> 'u) + bool \<times> 'q \<times> 'u" where
  "leto_walk_turn e qo uo s cm x = (case x of (head, head_hash, lq, lu) \<Rightarrow>
     if el_round (cm_highest_element cm) < el_round head then
       if (case lhm_back qo (cm_queue cm) of None \<Rightarrow> False | Some (h, _) \<Rightarrow> h = head_hash)
       then Inr (True, lq, lu)
       else if head_hash = cm_highest_hash cm then Inr (False, lq, lu)
       else (case db_read (store e) (cd_element e) s head_hash of
               Ok (Some par) \<Rightarrow> Inl (par, parent_hash (el_proposal par),
                 lhm_insert qo head_hash head lq, lhm_bump uo (el_proposer head) 1 lu)
             | _ \<Rightarrow> Inr (False, lhm_insert qo head_hash head lq, lhm_bump uo (el_proposer head) 1 lu))
     else Inr (False, lq, lu))"

lemma leto_walk_turn_simp:
  "leto_walk_turn e qo uo s cm (head, head_hash, lq, lu) =
    (if el_round (cm_highest_element cm) < el_round head then
       if (case lhm_back qo (cm_queue cm) of None \<Rightarrow> False | Some (h, _) \<Rightarrow> h = head_hash)
       then Inr (True, lq, lu)
       else if head_hash = cm_highest_hash cm then Inr (False, lq, lu)
       else (case db_read (store e) (cd_element e) s head_hash of
               Ok (Some par) \<Rightarrow> Inl (par, parent_hash (el_proposal par),
                 lhm_insert qo head_hash head lq, lhm_bump uo (el_proposer head) 1 lu)
             | _ \<Rightarrow> Inr (False, lhm_insert qo head_hash head lq, lhm_bump uo (el_proposer head) 1 lu))
     else Inr (False, lq, lu))"
  by (simp add: leto_walk_turn_def del: One_nat_def)

lemma commit_walk_loop:
  "commit_walk e qo uo s cm head h lq lu = run_loop (leto_walk_turn e qo uo s cm) (head, h, lq, lu)"
proof -
  let ?f = "\<lambda>(head, h, lq, lu). commit_walk e qo uo s cm head h lq lu"
  have "?f x = run_loop (leto_walk_turn e qo uo s cm) x" for x
  proof (rule run_loop_eqI)
    fix x show "?f x = (case leto_walk_turn e qo uo s cm x of Inl y \<Rightarrow> ?f y | Inr r \<Rightarrow> Some r)"
      by (cases x; subst commit_walk.simps, simp add: leto_walk_turn_simp split: outcome.split option.split)
  next
    fix x r assume "?f x = Some r"
    then obtain hd' h' lq' lu' where x: "x = (hd', h', lq', lu')" and w: "commit_walk e qo uo s cm hd' h' lq' lu' = Some r"
      by (cases x) auto
    from w have "run_loop (leto_walk_turn e qo uo s cm) (hd', h', lq', lu') = Some r"
    proof (induction e qo uo s cm hd' h' lq' lu' r
        rule: commit_walk.raw_induct [rotated, consumes 1, case_names step])
      case (step walk e qo uo s cm head h lq lu r)
      from step.hyps step.IH show ?case
        by (subst run_loop.simps)
           (auto simp: leto_walk_turn_simp split: if_splits option.splits outcome.splits)
    qed
    with x show "run_loop (leto_walk_turn e qo uo s cm) x = Some r" by simp
  qed
  from this [of "(head, h, lq, lu)"] show ?thesis by simp
qed

definition leto_commit_turn ::
  "('q, 'tx) queue_ops \<Rightarrow> 'u count_ops \<Rightarrow> ('q, 'u, 'tx) commit_ctx
    \<Rightarrow> ('q, 'u, 'tx) commit_ctx + (unit outcome \<times> ('q, 'u, 'tx) commit_ctx)" where
  "leto_commit_turn qo uo cm =
     (if cm_commit_len cm \<le> lhm_len uo (cm_unique cm) then
        (case lhm_pop_front qo (cm_queue cm) of
           None \<Rightarrow> Inr (Panic, cm)
         | Some ((h, el), q) \<Rightarrow>
             (case lhm_get uo (cm_unique cm) (el_proposer el) of
                None \<Rightarrow> Inr (Panic, cm\<lparr>cm_queue := q\<rparr>)
              | Some c \<Rightarrow>
                  if c = 0 then Inr (Panic, cm\<lparr>cm_queue := q\<rparr>)
                  else if cm_commit_open cm then Inl (commit_front uo h el q (c - 1 = 0) cm)
                  else Inr (Err ChannelClosed,
                    let u = lhm_modify uo (el_proposer el) (\<lambda>c. c - 1) (cm_unique cm)
                    in cm\<lparr>cm_queue := q, cm_unique := (if c - 1 = 0 then lhm_remove uo (el_proposer el) u else u),
                          cm_tx_count := (if cm_emit_dp cm then cm_tx_count cm + length (el_batch el)
                                          else cm_tx_count cm),
                          cm_to_batcher := cm_to_batcher cm @ [Committed (el_batch el) (el_round el)]\<rparr>)))
      else Inr (Ok (), cm))"

lemma commit_loop_loop: "commit_loop qo uo cm = run_loop (leto_commit_turn qo uo) cm"
proof (rule run_loop_eqI)
  fix cm show "commit_loop qo uo cm = (case leto_commit_turn qo uo cm of Inl y \<Rightarrow> commit_loop qo uo y | Inr r \<Rightarrow> Some r)"
    by (subst commit_loop.simps)
       (simp add: leto_commit_turn_def commit_front_def Let_def split: option.split prod.split)
next
  fix cm r assume run: "commit_loop qo uo cm = Some r"
  define f where "f qo uo = run_loop (leto_commit_turn qo uo)" for qo :: "('a, 'c) queue_ops" and uo :: "'b count_ops"
  have f: "f qo uo cm = (case leto_commit_turn qo uo cm of Inl s' \<Rightarrow> f qo uo s' | Inr r \<Rightarrow> Some r)" for qo uo cm
    unfolding f_def by (rule run_loop.simps)
  from run have "f qo uo cm = Some r"
  proof (induction qo uo cm r rule: commit_loop.raw_induct [rotated, consumes 1, case_names step])
    case (step loop qo uo cm r)
    from step.hyps step.IH show ?case
      by (cases r; subst f)
         (auto simp: leto_commit_turn_def commit_front_def Let_def split: if_splits option.splits prod.splits)
  qed
  then show "run_loop (leto_commit_turn qo uo) cm = Some r" by (simp add: f_def)
qed

text \<open>What Leto's task reports to its batcher, as the attestations Hera reports.\<close>

fun hera_fired_of :: "multi_attestation batcher_msg \<Rightarrow> (round \<times> multi_attestation) list" where
  "hera_fired_of (Committed b r) = (case best_multi b of None \<Rightarrow> [] | Some a \<Rightarrow> [(r, a)])"
| "hera_fired_of _ = []"

definition hq_matches :: "('q, 'u) hera_commit \<Rightarrow> ('q, 'u, multi_attestation) commit_ctx \<Rightarrow> bool" where
  "hq_matches hq cm \<longleftrightarrow>
     hq_commit_len hq = cm_commit_len cm \<and> hq_highest_element hq = cm_highest_element cm \<and>
     hq_highest_hash hq = cm_highest_hash cm \<and> hq_unique hq = cm_unique cm \<and>
     hq_queue hq = cm_queue cm \<and> hq_fired hq = concat (map hera_fired_of (cm_to_batcher cm)) \<and>
     cm_commit_open cm"

lemma hera_walk_turn_eq:
  "hq_matches hq cm \<Longrightarrow> hera_walk_turn he qo uo s hq = leto_walk_turn (h_env he) qo uo s cm"
  by (rule ext)
     (simp add: hera_walk_turn_def leto_walk_turn_def hq_matches_def Let_def
       split: prod.split option.split outcome.split)

text \<open>What a matching state needs besides: a build that checks, or counts that are never zero.\<close>

definition hq_counts :: "'u count_ops \<Rightarrow> ('q, 'u) hera_commit \<Rightarrow> bool" where
  "hq_counts uo hq \<longleftrightarrow> hq_checked hq \<or> lhm_ok uo \<and> counts_pos uo (hq_unique hq)"

definition hq_agrees ::
  "'u count_ops \<Rightarrow> ('q, 'u) hera_commit \<Rightarrow> ('q, 'u, multi_attestation) commit_ctx \<Rightarrow> bool" where
  "hq_agrees uo hq cm \<longleftrightarrow> hq_matches hq cm \<and> hq_counts uo hq"

text \<open>One turn of the loop that commits an element, on both sides.\<close>

definition hera_front ::
  "'u count_ops \<Rightarrow> digest \<Rightarrow> multi_attestation element \<Rightarrow> 'q \<Rightarrow> bool \<Rightarrow> ('q, 'u) hera_commit \<Rightarrow> ('q, 'u) hera_commit" where
  "hera_front uo h el q lst hq =
     (let u = lhm_modify uo (el_proposer el) (\<lambda>c. c - 1) (hq_unique hq) in
      hq\<lparr>hq_queue := q, hq_unique := (if lst then lhm_remove uo (el_proposer el) u else u),
         hq_fired := (case best_multi (el_batch el) of None \<Rightarrow> hq_fired hq | Some a \<Rightarrow> hq_fired hq @ [(el_round el, a)]),
         hq_highest_hash := h, hq_highest_element := el\<rparr>)"

lemma hera_front_agrees:
  assumes "hq_agrees uo hq cm" "lhm_get uo (hq_unique hq) (el_proposer el) = Some c"
  shows "hq_agrees uo (hera_front uo h el q (c - 1 = 0) hq) (commit_front uo h el q (c - 1 = 0) cm)"
proof -
  have "hq_matches (hera_front uo h el q l hq) (commit_front uo h el q l cm)" for l
    using assms(1) by (auto simp: hq_agrees_def hq_matches_def hera_front_def commit_front_def Let_def split: option.split)
  moreover have "hq_counts uo (hera_front uo h el q (c - 1 = 0) hq)"
    using assms counts_pos_decrement [of uo "hq_unique hq" "el_proposer el" c]
    by (auto simp: hq_agrees_def hq_counts_def hera_front_def Let_def)
  ultimately show ?thesis by (simp add: hq_agrees_def)
qed

lemma hera_commit_turn_agrees:
  assumes "hq_agrees uo hq cm"
  shows "rel_sum (hq_agrees uo) (\<lambda>(r, hq') (r', cm'). r = r' \<and> hq_agrees uo hq' cm')
    (hera_commit_turn qo uo hq) (leto_commit_turn qo uo cm)"
proof -
  have m: "hq_matches hq cm" and cp: "hq_counts uo hq" using assms by (simp_all add: hq_agrees_def)
  have z: "c = 0 \<Longrightarrow> hq_checked hq" if "lhm_get uo (hq_unique hq) k = Some c" for k c
    using cp that by (auto simp: hq_counts_def counts_pos_def)
  show ?thesis
  proof (cases "hq_commit_len hq \<le> lhm_len uo (hq_unique hq)")
    case False
    with m cp show ?thesis by (simp add: hera_commit_turn_def leto_commit_turn_def hq_agrees_def hq_matches_def)
  next
    case len: True
    show ?thesis
    proof (cases "lhm_pop_front qo (hq_queue hq)")
      case None
      with len m cp show ?thesis by (simp add: hera_commit_turn_def leto_commit_turn_def hq_agrees_def hq_matches_def)
    next
      case (Some x)
      obtain h el q where x: "x = ((h, el), q)" by (metis prod.exhaust)
      show ?thesis
      proof (cases "lhm_get uo (hq_unique hq) (el_proposer el)")
        case None
        with len Some x m cp show ?thesis
          by (simp add: hera_commit_turn_def leto_commit_turn_def hq_agrees_def hq_matches_def hq_counts_def)
      next
        case c: (Some c)
        show ?thesis
        proof (cases "c = 0")
          case True
          with len Some x m cp c z [OF c] show ?thesis
            by (simp add: hera_commit_turn_def leto_commit_turn_def hq_agrees_def hq_matches_def hq_counts_def)
        next
          case False
          let ?hq = "hera_front uo h el q (c - 1 = 0) hq" and ?cm = "commit_front uo h el q (c - 1 = 0) cm"
          have "hera_commit_turn qo uo hq = Inl ?hq"
            using len Some x c False by (cases "c - 1 = 0") (simp_all add: hera_commit_turn_def hera_front_def Let_def)
          moreover have "leto_commit_turn qo uo cm = Inl ?cm"
            using m len Some x c False by (simp add: leto_commit_turn_def hq_matches_def)
          ultimately show ?thesis using hera_front_agrees [OF assms c] by simp
        qed
      qed
    qed
  qed
qed

lemma hera_loop_agrees:
  "hq_agrees uo hq cm \<Longrightarrow> rel_option (\<lambda>(r, hq') (r', cm'). r = r' \<and> hq_agrees uo hq' cm')
    (run_loop (hera_commit_turn qo uo) hq) (commit_loop qo uo cm)"
  unfolding commit_loop_loop
  by (rule run_loop_sim [where R = "hq_agrees uo"]) (auto intro: hera_commit_turn_agrees)

text \<open>The walk collects counts of at least one.\<close>

lemma hera_walk_pos:
  assumes "run_loop (hera_walk_turn he qo uo s hq) (el, h, lq, lu) = Some (con, lq', lu')" "lhm_ok uo" "iter_pos uo lu"
  shows "iter_pos uo lu'"
proof -
  have "rel_option (\<lambda>(con, lq, lu) _. iter_pos uo lu) (run_loop (hera_walk_turn he qo uo s hq) (el, h, lq, lu))
      (run_loop (hera_walk_turn he qo uo s hq) (el, h, lq, lu))"
    by (rule run_loop_sim [where R = "\<lambda>x y. x = y \<and> iter_pos uo (snd (snd (snd x)))"])
      (use assms(2,3) iter_pos_bump [OF assms(2)] in
        \<open>auto simp: hera_walk_turn_def Let_def split: prod.split outcome.split option.split\<close>)
  with assms(1) show ?thesis by simp
qed

lemma hera_end_round_agrees:
  assumes a: "hq_agrees uo hq cm"
  shows "rel_option (\<lambda>(r, hq') (r', cm'). r = r' \<and> hq_agrees uo hq' cm')
    (hera_end_round he qo uo s h el hq) (end_round (h_env he) qo uo s h el cm)"
proof -
  have m: "hq_matches hq cm" using a by (simp add: hq_agrees_def)
  have loops: "rel_option (\<lambda>(r, hq') (r', cm'). r = r' \<and> hq_agrees uo hq' cm')
      (run_loop (hera_commit_turn qo uo) (if \<not> con then hq\<lparr>hq_queue := lq, hq_unique := lu\<rparr>
         else hq\<lparr>hq_queue := lhm_extend qo (hq_queue hq) lq,
              hq_unique := foldl (\<lambda>u x. lhm_bump uo (fst x) (snd x) u) (hq_unique hq) (lhm_iter uo lu)\<rparr>))
      (commit_loop qo uo (if con then extend_queue qo uo lq lu cm else replace_queue qo lq lu cm))"
    if "lhm_ok uo \<longrightarrow> iter_pos uo lu" for con lq lu
    by (rule hera_loop_agrees)
       (use a that iter_pos_counts counts_pos_merge [of uo "hq_unique hq" "lhm_iter uo lu"] in
         \<open>auto simp: hq_agrees_def hq_counts_def hq_matches_def extend_queue_def replace_queue_def iter_pos_def Let_def\<close>)
  have el: "el_round el = 0 \<Longrightarrow> ?thesis" using a by (simp add: hera_end_round_def end_round_def)
  show ?thesis
  proof (cases "run_loop (hera_walk_turn he qo uo s hq) (el, h, lhm_empty qo, lhm_empty uo)")
    case None
    with el show ?thesis
      by (cases "el_round el = 0")
        (simp_all add: hera_end_round_def end_round_def commit_walk_loop hera_walk_turn_eq [OF m, symmetric])
  next
    case (Some x)
    obtain con lq lu where x: "x = (con, lq, lu)" by (cases x)
    have "lhm_ok uo \<longrightarrow> iter_pos uo lu" using hera_walk_pos iter_pos_empty Some x by metis
    from loops [OF this] el Some x show ?thesis
      by (cases "el_round el = 0")
        (simp_all add: hera_end_round_def end_round_def commit_walk_loop hera_walk_turn_eq [OF m, symmetric])
  qed
qed

end
