(* ===== verification/HeraChain.thy ===== *)
theory HeraChain
  imports HeraTypes Loops
begin

section \<open>The data chains of all authors\<close>

text \<open>
  \<^verbatim>\<open>server/hera/chain_state/multi_data_chain.rs\<close>: one block store, one map from parents to children
  and one table of parked blocks, shared by all authors, and per author the head, its height and
  the committed height. The loops of the code are \<open>run_loop\<close> of their bodies.
\<close>

record 'tx multi_chain =
  mc_heads :: "node_id \<rightharpoonup> digest"
  mc_heights :: "node_id \<rightharpoonup> nat"
  mc_committed :: "node_id \<rightharpoonup> nat"
  mc_child_of :: "digest \<rightharpoonup> digest"
  mc_pending :: "digest \<rightharpoonup> 'tx data_block list"
  mc_store :: "digest \<rightharpoonup> 'tx data_block"

abbreviation b_author :: "'tx data_block \<Rightarrow> node_id" where
  "b_author b \<equiv> ds_signer (db_sig b)"

definition hera_genesis_hash :: "('s, 'tx, 'b) henv \<Rightarrow> digest" where
  "hera_genesis_hash he = hera_block_hash he data_genesis"

definition const_map :: "'v \<Rightarrow> 'k list \<Rightarrow> 'k \<rightharpoonup> 'v" where
  "const_map v ks = foldl (\<lambda>m k. m(k \<mapsto> v)) Map.empty ks"

lemma const_map_apply: "const_map v ks k = (if k \<in> set ks then Some v else None)"
proof -
  have "foldl (\<lambda>m k. m(k \<mapsto> v)) m ks k = (if k \<in> set ks then Some v else m k)" for m
    by (induction ks arbitrary: m) auto
  then show ?thesis by (simp add: const_map_def)
qed

definition multi_chain_new :: "('s, 'tx, 'b) henv \<Rightarrow> node_id list \<Rightarrow> 'tx multi_chain" where
  "multi_chain_new he all_ids =
     (let gh = hera_genesis_hash he
      in \<lparr>mc_heads = const_map gh all_ids, mc_heights = const_map 0 all_ids,
          mc_committed = const_map 0 all_ids, mc_child_of = Map.empty, mc_pending = Map.empty,
          mc_store = [gh \<mapsto> data_genesis]\<rparr>)"

definition head_hash :: "node_id \<Rightarrow> 'tx multi_chain \<Rightarrow> digest option" where
  "head_hash author mc = mc_heads mc author"

definition head_height :: "node_id \<Rightarrow> 'tx multi_chain \<Rightarrow> nat" where
  "head_height author mc = (case mc_heights mc author of Some h \<Rightarrow> h | None \<Rightarrow> 0)"

definition committed_height :: "node_id \<Rightarrow> 'tx multi_chain \<Rightarrow> nat" where
  "committed_height author mc = (case mc_committed mc author of Some h \<Rightarrow> h | None \<Rightarrow> 0)"

definition get_block :: "digest \<Rightarrow> 'tx multi_chain \<Rightarrow> 'tx data_block option" where
  "get_block h mc = mc_store mc h"

subsection \<open>Elementary updates\<close>

definition store_block ::
  "digest \<Rightarrow> 'tx data_block \<Rightarrow> digest \<Rightarrow> 'tx multi_chain \<Rightarrow> 'tx multi_chain" where
  "store_block h b par mc =
     mc\<lparr>mc_store := (mc_store mc)(h \<mapsto> b), mc_child_of := (mc_child_of mc)(par \<mapsto> h)\<rparr>"

definition move_head :: "node_id \<Rightarrow> digest \<Rightarrow> nat \<Rightarrow> 'tx multi_chain \<Rightarrow> 'tx multi_chain" where
  "move_head author h ht mc =
     mc\<lparr>mc_heads := (mc_heads mc)(author \<mapsto> h), mc_heights := (mc_heights mc)(author \<mapsto> ht)\<rparr>"

subsection \<open>The walk along children\<close>

definition advance_turn :: "node_id \<Rightarrow> 'tx multi_chain \<Rightarrow> 'tx multi_chain + 'tx multi_chain" where
  "advance_turn author mc = (case mc_heads mc author of
     None \<Rightarrow> Inr mc
   | Some cur \<Rightarrow> (case mc_child_of mc cur of
       None \<Rightarrow> Inr mc
     | Some nxt \<Rightarrow> (case mc_store mc nxt of
         None \<Rightarrow> Inr mc
       | Some b \<Rightarrow> Inl (move_head author nxt (b_height b) mc))))"

definition hera_advance_head :: "node_id \<Rightarrow> 'tx multi_chain \<Rightarrow> 'tx multi_chain option" where
  "hera_advance_head author = run_loop (advance_turn author)"

subsection \<open>Draining parked blocks\<close>

definition unpark_block ::
  "('s, 'tx, 'b) henv \<Rightarrow> node_id \<Rightarrow> 'tx multi_chain \<Rightarrow> 'tx data_block \<Rightarrow> 'tx multi_chain" where
  "unpark_block he author mc child =
     (let h = hera_block_hash he child;
          mc1 = store_block h child (b_parent child) mc
      in if b_author child = author then move_head author h (b_height child) mc1 else mc1)"

definition drain_turn ::
  "('s, 'tx, 'b) henv \<Rightarrow> node_id \<Rightarrow> 'tx multi_chain \<Rightarrow> 'tx multi_chain + 'tx multi_chain" where
  "drain_turn he author mc = (case mc_heads mc author of
     None \<Rightarrow> Inr mc
   | Some cur \<Rightarrow>
       let mc1 = mc\<lparr>mc_pending := (mc_pending mc)(cur := None)\<rparr>
       in case mc_pending mc cur of
            None \<Rightarrow> Inr mc1
          | Some parked \<Rightarrow>
              if parked = [] then Inr mc1 else Inl (foldl (unpark_block he author) mc1 parked))"

definition drain_pending_for_author ::
  "('s, 'tx, 'b) henv \<Rightarrow> node_id \<Rightarrow> 'tx multi_chain \<Rightarrow> 'tx multi_chain option" where
  "drain_pending_for_author he author = run_loop (drain_turn he author)"

subsection \<open>Admission\<close>

datatype admit_result = Extended | Bridge | Parked digest | Duplicate | Invalid

definition park :: "digest \<Rightarrow> 'tx data_block \<Rightarrow> 'tx multi_chain \<Rightarrow> 'tx multi_chain" where
  "park par b mc = mc\<lparr>mc_pending := push_entry par b (mc_pending mc)\<rparr>"

definition admit_typed ::
  "('s, 'tx, 'b) henv \<Rightarrow> 'tx data_block \<Rightarrow> 'tx multi_chain \<Rightarrow> (admit_result \<times> 'tx multi_chain) option" where
  "admit_typed he b mc =
     (let author = b_author b; h = hera_block_hash he b; par = b_parent b
      in if mc_store mc h \<noteq> None then Some (Duplicate, mc)
         else case mc_heads mc author of
           None \<Rightarrow> Some (Invalid, mc)
         | Some cur \<Rightarrow>
             if par = cur then
               map_option (\<lambda>mc. (Extended, mc))
                 (drain_pending_for_author he author (move_head author h (b_height b) (store_block h b par mc)))
             else if mc_store mc par \<noteq> None then
               map_option (\<lambda>mc. (Bridge, mc))
                 (Option.bind (hera_advance_head author (store_block h b par mc)) (drain_pending_for_author he author))
             else if par = hera_genesis_hash he then Some (Invalid, mc)
             else Some (Parked par, park par b mc))"

text \<open>The untyped variant: the same steps, but the parked result carries the block's own hash.\<close>

definition admit ::
  "('s, 'tx, 'b) henv \<Rightarrow> 'tx data_block \<Rightarrow> 'tx multi_chain \<Rightarrow> (admit_result \<times> 'tx multi_chain) option" where
  "admit he b mc =
     (let author = b_author b; h = hera_block_hash he b; par = b_parent b
      in if mc_store mc h \<noteq> None then Some (Duplicate, mc)
         else case mc_heads mc author of
           None \<Rightarrow> Some (Invalid, mc)
         | Some cur \<Rightarrow>
             if par = cur then
               map_option (\<lambda>mc. (Extended, mc))
                 (drain_pending_for_author he author (move_head author h (b_height b) (store_block h b par mc)))
             else if mc_store mc par \<noteq> None then
               map_option (\<lambda>mc. (Bridge, mc))
                 (Option.bind (hera_advance_head author (store_block h b par mc)) (drain_pending_for_author he author))
             else if par = hera_genesis_hash he then Some (Invalid, mc)
             else Some (Parked h, park par b mc))"

subsection \<open>The walk that collects blocks to commit\<close>

definition walk_turn ::
  "'tx multi_chain \<Rightarrow> nat \<Rightarrow> 'tx data_block list \<times> digest
    \<Rightarrow> ('tx data_block list \<times> digest) + 'tx data_block list" where
  "walk_turn mc from_height x = (case x of (chain, cur) \<Rightarrow>
     (case mc_store mc cur of
        None \<Rightarrow> Inr chain
      | Some b \<Rightarrow>
          if b_height b \<le> from_height then Inr chain
          else if b_height b = 0 then Inr (chain @ [b])
          else Inl (chain @ [b], b_parent b)))"

definition walk_range ::
  "digest \<Rightarrow> nat \<Rightarrow> nat \<Rightarrow> 'tx multi_chain \<Rightarrow> 'tx data_block list option" where
  "walk_range tip from_height to_height mc =
     (if to_height \<le> from_height then Some []
      else map_option (\<lambda>chain. filter (\<lambda>b. from_height < b_height b \<and> b_height b \<le> to_height) (rev chain))
             (run_loop (walk_turn mc from_height) ([], tip)))"

end
