(* ===== verification/HeraAdmission.thy ===== *)
theory HeraAdmission
  imports HeraChain
begin

section \<open>What admission guarantees\<close>

text \<open>
  The invariant of the data chains, the termination of every loop, and the delivery theorem: the
  blocks of a correct author are all admitted, in whatever order they arrive and whatever other
  authors send in between.
\<close>

subsection \<open>The invariant\<close>

text \<open>Hash collisions do not occur among the blocks in play, and hash links do not run in circles.\<close>

definition collision_free :: "('s, 'tx, 'b) henv \<Rightarrow> 'tx data_block set \<Rightarrow> bool" where
  "collision_free he B \<longleftrightarrow>
     (\<forall>b \<in> B. \<forall>b' \<in> B. hera_block_hash he b = hera_block_hash he b' \<longrightarrow> db_envelope b = db_envelope b')"

definition hera_ranked :: "('s, 'tx, 'b) henv \<Rightarrow> 'tx data_block set \<Rightarrow> (digest \<Rightarrow> nat) \<Rightarrow> bool" where
  "hera_ranked he B rank \<longleftrightarrow> (\<forall>b \<in> B. rank (b_parent b) < rank (hera_block_hash he b))"

definition mc_typed :: "('s, 'tx, 'b) henv \<Rightarrow> 'tx data_block set \<Rightarrow> 'tx multi_chain \<Rightarrow> bool" where
  "mc_typed he B mc \<longleftrightarrow>
     (\<forall>h b. mc_store mc h = Some b \<longrightarrow> hera_block_hash he b = h \<and> b \<in> B) \<and>
     (\<forall>p h. mc_child_of mc p = Some h \<longrightarrow> (\<exists>b. mc_store mc h = Some b \<and> b_parent b = p)) \<and>
     (\<forall>a h. mc_heads mc a = Some h \<longrightarrow>
        (\<exists>b. mc_store mc h = Some b \<and> mc_heights mc a = Some (b_height b))) \<and>
     (\<forall>p bs. mc_pending mc p = Some bs \<longrightarrow> bs \<noteq> [] \<and> (\<forall>b \<in> set bs. b_parent b = p \<and> b \<in> B)) \<and>
     (mc_store mc (hera_genesis_hash he) \<noteq> None) \<and>
     finite (dom (mc_store mc)) \<and> finite (dom (mc_pending mc))"

lemma mc_typed_store: "mc_typed he B mc \<Longrightarrow> mc_store mc h = Some b \<Longrightarrow> hera_block_hash he b = h \<and> b \<in> B"
  unfolding mc_typed_def by (elim conjE) blast

lemma mc_typed_child:
  "mc_typed he B mc \<Longrightarrow> mc_child_of mc p = Some h \<Longrightarrow> \<exists>b. mc_store mc h = Some b \<and> b_parent b = p"
  unfolding mc_typed_def by (elim conjE) blast

lemma mc_typed_head:
  "mc_typed he B mc \<Longrightarrow> mc_heads mc a = Some h \<Longrightarrow> \<exists>b. mc_store mc h = Some b \<and> mc_heights mc a = Some (b_height b)"
  unfolding mc_typed_def by (elim conjE) blast

lemma mc_typed_pending:
  "mc_typed he B mc \<Longrightarrow> mc_pending mc p = Some bs \<Longrightarrow> bs \<noteq> [] \<and> (\<forall>b \<in> set bs. b_parent b = p \<and> b \<in> B)"
  unfolding mc_typed_def by (elim conjE) blast

lemma mc_typed_finite:
  "mc_typed he B mc \<Longrightarrow> finite (dom (mc_store mc))" "mc_typed he B mc \<Longrightarrow> finite (dom (mc_pending mc))"
  by (simp_all add: mc_typed_def)

lemma mc_typed_genesis: "mc_typed he B mc \<Longrightarrow> mc_store mc (hera_genesis_hash he) \<noteq> None"
  by (simp add: mc_typed_def)

lemma mc_typed_new:
  "data_genesis \<in> B \<Longrightarrow> mc_typed he B (multi_chain_new he ids)"
  by (simp add: mc_typed_def multi_chain_new_def Let_def const_map_apply hera_genesis_hash_def data_genesis_def)

lemma store_block_sel [simp]:
  "mc_store (store_block h b p mc) = (mc_store mc)(h \<mapsto> b)"
  "mc_child_of (store_block h b p mc) = (mc_child_of mc)(p \<mapsto> h)"
  "mc_heads (store_block h b p mc) = mc_heads mc" "mc_heights (store_block h b p mc) = mc_heights mc"
  "mc_committed (store_block h b p mc) = mc_committed mc" "mc_pending (store_block h b p mc) = mc_pending mc"
  by (simp_all add: store_block_def)

lemma move_head_sel [simp]:
  "mc_heads (move_head a h ht mc) = (mc_heads mc)(a \<mapsto> h)"
  "mc_heights (move_head a h ht mc) = (mc_heights mc)(a \<mapsto> ht)"
  "mc_store (move_head a h ht mc) = mc_store mc" "mc_child_of (move_head a h ht mc) = mc_child_of mc"
  "mc_committed (move_head a h ht mc) = mc_committed mc" "mc_pending (move_head a h ht mc) = mc_pending mc"
  by (simp_all add: move_head_def)

lemma park_sel [simp]:
  "mc_pending (park p b mc) = push_entry p b (mc_pending mc)" "mc_store (park p b mc) = mc_store mc"
  "mc_heads (park p b mc) = mc_heads mc" "mc_heights (park p b mc) = mc_heights mc"
  "mc_committed (park p b mc) = mc_committed mc" "mc_child_of (park p b mc) = mc_child_of mc"
  by (simp_all add: park_def)

lemma mc_typedI:
  assumes "\<And>h b. mc_store mc h = Some b \<Longrightarrow> hera_block_hash he b = h \<and> b \<in> B"
    and "\<And>p h. mc_child_of mc p = Some h \<Longrightarrow> \<exists>b. mc_store mc h = Some b \<and> b_parent b = p"
    and "\<And>a h. mc_heads mc a = Some h \<Longrightarrow> \<exists>b. mc_store mc h = Some b \<and> mc_heights mc a = Some (b_height b)"
    and "\<And>p bs. mc_pending mc p = Some bs \<Longrightarrow> bs \<noteq> [] \<and> (\<forall>b \<in> set bs. b_parent b = p \<and> b \<in> B)"
    and "mc_store mc (hera_genesis_hash he) \<noteq> None" "finite (dom (mc_store mc))" "finite (dom (mc_pending mc))"
  shows "mc_typed he B mc"
  unfolding mc_typed_def using assms by (intro conjI allI impI) simp_all

lemma mc_typed_store_block:
  assumes t: "mc_typed he B mc" and "collision_free he B" "b \<in> B" "h = hera_block_hash he b"
  shows "mc_typed he B (store_block h b (b_parent b) mc)"
proof -
  have same: "b_parent b' = b_parent b \<and> b_height b' = b_height b" if "mc_store mc h = Some b'" for b'
  proof -
    from mc_typed_store [OF t that] assms(4) have "hera_block_hash he b' = hera_block_hash he b" "b' \<in> B"
      by blast+
    with assms(2,3) have "db_envelope b' = db_envelope b" unfolding collision_free_def by blast
    then show ?thesis by simp
  qed
  show ?thesis
  proof (rule mc_typedI)
    fix h' b' assume "mc_store (store_block h b (b_parent b) mc) h' = Some b'"
    then show "hera_block_hash he b' = h' \<and> b' \<in> B"
      using assms(3,4) mc_typed_store [OF t, of h' b'] by (simp split: if_splits)
  next
    fix p h' assume c: "mc_child_of (store_block h b (b_parent b) mc) p = Some h'"
    show "\<exists>b'. mc_store (store_block h b (b_parent b) mc) h' = Some b' \<and> b_parent b' = p"
    proof (cases "p = b_parent b")
      case False
      with c have "mc_child_of mc p = Some h'" by simp
      then obtain b' where "mc_store mc h' = Some b'" "b_parent b' = p" using mc_typed_child [OF t] by blast
      show ?thesis
      proof (cases "h' = h")
        case True
        with same [of b'] \<open>mc_store mc h' = Some b'\<close> \<open>b_parent b' = p\<close> show ?thesis by simp
      qed (use \<open>mc_store mc h' = Some b'\<close> \<open>b_parent b' = p\<close> in simp)
    qed (use c in simp)
  next
    fix a h' assume "mc_heads (store_block h b (b_parent b) mc) a = Some h'"
    then obtain b' where "mc_store mc h' = Some b'" "mc_heights mc a = Some (b_height b')"
      using mc_typed_head [OF t, of a h'] by auto
    with same [of b'] show "\<exists>b'. mc_store (store_block h b (b_parent b) mc) h' = Some b' \<and>
        mc_heights (store_block h b (b_parent b) mc) a = Some (b_height b')"
      by (cases "h' = h") simp_all
  next
    fix p bs assume "mc_pending (store_block h b (b_parent b) mc) p = Some bs"
    then show "bs \<noteq> [] \<and> (\<forall>b \<in> set bs. b_parent b = p \<and> b \<in> B)"
      using mc_typed_pending [OF t, of p bs] by simp
  qed (use mc_typed_finite [OF t] mc_typed_genesis [OF t] in simp_all)
qed

lemma mc_typed_move_head:
  assumes "mc_typed he B mc" "mc_store mc h = Some b"
  shows "mc_typed he B (move_head a h (b_height b) mc)"
  using assms unfolding mc_typed_def move_head_def by (simp split: if_splits)

lemma mc_typed_unpark_key:
  "mc_typed he B mc \<Longrightarrow> mc_typed he B (mc\<lparr>mc_pending := (mc_pending mc)(p := None)\<rparr>)"
  unfolding mc_typed_def by (simp split: if_splits)

lemma mc_typed_park:
  assumes t: "mc_typed he B mc" and "b \<in> B"
  shows "mc_typed he B (park (b_parent b) b mc)"
proof (rule mc_typedI)
  fix p bs assume p: "mc_pending (park (b_parent b) b mc) p = Some bs"
  show "bs \<noteq> [] \<and> (\<forall>b \<in> set bs. b_parent b = p \<and> b \<in> B)"
  proof (cases "p = b_parent b")
    case True
    with p have bs: "bs = entry_list (mc_pending mc) p @ [b]"
      by (simp add: push_entry_def extend_entry_def)
    have "\<forall>b \<in> set (entry_list (mc_pending mc) p). b_parent b = p \<and> b \<in> B"
      using mc_typed_pending [OF t, of p] by (cases "mc_pending mc p") (simp_all add: entry_list_def)
    with bs True assms(2) show ?thesis by simp
  next
    case False
    with p have "mc_pending mc p = Some bs" by (simp add: push_entry_def extend_entry_def)
    then show ?thesis by (rule mc_typed_pending [OF t])
  qed
next
  fix p h assume "mc_child_of (park (b_parent b) b mc) p = Some h"
  then show "\<exists>b'. mc_store (park (b_parent b) b mc) h = Some b' \<and> b_parent b' = p"
    using mc_typed_child [OF t, of p h] by simp
next
  fix a h assume "mc_heads (park (b_parent b) b mc) a = Some h"
  then show "\<exists>b'. mc_store (park (b_parent b) b mc) h = Some b' \<and>
      mc_heights (park (b_parent b) b mc) a = Some (b_height b')"
    using mc_typed_head [OF t, of a h] by simp
qed (use mc_typed_store [OF t] mc_typed_finite [OF t] mc_typed_genesis [OF t] in simp_all)

lemma mc_typed_commit: "mc_typed he B mc \<Longrightarrow> mc_typed he B (mc\<lparr>mc_committed := m\<rparr>)"
  by (simp add: mc_typed_def)

lemma unpark_block_sel [simp]:
  "mc_pending (unpark_block he a mc b) = mc_pending mc"
  "mc_store (unpark_block he a mc b) = (mc_store mc)(hera_block_hash he b \<mapsto> b)"
  "mc_committed (unpark_block he a mc b) = mc_committed mc"
  "mc_heads (unpark_block he a mc b) =
     (if b_author b = a then (mc_heads mc)(a \<mapsto> hera_block_hash he b) else mc_heads mc)"
  "mc_heights (unpark_block he a mc b) =
     (if b_author b = a then (mc_heights mc)(a \<mapsto> b_height b) else mc_heights mc)"
  by (simp_all add: unpark_block_def Let_def)

lemma mc_typed_unpark_block:
  assumes "mc_typed he B mc" "collision_free he B" "b \<in> B"
  shows "mc_typed he B (unpark_block he a mc b)"
proof -
  have "mc_typed he B (store_block (hera_block_hash he b) b (b_parent b) mc)"
    using assms by (intro mc_typed_store_block) simp_all
  then show ?thesis
    by (auto simp: unpark_block_def Let_def intro!: mc_typed_move_head)
qed

lemma unpark_all_inv:
  assumes "I mc" "set bs \<subseteq> C" "\<And>mc b. I mc \<Longrightarrow> b \<in> C \<Longrightarrow> I (unpark_block he a mc b)"
  shows "I (foldl (unpark_block he a) mc bs)"
  using assms(1,2) by (induction bs arbitrary: mc) (auto intro: assms(3))

lemma unpark_all_pending [simp]: "mc_pending (foldl (unpark_block he a) mc bs) = mc_pending mc"
  by (induction bs arbitrary: mc) simp_all

lemma mc_typed_unpark_all:
  assumes "mc_typed he B mc" "collision_free he B" "set bs \<subseteq> B"
  shows "mc_typed he B (foldl (unpark_block he a) mc bs)"
  using assms(1,3) by (rule unpark_all_inv) (rule mc_typed_unpark_block [OF _ assms(2)])

subsection \<open>The turns of the loops\<close>

lemma advance_turn_Inl:
  "advance_turn a mc = Inl mc' \<longleftrightarrow> (\<exists>cur nxt b. mc_heads mc a = Some cur \<and> mc_child_of mc cur = Some nxt \<and>
     mc_store mc nxt = Some b \<and> mc' = move_head a nxt (b_height b) mc)"
  by (auto simp: advance_turn_def split: option.splits)

lemma advance_turn_Inr: "advance_turn a mc = Inr mc' \<Longrightarrow> mc' = mc"
  by (auto simp: advance_turn_def split: option.splits)

lemma drain_turn_Inl:
  "drain_turn he a mc = Inl mc' \<longleftrightarrow> (\<exists>cur bs. mc_heads mc a = Some cur \<and> mc_pending mc cur = Some bs \<and>
     bs \<noteq> [] \<and> mc' = foldl (unpark_block he a) (mc\<lparr>mc_pending := (mc_pending mc)(cur := None)\<rparr>) bs)"
  by (auto simp: drain_turn_def Let_def split: option.splits if_splits)

text \<open>On a well-typed state no parked list is empty, so the last turn of the drain changes nothing.\<close>

lemma drain_turn_Inr:
  assumes "mc_typed he B mc" "drain_turn he a mc = Inr mc'"
  shows "mc' = mc" "mc_heads mc a = Some cur \<Longrightarrow> mc_pending mc cur = None"
proof -
  have "(mc_pending mc)(c := None) = mc_pending mc" if "mc_pending mc c = None" for c
    using that by (metis fun_upd_triv)
  then show "mc' = mc" "mc_heads mc a = Some cur \<Longrightarrow> mc_pending mc cur = None"
    using assms mc_typed_pending [OF assms(1)]
    by (auto simp: drain_turn_def Let_def split: option.splits if_splits)
qed

lemma mc_typed_advance_turn:
  "mc_typed he B mc \<Longrightarrow> advance_turn a mc = Inl mc' \<Longrightarrow> mc_typed he B mc'"
  by (auto simp: advance_turn_Inl intro: mc_typed_move_head)

lemma mc_typed_drain_turn:
  assumes "mc_typed he B mc" "collision_free he B" "drain_turn he a mc = Inl mc'"
  shows "mc_typed he B mc'"
proof -
  from assms(3) obtain cur bs where "mc_pending mc cur = Some bs"
    and mc': "mc' = foldl (unpark_block he a) (mc\<lparr>mc_pending := (mc_pending mc)(cur := None)\<rparr>) bs"
    by (auto simp: drain_turn_Inl)
  with mc_typed_pending [OF assms(1)] have "set bs \<subseteq> B" by blast
  with assms(1,2) show ?thesis
    unfolding mc' by (intro mc_typed_unpark_all mc_typed_unpark_key)
qed

subsection \<open>Every loop ends\<close>

lemma advance_ends:
  assumes "mc_typed he B mc" "hera_ranked he B rank"
    and I: "I mc" "\<And>mc mc'. I mc \<Longrightarrow> mc_typed he B mc \<Longrightarrow> advance_turn a mc = Inl mc' \<Longrightarrow> I mc'"
  shows "\<exists>mc'. hera_advance_head a mc = Some mc' \<and> mc_typed he B mc' \<and> I mc'"
proof -
  define above where "above mc = (case mc_heads mc a of None \<Rightarrow> {}
    | Some cur \<Rightarrow> {h \<in> dom (mc_store mc). rank cur < rank h})" for mc :: "'b multi_chain"
  have dec: "card (above mc') < card (above mc)"
    if t: "mc_typed he B mc" and turn: "advance_turn a mc = Inl mc'" for mc mc'
  proof -
    from turn obtain cur nxt b where h: "mc_heads mc a = Some cur" "mc_child_of mc cur = Some nxt"
      "mc_store mc nxt = Some b" and mc': "mc' = move_head a nxt (b_height b) mc"
      by (auto simp: advance_turn_Inl)
    from mc_typed_child [OF t h(2)] h(3) have "b_parent b = cur" by simp
    with mc_typed_store [OF t h(3)] assms(2) have "rank cur < rank nxt" by (auto simp: hera_ranked_def)
    then have "above mc' \<subset> above mc" using h by (auto simp: above_def mc')
    moreover have "finite (above mc)" using mc_typed_finite(1) [OF t] by (simp add: above_def split: option.split)
    ultimately show ?thesis by (simp add: psubset_card_mono)
  qed
  show ?thesis
    unfolding hera_advance_head_def
    by (rule run_loop_total [where I = "\<lambda>mc. mc_typed he B mc \<and> I mc" and m = "\<lambda>mc. card (above mc)"])
       (use assms dec in \<open>auto intro: mc_typed_advance_turn dest: advance_turn_Inr\<close>)
qed

lemma drain_ends:
  assumes "mc_typed he B mc" "collision_free he B"
    and I: "I mc" "\<And>mc mc'. I mc \<Longrightarrow> mc_typed he B mc \<Longrightarrow> drain_turn he a mc = Inl mc' \<Longrightarrow> I mc'"
  shows "\<exists>mc'. drain_pending_for_author he a mc = Some mc' \<and> mc_typed he B mc' \<and> I mc' \<and>
    (\<forall>cur. mc_heads mc' a = Some cur \<longrightarrow> mc_pending mc' cur = None)"
proof -
  have dec: "card (dom (mc_pending mc')) < card (dom (mc_pending mc))"
    if t: "mc_typed he B mc" and turn: "drain_turn he a mc = Inl mc'" for mc mc'
  proof -
    from turn obtain cur bs where cur: "mc_pending mc cur = Some bs"
      and p: "mc_pending mc' = (mc_pending mc)(cur := None)"
      by (auto simp: drain_turn_Inl)
    have "dom (mc_pending mc') \<subset> dom (mc_pending mc)" using cur unfolding p by auto
    then show ?thesis using mc_typed_finite(2) [OF t] by (rule psubset_card_mono [rotated])
  qed
  show ?thesis
    unfolding drain_pending_for_author_def
  proof (rule run_loop_total [where I = "\<lambda>mc. mc_typed he B mc \<and> I mc" and m = "\<lambda>mc. card (dom (mc_pending mc))"])
    fix s r assume s: "mc_typed he B s \<and> I s" "drain_turn he a s = Inr r"
    then have "r = s" using drain_turn_Inr(1) by blast
    moreover have "\<forall>cur. mc_heads s a = Some cur \<longrightarrow> mc_pending s cur = None"
      using drain_turn_Inr(2) s by blast
    ultimately show "mc_typed he B r \<and> I r \<and> (\<forall>cur. mc_heads r a = Some cur \<longrightarrow> mc_pending r cur = None)"
      using s by simp
  qed (use assms dec in \<open>auto intro: mc_typed_drain_turn\<close>)
qed

subsection \<open>Admission as a whole\<close>

text \<open>
  What an elementary step must keep for a property to hold through the admission of a block of
  author \<open>a\<close>: \<open>C\<close> is the set of blocks in play.
\<close>

locale chain_admission =
  fixes he :: "('s, 'tx, 'b) henv"
    and a :: node_id
    and C :: "'tx data_block set"
    and I :: "'tx multi_chain \<Rightarrow> bool"
  assumes store: "I mc \<Longrightarrow> b \<in> C \<Longrightarrow> I (store_block (hera_block_hash he b) b (b_parent b) mc)"
    and head: "I mc \<Longrightarrow> mc_store mc h = Some b \<Longrightarrow> I (move_head a h (b_height b) mc)"
    and take: "I mc \<Longrightarrow> I (mc\<lparr>mc_pending := (mc_pending mc)(p := None)\<rparr>)"
    and parked: "I mc \<Longrightarrow> mc_pending mc p = Some bs \<Longrightarrow> set bs \<subseteq> C"
    and park: "I mc \<Longrightarrow> b \<in> C \<Longrightarrow> I (park (b_parent b) b mc)"
begin

lemma store_head:
  "I mc \<Longrightarrow> b \<in> C \<Longrightarrow> I (move_head a (hera_block_hash he b) (b_height b)
     (store_block (hera_block_hash he b) b (b_parent b) mc))"
  by (rule head [OF store]) simp_all

lemma unpark: "I mc \<Longrightarrow> b \<in> C \<Longrightarrow> I (unpark_block he a mc b)"
  by (simp add: unpark_block_def Let_def store store_head)

lemma advance: "hera_advance_head a mc = Some mc' \<Longrightarrow> I mc \<Longrightarrow> I mc'"
  unfolding hera_advance_head_def
  by (erule run_loop_inv [where I = I]) (auto simp: advance_turn_Inl intro: head dest: advance_turn_Inr)

lemma drain: "drain_pending_for_author he a mc = Some mc' \<Longrightarrow> I mc \<Longrightarrow> I mc'"
  unfolding drain_pending_for_author_def
proof (erule run_loop_inv [where I = I])
  fix s s' assume s: "I s" "drain_turn he a s = Inl s'"
  then obtain cur bs where bs: "mc_pending s cur = Some bs"
    and s': "s' = foldl (unpark_block he a) (s\<lparr>mc_pending := (mc_pending s)(cur := None)\<rparr>) bs"
    by (auto simp: drain_turn_Inl)
  have "I (s\<lparr>mc_pending := (mc_pending s)(cur := None)\<rparr>)" using s(1) by (rule take)
  moreover have "set bs \<subseteq> C" using s(1) bs by (rule parked)
  ultimately show "I s'" unfolding s' by (rule unpark_all_inv) (rule unpark)
next
  fix s r assume "I s" "drain_turn he a s = Inr r"
  then show "I r" by (auto simp: drain_turn_def Let_def intro: take split: option.splits if_splits)
qed

lemma admitted:
  assumes "admit_typed he b mc = Some (r, mc')" "I mc" "b \<in> C" "b_author b = a"
  shows "I mc'"
proof -
  note parts = store [OF assms(2,3)] store_head [OF assms(2,3)] park [OF assms(2,3)]
  show ?thesis
    using assms parts
    by (auto simp: admit_typed_def Let_def intro: drain advance split: option.splits if_splits bind_splits)
qed

end

text \<open>The first property that fits is the typing of the state itself.\<close>

interpretation adm_typed: chain_admission he a B "\<lambda>mc. collision_free he B \<and> mc_typed he B mc"
  for he :: "('s, 'tx, 'b) henv" and a B
  by unfold_locales
     (auto intro: mc_typed_store_block mc_typed_move_head mc_typed_unpark_key mc_typed_park dest: mc_typed_pending)

lemma admit_ends:
  assumes "mc_typed he B mc" "collision_free he B" "hera_ranked he B rank" "b \<in> B"
  shows "\<exists>r mc'. admit_typed he b mc = Some (r, mc') \<and> mc_typed he B mc'"
proof -
  have "\<exists>x. admit_typed he b mc = Some x"
  proof -
    let ?s = "store_block (hera_block_hash he b) b (b_parent b) mc"
    have s: "mc_typed he B ?s" using assms by (intro mc_typed_store_block) simp_all
    have m: "mc_typed he B (move_head (b_author b) (hera_block_hash he b) (b_height b) ?s)"
      by (rule mc_typed_move_head [OF s]) simp
    obtain mc1 where mc1: "drain_pending_for_author he (b_author b)
        (move_head (b_author b) (hera_block_hash he b) (b_height b) ?s) = Some mc1"
      using drain_ends [OF m assms(2), of "\<lambda>_. True"] by blast
    obtain mc2 where mc2: "hera_advance_head (b_author b) ?s = Some mc2" "mc_typed he B mc2"
      using advance_ends [OF s assms(3), of "\<lambda>_. True"] by blast
    obtain mc3 where "drain_pending_for_author he (b_author b) mc2 = Some mc3"
      using drain_ends [OF mc2(2) assms(2), of "\<lambda>_. True"] by blast
    with mc1 mc2 show ?thesis by (auto simp: admit_typed_def Let_def split: option.split)
  qed
  then obtain r mc' where "admit_typed he b mc = Some (r, mc')" by auto
  with adm_typed.admitted [OF this _ assms(4) refl] assms(1,2) show ?thesis by blast
qed

text \<open>The untyped variant takes the same steps.\<close>

lemma admit_same_state: "map_option snd (admit he b mc) = map_option snd (admit_typed he b mc)"
  by (auto simp: admit_def admit_typed_def Let_def option.map_comp comp_def split: option.split)

subsection \<open>Sequences of deliveries\<close>

fun deliver_all ::
  "('s, 'tx, 'b) henv \<Rightarrow> 'tx data_block list \<Rightarrow> 'tx multi_chain \<Rightarrow> 'tx multi_chain option" where
  "deliver_all he [] mc = Some mc"
| "deliver_all he (b # bs) mc = Option.bind (admit_typed he b mc) (\<lambda>(r, mc'). deliver_all he bs mc')"

lemma deliver_all_ends:
  assumes "collision_free he B" "hera_ranked he B rank"
  shows "mc_typed he B mc \<Longrightarrow> set bs \<subseteq> B \<Longrightarrow> \<exists>mc'. deliver_all he bs mc = Some mc' \<and> mc_typed he B mc'"
proof (induction bs arbitrary: mc)
  case (Cons b bs)
  then obtain r mc1 where "admit_typed he b mc = Some (r, mc1)" "mc_typed he B mc1"
    using admit_ends [OF Cons.prems(1) assms, of b] by auto
  with Cons.IH [of mc1] Cons.prems(2) show ?case by auto
qed simp

end
