(* ===== verification/HeraDelivery.thy ===== *)
theory HeraDelivery
  imports HeraAdmission
begin

section \<open>A correct author's blocks are delivered\<close>

text \<open>
  The chain of a correct author \<open>i\<close> is \<open>c 0, \<dots>, c n\<close>, with \<open>c 0\<close> the genesis block. Whatever
  order its blocks arrive in, and whatever blocks other authors send in between, after every
  delivery the head of \<open>i\<close> is the last block of the longest prefix that has arrived. The one
  assumption on the others is that none of their blocks has the hash of a block of \<open>i\<close>; a block's
  hash does not cover its author, so this is an assumption indeed.
\<close>

definition authors_chain ::
  "('s, 'tx, 'b) henv \<Rightarrow> node_id \<Rightarrow> (nat \<Rightarrow> 'tx data_block) \<Rightarrow> nat \<Rightarrow> bool" where
  "authors_chain he i c n \<longleftrightarrow> c 0 = data_genesis \<and>
     (\<forall>m. 0 < m \<and> m \<le> n \<longrightarrow> b_author (c m) = i \<and> b_height (c m) = m \<and>
        b_parent (c m) = hera_block_hash he (c (m - 1)))"

definition plays ::
  "('s, 'tx, 'b) henv \<Rightarrow> node_id \<Rightarrow> (nat \<Rightarrow> 'tx data_block) \<Rightarrow> nat \<Rightarrow> 'tx data_block set \<Rightarrow> bool" where
  "plays he i c n B \<longleftrightarrow> c ` {0..n} \<subseteq> B \<and>
     (\<forall>b \<in> B. (b_author b = i \<longrightarrow> b \<in> c ` {0..n}) \<and>
        (b_author b \<noteq> i \<longrightarrow> (\<forall>m. 0 < m \<and> m \<le> n \<longrightarrow> hera_block_hash he b \<noteq> hera_block_hash he (c m))))"

definition setting ::
  "('s, 'tx, 'b) henv \<Rightarrow> node_id \<Rightarrow> (nat \<Rightarrow> 'tx data_block) \<Rightarrow> nat \<Rightarrow> 'tx data_block set
    \<Rightarrow> (digest \<Rightarrow> nat) \<Rightarrow> bool" where
  "setting he i c n B rank \<longleftrightarrow>
     authors_chain he i c n \<and> plays he i c n B \<and> collision_free he B \<and> hera_ranked he B rank"

lemma setting_parts:
  assumes "setting he i c n B rank"
  shows "collision_free he B" "hera_ranked he B rank" "c 0 = data_genesis" "m \<le> n \<Longrightarrow> c m \<in> B"
    "0 < m \<Longrightarrow> m \<le> n \<Longrightarrow> b_author (c m) = i" "m \<le> n \<Longrightarrow> b_height (c m) = m"
    "0 < m \<Longrightarrow> m \<le> n \<Longrightarrow> b_parent (c m) = hera_block_hash he (c (m - 1))"
proof -
  have A: "authors_chain he i c n" and P: "plays he i c n B" using assms by (simp_all add: setting_def)
  show "collision_free he B" "hera_ranked he B rank" using assms by (simp_all add: setting_def)
  show "c 0 = data_genesis" using A by (simp add: authors_chain_def)
  show "m \<le> n \<Longrightarrow> c m \<in> B" using P by (auto simp: plays_def)
  show "0 < m \<Longrightarrow> m \<le> n \<Longrightarrow> b_author (c m) = i"
    "0 < m \<Longrightarrow> m \<le> n \<Longrightarrow> b_parent (c m) = hera_block_hash he (c (m - 1))"
    using A by (simp_all add: authors_chain_def)
  show "m \<le> n \<Longrightarrow> b_height (c m) = m"
    using A by (cases "m = 0") (simp_all add: authors_chain_def data_genesis_def)
qed

lemma setting_plays:
  assumes "setting he i c n B rank" "b \<in> B"
  shows "b_author b = i \<Longrightarrow> \<exists>m \<le> n. b = c m"
    "b_author b \<noteq> i \<Longrightarrow> 0 < m \<Longrightarrow> m \<le> n \<Longrightarrow> hera_block_hash he b \<noteq> hera_block_hash he (c m)"
proof -
  have P: "b_author b = i \<longrightarrow> b \<in> c ` {0..n}"
    "b_author b \<noteq> i \<longrightarrow> (\<forall>m. 0 < m \<and> m \<le> n \<longrightarrow> hera_block_hash he b \<noteq> hera_block_hash he (c m))"
    using assms by (auto simp: setting_def plays_def)
  show "b_author b = i \<Longrightarrow> \<exists>m \<le> n. b = c m" using P(1) by fastforce
  show "b_author b \<noteq> i \<Longrightarrow> 0 < m \<Longrightarrow> m \<le> n \<Longrightarrow> hera_block_hash he b \<noteq> hera_block_hash he (c m)"
    using P(2) by blast
qed

lemma chain_rank:
  assumes "setting he i c n B rank"
  shows "k < m \<Longrightarrow> m \<le> n \<Longrightarrow> rank (hera_block_hash he (c k)) < rank (hera_block_hash he (c m))"
proof (induction m)
  case (Suc m)
  have "c (Suc m) \<in> B" using setting_parts(4) [OF assms] Suc.prems by simp
  with setting_parts(2) [OF assms] have "rank (b_parent (c (Suc m))) < rank (hera_block_hash he (c (Suc m)))"
    by (simp add: hera_ranked_def)
  moreover have "b_parent (c (Suc m)) = hera_block_hash he (c m)"
    using setting_parts(7) [OF assms, of "Suc m"] Suc.prems by simp
  ultimately show ?case using Suc by (cases "k = m") auto
qed simp

lemma chain_hash_inj:
  assumes "setting he i c n B rank" "k \<le> n" "m \<le> n" "hera_block_hash he (c k) = hera_block_hash he (c m)"
  shows "k = m"
  using chain_rank [OF assms(1), of k m] chain_rank [OF assms(1), of m k] assms(2-4)
  by (cases k m rule: linorder_cases) auto

subsection \<open>The invariant of a correct author's chain\<close>

text \<open>
  \<open>D\<close> are the numbers of the blocks of \<open>i\<close> that have arrived, \<open>k\<close> is where the head stands. In the
  middle of a drain the next block may still be parked.
\<close>

definition follows ::
  "('s, 'tx, 'b) henv \<Rightarrow> node_id \<Rightarrow> (nat \<Rightarrow> 'tx data_block) \<Rightarrow> nat \<Rightarrow> nat set \<Rightarrow> nat \<Rightarrow> 'tx multi_chain \<Rightarrow> bool" where
  "follows he i c n D k mc \<longleftrightarrow>
     k \<le> n \<and> {1..k} \<subseteq> D \<and> mc_heads mc i = Some (hera_block_hash he (c k)) \<and>
     (\<forall>m \<le> n. mc_store mc (hera_block_hash he (c m)) \<noteq> None \<longleftrightarrow> m \<le> k) \<and>
     (\<forall>p bs b. mc_pending mc p = Some bs \<longrightarrow> b \<in> set bs \<longrightarrow> b_author b = i \<longrightarrow>
        (\<exists>m. b = c m \<and> k < m \<and> m \<le> n \<and> m \<in> D)) \<and>
     (\<forall>m \<in> D. m \<le> n \<longrightarrow> k < m \<longrightarrow>
        (\<exists>bs. mc_pending mc (hera_block_hash he (c (m - 1))) = Some bs \<and> c m \<in> set bs))"

lemma followsD:
  assumes "follows he i c n D k mc"
  shows "k \<le> n" "{1..k} \<subseteq> D" "mc_heads mc i = Some (hera_block_hash he (c k))"
    "m \<le> n \<Longrightarrow> mc_store mc (hera_block_hash he (c m)) \<noteq> None \<longleftrightarrow> m \<le> k"
    "mc_pending mc p = Some bs \<Longrightarrow> b \<in> set bs \<Longrightarrow> b_author b = i \<Longrightarrow> \<exists>m. b = c m \<and> k < m \<and> m \<le> n \<and> m \<in> D"
    "m \<in> D \<Longrightarrow> m \<le> n \<Longrightarrow> k < m \<Longrightarrow> \<exists>bs. mc_pending mc (hera_block_hash he (c (m - 1))) = Some bs \<and> c m \<in> set bs"
  using assms unfolding follows_def by (elim conjE, (assumption | blast))+

lemma followsI:
  assumes "k \<le> n" "{1..k} \<subseteq> D" "mc_heads mc i = Some (hera_block_hash he (c k))"
    and "\<And>m. m \<le> n \<Longrightarrow> mc_store mc (hera_block_hash he (c m)) \<noteq> None \<longleftrightarrow> m \<le> k"
    and "\<And>p bs b. mc_pending mc p = Some bs \<Longrightarrow> b \<in> set bs \<Longrightarrow> b_author b = i \<Longrightarrow>
      \<exists>m. b = c m \<and> k < m \<and> m \<le> n \<and> m \<in> D"
    and "\<And>m. m \<in> D \<Longrightarrow> m \<le> n \<Longrightarrow> k < m \<Longrightarrow>
      \<exists>bs. mc_pending mc (hera_block_hash he (c (m - 1))) = Some bs \<and> c m \<in> set bs"
  shows "follows he i c n D k mc"
  unfolding follows_def using assms by (intro conjI allI ballI impI) (assumption | blast)+

text \<open>Only the numbers up to \<open>n\<close> count.\<close>

lemma follows_cong:
  assumes F: "follows he i c n D k mc" and eq: "\<And>m. m \<le> n \<Longrightarrow> m \<in> D \<longleftrightarrow> m \<in> D'"
  shows "follows he i c n D' k mc"
proof (rule followsI)
  show "{1..k} \<subseteq> D'" using followsD(1,2) [OF F] eq by (auto dest: subsetD)
next
  fix p bs b assume "mc_pending mc p = Some bs" "b \<in> set bs" "b_author b = i"
  with followsD(5) [OF F] eq show "\<exists>m. b = c m \<and> k < m \<and> m \<le> n \<and> m \<in> D'" by blast
qed (use followsD [OF F] eq in simp_all)

text \<open>Other authors' blocks and heads do not matter.\<close>

lemma follows_foreign:
  assumes "setting he i c n B rank" "follows he i c n D k mc" "b \<in> B" "b_author b \<noteq> i"
  shows "follows he i c n D k (store_block (hera_block_hash he b) b p mc)"
proof (rule followsI)
  fix m assume m: "m \<le> n"
  show "mc_store (store_block (hera_block_hash he b) b p mc) (hera_block_hash he (c m)) \<noteq> None \<longleftrightarrow> m \<le> k"
    using followsD(4) [OF assms(2) m] setting_plays(2) [OF assms(1,3,4), of m] m
    by (cases "m = 0") auto
qed (use followsD [OF assms(2)] in simp_all)

lemma follows_other_head: "follows he i c n D k mc \<Longrightarrow> a \<noteq> i \<Longrightarrow> follows he i c n D k (move_head a h ht mc)"
  by (simp add: follows_def)

lemma follows_unpark_foreign:
  assumes "setting he i c n B rank" "follows he i c n D k mc" "b \<in> B" "b_author b \<noteq> i"
  shows "follows he i c n D k (unpark_block he a mc b)"
  using follows_foreign [OF assms] assms(4)
  by (auto simp: unpark_block_def Let_def intro: follows_other_head)

text \<open>The next block of the author moves its head by one.\<close>

lemma follows_next:
  assumes S: "setting he i c n B rank" and F: "follows he i c n (D - {Suc k}) k mc" and n: "Suc k \<le> n"
    and D: "Suc k \<in> D"
  shows "follows he i c n D (Suc k) (move_head i (hera_block_hash he (c (Suc k))) (Suc k)
    (store_block (hera_block_hash he (c (Suc k))) (c (Suc k)) p mc))"
proof (rule followsI)
  show "Suc k \<le> n" by (fact n)
  show "{1..Suc k} \<subseteq> D" using followsD(2) [OF F] D by (auto simp: atLeastAtMostSuc_conv)
next
  fix m assume m: "m \<le> n"
  have "hera_block_hash he (c m) = hera_block_hash he (c (Suc k)) \<longleftrightarrow> m = Suc k"
    using chain_hash_inj [OF S m n] by blast
  then show "mc_store (move_head i (hera_block_hash he (c (Suc k))) (Suc k)
      (store_block (hera_block_hash he (c (Suc k))) (c (Suc k)) p mc)) (hera_block_hash he (c m)) \<noteq> None \<longleftrightarrow> m \<le> Suc k"
    using followsD(4) [OF F m] by (auto simp: le_Suc_eq)
next
  fix q bs b assume q: "mc_pending (move_head i (hera_block_hash he (c (Suc k))) (Suc k)
      (store_block (hera_block_hash he (c (Suc k))) (c (Suc k)) p mc)) q = Some bs" "b \<in> set bs" "b_author b = i"
  then obtain m where m: "b = c m" "k < m" "m \<le> n" "m \<in> D - {Suc k}" using followsD(5) [OF F, of q bs b] by auto
  then show "\<exists>m. b = c m \<and> Suc k < m \<and> m \<le> n \<and> m \<in> D" by auto
next
  fix m assume "m \<in> D" "m \<le> n" "Suc k < m"
  then show "\<exists>bs. mc_pending (move_head i (hera_block_hash he (c (Suc k))) (Suc k)
      (store_block (hera_block_hash he (c (Suc k))) (c (Suc k)) p mc)) (hera_block_hash he (c (m - 1))) = Some bs \<and>
      c m \<in> set bs"
    using followsD(6) [OF F, of m] by simp
qed simp

text \<open>Storing the head again changes nothing.\<close>

lemma follows_again:
  assumes S: "setting he i c n B rank" and F: "follows he i c n D k mc"
  shows "follows he i c n D k (move_head i (hera_block_hash he (c k)) k
    (store_block (hera_block_hash he (c k)) (c k) p mc))"
proof (rule followsI)
  fix m assume m: "m \<le> n"
  show "mc_store (move_head i (hera_block_hash he (c k)) k
      (store_block (hera_block_hash he (c k)) (c k) p mc)) (hera_block_hash he (c m)) \<noteq> None \<longleftrightarrow> m \<le> k"
    using followsD(4) [OF F m] chain_hash_inj [OF S m followsD(1) [OF F]] by auto
qed (use followsD [OF F] in simp_all)

lemma unpark_own:
  assumes "setting he i c n B rank" "0 < m" "m \<le> n"
  shows "unpark_block he i mc (c m) = move_head i (hera_block_hash he (c m)) m
    (store_block (hera_block_hash he (c m)) (c m) (b_parent (c m)) mc)"
  using setting_parts(5,6) [OF assms(1), of m] assms(2,3) by (simp add: unpark_block_def Let_def)

lemma follows_unpark_list_after:
  assumes S: "setting he i c n B rank" and n: "Suc k \<le> n"
  shows "follows he i c n D (Suc k) mc \<Longrightarrow> set bs \<subseteq> B \<Longrightarrow>
    (\<And>b. b \<in> set bs \<Longrightarrow> b_author b = i \<Longrightarrow> b = c (Suc k)) \<Longrightarrow>
    follows he i c n D (Suc k) (foldl (unpark_block he i) mc bs)"
proof (induction bs arbitrary: mc)
  case (Cons b bs)
  have "follows he i c n D (Suc k) (unpark_block he i mc b)"
  proof (cases "b_author b = i")
    case True
    with Cons.prems(3) have "b = c (Suc k)" by simp
    with unpark_own [OF S, of "Suc k"] n follows_again [OF S Cons.prems(1)] show ?thesis by simp
  next
    case False
    with Cons.prems show ?thesis by (intro follows_unpark_foreign [OF S]) auto
  qed
  with Cons show ?case by simp
qed simp

lemma follows_unpark_list:
  assumes S: "setting he i c n B rank" and n: "Suc k \<le> n"
  shows "follows he i c n (D - {Suc k}) k mc \<Longrightarrow> set bs \<subseteq> B \<Longrightarrow>
    (\<And>b. b \<in> set bs \<Longrightarrow> b_author b = i \<Longrightarrow> b = c (Suc k)) \<Longrightarrow>
    (if c (Suc k) \<in> set bs then Suc k \<in> D \<longrightarrow> follows he i c n D (Suc k) (foldl (unpark_block he i) mc bs)
     else follows he i c n (D - {Suc k}) k (foldl (unpark_block he i) mc bs))"
proof (induction bs arbitrary: mc)
  case (Cons b bs)
  show ?case
  proof (cases "b_author b = i")
    case True
    with Cons.prems(3) have b: "b = c (Suc k)" by simp
    have "follows he i c n D (Suc k) (foldl (unpark_block he i) (unpark_block he i mc b) bs)" if "Suc k \<in> D"
    proof (rule follows_unpark_list_after [OF S n])
      show "follows he i c n D (Suc k) (unpark_block he i mc b)"
        using follows_next [OF S Cons.prems(1) n that] unpark_own [OF S, of "Suc k"] n b by simp
    qed (use Cons.prems in auto)
    with b show ?thesis by simp
  next
    case False
    moreover have "b_author (c (Suc k)) = i" using setting_parts(5) [OF S, of "Suc k"] n by simp
    ultimately have "c (Suc k) \<noteq> b" by blast
    moreover have "follows he i c n (D - {Suc k}) k (unpark_block he i mc b)"
      using Cons.prems False by (intro follows_unpark_foreign [OF S]) auto
    ultimately show ?thesis using Cons by simp
  qed
qed simp

lemma follows_take:
  assumes S: "setting he i c n B rank" and t: "mc_typed he B mc" and F: "follows he i c n D k mc"
  shows "follows he i c n (D - {Suc k}) k (mc\<lparr>mc_pending := (mc_pending mc)(hera_block_hash he (c k) := None)\<rparr>)"
proof (rule followsI)
  show "{1..k} \<subseteq> D - {Suc k}" using followsD(2) [OF F] by auto
next
  fix q bs b
  assume q: "mc_pending (mc\<lparr>mc_pending := (mc_pending mc)(hera_block_hash he (c k) := None)\<rparr>) q = Some bs"
    "b \<in> set bs" "b_author b = i"
  then have q': "mc_pending mc q = Some bs" "q \<noteq> hera_block_hash he (c k)" by (auto split: if_splits)
  with q obtain m where m: "b = c m" "k < m" "m \<le> n" "m \<in> D" using followsD(5) [OF F] by blast
  have "b_parent b = q" using mc_typed_pending [OF t q'(1)] q(2) by blast
  with setting_parts(7) [OF S, of m] m q'(2) have "m \<noteq> Suc k" by auto
  with m show "\<exists>m. b = c m \<and> k < m \<and> m \<le> n \<and> m \<in> D - {Suc k}" by blast
next
  fix m assume m: "m \<in> D - {Suc k}" "m \<le> n" "k < m"
  then have "hera_block_hash he (c (m - 1)) \<noteq> hera_block_hash he (c k)"
    using chain_hash_inj [OF S, of "m - 1" k] followsD(1) [OF F] by auto
  with m followsD(6) [OF F, of m]
  show "\<exists>bs. mc_pending (mc\<lparr>mc_pending := (mc_pending mc)(hera_block_hash he (c k) := None)\<rparr>)
      (hera_block_hash he (c (m - 1))) = Some bs \<and> c m \<in> set bs"
    by simp
qed (use followsD [OF F] in simp_all)

subsection \<open>Drains and walks\<close>

text \<open>A turn of the author's own drain.\<close>

lemma follows_drain_own:
  assumes S: "setting he i c n B rank" and t: "mc_typed he B mc" and F: "follows he i c n D k mc"
    and "drain_turn he i mc = Inl mc'"
  shows "\<exists>k'. follows he i c n D k' mc'"
proof -
  let ?cur = "hera_block_hash he (c k)"
  let ?mc1 = "mc\<lparr>mc_pending := (mc_pending mc)(?cur := None)\<rparr>"
  from assms(4) followsD(3) [OF F] obtain bs where bs: "mc_pending mc ?cur = Some bs"
    and mc': "mc' = foldl (unpark_block he i) ?mc1 bs"
    by (auto simp: drain_turn_Inl)
  have B: "set bs \<subseteq> B" "\<And>b. b \<in> set bs \<Longrightarrow> b_parent b = ?cur" using mc_typed_pending [OF t bs] by blast+
  have own: "b = c (Suc k) \<and> Suc k \<le> n \<and> Suc k \<in> D" if b: "b \<in> set bs" "b_author b = i" for b
  proof -
    from followsD(5) [OF F bs b] obtain m where m: "b = c m" "k < m" "m \<le> n" "m \<in> D" by blast
    with B(2) [OF b(1)] setting_parts(7) [OF S, of m] have "hera_block_hash he (c (m - 1)) = ?cur" by simp
    with chain_hash_inj [OF S, of "m - 1" k] m have "m = Suc k" by auto
    with m show ?thesis by simp
  qed
  have F1: "follows he i c n (D - {Suc k}) k ?mc1" by (rule follows_take [OF S t F])
  have mem: "c (Suc k) \<in> set bs" if "Suc k \<in> D" "Suc k \<le> n"
    using followsD(6) [OF F that] bs by simp
  show ?thesis
  proof (cases "Suc k \<in> D \<and> Suc k \<le> n")
    case True
    with follows_unpark_list [OF S _ F1 B(1)] own mem show ?thesis unfolding mc' by auto
  next
    case False
    have "follows he i c n (D - {Suc k}) k (foldl (unpark_block he i) ?mc1 bs)"
      using F1
      by (rule unpark_all_inv [where C = "{b \<in> B. b_author b \<noteq> i}"])
         (use B(1) own False follows_unpark_foreign [OF S] in auto)
    then have "follows he i c n D k (foldl (unpark_block he i) ?mc1 bs)"
      by (rule follows_cong) (use False in auto)
    then show ?thesis unfolding mc' by blast
  qed
qed

text \<open>Another author's drain finds no block of \<open>i\<close>.\<close>

lemma follows_drain_other:
  assumes S: "setting he i c n B rank" and t: "mc_typed he B mc" and F: "follows he i c n D k mc"
    and done_: "Suc k \<notin> D" and a: "a \<noteq> i" and "drain_turn he a mc = Inl mc'"
  shows "follows he i c n D k mc'"
proof -
  from assms(6) obtain cur bs where cur: "mc_heads mc a = Some cur" and bs: "mc_pending mc cur = Some bs"
    and mc': "mc' = foldl (unpark_block he a) (mc\<lparr>mc_pending := (mc_pending mc)(cur := None)\<rparr>) bs"
    by (auto simp: drain_turn_Inl)
  have here: "mc_store mc cur \<noteq> None" using mc_typed_head [OF t cur] by auto
  have away: "cur \<noteq> hera_block_hash he (c (m - 1))" if m: "m \<in> D" "m \<le> n" "k < m" for m
  proof
    assume "cur = hera_block_hash he (c (m - 1))"
    with here followsD(4) [OF F, of "m - 1"] m have "m - 1 \<le> k" by simp
    with m have "m = Suc k" by simp
    with m done_ show False by simp
  qed
  have foreign: "b_author b \<noteq> i" if b: "b \<in> set bs" for b
  proof
    assume "b_author b = i"
    with followsD(5) [OF F bs b] obtain m where m: "b = c m" "k < m" "m \<le> n" "m \<in> D" by blast
    with mc_typed_pending [OF t bs] b setting_parts(7) [OF S, of m] have "cur = hera_block_hash he (c (m - 1))" by auto
    with away [of m] m show False by blast
  qed
  have "follows he i c n D k (mc\<lparr>mc_pending := (mc_pending mc)(cur := None)\<rparr>)"
  proof (rule followsI)
    fix m assume "m \<in> D" "m \<le> n" "k < m"
    with followsD(6) [OF F, of m] away [of m]
    show "\<exists>bs. mc_pending (mc\<lparr>mc_pending := (mc_pending mc)(cur := None)\<rparr>)
        (hera_block_hash he (c (m - 1))) = Some bs \<and> c m \<in> set bs"
      by simp
  next
    fix p bs b assume "mc_pending (mc\<lparr>mc_pending := (mc_pending mc)(cur := None)\<rparr>) p = Some bs"
      "b \<in> set bs" "b_author b = i"
    then show "\<exists>m. b = c m \<and> k < m \<and> m \<le> n \<and> m \<in> D"
      using followsD(5) [OF F, of p bs b] by (simp split: if_splits)
  qed (use followsD [OF F] in simp_all)
  then show ?thesis
    unfolding mc'
    by (rule unpark_all_inv [where C = "{b \<in> B. b_author b \<noteq> i}"])
       (use mc_typed_pending [OF t bs] foreign follows_unpark_foreign [OF S] in auto)
qed

definition settled ::
  "('s, 'tx, 'b) henv \<Rightarrow> node_id \<Rightarrow> (nat \<Rightarrow> 'tx data_block) \<Rightarrow> nat \<Rightarrow> nat set \<Rightarrow> nat \<Rightarrow> 'tx multi_chain \<Rightarrow> bool" where
  "settled he i c n D k mc \<longleftrightarrow> follows he i c n D k mc \<and> Suc k \<notin> D"

lemma settled_drain_own:
  assumes S: "setting he i c n B rank" and t: "mc_typed he B mc" and F: "follows he i c n D k mc"
    and D: "D \<subseteq> {1..n}"
  shows "\<exists>mc' k'. drain_pending_for_author he i mc = Some mc' \<and> settled he i c n D k' mc'"
proof -
  obtain mc' where mc': "drain_pending_for_author he i mc = Some mc'"
    "\<exists>k. follows he i c n D k mc'" "\<forall>cur. mc_heads mc' i = Some cur \<longrightarrow> mc_pending mc' cur = None"
    using drain_ends [OF t setting_parts(1) [OF S], of "\<lambda>mc. \<exists>k. follows he i c n D k mc" i] F
      follows_drain_own [OF S] by blast
  then obtain k' where k': "follows he i c n D k' mc'" by blast
  have "Suc k' \<notin> D"
  proof
    assume "Suc k' \<in> D"
    with followsD(6) [OF k', of "Suc k'"] D followsD(3) [OF k'] mc'(3) show False by auto
  qed
  with mc'(1) k' show ?thesis by (auto simp: settled_def)
qed

lemma settled_drain_other:
  assumes S: "setting he i c n B rank" and t: "mc_typed he B mc" and F: "settled he i c n D k mc" and a: "a \<noteq> i"
  shows "\<exists>mc'. drain_pending_for_author he a mc = Some mc' \<and> settled he i c n D k mc'"
proof -
  have "settled he i c n D k mc2"
    if "settled he i c n D k mc1" "mc_typed he B mc1" "drain_turn he a mc1 = Inl mc2" for mc1 mc2
    using follows_drain_other [OF S that(2) _ _ a that(3)] that(1) by (simp add: settled_def)
  with drain_ends [OF t setting_parts(1) [OF S], of "settled he i c n D k" a] F show ?thesis by blast
qed

lemma settled_advance_other:
  assumes S: "setting he i c n B rank" and t: "mc_typed he B mc" and F: "settled he i c n D k mc" and a: "a \<noteq> i"
  shows "\<exists>mc'. hera_advance_head a mc = Some mc' \<and> mc_typed he B mc' \<and> settled he i c n D k mc'"
proof (rule advance_ends [OF t setting_parts(2) [OF S], of "settled he i c n D k" a, OF F])
  fix mc1 mc2 assume "settled he i c n D k mc1" "advance_turn a mc1 = Inl mc2"
  then show "settled he i c n D k mc2"
    using a by (auto simp: advance_turn_Inl settled_def intro: follows_other_head)
qed

lemma follows_park_foreign:
  assumes "follows he i c n D k mc" "b_author b \<noteq> i"
  shows "follows he i c n D k (park p b mc)"
proof (rule followsI)
  fix q bs b' assume q: "mc_pending (park p b mc) q = Some bs" "b' \<in> set bs" "b_author b' = i"
  then have "b' \<in> set (entry_list (mc_pending mc) q)"
    using assms(2) by (auto simp: push_entry_def extend_entry_def entry_list_def split: if_splits)
  then show "\<exists>m. b' = c m \<and> k < m \<and> m \<le> n \<and> m \<in> D"
    using followsD(5) [OF assms(1), of q _ b'] q(3) by (cases "mc_pending mc q") (simp_all add: entry_list_def)
next
  fix m assume "m \<in> D" "m \<le> n" "k < m"
  with followsD(6) [OF assms(1), of m]
  show "\<exists>bs. mc_pending (park p b mc) (hera_block_hash he (c (m - 1))) = Some bs \<and> c m \<in> set bs"
    by (auto simp: push_entry_def extend_entry_def entry_list_def)
qed (use followsD [OF assms(1)] in simp_all)

lemma follows_park_own:
  assumes "follows he i c n D k mc" "k < m" "m \<le> n"
  shows "follows he i c n (insert m D) k (park (hera_block_hash he (c (m - 1))) (c m) mc)"
proof (rule followsI)
  fix q bs b' assume q: "mc_pending (park (hera_block_hash he (c (m - 1))) (c m) mc) q = Some bs"
    "b' \<in> set bs" "b_author b' = i"
  then have "b' = c m \<or> b' \<in> set (entry_list (mc_pending mc) q)"
    by (auto simp: push_entry_def extend_entry_def entry_list_def split: if_splits)
  then show "\<exists>m'. b' = c m' \<and> k < m' \<and> m' \<le> n \<and> m' \<in> insert m D"
    using followsD(5) [OF assms(1), of q _ b'] q(3) assms(2,3)
    by (cases "mc_pending mc q") (auto simp: entry_list_def)
next
  fix m' assume "m' \<in> insert m D" "m' \<le> n" "k < m'"
  with followsD(6) [OF assms(1), of m']
  show "\<exists>bs. mc_pending (park (hera_block_hash he (c (m - 1))) (c m) mc) (hera_block_hash he (c (m' - 1))) = Some bs \<and>
      c m' \<in> set bs"
    by (auto simp: push_entry_def extend_entry_def entry_list_def)
next
  show "{1..k} \<subseteq> insert m D" using followsD(2) [OF assms(1)] by auto
qed (use followsD [OF assms(1)] in simp_all)

subsection \<open>One delivery\<close>

lemma settled_own_block:
  assumes S: "setting he i c n B rank" and t: "mc_typed he B mc" and F: "settled he i c n D k mc"
    and D: "D \<subseteq> {1..n}" and m: "0 < m" "m \<le> n"
  shows "\<exists>r mc' k'. admit_typed he (c m) mc = Some (r, mc') \<and> settled he i c n (insert m D) k' mc'"
proof -
  have f: "follows he i c n D k mc" "Suc k \<notin> D" using F by (simp_all add: settled_def)
  note st = followsD(4) [OF f(1)]
  have au: "b_author (c m) = i" and par: "b_parent (c m) = hera_block_hash he (c (m - 1))"
    and ht: "b_height (c m) = m"
    using setting_parts(5-7) [OF S, of m] m by simp_all
  consider (old) "m \<le> k" | (nxt) "m = Suc k" | (later) "Suc k < m" by linarith
  then show ?thesis
  proof cases
    case old
    then have "insert m D = D" using followsD(2) [OF f(1)] m by auto
    moreover have "admit_typed he (c m) mc = Some (Duplicate, mc)"
      using st [OF m(2)] old by (simp add: admit_typed_def Let_def)
    ultimately show ?thesis using F by auto
  next
    case nxt
    let ?s = "move_head i (hera_block_hash he (c m)) m (store_block (hera_block_hash he (c m)) (c m) (b_parent (c m)) mc)"
    have "follows he i c n (insert m D - {Suc k}) k mc" using f nxt by (simp add: insert_absorb)
    then have "follows he i c n (insert m D) (Suc k) ?s"
      using follows_next [OF S, of "insert m D" k mc] nxt m(2) by simp
    moreover have "mc_typed he B ?s"
      using adm_typed.store_head [of he B mc "c m" i] setting_parts(1,4) [OF S] t m(2) ht by auto
    moreover have "insert m D \<subseteq> {1..n}" using D m by auto
    ultimately obtain mc' k' where "drain_pending_for_author he i ?s = Some mc'" "settled he i c n (insert m D) k' mc'"
      using settled_drain_own [OF S] by blast
    moreover have "mc_store mc (hera_block_hash he (c m)) = None" using st [OF m(2)] nxt by auto
    ultimately show ?thesis
      using au par ht nxt followsD(3) [OF f(1)] by (auto simp: admit_typed_def Let_def)
  next
    case later
    have k: "k \<le> n" by (rule followsD(1) [OF f(1)])
    have m1: "m - 1 \<le> n" "\<not> m - 1 \<le> k" "\<not> m \<le> k" using later m(2) by linarith+
    have "mc_store mc (hera_block_hash he (c m)) = None" "mc_store mc (b_parent (c m)) = None"
      using st [OF m(2)] st [OF m1(1)] m1(2,3) unfolding par by blast+
    moreover have "b_parent (c m) \<noteq> hera_block_hash he (c k)" "b_parent (c m) \<noteq> hera_block_hash he (c 0)"
      using chain_hash_inj [OF S m1(1) k] chain_hash_inj [OF S m1(1), of 0] later unfolding par by fastforce+
    ultimately have "admit_typed he (c m) mc = Some (Parked (b_parent (c m)), park (b_parent (c m)) (c m) mc)"
      using au followsD(3) [OF f(1)] setting_parts(3) [OF S]
      by (simp add: admit_typed_def Let_def hera_genesis_hash_def)
    moreover have "settled he i c n (insert m D) k (park (b_parent (c m)) (c m) mc)"
      using follows_park_own [OF f(1), of m] later m(2) f(2) par by (simp add: settled_def)
    ultimately show ?thesis by auto
  qed
qed

lemma settled_foreign_block:
  assumes S: "setting he i c n B rank" and t: "mc_typed he B mc" and F: "settled he i c n D k mc"
    and b: "b \<in> B" "b_author b \<noteq> i"
  shows "\<exists>r mc'. admit_typed he b mc = Some (r, mc') \<and> settled he i c n D k mc'"
proof -
  let ?h = "hera_block_hash he b"
  let ?s = "store_block ?h b (b_parent b) mc"
  have f: "follows he i c n D k mc" "Suc k \<notin> D" using F by (simp_all add: settled_def)
  have ts: "mc_typed he B ?s" using mc_typed_store_block [OF t setting_parts(1) [OF S] b(1)] by simp
  have tm: "mc_typed he B (move_head (b_author b) ?h (b_height b) ?s)" by (rule mc_typed_move_head [OF ts]) simp
  have fs: "settled he i c n D k ?s" using follows_foreign [OF S f(1) b] f(2) by (simp add: settled_def)
  have fm: "settled he i c n D k (move_head (b_author b) ?h (b_height b) ?s)"
    using fs b(2) by (simp add: settled_def follows_other_head)
  obtain mc1 where mc1: "drain_pending_for_author he (b_author b) (move_head (b_author b) ?h (b_height b) ?s) = Some mc1"
    "settled he i c n D k mc1"
    using settled_drain_other [OF S tm fm b(2)] by blast
  obtain mc2 where mc2: "hera_advance_head (b_author b) ?s = Some mc2" "mc_typed he B mc2" "settled he i c n D k mc2"
    using settled_advance_other [OF S ts fs b(2)] by blast
  obtain mc3 where mc3: "drain_pending_for_author he (b_author b) mc2 = Some mc3" "settled he i c n D k mc3"
    using settled_drain_other [OF S mc2(2,3) b(2)] by blast
  have fp: "settled he i c n D k (park (b_parent b) b mc)"
    using follows_park_foreign [OF f(1) b(2)] f(2) by (simp add: settled_def)
  show ?thesis
    using mc1 mc2(1) mc3 fp F by (auto simp: admit_typed_def Let_def split: option.split)
qed

text \<open>Any sequence of deliveries, from the start.\<close>

definition arrived :: "(nat \<Rightarrow> 'tx data_block) \<Rightarrow> nat \<Rightarrow> 'tx data_block list \<Rightarrow> nat set" where
  "arrived c n bs = {m. 0 < m \<and> m \<le> n \<and> c m \<in> set bs}"

lemma settled_deliver_all:
  assumes S: "setting he i c n B rank"
  shows "mc_typed he B mc \<Longrightarrow> settled he i c n D k mc \<Longrightarrow> D \<subseteq> {1..n} \<Longrightarrow> set bs \<subseteq> B \<Longrightarrow>
    \<exists>mc' k'. deliver_all he bs mc = Some mc' \<and> mc_typed he B mc' \<and> settled he i c n (D \<union> arrived c n bs) k' mc'"
proof (induction bs arbitrary: mc D k)
  case Nil
  then show ?case by (auto simp: arrived_def)
next
  case (Cons b bs)
  let ?D = "D \<union> {m. 0 < m \<and> m \<le> n \<and> c m = b}"
  have b: "b \<in> B" using Cons.prems by simp
  have uniq: "m = m'" if "c m = c m'" "m \<le> n" "m' \<le> n" for m m'
    using chain_hash_inj [OF S that(2,3)] that(1) by simp
  have "\<exists>r mc' k'. admit_typed he b mc = Some (r, mc') \<and> settled he i c n ?D k' mc'"
  proof (cases "\<exists>m. 0 < m \<and> m \<le> n \<and> b = c m")
    case True
    then obtain m where m: "0 < m" "m \<le> n" "b = c m" by blast
    then have "?D = insert m D" using uniq by auto
    with settled_own_block [OF S Cons.prems(1,2,3) m(1,2)] m(3) show ?thesis by auto
  next
    case False
    then have D: "?D = D" by auto
    show ?thesis
    proof (cases "b_author b = i")
      case True
      with False setting_plays(1) [OF S b] have "b = c 0" by fastforce
      moreover have "mc_store mc (hera_block_hash he (c 0)) \<noteq> None"
        using Cons.prems(2) followsD(4) [of he i c n D k mc 0] by (auto simp: settled_def)
      ultimately have "admit_typed he b mc = Some (Duplicate, mc)" by (simp add: admit_typed_def Let_def)
      with Cons.prems(2) D show ?thesis by auto
    next
      case foreign: False
      with settled_foreign_block [OF S Cons.prems(1,2) b] D show ?thesis by auto
    qed
  qed
  then obtain r mc1 k1 where adm: "admit_typed he b mc = Some (r, mc1)" "settled he i c n ?D k1 mc1" by blast
  have "mc_typed he B mc1"
    using adm_typed.admitted [OF adm(1) _ b refl] setting_parts(1) [OF S] Cons.prems(1) by blast
  moreover have "?D \<subseteq> {1..n}" using Cons.prems(3) by auto
  moreover have "?D \<union> arrived c n bs = D \<union> arrived c n (b # bs)" by (auto simp: arrived_def)
  ultimately show ?case
    using Cons.IH [of mc1 ?D k1] adm Cons.prems(4) by simp
qed

lemma settled_new:
  assumes S: "setting he i c n B rank" and i: "i \<in> set ids"
  shows "settled he i c n {} 0 (multi_chain_new he ids)"
proof -
  have "hera_block_hash he (c m) = hera_genesis_hash he \<longleftrightarrow> m = 0" if "m \<le> n" for m
    using chain_hash_inj [OF S that, of 0] setting_parts(3) [OF S] by (auto simp: hera_genesis_hash_def)
  then have "follows he i c n {} 0 (multi_chain_new he ids)"
    using i setting_parts(3) [OF S]
    by (auto simp: follows_def multi_chain_new_def Let_def const_map_apply hera_genesis_hash_def)
  then show ?thesis by (simp add: settled_def)
qed

subsection \<open>The walk that collects a correct author's blocks\<close>

lemma settled_stored:
  assumes S: "setting he i c n B rank" and t: "mc_typed he B mc" and F: "settled he i c n D k mc" and m: "m \<le> k"
    and i: "0 < m"
  shows "mc_store mc (hera_block_hash he (c m)) = Some (c m)"
proof -
  have f: "follows he i c n D k mc" using F by (simp add: settled_def)
  have n: "m \<le> n" using m followsD(1) [OF f] by simp
  then obtain b where b: "mc_store mc (hera_block_hash he (c m)) = Some b" using followsD(4) [OF f n] m by auto
  with mc_typed_store [OF t] have h: "hera_block_hash he b = hera_block_hash he (c m)" "b \<in> B" by blast+
  with setting_plays(2) [OF S h(2), of m] n i have "b_author b = i" by blast
  then obtain m' where "m' \<le> n" "b = c m'" using setting_plays(1) [OF S h(2)] by blast
  with h(1) chain_hash_inj [OF S _ n] b show ?thesis by auto
qed

lemma walk_own_chain:
  assumes S: "setting he i c n B rank" and t: "mc_typed he B mc" and F: "settled he i c n D k mc"
  shows "m \<le> k \<Longrightarrow> run_loop (walk_turn mc from) (acc, hera_block_hash he (c m)) = Some (acc @ rev (map c [Suc from..<Suc m]))"
proof (induction m arbitrary: acc)
  case 0
  have "mc_store mc (hera_block_hash he (c 0)) \<noteq> None"
    using F followsD(4) [of he i c n D k mc 0] by (simp add: settled_def)
  then obtain b where b: "mc_store mc (hera_block_hash he (c 0)) = Some b" by blast
  have "c 0 \<in> B" by (rule setting_parts(4) [OF S]) simp
  with mc_typed_store [OF t b] setting_parts(1) [OF S] have "db_envelope b = db_envelope (c 0)"
    unfolding collision_free_def by blast
  with b setting_parts(6) [OF S, of 0] show ?case
    by (intro run_loop_Inr [THEN trans]) (simp_all add: walk_turn_def)
next
  case (Suc m)
  have n: "Suc m \<le> n" using Suc.prems F followsD(1) [of he i c n D k mc] by (auto simp: settled_def)
  note b = settled_stored [OF S t F Suc.prems] setting_parts(6,7) [OF S, of "Suc m"]
  show ?case
  proof (cases "Suc m \<le> from")
    case True
    then show ?thesis using b n by (intro run_loop_Inr [THEN trans]) (simp_all add: walk_turn_def)
  next
    case False
    then have "walk_turn mc from (acc, hera_block_hash he (c (Suc m))) = Inl (acc @ [c (Suc m)], hera_block_hash he (c m))"
      using b n by (simp add: walk_turn_def)
    with Suc False show ?thesis by (simp add: run_loop_Inl)
  qed
qed

lemma walk_range_own_chain:
  assumes S: "setting he i c n B rank" and t: "mc_typed he B mc" and F: "settled he i c n D k mc" and m: "m \<le> k"
  shows "walk_range (hera_block_hash he (c m)) from m mc = Some (map c [Suc from..<Suc m])"
proof -
  have n: "m \<le> n" using m F followsD(1) [of he i c n D k mc] by (auto simp: settled_def)
  have "filter (\<lambda>b. from < b_height b \<and> b_height b \<le> m) (map c [Suc from..<Suc m]) = map c [Suc from..<Suc m]"
    using setting_parts(6) [OF S] n by (auto simp: filter_id_conv)
  then show ?thesis
    unfolding walk_range_def walk_own_chain [OF S t F m] by (simp del: upt_Suc)
qed

text \<open>On any well-typed state the walk ends.\<close>

lemma walk_range_ends:
  assumes "mc_typed he B mc" "hera_ranked he B rank"
  shows "\<exists>bs. walk_range tip from to mc = Some bs"
proof -
  have "\<exists>bs. run_loop (walk_turn mc from) ([], tip) = Some bs \<and> True"
  proof (rule run_loop_total [where I = "\<lambda>_. True" and m = "\<lambda>(chain, cur). rank cur"])
    fix x x' assume turn: "walk_turn mc from x = Inl x'"
    obtain chain cur where x: "x = (chain, cur)" by (cases x)
    from turn x obtain b where "mc_store mc cur = Some b" "x' = (chain @ [b], b_parent b)"
      by (auto simp: walk_turn_def split: option.splits if_splits)
    with x mc_typed_store [OF assms(1)] assms(2)
    show "True \<and> (case x' of (chain, cur) \<Rightarrow> rank cur) < (case x of (chain, cur) \<Rightarrow> rank cur)"
      by (auto simp: hera_ranked_def)
  qed simp_all
  then show ?thesis by (auto simp: walk_range_def)
qed

end
