(* ===== verification/Hera.thy ===== *)
theory Hera
  imports HeraRound HeraCommit HeraDelivery
begin

section \<open>The Hera replica\<close>

text \<open>
  \<^verbatim>\<open>server/hera/core.rs\<close> and \<^verbatim>\<open>server/hera/phases\<close>: the replica's state, every handler and the
  biased \<^verbatim>\<open>select!\<close> loop. Effects are logs in the state: \<open>hs_out\<close> is what was handed to the
  transport, \<open>hs_to_batcher\<close>, \<open>hs_data_commit\<close> and \<open>hs_to_commit\<close> are the channels to the batcher,
  the application and the commit task. \<open>hp_debug\<close> says whether the build checks debug assertions.
  \<open>hs_handed\<close> is a field of the model alone, which no step reads: it records the author and the block of
  every batch sent to the application. Latency samples and clocks are left out. A handler that walks hash links may not return: its
  value is then \<open>None\<close>.
\<close>

record ('s, 'tx, 'b, 'g) hera_params =
  hp_env :: "('s, 'tx, 'b) henv"
  hp_pick :: "'g chooser"
  hp_order :: "node_id set \<Rightarrow> node_id list"
  hp_debug :: bool

record ('s, 'tx, 'b, 'g) hera =
  hs_id :: node_id
  hs_secret :: secret_key
  hs_system :: pk_map
  hs_peers :: "node_id list"
  hs_conf :: config
  hs_loopback :: "'tx hera_msg list"
  hs_loopback_open :: bool
  hs_to_batcher :: "'tx batcher_msg list"
  hs_data_commit :: "'tx batch list"
  hs_data_open :: bool
  hs_to_commit :: "(digest \<times> multi_attestation element) list"
  hs_commit_open :: bool
  hs_out :: "(node_id list \<times> 'tx hera_msg) list"
  hs_cs :: "('s, multi_attestation) chain_state"
  hs_lc :: "'g leader_context"
  hs_rs :: "'tx hera_round_state"
  hs_timer :: round_timer
  hs_sig_epoch :: nat
  hs_epoch :: nat
  hs_chain :: "'tx multi_chain"
  hs_pend_att :: "digest \<rightharpoonup> 'tx hera_msg list"
  hs_pend_prop :: "digest \<rightharpoonup> 'tx hera_msg list"
  hs_pend_req :: "digest set"
  hs_height :: nat
  hs_last_hash :: "digest option"
  hs_prev :: "node_id \<rightharpoonup> nat"
  hs_tx_count :: nat
  hs_emit_dp :: bool
  hs_max_heads :: nat
  hs_my_committed :: nat
  hs_handed :: "(node_id \<times> 'tx data_block) list"

type_synonym ('s, 'tx, 'b, 'g, 'r) hhandler =
  "('s, 'tx, 'b, 'g) hera \<Rightarrow> 'r outcome \<times> ('s, 'tx, 'b, 'g) hera"

type_synonym ('s, 'tx, 'b, 'g, 'r) hloop =
  "('s, 'tx, 'b, 'g) hera \<Rightarrow> ('r outcome \<times> ('s, 'tx, 'b, 'g) hera) option"

definition HERA_SIG_EPOCH :: nat where
  "HERA_SIG_EPOCH = 1"

definition HERA_DATA_EPOCH :: nat where
  "HERA_DATA_EPOCH = 1"

text \<open>The addresses the transport connects to, of all nodes \<open>0, \<dots>, n - 1\<close>.\<close>

fun net_addresses :: "config \<Rightarrow> node_id list \<Rightarrow> socket_addr list outcome" where
  "net_addresses c [] = Ok []"
| "net_addresses c (i # is) =
     bind_o (ok_or (NotInConfig i) (get_party c i)) (\<lambda>pty.
     bind_o (to_socket_address (consensus_address pty) (consensus_port pty)) (\<lambda>a.
     bind_o (net_addresses c is) (\<lambda>as. Ok (a # as))))"

text \<open>The round timer takes the number of \<^verbatim>\<open>HERA_ROUND_TIMER_MS\<close>, \<open>timer_ms\<close>, when the variable is set and
  parses; the default is computed first in either case.\<close>

definition hera_spawn ::
  "('s, 'tx, 'b, 'g) hera_params \<Rightarrow> node_id \<Rightarrow> secret_key \<Rightarrow> pk_map \<Rightarrow> node_id list \<Rightarrow> config
    \<Rightarrow> nat \<Rightarrow> nat option \<Rightarrow> node_id \<Rightarrow> 'g \<Rightarrow> 's \<Rightarrow> ('s, 'tx, 'b, 'g) hera outcome" where
  "hera_spawn P my_id sk sys all_peers conf delay_in_ms timer_ms metrics_node seed s =
     bind_o (ok_or (NotInConfig my_id) (get_party conf my_id)) (\<lambda>me.
     bind_o (net_addresses conf [0..<num_nodes conf]) (\<lambda>_.
     bind_o (leader_new (hp_pick P) seed (get_all_ids (hp_order P) conf) (num_faults conf)) (\<lambda>lc.
     bind_o (interval (bind_o (u64 (hp_debug P) (4 * delay_in_ms)) (\<lambda>ms.
       Ok (case timer_ms of Some t \<Rightarrow> t | None \<Rightarrow> ms)))) (\<lambda>_.
     Ok \<lparr>hs_id = my_id, hs_secret = sk, hs_system = sys,
         hs_peers = filter (\<lambda>x. x \<noteq> my_id) all_peers, hs_conf = conf,
         hs_loopback = [], hs_loopback_open = True, hs_to_batcher = [],
         hs_data_commit = [], hs_data_open = True, hs_to_commit = [], hs_commit_open = True,
         hs_out = [], hs_cs = chain_state_new (h_env (hp_env P)) s, hs_lc = lc,
         hs_rs = hr_new (num_nodes conf), hs_timer = \<lparr>tm_resets = 0, tm_enabled = True\<rparr>,
         hs_sig_epoch = HERA_SIG_EPOCH, hs_epoch = HERA_DATA_EPOCH,
         hs_chain = multi_chain_new (hp_env P) (get_all_ids (hp_order P) conf),
         hs_pend_att = Map.empty, hs_pend_prop = Map.empty, hs_pend_req = {},
         hs_height = 0, hs_last_hash = None, hs_prev = Map.empty,
         hs_tx_count = 0, hs_emit_dp = (my_id = metrics_node), hs_max_heads = 0,
         hs_my_committed = 0, hs_handed = []\<rparr>))))"

definition hera_rleader :: "('s, 'tx, 'b, 'g) hera \<Rightarrow> node_id" where
  "hera_rleader h = leader (hs_lc h)"

subsection \<open>Sending\<close>

definition h_broadcast :: "'tx hera_msg \<Rightarrow> ('s, 'tx, 'b, 'g) hera \<Rightarrow> ('s, 'tx, 'b, 'g) hera" where
  "h_broadcast m h = h\<lparr>hs_out := hs_out h @ [(hs_peers h, m)]\<rparr>"

definition h_send :: "node_id \<Rightarrow> 'tx hera_msg \<Rightarrow> ('s, 'tx, 'b, 'g) hera \<Rightarrow> ('s, 'tx, 'b, 'g) hera" where
  "h_send i m h = h\<lparr>hs_out := hs_out h @ [([i], m)]\<rparr>"

definition h_loop_send :: "'tx hera_msg \<Rightarrow> ('s, 'tx, 'b, 'g, unit) hhandler" where
  "h_loop_send m h =
     (if hs_loopback_open h then (Ok (), h\<lparr>hs_loopback := hs_loopback h @ [m]\<rparr>) else (Err ChannelClosed, h))"

definition h_prime_batcher :: "('s, 'tx, 'b, 'g) hera \<Rightarrow> ('s, 'tx, 'b, 'g) hera" where
  "h_prime_batcher h = h\<lparr>hs_to_batcher := hs_to_batcher h @ [NewRound (hs_id h) (hs_height h + 1)]\<rparr>"

definition h_data_request :: "digest \<Rightarrow> ('s, 'tx, 'b, 'g) hera \<Rightarrow> ('s, 'tx, 'b, 'g) hera" where
  "h_data_request d h = h_broadcast (HDataRequest d (hs_id h)) h"

definition h_prop_hash :: "('s, 'tx, 'b, 'g) hera_params \<Rightarrow> proposal \<Rightarrow> digest" where
  "h_prop_hash P p = ser_and_hash (crypt (h_env (hp_env P))) (cd_proposal (h_env (hp_env P))) p"

definition h_round_hash :: "('s, 'tx, 'b, 'g) hera_params \<Rightarrow> round \<Rightarrow> digest" where
  "h_round_hash P r = ser_and_hash (crypt (h_env (hp_env P))) (cd_round (h_env (hp_env P))) r"

definition h_cr :: "('s, 'tx, 'b, 'g) hera_params \<Rightarrow> 'b crypto" where
  "h_cr P = crypt (h_env (hp_env P))"

subsection \<open>Attestations\<close>

text \<open>The loop over the committee: a head for an author with new blocks, a blame for any other.\<close>

definition attest_author ::
  "('s, 'tx, 'b, 'g) hera \<Rightarrow> data_head list \<times> node_id list \<Rightarrow> node_id \<Rightarrow> data_head list \<times> node_id list" where
  "attest_author h x i = (case x of (heads, blames) \<Rightarrow>
     let ht = head_height i (hs_chain h);
         prev = (case hs_prev h i of Some p \<Rightarrow> p | None \<Rightarrow> 0)
     in if prev < ht then
          (case head_hash i (hs_chain h) of
             None \<Rightarrow> (heads, blames @ [i])
           | Some d \<Rightarrow>
               let ep = (case get_block d (hs_chain h) of Some b \<Rightarrow> b_epoch b | None \<Rightarrow> hs_epoch h)
               in (heads @ [\<lparr>dh_author = i, dh_hash = d, dh_height = ht, dh_epoch = ep\<rparr>], blames))
        else (heads, blames @ [i]))"

definition make_multi_attestation ::
  "('s, 'tx, 'b, 'g) hera_params \<Rightarrow> round \<Rightarrow> ('s, 'tx, 'b, 'g) hera \<Rightarrow> multi_attestation outcome" where
  "make_multi_attestation P r h =
     (let (heads, blames) = foldl (attest_author h) ([], []) (sort (get_all_ids (hp_order P) (hs_conf h)));
          en = \<lparr>me_epoch_s = hs_sig_epoch h, me_round_s = r, me_parent_s = highest_hash (hs_cs h),
                me_heads = heads, me_blames = blames\<rparr>;
          eh = ser_and_hash (h_cr P) (hc_multi (hp_env P)) en
      in bind_o (of_result (sk_sign (h_cr P) (hs_secret h) eh)) (\<lambda>raw.
         Ok (multi_attestation_new en \<lparr>as_raw = raw, as_signer = hs_id h\<rparr>)))"

datatype multi_validity = MaValid | MaInvalid | MaParked digest

text \<open>The first head whose block is missing; genesis heads are skipped.\<close>

fun missing_head :: "data_head list \<Rightarrow> 'tx multi_chain \<Rightarrow> digest option" where
  "missing_head [] mc = None"
| "missing_head (e # es) mc =
     (if dh_height e = 0 \<and> dh_epoch e = 0 then missing_head es mc
      else if mc_store mc (dh_hash e) = None then Some (dh_hash e)
      else missing_head es mc)"

definition multi_attestation_valid ::
  "('s, 'tx, 'b, 'g) hera_params \<Rightarrow> multi_attestation \<Rightarrow> 'tx hera_msg \<Rightarrow> ('s, 'tx, 'b, 'g) hera
    \<Rightarrow> multi_validity \<times> ('s, 'tx, 'b, 'g) hera" where
  "multi_attestation_valid P att parked_msg h =
     (case hs_system h (as_signer (ma_sig att)) of
        None \<Rightarrow> (MaInvalid, h)
      | Some pk \<Rightarrow>
          if \<not> pk_verify (h_cr P) pk (multi_attestation_hash (hp_env P) att) (as_raw (ma_sig att))
          then (MaInvalid, h)
          else case missing_head (me_heads (ma_envelope att)) (hs_chain h) of
            Some d \<Rightarrow> (MaParked d, h\<lparr>hs_pend_att := push_entry d parked_msg (hs_pend_att h)\<rparr>)
          | None \<Rightarrow> (MaValid, h))"

definition h_verify_block_sig ::
  "('s, 'tx, 'b, 'g) hera_params \<Rightarrow> 'tx data_block \<Rightarrow> ('s, 'tx, 'b, 'g) hera \<Rightarrow> bool" where
  "h_verify_block_sig P b h = (case hs_system h (b_author b) of
     None \<Rightarrow> False
   | Some pk \<Rightarrow> pk_verify (h_cr P) pk (hera_block_hash (hp_env P) b) (ds_raw (db_sig b)))"

subsection \<open>Signature plane: proposing\<close>

definition note_attested :: "('s, 'tx, 'b, 'g) hera_params \<Rightarrow> ('s, 'tx, 'b, 'g) hera \<Rightarrow> ('s, 'tx, 'b, 'g) hera" where
  "note_attested P h =
     h\<lparr>hs_prev := foldl (\<lambda>m i. m(i \<mapsto> head_height i (hs_chain h))) (hs_prev h)
                    (get_all_ids (hp_order P) (hs_conf h))\<rparr>"

definition h_new_sig_round :: "('s, 'tx, 'b, 'g) hera_params \<Rightarrow> ('s, 'tx, 'b, 'g, unit) hhandler" where
  "h_new_sig_round P h =
     (let r = hr_round (hs_rs h)
      in case make_multi_attestation P r h of Err e \<Rightarrow> (Err e, h) | Panic \<Rightarrow> (Panic, h)
       | Ok att \<Rightarrow>
           let p = \<lparr>p_block = \<lparr>batch_hash = multi_attestation_hash (hp_env P) att,
                              prev_hash = highest_hash (hs_cs h)\<rparr>, p_qc = None, p_round = r\<rparr>
           in case signature_new (h_cr P) (h_prop_hash P p) (hs_id h) (hs_secret h) of
                Err e \<Rightarrow> (Err e, h) | Panic \<Rightarrow> (Panic, h)
              | Ok auth \<Rightarrow>
                  let m = HSigPropose p auth att (hs_id h)
                  in bind_s (h_loop_send m) (\<lambda>_ h. (Ok (), note_attested P h)) (h_broadcast m h))"

definition h_try_commit :: "('s, 'tx, 'b, 'g, unit) hhandler" where
  "h_try_commit h =
     (if hs_commit_open h
      then (Ok (), h\<lparr>hs_to_commit := hs_to_commit h @ [(highest_hash (hs_cs h), highest_chain (hs_cs h))]\<rparr>)
      else (Err ChannelClosed, h))"

definition h_advance_rounds :: "('s, 'tx, 'b, 'g) hera_params \<Rightarrow> ('s, 'tx, 'b, 'g, unit) hhandler" where
  "h_advance_rounds P h = (case leader_advance_round (hp_pick P) (hs_lc h) of
     Ok lc \<Rightarrow>
       let (tm, rs) = hr_advance_round (hs_timer h) (hs_rs h)
       in (Ok (), h\<lparr>hs_lc := lc, hs_timer := tm, hs_rs := rs\<rparr>)
   | Err e \<Rightarrow> (Err e, h) | Panic \<Rightarrow> (Panic, h))"

text \<open>An error of the new leader's proposal is only logged.\<close>

definition h_propose_if_leader :: "('s, 'tx, 'b, 'g) hera_params \<Rightarrow> ('s, 'tx, 'b, 'g, unit) hhandler" where
  "h_propose_if_leader P h =
     (if leader (hs_lc h) = hs_id h
      then (case h_new_sig_round P h of (Panic, h') \<Rightarrow> (Panic, h') | (_, h') \<Rightarrow> (Ok (), h'))
      else (Ok (), h))"

definition h_advance_sig_round :: "('s, 'tx, 'b, 'g) hera_params \<Rightarrow> ('s, 'tx, 'b, 'g, unit) hhandler" where
  "h_advance_sig_round P =
     bind_s (h_advance_rounds P) (\<lambda>_.
     bind_s h_try_commit (\<lambda>_.
     h_propose_if_leader P))"

subsection \<open>Signature plane: proposals received\<close>

definition h_relay ::
  "proposal \<Rightarrow> signature \<Rightarrow> ('s, 'tx, 'b, 'g) hera \<Rightarrow> ('s, 'tx, 'b, 'g) hera" where
  "h_relay p auth h =
     (let nl = next_leader (hs_lc h)
      in if nl = hs_id h then h else h_send nl (HSigRelay p auth (batch_hash (p_block p)) (hs_id h)) h)"

definition h_on_correct_proposal ::
  "('s, 'tx, 'b, 'g) hera_params \<Rightarrow> proposal \<Rightarrow> signature \<Rightarrow> multi_attestation
    \<Rightarrow> ('s, 'tx, 'b, 'g, unit) hhandler" where
  "h_on_correct_proposal P p auth att h =
     (let h1 = h_relay p auth h;
          h2 = h1\<lparr>hs_cs := update_highest_chain (h_env (hp_env P)) p auth [att] (hs_cs h1)\<rparr>
      in h_advance_sig_round P h2)"

definition h_check_leader ::
  "('s, 'tx, 'b, 'g) hera_params \<Rightarrow> proposal \<Rightarrow> signature \<Rightarrow> ('s, 'tx, 'b, 'g) hera \<Rightarrow> unit outcome" where
  "h_check_leader P p auth h =
     (let l = leader (hs_lc h)
      in if l \<noteq> hs_id h then
           bind_o (ok_or (UnknownId l) (hs_system h l)) (\<lambda>pk.
             signature_verify (h_cr P) auth (h_prop_hash P p) l pk)
         else Ok ())"

text \<open>A request for a missing element is made once; a hash already asked for is not asked again.\<close>

definition h_element_request :: "digest \<Rightarrow> ('s, 'tx, 'b, 'g) hera \<Rightarrow> ('s, 'tx, 'b, 'g) hera" where
  "h_element_request d h =
     (if d \<in> hs_pend_req h then h
      else h_broadcast (HSigElementRequest (hs_id h) \<lparr>req_hash = d\<rparr>)
             (h\<lparr>hs_pend_req := insert d (hs_pend_req h)\<rparr>))"

definition h_sig_proposal ::
  "('s, 'tx, 'b, 'g) hera_params \<Rightarrow> proposal \<Rightarrow> signature \<Rightarrow> multi_attestation \<Rightarrow> node_id
    \<Rightarrow> ('s, 'tx, 'b, 'g, unit) hhandler" where
  "h_sig_proposal P p auth att sender h =
     (if p_round p \<noteq> hr_round (hs_rs h) then (Ok (), h)
      else case h_check_leader P p auth h of Err e \<Rightarrow> (Err e, h) | Panic \<Rightarrow> (Panic, h)
      | Ok _ \<Rightarrow>
          let m = HSigPropose p auth att sender
          in case multi_attestation_valid P att m h of
               (MaInvalid, h1) \<Rightarrow> (Ok (), h1)
             | (MaParked d, h1) \<Rightarrow> (Ok (), h_data_request d h1)
             | (MaValid, h1) \<Rightarrow>
                 (let par = parent_hash p
                  in case get_element (h_env (hp_env P)) (hs_cs h1) par of
                       Ok (Some _) \<Rightarrow> h_on_correct_proposal P p auth att h1
                     | Ok None \<Rightarrow>
                         (Ok (), h_element_request par
                           (h1\<lparr>hs_pend_prop := push_entry par m (hs_pend_prop h1)\<rparr>))
                     | _ \<Rightarrow> (Ok (), h1)))"

subsection \<open>Catching up on elements\<close>

definition h_on_element_request ::
  "('s, 'tx, 'b, 'g) hera_params \<Rightarrow> digest \<Rightarrow> node_id \<Rightarrow> ('s, 'tx, 'b, 'g, unit) hhandler" where
  "h_on_element_request P d source h =
     (case get_element (h_env (hp_env P)) (hs_cs h) d of
        Ok (Some el) \<Rightarrow> (Ok (), h_send source (HSigElementResponse \<lparr>resp_hash = d, resp_value = el\<rparr>) h)
      | _ \<Rightarrow> (Ok (), h))"

definition h_replay :: "'tx hera_msg list \<Rightarrow> ('s, 'tx, 'b, 'g) hera \<Rightarrow> ('s, 'tx, 'b, 'g) hera" where
  "h_replay ms h = foldl (\<lambda>h m. snd (h_loop_send m h)) h ms"

definition h_drain_proposals :: "digest \<Rightarrow> ('s, 'tx, 'b, 'g) hera \<Rightarrow> ('s, 'tx, 'b, 'g) hera" where
  "h_drain_proposals d h =
     h_replay (entry_list (hs_pend_prop h) d) (h\<lparr>hs_pend_prop := (hs_pend_prop h)(d := None)\<rparr>)"

definition h_on_element_response ::
  "('s, 'tx, 'b, 'g) hera_params \<Rightarrow> multi_attestation element \<Rightarrow> ('s, 'tx, 'b, 'g, unit) hhandler" where
  "h_on_element_response P el h =
     (let e = h_env (hp_env P); d = ser_and_hash (crypt e) (cd_element e) el
      in if hs_pend_prop h d = None \<and> d \<notin> hs_pend_req h then (Ok (), h)
         else
           let h1 = h\<lparr>hs_pend_req := hs_pend_req h - {d}\<rparr>;
               par = parent_hash (el_proposal el);
               present = (case get_element e (hs_cs h1) par of Ok (Some _) \<Rightarrow> True | _ \<Rightarrow> False);
               h2 = h1\<lparr>hs_cs := write_element e el (hs_cs h1)\<rparr>;
               h3 = (if \<not> present then h_element_request par h2 else h2)
           in (Ok (), h_drain_proposals d h3))"

subsection \<open>Blames of the signature chain\<close>

definition h_blame_certificate ::
  "(node_id set \<Rightarrow> node_id list) \<Rightarrow> (node_id \<rightharpoonup> signature) \<Rightarrow> certificate" where
  "h_blame_certificate order m =
     foldl certificate_add certificate_empty (map (\<lambda>i. the (m i)) (order (dom m)))"

definition h_blame_qc ::
  "('s, 'tx, 'b, 'g) hera_params \<Rightarrow> round \<Rightarrow> certificate \<Rightarrow> ('s, 'tx, 'b, 'g, unit) hhandler" where
  "h_blame_qc P r qc h =
     (let h1 = h\<lparr>hs_rs := (hs_rs h)\<lparr>hr_got_qc := True\<rparr>\<rparr>;
          h2 = h_broadcast (HSigBlameQC r qc) h1
      in h_advance_sig_round P (h2\<lparr>hs_cs := add_qc r qc (hs_cs h2)\<rparr>))"

definition h_on_blame_qc ::
  "('s, 'tx, 'b, 'g) hera_params \<Rightarrow> round \<Rightarrow> certificate \<Rightarrow> ('s, 'tx, 'b, 'g, unit) hhandler" where
  "h_on_blame_qc P r qc h =
     (if hr_got_qc (hs_rs h) then (Ok (), h)
      else case certificate_verify (h_cr P) qc (h_round_hash P r) (hs_system h) of
        Err e \<Rightarrow> (Err e, h) | Panic \<Rightarrow> (Panic, h)
      | Ok _ \<Rightarrow> h_blame_qc P r qc h)"

definition h_qc_len :: "('s, 'tx, 'b, 'g) hera \<Rightarrow> nat" where
  "h_qc_len h = (num_nodes (hs_conf h) + num_faults (hs_conf h) + 1) div 2"

definition h_sig_blame ::
  "('s, 'tx, 'b, 'g) hera_params \<Rightarrow> round \<Rightarrow> signature \<Rightarrow> ('s, 'tx, 'b, 'g, unit) hhandler" where
  "h_sig_blame P r auth h =
     (if el_round (highest_chain (hs_cs h)) = r then (Ok (), h)
      else if hr_got_qc (hs_rs h) then (Ok (), h)
      else case hs_system h (sig_id auth) of
        None \<Rightarrow> (Err (UnknownId (sig_id auth)), h)
      | Some pk \<Rightarrow>
          (case verify_without_id_check (h_cr P) auth (h_round_hash P r) pk of
             Err e \<Rightarrow> (Err e, h) | Panic \<Rightarrow> (Panic, h)
           | Ok _ \<Rightarrow>
               let m = (hr_blame_map (hs_rs h))(sig_id auth \<mapsto> auth)
               in if card (dom m) < h_qc_len h
                  then (Ok (), h\<lparr>hs_rs := (hs_rs h)\<lparr>hr_blame_map := m\<rparr>\<rparr>)
                  else h_blame_qc P r (h_blame_certificate (hp_order P) m)
                         (h\<lparr>hs_rs := (hs_rs h)\<lparr>hr_got_qc := True, hr_blame_map := Map.empty\<rparr>\<rparr>)))"

definition h_round_timeout :: "('s, 'tx, 'b, 'g) hera_params \<Rightarrow> ('s, 'tx, 'b, 'g, unit) hhandler" where
  "h_round_timeout P h =
     (let h1 = h\<lparr>hs_timer := hr_disable_timer (hs_timer h)\<rparr>;
          r = hr_round (hs_rs h1)
      in case signature_new (h_cr P) (h_round_hash P r) (hs_id h1) (hs_secret h1) of
           Err e \<Rightarrow> (Err e, h1) | Panic \<Rightarrow> (Panic, h1)
         | Ok auth \<Rightarrow> h_loop_send (HSigBlame r auth) (h_broadcast (HSigBlame r auth) h1))"

subsection \<open>Data plane\<close>

definition h_self_propose ::
  "('s, 'tx, 'b, 'g) hera_params \<Rightarrow> 'tx batch \<Rightarrow> ('s, 'tx, 'b, 'g, unit) hhandler" where
  "h_self_propose P batch h =
     (if batch = [] then (Ok (), h)
      else
        let ht = hs_height h + 1;
            par = (case hs_last_hash h of Some d \<Rightarrow> d | None \<Rightarrow> hera_genesis_hash (hp_env P));
            en = \<lparr>de_epoch = hs_epoch h, de_height = ht, de_payload = batch, de_parent = par\<rparr>;
            eh = ser_and_hash (h_cr P) (hc_block (hp_env P)) en
        in case sk_sign (h_cr P) (hs_secret h) eh of
             Inl e \<Rightarrow> (Err e, h)
           | Inr raw \<Rightarrow>
               let b = \<lparr>db_envelope = en, db_sig = \<lparr>ds_raw = raw, ds_signer = hs_id h\<rparr>\<rparr>;
                   h1 = h\<lparr>hs_height := ht, hs_last_hash := Some (hera_block_hash (hp_env P) b)\<rparr>;
                   h2 = h_prime_batcher h1;
                   h3 = h_broadcast (HDataPropose b (hs_id h2)) h2
               in (Ok (), snd (h_loop_send (HDataPropose b (hs_id h3)) h3)))"

definition h_drain_attestations :: "digest \<Rightarrow> ('s, 'tx, 'b, 'g) hera \<Rightarrow> ('s, 'tx, 'b, 'g) hera" where
  "h_drain_attestations d h =
     h_replay (entry_list (hs_pend_att h) d) (h\<lparr>hs_pend_att := (hs_pend_att h)(d := None)\<rparr>)"

text \<open>What both reception handlers do with the result of the admission.\<close>

definition h_admit ::
  "('s, 'tx, 'b, 'g) hera_params \<Rightarrow> 'tx data_block \<Rightarrow> ('s, 'tx, 'b, 'g, unit) hloop" where
  "h_admit P b h = (case admit_typed (hp_env P) b (hs_chain h) of
     None \<Rightarrow> None
   | Some (r, mc) \<Rightarrow>
       let h1 = h\<lparr>hs_chain := mc\<rparr>
       in Some (Ok (), case r of
            Parked d \<Rightarrow> h_data_request d h1
          | Duplicate \<Rightarrow> h1
          | Invalid \<Rightarrow> h1
          | _ \<Rightarrow> (case head_hash (b_author b) mc of
              Some d \<Rightarrow> h_drain_attestations d h1 | None \<Rightarrow> h1)))"

definition h_data_propose ::
  "('s, 'tx, 'b, 'g) hera_params \<Rightarrow> 'tx data_block \<Rightarrow> node_id \<Rightarrow> ('s, 'tx, 'b, 'g, unit) hloop" where
  "h_data_propose P b sender h =
     (if \<not> h_verify_block_sig P b h then Some (Ok (), h) else h_admit P b h)"

definition h_on_data_request :: "digest \<Rightarrow> node_id \<Rightarrow> ('s, 'tx, 'b, 'g, unit) hhandler" where
  "h_on_data_request d source h = (case mc_store (hs_chain h) d of
     Some b \<Rightarrow> (Ok (), h_send source (HDataResponse b) h) | None \<Rightarrow> (Ok (), h))"

definition h_data_response ::
  "('s, 'tx, 'b, 'g) hera_params \<Rightarrow> 'tx data_block \<Rightarrow> ('s, 'tx, 'b, 'g, unit) hloop" where
  "h_data_response P b h =
     (if mc_store (hs_chain h) (hera_block_hash (hp_env P) b) \<noteq> None then Some (Ok (), h)
      else if \<not> h_verify_block_sig P b h then Some (Ok (), h)
      else h_admit P b h)"

subsection \<open>Committed attestations\<close>

text \<open>
  The blocks of one head are emitted in order; \<open>False\<close> is the early return when the application
  has gone.
\<close>

definition emit_block :: "node_id \<Rightarrow> 'tx data_block \<Rightarrow> ('s, 'tx, 'b, 'g) hera \<Rightarrow> bool \<times> ('s, 'tx, 'b, 'g) hera" where
  "emit_block author b h =
     (if b_payload b = [] then (True, h)
      else
        let h1 = h\<lparr>hs_my_committed := (if author = hs_id h then hs_my_committed h + length (b_payload b)
                                        else hs_my_committed h),
                   hs_tx_count := (if hs_emit_dp h then hs_tx_count h + length (b_payload b) else hs_tx_count h),
                   hs_to_batcher := hs_to_batcher h @ [Committed (b_payload b) (b_height b)]\<rparr>
        in if hs_data_open h1 then (True, h1\<lparr>hs_data_commit := hs_data_commit h1 @ [b_payload b],
                                          hs_handed := hs_handed h1 @ [(author, b)]\<rparr>)
           else (False, h1))"

fun emit_blocks :: "node_id \<Rightarrow> 'tx data_block list \<Rightarrow> ('s, 'tx, 'b, 'g) hera \<Rightarrow> bool \<times> ('s, 'tx, 'b, 'g) hera" where
  "emit_blocks author [] h = (True, h)"
| "emit_blocks author (b # bs) h = (case emit_block author b h of
     (True, h') \<Rightarrow> emit_blocks author bs h' | (False, h') \<Rightarrow> (False, h'))"

text \<open>The debug assertion on the walked blocks.\<close>

definition blocks_linked :: "('s, 'tx, 'b) henv \<Rightarrow> 'tx data_block list \<Rightarrow> bool" where
  "blocks_linked he bs \<longleftrightarrow>
     list_all (\<lambda>j. b_parent (bs ! j) = hera_block_hash he (bs ! (j - 1))) [1..<length bs]"

fun commit_heads ::
  "('s, 'tx, 'b, 'g) hera_params \<Rightarrow> data_head list \<Rightarrow> ('s, 'tx, 'b, 'g, unit) hloop" where
  "commit_heads P [] h = Some (Ok (), h)"
| "commit_heads P (e # es) h =
     (let author = dh_author e; from = committed_height author (hs_chain h)
      in if dh_height e \<le> from then commit_heads P es h
         else case walk_range (dh_hash e) from (dh_height e) (hs_chain h) of
           None \<Rightarrow> None
         | Some bs \<Rightarrow>
             if hp_debug P \<and> \<not> blocks_linked (hp_env P) bs then Some (Panic, h)
             else case emit_blocks author bs h of
               (False, h1) \<Rightarrow> Some (Ok (), h1)
             | (True, h1) \<Rightarrow>
                 commit_heads P es (h1\<lparr>hs_chain := (hs_chain h1)
                   \<lparr>mc_committed := (mc_committed (hs_chain h1))(author \<mapsto> dh_height e)\<rparr>\<rparr>))"

text \<open>The debug assertion on the attestation: heads and blames cover the committee, disjointly.\<close>

definition covers_committee :: "config \<Rightarrow> multi_attestation \<Rightarrow> bool" where
  "covers_committee conf att \<longleftrightarrow>
     length (me_heads (ma_envelope att)) + length (me_blames (ma_envelope att)) = num_nodes conf \<and>
     list_all (\<lambda>i. i \<notin> dh_author ` set (me_heads (ma_envelope att))) (me_blames (ma_envelope att))"

definition h_on_committed ::
  "('s, 'tx, 'b, 'g) hera_params \<Rightarrow> multi_attestation \<Rightarrow> ('s, 'tx, 'b, 'g, unit) hloop" where
  "h_on_committed P att h =
     (if hp_debug P \<and> \<not> covers_committee (hs_conf h) att then Some (Panic, h)
      else
        let heads = me_heads (ma_envelope att)
        in commit_heads P (sort_key dh_author heads) (h\<lparr>hs_max_heads := max (hs_max_heads h) (length heads)\<rparr>))"

subsection \<open>Dispatch and events\<close>

definition h_enqueue :: "'tx hera_msg \<Rightarrow> round \<Rightarrow> ('s, 'tx, 'b, 'g) hera \<Rightarrow> ('s, 'tx, 'b, 'g) hera" where
  "h_enqueue m r h = h\<lparr>hs_rs := hr_enqueue m r (hs_rs h)\<rparr>"

definition h_dispatch ::
  "('s, 'tx, 'b, 'g) hera_params \<Rightarrow> 'tx hera_msg \<Rightarrow> ('s, 'tx, 'b, 'g, unit) hloop" where
  "h_dispatch P m h = (case m of
     HDataPropose b sender \<Rightarrow> h_data_propose P b sender h
   | HDataRequest d source \<Rightarrow> Some (h_on_data_request d source h)
   | HDataResponse b \<Rightarrow> h_data_response P b h
   | HSigPropose p _ _ _ \<Rightarrow> Some (Ok (), h_enqueue m (p_round p) h)
   | HSigBlame r _ \<Rightarrow> Some (Ok (), h_enqueue m r h)
   | HSigBlameQC r _ \<Rightarrow> Some (Ok (), h_enqueue m r h)
   | HSigElementRequest source rq \<Rightarrow> Some (h_on_element_request P (req_hash rq) source h)
   | HSigElementResponse rs \<Rightarrow> Some (h_on_element_response P (resp_value rs) h)
   | _ \<Rightarrow> Some (Ok (), h))"

definition h_sig_ordered ::
  "('s, 'tx, 'b, 'g) hera_params \<Rightarrow> 'tx hera_msg \<Rightarrow> ('s, 'tx, 'b, 'g, unit) hhandler" where
  "h_sig_ordered P m h = (case m of
     HSigPropose p auth att sender \<Rightarrow> h_sig_proposal P p auth att sender h
   | HSigBlame r auth \<Rightarrow> h_sig_blame P r auth h
   | HSigBlameQC r qc \<Rightarrow> h_on_blame_qc P r qc h
   | _ \<Rightarrow> (Ok (), h))"

datatype 'tx hera_event =
    HExit bool
  | HTimer
  | HCommitted "multi_attestation option"
  | HLoopback
  | HSigNet "'tx hera_msg option"
  | HRound
  | HBatch "'tx batch option"
  | HDataNet "'tx hera_msg option"
  | HBench

datatype hera_result = HContinue | HExited | HFailed error | HCrashed | HHangs

text \<open>Errors of handlers are logged; a panic ends the task; a handler that does not return hangs it.\<close>

definition h_logged :: "'z \<Rightarrow> (unit outcome \<times> 'z) option \<Rightarrow> hera_result \<times> 'z" where
  "h_logged z r = (case r of
     None \<Rightarrow> (HHangs, z) | Some (Panic, z') \<Rightarrow> (HCrashed, z') | Some (_, z') \<Rightarrow> (HContinue, z'))"

definition hera_step ::
  "('s, 'tx, 'b, 'g) hera_params \<Rightarrow> 'tx hera_event \<Rightarrow> ('s, 'tx, 'b, 'g) hera
    \<Rightarrow> hera_result \<times> ('s, 'tx, 'b, 'g) hera" where
  "hera_step P ev h = (case ev of
     HExit ok \<Rightarrow> (if ok then HExited else HFailed ChannelClosed, h)
   | HTimer \<Rightarrow> h_logged h (Some (h_round_timeout P h))
   | HCommitted None \<Rightarrow> (HContinue, h)
   | HCommitted (Some att) \<Rightarrow> h_logged h (h_on_committed P att h)
   | HLoopback \<Rightarrow> (case hs_loopback h of
       [] \<Rightarrow> (HContinue, h)
     | m # ms \<Rightarrow> h_logged (h\<lparr>hs_loopback := ms\<rparr>) (h_dispatch P m (h\<lparr>hs_loopback := ms\<rparr>)))
   | HSigNet None \<Rightarrow> (HFailed ChannelClosed, h)
   | HSigNet (Some m) \<Rightarrow> h_logged h (h_dispatch P m h)
   | HRound \<Rightarrow> (case hr_pop_msg (hs_rs h) of
       (None, _) \<Rightarrow> (HContinue, h)
     | (Some m, rs) \<Rightarrow> h_logged (h\<lparr>hs_rs := rs\<rparr>) (Some (h_sig_ordered P m (h\<lparr>hs_rs := rs\<rparr>))))
   | HBatch None \<Rightarrow> (HFailed ChannelClosed, h)
   | HBatch (Some b) \<Rightarrow> h_logged h (Some (h_self_propose P b h))
   | HDataNet None \<Rightarrow> (HFailed ChannelClosed, h)
   | HDataNet (Some m) \<Rightarrow> h_logged h (h_dispatch P m h)
   | HBench \<Rightarrow> (HContinue, h\<lparr>hs_tx_count := 0\<rparr>))"

subsection \<open>The biased loop\<close>

text \<open>What waits at the branches of the \<^verbatim>\<open>select!\<close>; a closed and drained channel yields \<^verbatim>\<open>None\<close>.\<close>

record 'm channel =
  ch_msgs :: "'m list"
  ch_open :: bool

definition ch_ready :: "'m channel \<Rightarrow> bool" where
  "ch_ready c \<longleftrightarrow> ch_msgs c \<noteq> [] \<or> \<not> ch_open c"

definition ch_peek :: "'m channel \<Rightarrow> 'm option" where
  "ch_peek c = (case ch_msgs c of [] \<Rightarrow> None | m # ms \<Rightarrow> Some m)"

definition ch_take :: "'m channel \<Rightarrow> 'm channel" where
  "ch_take c = c\<lparr>ch_msgs := tl (ch_msgs c)\<rparr>"

record 'tx hera_inputs =
  in_exit :: "bool option"
  in_tick :: bool
  in_committed :: "multi_attestation channel"
  in_sig :: "'tx hera_msg channel"
  in_batch :: "'tx batch channel"
  in_data :: "'tx hera_msg channel"
  in_bench :: bool

text \<open>The first ready branch, from the top.\<close>

definition hera_select :: "'tx hera_inputs \<Rightarrow> ('s, 'tx, 'b, 'g) hera \<Rightarrow> 'tx hera_event option" where
  "hera_select inp h =
     (if in_exit inp \<noteq> None then Some (HExit (the (in_exit inp)))
      else if in_tick inp \<and> tm_enabled (hs_timer h) then Some HTimer
      else if ch_ready (in_committed inp) then Some (HCommitted (ch_peek (in_committed inp)))
      else if hs_loopback h \<noteq> [] then Some HLoopback
      else if ch_ready (in_sig inp) then Some (HSigNet (ch_peek (in_sig inp)))
      else if hr_is_ready (hs_rs h) then Some HRound
      else if ch_ready (in_batch inp) then Some (HBatch (ch_peek (in_batch inp)))
      else if ch_ready (in_data inp) then Some (HDataNet (ch_peek (in_data inp)))
      else if in_bench inp \<and> hs_emit_dp h then Some HBench
      else None)"

definition hera_consume :: "'tx hera_event \<Rightarrow> 'tx hera_inputs \<Rightarrow> 'tx hera_inputs" where
  "hera_consume ev inp = (case ev of
     HTimer \<Rightarrow> inp\<lparr>in_tick := False\<rparr>
   | HCommitted _ \<Rightarrow> inp\<lparr>in_committed := ch_take (in_committed inp)\<rparr>
   | HSigNet _ \<Rightarrow> inp\<lparr>in_sig := ch_take (in_sig inp)\<rparr>
   | HBatch _ \<Rightarrow> inp\<lparr>in_batch := ch_take (in_batch inp)\<rparr>
   | HDataNet _ \<Rightarrow> inp\<lparr>in_data := ch_take (in_data inp)\<rparr>
   | HBench \<Rightarrow> inp\<lparr>in_bench := False\<rparr>
   | _ \<Rightarrow> inp)"

definition hera_turn ::
  "('s, 'tx, 'b, 'g) hera_params \<Rightarrow> 'tx hera_inputs \<times> ('s, 'tx, 'b, 'g) hera
    \<Rightarrow> hera_result \<times> 'tx hera_inputs \<times> ('s, 'tx, 'b, 'g) hera" where
  "hera_turn P x = (case x of (inp, h) \<Rightarrow>
     (case hera_select inp h of
        None \<Rightarrow> (HContinue, inp, h)
      | Some ev \<Rightarrow> (let (r, h') = hera_step P ev h in (r, hera_consume ev inp, h'))))"

text \<open>The start of \<^verbatim>\<open>run\<close>, once the mesh has formed.\<close>

definition hera_start :: "('s, 'tx, 'b, 'g) hera_params \<Rightarrow> ('s, 'tx, 'b, 'g, unit) hhandler" where
  "hera_start P h =
     (let (r, cs) = genesis_setup (h_env (hp_env P)) (hs_cs h);
          h1 = h\<lparr>hs_cs := cs\<rparr>
      in case r of Err e \<Rightarrow> (Err e, h1) | Panic \<Rightarrow> (Panic, h1)
         | Ok _ \<Rightarrow> h_propose_if_leader P
             (h_prime_batcher (h1\<lparr>hs_timer := (hs_timer h1)\<lparr>tm_resets := tm_resets (hs_timer h1) + 1\<rparr>\<rparr>)))"

end
