(* ===== verification/HeraSafety.thy ===== *)
theory HeraSafety
  imports Hera
begin

section \<open>What every handler of Hera keeps\<close>

text \<open>
  The fixed part of the state, the data part, and the invariant of the signature plane. Handlers
  of the signature plane keep all three (\<open>hkeeps\<close>); the data plane changes only the data part, and
  the chains only by admission and by raising committed heights.
\<close>

definition out_blocks :: "('s, 'tx, 'b, 'g) hera \<Rightarrow> 'tx data_block list" where
  "out_blocks h = concat (map (\<lambda>(_, m). case m of HDataPropose b _ \<Rightarrow> [b] | _ \<Rightarrow> []) (hs_out h))"

definition hs_fixed ::
  "('s, 'tx, 'b, 'g) hera \<Rightarrow> node_id \<times> secret_key \<times> pk_map \<times> node_id list \<times> config \<times> nat" where
  "hs_fixed h = (hs_id h, hs_secret h, hs_system h, hs_peers h, hs_conf h, hs_epoch h)"

definition hs_data ::
  "('s, 'tx, 'b, 'g) hera \<Rightarrow> 'tx multi_chain \<times> nat \<times> digest option \<times> 'tx batch list \<times> 'tx data_block list \<times>
      (node_id \<times> 'tx data_block) list" where
  "hs_data h = (hs_chain h, hs_height h, hs_last_hash h, hs_data_commit h, out_blocks h, hs_handed h)"

text \<open>The invariant of the signature plane: a proper leader window, a content-addressed store, every
  parked proposal under its missing parent or a block it pins, and every awaited element requested.\<close>

definition parked_proposals :: "(digest \<rightharpoonup> 'tx hera_msg list) \<Rightarrow> bool" where
  "parked_proposals pend \<longleftrightarrow> (\<forall>d m. m \<in> set (entry_list pend d) \<longrightarrow>
     (\<exists>p auth att s. m = HSigPropose p auth att s \<and> parent_hash p = d))"

definition parked_pins :: "(digest \<rightharpoonup> 'tx hera_msg list) \<Rightarrow> bool" where
  "parked_pins pend \<longleftrightarrow> (\<forall>d m. m \<in> set (entry_list pend d) \<longrightarrow>
     (\<exists>p auth att s. m = HSigPropose p auth att s \<and> d \<in> dh_hash ` set (me_heads (ma_envelope att))))"

definition sig_ok ::
  "('s, 'tx, 'b, 'g) hera_params \<Rightarrow> node_id set \<Rightarrow> nat \<Rightarrow> ('s, 'tx, 'b, 'g) hera \<Rightarrow> bool" where
  "sig_ok P N L h \<longleftrightarrow>
     leader_inv N L (hs_lc h) \<and>
     content_addressed (h_cr P) (store (h_env (hp_env P))) (cs_db (hs_cs h)) \<and>
     dom (hs_pend_prop h) \<subseteq> hs_pend_req h \<and>
     (\<forall>d \<in> hs_pend_req h. (hs_peers h, HSigElementRequest (hs_id h) \<lparr>req_hash = d\<rparr>) \<in> set (hs_out h)) \<and>
     parked_proposals (hs_pend_prop h) \<and> parked_pins (hs_pend_att h)"

lemma sig_okD:
  assumes "sig_ok P N L h"
  shows "leader_inv N L (hs_lc h)"
    "content_addressed (h_cr P) (store (h_env (hp_env P))) (cs_db (hs_cs h))"
    "dom (hs_pend_prop h) \<subseteq> hs_pend_req h"
    "\<And>d. d \<in> hs_pend_req h \<Longrightarrow> (hs_peers h, HSigElementRequest (hs_id h) \<lparr>req_hash = d\<rparr>) \<in> set (hs_out h)"
    "parked_proposals (hs_pend_prop h)" "parked_pins (hs_pend_att h)"
  using assms by (simp_all add: sig_ok_def)

text \<open>The parts of the state the invariant reads, apart from the log of sent messages.\<close>

definition sig_part where
  "sig_part h = (hs_lc h, cs_db (hs_cs h), hs_pend_prop h, hs_pend_req h, hs_pend_att h, hs_peers h, hs_id h)"

lemma sig_ok_cong:
  assumes "sig_ok P N L h" "sig_part h' = sig_part h" "set (hs_out h) \<subseteq> set (hs_out h')"
  shows "sig_ok P N L h'"
  using assms unfolding sig_ok_def sig_part_def by auto

definition hkeeps ::
  "('s, 'tx, 'b, 'g) hera_params \<Rightarrow> node_id set \<Rightarrow> nat \<Rightarrow> ('s, 'tx, 'b, 'g) hera
    \<Rightarrow> 'r outcome \<times> ('s, 'tx, 'b, 'g) hera \<Rightarrow> bool" where
  "hkeeps P N L h x \<longleftrightarrow> hs_fixed (snd x) = hs_fixed h \<and> hs_data (snd x) = hs_data h \<and>
     (sig_ok P N L h \<longrightarrow> sig_ok P N L (snd x) \<and> fst x \<noteq> Panic)"

lemma hkeepsI:
  assumes "hs_fixed h' = hs_fixed h" "hs_data h' = hs_data h" "sig_ok P N L h \<Longrightarrow> sig_ok P N L h' \<and> r \<noteq> Panic"
  shows "hkeeps P N L h (r, h')"
  using assms by (simp add: hkeeps_def)

lemma hkeeps_refl: "r \<noteq> Panic \<Longrightarrow> hkeeps P N L h (r, h)"
  by (simp add: hkeeps_def)

lemma hkeeps_trans:
  assumes "hkeeps P N L h (r, h1)" "r \<noteq> Panic \<Longrightarrow> hkeeps P N L h1 x" "r = Panic \<Longrightarrow> x = (Panic, h1)"
  shows "hkeeps P N L h x"
  using assms unfolding hkeeps_def by (cases "r = Panic") auto

lemma hkeeps_Ok: "hkeeps P N L h (Ok u, h1) \<Longrightarrow> hkeeps P N L h1 x \<Longrightarrow> hkeeps P N L h x"
  by (auto simp: hkeeps_def)

lemma hkeeps_bind:
  assumes "hkeeps P N L h (m h)" "\<And>a h'. m h = (Ok a, h') \<Longrightarrow> hkeeps P N L h' (k a h')"
  shows "hkeeps P N L h (bind_s m k h)"
  using assms by (auto simp: bind_s_def hkeeps_def split: prod.splits outcome.splits)

text \<open>A silent step: nothing the invariants read changes, and messages other than blocks are sent.\<close>

definition silent :: "('s, 'tx, 'b, 'g) hera \<Rightarrow> ('s, 'tx, 'b, 'g) hera \<Rightarrow> bool" where
  "silent h h' \<longleftrightarrow> hs_fixed h' = hs_fixed h \<and> hs_data h' = hs_data h \<and> sig_part h' = sig_part h \<and>
     set (hs_out h) \<subseteq> set (hs_out h')"

lemma silent_keeps: "silent h h' \<Longrightarrow> r \<noteq> Panic \<Longrightarrow> hkeeps P N L h (r, h')"
  by (auto simp: silent_def hkeeps_def intro: sig_ok_cong)

lemma silent_trans: "silent h h' \<Longrightarrow> silent h' h'' \<Longrightarrow> silent h h''"
  by (auto simp: silent_def)

lemma silent_refl [simp]: "silent h h"
  by (simp add: silent_def)

subsection \<open>Elementary effects\<close>

definition no_block :: "'tx hera_msg \<Rightarrow> bool" where
  "no_block m \<longleftrightarrow> (\<forall>b s. m \<noteq> HDataPropose b s)"

lemma no_block_simps [simp]:
  "no_block (HSigPropose p auth att s)" "no_block (HSigRelay p auth d s)" "no_block (HSigBlame r sg)"
  "no_block (HSigBlameQC r qc)" "no_block (HSigElementRequest s rq)" "no_block (HSigElementResponse rs)"
  "no_block (HDataRequest d s)" "no_block (HDataResponse b)"
  by (simp_all add: no_block_def)

lemma silent_broadcast [simp]: "no_block m \<Longrightarrow> silent h (h_broadcast m h)"
  by (auto simp: silent_def h_broadcast_def hs_fixed_def hs_data_def sig_part_def out_blocks_def no_block_def
      split: hera_msg.split)

lemma silent_send [simp]: "no_block m \<Longrightarrow> silent h (h_send i m h)"
  by (auto simp: silent_def h_send_def hs_fixed_def hs_data_def sig_part_def out_blocks_def no_block_def
      split: hera_msg.split)

lemma silent_updates [simp]:
  "silent h (h\<lparr>hs_loopback := lb\<rparr>)" "silent h (h\<lparr>hs_rs := rs\<rparr>)" "silent h (h\<lparr>hs_timer := tm\<rparr>)"
  "silent h (h\<lparr>hs_to_commit := tc\<rparr>)" "silent h (h\<lparr>hs_to_batcher := tb\<rparr>)" "silent h (h\<lparr>hs_prev := pv\<rparr>)"
  "silent h (h\<lparr>hs_tx_count := n\<rparr>)" "silent h (h\<lparr>hs_max_heads := n\<rparr>)"
  by (simp_all add: silent_def hs_fixed_def hs_data_def sig_part_def out_blocks_def)

lemma silent_loop_send [simp]: "silent h (snd (h_loop_send m h))"
  by (simp add: h_loop_send_def)

lemma loop_send_no_panic [simp]: "fst (h_loop_send m h) \<noteq> Panic"
  by (simp add: h_loop_send_def)

lemma silent_prime [simp]: "silent h (h_prime_batcher h)"
  by (simp add: h_prime_batcher_def)

lemma silent_note [simp]: "silent h (note_attested P h)"
  by (simp add: note_attested_def)

lemma silent_enqueue [simp]: "silent h (h_enqueue m r h)"
  by (simp add: h_enqueue_def)

lemma silent_data_request [simp]: "silent h (h_data_request d h)"
  by (simp add: h_data_request_def)

lemma silent_relay [simp]: "silent h (h_relay p auth h)"
  by (simp add: h_relay_def Let_def)

lemma silent_replay [simp]: "silent h (h_replay ms h)"
proof (induction ms arbitrary: h)
  case (Cons m ms)
  from silent_trans [OF silent_loop_send Cons] show ?case by (simp add: h_replay_def)
qed (simp add: h_replay_def)

subsection \<open>Handlers of the signature plane\<close>

lemma make_multi_attestation_no_panic [simp]: "make_multi_attestation P r h \<noteq> Panic"
  by (auto simp: make_multi_attestation_def Let_def bind_o_def split: prod.splits outcome.splits)

lemma keeps_new_sig_round: "hkeeps P N L h (h_new_sig_round P h)"
proof (cases "make_multi_attestation P (hr_round (hs_rs h)) h")
  case (Ok att)
  have "hkeeps P N L h (bind_s (h_loop_send m) (\<lambda>_ h. (Ok (), note_attested P h)) (h_broadcast m h))"
    if "no_block m" for m
  proof (rule hkeeps_trans)
    show "hkeeps P N L h (Ok (), h_broadcast m h)" by (rule silent_keeps) (simp_all add: that)
    show "hkeeps P N L (h_broadcast m h) (bind_s (h_loop_send m) (\<lambda>_ h. (Ok (), note_attested P h)) (h_broadcast m h))"
    proof (rule hkeeps_bind)
      show "hkeeps P N L (h_broadcast m h) (h_loop_send m (h_broadcast m h))"
        using silent_keeps [OF silent_loop_send loop_send_no_panic] by (metis prod.collapse)
    qed (simp add: silent_keeps)
  qed simp
  with Ok show ?thesis
    by (auto simp: h_new_sig_round_def Let_def hkeeps_refl split: outcome.split)
qed (simp_all add: h_new_sig_round_def Let_def hkeeps_refl)

lemma keeps_advance_rounds:
  assumes "chooser_ok (hp_pick P)"
  shows "hkeeps P N L h (h_advance_rounds P h)"
proof (cases "leader_advance_round (hp_pick P) (hs_lc h)")
  case (Ok lc)
  have "leader_inv N L lc" if "leader_inv N L (hs_lc h)"
    using leader_advance_ok [OF that assms] Ok by auto
  with Ok show ?thesis
    by (auto simp: h_advance_rounds_def hkeeps_def sig_ok_def hs_fixed_def hs_data_def out_blocks_def
        split: prod.split)
next
  case (Err e)
  then show ?thesis by (simp add: h_advance_rounds_def hkeeps_refl)
next
  case Panic
  have "\<not> leader_inv N L (hs_lc h)" using leader_advance_ok [OF _ assms, of start_twice N L "hs_lc h"] Panic by auto
  then show ?thesis using Panic by (simp add: h_advance_rounds_def hkeeps_def sig_ok_def)
qed

lemma keeps_try_commit: "hkeeps P N L h (h_try_commit h)"
  by (auto simp: h_try_commit_def intro!: silent_keeps)

lemma keeps_propose_if_leader: "hkeeps P N L h (h_propose_if_leader P h)"
  using keeps_new_sig_round [of P N L h]
  by (auto simp: h_propose_if_leader_def hkeeps_refl hkeeps_def split: prod.split outcome.split)

lemma keeps_advance_sig_round:
  assumes "chooser_ok (hp_pick P)"
  shows "hkeeps P N L h (h_advance_sig_round P h)"
  unfolding h_advance_sig_round_def
  by (intro hkeeps_bind keeps_advance_rounds keeps_try_commit keeps_propose_if_leader assms)

text \<open>Writes to the store keep it content addressed.\<close>

lemma keeps_on_correct:
  assumes "chooser_ok (hp_pick P)" "henv_ok (hp_env P)"
  shows "hkeeps P N L h (h_on_correct_proposal P p auth att h)"
proof -
  let ?h1 = "h_relay p auth h"
  let ?h2 = "?h1\<lparr>hs_cs := update_highest_chain (h_env (hp_env P)) p auth [att] (hs_cs ?h1)\<rparr>"
  have st: "storage_ok (store (h_env (hp_env P)))" using assms(2) by (simp add: henv_ok_def env_ok_def)
  have "hkeeps P N L h (Ok (), ?h1)" by (rule silent_keeps) simp_all
  moreover have "hkeeps P N L ?h1 (Ok (), ?h2)"
    using content_addressed_write [OF st]
    by (auto simp: hkeeps_def sig_ok_def hs_fixed_def hs_data_def out_blocks_def h_cr_def ser_and_hash_def)
  moreover have "hkeeps P N L ?h2 (h_advance_sig_round P ?h2)" by (rule keeps_advance_sig_round [OF assms(1)])
  ultimately have "hkeeps P N L h (h_advance_sig_round P ?h2)" by (blast intro: hkeeps_Ok)
  then show ?thesis by (simp add: h_on_correct_proposal_def Let_def)
qed

lemma check_leader_no_panic [simp]: "h_check_leader P p auth h \<noteq> Panic"
  by (auto simp: h_check_leader_def Let_def bind_o_def split: outcome.splits)

lemma get_element_no_panic [simp]: "get_element e cs d \<noteq> Panic"
  by (simp add: get_element_def)

lemma entry_list_in_push: "m \<in> set (entry_list (push_entry k v f) d) \<longleftrightarrow> m \<in> set (entry_list f d) \<or> m = v \<and> d = k"
  by auto

lemma missing_head_in: "missing_head es mc = Some d \<Longrightarrow> d \<in> dh_hash ` set es \<and> mc_store mc d = None"
  by (induction es) (auto split: if_splits)

lemma missing_head_None:
  "missing_head es mc = None \<longleftrightarrow>
     (\<forall>e \<in> set es. dh_height e = 0 \<and> dh_epoch e = 0 \<or> mc_store mc (dh_hash e) \<noteq> None)"
  by (induction es) auto

text \<open>The pieces of a proposal's validity check.\<close>

lemma valid_cases:
  obtains "multi_attestation_valid P att m h = (MaInvalid, h)"
  | "multi_attestation_valid P att m h = (MaValid, h)"
  | d where "multi_attestation_valid P att m h = (MaParked d, h\<lparr>hs_pend_att := push_entry d m (hs_pend_att h)\<rparr>)"
      "d \<in> dh_hash ` set (me_heads (ma_envelope att))" "mc_store (hs_chain h) d = None"
proof (cases "hs_system h (as_signer (ma_sig att))")
  case None
  then show thesis using that(1) by (simp add: multi_attestation_valid_def)
next
  case (Some pk)
  show thesis
  proof (cases "pk_verify (h_cr P) pk (multi_attestation_hash (hp_env P) att) (as_raw (ma_sig att))")
    case False
    with Some show thesis using that(1) by (simp add: multi_attestation_valid_def)
  next
    case True
    show thesis
    proof (cases "missing_head (me_heads (ma_envelope att)) (hs_chain h)")
      case None
      with Some True show thesis using that(2) by (simp add: multi_attestation_valid_def)
    next
      case (Some d)
      with \<open>hs_system h _ = Some pk\<close> True missing_head_in [OF Some] show thesis
        using that(3) [of d] by (simp add: multi_attestation_valid_def)
    qed
  qed
qed

lemma keeps_park_pin:
  assumes "d \<in> dh_hash ` set (me_heads (ma_envelope att))"
  shows "hkeeps P N L h (Ok (), h_data_request d
    (h\<lparr>hs_pend_att := push_entry d (HSigPropose p auth att s) (hs_pend_att h)\<rparr>))"
proof (rule hkeeps_trans)
  let ?h1 = "h\<lparr>hs_pend_att := push_entry d (HSigPropose p auth att s) (hs_pend_att h)\<rparr>"
  show "hkeeps P N L h (Ok (), ?h1)"
    using assms unfolding hkeeps_def sig_ok_def parked_pins_def entry_list_in_push
    by (auto simp: hs_fixed_def hs_data_def out_blocks_def)
  show "hkeeps P N L ?h1 (Ok (), h_data_request d ?h1)" by (rule silent_keeps) simp_all
qed simp

lemma element_request_sig:
  assumes "leader_inv N L (hs_lc h)"
    "content_addressed (h_cr P) (store (h_env (hp_env P))) (cs_db (hs_cs h))"
    "dom (hs_pend_prop h) \<subseteq> insert d (hs_pend_req h)"
    "\<And>d. d \<in> hs_pend_req h \<Longrightarrow> (hs_peers h, HSigElementRequest (hs_id h) \<lparr>req_hash = d\<rparr>) \<in> set (hs_out h)"
    "parked_proposals (hs_pend_prop h)" "parked_pins (hs_pend_att h)"
  shows "sig_ok P N L (h_element_request d h)"
  using assms unfolding sig_ok_def h_element_request_def h_broadcast_def by auto

lemma element_request_view [simp]:
  "hs_fixed (h_element_request d h) = hs_fixed h" "hs_data (h_element_request d h) = hs_data h"
  by (simp_all add: h_element_request_def h_broadcast_def hs_fixed_def hs_data_def out_blocks_def)

lemma keeps_park_proposal:
  assumes "parent_hash p = d"
  shows "hkeeps P N L h (Ok (), h_element_request d
    (h\<lparr>hs_pend_prop := push_entry d (HSigPropose p auth att s) (hs_pend_prop h)\<rparr>))"
proof (rule hkeepsI)
  let ?h1 = "h\<lparr>hs_pend_prop := push_entry d (HSigPropose p auth att s) (hs_pend_prop h)\<rparr>"
  assume ok: "sig_ok P N L h"
  have "sig_ok P N L (h_element_request d ?h1)"
    using sig_okD [OF ok] assms unfolding parked_proposals_def
    by (intro element_request_sig) (auto simp: parked_proposals_def entry_list_in_push simp del: entry_list_push)
  then show "sig_ok P N L (h_element_request d ?h1) \<and> Ok () \<noteq> Panic" by simp
qed (simp_all add: hs_fixed_def hs_data_def out_blocks_def h_element_request_def h_broadcast_def)

lemma keeps_sig_proposal:
  assumes "chooser_ok (hp_pick P)" "henv_ok (hp_env P)"
  shows "hkeeps P N L h (h_sig_proposal P p auth att s h)"
proof (cases "p_round p = hr_round (hs_rs h) \<and> h_check_leader P p auth h = Ok ()")
  case False
  then show ?thesis by (auto simp: h_sig_proposal_def hkeeps_refl split: outcome.split)
next
  case True
  show ?thesis
  proof (cases rule: valid_cases [of P att "HSigPropose p auth att s" h])
    case 1
    with True show ?thesis by (simp add: h_sig_proposal_def Let_def hkeeps_refl)
  next
    case 2
    with True keeps_on_correct [OF assms] keeps_park_proposal [OF refl] show ?thesis
      by (auto simp: h_sig_proposal_def Let_def hkeeps_refl split: outcome.split option.split)
  next
    case (3 d)
    with True keeps_park_pin show ?thesis by (simp add: h_sig_proposal_def Let_def)
  qed
qed

lemma keeps_on_element_request: "hkeeps P N L h (h_on_element_request P d source h)"
  by (auto simp: h_on_element_request_def hkeeps_refl intro!: silent_keeps split: outcome.split option.split)

lemma keeps_on_element_response:
  assumes "henv_ok (hp_env P)"
  shows "hkeeps P N L h (h_on_element_response P el h)"
proof -
  let ?e = "h_env (hp_env P)"
  let ?d = "ser_and_hash (crypt ?e) (cd_element ?e) el"
  let ?h2 = "h\<lparr>hs_pend_req := hs_pend_req h - {?d}, hs_cs := write_element ?e el (hs_cs h)\<rparr>"
  let ?drop = "\<lambda>h. h\<lparr>hs_pend_prop := (hs_pend_prop h)(?d := None)\<rparr>"
  have st: "storage_ok (store ?e)" using assms by (simp add: henv_ok_def env_ok_def)
  have drop_req: "h_element_request d (?drop h2) = ?drop (h_element_request d h2)" for d and h2 :: "('a, 'b, 'c, 'd) hera"
    by (simp add: h_element_request_def h_broadcast_def)
  have ok: "sig_ok P N L (?drop ?h2)" "sig_ok P N L (h_element_request par (?drop ?h2))"
    if "sig_ok P N L h" for par
  proof -
    note o = sig_okD [OF that]
    have ca: "content_addressed (h_cr P) (store ?e) (cs_db (hs_cs (?drop ?h2)))"
      using content_addressed_write [OF st] o(2) by (simp add: h_cr_def ser_and_hash_def)
    have dm: "dom (hs_pend_prop (?drop ?h2)) \<subseteq> hs_pend_req (?drop ?h2)" using o(3) by auto
    have pp: "parked_proposals (hs_pend_prop (?drop ?h2))"
      using o(5) unfolding parked_proposals_def by (auto simp: entry_list_def)
    show "sig_ok P N L (?drop ?h2)"
      unfolding sig_ok_def using o(1,4,6) ca dm pp by auto
    show "sig_ok P N L (h_element_request par (?drop ?h2))"
      by (rule element_request_sig) (use o(1,4,6) ca dm pp in auto)
  qed
  let ?present = "case get_element ?e (hs_cs h) (parent_hash (el_proposal el)) of Ok (Some _) \<Rightarrow> True | _ \<Rightarrow> False"
  let ?h3 = "if \<not> ?present then h_element_request (parent_hash (el_proposal el)) ?h2 else ?h2"
  have k: "hkeeps P N L h (Ok (), ?drop ?h3)"
  proof (rule hkeepsI)
    assume "sig_ok P N L h"
    from ok [OF this] show "sig_ok P N L (?drop ?h3) \<and> Ok () \<noteq> Panic"
      by (cases ?present) (simp_all only: drop_req [symmetric] if_True if_False simp_thms outcome.distinct not_False_eq_True)
  qed (simp_all add: hs_fixed_def hs_data_def out_blocks_def h_element_request_def h_broadcast_def)
  have "hkeeps P N L (?drop ?h3) (Ok (), h_drain_proposals ?d ?h3)"
    unfolding h_drain_proposals_def by (rule silent_keeps) simp_all
  with k have "hkeeps P N L h (Ok (), h_drain_proposals ?d ?h3)" by (rule hkeeps_Ok)
  moreover have "h_on_element_response P el h =
      (if hs_pend_prop h ?d = None \<and> ?d \<notin> hs_pend_req h then (Ok (), h) else (Ok (), h_drain_proposals ?d ?h3))"
    by (simp add: h_on_element_response_def Let_def)
  moreover have "hkeeps P N L h (Ok (), h)" by (rule hkeeps_refl) simp
  ultimately show ?thesis by presburger
qed

lemma keeps_blame_qc:
  assumes "chooser_ok (hp_pick P)"
  shows "hkeeps P N L h (h_blame_qc P r qc h)"
proof -
  let ?h2 = "h_broadcast (HSigBlameQC r qc) (h\<lparr>hs_rs := (hs_rs h)\<lparr>hr_got_qc := True\<rparr>\<rparr>)"
  let ?h3 = "?h2\<lparr>hs_cs := add_qc r qc (hs_cs ?h2)\<rparr>"
  have "hkeeps P N L h (Ok (), ?h2)"
    by (rule silent_keeps) (simp_all add: silent_trans [OF silent_updates(2) silent_broadcast])
  moreover have "hkeeps P N L ?h2 (Ok (), ?h3)"
    by (rule silent_keeps) (simp_all add: silent_def hs_fixed_def hs_data_def sig_part_def out_blocks_def)
  moreover have "hkeeps P N L ?h3 (h_advance_sig_round P ?h3)" by (rule keeps_advance_sig_round [OF assms])
  ultimately have "hkeeps P N L h (h_advance_sig_round P ?h3)" by (blast intro: hkeeps_Ok)
  then show ?thesis by (simp add: h_blame_qc_def Let_def)
qed

lemma keeps_on_blame_qc:
  assumes "chooser_ok (hp_pick P)"
  shows "hkeeps P N L h (h_on_blame_qc P r qc h)"
  using keeps_blame_qc [OF assms] by (auto simp: h_on_blame_qc_def hkeeps_refl split: outcome.split)

lemma keeps_sig_blame:
  assumes "chooser_ok (hp_pick P)"
  shows "hkeeps P N L h (h_sig_blame P r auth h)"
proof -
  have "hkeeps P N L h (h_blame_qc P r qc (h\<lparr>hs_rs := rs\<rparr>))" for qc rs
  proof (rule hkeeps_trans)
    show "hkeeps P N L h (Ok (), h\<lparr>hs_rs := rs\<rparr>)" by (rule silent_keeps) simp_all
  qed (simp_all add: keeps_blame_qc [OF assms])
  moreover have "hkeeps P N L h (Ok (), h\<lparr>hs_rs := rs\<rparr>)" for rs by (rule silent_keeps) simp_all
  ultimately show ?thesis
    by (auto simp: h_sig_blame_def Let_def hkeeps_refl split: outcome.split option.split)
qed

lemma keeps_round_timeout: "hkeeps P N L h (h_round_timeout P h)"
proof -
  let ?h1 = "h\<lparr>hs_timer := hr_disable_timer (hs_timer h)\<rparr>"
  have "silent h (snd (h_loop_send m (h_broadcast m' ?h1)))" if "no_block m'" for m m'
    by (rule silent_trans [OF silent_trans [OF silent_updates(3) silent_broadcast [OF that]] silent_loop_send])
  then have "hkeeps P N L h (h_loop_send m (h_broadcast m' ?h1))" if "no_block m'" for m m'
    using that silent_keeps [OF _ loop_send_no_panic] by (metis prod.collapse)
  moreover have "hkeeps P N L h (Err e, ?h1)" for e by (rule silent_keeps) simp_all
  ultimately show ?thesis by (auto simp: h_round_timeout_def Let_def split: outcome.split)
qed

lemma keeps_sig_ordered:
  assumes "chooser_ok (hp_pick P)" "henv_ok (hp_env P)"
  shows "hkeeps P N L h (h_sig_ordered P m h)"
  using keeps_sig_proposal [OF assms] keeps_sig_blame [OF assms(1)] keeps_on_blame_qc [OF assms(1)]
  by (auto simp: h_sig_ordered_def hkeeps_refl split: hera_msg.split)

end
