(* ===== verification/HeraEvents.thy ===== *)
theory HeraEvents
  imports HeraSafety
begin

section \<open>What one event of Hera does\<close>

text \<open>
  An event of the replica admits a verified block, proposes a block, commits an attestation, or
  leaves the data part of the state alone (\<open>hera_step_cases\<close>). Commits extend the history of
  what was handed to the application.
\<close>

subsection \<open>Blocks an event delivers\<close>

definition hmsg_blocks :: "'tx hera_msg \<Rightarrow> 'tx data_block list" where
  "hmsg_blocks m = (case m of HDataPropose b _ \<Rightarrow> [b] | HDataResponse b \<Rightarrow> [b] | _ \<Rightarrow> [])"

definition block_signed :: "('s, 'tx, 'b, 'g) hera_params \<Rightarrow> pk_map \<Rightarrow> 'tx data_block \<Rightarrow> bool" where
  "block_signed P sys b = (case sys (b_author b) of
     None \<Rightarrow> False | Some pk \<Rightarrow> pk_verify (h_cr P) pk (hera_block_hash (hp_env P) b) (ds_raw (db_sig b)))"

lemma verify_block_sig: "h_verify_block_sig P b h = block_signed P (hs_system h) b"
  by (simp add: h_verify_block_sig_def block_signed_def)

definition event_blocks :: "'tx hera_event \<Rightarrow> ('s, 'tx, 'b, 'g) hera \<Rightarrow> 'tx data_block list" where
  "event_blocks ev h = (case ev of
     HLoopback \<Rightarrow> (case hs_loopback h of [] \<Rightarrow> [] | m # ms \<Rightarrow> hmsg_blocks m)
   | HSigNet (Some m) \<Rightarrow> hmsg_blocks m | HDataNet (Some m) \<Rightarrow> hmsg_blocks m | _ \<Rightarrow> [])"

definition delivered ::
  "('s, 'tx, 'b, 'g) hera_params \<Rightarrow> 'tx hera_event \<Rightarrow> ('s, 'tx, 'b, 'g) hera \<Rightarrow> 'tx data_block list" where
  "delivered P ev h = filter (block_signed P (hs_system h)) (event_blocks ev h)"

subsection \<open>Handlers of the data plane\<close>

lemma sig_ok_chain [simp]: "sig_ok P N L (h\<lparr>hs_chain := mc\<rparr>) = sig_ok P N L h"
  by (simp add: sig_ok_def)

lemma keeps_drain_attestations: "hkeeps P N L h (Ok (), h_drain_attestations d h)"
proof -
  let ?h1 = "h\<lparr>hs_pend_att := (hs_pend_att h)(d := None)\<rparr>"
  have "hkeeps P N L h (Ok (), ?h1)"
    by (rule hkeepsI) (auto simp: hs_fixed_def hs_data_def out_blocks_def sig_ok_def parked_pins_def entry_list_def)
  moreover have "hkeeps P N L ?h1 (Ok (), h_drain_attestations d h)"
    unfolding h_drain_attestations_def by (rule silent_keeps) simp_all
  ultimately show ?thesis by (rule hkeeps_Ok)
qed

lemma admit_cases:
  assumes "h_admit P b h = Some (r, h')"
  obtains res mc where "admit_typed (hp_env P) b (hs_chain h) = Some (res, mc)" "r = Ok ()"
    "hkeeps P N L (h\<lparr>hs_chain := mc\<rparr>) (r, h')"
proof -
  from assms obtain res mc where a: "admit_typed (hp_env P) b (hs_chain h) = Some (res, mc)"
    and r: "r = Ok ()"
    by (auto simp: h_admit_def Let_def split: option.splits)
  have "hkeeps P N L (h\<lparr>hs_chain := mc\<rparr>) (r, h')"
    using assms a keeps_drain_attestations silent_keeps [OF silent_data_request outcome.distinct(3)]
    by (auto simp: h_admit_def Let_def hkeeps_refl split: admit_result.splits option.splits)
  with a r that show ?thesis by blast
qed

lemma keeps_on_data_request: "hkeeps P N L h (h_on_data_request d source h)"
  by (auto simp: h_on_data_request_def hkeeps_refl intro!: silent_keeps split: option.split)

lemma keeps_enqueue: "hkeeps P N L h (Ok (), h_enqueue m r h)"
  by (rule silent_keeps) simp_all

text \<open>A dispatched message admits the verified block it carries, or leaves the data part alone.\<close>

definition admits_block ::
  "('s, 'tx, 'b, 'g) hera_params \<Rightarrow> node_id set \<Rightarrow> nat \<Rightarrow> ('s, 'tx, 'b, 'g) hera \<Rightarrow> 'tx data_block
    \<Rightarrow> unit outcome \<Rightarrow> ('s, 'tx, 'b, 'g) hera \<Rightarrow> bool" where
  "admits_block P N L h b r h' \<longleftrightarrow> block_signed P (hs_system h) b \<and> r = Ok () \<and>
     (\<exists>res mc. admit_typed (hp_env P) b (hs_chain h) = Some (res, mc) \<and>
        hkeeps P N L (h\<lparr>hs_chain := mc\<rparr>) (r, h'))"

lemma admits_blockI:
  assumes "h_admit P b h = Some (r, h')" "h_verify_block_sig P b h"
  shows "admits_block P N L h b r h'"
  using assms(2) by (cases rule: admit_cases [OF assms(1), where N = N and L = L])
    (auto simp: admits_block_def verify_block_sig)

lemma dispatch_cases:
  assumes "h_dispatch P m h = Some (r, h')" "henv_ok (hp_env P)"
  shows "hkeeps P N L h (r, h') \<and> filter (block_signed P (hs_system h)) (hmsg_blocks m) = [] \<or>
    (\<exists>b. filter (block_signed P (hs_system h)) (hmsg_blocks m) = [b] \<and> admits_block P N L h b r h')"
proof (cases m)
  case (HDataPropose b s)
  then show ?thesis using assms(1)
    by (auto simp: h_dispatch_def h_data_propose_def hmsg_blocks_def verify_block_sig [symmetric] hkeeps_refl
        intro: admits_blockI split: if_splits)
next
  case (HDataResponse b)
  show ?thesis
  proof (cases "mc_store (hs_chain h) (hera_block_hash (hp_env P) b) \<noteq> None \<and> h_verify_block_sig P b h")
    case True
    then have "admit_typed (hp_env P) b (hs_chain h) = Some (Duplicate, hs_chain h)"
      by (simp add: admit_typed_def Let_def)
    with True HDataResponse assms(1) show ?thesis
      by (auto simp: h_dispatch_def h_data_response_def hmsg_blocks_def verify_block_sig [symmetric]
          admits_block_def hkeeps_refl)
  next
    case False
    with HDataResponse assms(1) show ?thesis
      by (auto simp: h_dispatch_def h_data_response_def hmsg_blocks_def verify_block_sig [symmetric] hkeeps_refl
          intro: admits_blockI split: if_splits)
  qed
qed (use assms(1) in \<open>auto simp: h_dispatch_def hmsg_blocks_def hkeeps_refl keeps_enqueue
       dest!: sym [of _ "(r, h')"] intro: keeps_on_data_request keeps_on_element_request
         keeps_on_element_response [OF assms(2)]\<close>)

lemma dispatch_hangs:
  "h_dispatch P m h = None \<Longrightarrow> \<exists>b. filter (block_signed P (hs_system h)) (hmsg_blocks m) = [b] \<and>
     admit_typed (hp_env P) b (hs_chain h) = None"
  by (auto simp: h_dispatch_def h_data_propose_def h_data_response_def h_admit_def hmsg_blocks_def
      Let_def verify_block_sig split: hera_msg.splits if_splits option.splits)

subsection \<open>Proposing a block\<close>

text \<open>The blocks a replica has sent form its own chain, of which it keeps the end.\<close>

definition own_chain :: "('s, 'tx, 'b, 'g) hera_params \<Rightarrow> node_id \<Rightarrow> secret_key \<Rightarrow> 'tx data_block list \<Rightarrow> bool" where
  "own_chain P i sk bs \<longleftrightarrow> (\<forall>j < length bs.
     b_author (bs ! j) = i \<and> b_height (bs ! j) = Suc j \<and> b_payload (bs ! j) \<noteq> [] \<and>
     b_parent (bs ! j) = (if j = 0 then hera_genesis_hash (hp_env P) else hera_block_hash (hp_env P) (bs ! (j - 1))) \<and>
     sk_sign (h_cr P) sk (hera_block_hash (hp_env P) (bs ! j)) = Inr (ds_raw (db_sig (bs ! j))))"

lemma own_chain_append:
  assumes "own_chain P i sk bs" "b_author b = i" "b_height b = Suc (length bs)" "b_payload b \<noteq> []"
    "b_parent b = (if bs = [] then hera_genesis_hash (hp_env P) else hera_block_hash (hp_env P) (last bs))"
    "sk_sign (h_cr P) sk (hera_block_hash (hp_env P) b) = Inr (ds_raw (db_sig b))"
  shows "own_chain P i sk (bs @ [b])"
  unfolding own_chain_def
proof (intro allI impI)
  fix j assume "j < length (bs @ [b])"
  then consider "j < length bs" | "j = length bs" by (auto simp: less_Suc_eq)
  then show "b_author ((bs @ [b]) ! j) = i \<and> b_height ((bs @ [b]) ! j) = Suc j \<and> b_payload ((bs @ [b]) ! j) \<noteq> [] \<and>
     b_parent ((bs @ [b]) ! j) = (if j = 0 then hera_genesis_hash (hp_env P)
       else hera_block_hash (hp_env P) ((bs @ [b]) ! (j - 1))) \<and>
     sk_sign (h_cr P) sk (hera_block_hash (hp_env P) ((bs @ [b]) ! j)) = Inr (ds_raw (db_sig ((bs @ [b]) ! j)))"
  proof cases
    case 1
    moreover from this have "j - 1 < length bs" by simp
    ultimately show ?thesis using assms(1) by (simp add: own_chain_def nth_append)
  next
    case 2
    with assms(2-6) show ?thesis by (cases "bs = []") (simp_all add: nth_append last_conv_nth)
  qed
qed

definition proposals_ok :: "('s, 'tx, 'b, 'g) hera_params \<Rightarrow> ('s, 'tx, 'b, 'g) hera \<Rightarrow> bool" where
  "proposals_ok P h \<longleftrightarrow> own_chain P (hs_id h) (hs_secret h) (out_blocks h) \<and>
     hs_height h = length (out_blocks h) \<and>
     hs_last_hash h =
       (if out_blocks h = [] then None else Some (hera_block_hash (hp_env P) (last (out_blocks h))))"

lemma proposals_ok_cong:
  "proposals_ok P h \<Longrightarrow> hs_fixed h' = hs_fixed h \<Longrightarrow> hs_height h' = hs_height h \<Longrightarrow>
    hs_last_hash h' = hs_last_hash h \<Longrightarrow> out_blocks h' = out_blocks h \<Longrightarrow> proposals_ok P h'"
  by (simp add: proposals_ok_def hs_fixed_def)

lemma self_propose_cases:
  assumes "h_self_propose P batch h = (r, h')"
  obtains "hkeeps P N L h (r, h')"
  | b where "batch \<noteq> []" "b_payload b = batch" "b_author b = hs_id h" "b_height b = Suc (hs_height h)"
      "b_parent b = (case hs_last_hash h of Some d \<Rightarrow> d | None \<Rightarrow> hera_genesis_hash (hp_env P))"
      "sk_sign (h_cr P) (hs_secret h) (hera_block_hash (hp_env P) b) = Inr (ds_raw (db_sig b))"
      "r = Ok ()" "hs_fixed h' = hs_fixed h" "hs_chain h' = hs_chain h" "hs_data_commit h' = hs_data_commit h" "hs_handed h' = hs_handed h"
      "hs_height h' = Suc (hs_height h)" "hs_last_hash h' = Some (hera_block_hash (hp_env P) b)"
      "out_blocks h' = out_blocks h @ [b]" "sig_part h' = sig_part h" "set (hs_out h) \<subseteq> set (hs_out h')"
proof -
  define en where "en = \<lparr>de_epoch = hs_epoch h, de_height = hs_height h + 1, de_payload = batch,
    de_parent = (case hs_last_hash h of Some d \<Rightarrow> d | None \<Rightarrow> hera_genesis_hash (hp_env P))\<rparr>"
  show thesis
  proof (cases "batch = [] \<or> (\<exists>e. sk_sign (h_cr P) (hs_secret h) (ser_and_hash (h_cr P) (hc_block (hp_env P)) en) = Inl e)")
    case True
    then have "hkeeps P N L h (r, h')"
      using assms unfolding h_self_propose_def Let_def en_def [symmetric]
      by (auto simp: hkeeps_refl split: if_splits)
    then show thesis by (rule that(1))
  next
    case False
    then obtain raw where raw: "sk_sign (h_cr P) (hs_secret h) (ser_and_hash (h_cr P) (hc_block (hp_env P)) en) = Inr raw"
      by (cases "sk_sign (h_cr P) (hs_secret h) (ser_and_hash (h_cr P) (hc_block (hp_env P)) en)") auto
    define b where "b = \<lparr>db_envelope = en, db_sig = \<lparr>ds_raw = raw, ds_signer = hs_id h\<rparr>\<rparr>"
    let ?h1 = "h\<lparr>hs_height := hs_height h + 1, hs_last_hash := Some (hera_block_hash (hp_env P) b)\<rparr>"
    let ?h3 = "h_broadcast (HDataPropose b (hs_id h)) (h_prime_batcher ?h1)"
    have h': "r = Ok ()" "h' = snd (h_loop_send (HDataPropose b (hs_id h)) ?h3)"
      using assms False raw unfolding h_self_propose_def Let_def en_def [symmetric]
      by (simp_all add: b_def h_prime_batcher_def h_broadcast_def)
    show thesis
      by (rule that(2) [of b])
         (use False raw in \<open>simp_all add: h' b_def en_def hera_block_hash_def h_cr_def h_loop_send_def
            h_broadcast_def h_prime_batcher_def hs_fixed_def out_blocks_def sig_part_def subset_insertI\<close>)
  qed
qed

subsection \<open>Committing\<close>

text \<open>Emission touches the counters and the channels to the batcher and the application only.\<close>

definition emit_view where
  "emit_view h = (hs_fixed h, sig_part h, hs_out h, hs_height h, hs_last_hash h, hs_data_open h)"

lemma emit_block_view [simp]:
  "emit_view (snd (emit_block a b h)) = emit_view h" "hs_chain (snd (emit_block a b h)) = hs_chain h"
  "hs_data_open (snd (emit_block a b h)) = hs_data_open h"
  by (simp_all add: emit_block_def Let_def emit_view_def hs_fixed_def sig_part_def)

lemma emit_blocks_view [simp]:
  "emit_view (snd (emit_blocks a bs h)) = emit_view h" "hs_chain (snd (emit_blocks a bs h)) = hs_chain h"
  by (induction a bs h rule: emit_blocks.induct)
     (auto split: prod.splits bool.splits dest: arg_cong [of _ _ "\<lambda>x. emit_view (snd x)"]
       arg_cong [of _ _ "\<lambda>x. hs_chain (snd x)"])

definition payloads :: "'tx data_block list \<Rightarrow> 'tx batch list" where
  "payloads bs = filter (\<lambda>p. p \<noteq> []) (map b_payload bs)"

lemma payloads_simps [simp]:
  "payloads [] = []" "payloads (b # bs) = (if b_payload b = [] then payloads bs else b_payload b # payloads bs)"
  "payloads (xs @ ys) = payloads xs @ payloads ys"
  by (simp_all add: payloads_def)

definition emitted :: "node_id \<Rightarrow> 'tx data_block list \<Rightarrow> (node_id \<times> 'tx data_block) list" where
  "emitted a bs = map (Pair a) (filter (\<lambda>b. b_payload b \<noteq> []) bs)"

lemma emitted_simps [simp]:
  "emitted a [] = []" "emitted a (b # bs) = (if b_payload b = [] then emitted a bs else (a, b) # emitted a bs)"
  by (simp_all add: emitted_def)

lemma emitted_payloads: "payloads bs = map (\<lambda>(_, b). b_payload b) (emitted a bs)"
  by (induction bs) simp_all

lemma emit_blocks_open:
  "hs_data_open h \<Longrightarrow> fst (emit_blocks a bs h) \<and> hs_data_commit (snd (emit_blocks a bs h)) = hs_data_commit h @ payloads bs \<and>
    hs_handed (snd (emit_blocks a bs h)) = hs_handed h @ emitted a bs"
proof (induction a bs h rule: emit_blocks.induct)
  case (2 a b bs h)
  then show ?case by (cases "b_payload b = []") (simp_all add: emit_block_def Let_def)
qed simp

lemma emit_blocks_closed:
  "\<not> hs_data_open h \<Longrightarrow> hs_data_commit (snd (emit_blocks a bs h)) = hs_data_commit h \<and>
    hs_handed (snd (emit_blocks a bs h)) = hs_handed h \<and>
    (fst (emit_blocks a bs h) \<longrightarrow> payloads bs = [] \<and> emitted a bs = [])"
proof (induction a bs h rule: emit_blocks.induct)
  case (2 a b bs h)
  then show ?case by (cases "b_payload b = []") (simp_all add: emit_block_def Let_def)
qed simp

lemma emit_blocks_done:
  assumes "emit_blocks a bs h = (True, h')"
  shows "hs_data_commit h' = hs_data_commit h @ payloads bs" "hs_handed h' = hs_handed h @ emitted a bs"
  using emit_blocks_open [of h a bs] emit_blocks_closed [of h a bs] assms by (cases "hs_data_open h"; auto)+

lemma emit_blocks_stopped:
  assumes "emit_blocks a bs h = (False, h')"
  shows "hs_data_commit h' = hs_data_commit h" "hs_handed h' = hs_handed h"
  using emit_blocks_open [of h a bs] emit_blocks_closed [of h a bs] assms by (cases "hs_data_open h"; auto)+

text \<open>
  A history of commits: every entry is an author, the height its chain is committed to, and the
  blocks handed over, all between the author's last committed height and the new one.
\<close>

type_synonym 'tx segment = "node_id \<times> nat \<times> 'tx data_block list"

inductive commit_history ::
  "('s, 'tx, 'b) henv \<Rightarrow> (node_id \<Rightarrow> nat) \<Rightarrow> 'tx segment list \<Rightarrow> (node_id \<Rightarrow> nat) \<Rightarrow> bool" where
  commits_none: "commit_history he m [] m"
| commits_more: "commit_history he (m(a := to)) segs m' \<Longrightarrow> m a < to \<Longrightarrow>
    \<forall>b \<in> set bs. m a < b_height b \<and> b_height b \<le> to \<Longrightarrow> distinct (map (hera_block_hash he) bs) \<Longrightarrow>
    commit_history he m ((a, to, bs) # segs) m'"

inductive_cases commits_Cons: "commit_history he m (s # segs) m'"

lemma commits_append: "commit_history he m s1 m1 \<Longrightarrow> commit_history he m1 s2 m2 \<Longrightarrow> commit_history he m (s1 @ s2) m2"
  by (induction rule: commit_history.induct) (auto intro: commits_more)

lemma commits_mono: "commit_history he m segs m' \<Longrightarrow> m a \<le> m' a"
proof (induction rule: commit_history.induct)
  case (commits_more he m a' to segs m' bs)
  then show ?case by (cases "a = a'") simp_all
qed simp

definition seg_blocks :: "'tx segment list \<Rightarrow> 'tx data_block list" where
  "seg_blocks segs = concat (map (\<lambda>(_, _, bs). bs) segs)"

definition author_blocks :: "node_id \<Rightarrow> 'tx segment list \<Rightarrow> 'tx data_block list" where
  "author_blocks a segs = concat (map (\<lambda>(i, _, bs). if i = a then bs else []) segs)"

lemma seg_simps [simp]:
  "seg_blocks [] = []" "seg_blocks ((i, to, bs) # segs) = bs @ seg_blocks segs"
  "seg_blocks (s1 @ s2) = seg_blocks s1 @ seg_blocks s2"
  "author_blocks a [] = []"
  "author_blocks a ((i, to, bs) # segs) = (if i = a then bs else []) @ author_blocks a segs"
  by (simp_all add: seg_blocks_def author_blocks_def)

definition seg_handed :: "'tx segment list \<Rightarrow> (node_id \<times> 'tx data_block) list" where
  "seg_handed segs = concat (map (\<lambda>(i, _, bs). emitted i bs) segs)"

lemma seg_handed_simps [simp]:
  "seg_handed [] = []" "seg_handed ((i, to, bs) # segs) = emitted i bs @ seg_handed segs"
  "seg_handed (s1 @ s2) = seg_handed s1 @ seg_handed s2"
  by (simp_all add: seg_handed_def)

text \<open>What was handed to the application for one author.\<close>

definition handed_for :: "node_id \<Rightarrow> ('s, 'tx, 'b, 'g) hera \<Rightarrow> 'tx data_block list" where
  "handed_for a h = map snd (filter (\<lambda>(i, b). i = a) (hs_handed h))"

lemma seg_handed_payloads: "payloads (seg_blocks segs) = map (\<lambda>(_, b). b_payload b) (seg_handed segs)"
  by (induction segs) (auto simp: emitted_payloads)

lemma seg_handed_author:
  "map snd (filter (\<lambda>(i, b). i = a) (seg_handed segs)) = filter (\<lambda>b. b_payload b \<noteq> []) (author_blocks a segs)"
proof (induction segs)
  case (Cons s segs)
  obtain i to bs where s: "s = (i, to, bs)" by (cases s)
  have "map snd (filter (\<lambda>(j, b). j = a) (emitted i bs)) = (if i = a then filter (\<lambda>b. b_payload b \<noteq> []) bs else [])"
    by (induction bs) auto
  with Cons show ?case by (simp add: s)
qed simp

text \<open>Under one author no block is handed over twice, and all of them lie under its committed height.\<close>

lemma commits_heights:
  "commit_history he m segs m' \<Longrightarrow> b \<in> set (author_blocks a segs) \<Longrightarrow> m a < b_height b \<and> b_height b \<le> m' a"
proof (induction rule: commit_history.induct)
  case (commits_more he m i to segs m' bs)
  then show ?case using commits_mono [OF commits_more.hyps(1), of a] by (auto split: if_splits)
qed simp

lemma commits_distinct:
  "commit_history he m segs m' \<Longrightarrow> distinct (map (\<lambda>b. (hera_block_hash he b, b_height b)) (author_blocks a segs))"
proof (induction rule: commit_history.induct)
  case (commits_more he m i to segs m' bs)
  have "b_height b \<noteq> b_height b'" if "i = a" "b \<in> set bs" "b' \<in> set (author_blocks a segs)" for b b'
    using commits_heights [OF commits_more.hyps(1) that(3)] commits_more.hyps(3) that by fastforce
  moreover have "distinct (map (\<lambda>b. (hera_block_hash he b, b_height b)) bs)"
    using commits_more.hyps(4) by (auto simp: distinct_map inj_on_def)
  ultimately show ?case using commits_more.IH by (auto simp: distinct_append)
qed simp

lemma walk_range_heights:
  "walk_range tip from to mc = Some bs \<Longrightarrow> b \<in> set bs \<Longrightarrow> from < b_height b \<and> b_height b \<le> to"
  by (auto simp: walk_range_def split: if_splits)

lemma walk_range_distinct:
  assumes t: "mc_typed he B mc" and "hera_ranked he B rank" and w: "walk_range tip from to mc = Some bs"
  shows "distinct (map (hera_block_hash he) bs)"
proof (cases "to \<le> from")
  case False
  with w obtain chain where chain: "run_loop (walk_turn mc from) ([], tip) = Some chain"
    and bs: "bs = filter (\<lambda>b. from < b_height b \<and> b_height b \<le> to) (rev chain)"
    by (auto simp: walk_range_def)
  define I where "I x \<longleftrightarrow> (case x of (acc, cur) \<Rightarrow> distinct (map (hera_block_hash he) acc) \<and>
    (\<forall>b \<in> set acc. rank cur < rank (hera_block_hash he b)))" for x :: "'b data_block list \<times> digest"
  have st: "hera_block_hash he b = cur" "rank (b_parent b) < rank cur" if "mc_store mc cur = Some b" for cur b
    using mc_typed_store [OF t that] assms(2) by (auto simp: hera_ranked_def)
  from chain have "distinct (map (hera_block_hash he) chain)"
  proof (rule run_loop_inv [where I = I])
    fix x x' assume "I x" "walk_turn mc from x = Inl x'"
    then obtain acc cur b where x: "x = (acc, cur)" "mc_store mc cur = Some b" "x' = (acc @ [b], b_parent b)"
      by (cases x) (auto simp: walk_turn_def split: option.splits if_splits)
    with \<open>I x\<close> st [OF x(2)] show "I x'" by (auto simp: I_def dest: less_trans)
  next
    fix x r assume "I x" "walk_turn mc from x = Inr r"
    then show "distinct (map (hera_block_hash he) r)"
      by (cases x) (auto simp: I_def walk_turn_def dest!: st(1) split: option.splits if_splits)
  qed (simp add: I_def)
  then have "distinct (map (hera_block_hash he) (rev chain))" by (simp add: rev_map [symmetric])
  then show ?thesis unfolding bs by (rule distinct_map_filter)
qed (use w in \<open>simp add: walk_range_def\<close>)

definition watermarks :: "'tx multi_chain \<Rightarrow> node_id \<Rightarrow> nat" where
  "watermarks mc = (\<lambda>a. committed_height a mc)"

lemma watermarks_new [simp]: "watermarks (multi_chain_new he ids) = (\<lambda>_. 0)"
  by (auto simp: watermarks_def committed_height_def multi_chain_new_def Let_def const_map_apply)

definition raise_committed :: "node_id \<Rightarrow> nat \<Rightarrow> 'tx multi_chain \<Rightarrow> 'tx multi_chain" where
  "raise_committed a n mc = mc\<lparr>mc_committed := (mc_committed mc)(a \<mapsto> n)\<rparr>"

lemma watermarks_raise: "watermarks (raise_committed a n mc) = (watermarks mc)(a := n)"
  by (auto simp: watermarks_def committed_height_def raise_committed_def)

text \<open>What committing an attestation does.\<close>

lemma commit_heads_Cons:
  assumes "commit_heads P (e # es) h = Some (r, h')"
  obtains (old) "dh_height e \<le> watermarks (hs_chain h) (dh_author e)" "commit_heads P es h = Some (r, h')"
  | (panic) "hp_debug P" "r = Panic" "h' = h"
  | (stop) bs where "emit_blocks (dh_author e) bs h = (False, h')" "r = Ok ()"
  | (go) bs h1 where "watermarks (hs_chain h) (dh_author e) < dh_height e"
      "walk_range (dh_hash e) (watermarks (hs_chain h) (dh_author e)) (dh_height e) (hs_chain h) = Some bs"
      "emit_blocks (dh_author e) bs h = (True, h1)"
      "commit_heads P es (h1\<lparr>hs_chain := raise_committed (dh_author e) (dh_height e) (hs_chain h1)\<rparr>) = Some (r, h')"
  using assms
  by (auto simp: Let_def raise_committed_def watermarks_def
      split: if_splits option.splits prod.splits bool.splits)

lemma commit_heads_frame:
  "commit_heads P es h = Some (r, h') \<Longrightarrow>
    emit_view h' = emit_view h \<and> (\<exists>m. hs_chain h' = (hs_chain h)\<lparr>mc_committed := m\<rparr>) \<and> (r = Ok () \<or> hp_debug P \<and> r = Panic)"
proof (induction es arbitrary: h)
  case Nil
  then show ?case by (auto intro: exI [of _ "mc_committed (hs_chain h)"])
next
  case (Cons e es)
  have triv: "\<exists>m. hs_chain h = (hs_chain h)\<lparr>mc_committed := m\<rparr>" by (rule exI [of _ "mc_committed (hs_chain h)"]) simp
  from Cons.prems show ?case
  proof (cases rule: commit_heads_Cons)
    case old
    then show ?thesis by (intro Cons.IH)
  next
    case panic
    with triv show ?thesis by simp
  next
    case (stop bs)
    with triv emit_blocks_view [of "dh_author e" bs h] show ?thesis by simp
  next
    case (go bs h1)
    have "emit_view (h1\<lparr>hs_chain := mc\<rparr>) = emit_view h" "hs_chain h1 = hs_chain h" for mc
      using emit_blocks_view [of "dh_author e" bs h] go(3) by (simp_all add: emit_view_def hs_fixed_def sig_part_def)
    with Cons.IH [OF go(4)] show ?thesis by (auto simp: raise_committed_def)
  qed
qed

lemma commit_heads_commits:
  "commit_heads P es h = Some (r, h') \<Longrightarrow> mc_typed (hp_env P) B (hs_chain h) \<Longrightarrow> hera_ranked (hp_env P) B rank \<Longrightarrow>
    \<exists>segs. commit_history (hp_env P) (watermarks (hs_chain h)) segs (watermarks (hs_chain h')) \<and>
      hs_data_commit h' = hs_data_commit h @ payloads (seg_blocks segs) \<and>
      hs_handed h' = hs_handed h @ seg_handed segs"
proof (induction es arbitrary: h)
  case Nil
  then show ?case by (auto intro: exI [of _ "[]"] commits_none)
next
  case (Cons e es)
  let ?he = "hp_env P" and ?a = "dh_author e" and ?w = "watermarks (hs_chain h)"
  have stay: "\<exists>segs. commit_history ?he ?w segs (watermarks (hs_chain g)) \<and>
      hs_data_commit g = hs_data_commit h @ payloads (seg_blocks segs) \<and>
      hs_handed g = hs_handed h @ seg_handed segs"
    if "hs_chain g = hs_chain h" "hs_data_commit g = hs_data_commit h" "hs_handed g = hs_handed h" for g
    using that by (intro exI [of _ "[]"]) (simp add: commits_none)
  from Cons.prems(1) show ?case
  proof (cases rule: commit_heads_Cons)
    case old
    then show ?thesis using Cons.IH Cons.prems(2,3) by blast
  next
    case panic
    then show ?thesis by (intro stay) simp_all
  next
    case (stop bs)
    with emit_blocks_stopped [OF stop(1)] emit_blocks_view(2) [of ?a bs h] show ?thesis by (intro stay) simp_all
  next
    case (go bs h1)
    have v: "hs_chain h1 = hs_chain h" using emit_blocks_view(2) [of ?a bs h] go(3) by simp
    then have "mc_typed ?he B (raise_committed ?a (dh_height e) (hs_chain h1))"
      using Cons.prems(2) by (simp add: raise_committed_def mc_typed_commit)
    then have t: "mc_typed ?he B (hs_chain (h1\<lparr>hs_chain := raise_committed ?a (dh_height e) (hs_chain h1)\<rparr>))" by simp
    have w: "watermarks (hs_chain (h1\<lparr>hs_chain := raise_committed ?a (dh_height e) (hs_chain h1)\<rparr>)) = ?w(?a := dh_height e)"
      using v watermarks_raise by simp
    from Cons.IH [OF go(4) t Cons.prems(3)] obtain segs where
      segs: "commit_history ?he (?w(?a := dh_height e)) segs (watermarks (hs_chain h'))"
        "hs_data_commit h' = hs_data_commit h1 @ payloads (seg_blocks segs)"
        "hs_handed h' = hs_handed h1 @ seg_handed segs"
      unfolding w by (auto simp del: fun_upd_apply)
    have "commit_history ?he ?w ((?a, dh_height e, bs) # segs) (watermarks (hs_chain h'))"
    proof (rule commits_more [OF segs(1) go(1)])
      show "\<forall>b \<in> set bs. ?w ?a < b_height b \<and> b_height b \<le> dh_height e" using walk_range_heights [OF go(2)] by blast
      show "distinct (map (hera_block_hash ?he) bs)" by (rule walk_range_distinct [OF Cons.prems(2,3) go(2)])
    qed
    with segs(2,3) emit_blocks_done [OF go(3)] show ?thesis
      by (intro exI [of _ "(?a, dh_height e, bs) # segs"]) simp
  qed
qed

subsection \<open>One event\<close>

lemma logged_simps [simp]:
  "h_logged z None = (HHangs, z)" "h_logged z (Some (Panic, z')) = (HCrashed, z')"
  "h_logged z (Some (Ok u, z')) = (HContinue, z')" "h_logged z (Some (Err e, z')) = (HContinue, z')"
  by (simp_all add: h_logged_def)

lemma logged_res: "h_logged z (Some (r, z')) = (if r = Panic then HCrashed else HContinue, z')"
  by (cases r) simp_all

definition quiet_step ::
  "('s, 'tx, 'b, 'g) hera_params \<Rightarrow> node_id set \<Rightarrow> nat \<Rightarrow> 'tx hera_event \<Rightarrow> ('s, 'tx, 'b, 'g) hera
    \<Rightarrow> hera_result \<Rightarrow> ('s, 'tx, 'b, 'g) hera \<Rightarrow> bool" where
  "quiet_step P N L ev h res h' \<longleftrightarrow> delivered P ev h = [] \<and> hs_fixed h' = hs_fixed h \<and> hs_data h' = hs_data h \<and>
     (sig_ok P N L h \<longrightarrow> sig_ok P N L h' \<and> res \<noteq> HCrashed) \<and> res \<noteq> HHangs"

definition stuck_step ::
  "('s, 'tx, 'b, 'g) hera_params \<Rightarrow> 'tx hera_event \<Rightarrow> ('s, 'tx, 'b, 'g) hera \<Rightarrow> bool" where
  "stuck_step P ev h \<longleftrightarrow>
     (\<exists>b. delivered P ev h = [b] \<and> admit_typed (hp_env P) b (hs_chain h) = None) \<or>
     (\<exists>att. ev = HCommitted (Some att) \<and> h_on_committed P att h = None)"

definition block_step ::
  "('s, 'tx, 'b, 'g) hera_params \<Rightarrow> node_id set \<Rightarrow> nat \<Rightarrow> 'tx hera_event \<Rightarrow> ('s, 'tx, 'b, 'g) hera
    \<Rightarrow> hera_result \<Rightarrow> ('s, 'tx, 'b, 'g) hera \<Rightarrow> bool" where
  "block_step P N L ev h res h' \<longleftrightarrow> (\<exists>b x mc. delivered P ev h = [b] \<and>
     admit_typed (hp_env P) b (hs_chain h) = Some (x, mc) \<and> res = HContinue \<and>
     hs_fixed h' = hs_fixed h \<and> hs_data h' = hs_data (h\<lparr>hs_chain := mc\<rparr>) \<and> (sig_ok P N L h \<longrightarrow> sig_ok P N L h'))"

definition propose_step ::
  "('s, 'tx, 'b, 'g) hera_params \<Rightarrow> 'tx hera_event \<Rightarrow> ('s, 'tx, 'b, 'g) hera
    \<Rightarrow> hera_result \<Rightarrow> ('s, 'tx, 'b, 'g) hera \<Rightarrow> bool" where
  "propose_step P ev h res h' \<longleftrightarrow> (\<exists>b. delivered P ev h = [] \<and> res = HContinue \<and>
     b_payload b \<noteq> [] \<and> b_author b = hs_id h \<and> b_height b = Suc (hs_height h) \<and>
     b_parent b = (case hs_last_hash h of Some d \<Rightarrow> d | None \<Rightarrow> hera_genesis_hash (hp_env P)) \<and>
     sk_sign (h_cr P) (hs_secret h) (hera_block_hash (hp_env P) b) = Inr (ds_raw (db_sig b)) \<and>
     hs_fixed h' = hs_fixed h \<and> hs_chain h' = hs_chain h \<and> hs_data_commit h' = hs_data_commit h \<and>
     hs_handed h' = hs_handed h \<and> hs_height h' = Suc (hs_height h) \<and> hs_last_hash h' = Some (hera_block_hash (hp_env P) b) \<and>
     out_blocks h' = out_blocks h @ [b] \<and> sig_part h' = sig_part h \<and> set (hs_out h) \<subseteq> set (hs_out h'))"

definition commit_step ::
  "('s, 'tx, 'b, 'g) hera_params \<Rightarrow> 'tx hera_event \<Rightarrow> ('s, 'tx, 'b, 'g) hera
    \<Rightarrow> hera_result \<Rightarrow> ('s, 'tx, 'b, 'g) hera \<Rightarrow> bool" where
  "commit_step P ev h res h' \<longleftrightarrow> (\<exists>es n r. delivered P ev h = [] \<and> (\<exists>att. ev = HCommitted (Some att)) \<and> (res = HContinue \<or> hp_debug P \<and> res = HCrashed) \<and>
     commit_heads P es (h\<lparr>hs_max_heads := n\<rparr>) = Some (r, h'))"

lemma commit_step_logged:
  assumes "h_logged h (h_on_committed P att h) = (res, h')" "h_on_committed P att h \<noteq> None"
    "delivered P ev h = []" "ev = HCommitted (Some att)"
  shows "commit_step P ev h res h'"
proof (cases "hp_debug P \<and> \<not> covers_committee (hs_conf h) att")
  case True
  with assms(1) have "res = HCrashed" "h' = h" by (simp_all add: h_on_committed_def)
  moreover have "commit_heads P [] (h\<lparr>hs_max_heads := hs_max_heads h\<rparr>) = Some (Ok (), h)" by simp
  ultimately show ?thesis unfolding commit_step_def using True assms(3,4) by blast
next
  case False
  define n where "n = max (hs_max_heads h) (length (me_heads (ma_envelope att)))"
  from False assms(1,2) obtain r where
    r: "commit_heads P (sort_key dh_author (me_heads (ma_envelope att))) (h\<lparr>hs_max_heads := n\<rparr>) = Some (r, h')"
    "res = (if r = Panic then HCrashed else HContinue)"
    by (auto simp: h_on_committed_def Let_def n_def logged_res)
  with commit_heads_frame [OF r(1)] assms(3,4) show ?thesis unfolding commit_step_def by auto
qed

lemma hera_step_cases:
  assumes "hera_step P ev h = (res, h')" "chooser_ok (hp_pick P)" "henv_ok (hp_env P)"
  obtains (quiet) "quiet_step P N L ev h res h'"
  | (stuck) "res = HHangs" "stuck_step P ev h" "hs_fixed h' = hs_fixed h" "hs_data h' = hs_data h"
      "sig_ok P N L h \<longrightarrow> sig_ok P N L h'"
  | (block) "block_step P N L ev h res h'"
  | (propose) "propose_step P ev h res h'"
  | (commit) "commit_step P ev h res h'"
proof -
  have quietI: "quiet_step P N L ev h res h'"
    if "hkeeps P N L h0 (r, h')" "silent h h0" "res = (if r = Panic then HCrashed else HContinue)" "delivered P ev h = []"
    for r :: "unit outcome" and h0
    using that sig_ok_cong [of P N L h h0] by (auto simp: quiet_step_def hkeeps_def silent_def split: if_splits)
  have idle: "quiet_step P N L ev h res h'"
    if "silent h h'" "res \<noteq> HCrashed" "res \<noteq> HHangs" "delivered P ev h = []"
    using that sig_ok_cong [of P N L h h'] by (auto simp: quiet_step_def silent_def)
  have msg: thesis
    if r: "h_logged h0 (h_dispatch P m h0) = (res, h')" and h0: "silent h h0"
      and d: "delivered P ev h = filter (block_signed P (hs_system h)) (hmsg_blocks m)" for m h0
  proof -
    have f: "hs_fixed h0 = hs_fixed h" "hs_data h0 = hs_data h" "hs_system h0 = hs_system h" "hs_chain h0 = hs_chain h"
      "sig_ok P N L h \<Longrightarrow> sig_ok P N L h0"
      using h0 sig_ok_cong [of P N L h h0] by (auto simp: silent_def hs_fixed_def hs_data_def)
    show thesis
    proof (cases "h_dispatch P m h0")
      case None
      with r f dispatch_hangs [OF None] d show thesis by (intro stuck) (auto simp: stuck_step_def)
    next
      case (Some x)
      then obtain r' where s: "h_dispatch P m h0 = Some (r', h')"
        and res: "res = (if r' = Panic then HCrashed else HContinue)"
        using r by (cases x) (auto simp: logged_res)
      from dispatch_cases [OF s assms(3), of N L] show thesis
      proof (elim disjE exE conjE)
        assume "hkeeps P N L h0 (r', h')" "filter (block_signed P (hs_system h0)) (hmsg_blocks m) = []"
        with h0 res d f(3) have "quiet_step P N L ev h res h'" by (intro quietI) simp_all
        then show thesis by (rule quiet)
      next
        fix b assume b: "filter (block_signed P (hs_system h0)) (hmsg_blocks m) = [b]" "admits_block P N L h0 b r' h'"
        then obtain x mc where a: "admit_typed (hp_env P) b (hs_chain h0) = Some (x, mc)" "r' = Ok ()"
          "hkeeps P N L (h0\<lparr>hs_chain := mc\<rparr>) (r', h')"
          by (auto simp: admits_block_def)
        have "hs_fixed h' = hs_fixed h" "hs_data h' = hs_data (h\<lparr>hs_chain := mc\<rparr>)" "sig_ok P N L h \<longrightarrow> sig_ok P N L h'"
          using a(3) f by (auto simp: hkeeps_def hs_fixed_def hs_data_def out_blocks_def)
        with a b d f res show thesis by (intro block) (auto simp: block_step_def)
      qed
    qed
  qed
  have handled: "quiet_step P N L ev h res h'"
    if l: "h_logged h0 (Some x) = (res, h')" and k: "hkeeps P N L h0 x" and "silent h h0" "delivered P ev h = []"
    for h0 x
  proof -
    obtain r where x: "x = (r, h')" and "res = (if r = Panic then HCrashed else HContinue)"
      using l by (cases x) (auto simp: logged_res)
    with k that(3,4) show ?thesis by (intro quietI [of h0 r]) simp_all
  qed
  have ordered: "quiet_step P N L ev h res h'"
    if "h_logged h0 (Some (h_sig_ordered P m h0)) = (res, h')" "silent h h0" "delivered P ev h = []" for m h0
    by (rule handled [OF that(1) keeps_sig_ordered [OF assms(2,3)] that(2,3)])
  have timeout: "quiet_step P N L ev h res h'"
    if "h_logged h (Some (h_round_timeout P h)) = (res, h')" "delivered P ev h = []"
    by (rule handled [OF that(1) keeps_round_timeout silent_refl that(2)])
  show thesis
  proof (cases ev)
    case (HExit ok)
    with assms(1) have "quiet_step P N L ev h res h'"
      by (intro idle) (auto simp: hera_step_def delivered_def event_blocks_def split: if_splits)
    then show thesis by (rule quiet)
  next
    case HTimer
    with assms(1) have "quiet_step P N L ev h res h'"
      by (intro timeout) (simp_all add: hera_step_def delivered_def event_blocks_def)
    then show thesis by (rule quiet)
  next
    case (HCommitted x)
    then have d: "delivered P ev h = []" by (simp add: delivered_def event_blocks_def)
    show thesis
    proof (cases x)
      case None
      with HCommitted assms(1) d have "quiet_step P N L ev h res h'" by (intro idle) (auto simp: hera_step_def)
      then show thesis by (rule quiet)
    next
      case (Some att)
      with HCommitted assms(1) have l: "h_logged h (h_on_committed P att h) = (res, h')" by (simp add: hera_step_def)
      show thesis
      proof (cases "h_on_committed P att h")
        case None
        with l Some HCommitted show thesis by (intro stuck) (auto simp: stuck_step_def)
      next
        case (Some y)
        with commit_step_logged [OF l _ d] HCommitted \<open>x = Some att\<close> show thesis by (intro commit) simp
      qed
    qed
  next
    case HLoopback
    show thesis
    proof (cases "hs_loopback h")
      case Nil
      with HLoopback assms(1) have "quiet_step P N L ev h res h'"
        by (intro idle) (auto simp: hera_step_def delivered_def event_blocks_def)
      then show thesis by (rule quiet)
    next
      case (Cons m ms)
      with HLoopback assms(1) show thesis
        by (intro msg [of "h\<lparr>hs_loopback := ms\<rparr>" m]) (simp_all add: hera_step_def delivered_def event_blocks_def)
    qed
  next
    case (HSigNet x)
    show thesis
    proof (cases x)
      case None
      with HSigNet assms(1) have "quiet_step P N L ev h res h'"
        by (intro idle) (auto simp: hera_step_def delivered_def event_blocks_def)
      then show thesis by (rule quiet)
    next
      case (Some m)
      with HSigNet assms(1) show thesis
        by (intro msg [of h m]) (simp_all add: hera_step_def delivered_def event_blocks_def)
    qed
  next
    case (HDataNet x)
    show thesis
    proof (cases x)
      case None
      with HDataNet assms(1) have "quiet_step P N L ev h res h'"
        by (intro idle) (auto simp: hera_step_def delivered_def event_blocks_def)
      then show thesis by (rule quiet)
    next
      case (Some m)
      with HDataNet assms(1) show thesis
        by (intro msg [of h m]) (simp_all add: hera_step_def delivered_def event_blocks_def)
    qed
  next
    case HRound
    then have d: "delivered P ev h = []" by (simp add: delivered_def event_blocks_def)
    have "quiet_step P N L ev h res h'"
    proof (cases "hr_msg_buf (hs_rs h)")
      case Nil
      with HRound assms(1) d show ?thesis by (intro idle) (auto simp: hera_step_def hr_pop_msg_def)
    next
      case (Cons m ms)
      with HRound assms(1) d show ?thesis
        by (intro ordered [of "h\<lparr>hs_rs := (hs_rs h)\<lparr>hr_msg_buf := ms\<rparr>\<rparr>" m])
           (simp_all add: hera_step_def hr_pop_msg_def)
    qed
    then show thesis by (rule quiet)
  next
    case (HBatch x)
    then have d: "delivered P ev h = []" by (simp add: delivered_def event_blocks_def)
    show thesis
    proof (cases x)
      case None
      with HBatch assms(1) d have "quiet_step P N L ev h res h'" by (intro idle) (auto simp: hera_step_def)
      then show thesis by (rule quiet)
    next
      case (Some bt)
      obtain r' h1 where sp: "h_self_propose P bt h = (r', h1)" by fastforce
      with Some HBatch assms(1) have h1: "h1 = h'" "res = (if r' = Panic then HCrashed else HContinue)"
        by (simp_all add: hera_step_def logged_res)
      from sp show thesis
      proof (cases rule: self_propose_cases [where N = N and L = L])
        case 1
        with h1 d have "quiet_step P N L ev h res h'" by (intro quietI [of h r']) simp_all
        then show thesis by (rule quiet)
      next
        case (2 b)
        with h1 d have "propose_step P ev h res h'" unfolding propose_step_def by (intro exI [of _ b]) simp
        then show thesis by (rule propose)
      qed
    qed
  next
    case HBench
    with assms(1) have "quiet_step P N L ev h res h'"
      by (intro idle) (auto simp: hera_step_def delivered_def event_blocks_def)
    then show thesis by (rule quiet)
  qed
qed

end
