(* ===== verification/HeraRun.thy ===== *)
theory HeraRun
  imports HeraEvents
begin

section \<open>Runs of the Hera replica\<close>

text \<open>
  The invariant of a replica and its preservation by every event, the return of every event, runs
  with the signed blocks they deliver, the history of commits, and the chain of a correct author as
  a run sees it.
\<close>

subsection \<open>Correctly signed chains\<close>

text \<open>Every block stored under its hash, and every stored or parked block signed by its author.\<close>

definition chain_signed :: "('s, 'tx, 'b, 'g) hera_params \<Rightarrow> pk_map \<Rightarrow> 'tx multi_chain \<Rightarrow> bool" where
  "chain_signed P sys mc \<longleftrightarrow>
     (\<forall>d b. mc_store mc d = Some b \<longrightarrow>
        hera_block_hash (hp_env P) b = d \<and> (b = data_genesis \<or> block_signed P sys b)) \<and>
     (\<forall>p bs. mc_pending mc p = Some bs \<longrightarrow> (\<forall>b \<in> set bs. b_parent b = p \<and> block_signed P sys b))"

interpretation adm_signed: chain_admission "hp_env P" a "Collect (block_signed P sys)" "chain_signed P sys"
  for P :: "('s, 'tx, 'b, 'g) hera_params" and a sys
proof
  fix mc :: "'tx multi_chain" and b assume "chain_signed P sys mc" "b \<in> Collect (block_signed P sys)"
  then show "chain_signed P sys (park (b_parent b) b mc)"
    by (cases "mc_pending mc (b_parent b)")
       (auto simp: chain_signed_def push_entry_def extend_entry_def entry_list_def split: if_splits)
qed (auto simp: chain_signed_def split: if_splits)

interpretation adm_committed: chain_admission he a UNIV "\<lambda>mc. mc_committed mc = m"
  for he :: "('s, 'tx, 'b) henv" and a m
  by unfold_locales simp_all

lemma chain_signed_new: "chain_signed P sys (multi_chain_new (hp_env P) ids)"
  by (simp add: chain_signed_def multi_chain_new_def Let_def hera_genesis_hash_def)

lemma chain_signed_commit [simp]: "chain_signed P sys (mc\<lparr>mc_committed := m\<rparr>) = chain_signed P sys mc"
  by (simp add: chain_signed_def)

lemma watermarks_admit:
  "admit_typed he b mc = Some (x, mc') \<Longrightarrow> watermarks mc' = watermarks mc"
  using adm_committed.admitted [of he b mc x mc' "mc_committed mc" "b_author b"]
  by (simp add: watermarks_def committed_height_def)

subsection \<open>The invariant\<close>

definition hera_inv ::
  "('s, 'tx, 'b, 'g) hera_params \<Rightarrow> node_id set \<Rightarrow> nat \<Rightarrow> ('s, 'tx, 'b, 'g) hera \<Rightarrow> bool" where
  "hera_inv P N L h \<longleftrightarrow> sig_ok P N L h \<and> chain_signed P (hs_system h) (hs_chain h) \<and> proposals_ok P h"

lemma delivered_signed: "delivered P ev h = [b] \<Longrightarrow> block_signed P (hs_system h) b"
proof -
  assume "delivered P ev h = [b]"
  then have "b \<in> set (delivered P ev h)" by simp
  then show ?thesis by (simp add: delivered_def)
qed

lemma hs_dataD:
  "hs_data h' = hs_data h \<Longrightarrow> hs_chain h' = hs_chain h \<and> hs_height h' = hs_height h \<and>
     hs_last_hash h' = hs_last_hash h \<and> hs_data_commit h' = hs_data_commit h \<and> out_blocks h' = out_blocks h \<and>
     hs_handed h' = hs_handed h"
  by (simp add: hs_data_def)

lemma hs_fixedD:
  "hs_fixed h' = hs_fixed h \<Longrightarrow> hs_id h' = hs_id h \<and> hs_secret h' = hs_secret h \<and> hs_system h' = hs_system h \<and>
     hs_peers h' = hs_peers h \<and> hs_conf h' = hs_conf h \<and> hs_epoch h' = hs_epoch h"
  by (simp add: hs_fixed_def)

lemma emit_viewD:
  "emit_view h' = emit_view h \<Longrightarrow> hs_fixed h' = hs_fixed h \<and> sig_part h' = sig_part h \<and> hs_out h' = hs_out h \<and>
     hs_height h' = hs_height h \<and> hs_last_hash h' = hs_last_hash h \<and> out_blocks h' = out_blocks h"
  by (simp add: emit_view_def out_blocks_def)

lemma commit_step_frame:
  assumes "commit_step P ev h res h'"
  shows "emit_view h' = emit_view h" "\<exists>m. hs_chain h' = (hs_chain h)\<lparr>mc_committed := m\<rparr>"
proof -
  from assms obtain es n r where c: "commit_heads P es (h\<lparr>hs_max_heads := n\<rparr>) = Some (r, h')"
    unfolding commit_step_def by blast
  have v: "emit_view (h\<lparr>hs_max_heads := n\<rparr>) = emit_view h" by (simp add: emit_view_def hs_fixed_def sig_part_def)
  show "emit_view h' = emit_view h" "\<exists>m. hs_chain h' = (hs_chain h)\<lparr>mc_committed := m\<rparr>"
    using commit_heads_frame [OF c] unfolding v by simp_all
qed

lemma hera_step_inv:
  assumes i: "hera_inv P N L h" and s: "hera_step P ev h = (res, h')"
    and ok: "chooser_ok (hp_pick P)" "henv_ok (hp_env P)"
  shows "hera_inv P N L h'" "hs_fixed h' = hs_fixed h"
    "res = HCrashed \<Longrightarrow> hp_debug P \<and> (\<exists>att. ev = HCommitted (Some att))"
proof -
  have parts: "sig_ok P N L h" "chain_signed P (hs_system h) (hs_chain h)" "proposals_ok P h"
    using i by (simp_all add: hera_inv_def)
  have "hera_inv P N L h' \<and> hs_fixed h' = hs_fixed h \<and> 
    (res = HCrashed \<longrightarrow> hp_debug P \<and> (\<exists>att. ev = HCommitted (Some att)))"
    using s ok
  proof (cases rule: hera_step_cases [where N = N and L = L])
    case quiet
    then have q: "hs_fixed h' = hs_fixed h" "hs_data h' = hs_data h" "sig_ok P N L h'" "res \<noteq> HCrashed"
      using parts(1) by (simp_all add: quiet_step_def)
    with parts hs_dataD [OF q(2)] hs_fixedD [OF q(1)] proposals_ok_cong [OF parts(3) q(1)]
    show ?thesis by (simp add: hera_inv_def)
  next
    case stuck
    with parts hs_dataD [OF stuck(4)] hs_fixedD [OF stuck(3)] proposals_ok_cong [OF parts(3) stuck(3)]
    show ?thesis by (simp add: hera_inv_def)
  next
    case block
    then obtain b x mc where b: "delivered P ev h = [b]" "admit_typed (hp_env P) b (hs_chain h) = Some (x, mc)"
      "res = HContinue" "hs_fixed h' = hs_fixed h" "hs_data h' = hs_data (h\<lparr>hs_chain := mc\<rparr>)" "sig_ok P N L h'"
      using parts(1) unfolding block_step_def by blast
    have d: "hs_chain h' = mc" "hs_height h' = hs_height h" "hs_last_hash h' = hs_last_hash h" "out_blocks h' = out_blocks h"
      using b(5) by (simp_all add: hs_data_def out_blocks_def)
    have "chain_signed P (hs_system h) mc"
      using adm_signed.admitted [OF b(2) parts(2) _ refl] delivered_signed [OF b(1)] by simp
    with b d hs_fixedD [OF b(4)] proposals_ok_cong [OF parts(3) b(4) d(2-4)] show ?thesis
      by (simp add: hera_inv_def)
  next
    case propose
    then obtain b where b: "res = HContinue" "b_payload b \<noteq> []" "b_author b = hs_id h" "b_height b = Suc (hs_height h)"
      "b_parent b = (case hs_last_hash h of Some d \<Rightarrow> d | None \<Rightarrow> hera_genesis_hash (hp_env P))"
      "sk_sign (h_cr P) (hs_secret h) (hera_block_hash (hp_env P) b) = Inr (ds_raw (db_sig b))"
      "hs_fixed h' = hs_fixed h" "hs_chain h' = hs_chain h" "hs_height h' = Suc (hs_height h)"
      "hs_last_hash h' = Some (hera_block_hash (hp_env P) b)" "out_blocks h' = out_blocks h @ [b]"
      "sig_part h' = sig_part h" "set (hs_out h) \<subseteq> set (hs_out h')"
      unfolding propose_step_def by blast
    have "own_chain P (hs_id h) (hs_secret h) (out_blocks h @ [b])"
      using parts(3) b(2-6) by (intro own_chain_append) (auto simp: proposals_ok_def)
    then have "proposals_ok P h'"
      using b parts(3) hs_fixedD [OF b(7)] by (simp add: proposals_ok_def)
    moreover have "sig_ok P N L h'" by (rule sig_ok_cong [OF parts(1) b(12,13)])
    ultimately show ?thesis using b parts hs_fixedD [OF b(7)] by (simp add: hera_inv_def)
  next
    case commit
    note v = emit_viewD [OF commit_step_frame(1) [OF commit]]
    from commit_step_frame(2) [OF commit] obtain m where m: "hs_chain h' = (hs_chain h)\<lparr>mc_committed := m\<rparr>" ..
    have "sig_ok P N L h'" using v by (intro sig_ok_cong [OF parts(1)]) simp_all
    moreover have "proposals_ok P h'" using v by (intro proposals_ok_cong [OF parts(3)]) simp_all
    ultimately show ?thesis
      using v m parts(2) hs_fixedD [of h' h] commit by (auto simp: hera_inv_def commit_step_def)
  qed
  then show "hera_inv P N L h'" "hs_fixed h' = hs_fixed h"
    "res = HCrashed \<Longrightarrow> hp_debug P \<and> (\<exists>att. ev = HCommitted (Some att))" by blast+
qed

subsection \<open>Every event returns\<close>

lemma commit_heads_ends:
  "mc_typed (hp_env P) B (hs_chain h) \<Longrightarrow> hera_ranked (hp_env P) B rank \<Longrightarrow> \<exists>x. commit_heads P es h = Some x"
proof (induction es arbitrary: h)
  case (Cons e es)
  let ?a = "dh_author e" and ?from = "committed_height (dh_author e) (hs_chain h)"
  obtain bs where bs: "walk_range (dh_hash e) ?from (dh_height e) (hs_chain h) = Some bs"
    using walk_range_ends [OF Cons.prems] by blast
  obtain go h1 where em: "emit_blocks ?a bs h = (go, h1)" by fastforce
  with emit_blocks_view(2) [of ?a bs h] have "hs_chain h1 = hs_chain h" by simp
  with Cons.prems(1) have "mc_typed (hp_env P) B (hs_chain (h1\<lparr>hs_chain := (hs_chain h1)
      \<lparr>mc_committed := (mc_committed (hs_chain h1))(?a \<mapsto> dh_height e)\<rparr>\<rparr>))"
    by (simp add: mc_typed_commit)
  from Cons.IH [OF this Cons.prems(2)] Cons.IH [OF Cons.prems] bs em show ?case
    by (auto simp: Let_def split: bool.split)
qed simp

lemma on_committed_ends:
  assumes "mc_typed (hp_env P) B (hs_chain h)" "hera_ranked (hp_env P) B rank"
  shows "h_on_committed P att h \<noteq> None"
  using commit_heads_ends [of P B "h\<lparr>hs_max_heads := max (hs_max_heads h) (length (me_heads (ma_envelope att)))\<rparr>"] assms
  by (fastforce simp: h_on_committed_def Let_def)

text \<open>On a typed state, with the delivered blocks known, no event hangs the replica.\<close>

lemma not_stuck:
  assumes "mc_typed (hp_env P) B (hs_chain h)" "collision_free (hp_env P) B" "hera_ranked (hp_env P) B rank"
    "set (delivered P ev h) \<subseteq> B"
  shows "\<not> stuck_step P ev h"
proof
  assume "stuck_step P ev h"
  then consider b where "delivered P ev h = [b]" "admit_typed (hp_env P) b (hs_chain h) = None"
    | att where "h_on_committed P att h = None"
    by (auto simp: stuck_step_def)
  then show False
  proof cases
    case (1 b)
    with admit_ends [OF assms(1-3), of b] assms(4) show False by auto
  next
    case (2 att)
    with on_committed_ends [OF assms(1,3), of att] show False by simp
  qed
qed

lemma hera_step_typed:
  assumes s: "hera_step P ev h = (res, h')" and ok: "chooser_ok (hp_pick P)" "henv_ok (hp_env P)"
    and t: "mc_typed (hp_env P) B (hs_chain h)" "collision_free (hp_env P) B" "hera_ranked (hp_env P) B rank"
    and d: "set (delivered P ev h) \<subseteq> B"
  shows "mc_typed (hp_env P) B (hs_chain h')" "res \<noteq> HHangs"
proof -
  have "mc_typed (hp_env P) B (hs_chain h') \<and> res \<noteq> HHangs"
    using s ok
  proof (cases rule: hera_step_cases [where N = "{}" and L = 0])
    case quiet
    then show ?thesis using t(1) hs_dataD [of h' h] by (simp add: quiet_step_def)
  next
    case stuck
    with not_stuck [OF t d] show ?thesis by simp
  next
    case block
    then obtain b x mc where b: "delivered P ev h = [b]" "admit_typed (hp_env P) b (hs_chain h) = Some (x, mc)"
      "res = HContinue" "hs_data h' = hs_data (h\<lparr>hs_chain := mc\<rparr>)"
      unfolding block_step_def by blast
    from adm_typed.admitted [OF b(2), of B "b_author b"] t b(1) d have "mc_typed (hp_env P) B mc" by simp
    with b show ?thesis by (simp add: hs_data_def)
  next
    case propose
    then show ?thesis using t(1) by (auto simp: propose_step_def)
  next
    case commit
    from commit_step_frame(2) [OF commit] t(1) commit show ?thesis by (auto simp: mc_typed_commit commit_step_def)
  qed
  then show "mc_typed (hp_env P) B (hs_chain h')" "res \<noteq> HHangs" by blast+
qed

subsection \<open>Runs\<close>

text \<open>A run from a state, with the correctly signed blocks delivered so far, in order.\<close>

inductive hera_run ::
  "('s, 'tx, 'b, 'g) hera_params \<Rightarrow> ('s, 'tx, 'b, 'g) hera \<Rightarrow> 'tx data_block list \<Rightarrow> ('s, 'tx, 'b, 'g) hera \<Rightarrow> bool"
  for P :: "('s, 'tx, 'b, 'g) hera_params" and h0 :: "('s, 'tx, 'b, 'g) hera" where
  hrun_start: "hera_run P h0 [] h0"
| hrun_event: "hera_run P h0 ds h \<Longrightarrow> hera_step P ev h = (HContinue, h') \<Longrightarrow>
    hera_run P h0 (ds @ delivered P ev h) h'"

lemma hera_run_inv:
  assumes "hera_run P h0 ds h" "hera_inv P N L h0" "chooser_ok (hp_pick P)" "henv_ok (hp_env P)"
  shows "hera_inv P N L h \<and> hs_fixed h = hs_fixed h0"
  using assms(1)
proof (induction rule: hera_run.induct)
  case hrun_start
  show ?case using assms(2) by simp
next
  case (hrun_event ds h ev h')
  then show ?case using hera_step_inv(1,2) [OF _ hrun_event.hyps(2) assms(3,4)] by auto
qed

lemma hera_run_typed:
  assumes "hera_run P h0 ds h" "set ds \<subseteq> B" "mc_typed (hp_env P) B (hs_chain h0)"
    and ok: "chooser_ok (hp_pick P)" "henv_ok (hp_env P)"
    and t: "collision_free (hp_env P) B" "hera_ranked (hp_env P) B rank"
  shows "mc_typed (hp_env P) B (hs_chain h)"
  using assms(1,2)
proof (induction rule: hera_run.induct)
  case hrun_start
  show ?case by (fact assms(3))
next
  case (hrun_event ds h ev h')
  then show ?case by (intro hera_step_typed(1) [OF hrun_event.hyps(2) ok _ t]) simp_all
qed

text \<open>The history of what was handed to the application.\<close>

lemma commit_step_history:
  assumes "commit_step P ev h res h'" "mc_typed (hp_env P) B (hs_chain h)" "hera_ranked (hp_env P) B rank"
  shows "\<exists>segs. commit_history (hp_env P) (watermarks (hs_chain h)) segs (watermarks (hs_chain h')) \<and>
    hs_data_commit h' = hs_data_commit h @ payloads (seg_blocks segs) \<and> hs_handed h' = hs_handed h @ seg_handed segs"
proof -
  from assms(1) obtain es n r where "commit_heads P es (h\<lparr>hs_max_heads := n\<rparr>) = Some (r, h')"
    unfolding commit_step_def by blast
  from commit_heads_commits [OF this] assms(2,3) show ?thesis by simp
qed

lemma hera_step_history:
  assumes s: "hera_step P ev h = (res, h')" and ok: "chooser_ok (hp_pick P)" "henv_ok (hp_env P)"
    and t: "mc_typed (hp_env P) B (hs_chain h)" "hera_ranked (hp_env P) B rank"
  shows "\<exists>segs. commit_history (hp_env P) (watermarks (hs_chain h)) segs (watermarks (hs_chain h')) \<and>
    hs_data_commit h' = hs_data_commit h @ payloads (seg_blocks segs) \<and> hs_handed h' = hs_handed h @ seg_handed segs"
proof -
  have stay: ?thesis if "watermarks (hs_chain h') = watermarks (hs_chain h)" "hs_data_commit h' = hs_data_commit h"
      "hs_handed h' = hs_handed h"
    using that by (intro exI [of _ "[]"]) (simp add: commits_none)
  show ?thesis
    using s ok
  proof (cases rule: hera_step_cases [where N = "{}" and L = 0])
    case quiet
    then show ?thesis using hs_dataD [of h' h] by (intro stay) (simp_all add: quiet_step_def)
  next
    case stuck
    then show ?thesis using hs_dataD [of h' h] by (intro stay) simp_all
  next
    case block
    then obtain b x mc where "admit_typed (hp_env P) b (hs_chain h) = Some (x, mc)" "hs_data h' = hs_data (h\<lparr>hs_chain := mc\<rparr>)"
      unfolding block_step_def by blast
    with watermarks_admit show ?thesis by (intro stay) (simp_all add: hs_data_def)
  next
    case propose
    then show ?thesis by (intro stay) (auto simp: propose_step_def)
  next
    case commit
    then show ?thesis by (rule commit_step_history [OF _ t])
  qed
qed

lemma hera_run_history:
  assumes "hera_run P h0 ds h" "set ds \<subseteq> B" "mc_typed (hp_env P) B (hs_chain h0)"
    and ok: "chooser_ok (hp_pick P)" "henv_ok (hp_env P)"
    and t: "collision_free (hp_env P) B" "hera_ranked (hp_env P) B rank"
  shows "\<exists>segs. commit_history (hp_env P) (watermarks (hs_chain h0)) segs (watermarks (hs_chain h)) \<and>
    hs_data_commit h = hs_data_commit h0 @ payloads (seg_blocks segs) \<and> hs_handed h = hs_handed h0 @ seg_handed segs"
  using assms(1,2)
proof (induction rule: hera_run.induct)
  case hrun_start
  show ?case by (intro exI [of _ "[]"]) (simp add: commits_none)
next
  case (hrun_event ds h ev h')
  have ds: "set ds \<subseteq> B" using hrun_event.prems by simp
  from hrun_event.IH [OF ds] obtain s1 where
    s1: "commit_history (hp_env P) (watermarks (hs_chain h0)) s1 (watermarks (hs_chain h))"
      "hs_data_commit h = hs_data_commit h0 @ payloads (seg_blocks s1)" "hs_handed h = hs_handed h0 @ seg_handed s1" by blast
  have "mc_typed (hp_env P) B (hs_chain h)" by (rule hera_run_typed [OF hrun_event.hyps(1) ds assms(3) ok t])
  from hera_step_history [OF hrun_event.hyps(2) ok this t(2)] obtain s2 where
    "commit_history (hp_env P) (watermarks (hs_chain h)) s2 (watermarks (hs_chain h'))"
      "hs_data_commit h' = hs_data_commit h @ payloads (seg_blocks s2)" "hs_handed h' = hs_handed h @ seg_handed s2" by blast
  with s1 commits_append [OF s1(1)] show ?case by (intro exI [of _ "s1 @ s2"]) simp
qed

subsection \<open>A correct author's chain in a run\<close>

lemma settled_commit: "settled he i c n D k (mc\<lparr>mc_committed := m\<rparr>) = settled he i c n D k mc"
  by (simp add: settled_def follows_def)

lemma hera_step_settled:
  assumes S: "setting (hp_env P) i c n B rank" and s: "hera_step P ev h = (res, h')"
    and ok: "chooser_ok (hp_pick P)" "henv_ok (hp_env P)" and t: "mc_typed (hp_env P) B (hs_chain h)"
    and d: "set (delivered P ev h) \<subseteq> B"
    and F: "settled (hp_env P) i c n D k (hs_chain h)" "D \<subseteq> {1..n}"
  shows "\<exists>k'. settled (hp_env P) i c n (D \<union> arrived c n (delivered P ev h)) k' (hs_chain h')"
proof -
  have none: ?thesis if "delivered P ev h = []" "\<exists>m. hs_chain h' = (hs_chain h)\<lparr>mc_committed := m\<rparr>"
    using that F(1) by (auto simp: arrived_def settled_commit)
  have same: "\<exists>m. mc = mc\<lparr>mc_committed := m\<rparr>" for mc :: "'b multi_chain"
    by (rule exI [of _ "mc_committed mc"]) simp
  show ?thesis
    using s ok
  proof (cases rule: hera_step_cases [where N = "{}" and L = 0])
    case quiet
    with same hs_dataD [of h' h] show ?thesis by (intro none) (simp_all add: quiet_step_def)
  next
    case stuck
    with not_stuck [OF t setting_parts(1,2) [OF S] d] show ?thesis by simp
  next
    case block
    then obtain b x mc where b: "delivered P ev h = [b]" "admit_typed (hp_env P) b (hs_chain h) = Some (x, mc)"
      "hs_data h' = hs_data (h\<lparr>hs_chain := mc\<rparr>)"
      unfolding block_step_def by blast
    from settled_deliver_all [OF S t F, of "[b]"] b d show ?thesis by (auto simp: hs_data_def)
  next
    case propose
    with same show ?thesis by (intro none) (auto simp: propose_step_def)
  next
    case commit
    with commit_step_frame(2) [OF commit] show ?thesis by (intro none) (auto simp: commit_step_def)
  qed
qed

lemma arrived_append: "arrived c n (xs @ ys) = arrived c n xs \<union> arrived c n ys"
  by (auto simp: arrived_def)

lemma hera_run_settled:
  assumes "hera_run P h0 ds h" "set ds \<subseteq> B" "hs_chain h0 = multi_chain_new (hp_env P) ids" "i \<in> set ids"
    and ok: "chooser_ok (hp_pick P)" "henv_ok (hp_env P)" and S: "setting (hp_env P) i c n B rank"
  shows "\<exists>k. settled (hp_env P) i c n (arrived c n ds) k (hs_chain h)"
  using assms(1,2)
proof (induction rule: hera_run.induct)
  case hrun_start
  from settled_new [OF S assms(4)] show ?case by (auto simp: arrived_def assms(3))
next
  case (hrun_event ds h ev h')
  have ds: "set ds \<subseteq> B" "set (delivered P ev h) \<subseteq> B" using hrun_event.prems by simp_all
  have "data_genesis \<in> B" using setting_parts(3) [OF S] setting_parts(4) [OF S, of 0] by simp
  then have "mc_typed (hp_env P) B (hs_chain h)"
    using hera_run_typed [OF hrun_event.hyps(1) ds(1) _ ok setting_parts(1,2) [OF S]] assms(3)
    by (simp add: mc_typed_new)
  moreover have "arrived c n ds \<subseteq> {1..n}" by (auto simp: arrived_def)
  ultimately show ?case
    using hrun_event.IH [OF ds(1)] hera_step_settled [OF S hrun_event.hyps(2) ok _ ds(2)]
    unfolding arrived_append by blast
qed

text \<open>A settled head is the block it should be, at its height.\<close>

lemma settled_head:
  assumes S: "setting he i c n B rank" and t: "mc_typed he B mc" and F: "settled he i c n D k mc"
  shows "head_hash i mc = Some (hera_block_hash he (c k))" "head_height i mc = k" "k \<le> n" "{1..k} \<subseteq> D" "Suc k \<notin> D"
proof -
  have f: "follows he i c n D k mc" "Suc k \<notin> D" using F by (simp_all add: settled_def)
  note d = followsD [OF f(1)]
  show "head_hash i mc = Some (hera_block_hash he (c k))" "k \<le> n" "{1..k} \<subseteq> D" "Suc k \<notin> D"
    using d(1-3) f(2) by (simp_all add: head_hash_def)
  from mc_typed_head [OF t d(3)] obtain b where b: "mc_store mc (hera_block_hash he (c k)) = Some b"
    "mc_heights mc i = Some (b_height b)" by blast
  have "db_envelope b = db_envelope (c k)"
    using mc_typed_store [OF t b(1)] setting_parts(1) [OF S] setting_parts(4) [OF S d(1)]
    unfolding collision_free_def by blast
  then show "head_height i mc = k" using b(2) setting_parts(6) [OF S d(1)] by (simp add: head_height_def)
qed

subsection \<open>Start\<close>

definition hera_booted ::
  "('s, 'tx, 'b, 'g) hera_params \<Rightarrow> config \<Rightarrow> ('s, 'tx, 'b, 'g) hera \<Rightarrow> bool" where
  "hera_booted P conf h0 \<longleftrightarrow> chooser_ok (hp_pick P) \<and> henv_ok (hp_env P) \<and> committee_ok (hp_order P) conf \<and>
     (\<exists>me sk sys peers delay timer mn seed s h. content_addressed (h_cr P) (store (h_env (hp_env P))) s \<and>
        hera_spawn P me sk sys peers conf delay timer mn seed s = Ok h \<and> hera_start P h = (Ok (), h0))"

lemma hera_booted_init:
  assumes "hera_booted P conf h0"
  shows "chooser_ok (hp_pick P)" "henv_ok (hp_env P)" "committee_ok (hp_order P) conf"
    "\<exists>N L. hera_inv P N L h0" "hs_chain h0 = multi_chain_new (hp_env P) (get_all_ids (hp_order P) conf)"
    "hs_conf h0 = conf" "hs_data_commit h0 = []" "out_blocks h0 = []" "hs_handed h0 = []"
proof -
  from assms obtain me sk sys peers delay timer mn seed s h where ch: "chooser_ok (hp_pick P)" and he: "henv_ok (hp_env P)"
    and c: "committee_ok (hp_order P) conf" and s: "content_addressed (h_cr P) (store (h_env (hp_env P))) s"
    and sp: "hera_spawn P me sk sys peers conf delay timer mn seed s = Ok h" and st: "hera_start P h = (Ok (), h0)"
    unfolding hera_booted_def by blast
  show "chooser_ok (hp_pick P)" "henv_ok (hp_env P)" "committee_ok (hp_order P) conf" by fact+
  let ?ids = "get_all_ids (hp_order P) conf" and ?e = "h_env (hp_env P)"
  let ?N = "set ?ids" and ?L = "quorum (length ?ids) (num_faults conf)"
  obtain lc where lc: "leader_new (hp_pick P) seed ?ids (num_faults conf) = Ok lc" "leader_inv ?N ?L lc"
    using leader_new_ok [OF ch _ _ _ refl, of ?ids "num_faults conf" seed] c by (auto simp: committee_ok_def)
  have h: "hs_lc h = lc" "hs_cs h = chain_state_new ?e s" "hs_pend_prop h = Map.empty" "hs_pend_req h = {}"
    "hs_pend_att h = Map.empty" "hs_out h = []" "hs_chain h = multi_chain_new (hp_env P) ?ids" "hs_conf h = conf"
    "hs_data_commit h = []" "hs_handed h = []" "hs_height h = 0" "hs_last_hash h = None"
    using sp lc(1) by (auto simp: hera_spawn_def bind_o_Ok_iff)
  let ?cs = "snd (genesis_setup ?e (hs_cs h))"
  define h1 where "h1 = h_prime_batcher (h\<lparr>hs_cs := ?cs, hs_timer := (hs_timer h)\<lparr>tm_resets := tm_resets (hs_timer h) + 1\<rparr>\<rparr>)"
  have env: "env_ok ?e" using he by (simp add: henv_ok_def)
  note g = genesis_setup_ok [OF env s [unfolded h_cr_def]]
  have h1: "h_propose_if_leader P h1 = (Ok (), h0)"
    using st g(1) h(2) by (simp add: hera_start_def h1_def Let_def case_prod_beta)
  have c1: "content_addressed (h_cr P) (store ?e) (cs_db (hs_cs h1))"
    using g(2) h(2) by (simp add: h1_def h_prime_batcher_def chain_state_inv_def h_cr_def)
  have v: "hs_lc h1 = lc" "hs_pend_prop h1 = Map.empty" "hs_pend_req h1 = {}" "hs_pend_att h1 = Map.empty"
    "hs_out h1 = []" "hs_chain h1 = hs_chain h" "hs_conf h1 = conf" "hs_data_commit h1 = []" "hs_handed h1 = []" "hs_height h1 = 0"
    "hs_last_hash h1 = None" "out_blocks h1 = []"
    using h by (simp_all add: h1_def h_prime_batcher_def out_blocks_def)
  have "sig_ok P ?N ?L h1"
    unfolding sig_ok_def using v lc(2) c1 by (simp add: parked_proposals_def parked_pins_def entry_list_def)
  with keeps_propose_if_leader [of P ?N ?L h1] h1
  have k: "sig_ok P ?N ?L h0" "hs_fixed h0 = hs_fixed h1" "hs_data h0 = hs_data h1" by (simp_all add: hkeeps_def)
  note d = hs_dataD [OF k(3)] and f = hs_fixedD [OF k(2)]
  show "hs_chain h0 = multi_chain_new (hp_env P) ?ids" "hs_conf h0 = conf" "hs_data_commit h0 = []" "out_blocks h0 = []"
    "hs_handed h0 = []" using d f v h by simp_all
  have "hera_inv P ?N ?L h0"
    using k(1) d v h chain_signed_new by (simp add: hera_inv_def proposals_ok_def own_chain_def)
  then show "\<exists>N L. hera_inv P N L h0" by blast
qed

end
