(* ===== verification/HeraInstances.thy ===== *)
theory HeraInstances
  imports HeraRun LetoProperties
begin

section \<open>A concrete committee of Hera\<close>

text \<open>
  The parameters chosen concretely, for transactions that are numbers, and the freshly started
  replicas of a committee of four: serialized data is the tagged value, a block's hash encodes its
  height, length and contents, and a signature is the key followed by the digest's last byte.
\<close>

datatype hser =
    HSBatch "multi_attestation list"
  | HSElement "multi_attestation element"
  | HSProposal proposal
  | HSRound round
  | HSTx multi_attestation
  | HSBlockEnv "nat data_block_envelope"
  | HSMulti multi_envelope

fun htest_hash :: "hser \<Rightarrow> digest" where
  "htest_hash (HSBatch b) = of_nat (100 + length b)"
| "htest_hash (HSElement el) =
     of_nat (1000 + 100 * p_round (el_proposal el) + 10 * sig_id (el_auth el) +
             length (concat (map (\<lambda>a. me_heads (ma_envelope a)) (el_batch el))))"
| "htest_hash (HSProposal p) = of_nat (5000 + p_round p)"
| "htest_hash (HSRound r) = of_nat (9000 + r)"
| "htest_hash (HSTx a) = of_nat (7000 + me_round_s (ma_envelope a))"
| "htest_hash (HSBlockEnv en) =
     of_nat (20000 + 1000 * de_height en + 100 * length (de_payload en) + sum_list (de_payload en))"
| "htest_hash (HSMulti en) = of_nat (40000 + 100 * me_round_s en + length (me_heads en))"

definition htest_crypto :: "hser crypto" where
  "htest_crypto = \<lparr>do_hash = htest_hash, sk_sign = (\<lambda>sk h. Inr (sk @ [ucast h])),
     pk_verify = (\<lambda>pk h raw. raw = pk @ [ucast h])\<rparr>"

type_synonym htest_db = "digest \<rightharpoonup> hser"

definition htest_store :: "(htest_db, hser) storage" where
  "htest_store = \<lparr>st_read = (\<lambda>s k. Inr (s k)), st_write = (\<lambda>s k v. s(k \<mapsto> v))\<rparr>"

definition htest_env :: "(htest_db, multi_attestation, hser) env" where
  "htest_env =
     \<lparr>crypt = htest_crypto, store = htest_store,
      cd_batch = \<lparr>encode = HSBatch, decode = (\<lambda>x. case x of HSBatch b \<Rightarrow> Some b | _ \<Rightarrow> None)\<rparr>,
      cd_element = \<lparr>encode = HSElement, decode = (\<lambda>x. case x of HSElement b \<Rightarrow> Some b | _ \<Rightarrow> None)\<rparr>,
      cd_proposal = \<lparr>encode = HSProposal, decode = (\<lambda>x. case x of HSProposal b \<Rightarrow> Some b | _ \<Rightarrow> None)\<rparr>,
      cd_round = \<lparr>encode = HSRound, decode = (\<lambda>x. case x of HSRound b \<Rightarrow> Some b | _ \<Rightarrow> None)\<rparr>,
      cd_tx = \<lparr>encode = HSTx, decode = (\<lambda>x. case x of HSTx b \<Rightarrow> Some b | _ \<Rightarrow> None)\<rparr>\<rparr>"

definition htest :: "(htest_db, nat, hser) henv" where
  "htest = \<lparr>h_env = htest_env,
     hc_block = \<lparr>encode = HSBlockEnv, decode = (\<lambda>x. case x of HSBlockEnv b \<Rightarrow> Some b | _ \<Rightarrow> None)\<rparr>,
     hc_multi = \<lparr>encode = HSMulti, decode = (\<lambda>x. case x of HSMulti b \<Rightarrow> Some b | _ \<Rightarrow> None)\<rparr>\<rparr>"

definition ht_params :: "bool \<Rightarrow> (htest_db, nat, hser, unit) hera_params" where
  "ht_params debug = \<lparr>hp_env = htest, hp_pick = test_pick, hp_order = sorted_list_of_set, hp_debug = debug\<rparr>"

lemma ht_params_sel [simp]:
  "hp_env (ht_params d) = htest" "hp_pick (ht_params d) = test_pick" "hp_order (ht_params d) = sorted_list_of_set"
  "hp_debug (ht_params d) = d" "h_cr (ht_params d) = htest_crypto" "h_env htest = htest_env"
  "crypt htest_env = htest_crypto"
  by (simp_all add: ht_params_def h_cr_def htest_def htest_env_def)

lemma htest_ok: "henv_ok htest"
  by (simp add: henv_ok_def env_ok_def storage_ok_def codec_ok_def htest_def htest_env_def htest_store_def)

lemma htest_sel [simp]:
  "hera_block_hash htest b = htest_hash (HSBlockEnv (db_envelope b))"
  "multi_attestation_hash htest a = htest_hash (HSMulti (ma_envelope a))"
  "ser_and_hash htest_crypto (hc_multi htest) en = htest_hash (HSMulti en)"
  "ser_and_hash htest_crypto (hc_block htest) ben = htest_hash (HSBlockEnv ben)"
  "ser_and_hash htest_crypto (cd_proposal htest_env) p = htest_hash (HSProposal p)"
  "ser_and_hash htest_crypto (cd_round htest_env) r = htest_hash (HSRound r)"
  "ser_and_hash htest_crypto (cd_element htest_env) el = htest_hash (HSElement el)"
  "pk_verify htest_crypto pk h raw = (raw = pk @ [ucast h])"
  "sk_sign htest_crypto sk h = Inr (sk @ [ucast h])"
  "db_read (store htest_env) (cd_element htest_env) s h =
     (case s h of None \<Rightarrow> Ok None | Some (HSElement b) \<Rightarrow> Ok (Some b) | Some _ \<Rightarrow> Err DecodeError)"
  by (auto simp: hera_block_hash_def multi_attestation_hash_def ser_and_hash_def htest_def htest_env_def
      htest_crypto_def htest_store_def db_read_def split: option.splits hser.splits)

lemma htest_genesis [simp]: "hera_genesis_hash htest = 20000"
  by (simp add: hera_genesis_hash_def data_genesis_def)

text \<open>A block of an author, signed by it, and an attestation made and signed by a node; node \<open>i\<close>
  has the key \<open>[i]\<close>.\<close>

definition htest_block :: "node_id \<Rightarrow> nat \<Rightarrow> digest \<Rightarrow> nat list \<Rightarrow> nat data_block" where
  "htest_block i h par txs =
     (let en = \<lparr>de_epoch = 1, de_height = h, de_payload = txs, de_parent = par\<rparr>
      in \<lparr>db_envelope = en, db_sig = \<lparr>ds_raw = [of_nat i, ucast (htest_hash (HSBlockEnv en))], ds_signer = i\<rparr>\<rparr>)"

lemma htest_block_sel [simp]:
  "db_envelope (htest_block i h par txs) = \<lparr>de_epoch = 1, de_height = h, de_payload = txs, de_parent = par\<rparr>"
  "b_author (htest_block i h par txs) = i"
  by (simp_all add: htest_block_def Let_def)

definition htest_att :: "round \<Rightarrow> node_id \<Rightarrow> data_head list \<Rightarrow> node_id list \<Rightarrow> multi_attestation" where
  "htest_att r i heads blames =
     (let en = \<lparr>me_epoch_s = 1, me_round_s = r, me_parent_s = 1000, me_heads = heads, me_blames = blames\<rparr>
      in \<lparr>ma_envelope = en, ma_sig = \<lparr>as_raw = [of_nat i, ucast (htest_hash (HSMulti en))], as_signer = i\<rparr>\<rparr>)"

lemma htest_att_sel [simp]:
  "me_heads (ma_envelope (htest_att r i heads blames)) = heads"
  "me_blames (ma_envelope (htest_att r i heads blames)) = blames"
  "as_signer (ma_sig (htest_att r i heads blames)) = i"
  by (simp_all add: htest_att_def Let_def)

lemma htest_block_signed: "i < 4 \<Longrightarrow> block_signed (ht_params d) test_keys (htest_block i h par txs)"
  by (simp add: block_signed_def test_keys_def htest_block_def Let_def)

subsection \<open>Started replicas\<close>

definition ht_chain :: "nat multi_chain" where
  "ht_chain = multi_chain_new htest [0, 1, 2, 3]"

lemma ht_chain_sel [simp]:
  "mc_heads ht_chain = [0 \<mapsto> 20000, 1 \<mapsto> 20000, 2 \<mapsto> 20000, 3 \<mapsto> 20000]"
  "mc_heights ht_chain = [0 \<mapsto> 0, 1 \<mapsto> 0, 2 \<mapsto> 0, 3 \<mapsto> 0]"
  "mc_committed ht_chain = [0 \<mapsto> 0, 1 \<mapsto> 0, 2 \<mapsto> 0, 3 \<mapsto> 0]"
  "mc_child_of ht_chain = Map.empty" "mc_pending ht_chain = Map.empty" "mc_store ht_chain = [20000 \<mapsto> data_genesis]"
  by (simp_all add: ht_chain_def multi_chain_new_def const_map_def Let_def)

definition ht_start :: "node_id \<Rightarrow> (htest_db, nat, hser, unit) hera" where
  "ht_start i =
     \<lparr>hs_id = i, hs_secret = [of_nat i], hs_system = test_keys, hs_peers = filter (\<lambda>x. x \<noteq> i) [0, 1, 2, 3],
      hs_conf = test_config, hs_loopback = [], hs_loopback_open = True, hs_to_batcher = [NewRound i 1],
      hs_data_commit = [], hs_data_open = True, hs_to_commit = [], hs_commit_open = True, hs_out = [],
      hs_cs = \<lparr>cs_db = [1000 \<mapsto> HSElement (element_genesis 0)], cs_highest_hash = 1000,
               cs_highest_element = element_genesis 0, cs_qc_map = Map.empty\<rparr>,
      hs_lc = test_leader, hs_rs = hr_new 4, hs_timer = \<lparr>tm_resets = 1, tm_enabled = True\<rparr>,
      hs_sig_epoch = 1, hs_epoch = 1, hs_chain = ht_chain, hs_pend_att = Map.empty, hs_pend_prop = Map.empty,
      hs_pend_req = {}, hs_height = 0, hs_last_hash = None, hs_prev = Map.empty, hs_tx_count = 0,
      hs_emit_dp = (i = 0), hs_max_heads = 0, hs_my_committed = 0, hs_handed = []\<rparr>"

lemma ht_net_addresses: "list_all (\<lambda>j. j < 4) is \<Longrightarrow> \<exists>as. net_addresses test_config is = Ok as"
proof (induction "is")
  case (Cons i "is")
  then obtain "as" where "net_addresses test_config is = Ok as" by auto
  with Cons.prems show ?case by (simp add: test_get_party test_address)
qed simp

lemma ht_spawn:
  assumes "i < 4" "i \<noteq> 0"
  shows "\<exists>h. hera_spawn (ht_params d) i [of_nat i] test_keys [0, 1, 2, 3] test_config 500 None 0 () Map.empty = Ok h \<and>
    hera_start (ht_params d) h = (Ok (), ht_start i)"
proof -
  have g: "get_party test_config i = Some (test_party i)" using assms by (simp add: test_get_party)
  have l: "leader test_leader = 0" by (simp add: leader_def test_leader_def)
  obtain "as" where na: "net_addresses test_config [0..<4] = Ok as"
    using ht_net_addresses [of "[0..<4]"] by (auto simp: list_all_iff)
  define h where "h = (ht_start i)\<lparr>hs_to_batcher := [], hs_cs := chain_state_new htest_env Map.empty,
    hs_timer := \<lparr>tm_resets = 0, tm_enabled = True\<rparr>\<rparr>"
  have sp: "hera_spawn (ht_params d) i [of_nat i] test_keys [0, 1, 2, 3] test_config 500 None 0 () Map.empty = Ok h"
    unfolding hera_spawn_def ht_params_sel test_config_sel test_leader_new g na ok_or_simps bind_o_simps
      HERA_SIG_EPOCH_def HERA_DATA_EPOCH_def ht_chain_def [symmetric]
    by (simp add: h_def ht_start_def u64_def)
  have gs: "genesis_setup htest_env (chain_state_new htest_env Map.empty) =
      (Ok True, \<lparr>cs_db = [1000 \<mapsto> HSElement (element_genesis 0)], cs_highest_hash = 1000,
       cs_highest_element = element_genesis 0, cs_qc_map = Map.empty\<rparr>)"
    by (simp add: genesis_setup_def chain_state_new_def write_element_def db_write_def START_ID_def Let_def
          db_notify_read_def)
       (simp add: htest_env_def htest_crypto_def htest_store_def ser_and_hash_def element_genesis_def)
  have "hera_start (ht_params d) h = (Ok (), ht_start i)"
    using assms(2) gs by (simp add: hera_start_def h_def ht_start_def h_prime_batcher_def h_propose_if_leader_def l Let_def)
  with sp show ?thesis by blast
qed

lemma ht_content: "content_addressed htest_crypto (store htest_env) Map.empty"
  by (simp add: content_addressed_def htest_env_def htest_store_def)

lemma ht_booted: "i < 4 \<Longrightarrow> i \<noteq> 0 \<Longrightarrow> hera_booted (ht_params d) test_config (ht_start i)"
  using ht_spawn [of i d] test_pick_ok test_committee_ok htest_ok ht_content
  by (simp add: hera_booted_def) blast

end
