(* ===== verification/HeraProperties.thy ===== *)
theory HeraProperties
  imports HeraInstances
begin

section \<open>Properties of the Hera replica\<close>

text \<open>
  What holds over every run of a replica, how a sender's blocks reach the application of another
  replica, and the behaviours of single handlers that the protocol's safety or liveness depends on.
\<close>

subsection \<open>A concrete run\<close>

text \<open>A block on top of its author's head, with nothing parked on it, becomes the head.\<close>

definition extended :: "('s, 'tx, 'b) henv \<Rightarrow> 'tx data_block \<Rightarrow> 'tx multi_chain \<Rightarrow> 'tx multi_chain" where
  "extended he b mc = move_head (b_author b) (hera_block_hash he b) (b_height b)
     (store_block (hera_block_hash he b) b (b_parent b) mc)"

lemma admit_extends:
  assumes "mc_heads mc (b_author b) = Some (b_parent b)" "mc_store mc (hera_block_hash he b) = None"
    "mc_pending mc (hera_block_hash he b) = None"
  shows "admit_typed he b mc = Some (Extended, extended he b mc)"
proof -
  have "(mc_pending mc)(hera_block_hash he b := None) = mc_pending mc" using assms(3) by (metis fun_upd_triv)
  then have "drain_turn he (b_author b) (extended he b mc) = Inr (extended he b mc)"
    using assms(3) by (simp add: drain_turn_def extended_def)
  then show ?thesis
    using assms(1,2) by (simp add: admit_typed_def Let_def extended_def drain_pending_for_author_def run_loop_Inr)
qed

abbreviation "hb1 \<equiv> htest_block 1 1 20000 [5, 6]"

lemma ht_admit_hb1: "admit_typed htest hb1 ht_chain = Some (Extended, extended htest hb1 ht_chain)"
  by (rule admit_extends) simp_all

lemma drain_nothing: "hs_pend_att h = Map.empty \<Longrightarrow> h_drain_attestations d h = h"
  by (cases h) (simp add: h_drain_attestations_def h_replay_def entry_list_def)

lemma ht_deliver:
  assumes "admit_typed htest b (hs_chain h) = Some (Extended, mc)" "block_signed (ht_params d) (hs_system h) b"
    "hs_pend_att h = Map.empty"
  shows "hera_step (ht_params d) (HDataNet (Some (HDataPropose b s))) h = (HContinue, h\<lparr>hs_chain := mc\<rparr>)"
  using assms
  by (simp add: hera_step_def h_dispatch_def h_data_propose_def h_admit_def verify_block_sig drain_nothing Let_def
      split: option.split)

lemma ht_step1:
  "hera_step (ht_params d) (HDataNet (Some (HDataPropose hb1 1))) (ht_start 2) =
    (HContinue, (ht_start 2)\<lparr>hs_chain := extended htest hb1 ht_chain\<rparr>)"
  by (rule ht_deliver) (simp_all add: ht_start_def ht_admit_hb1 htest_block_signed del: One_nat_def)

lemma ht_run1:
  "hera_run (ht_params d) (ht_start 2) [hb1] ((ht_start 2)\<lparr>hs_chain := extended htest hb1 ht_chain\<rparr>)"
proof -
  have "delivered (ht_params d) (HDataNet (Some (HDataPropose hb1 1))) (ht_start 2) = [hb1]"
    by (simp add: delivered_def event_blocks_def hmsg_blocks_def htest_block_signed ht_start_def)
  with hrun_event [OF hrun_start ht_step1, of d] show ?thesis by simp
qed

text \<open>The chain of author 1 in that run.\<close>

definition hc1 :: "nat \<Rightarrow> nat data_block" where
  "hc1 m = (if m = 0 then data_genesis else hb1)"

definition hrank :: "digest \<Rightarrow> nat" where
  "hrank d = (if d = 20000 then 1 else if d = 21211 then 2 else 0)"

lemma hc1_setting: "setting htest 1 hc1 1 {data_genesis, hb1} hrank"
proof -
  have one: "0 < m \<and> m \<le> 1 \<longleftrightarrow> m = 1" for m :: nat by auto
  show ?thesis
    unfolding setting_def authors_chain_def plays_def collision_free_def hera_ranked_def one
    by (auto simp: hc1_def data_genesis_def hrank_def EMPTY_HASH_def)
qed

subsection \<open>Delivery\<close>



subsection \<open>From a sender's batches to another replica's application\<close>

definition sent_chain :: "('s, 'tx, 'b, 'g) hera \<Rightarrow> nat \<Rightarrow> 'tx data_block" where
  "sent_chain h m = (if m = 0 then data_genesis else out_blocks h ! (m - 1))"

lemma sent_authors_chain:
  "proposals_ok P h \<Longrightarrow> authors_chain (hp_env P) (hs_id h) (sent_chain h) (length (out_blocks h))"
proof -
  assume p: "proposals_ok P h"
  have "b_author (sent_chain h m) = hs_id h \<and> b_height (sent_chain h m) = m \<and>
      b_parent (sent_chain h m) = hera_block_hash (hp_env P) (sent_chain h (m - 1))"
    if "0 < m" "m \<le> length (out_blocks h)" for m
    using p that by (cases m) (auto simp: proposals_ok_def own_chain_def sent_chain_def hera_genesis_hash_def)
  then show ?thesis by (simp add: authors_chain_def) (simp add: sent_chain_def)
qed

lemma sent_last:
  "proposals_ok P h \<Longrightarrow> hs_last_hash h = Some d \<Longrightarrow> d = hera_block_hash (hp_env P) (sent_chain h (hs_height h))"
  by (auto simp: proposals_ok_def sent_chain_def last_conv_nth split: if_splits)

lemma plays_cong:
  assumes "\<And>m. m \<le> n \<Longrightarrow> c m = c' m"
  shows "plays he i c n B = plays he i c' n B"
proof -
  have "c ` {0..n} = c' ` {0..n}" by (rule image_cong) (simp_all add: assms)
  moreover have "(\<forall>m. 0 < m \<and> m \<le> n \<longrightarrow> x \<noteq> hera_block_hash he (c m)) \<longleftrightarrow>
      (\<forall>m. 0 < m \<and> m \<le> n \<longrightarrow> x \<noteq> hera_block_hash he (c' m))" for x
    using assms by metis
  ultimately show ?thesis by (simp add: plays_def)
qed

lemma sent_range: "map (sent_chain h) [Suc w..<Suc (length (out_blocks h))] = drop w (out_blocks h)"
  by (rule nth_equalityI) (simp_all add: sent_chain_def add.commute del: upt_Suc)

lemma sent_payloads:
  assumes "own_chain P i sk bs" shows "payloads (drop w bs) = map b_payload (drop w bs)"
proof -
  have "\<forall>b \<in> set (drop w bs). b_payload b \<noteq> []"
    using assms by (fastforce simp: own_chain_def in_set_conv_nth)
  then show ?thesis by (simp add: payloads_def filter_id_conv)
qed

lemma sent_linked:
  assumes "own_chain P i sk bs" shows "blocks_linked (hp_env P) (drop w bs)"
  using assms by (auto simp: blocks_linked_def list_all_iff own_chain_def)

lemma commit_single_head:
  assumes "me_heads (ma_envelope att) = [e]" "\<not> hp_debug P \<or> covers_committee (hs_conf h) att" "hs_data_open h"
    and "walk_range (dh_hash e) (watermarks (hs_chain h) (dh_author e)) (dh_height e) (hs_chain h) = Some bs"
    and "blocks_linked (hp_env P) bs" "watermarks (hs_chain h) (dh_author e) < dh_height e"
  shows "\<exists>h'. hera_step P (HCommitted (Some att)) h = (HContinue, h') \<and>
    hs_data_commit h' = hs_data_commit h @ payloads bs \<and> watermarks (hs_chain h') (dh_author e) = dh_height e \<and>
    hs_chain h' = raise_committed (dh_author e) (dh_height e) (hs_chain h)"
proof -
  let ?h = "h\<lparr>hs_max_heads := max (hs_max_heads h) 1\<rparr>"
  obtain go h1 where em: "emit_blocks (dh_author e) bs ?h = (go, h1)" by fastforce
  from emit_blocks_open [of ?h "dh_author e" bs] assms(3) em emit_blocks_view(2) [of "dh_author e" bs ?h]
  have go: "go" "hs_data_commit h1 = hs_data_commit h @ payloads bs" "hs_chain h1 = hs_chain h" by simp_all
  let ?h2 = "h1\<lparr>hs_chain := raise_committed (dh_author e) (dh_height e) (hs_chain h1)\<rparr>"
  have "h_on_committed P att h = Some (Ok (), ?h2)"
    using assms em go
    by (auto simp: h_on_committed_def Let_def watermarks_def raise_committed_def sort_key_def)
  then have "hera_step P (HCommitted (Some att)) h = (HContinue, ?h2)" by (simp add: hera_step_def)
  moreover have "watermarks (hs_chain ?h2) (dh_author e) = dh_height e" by (simp add: watermarks_raise)
  ultimately show ?thesis using go by (intro exI [of _ ?h2]) simp
qed


text \<open>Node 1 proposes \<open>[5, 6]\<close>; node 2 receives the block and commits an attestation of it.\<close>

lemma ht_propose:
  "\<exists>s. hera_step (ht_params d) (HBatch (Some [5, 6])) (ht_start 1) = (HContinue, s) \<and> out_blocks s = [hb1] \<and>
     hs_id s = 1 \<and> hs_height s = 1 \<and> hs_last_hash s = Some 21211 \<and> hera_run (ht_params d) (ht_start 1) [] s"
proof -
  define s where "s = snd (hera_step (ht_params d) (HBatch (Some [5, 6])) (ht_start 1))"
  have e: "hera_step (ht_params d) (HBatch (Some [5, 6])) (ht_start 1) = (HContinue, s)"
    by (simp add: s_def hera_step_def h_self_propose_def Let_def logged_res)
  moreover have "out_blocks s = [hb1] \<and> hs_id s = 1 \<and> hs_height s = 1 \<and> hs_last_hash s = Some 21211"
    by (simp add: s_def hera_step_def h_self_propose_def Let_def logged_res h_loop_send_def h_broadcast_def
        h_prime_batcher_def out_blocks_def)
       (simp add: ht_start_def htest_block_def Let_def)
  moreover have "hera_run (ht_params d) (ht_start 1) [] s"
    using hrun_event [OF hrun_start e] by (simp add: delivered_def event_blocks_def)
  ultimately show ?thesis by blast
qed

abbreviation "ht_att1 \<equiv> htest_att 1 0 [\<lparr>dh_author = 1, dh_hash = 21211, dh_height = 1, dh_epoch = 1\<rparr>] [0, 2, 3]"


subsection \<open>What every run keeps\<close>

text \<open>C9. Every reachable state is well-formed: each node has one place in the leader window, the start
  leader at most two, every stored element and block stands under its own hash, every stored or parked block is signed by its author,
  whatever is parked waits under the hash it misses, every awaited element was requested from all
  peers, and the blocks sent form one signed chain that ends at the remembered height and hash.\<close>

theorem hera_run_safe:
  assumes "hera_booted P conf h0" "hera_run P h0 ds h"
  shows "(\<exists>N L. leader_inv N L (hs_lc h)) \<and>
    content_addressed (h_cr P) (store (h_env (hp_env P))) (cs_db (hs_cs h)) \<and>
    chain_signed P (hs_system h) (hs_chain h) \<and> parked_proposals (hs_pend_prop h) \<and> parked_pins (hs_pend_att h) \<and>
    (\<forall>d \<in> dom (hs_pend_prop h). (hs_peers h, HSigElementRequest (hs_id h) \<lparr>req_hash = d\<rparr>) \<in> set (hs_out h)) \<and>
    proposals_ok P h \<and> hs_id h = hs_id h0 \<and> hs_system h = hs_system h0"
proof -
  note b = hera_booted_init [OF assms(1)]
  from b(4) obtain N L where "hera_inv P N L h0" by blast
  from hera_run_inv [OF assms(2) this b(1,2)]
  have i: "sig_ok P N L h" "chain_signed P (hs_system h) (hs_chain h)" "proposals_ok P h" "hs_fixed h = hs_fixed h0"
    by (simp_all add: hera_inv_def)
  with sig_okD [OF i(1)] hs_fixedD [OF i(4)] show ?thesis by blast
qed

theorem hera_run_safe_witness:
  "\<exists>s. hera_run (ht_params True) (ht_start 1) [] s \<and> out_blocks s = [hb1] \<and> proposals_ok (ht_params True) s"
proof -
  obtain s where s: "hera_run (ht_params True) (ht_start 1) [] s" "out_blocks s = [hb1]" using ht_propose by blast
  have "hera_booted (ht_params True) test_config (ht_start 1)" by (rule ht_booted) simp_all
  from hera_run_safe [OF this s(1)] s show ?thesis by blast
qed

text \<open>C11. When no two delivered blocks collide and hash links do not run in circles, every event of
  every run is handled to the end: no admission, drain or commit walk hangs the replica.\<close>

theorem hera_never_hangs:
  assumes "hera_booted P conf h0" "hera_run P h0 ds h" "set ds \<subseteq> B" "set (delivered P ev h) \<subseteq> B"
    and "data_genesis \<in> B" "collision_free (hp_env P) B" "hera_ranked (hp_env P) B rank"
  shows "fst (hera_step P ev h) \<noteq> HHangs"
proof -
  note b = hera_booted_init [OF assms(1)]
  have t: "mc_typed (hp_env P) B (hs_chain h)"
    using hera_run_typed [OF assms(2,3) _ b(1,2) assms(6,7)] b(5) assms(5) by (simp add: mc_typed_new)
  obtain res h' where s: "hera_step P ev h = (res, h')" by fastforce
  from hera_step_typed(2) [OF s b(1,2) t assms(6,7,4)] s show ?thesis by simp
qed

theorem hera_never_hangs_witness:
  "\<exists>h. hera_run (ht_params False) (ht_start 2) [hb1] h \<and>
    fst (hera_step (ht_params False) (HCommitted (Some ht_att1)) h) \<noteq> HHangs"
proof -
  have "hera_booted (ht_params False) test_config (ht_start 2)" by (rule ht_booted) simp_all
  from hera_never_hangs [OF this ht_run1, of "{data_genesis, hb1}" "HCommitted (Some ht_att1)" hrank] hc1_setting
  have "fst (hera_step (ht_params False) (HCommitted (Some ht_att1)) ((ht_start 2)\<lparr>hs_chain := extended htest hb1 ht_chain\<rparr>))
      \<noteq> HHangs"
    by (simp add: setting_def delivered_def event_blocks_def)
  with ht_run1 show ?thesis by blast
qed

text \<open>C14. No message, timer or batch crashes a reachable replica; only a committed attestation can, and
  only in a build that checks debug assertions.\<close>

theorem hera_crashes_only_on_assertions:
  assumes "hera_booted P conf h0" "hera_run P h0 ds h" "fst (hera_step P ev h) = HCrashed"
  shows "hp_debug P \<and> (\<exists>att. ev = HCommitted (Some att))"
proof -
  note b = hera_booted_init [OF assms(1)]
  from b(4) obtain N L where "hera_inv P N L h0" by blast
  from hera_run_inv [OF assms(2) this b(1,2)] have i: "hera_inv P N L h" by blast
  obtain h' where "hera_step P ev h = (HCrashed, h')" using assms(3) by (metis prod.collapse)
  from hera_step_inv(3) [OF i this b(1,2)] show ?thesis by simp
qed

text \<open>The witness: in a debug build an attestation that names nobody ends the replica.\<close>

theorem hera_crashes_only_on_assertions_witness:
  "fst (hera_step (ht_params True) (HCommitted (Some (htest_att 1 3 [] []))) (ht_start 2)) = HCrashed \<and>
    fst (hera_step (ht_params False) (HCommitted (Some (htest_att 1 3 [] []))) (ht_start 2)) \<noteq> HCrashed"
proof
  show "fst (hera_step (ht_params True) (HCommitted (Some (htest_att 1 3 [] []))) (ht_start 2)) = HCrashed"
    by (simp add: hera_step_def h_on_committed_def covers_committee_def ht_start_def test_config_sel)
  have "hera_booted (ht_params False) test_config (ht_start 2)" by (rule ht_booted) simp_all
  from hera_crashes_only_on_assertions [OF this hrun_start]
  show "fst (hera_step (ht_params False) (HCommitted (Some (htest_att 1 3 [] []))) (ht_start 2)) \<noteq> HCrashed"
    by auto
qed

lemma distinct_envelopes:
  assumes "distinct (map (\<lambda>b. (hera_block_hash he b, b_height b)) bs)"
  shows "distinct (map db_envelope bs)"
proof -
  have "inj_on db_envelope (set bs)"
  proof (rule inj_onI)
    fix x y assume xy: "x \<in> set bs" "y \<in> set bs" "db_envelope x = db_envelope y"
    from assms have "inj_on (\<lambda>b. (hera_block_hash he b, b_height b)) (set bs)" by (simp add: distinct_map)
    then show "x = y" by (rule inj_onD) (use xy in \<open>simp_all add: hera_block_hash_def\<close>)
  qed
  with assms show ?thesis by (simp add: distinct_map)
qed

text \<open>The concrete run goes on with a commit of the block.\<close>

lemma ht_walk1: "walk_range 21211 0 1 (extended htest hb1 ht_chain) = Some [hb1]"
proof -
  have "walk_turn (extended htest hb1 ht_chain) 0 ([], 21211) = Inl ([hb1], 20000)"
    "walk_turn (extended htest hb1 ht_chain) 0 ([hb1], 20000) = Inr [hb1]"
    by (simp_all add: walk_turn_def extended_def data_genesis_def)
  then have "run_loop (walk_turn (extended htest hb1 ht_chain) 0) ([], 21211) = Some [hb1]"
    by (simp add: run_loop_Inl run_loop_Inr del: One_nat_def)
  then show ?thesis by (simp add: walk_range_def)
qed

lemma ht_run2: "\<exists>h. hera_run (ht_params False) (ht_start 2) [hb1] h \<and> hs_data_commit h = [[5, 6]]"
proof -
  let ?r = "(ht_start 2)\<lparr>hs_chain := extended htest hb1 ht_chain\<rparr>"
  have w: "watermarks (extended htest hb1 ht_chain) 1 = 0"
    by (simp add: watermarks_def committed_height_def extended_def)
  have r: "hs_data_open (ht_start 2)" "hs_data_commit (ht_start 2) = []" by (simp_all add: ht_start_def)
  obtain r' where "hera_step (ht_params False) (HCommitted (Some ht_att1)) ?r = (HContinue, r')" "hs_data_commit r' = [[5, 6]]"
    using commit_single_head [of ht_att1 "\<lparr>dh_author = 1, dh_hash = 21211, dh_height = 1, dh_epoch = 1\<rparr>" "ht_params False" ?r
        "[hb1]"] ht_walk1
    by (auto simp: w r blocks_linked_def simp del: One_nat_def)
  moreover from hrun_event [OF ht_run1 this(1)] have "hera_run (ht_params False) (ht_start 2) [hb1] r'"
    by (simp add: delivered_def event_blocks_def)
  ultimately show ?thesis by blast
qed

text \<open>C5. In every run Hera hands each block to the application once per author: the batches on the
  application's channel are, in order, the payloads of the blocks recorded when they were sent
  (\<open>hs_handed\<close>, which the handler of commits extends with the author and the block of every batch it
  sends), and among those of one author no two are the same block, and all of them lie above height 0
  and at most at the author's committed height. Hash links do not form a cycle and the blocks of the run
  do not collide.\<close>

theorem hera_commits_once:
  assumes "hera_booted P conf h0" "hera_run P h0 ds h" "set ds \<subseteq> B"
    and "data_genesis \<in> B" "collision_free (hp_env P) B" "hera_ranked (hp_env P) B rank"
  shows "hs_data_commit h = map (\<lambda>(_, b). b_payload b) (hs_handed h) \<and>
    (\<forall>a. distinct (map db_envelope (handed_for a h)) \<and>
      (\<forall>b \<in> set (handed_for a h). 0 < b_height b \<and> b_height b \<le> committed_height a (hs_chain h)))"
proof -
  note b = hera_booted_init [OF assms(1)]
  have t: "mc_typed (hp_env P) B (hs_chain h0)" using b(5) assms(4) by (simp add: mc_typed_new)
  obtain segs where s: "commit_history (hp_env P) (\<lambda>_. 0) segs (watermarks (hs_chain h))"
    "hs_data_commit h = payloads (seg_blocks segs)" "hs_handed h = seg_handed segs"
    using hera_run_history [OF assms(2,3) t b(1,2) assms(5,6)] b(5,7,9) by auto
  have f: "handed_for a h = filter (\<lambda>b. b_payload b \<noteq> []) (author_blocks a segs)" for a
    unfolding handed_for_def s(3) by (rule seg_handed_author)
  have "distinct (map db_envelope (handed_for a h))" for a
    unfolding f by (rule distinct_map_filter [OF distinct_envelopes [OF commits_distinct [OF s(1)]]])
  moreover have "0 < b_height x \<and> b_height x \<le> committed_height a (hs_chain h)" if "x \<in> set (handed_for a h)" for a x
    using that commits_heights [OF s(1), of x a] by (simp add: f watermarks_def)
  moreover have "hs_data_commit h = map (\<lambda>(_, b). b_payload b) (hs_handed h)"
    unfolding s(2,3) by (rule seg_handed_payloads)
  ultimately show ?thesis by blast
qed

theorem hera_commits_once_witness:
  "\<exists>h. hera_run (ht_params False) (ht_start 2) [hb1] h \<and> hs_data_commit h = [[5, 6]] \<and>
    map (\<lambda>(_, b). b_payload b) (hs_handed h) = [[5, 6]] \<and> distinct (map db_envelope (handed_for 1 h))"
proof -
  obtain h where h: "hera_run (ht_params False) (ht_start 2) [hb1] h" "hs_data_commit h = [[5, 6]]"
    using ht_run2 by blast
  have b: "hera_booted (ht_params False) test_config (ht_start 2)" by (rule ht_booted) simp_all
  have "hs_data_commit h = map (\<lambda>(_, b). b_payload b) (hs_handed h) \<and>
    (\<forall>a. distinct (map db_envelope (handed_for a h)) \<and>
      (\<forall>b \<in> set (handed_for a h). 0 < b_height b \<and> b_height b \<le> committed_height a (hs_chain h)))"
    by (rule hera_commits_once [OF b h(1), where B = "{data_genesis, hb1}" and rank = hrank])
       (use hc1_setting in \<open>simp_all add: setting_def\<close>)
  with h show ?thesis by auto
qed

text \<open>C16. The commit task of Hera follows Leto's rule: at every end of a round, from matching states,
  both return or hang alike, and Hera reports for each block Leto commits the attestation with the
  greatest head height of its batch. In a release build, where lowering a count of zero does not
  panic, this is so while no count is zero, and none becomes zero.\<close>

theorem hera_commits_as_leto:
  assumes "hq_agrees uo hq cm"
  shows "rel_option (\<lambda>(r, hq') (r', cm'). r = r' \<and> hq_agrees uo hq' cm')
    (hera_end_round he qo uo s h el hq) (end_round (h_env he) qo uo s h el cm)"
  using assms by (rule hera_end_round_agrees)

lemma hera_commit_init_matches:
  assumes "fst (hera_commit_init checked he qo uo n f s) = Ok hq" "fst (commit_init (h_env he) qo uo n f me mn s) = Ok cm"
    and ok: "lhm_ok uo"
  shows "hq_agrees uo hq cm"
proof -
  have "iter_pos uo (lhm_insert uo i 1 (lhm_empty uo))" for i
    by (simp add: iter_pos_def lhm_okD(1,2) [OF ok] back_insert_def)
  from iter_pos_counts [OF ok this] assms show ?thesis
    by (auto simp: hera_commit_init_def commit_init_def Let_def case_prod_beta hq_agrees_def hq_matches_def hq_counts_def
      bind_o_Ok_iff)
qed

abbreviation "ht_element \<equiv> \<lparr>el_proposal = \<lparr>p_block = \<lparr>batch_hash = 0, prev_hash = 1000\<rparr>, p_qc = None, p_round = 1\<rparr>,
  el_auth = \<lparr>sig_raw = [], sig_id = 3\<rparr>, el_batch = [ht_att1]\<rparr>"

theorem hera_commits_as_leto_witness:
  "\<exists>hq cm. fst (hera_commit_init False htest lhm_list lhm_list 4 1 Map.empty) = Ok hq \<and>
     rel_option (\<lambda>(r, hq') (r', cm'). r = r' \<and> hq_agrees lhm_list hq' cm')
       (hera_end_round htest lhm_list lhm_list [1131 \<mapsto> HSElement ht_element] 1131 ht_element hq)
       (end_round (h_env htest) lhm_list lhm_list [1131 \<mapsto> HSElement ht_element] 1131 ht_element cm)"
proof -
  have g: "fst (genesis_setup (h_env htest) (chain_state_new (h_env htest) Map.empty)) = Ok True"
    using genesis_setup_ok(1) [of htest_env Map.empty] htest_ok ht_content by (simp add: henv_ok_def)
  obtain hq where hq: "fst (hera_commit_init False htest lhm_list lhm_list 4 1 Map.empty) = Ok hq"
    using g by (auto simp: hera_commit_init_def Let_def case_prod_beta simp del: ht_params_sel)
  obtain cm where cm: "fst (commit_init (h_env htest) lhm_list lhm_list 4 1 0 0 Map.empty) = Ok cm"
    using g by (auto simp: commit_init_def Let_def case_prod_beta simp del: ht_params_sel)
  show ?thesis
    by (intro exI conjI) (rule hq, rule hera_commits_as_leto, rule hera_commit_init_matches [OF hq cm lhm_list_ok])
qed

subsection \<open>Attestations\<close>

text \<open>Which authors a proposal names: those with blocks above the height last attested.\<close>

definition fresh :: "('s, 'tx, 'b, 'g) hera \<Rightarrow> node_id \<Rightarrow> bool" where
  "fresh h i \<longleftrightarrow> (case hs_prev h i of Some p \<Rightarrow> p | None \<Rightarrow> 0) < head_height i (hs_chain h) \<and>
     head_hash i (hs_chain h) \<noteq> None"

definition head_of :: "('s, 'tx, 'b, 'g) hera \<Rightarrow> node_id \<Rightarrow> data_head" where
  "head_of h i = \<lparr>dh_author = i, dh_hash = the (head_hash i (hs_chain h)), dh_height = head_height i (hs_chain h),
     dh_epoch = (case get_block (the (head_hash i (hs_chain h))) (hs_chain h) of
       Some b \<Rightarrow> b_epoch b | None \<Rightarrow> hs_epoch h)\<rparr>"

lemma attest_author_eq:
  "attest_author h (hs, bl) i = (if fresh h i then (hs @ [head_of h i], bl) else (hs, bl @ [i]))"
  by (auto simp: attest_author_def fresh_def head_of_def Let_def split: option.split)

lemma attest_authors:
  "foldl (attest_author h) (hs, bl) ids =
    (hs @ map (head_of h) (filter (fresh h) ids), bl @ filter (\<lambda>i. \<not> fresh h i) ids)"
  by (induction ids arbitrary: hs bl) (simp_all add: attest_author_eq)

text \<open>C25. The attestation of a proposer names every member of the committee exactly once, in the order
  of identifiers: as the head of its chain when the chain has grown since the last attestation, as
  blamed otherwise. Such an attestation passes the assertion of the committing replica.\<close>

theorem made_attestation_covers:
  assumes "make_multi_attestation P r h = Ok att" "order_ok (hp_order P)" "finite (dom (parties (hs_conf h)))"
  shows "me_heads (ma_envelope att) =
      map (head_of h) (filter (fresh h) (sort (get_all_ids (hp_order P) (hs_conf h)))) \<and>
    me_blames (ma_envelope att) = filter (\<lambda>i. \<not> fresh h i) (sort (get_all_ids (hp_order P) (hs_conf h))) \<and>
    as_signer (ma_sig att) = hs_id h \<and> covers_committee (hs_conf h) att"
proof -
  let ?ids = "sort (get_all_ids (hp_order P) (hs_conf h))"
  have e: "me_heads (ma_envelope att) = map (head_of h) (filter (fresh h) ?ids)"
    "me_blames (ma_envelope att) = filter (\<lambda>i. \<not> fresh h i) ?ids" "as_signer (ma_sig att) = hs_id h"
    using assms(1) by (auto simp: make_multi_attestation_def attest_authors Let_def bind_o_Ok_iff)
  have "length (get_all_ids (hp_order P) (hs_conf h)) = num_nodes (hs_conf h)"
    using assms(2,3) by (simp add: get_all_ids_def num_nodes_def order_ok_def distinct_card [symmetric])
  moreover have "length (filter (fresh h) ?ids) + length (filter (\<lambda>i. \<not> fresh h i) ?ids) = length ?ids"
    by (rule sum_length_filter_compl)
  ultimately have "covers_committee (hs_conf h) att"
    by (auto simp: covers_committee_def e list_all_iff head_of_def)
  with e show ?thesis by blast
qed

theorem made_attestation_covers_witness:
  "\<exists>att. make_multi_attestation (ht_params True) 1 ((ht_start 2)\<lparr>hs_chain := extended htest hb1 ht_chain\<rparr>) = Ok att \<and>
    covers_committee test_config att \<and>
    me_heads (ma_envelope att) = [\<lparr>dh_author = 1, dh_hash = 21211, dh_height = 1, dh_epoch = 1\<rparr>] \<and>
    me_blames (ma_envelope att) = [0, 2, 3]"
proof -
  let ?h = "(ht_start 2)\<lparr>hs_chain := extended htest hb1 ht_chain\<rparr>"
  have c: "hs_conf ?h = test_config" "hs_prev ?h = Map.empty" by (simp_all add: ht_start_def)
  obtain att where a: "make_multi_attestation (ht_params True) 1 ?h = Ok att"
    by (auto simp: make_multi_attestation_def Let_def case_prod_beta)
  have f: "fresh ?h i \<longleftrightarrow> i = 1" for i
    using c by (simp add: fresh_def head_height_def head_hash_def extended_def)
  have hd: "head_of ?h 1 = \<lparr>dh_author = 1, dh_hash = 21211, dh_height = 1, dh_epoch = 1\<rparr>"
    by (simp add: head_of_def head_height_def head_hash_def extended_def get_block_def)
  have "finite (dom (parties (hs_conf ?h)))" using c test_config_sel by simp
  with made_attestation_covers [OF a] test_order_ok
  have m: "me_heads (ma_envelope att) = map (head_of ?h) (filter (fresh ?h) (sort (get_all_ids sorted_list_of_set test_config)))"
    "me_blames (ma_envelope att) = filter (\<lambda>i. \<not> fresh ?h i) (sort (get_all_ids sorted_list_of_set test_config))"
    "covers_committee test_config att" using c by simp_all
  have "me_heads (ma_envelope att) = [head_of ?h 1]" "me_blames (ma_envelope att) = [0, 2, 3]"
    by (simp_all add: m(1,2) f test_config_sel del: One_nat_def)
  with a m(3) hd show ?thesis by (intro exI [of _ att]) simp
qed

text \<open>A proposal marks every head as attested, whether or not it is ever committed: right after a
  replica has proposed, no author counts as having new data, so its next attestation blames everyone.\<close>

theorem proposal_hides_heads:
  assumes "h_new_sig_round P h = (Ok (), h')" "i \<in> set (get_all_ids (hp_order P) (hs_conf h))"
  shows "hs_chain h' = hs_chain h \<and> \<not> fresh h' i"
proof -
  have fold: "foldl (\<lambda>m i. m(i \<mapsto> f i)) m ids i = (if i \<in> set ids then Some (f i) else m i)"
    for f :: "node_id \<Rightarrow> nat" and m :: "node_id \<rightharpoonup> nat" and ids
    by (induction ids arbitrary: m) auto
  from assms(1) obtain h1 where h1: "h' = note_attested P h1" "hs_chain h1 = hs_chain h" "hs_conf h1 = hs_conf h"
    by (auto simp: h_new_sig_round_def Let_def bind_s_def h_loop_send_def h_broadcast_def
        split: outcome.splits if_splits)
  show ?thesis using assms(2) h1 by (simp add: fresh_def note_attested_def fold)
qed

theorem proposal_hides_heads_witness:
  "\<exists>h'. h_new_sig_round (ht_params True) ((ht_start 2)\<lparr>hs_chain := extended htest hb1 ht_chain\<rparr>) = (Ok (), h') \<and>
    fresh ((ht_start 2)\<lparr>hs_chain := extended htest hb1 ht_chain\<rparr>) 1 \<and> \<not> fresh h' 1"
proof -
  let ?h = "(ht_start 2)\<lparr>hs_chain := extended htest hb1 ht_chain\<rparr>"
  have c: "hs_conf ?h = test_config" "hs_prev ?h = Map.empty" "hs_loopback_open ?h" by (simp_all add: ht_start_def)
  have "fst (h_new_sig_round (ht_params True) ?h) = Ok ()"
    using c(3) by (simp add: h_new_sig_round_def make_multi_attestation_def signature_new_def bind_s_def h_loop_send_def
        h_broadcast_def Let_def case_prod_beta)
  then obtain h' where h': "h_new_sig_round (ht_params True) ?h = (Ok (), h')" by (metis prod.collapse)
  have "1 \<in> set (get_all_ids (hp_order (ht_params True)) (hs_conf ?h))" using c by (simp add: test_config_sel)
  with proposal_hides_heads [OF h'] have "\<not> fresh h' 1" by blast
  moreover have "fresh ?h 1" using c by (simp add: fresh_def head_height_def head_hash_def extended_def)
  ultimately show ?thesis using h' by blast
qed

text \<open>C33. The height an attestation claims for a head is never compared with the block: an attestation of
  a committed block with a larger height is valid, commits nothing and raises the author's
  committed height, and from then on no block of that author up to the claimed height is committed.\<close>

theorem head_height_unchecked:
  assumes "me_heads (ma_envelope att) = [e]" "mc_store (hs_chain h) (dh_hash e) = Some b"
    and "b_height b \<le> committed_height (dh_author e) (hs_chain h)"
    and "committed_height (dh_author e) (hs_chain h) < dh_height e"
    and "\<not> hp_debug P" "hs_data_open h"
  shows "missing_head (me_heads (ma_envelope att)) (hs_chain h) = None \<and>
    (\<exists>h'. hera_step P (HCommitted (Some att)) h = (HContinue, h') \<and> hs_data_commit h' = hs_data_commit h \<and>
      (\<forall>att'. list_all (\<lambda>e'. dh_author e' = dh_author e \<and> dh_height e' \<le> dh_height e) (me_heads (ma_envelope att')) \<longrightarrow>
         hs_data_commit (snd (hera_step P (HCommitted (Some att')) h')) = hs_data_commit h'))"
proof -
  let ?w = "watermarks (hs_chain h) (dh_author e)"
  have w: "?w = committed_height (dh_author e) (hs_chain h)" by (simp add: watermarks_def)
  have "walk_turn (hs_chain h) ?w ([], dh_hash e) = Inr []" using assms(2,3) w by (simp add: walk_turn_def)
  then have "walk_range (dh_hash e) ?w (dh_height e) (hs_chain h) = Some []"
    by (simp add: walk_range_def run_loop_Inr)
  with commit_single_head [OF assms(1) _ assms(6), of P "[]"] assms(4,5) w obtain h' where
    h': "hera_step P (HCommitted (Some att)) h = (HContinue, h')" "hs_data_commit h' = hs_data_commit h"
      "watermarks (hs_chain h') (dh_author e) = dh_height e"
    by (auto simp: blocks_linked_def)
  have skip: "commit_heads P es g = Some (Ok (), g)"
    if "list_all (\<lambda>e'. dh_author e' = dh_author e \<and> dh_height e' \<le> dh_height e) es"
      "committed_height (dh_author e) (hs_chain g) = dh_height e" for es g
    using that(1) by (induction es) (simp_all add: that(2) Let_def)
  have "hs_data_commit (snd (hera_step P (HCommitted (Some att')) h')) = hs_data_commit h'"
    if "list_all (\<lambda>e'. dh_author e' = dh_author e \<and> dh_height e' \<le> dh_height e) (me_heads (ma_envelope att'))" for att'
  proof -
    let ?g = "h'\<lparr>hs_max_heads := max (hs_max_heads h') (length (me_heads (ma_envelope att')))\<rparr>"
    have "commit_heads P (sort_key dh_author (me_heads (ma_envelope att'))) ?g = Some (Ok (), ?g)"
      by (rule skip) (use that h'(3) in \<open>simp_all add: list_all_iff watermarks_def\<close>)
    then show ?thesis using assms(5) by (simp add: hera_step_def h_on_committed_def Let_def)
  qed
  moreover have "missing_head (me_heads (ma_envelope att)) (hs_chain h) = None"
    using assms(1,2) by simp
  ultimately show ?thesis using h' by blast
qed

text \<open>The witness: the genesis block with height 9 silences author 1.\<close>

theorem head_height_unchecked_witness:
  "\<exists>h'. hera_step (ht_params False) (HCommitted (Some (htest_att 1 3 [\<lparr>dh_author = 1, dh_hash = 20000, dh_height = 9, dh_epoch = 1\<rparr>] [0, 2, 3])))
      ((ht_start 2)\<lparr>hs_chain := extended htest hb1 ht_chain\<rparr>) = (HContinue, h') \<and>
    hs_data_commit (snd (hera_step (ht_params False) (HCommitted (Some ht_att1)) h')) = []"
proof -
  let ?e = "\<lparr>dh_author = 1, dh_hash = 20000, dh_height = 9, dh_epoch = 1\<rparr>"
  let ?h = "(ht_start 2)\<lparr>hs_chain := extended htest hb1 ht_chain\<rparr>"
  have w: "committed_height 1 (extended htest hb1 ht_chain) = 0" by (simp add: committed_height_def extended_def)
  have st: "mc_store (extended htest hb1 ht_chain) 20000 = Some data_genesis" by (simp add: extended_def)
  have r: "hs_data_open (ht_start 2)" "hs_data_commit (ht_start 2) = []" by (simp_all add: ht_start_def)
  have "\<exists>h'. hera_step (ht_params False) (HCommitted (Some (htest_att 1 3 [?e] [0, 2, 3]))) ?h = (HContinue, h') \<and>
      hs_data_commit h' = hs_data_commit ?h \<and>
      (\<forall>att'. list_all (\<lambda>e'. dh_author e' = dh_author ?e \<and> dh_height e' \<le> dh_height ?e) (me_heads (ma_envelope att')) \<longrightarrow>
         hs_data_commit (snd (hera_step (ht_params False) (HCommitted (Some att')) h')) = hs_data_commit h')"
    by (rule head_height_unchecked [where b = data_genesis, THEN conjunct2])
       (simp_all add: w st r data_genesis_def del: One_nat_def)
  then obtain h' where h': "hera_step (ht_params False) (HCommitted (Some (htest_att 1 3 [?e] [0, 2, 3]))) ?h = (HContinue, h')"
    "hs_data_commit h' = []"
    "\<forall>att'. list_all (\<lambda>e'. dh_author e' = dh_author ?e \<and> dh_height e' \<le> dh_height ?e) (me_heads (ma_envelope att')) \<longrightarrow>
         hs_data_commit (snd (hera_step (ht_params False) (HCommitted (Some att')) h')) = hs_data_commit h'"
    by (auto simp: r simp del: One_nat_def)
  from h'(3) [rule_format, of ht_att1] h'(1,2) show ?thesis by (auto simp del: One_nat_def)
qed

subsection \<open>Where blocks and attestations are not tied to their makers\<close>

text \<open>C31. A block's hash covers its envelope but not its author, and the map from parents to children is
  shared by all authors. If another node re-signs an author's first block under its own name and is
  faster, the author's own block is dropped as a duplicate, and its second block moves the author's
  head to whichever first block was stored last: another author's.\<close>

theorem copied_block_diverts_head:
  assumes "db_envelope copy = db_envelope c1" "b_author c1 = i" "b_author c2 = i" "b_author copy = j" "b_author b = k"
    and "{i, j, k} \<subseteq> set ids" "distinct [i, j, k]"
    and "b_parent c1 = hera_genesis_hash he" "b_parent b = hera_genesis_hash he" "b_parent c2 = hera_block_hash he c1"
    and "distinct [hera_genesis_hash he, hera_block_hash he c1, hera_block_hash he b, hera_block_hash he c2]"
  shows "\<exists>mc. deliver_all he [copy, b, c1, c2] (multi_chain_new he ids) = Some mc \<and>
    head_hash i mc = Some (hera_block_hash he b) \<and> head_height i mc = b_height b"
proof -
  let ?g = "hera_genesis_hash he" and ?h1 = "hera_block_hash he c1" and ?hb = "hera_block_hash he b"
    and ?h2 = "hera_block_hash he c2"
  let ?m0 = "multi_chain_new he ids"
  have m0: "mc_heads ?m0 a = (if a \<in> set ids then Some ?g else None)" "mc_store ?m0 = [?g \<mapsto> data_genesis]"
    "mc_pending ?m0 = Map.empty" "mc_child_of ?m0 = Map.empty" for a
    by (simp_all add: multi_chain_new_def Let_def const_map_apply)
  have hc: "hera_block_hash he copy = ?h1" "b_parent copy = ?g" using assms(1,8) by (simp_all add: hera_block_hash_def)
  have d: "?h1 \<noteq> ?g" "?hb \<noteq> ?g" "?hb \<noteq> ?h1" "?h2 \<noteq> ?g" "?h2 \<noteq> ?h1" "?h2 \<noteq> ?hb" using assms(11) by auto
  let ?m1 = "extended he copy ?m0" and ?m2 = "extended he b (extended he copy ?m0)"
  have s1: "admit_typed he copy ?m0 = Some (Extended, ?m1)"
    using hc d m0 assms(4,6) by (intro admit_extends) simp_all
  have s2: "admit_typed he b ?m1 = Some (Extended, ?m2)"
    using hc d m0 assms(4-7,9) by (intro admit_extends) (simp_all add: extended_def)
  have m2: "mc_heads ?m2 i = Some ?g" "mc_child_of ?m2 = [?g \<mapsto> ?hb]" "mc_pending ?m2 = Map.empty"
    "mc_store ?m2 = [?g \<mapsto> data_genesis, ?h1 \<mapsto> copy, ?hb \<mapsto> b]"
    using hc m0 assms(4-7,9) by (simp_all add: extended_def fun_upd_twist)
  have s3: "admit_typed he c1 ?m2 = Some (Duplicate, ?m2)"
    using m2(4) d by (simp add: admit_typed_def Let_def)
  let ?s = "store_block ?h2 c2 ?h1 ?m2" and ?m3 = "move_head i ?hb (b_height b) (store_block ?h2 c2 ?h1 ?m2)"
  have "advance_turn i ?s = Inl ?m3" "advance_turn i ?m3 = Inr ?m3"
    using m2 d by (simp_all add: advance_turn_def)
  then have adv: "hera_advance_head i ?s = Some ?m3"
    by (simp add: hera_advance_head_def run_loop_Inl run_loop_Inr)
  have "(mc_pending ?m3)(?hb := None) = mc_pending ?m3" using m2(3) by simp
  then have "drain_turn he i ?m3 = Inr ?m3" using m2(3) by (simp add: drain_turn_def)
  then have dr: "drain_pending_for_author he i ?m3 = Some ?m3" by (simp add: drain_pending_for_author_def run_loop_Inr)
  have s4: "admit_typed he c2 ?m2 = Some (Bridge, ?m3)"
    using m2 d adv dr assms(3,10) by (simp add: admit_typed_def Let_def)
  have "deliver_all he [copy, b, c1, c2] ?m0 = Some ?m3" by (simp add: s1 s2 s3 s4)
  then show ?thesis by (intro exI [of _ ?m3]) (simp add: head_hash_def head_height_def)
qed

text \<open>The witness: all four blocks are correctly signed; node 3 copies the first block of author 1.\<close>

theorem copied_block_diverts_head_witness:
  "list_all (block_signed (ht_params False) test_keys)
     [htest_block 3 1 20000 [5, 6], htest_block 0 1 20000 [1], hb1, htest_block 1 2 21211 [7]] \<and>
   (\<exists>mc. deliver_all htest [htest_block 3 1 20000 [5, 6], htest_block 0 1 20000 [1], hb1, htest_block 1 2 21211 [7]]
      (multi_chain_new htest [0, 1, 2, 3]) = Some mc \<and>
    head_hash 1 mc = Some (htest_hash (HSBlockEnv (db_envelope (htest_block 0 1 20000 [1])))))"
proof
  show "list_all (block_signed (ht_params False) test_keys)
     [htest_block 3 1 20000 [5, 6], htest_block 0 1 20000 [1], hb1, htest_block 1 2 21211 [7]]"
    by (simp add: htest_block_signed)
  have "\<exists>mc. deliver_all htest [htest_block 3 1 20000 [5, 6], htest_block 0 1 20000 [1], hb1, htest_block 1 2 21211 [7]]
      (multi_chain_new htest [0, 1, 2, 3]) = Some mc \<and>
    head_hash 1 mc = Some (hera_block_hash htest (htest_block 0 1 20000 [1])) \<and>
    head_height 1 mc = b_height (htest_block 0 1 20000 [1])"
    by (rule copied_block_diverts_head [where j = 3 and k = 0]) simp_all
  then show "\<exists>mc. deliver_all htest [htest_block 3 1 20000 [5, 6], htest_block 0 1 20000 [1], hb1, htest_block 1 2 21211 [7]]
      (multi_chain_new htest [0, 1, 2, 3]) = Some mc \<and>
    head_hash 1 mc = Some (htest_hash (HSBlockEnv (db_envelope (htest_block 0 1 20000 [1]))))"
    by (simp only: htest_sel) blast
qed

text \<open>Ending a round leaves the chain state alone.\<close>

lemma bind_s_keeps:
  assumes "f (snd (m h)) = f h" "\<And>a h'. f (snd (k a h')) = f h'"
  shows "f (snd (bind_s m k h)) = f h"
  using assms(1) by (cases "m h"; cases "fst (m h)") (auto simp: bind_s_def assms(2))

lemma cs_new_sig_round: "hs_cs (snd (h_new_sig_round P h)) = hs_cs h"
  by (simp add: h_new_sig_round_def Let_def bind_s_def h_loop_send_def h_broadcast_def note_attested_def
      split: outcome.split)

lemma cs_propose_if_leader: "hs_cs (snd (h_propose_if_leader P h)) = hs_cs h"
  using cs_new_sig_round [of P h] by (auto simp: h_propose_if_leader_def split: prod.split outcome.split)

lemma cs_advance: "hs_cs (snd (h_advance_sig_round P h)) = hs_cs h"
  unfolding h_advance_sig_round_def
proof (intro bind_s_keeps)
  show "hs_cs (snd (h_advance_rounds P h)) = hs_cs h"
    by (simp add: h_advance_rounds_def split: outcome.split prod.split)
qed (simp_all add: h_try_commit_def cs_propose_if_leader)

text \<open>C32. The attestation that comes with a proposal is checked for itself only: neither the batch hash
  the leader signed nor the leader itself is compared with it. Of two valid attestations that come
  with the same signed proposal a replica takes either, so replicas that got different ones end on
  different elements.\<close>

theorem attestation_swap_forks:
  assumes "p_round p = hr_round (hs_rs h)" "h_check_leader P p auth h = Ok ()"
    and "multi_attestation_valid P att (HSigPropose p auth att s) h = (MaValid, h)"
    and "multi_attestation_valid P att' (HSigPropose p auth att' s) h = (MaValid, h)"
    and "get_element (h_env (hp_env P)) (hs_cs h) (parent_hash p) = Ok (Some par)"
  shows "cs_highest_element (hs_cs (snd (h_sig_proposal P p auth att s h))) = element_new p auth [att] \<and>
    cs_highest_element (hs_cs (snd (h_sig_proposal P p auth att' s h))) = element_new p auth [att']"
proof -
  have "cs_highest_element (hs_cs (snd (h_on_correct_proposal P p auth a h))) = element_new p auth [a]" for a
    by (simp add: h_on_correct_proposal_def Let_def cs_advance)
  with assms show ?thesis by (simp add: h_sig_proposal_def Let_def)
qed

text \<open>The witness: node 0 leads the first round; its signed proposal is accepted with its own attestation
  and with one that node 3 made.\<close>

abbreviation "ht_prop \<equiv> \<lparr>p_block = \<lparr>batch_hash = htest_hash (HSMulti (ma_envelope ht_att1)), prev_hash = 1000\<rparr>, p_qc = None, p_round = 1\<rparr>"
abbreviation "ht_auth \<equiv> \<lparr>sig_raw = [0, ucast (htest_hash (HSProposal ht_prop))], sig_id = 0\<rparr>"
abbreviation "ht_att3 \<equiv> htest_att 1 3 [] [0, 1, 2, 3]"

theorem attestation_swap_forks_witness:
  "\<exists>h. hera_run (ht_params False) (ht_start 2) [hb1] h \<and>
    cs_highest_element (hs_cs (snd (h_sig_proposal (ht_params False) ht_prop ht_auth ht_att1 0 h))) \<noteq>
    cs_highest_element (hs_cs (snd (h_sig_proposal (ht_params False) ht_prop ht_auth ht_att3 0 h)))"
proof -
  let ?h = "(ht_start 2)\<lparr>hs_chain := extended htest hb1 ht_chain\<rparr>"
  have v: "hs_id ?h = 2" "hs_system ?h = test_keys" "hs_lc ?h = test_leader" "hr_round (hs_rs ?h) = 1"
    "cs_db (hs_cs ?h) = [1000 \<mapsto> HSElement (element_genesis 0)]"
    by (simp_all add: ht_start_def hr_new_def)
  have l: "h_check_leader (ht_params False) ht_prop ht_auth ?h = Ok ()"
    using v by (simp add: h_check_leader_def h_prop_hash_def leader_def test_leader_def test_keys_def
        signature_verify_def verify_without_id_check_def Let_def)
  have a: "multi_attestation_valid (ht_params False) ht_att1 m ?h = (MaValid, ?h)" for m
    using v by (simp add: multi_attestation_valid_def test_keys_def extended_def) (simp add: htest_att_def Let_def)
  have a3: "multi_attestation_valid (ht_params False) ht_att3 m ?h = (MaValid, ?h)" for m
    using v by (simp add: multi_attestation_valid_def test_keys_def) (simp add: htest_att_def Let_def)
  have g: "get_element (h_env (hp_env (ht_params False))) (hs_cs ?h) (parent_hash ht_prop) = Ok (Some (element_genesis 0))"
    using v by (simp add: get_element_def parent_hash_def)
  have "p_round ht_prop = hr_round (hs_rs ?h)" using v by simp
  from attestation_swap_forks [OF this l a a3 g]
  have "cs_highest_element (hs_cs (snd (h_sig_proposal (ht_params False) ht_prop ht_auth ht_att1 0 ?h))) = element_new ht_prop ht_auth [ht_att1]"
    "cs_highest_element (hs_cs (snd (h_sig_proposal (ht_params False) ht_prop ht_auth ht_att3 0 ?h))) = element_new ht_prop ht_auth [ht_att3]"
    by blast+
  moreover have "element_new ht_prop ht_auth [ht_att1] \<noteq> element_new ht_prop ht_auth [ht_att3]"
    by (simp add: element_new_def htest_att_def Let_def)
  ultimately show ?thesis using ht_run1 by metis
qed

text \<open>A missing element is asked for once. While the answer is outstanding, further proposals that miss
  it are parked without another request, so a request or an answer that the network drops is never
  repeated and the proposals wait for ever.\<close>

theorem element_requested_once:
  assumes "parent_hash p \<in> hs_pend_req h"
    and "get_element (h_env (hp_env P)) (hs_cs h) (parent_hash p) = Ok None"
    and "p_round p = hr_round (hs_rs h)" "h_check_leader P p auth h = Ok ()"
    and "multi_attestation_valid P att (HSigPropose p auth att s) h = (MaValid, h)"
  shows "h_sig_proposal P p auth att s h =
    (Ok (), h\<lparr>hs_pend_prop := push_entry (parent_hash p) (HSigPropose p auth att s) (hs_pend_prop h)\<rparr>)"
  using assms by (simp add: h_sig_proposal_def h_element_request_def Let_def)

abbreviation "ht_prop2 \<equiv> \<lparr>p_block = \<lparr>batch_hash = 0, prev_hash = 77\<rparr>, p_qc = None, p_round = 1\<rparr>"
abbreviation "ht_auth2 \<equiv> \<lparr>sig_raw = [0, ucast (htest_hash (HSProposal ht_prop2))], sig_id = 0\<rparr>"

theorem element_requested_once_witness:
  "hs_out (snd (h_sig_proposal (ht_params False) ht_prop2 ht_auth2 ht_att3 0 ((ht_start 2)\<lparr>hs_pend_req := {77}\<rparr>))) = []"
proof -
  let ?h = "(ht_start 2)\<lparr>hs_pend_req := {77}\<rparr>"
  have v: "hs_id ?h = 2" "hs_system ?h = test_keys" "hs_lc ?h = test_leader" "hr_round (hs_rs ?h) = 1"
    "cs_db (hs_cs ?h) = [1000 \<mapsto> HSElement (element_genesis 0)]" "hs_out ?h = []"
    by (simp_all add: ht_start_def hr_new_def)
  have l: "h_check_leader (ht_params False) ht_prop2 ht_auth2 ?h = Ok ()"
    using v by (simp add: h_check_leader_def h_prop_hash_def leader_def test_leader_def test_keys_def
        signature_verify_def verify_without_id_check_def Let_def)
  have a3: "multi_attestation_valid (ht_params False) ht_att3 m ?h = (MaValid, ?h)" for m
    using v by (simp add: multi_attestation_valid_def test_keys_def) (simp add: htest_att_def Let_def)
  have g: "get_element (h_env (hp_env (ht_params False))) (hs_cs ?h) (parent_hash ht_prop2) = Ok None"
    using v by (simp add: get_element_def parent_hash_def)
  have "parent_hash ht_prop2 \<in> hs_pend_req ?h" "p_round ht_prop2 = hr_round (hs_rs ?h)"
    using v by (simp_all add: parent_hash_def)
  from element_requested_once [OF this(1) g this(2) l a3] v(6) show ?thesis by simp
qed

text \<open>An element that fills a gap releases the proposals that waited for it even when its own parent is
  missing as well, so a proposal can be accepted on top of a chain with a gap.\<close>

theorem gap_proposals_released:
  assumes "hs_pend_prop h d = Some ms" "d = ser_and_hash (crypt (h_env (hp_env P))) (cd_element (h_env (hp_env P))) el"
    and "get_element (h_env (hp_env P)) (hs_cs h) (parent_hash (el_proposal el)) = Ok None" "hs_loopback_open h"
  shows "hs_loopback (snd (h_on_element_response P el h)) = hs_loopback h @ ms"
proof -
  have r: "hs_loopback (h_replay ms g) = hs_loopback g @ ms" if "hs_loopback_open g" for g ms
    using that by (induction ms arbitrary: g) (simp_all add: h_replay_def h_loop_send_def)
  have q: "hs_loopback (h_element_request x g) = hs_loopback g" "hs_loopback_open (h_element_request x g) = hs_loopback_open g"
    "hs_pend_prop (h_element_request x g) = hs_pend_prop g" for x g
    by (simp_all add: h_element_request_def h_broadcast_def)
  from assms show ?thesis
    by (simp add: h_on_element_response_def Let_def h_drain_proposals_def q r entry_list_def)
qed

abbreviation "ht_gap \<equiv> \<lparr>el_proposal = ht_prop2, el_auth = ht_auth2, el_batch = [ht_att3]\<rparr>"

theorem gap_proposals_released_witness:
  "hs_loopback (snd (h_on_element_response (ht_params False) ht_gap
     ((ht_start 2)\<lparr>hs_pend_prop := [1100 \<mapsto> [HSigPropose ht_prop ht_auth ht_att1 0]]\<rparr>))) = [HSigPropose ht_prop ht_auth ht_att1 0]"
proof -
  let ?h = "(ht_start 2)\<lparr>hs_pend_prop := [1100 \<mapsto> [HSigPropose ht_prop ht_auth ht_att1 0]]\<rparr>"
  have v: "cs_db (hs_cs ?h) = [1000 \<mapsto> HSElement (element_genesis 0)]" "hs_loopback_open ?h" "hs_loopback ?h = []"
    by (simp_all add: ht_start_def)
  have "hs_loopback (snd (h_on_element_response (ht_params False) ht_gap ?h)) = hs_loopback ?h @ [HSigPropose ht_prop ht_auth ht_att1 0]"
    by (rule gap_proposals_released [where d = 1100]) (use v in \<open>simp_all add: get_element_def parent_hash_def\<close>)
  with v(3) show ?thesis by simp
qed

text \<open>When the commit task has ended, its closed channel is always ready, and the loop prefers it to
  messages: whatever waits, every turn reads the end of the channel again and nothing else is ever
  handled, except an exit or the round timer.\<close>

theorem closed_commit_channel_starves:
  assumes "in_exit inp = None" "\<not> (in_tick inp \<and> tm_enabled (hs_timer h))"
    and "ch_msgs (in_committed inp) = []" "\<not> ch_open (in_committed inp)"
  shows "hera_turn P (inp, h) = (HContinue, inp, h)"
proof -
  have "hera_select inp h = Some (HCommitted None)"
    using assms by (auto simp: hera_select_def ch_ready_def ch_peek_def)
  moreover have "hera_consume (HCommitted None) inp = inp"
    using assms(3) by (cases inp; cases "in_committed inp") (simp add: hera_consume_def ch_take_def)
  ultimately show ?thesis by (simp add: hera_turn_def hera_step_def)
qed

theorem closed_commit_channel_starves_witness:
  "\<exists>inp. ch_msgs (in_sig inp) = [HSigPropose ht_prop ht_auth ht_att1 0] \<and>
    hera_turn (ht_params False) (inp, ht_start 2) = (HContinue, inp, ht_start 2)"
proof -
  let ?inp = "\<lparr>in_exit = None, in_tick = False, in_committed = \<lparr>ch_msgs = [], ch_open = False\<rparr>,
    in_sig = \<lparr>ch_msgs = [HSigPropose ht_prop ht_auth ht_att1 0], ch_open = True\<rparr>,
    in_batch = \<lparr>ch_msgs = [], ch_open = True\<rparr>, in_data = \<lparr>ch_msgs = [], ch_open = True\<rparr>, in_bench = False\<rparr>"
  have "hera_turn (ht_params False) (?inp, ht_start 2) = (HContinue, ?inp, ht_start 2)"
    by (rule closed_commit_channel_starves) simp_all
  then show ?thesis by (intro exI [of _ ?inp]) simp
qed

end
