(* ===== verification/WireInts.thy ===== *)
theory WireInts
  imports Prelude
begin

section \<open>Integers on the wire\<close>

text \<open>Integers as bytes: most significant byte first, as \<^verbatim>\<open>write_u32\<close> and \<^verbatim>\<open>write_u64\<close> send them,
  and least significant byte first, as \<^verbatim>\<open>to_le_bytes\<close> gives them.\<close>

unbundle bit_operations_syntax

definition word_be :: "nat \<Rightarrow> 'a::len word \<Rightarrow> bytes" where
  "word_be n w = map (\<lambda>i. ucast (drop_bit (8 * i) w)) (rev [0..<n])"

definition word_of_be :: "bytes \<Rightarrow> 'a::len word" where
  "word_of_be bs = foldl (\<lambda>acc b. push_bit 8 acc OR ucast b) 0 bs"

lemma length_word_be [simp]: "length (word_be n w) = n"
  by (simp add: word_be_def)

lemma word_be_fold:
  fixes w acc :: "'a::len word"
  shows "foldl (\<lambda>acc b. push_bit 8 acc OR ucast b) acc (word_be n w) = push_bit (8 * n) acc OR take_bit (8 * n) w"
proof (induction n arbitrary: acc)
  case (Suc n)
  have "word_be (Suc n) w = ucast (drop_bit (8 * n) w) # word_be n w" by (simp add: word_be_def)
  then show ?case
    by (simp add: Suc.IH) (rule bit_word_eqI, auto simp: bit_simps ac_simps)
qed (simp add: word_be_def)

lemma word_be_roundtrip [simp]:
  fixes w :: "'a::len word"
  assumes "LENGTH('a) = 8 * n"
  shows "word_of_be (word_be n w) = w"
proof -
  have "take_bit (8 * n) w = w" by (rule bit_word_eqI) (simp add: bit_simps assms [symmetric])
  then show ?thesis by (simp add: word_of_be_def word_be_fold)
qed

definition word_le :: "nat \<Rightarrow> 'a::len word \<Rightarrow> bytes" where
  "word_le n w = rev (word_be n w)"

definition word_of_le :: "bytes \<Rightarrow> 'a::len word" where
  "word_of_le bs = word_of_be (rev bs)"

lemma length_word_le [simp]: "length (word_le n w) = n"
  by (simp add: word_le_def)

lemma word_le_roundtrip [simp]: "LENGTH('a) = 8 * n \<Longrightarrow> word_of_le (word_le n (w :: 'a::len word)) = w"
  by (simp add: word_le_def word_of_le_def)

end
