(* ===== verification/HeraNet.thy ===== *)
theory HeraNet
  imports WireInts "HOL-Library.Sublist"
begin

section \<open>Hera's connections\<close>

text \<open>
  \<^verbatim>\<open>server/hera/net\<close>: frames and pings on the byte stream of a connection, the handshake that
  routes an accepted socket, the workers that keep one connection per peer, and the facade that
  sheds load. A socket is the stream of bytes that have arrived; a task that waits for more bytes
  keeps what it has. Delays are not modelled.
\<close>

subsection \<open>Frames and pings\<close>

definition MAX_SIZE :: nat where
  "MAX_SIZE = 16 * 1024 * 1024"

definition encode_frame :: "bytes \<Rightarrow> bytes" where
  "encode_frame f = word_be 4 (of_nat (length f) :: 32 word) @ f"

text \<open>Four zero bytes, which read as an empty frame, and the time, least significant byte first.\<close>

definition encode_ping :: "64 word \<Rightarrow> bytes" where
  "encode_ping m = replicate 4 0 @ word_le 8 m"

definition decode_ping :: "bytes \<Rightarrow> 64 word" where
  "decode_ping bs = word_of_le bs"

lemma decode_ping_bytes [simp]: "decode_ping (word_le 8 m) = m"
  by (simp add: decode_ping_def)

datatype wire_item = WFrame bytes | WPing "64 word"

datatype read_state = RWaiting bytes | RBroken

text \<open>The read loop on the bytes that have arrived: what it has read, and where it stands.\<close>

function read_items :: "bytes \<Rightarrow> wire_item list \<times> read_state" where
  "read_items bs =
     (if length bs < 4 then ([], RWaiting bs)
      else let size = unat (word_of_be (take 4 bs) :: 32 word); rest = drop 4 bs in
        if MAX_SIZE < size then ([], RBroken)
        else if size = 0 then
          (if length rest < 8 then ([], RWaiting bs)
           else let (its, st) = read_items (drop 8 rest) in (WPing (decode_ping (take 8 rest)) # its, st))
        else if length rest < size then ([], RWaiting bs)
        else let (its, st) = read_items (drop size rest) in (WFrame (take size rest) # its, st))"
  by pat_completeness auto
termination by (relation "measure length") auto

declare read_items.simps [simp del]

definition encode_item :: "wire_item \<Rightarrow> bytes" where
  "encode_item it = (case it of WFrame f \<Rightarrow> encode_frame f | WPing m \<Rightarrow> encode_ping m)"

text \<open>The frames the reader takes: not empty and not too large.\<close>

definition item_ok :: "wire_item \<Rightarrow> bool" where
  "item_ok it = (case it of WFrame f \<Rightarrow> f \<noteq> [] \<and> length f \<le> MAX_SIZE | WPing m \<Rightarrow> True)"

lemma unat_frame_len: "length f \<le> MAX_SIZE \<Longrightarrow> unat (of_nat (length f) :: 32 word) = length f"
  by (simp add: MAX_SIZE_def unat_of_nat)

lemma zero_size: "word_of_be (replicate 4 0 :: bytes) = (0 :: 32 word)"
  by (simp add: word_of_be_def numeral_eq_Suc)

lemma read_item:
  assumes "item_ok it"
  shows "read_items (encode_item it @ rest) = (it # fst (read_items rest), snd (read_items rest))"
proof (cases it)
  case (WFrame f)
  with assms have f: "f \<noteq> []" "length f \<le> MAX_SIZE" by (simp_all add: item_ok_def)
  then show ?thesis
    by (subst read_items.simps)
       (simp add: WFrame encode_item_def encode_frame_def unat_frame_len case_prod_beta Let_def)
next
  case (WPing m)
  then show ?thesis
    by (subst read_items.simps)
       (simp add: encode_item_def encode_ping_def zero_size case_prod_beta Let_def)
qed

text \<open>Of an item that has not arrived completely nothing is read.\<close>

lemma read_part:
  assumes "item_ok it" "n < length (encode_item it)"
  shows "read_items (take n (encode_item it)) = ([], RWaiting (take n (encode_item it)))"
proof (cases "n < 4")
  case True
  then have "length (take n (encode_item it)) < 4" by simp
  then show ?thesis by (subst read_items.simps) (simp only: if_True)
next
  case False
  show ?thesis
  proof (cases it)
    case (WFrame f)
    have "n - 4 < length f" using assms(2) False WFrame by (simp add: encode_item_def encode_frame_def)
    with assms False WFrame show ?thesis
      by (subst read_items.simps)
         (simp add: item_ok_def encode_item_def encode_frame_def unat_frame_len Let_def)
  next
    case (WPing m)
    have "n - 4 < 8" using assms(2) False WPing by (simp add: encode_item_def encode_ping_def)
    with assms False WPing show ?thesis
      by (subst read_items.simps) (simp add: encode_item_def encode_ping_def zero_size Let_def)
  qed
qed

definition stream :: "wire_item list \<Rightarrow> bytes" where
  "stream its = concat (map encode_item its)"

lemma stream_simps [simp]: "stream [] = []" "stream (it # its) = encode_item it @ stream its"
  by (simp_all add: stream_def)

text \<open>However much of a stream has arrived, a prefix of its items has been read.\<close>

lemma read_prefix:
  "list_all item_ok its \<Longrightarrow> \<exists>k rest. read_items (take n (stream its)) = (take k its, RWaiting rest) \<and>
    (length (stream its) \<le> n \<longrightarrow> k = length its \<and> rest = [])"
proof (induction its arbitrary: n)
  case Nil
  then show ?case by (subst read_items.simps) (simp add: exI [of _ 0])
next
  case (Cons it its)
  have ok: "item_ok it" "list_all item_ok its" using Cons.prems by simp_all
  show ?case
  proof (cases "n < length (encode_item it)")
    case True
    with read_part [OF ok(1) True] show ?thesis by (intro exI [of _ 0]) simp
  next
    case False
    from Cons.IH [OF ok(2), of "n - length (encode_item it)"] obtain k rest where
      k: "read_items (take (n - length (encode_item it)) (stream its)) = (take k its, RWaiting rest)"
        "length (stream its) \<le> n - length (encode_item it) \<longrightarrow> k = length its \<and> rest = []" by blast
    have "read_items (take n (stream (it # its))) = (take (Suc k) (it # its), RWaiting rest)"
      using False read_item [OF ok(1)] k(1) by simp
    with False k(2) show ?thesis by (intro exI [of _ "Suc k"] exI [of _ rest]) auto
  qed
qed

subsection \<open>The two tasks of a connection\<close>

text \<open>The reader hands frames to the inbound channel and pings to a channel of 150, from which the
  writer takes them; a ping that does not fit is dropped.\<close>

definition PONG_CAPACITY :: nat where
  "PONG_CAPACITY = 150"

record conn_reader =
  cr_inbound :: "bytes list"
  cr_pongs :: "64 word list"

definition read_deliver :: "wire_item \<Rightarrow> conn_reader \<Rightarrow> conn_reader" where
  "read_deliver it r = (case it of
     WFrame f \<Rightarrow> r\<lparr>cr_inbound := cr_inbound r @ [f]\<rparr>
   | WPing m \<Rightarrow> if length (cr_pongs r) < PONG_CAPACITY then r\<lparr>cr_pongs := cr_pongs r @ [m]\<rparr> else r)"

definition MAX_LATENCY :: nat where
  "MAX_LATENCY = 5000000"

text \<open>Negation of an \<^verbatim>\<open>i64\<close> that fails on the least value.\<close>

definition checked_neg :: "64 word \<Rightarrow> 64 word option" where
  "checked_neg w = (if sint w = - (2 ^ 63) then None else Some (- w))"

datatype write_event = PingDue | PongTaken "64 word option" | FrameTaken "bytes option"

datatype write_result = Written bytes | Stopped | WPanic

text \<open>One turn of the writer, \<open>elapsed\<close> microseconds after its start.\<close>

definition write_step :: "nat \<Rightarrow> write_event \<Rightarrow> write_result" where
  "write_step elapsed ev = (case ev of
     PingDue \<Rightarrow>
       (let t = of_nat elapsed :: 64 word in if sint t \<le> 0 then WPanic else Written (encode_ping t))
   | PongTaken None \<Rightarrow> Stopped
   | PongTaken (Some ping) \<Rightarrow>
       if ping = 0 then Stopped
       else if 0 < sint ping then
         (case checked_neg ping of Some pong \<Rightarrow> Written (encode_ping pong) | None \<Rightarrow> Stopped)
       else (case checked_neg ping of
         None \<Rightarrow> Stopped
       | Some m \<Rightarrow>
           let our_ping = unat m; time = unat (of_nat elapsed :: 64 word)
           in if time < our_ping then Stopped
              else if MAX_LATENCY \<le> time - our_ping then Stopped
              else Written [])
   | FrameTaken None \<Rightarrow> Stopped
   | FrameTaken (Some f) \<Rightarrow> Written (encode_frame f))"

lemma sint_positive: "0 < t \<Longrightarrow> t < 2 ^ 63 \<Longrightarrow> sint (of_nat t :: 64 word) = int t"
  by (simp add: signed_of_nat signed_take_bit_int_eq_self)

lemma sint_negative: "0 < t \<Longrightarrow> t < 2 ^ 63 \<Longrightarrow> sint (- of_nat t :: 64 word) = - int t"
proof -
  assume t: "0 < t" "t < 2 ^ 63"
  have "(- of_nat t :: 64 word) = word_of_int (- int t)" by simp
  then have "sint (- of_nat t :: 64 word) = signed_take_bit 63 (- int t)"
    by (simp only: signed_of_int) simp
  also have "\<dots> = - int t" using t by (intro signed_take_bit_int_eq_self) simp_all
  finally show ?thesis .
qed

text \<open>A ping is echoed negated; the echo breaks the connection exactly when it took too long.\<close>

lemma write_ping: "0 < t \<Longrightarrow> t < 2 ^ 63 \<Longrightarrow> write_step t PingDue = Written (encode_ping (of_nat t))"
  by (simp add: write_step_def sint_positive Let_def)

lemma write_pong:
  assumes "0 < t" "t < 2 ^ 63"
  shows "write_step e (PongTaken (Some (of_nat t))) = Written (encode_ping (- of_nat t))"
proof -
  have "sint (of_nat t :: 64 word) = int t" using assms by (rule sint_positive)
  moreover from this assms have "(of_nat t :: 64 word) \<noteq> 0" by auto
  ultimately show ?thesis using assms by (simp add: write_step_def checked_neg_def)
qed

lemma write_rtt:
  assumes "0 < t" "t < 2 ^ 63" "t \<le> t'" "t' < 2 ^ 64"
  shows "write_step t' (PongTaken (Some (- of_nat t))) = (if t' - t < MAX_LATENCY then Written [] else Stopped)"
proof -
  have s: "sint (- of_nat t :: 64 word) = - int t" using assms(1,2) by (rule sint_negative)
  then have "(- of_nat t :: 64 word) \<noteq> 0" using assms(1) by auto
  moreover have "unat (of_nat t :: 64 word) = t" "unat (of_nat t' :: 64 word) = t'"
    using assms by (simp_all add: unat_of_nat)
  ultimately show ?thesis using assms s by (simp add: write_step_def checked_neg_def Let_def)
qed

subsection \<open>Handshake and workers\<close>

definition ACTIVE_HANDSHAKE :: "64 word" where
  "ACTIVE_HANDSHAKE = 0xFEFE0000"

definition PASSIVE_HANDSHAKE :: "64 word" where
  "PASSIVE_HANDSHAKE = 0x0000AEAE"

text \<open>What the dialing side sends, and what the server reads of it: \<open>None\<close> while bytes are missing.\<close>

definition active_hello :: "node_id \<Rightarrow> bytes" where
  "active_hello our_id = word_be 8 ACTIVE_HANDSHAKE @ word_be 8 (of_nat our_id :: 64 word)"

definition read_active_handshake :: "bytes \<Rightarrow> node_id outcome option" where
  "read_active_handshake bs =
     (if length bs < 8 then None
      else if (word_of_be (take 8 bs) :: 64 word) \<noteq> ACTIVE_HANDSHAKE then Some (Err DecodeError)
      else if length bs < 16 then None
      else Some (Ok (unat (word_of_be (take 8 (drop 8 bs)) :: 64 word))))"

lemma read_active_hello: "i < 2 ^ 64 \<Longrightarrow> read_active_handshake (active_hello i) = Some (Ok i)"
  by (simp add: read_active_handshake_def active_hello_def unat_of_nat)

text \<open>The workers a node starts, with whether each dials at once.\<close>

definition net_workers :: "socket_addr list \<Rightarrow> node_id \<Rightarrow> (node_id \<times> socket_addr \<times> bool) list outcome" where
  "net_workers addrs our_id =
     (if length addrs \<le> our_id then Panic
      else Ok (map (\<lambda>(i, a). (i, a, i < our_id)) (filter (\<lambda>(i, a). i \<noteq> our_id) (enumerate 0 addrs))))"

text \<open>The server routes an accepted socket to the worker of the announced peer.\<close>

definition accept_socket :: "(node_id \<times> socket_addr \<times> bool) list \<Rightarrow> bytes \<Rightarrow> node_id option" where
  "accept_socket workers bs = (case read_active_handshake bs of
     Some (Ok i) \<Rightarrow> if i \<in> fst ` set workers then Some i else None
   | _ \<Rightarrow> None)"

datatype worker_state = Dialing | Serving | WorkerDone

datatype worker_event = DialOk "64 word" | WorkEnded | SocketRouted | ServerGone

text \<open>One turn of a worker, whether its dial succeeded or a routed socket replaced its work.\<close>

definition worker_step :: "worker_event \<Rightarrow> worker_state \<Rightarrow> worker_state" where
  "worker_step ev st = (if st = WorkerDone then WorkerDone else case ev of
     DialOk reply \<Rightarrow> if st = Dialing \<and> reply = PASSIVE_HANDSHAKE then Serving else st
   | WorkEnded \<Rightarrow> Dialing
   | SocketRouted \<Rightarrow> Serving
   | ServerGone \<Rightarrow> WorkerDone)"

lemma net_workers_pairs:
  assumes "net_workers addrs i = Ok wi" "j < length addrs" "j \<noteq> i"
  shows "(j, addrs ! j, j < i) \<in> set wi"
  using assms by (auto simp: net_workers_def in_set_enumerate_eq split: if_splits
      intro!: image_eqI [of _ _ "(j, addrs ! j)"])

subsection \<open>The facade\<close>

text \<open>
  Every connection has a bounded queue; \<open>hn_taken\<close> is what its writer has taken from it. A message for
  a full or closed queue is dropped.
\<close>

definition CHANNEL_CAPACITY :: nat where
  "CHANNEL_CAPACITY = 1000"

record hera_net =
  hn_peers :: "node_id \<rightharpoonup> nat"
  hn_connected :: nat
  hn_queue :: "nat \<Rightarrow> bytes list"
  hn_open :: "nat \<Rightarrow> bool"
  hn_taken :: "nat \<Rightarrow> bytes list"

definition hera_net_new :: hera_net where
  "hera_net_new = \<lparr>hn_peers = Map.empty, hn_connected = 0, hn_queue = (\<lambda>_. []), hn_open = (\<lambda>_. False),
     hn_taken = (\<lambda>_. [])\<rparr>"

text \<open>A new connection \<open>c\<close> of a peer replaces the one before.\<close>

definition hn_connect :: "node_id \<Rightarrow> nat \<Rightarrow> hera_net \<Rightarrow> hera_net" where
  "hn_connect i c n =
     (let first = (hn_peers n i = None);
          n1 = n\<lparr>hn_peers := (hn_peers n)(i \<mapsto> c), hn_open := (hn_open n)(c := True)\<rparr>
      in if first then n1\<lparr>hn_connected := hn_connected n1 + 1\<rparr> else n1)"

definition hn_send :: "node_id \<Rightarrow> bytes \<Rightarrow> hera_net \<Rightarrow> hera_net" where
  "hn_send i f n = (case hn_peers n i of
     None \<Rightarrow> n
   | Some c \<Rightarrow>
       if hn_open n c \<and> length (hn_queue n c) < CHANNEL_CAPACITY
       then n\<lparr>hn_queue := (hn_queue n)(c := hn_queue n c @ [f])\<rparr> else n)"

definition hn_broadcast :: "node_id list \<Rightarrow> bytes \<Rightarrow> hera_net \<Rightarrow> hera_net" where
  "hn_broadcast peers f n = foldl (\<lambda>n i. hn_send i f n) n peers"

definition connected_peers :: "hera_net \<Rightarrow> nat" where
  "connected_peers n = hn_connected n"

text \<open>The writer of a connection takes a frame; a connection dies.\<close>

definition hn_take :: "nat \<Rightarrow> hera_net \<Rightarrow> hera_net" where
  "hn_take c n = (case hn_queue n c of
     [] \<Rightarrow> n
   | f # fs \<Rightarrow> n\<lparr>hn_queue := (hn_queue n)(c := fs), hn_taken := (hn_taken n)(c := hn_taken n c @ [f])\<rparr>)"

definition hn_close :: "nat \<Rightarrow> hera_net \<Rightarrow> hera_net" where
  "hn_close c n = n\<lparr>hn_open := (hn_open n)(c := False)\<rparr>"

datatype net_op = NConnect node_id nat | NSend node_id bytes | NBroadcast "node_id list" bytes | NTake nat | NClose nat

definition net_op :: "net_op \<Rightarrow> hera_net \<Rightarrow> hera_net" where
  "net_op op n = (case op of
     NConnect i c \<Rightarrow> hn_connect i c n | NSend i f \<Rightarrow> hn_send i f n | NBroadcast is f \<Rightarrow> hn_broadcast is f n
   | NTake c \<Rightarrow> hn_take c n | NClose c \<Rightarrow> hn_close c n)"

text \<open>A broadcast is a sequence of sends; what was sent to a peer; the connections made.\<close>

definition single_ops :: "net_op \<Rightarrow> net_op list" where
  "single_ops op = (case op of NBroadcast is f \<Rightarrow> map (\<lambda>i. NSend i f) is | _ \<Rightarrow> [op])"

definition frames_to :: "node_id \<Rightarrow> net_op list \<Rightarrow> bytes list" where
  "frames_to i ops = concat (map (\<lambda>op. case op of NSend i' f \<Rightarrow> if i' = i then [f] else [] | _ \<Rightarrow> [])
     (concat (map single_ops ops)))"

definition conn_ids :: "net_op list \<Rightarrow> nat list" where
  "conn_ids ops = concat (map (\<lambda>op. case op of NConnect _ c \<Rightarrow> [c] | _ \<Rightarrow> []) ops)"

lemma conn_ids_simps [simp]:
  "conn_ids [] = []" "conn_ids (xs @ ys) = conn_ids xs @ conn_ids ys"
  "conn_ids [NConnect i c] = [c]" "conn_ids [NSend i f] = []" "conn_ids [NTake c] = []" "conn_ids [NClose c] = []"
  by (simp_all add: conn_ids_def)

lemma conn_ids_in: "NConnect i c \<in> set ops \<Longrightarrow> c \<in> set (conn_ids ops)"
  by (induction ops) (auto simp: conn_ids_def split: net_op.splits)

lemma frames_to_simps [simp]:
  "frames_to i [] = []" "frames_to i (xs @ ys) = frames_to i xs @ frames_to i ys"
  "frames_to i [NConnect j c] = []" "frames_to i [NSend j f] = (if j = i then [f] else [])"
  "frames_to i [NTake c] = []" "frames_to i [NClose c] = []"
  by (simp_all add: frames_to_def single_ops_def)

lemma single_ops_run: "foldl (\<lambda>n op. net_op op n) n (single_ops op) = net_op op n"
proof (cases op)
  case (NBroadcast "is" f)
  have "foldl (\<lambda>n op. net_op op n) n (map (\<lambda>i. NSend i f) is) = foldl (\<lambda>n i. hn_send i f n) n is" for n
    by (induction "is" arbitrary: n) (simp_all add: net_op_def)
  then show ?thesis by (simp add: NBroadcast single_ops_def net_op_def hn_broadcast_def)
qed (simp_all add: single_ops_def)

lemma single_ops_runs: "foldl (\<lambda>n op. net_op op n) n (concat (map single_ops ops)) = foldl (\<lambda>n op. net_op op n) n ops"
  by (induction ops arbitrary: n) (simp_all add: single_ops_run)

lemma single_ops_idem: "concat (map single_ops (concat (map single_ops ops))) = concat (map single_ops ops)"
proof (induction ops)
  case (Cons op ops)
  have "concat (map single_ops (single_ops op)) = single_ops op"
    by (cases op) (simp_all add: single_ops_def comp_def)
  with Cons show ?case by simp
qed simp

definition single :: "net_op \<Rightarrow> bool" where
  "single op \<longleftrightarrow> (\<forall>is f. op \<noteq> NBroadcast is f)"

text \<open>The invariant after the operations \<open>ops\<close>.\<close>

definition net_inv :: "net_op list \<Rightarrow> hera_net \<Rightarrow> bool" where
  "net_inv ops n \<longleftrightarrow>
     (\<forall>c. length (hn_queue n c) \<le> CHANNEL_CAPACITY) \<and> finite (dom (hn_peers n)) \<and>
     hn_connected n = card (dom (hn_peers n)) \<and>
     (\<forall>i. hn_peers n i = None \<longleftrightarrow> (\<forall>c. NConnect i c \<notin> set ops)) \<and>
     (\<forall>i c. hn_peers n i = Some c \<longrightarrow> NConnect i c \<in> set ops) \<and>
     (\<forall>c. c \<notin> set (conn_ids ops) \<longrightarrow> hn_queue n c = [] \<and> hn_taken n c = []) \<and>
     (\<forall>i c. NConnect i c \<in> set ops \<longrightarrow> subseq (hn_taken n c @ hn_queue n c) (frames_to i ops))"

lemma net_invD:
  assumes "net_inv ops n"
  shows "length (hn_queue n c) \<le> CHANNEL_CAPACITY" "finite (dom (hn_peers n))" "hn_connected n = card (dom (hn_peers n))"
    "hn_peers n i = None \<longleftrightarrow> (\<forall>c. NConnect i c \<notin> set ops)"
    "hn_peers n i = Some c \<Longrightarrow> NConnect i c \<in> set ops"
    "c \<notin> set (conn_ids ops) \<Longrightarrow> hn_queue n c = [] \<and> hn_taken n c = []"
    "NConnect i c \<in> set ops \<Longrightarrow> subseq (hn_taken n c @ hn_queue n c) (frames_to i ops)"
  using assms unfolding net_inv_def by (elim conjE, (assumption | blast))+

lemma net_inv_new: "net_inv [] hera_net_new"
  by (simp add: net_inv_def hera_net_new_def)

lemma owner_unique:
  assumes "distinct (conn_ids ops)" "NConnect i c \<in> set ops" "NConnect j c \<in> set ops"
  shows "i = j"
  using assms
proof (induction ops)
  case (Cons op ops)
  have c: "conn_ids (op # ops) = conn_ids [op] @ conn_ids ops" by (simp add: conn_ids_def)
  have "c \<notin> set (conn_ids ops)" if "op = NConnect k c" for k using Cons.prems(1) that unfolding c by simp
  with Cons conn_ids_in [of i c ops] conn_ids_in [of j c ops] c show ?case by auto
qed simp

lemma net_invI:
  assumes "\<And>c. length (hn_queue n c) \<le> CHANNEL_CAPACITY" "finite (dom (hn_peers n))"
    "hn_connected n = card (dom (hn_peers n))"
    "\<And>i. hn_peers n i = None \<longleftrightarrow> (\<forall>c. NConnect i c \<notin> set ops)"
    "\<And>i c. hn_peers n i = Some c \<Longrightarrow> NConnect i c \<in> set ops"
    "\<And>c. c \<notin> set (conn_ids ops) \<Longrightarrow> hn_queue n c = [] \<and> hn_taken n c = []"
    "\<And>i c. NConnect i c \<in> set ops \<Longrightarrow> subseq (hn_taken n c @ hn_queue n c) (frames_to i ops)"
  shows "net_inv ops n"
  unfolding net_inv_def using assms by blast

text \<open>An operation that leaves the routing alone keeps the invariant when it keeps the queues' part.\<close>

lemma net_inv_keep:
  assumes I: "net_inv ops n" and op: "\<And>i c. op \<noteq> NConnect i c" "single op"
    and r: "hn_peers n' = hn_peers n" "hn_connected n' = hn_connected n"
    and q: "\<And>c. length (hn_queue n' c) \<le> CHANNEL_CAPACITY"
      "\<And>c. c \<notin> set (conn_ids ops) \<Longrightarrow> hn_queue n' c = [] \<and> hn_taken n' c = []"
      "\<And>i c. NConnect i c \<in> set ops \<Longrightarrow> subseq (hn_taken n' c @ hn_queue n' c) (frames_to i (ops @ [op]))"
  shows "net_inv (ops @ [op]) n'"
proof -
  note D = net_invD [OF I]
  have c: "conn_ids [op] = []" using op by (cases op) (auto simp: single_def)
  show ?thesis
    by (rule net_invI) (use D(2-5) op(1) r q c in \<open>auto dest: D(5)\<close>)
qed

lemma net_inv_connect:
  assumes I: "net_inv ops n" and new: "c \<notin> set (conn_ids ops)"
  shows "net_inv (ops @ [NConnect i c]) (hn_connect i c n)"
proof -
  note D = net_invD [OF I]
  have fresh: "NConnect j c \<notin> set ops" for j using new conn_ids_in by blast
  have p: "hn_peers (hn_connect i c n) = (hn_peers n)(i \<mapsto> c)" "hn_queue (hn_connect i c n) = hn_queue n"
      "hn_taken (hn_connect i c n) = hn_taken n"
    by (simp_all add: hn_connect_def Let_def)
  show ?thesis
  proof (rule net_invI)
    show "hn_connected (hn_connect i c n) = card (dom (hn_peers (hn_connect i c n)))"
      using D(2,3) by (auto simp: hn_connect_def Let_def card_insert_if insert_absorb domIff)
    show "hn_peers (hn_connect i c n) j = None \<longleftrightarrow> (\<forall>c'. NConnect j c' \<notin> set (ops @ [NConnect i c]))" for j
      using D(4) [of j] by (auto simp: p)
    show "hn_peers (hn_connect i c n) j = Some c' \<Longrightarrow> NConnect j c' \<in> set (ops @ [NConnect i c])" for j c'
      using D(5) [of j c'] by (auto simp: p split: if_splits)
    show "subseq (hn_taken (hn_connect i c n) c' @ hn_queue (hn_connect i c n) c') (frames_to j (ops @ [NConnect i c]))"
      if "NConnect j c' \<in> set (ops @ [NConnect i c])" for j c'
      using that D(6) [OF new] D(7) [of j c'] by (auto simp: p)
  qed (use D(1,2,6) in \<open>auto simp: p\<close>)
qed

lemma net_inv_send:
  assumes I: "net_inv ops n" and d: "distinct (conn_ids ops)"
  shows "net_inv (ops @ [NSend i f]) (hn_send i f n)"
proof -
  note D = net_invD [OF I]
  have keep: "subseq (hn_taken n c @ hn_queue n c) (frames_to j (ops @ [NSend i f]))" if "NConnect j c \<in> set ops" for j c
    using D(7) [OF that] by (auto intro: subseq_rev_drop_many)
  show ?thesis
  proof (cases "\<exists>c. hn_peers n i = Some c \<and> hn_open n c \<and> length (hn_queue n c) < CHANNEL_CAPACITY")
    case True
    then obtain c where c: "hn_peers n i = Some c" "hn_open n c" "length (hn_queue n c) < CHANNEL_CAPACITY" by blast
    let ?n = "hn_send i f n"
    have n: "?n = n\<lparr>hn_queue := (hn_queue n)(c := hn_queue n c @ [f])\<rparr>" using c by (simp add: hn_send_def)
    have own: "j = i" if "NConnect j c \<in> set ops" for j
      using owner_unique [OF d that D(5) [OF c(1)]] .
    have seq: "subseq (hn_taken n c @ hn_queue n c @ [f]) (frames_to i ops @ [f])"
      using D(7) [OF D(5) [OF c(1)]] by (metis append.assoc subseq_append)
    have "c \<in> set (conn_ids ops)" by (rule conn_ids_in [OF D(5) [OF c(1)]])
    show ?thesis
    proof (rule net_inv_keep [OF I])
      show "subseq (hn_taken ?n c' @ hn_queue ?n c') (frames_to j (ops @ [NSend i f]))"
        if "NConnect j c' \<in> set ops" for j c'
        using own [of j] seq keep [OF that] that by (auto simp: n)
    qed (use D(1,6) c \<open>c \<in> _\<close> in \<open>auto simp: n single_def\<close>)
  next
    case False
    then have "hn_send i f n = n" by (auto simp: hn_send_def split: option.splits)
    then show ?thesis
      by (auto simp: single_def intro!: net_inv_keep [OF I] keep D(1) dest: D(6))
  qed
qed

lemma net_inv_take:
  assumes I: "net_inv ops n"
  shows "net_inv (ops @ [NTake c]) (hn_take c n)"
proof (cases "hn_queue n c")
  case Nil
  then have "hn_take c n = n" by (simp add: hn_take_def)
  then show ?thesis
    by (auto simp: single_def intro!: net_inv_keep [OF I] net_invD(1) [OF I] dest: net_invD(6,7) [OF I])
next
  case (Cons f fs)
  note D = net_invD [OF I]
  let ?n = "hn_take c n"
  have n: "?n = n\<lparr>hn_queue := (hn_queue n)(c := fs), hn_taken := (hn_taken n)(c := hn_taken n c @ [f])\<rparr>"
    using Cons by (simp add: hn_take_def)
  have c: "c \<in> set (conn_ids ops)" using D(6) [of c] Cons by auto
  show ?thesis
  proof (rule net_inv_keep [OF I])
    show "length (hn_queue ?n c') \<le> CHANNEL_CAPACITY" for c' using D(1) [of c] D(1) [of c'] Cons by (auto simp: n)
    show "subseq (hn_taken ?n c' @ hn_queue ?n c') (frames_to j (ops @ [NTake c]))"
      if "NConnect j c' \<in> set ops" for j c'
      using D(7) [OF that] Cons by (auto simp: n)
  qed (use D(6) c in \<open>auto simp: n single_def\<close>)
qed

lemma net_inv_step:
  assumes I: "net_inv ops n" and d: "distinct (conn_ids (ops @ [op]))" and s: "single op"
  shows "net_inv (ops @ [op]) (net_op op n)"
proof (cases op)
  case (NConnect i c)
  with d net_inv_connect [OF I, of c i] show ?thesis by (simp add: net_op_def)
next
  case (NSend i f)
  with d net_inv_send [OF I, of i f] show ?thesis by (simp add: net_op_def)
next
  case (NTake c)
  with net_inv_take [OF I] show ?thesis by (simp add: net_op_def)
next
  case (NClose c)
  then show ?thesis
    by (auto simp: single_def net_op_def hn_close_def intro!: net_inv_keep [OF I] net_invD(1) [OF I]
        dest: net_invD(6,7) [OF I])
next
  case (NBroadcast "is" f)
  with s show ?thesis by (simp add: single_def)
qed

lemma net_inv_runs:
  assumes "distinct (conn_ids ops)" "list_all single ops"
  shows "net_inv ops (foldl (\<lambda>n op. net_op op n) hera_net_new ops)"
  using assms
proof (induction ops rule: rev_induct)
  case Nil
  then show ?case by (simp add: net_inv_new)
next
  case (snoc op ops)
  then show ?case by (simp add: net_inv_step)
qed

subsection \<open>A writer's run\<close>

text \<open>The bytes a writer has put on the socket, and what they stand for; it ends when a turn does not
  continue.\<close>

fun writer_run :: "(nat \<times> write_event) list \<Rightarrow> bytes" where
  "writer_run [] = []"
| "writer_run ((e, ev) # evs) = (case write_step e ev of Written bs \<Rightarrow> bs @ writer_run evs | _ \<Rightarrow> [])"

definition turn_items :: "nat \<Rightarrow> write_event \<Rightarrow> wire_item list" where
  "turn_items e ev = (case ev of
     PingDue \<Rightarrow> [WPing (of_nat e)]
   | PongTaken (Some ping) \<Rightarrow> if 0 < sint ping then [WPing (- ping)] else []
   | FrameTaken (Some f) \<Rightarrow> [WFrame f]
   | _ \<Rightarrow> [])"

fun writer_items :: "(nat \<times> write_event) list \<Rightarrow> wire_item list" where
  "writer_items [] = []"
| "writer_items ((e, ev) # evs) =
     (case write_step e ev of Written _ \<Rightarrow> turn_items e ev @ writer_items evs | _ \<Rightarrow> [])"

lemma turn_stream: "write_step e ev = Written bs \<Longrightarrow> bs = stream (turn_items e ev)"
  by (auto simp: write_step_def turn_items_def checked_neg_def encode_item_def Let_def
      split: write_event.splits option.splits if_splits)

lemma stream_append [simp]: "stream (xs @ ys) = stream xs @ stream ys"
  by (simp add: stream_def)

lemma writer_stream: "writer_run evs = stream (writer_items evs)"
  by (induction evs rule: writer_run.induct) (auto dest: turn_stream split: write_result.splits)

text \<open>A turn whose frame, when it has one, is neither empty nor too large.\<close>

definition turn_ok :: "nat \<times> write_event \<Rightarrow> bool" where
  "turn_ok t = (case snd t of FrameTaken (Some f) \<Rightarrow> f \<noteq> [] \<and> length f \<le> MAX_SIZE | _ \<Rightarrow> True)"

lemma writer_items_ok:
  "list_all turn_ok evs \<Longrightarrow> list_all item_ok (writer_items evs)"
proof (induction evs rule: writer_items.induct)
  case (2 e ev evs)
  have "list_all item_ok (turn_items e ev)"
    using "2.prems" by (auto simp: turn_items_def item_ok_def turn_ok_def split: write_event.splits option.splits)
  moreover have "list_all item_ok (writer_items evs)" if "write_step e ev = Written bs" for bs
    using "2.IH" [OF that] "2.prems" by simp
  ultimately show ?case by (auto split: write_result.splits)
qed simp

section \<open>Properties\<close>



text \<open>The writer does not check what the reader does: a frame larger than 16 MiB is sent and breaks
  the connection at the reader, and an empty frame is read as the header of a ping, which takes the
  next eight bytes of the stream for a time.\<close>

theorem bad_frame_corrupts_stream:
  shows "MAX_SIZE < length f \<Longrightarrow> length f < 2 ^ 32 \<Longrightarrow>
      write_step e (FrameTaken (Some f)) = Written (encode_frame f) \<and>
      read_items (encode_frame f @ rest) = ([], RBroken)"
    and "length next = 8 \<Longrightarrow>
      write_step e (FrameTaken (Some [])) = Written (encode_frame []) \<and>
      read_items (encode_frame [] @ next @ rest) =
        (WPing (decode_ping next) # fst (read_items rest), snd (read_items rest))"
proof -
  assume f: "MAX_SIZE < length f" "length f < 2 ^ 32"
  have "unat (of_nat (length f) :: 32 word) = length f" using f by (simp add: unat_of_nat)
  with f show "write_step e (FrameTaken (Some f)) = Written (encode_frame f) \<and>
      read_items (encode_frame f @ rest) = ([], RBroken)"
    by (subst read_items.simps) (simp add: write_step_def encode_frame_def)
next
  assume n: "length next = 8"
  have "MAX_SIZE \<ge> 0" by simp
  with n show "write_step e (FrameTaken (Some [])) = Written (encode_frame []) \<and>
      read_items (encode_frame [] @ next @ rest) =
        (WPing (decode_ping next) # fst (read_items rest), snd (read_items rest))"
    by (subst read_items.simps) (simp add: write_step_def encode_frame_def case_prod_beta Let_def)
qed

theorem bad_frame_corrupts_stream_witness:
  "read_items (encode_frame (replicate (MAX_SIZE + 1) 0) @ [1]) = ([], RBroken) \<and>
   fst (read_items (encode_frame [] @ [1, 2, 3, 4, 5, 6, 7, 8] @ [])) \<noteq> []"
  using bad_frame_corrupts_stream(1) [of "replicate (MAX_SIZE + 1) 0" 0 "[1]"]
    bad_frame_corrupts_stream(2) [of "[1, 2, 3, 4, 5, 6, 7, 8]" 0 "[]"]
  by (simp add: MAX_SIZE_def)

text \<open>A ping comes back as the round-trip time: what the writer sends at \<open>t\<close> microseconds the peer
  reads, negates and returns, and the echo read at \<open>t'\<close> breaks the connection exactly when the round
  trip took at least five seconds.\<close>

theorem ping_measures_round_trip:
  assumes "0 < t" "t < 2 ^ 63" "t \<le> t'" "t' < 2 ^ 64"
  shows "\<exists>b p b' q. write_step t PingDue = Written b \<and> read_items b = ([WPing p], RWaiting []) \<and>
    write_step e (PongTaken (Some p)) = Written b' \<and> read_items b' = ([WPing q], RWaiting []) \<and>
    write_step t' (PongTaken (Some q)) = (if t' - t < MAX_LATENCY then Written [] else Stopped)"
proof -
  have r: "read_items (encode_ping m) = ([WPing m], RWaiting [])" for m
    using read_item [of "WPing m" "[]"] by (simp add: item_ok_def encode_item_def read_items.simps [of "[]"])
  from write_ping [OF assms(1,2)] r write_pong [OF assms(1,2), of e] r write_rtt [OF assms]
  show ?thesis by (intro exI conjI)
qed

theorem ping_measures_round_trip_witness:
  "\<exists>b p b' q. write_step 30000000 PingDue = Written b \<and> read_items b = ([WPing p], RWaiting []) \<and>
    write_step 0 (PongTaken (Some p)) = Written b' \<and> read_items b' = ([WPing q], RWaiting []) \<and>
    write_step 35000000 (PongTaken (Some q)) = Stopped"
  using ping_measures_round_trip [of 30000000 35000000 0] by (simp add: MAX_LATENCY_def)

text \<open>C23. Shedding: whatever connects, sends, broadcasts, is taken and dies, no queue holds more than
  1000 frames, the count of connected peers is the number of distinct peers that ever connected, and
  what a connection carries is a subsequence, in order, of what was sent to its peer.\<close>

theorem hera_net_sheds:
  assumes "distinct (conn_ids (concat (map single_ops ops)))"
  shows "length (hn_queue (foldl (\<lambda>n op. net_op op n) hera_net_new ops) c) \<le> CHANNEL_CAPACITY \<and>
    connected_peers (foldl (\<lambda>n op. net_op op n) hera_net_new ops) = card {i. \<exists>c. NConnect i c \<in> set ops} \<and>
    (NConnect i c \<in> set ops \<longrightarrow>
      subseq (hn_taken (foldl (\<lambda>n op. net_op op n) hera_net_new ops) c @
              hn_queue (foldl (\<lambda>n op. net_op op n) hera_net_new ops) c) (frames_to i ops))"
proof (intro conjI impI)
  let ?n = "foldl (\<lambda>n op. net_op op n) hera_net_new ops"
  let ?ops = "concat (map single_ops ops)"
  have "list_all single (single_ops op)" for op
    by (auto simp: single_ops_def single_def list_all_iff split: net_op.splits)
  then have "list_all single ?ops" by (simp add: list_all_iff)
  from net_inv_runs [OF assms this] have I: "net_inv ?ops ?n" by (simp add: single_ops_runs)
  have c: "NConnect i c \<in> set ?ops \<longleftrightarrow> NConnect i c \<in> set ops" for i c
  proof -
    have "NConnect i c \<in> set (single_ops op) \<longleftrightarrow> op = NConnect i c" for op
      by (cases op) (auto simp: single_ops_def)
    then show ?thesis by auto
  qed
  have f: "frames_to i ?ops = frames_to i ops" for i
    by (simp add: frames_to_def single_ops_idem)
  show "length (hn_queue ?n c) \<le> CHANNEL_CAPACITY" by (rule net_invD(1) [OF I])
  have "dom (hn_peers ?n) = {i. \<exists>c. NConnect i c \<in> set ops}"
  proof -
    have "hn_peers ?n i = None \<longleftrightarrow> (\<forall>c. NConnect i c \<notin> set ops)" for i
      using net_invD(4) [OF I, of i] unfolding c .
    then show ?thesis by (auto simp: dom_def)
  qed
  then show "connected_peers ?n = card {i. \<exists>c. NConnect i c \<in> set ops}"
    using net_invD(3) [OF I] by (simp add: connected_peers_def)
  show "NConnect i c \<in> set ops \<Longrightarrow> subseq (hn_taken ?n c @ hn_queue ?n c) (frames_to i ops)"
    using net_invD(7) [OF I, of i c] c f by simp
qed

theorem hera_net_sheds_witness:
  "connected_peers (foldl (\<lambda>n op. net_op op n) hera_net_new [NConnect 1 0, NSend 1 [5], NConnect 1 1]) =
     card {i. \<exists>c. NConnect i c \<in> set [NConnect (1 :: nat) 0, NSend 1 [5], NConnect 1 1]}"
proof -
  have "distinct (conn_ids (concat (map single_ops [NConnect 1 0, NSend 1 [5], NConnect 1 1])))"
    by (simp add: single_ops_def conn_ids_def)
  from hera_net_sheds [OF this] show ?thesis by (rule conjunct1 [OF conjunct2])
qed

text \<open>The mesh: for any two nodes of the committee each starts a worker for the other, exactly one of
  the two dials without delay, and each accepts the other's announcement into that worker.\<close>

theorem hera_mesh:
  assumes "i < length addrs" "j < length addrs" "i \<noteq> j" "length addrs < 2 ^ 64"
  shows "\<exists>wi wj. net_workers addrs i = Ok wi \<and> net_workers addrs j = Ok wj \<and>
    (j, addrs ! j, j < i) \<in> set wi \<and> (i, addrs ! i, i < j) \<in> set wj \<and>
    accept_socket wj (active_hello i) = Some i \<and> accept_socket wi (active_hello j) = Some j"
proof -
  obtain wi wj where w: "net_workers addrs i = Ok wi" "net_workers addrs j = Ok wj"
    using assms(1,2) by (simp add: net_workers_def)
  have p: "(j, addrs ! j, j < i) \<in> set wi" "(i, addrs ! i, i < j) \<in> set wj"
    using net_workers_pairs [OF w(1) assms(2)] net_workers_pairs [OF w(2) assms(1)] assms(3) by auto
  have "i < 2 ^ 64" "j < 2 ^ 64" using assms by simp_all
  then have "accept_socket wj (active_hello i) = Some i" "accept_socket wi (active_hello j) = Some j"
    using p by (auto simp: accept_socket_def read_active_hello intro: rev_image_eqI)
  with w p show ?thesis by blast
qed

theorem hera_mesh_witness:
  "\<exists>wi wj. net_workers [a, b] 0 = Ok wi \<and> net_workers [a, b] 1 = Ok wj \<and>
    accept_socket wj (active_hello 0) = Some 0 \<and> accept_socket wi (active_hello 1) = Some 1"
  using hera_mesh [of 0 "[a, b]" 1] by auto

end
