(* ===== verification/SimpleTx.thy ===== *)
theory SimpleTx
  imports Txpool WireInts
begin

section \<open>The example transaction\<close>

text \<open>
  \<^verbatim>\<open>node/src/smr\<close>: \<^verbatim>\<open>SimpleTx<SimpleData>\<close>, the transaction every binary runs with, its accessors,
  the mock transactions of the stress client and the transactions Hera's nodes make for themselves
  (\<^verbatim>\<open>node/src/bin/hera.rs\<close>). \<^verbatim>\<open>bincode\<close> is the parameter record \<open>bincode\<close>; \<open>bincode_ok\<close> is its
  documented layout: structs are their fields in order, integers have their width, least significant
  byte first, and a vector is its length in eight bytes and its elements.
\<close>

record simple_data =
  sd_tx :: bytes

definition with_payload :: "bytes \<Rightarrow> simple_data" where
  "with_payload data = \<lparr>sd_tx = data\<rparr>"

record simple_tx =
  stx_data :: simple_data
  stx_source :: node_id
  stx_nonce :: nonce
  stx_extra :: bytes

record extra_data =
  xd_sample :: bool
  xd_sample_id :: "64 word"

record bincode =
  bc_ser_data :: "simple_data \<Rightarrow> bytes"
  bc_ser_extra :: "extra_data \<Rightarrow> bytes"
  bc_de_extra :: "bytes \<Rightarrow> extra_data option"
  bc_ser_tx :: "simple_tx \<Rightarrow> bytes"

definition ser_vec :: "bytes \<Rightarrow> bytes" where
  "ser_vec bs = word_le 8 (of_nat (length bs) :: 64 word) @ bs"

definition ser_u64 :: "nat \<Rightarrow> bytes" where
  "ser_u64 n = word_le 8 (of_nat n :: 64 word)"

definition bincode_ok :: "bincode \<Rightarrow> bool" where
  "bincode_ok bc \<longleftrightarrow>
     (\<forall>d. bc_ser_data bc d = ser_vec (sd_tx d)) \<and>
     (\<forall>e. bc_ser_extra bc e = (if xd_sample e then 1 else 0) # word_le 8 (xd_sample_id e)) \<and>
     (\<forall>e. bc_de_extra bc (bc_ser_extra bc e) = Some e) \<and> bc_de_extra bc [] = None \<and>
     (\<forall>t. bc_ser_tx bc t = bc_ser_data bc (stx_data t) @ ser_u64 (stx_source t) @ ser_u64 (stx_nonce t) @ ser_vec (stx_extra t))"

text \<open>The layout written out, to show that it can be had.\<close>

definition plain_bincode :: bincode where
  "plain_bincode =
     \<lparr>bc_ser_data = (\<lambda>d. ser_vec (sd_tx d)),
      bc_ser_extra = (\<lambda>e. (if xd_sample e then 1 else 0) # word_le 8 (xd_sample_id e)),
      bc_de_extra = (\<lambda>bs. case bs of [] \<Rightarrow> None | b # r \<Rightarrow> Some \<lparr>xd_sample = (b = 1), xd_sample_id = word_of_le r\<rparr>),
      bc_ser_tx = (\<lambda>t. ser_vec (sd_tx (stx_data t)) @ ser_u64 (stx_source t) @ ser_u64 (stx_nonce t) @ ser_vec (stx_extra t))\<rparr>"

lemma plain_bincode_ok: "bincode_ok plain_bincode"
  by (auto simp: bincode_ok_def plain_bincode_def)

lemma length_ser [simp]: "length (ser_vec bs) = 8 + length bs" "length (ser_u64 n) = 8"
  by (simp_all add: ser_vec_def ser_u64_def)

subsection \<open>The \<^verbatim>\<open>Transaction\<close> trait\<close>

definition client_id :: "simple_tx \<Rightarrow> node_id" where
  "client_id t = stx_source t"

definition tx_nonce_of :: "simple_tx \<Rightarrow> nonce" where
  "tx_nonce_of t = stx_nonce t"

definition simple_tx_ops :: "bincode \<Rightarrow> simple_tx tx_ops" where
  "simple_tx_ops bc = \<lparr>tx_client_id = client_id, tx_nonce = tx_nonce_of, tx_serialized_size = (\<lambda>t. Some (length (bc_ser_tx bc t)))\<rparr>"

text \<open>With the \<^verbatim>\<open>benchmark\<close> feature the sample data is decoded, which ends the process when it does not
  decode; without it there is none.\<close>

definition is_sample :: "bool \<Rightarrow> bincode \<Rightarrow> simple_tx \<Rightarrow> bool outcome" where
  "is_sample benchmark bc t =
     (if benchmark then (case bc_de_extra bc (stx_extra t) of None \<Rightarrow> Panic | Some e \<Rightarrow> Ok (xd_sample e)) else Ok False)"

definition get_id :: "bool \<Rightarrow> bincode \<Rightarrow> simple_tx \<Rightarrow> 64 word outcome" where
  "get_id benchmark bc t =
     (if benchmark then (case bc_de_extra bc (stx_extra t) of None \<Rightarrow> Panic | Some e \<Rightarrow> Ok (xd_sample_id e)) else Ok 0)"

definition hera_timestamp_ns :: "bincode \<Rightarrow> simple_tx \<Rightarrow> 128 word option" where
  "hera_timestamp_ns bc t =
     (let bs = bc_ser_data bc (stx_data t) in
      if length bs < 8 then None
      else let payload = drop 8 bs in
        if length payload < 32 then None else Some (word_of_le (take 16 (drop 16 payload))))"

subsection \<open>Making transactions\<close>

definition HEADER_SIZE :: nat where
  "HEADER_SIZE = 49"

definition mock_transaction :: "bincode \<Rightarrow> nat \<Rightarrow> node_id \<Rightarrow> nat \<Rightarrow> bool \<Rightarrow> 64 word \<Rightarrow> simple_tx" where
  "mock_transaction bc tx_id cid tx_size sample sample_id =
     (let payload_size = tx_size - HEADER_SIZE;
          extra_data = \<lparr>xd_sample = sample, xd_sample_id = sample_id\<rparr>
      in \<lparr>stx_data = with_payload (replicate payload_size 0), stx_source = cid, stx_nonce = tx_id,
          stx_extra = bc_ser_extra bc extra_data\<rparr>)"

text \<open>Hera's factory writes the node, the nonce and the time over the start of the payload.\<close>

definition hera_make_tx :: "nat \<Rightarrow> node_id \<Rightarrow> nonce \<Rightarrow> 128 word \<Rightarrow> simple_tx" where
  "hera_make_tx tx_size my_id n now_ns =
     (let payload = replicate (max tx_size 32) 0;
          payload = word_le 8 (of_nat my_id :: 64 word) @ drop 8 payload;
          payload = take 8 payload @ word_le 8 (of_nat n :: 64 word) @ drop 16 payload;
          payload = take 16 payload @ word_le 16 now_ns @ drop 32 payload
      in \<lparr>stx_data = with_payload payload, stx_source = my_id, stx_nonce = n, stx_extra = []\<rparr>)"

lemma mock_simps [simp]:
  "stx_source (mock_transaction bc i c sz b s) = c" "stx_nonce (mock_transaction bc i c sz b s) = i"
  by (simp_all add: mock_transaction_def Let_def)

lemma hera_tx_simps [simp]:
  "stx_source (hera_make_tx sz i n t) = i" "stx_nonce (hera_make_tx sz i n t) = n" "stx_extra (hera_make_tx sz i n t) = []"
  by (simp_all add: hera_make_tx_def Let_def)

lemma simple_tx_ops_simps [simp]:
  "tx_client_id (simple_tx_ops bc) = stx_source" "tx_nonce (simple_tx_ops bc) = stx_nonce"
  by (auto simp: simple_tx_ops_def client_id_def tx_nonce_of_def)

subsection \<open>Properties\<close>

text \<open>The time a Hera node stamps into a transaction is the time the commit task reads back, whatever
  size is asked for.\<close>

theorem hera_timestamp_roundtrip:
  assumes "bincode_ok bc"
  shows "hera_timestamp_ns bc (hera_make_tx tx_size my_id n now_ns) = Some now_ns"
proof -
  have "drop 8 (bc_ser_data bc d) = sd_tx d" "length (bc_ser_data bc d) = 8 + length (sd_tx d)" for d
    using assms by (simp_all add: bincode_ok_def ser_vec_def)
  then show ?thesis by (simp add: hera_timestamp_ns_def hera_make_tx_def with_payload_def Let_def)
qed

theorem hera_timestamp_roundtrip_witness:
  "hera_timestamp_ns plain_bincode (hera_make_tx 10 3 4 99) = Some 99"
  by (rule hera_timestamp_roundtrip [OF plain_bincode_ok])

text \<open>Mock transactions are eight bytes short of the size asked for (and never below 41 bytes): the
  header size counts more than the layout has. Their sample data reads back as it was written.\<close>

theorem mock_transaction_size:
  assumes "bincode_ok bc"
  shows "tx_serialized_size (simple_tx_ops bc) (mock_transaction bc i c tx_size s sid) = Some (max 49 tx_size - 8)"
    and "is_sample True bc (mock_transaction bc i c tx_size s sid) = Ok s"
    and "get_id True bc (mock_transaction bc i c tx_size s sid) = Ok sid"
proof -
  have "length (bc_ser_tx bc t) = 32 + length (sd_tx (stx_data t)) + length (stx_extra t)"
    "length (bc_ser_extra bc e) = 9" for t e
    using assms by (simp_all add: bincode_ok_def)
  then show "tx_serialized_size (simple_tx_ops bc) (mock_transaction bc i c tx_size s sid) = Some (max 49 tx_size - 8)"
    by (simp add: simple_tx_ops_def mock_transaction_def with_payload_def HEADER_SIZE_def Let_def)
  have "bc_de_extra bc (bc_ser_extra bc e) = Some e" for e using assms unfolding bincode_ok_def by blast
  then show "is_sample True bc (mock_transaction bc i c tx_size s sid) = Ok s"
    and "get_id True bc (mock_transaction bc i c tx_size s sid) = Ok sid"
    by (simp_all add: mock_transaction_def is_sample_def get_id_def Let_def)
qed

theorem mock_transaction_size_witness:
  "tx_serialized_size (simple_tx_ops plain_bincode) (mock_transaction plain_bincode 0 7 512 True 5) = Some 504 \<and>
   is_sample True plain_bincode (mock_transaction plain_bincode 0 7 512 True 5) = Ok True"
  using mock_transaction_size [OF plain_bincode_ok, of 0 7 512 True 5] by simp

text \<open>Hera's own transactions carry no sample data: with the benchmark feature, asking one whether it
  is a sample ends the process.\<close>

theorem hera_tx_has_no_sample:
  assumes "bincode_ok bc"
  shows "is_sample True bc (hera_make_tx tx_size my_id n now_ns) = Panic"
  using assms by (simp add: is_sample_def bincode_ok_def)

theorem hera_tx_has_no_sample_witness:
  "is_sample True plain_bincode (hera_make_tx 10 3 4 99) = Panic"
  by (rule hera_tx_has_no_sample [OF plain_bincode_ok])

end
