(* ===== verification/HeraLoadGen.thy ===== *)
theory HeraLoadGen
  imports SimpleTx
begin

section \<open>Hera's load generator\<close>

text \<open>
  \<^verbatim>\<open>server/hera/load_gen.rs\<close>: one burst every 100 ms, skipped while too many of the node's
  transactions are not committed. The counter of committed transactions, which the commit task
  shares, is read at each tick: its value is part of the tick.
\<close>

definition MAX_OUTSTANDING_TXS :: nat where
  "MAX_OUTSTANDING_TXS = 20000"

record 'tx load_gen =
  lg_nonce :: nonce
  lg_generated :: nat
  lg_sent :: "('tx \<times> nat) list"

definition load_gen_new :: "'tx load_gen" where
  "load_gen_new = \<lparr>lg_nonce = 0, lg_generated = 0, lg_sent = []\<rparr>"

text \<open>\<^verbatim>\<open>tps.saturating_add(9) / 10\<close>\<close>

definition txs_per_100ms :: "nat \<Rightarrow> nat" where
  "txs_per_100ms tps = min (tps + 9) (2 ^ 64 - 1) div 10"

text \<open>The sends of one window; \<open>left\<close> is how many the channel takes before it is closed, if it is.\<close>

fun gen_window ::
  "(nonce \<Rightarrow> 'tx) \<Rightarrow> ('tx \<Rightarrow> nat option) \<Rightarrow> nat \<Rightarrow> nat option \<Rightarrow> 'tx load_gen \<Rightarrow> bool \<times> 'tx load_gen" where
  "gen_window mk tx_sz 0 left g = (True, g)"
| "gen_window mk tx_sz (Suc k) left g =
     (let tx = mk (lg_nonce g); sz = (case tx_sz tx of None \<Rightarrow> 0 | Some n \<Rightarrow> n) in
      if left = Some 0 then (False, g)
      else gen_window mk tx_sz k (map_option (\<lambda>l. l - 1) left)
             (g\<lparr>lg_sent := lg_sent g @ [(tx, sz)], lg_nonce := lg_nonce g + 1, lg_generated := lg_generated g + 1\<rparr>))"

record load_tick =
  lt_committed :: nat
  lt_now :: "128 word"
  lt_left :: "nat option"

definition load_tick_step ::
  "(node_id \<Rightarrow> nonce \<Rightarrow> 128 word \<Rightarrow> 'tx) \<Rightarrow> ('tx \<Rightarrow> nat option) \<Rightarrow> node_id \<Rightarrow> nat \<Rightarrow> load_tick \<Rightarrow>
    'tx load_gen \<Rightarrow> bool \<times> 'tx load_gen" where
  "load_tick_step make_tx tx_sz my_id tps t g =
     (if MAX_OUTSTANDING_TXS \<le> lg_generated g - lt_committed t then (True, g)
      else gen_window (\<lambda>n. make_tx my_id n (lt_now t)) tx_sz (txs_per_100ms tps) (lt_left t) g)"

text \<open>Without a rate no generator is started.\<close>

fun load_ticks ::
  "(node_id \<Rightarrow> nonce \<Rightarrow> 128 word \<Rightarrow> 'tx) \<Rightarrow> ('tx \<Rightarrow> nat option) \<Rightarrow> node_id \<Rightarrow> nat \<Rightarrow> load_tick list \<Rightarrow>
    'tx load_gen \<Rightarrow> 'tx load_gen" where
  "load_ticks make_tx tx_sz my_id tps [] g = g"
| "load_ticks make_tx tx_sz my_id tps (t # ts) g = (case load_tick_step make_tx tx_sz my_id tps t g of
     (True, g') \<Rightarrow> load_ticks make_tx tx_sz my_id tps ts g'
   | (False, g') \<Rightarrow> g')"

definition load_gen_run ::
  "(node_id \<Rightarrow> nonce \<Rightarrow> 128 word \<Rightarrow> 'tx) \<Rightarrow> ('tx \<Rightarrow> nat option) \<Rightarrow> node_id \<Rightarrow> nat \<Rightarrow> load_tick list \<Rightarrow> 'tx load_gen" where
  "load_gen_run make_tx tx_sz my_id tps ts =
     (if tps = 0 then load_gen_new else load_ticks make_tx tx_sz my_id tps ts load_gen_new)"

definition numbered :: "('tx \<Rightarrow> nonce) \<Rightarrow> 'tx load_gen \<Rightarrow> bool" where
  "numbered f g \<longleftrightarrow> lg_nonce g = lg_generated g \<and> map (\<lambda>x. f (fst x)) (lg_sent g) = [0..<lg_generated g]"

lemma gen_window_bounds:
  "gen_window mk tx_sz k left g = (b, g') \<Longrightarrow> lg_generated g \<le> lg_generated g' \<and> lg_generated g' \<le> lg_generated g + k"
proof (induction k arbitrary: left g)
  case (Suc k)
  show ?case
  proof (cases "left = Some 0")
    case False
    with Suc.prems Suc.IH show ?thesis by (fastforce simp: Let_def)
  qed (use Suc.prems in \<open>simp add: Let_def\<close>)
qed simp

lemma gen_window_numbered:
  assumes "\<And>n. f (mk n) = n"
  shows "gen_window mk tx_sz k left g = (b, g') \<Longrightarrow> numbered f g \<Longrightarrow> numbered f g'"
proof (induction k arbitrary: left g)
  case (Suc k)
  show ?case
  proof (cases "left = Some 0")
    case False
    have "numbered f (g\<lparr>lg_sent := lg_sent g @ [(mk (lg_nonce g), sz)], lg_nonce := lg_nonce g + 1,
        lg_generated := lg_generated g + 1\<rparr>)" for sz
      using Suc.prems(2) assms by (simp add: numbered_def)
    with Suc.prems(1) Suc.IH False show ?thesis by (simp add: Let_def)
  qed (use Suc.prems in \<open>simp add: Let_def\<close>)
qed simp

lemma load_tick_bounds:
  assumes "load_tick_step make_tx tx_sz my_id tps t g = (b, g')"
  shows "lg_generated g' = lg_generated g \<or> lg_generated g' < lt_committed t + MAX_OUTSTANDING_TXS + txs_per_100ms tps"
proof (cases "MAX_OUTSTANDING_TXS \<le> lg_generated g - lt_committed t")
  case True
  then show ?thesis using assms by (simp add: load_tick_step_def)
next
  case False
  with assms have "gen_window (\<lambda>n. make_tx my_id n (lt_now t)) tx_sz (txs_per_100ms tps) (lt_left t) g = (b, g')"
    by (simp add: load_tick_step_def)
  from gen_window_bounds [OF this] False show ?thesis by linarith
qed

lemma load_tick_numbered:
  assumes "\<And>n now. f (make_tx my_id n now) = n"
  shows "load_tick_step make_tx tx_sz my_id tps t g = (b, g') \<Longrightarrow> numbered f g \<Longrightarrow> numbered f g'"
  by (auto simp: load_tick_step_def assms split: if_splits elim: gen_window_numbered [rotated])

text \<open>While the counter only grows, what is generated stays below it, the cap and one window.\<close>

lemma load_ticks_bound:
  assumes "lg_generated g \<le> c + MAX_OUTSTANDING_TXS + txs_per_100ms tps" "list_all (\<lambda>t. lt_committed t \<le> c) ts"
  shows "lg_generated (load_ticks make_tx tx_sz my_id tps ts g) \<le> c + MAX_OUTSTANDING_TXS + txs_per_100ms tps"
  using assms
proof (induction ts arbitrary: g)
  case (Cons t ts)
  obtain b g' where s: "load_tick_step make_tx tx_sz my_id tps t g = (b, g')" by fastforce
  have "lg_generated g' \<le> c + MAX_OUTSTANDING_TXS + txs_per_100ms tps"
    using load_tick_bounds [OF s] Cons.prems by auto
  with Cons s show ?case by (auto split: bool.splits)
qed simp

lemma load_ticks_numbered:
  assumes "\<And>n now. f (make_tx my_id n now) = n"
  shows "numbered f g \<Longrightarrow> numbered f (load_ticks make_tx tx_sz my_id tps ts g)"
proof (induction ts arbitrary: g)
  case (Cons t ts)
  obtain b g' where s: "load_tick_step make_tx tx_sz my_id tps t g = (b, g')" by fastforce
  from load_tick_numbered [OF assms s Cons.prems] Cons.IH s show ?case by (auto split: bool.splits)
qed simp

section \<open>Properties\<close>

text \<open>C27. Self-pacing: however the ticks and the commits fall, what a node has generated and not committed
  stays within 20000 transactions and one window, a window is the rate rounded up to a tenth, and the
  nonces it sends are 0, 1, 2, ... without a gap.\<close>

theorem hera_load_self_paced:
  assumes "list_all (\<lambda>t. lt_committed t \<le> committed) ts"
  shows "lg_generated (load_gen_run hera_mk tx_sz my_id tps ts) \<le> committed + MAX_OUTSTANDING_TXS + txs_per_100ms tps \<and>
    (tps + 9 < 2 ^ 64 \<longrightarrow> tps \<le> 10 * txs_per_100ms tps \<and> 10 * txs_per_100ms tps \<le> tps + 9) \<and>
    map (\<lambda>x. stx_nonce (fst x)) (lg_sent (load_gen_run (hera_make_tx tx_size) sz' my_id tps ts)) =
      [0..<lg_generated (load_gen_run (hera_make_tx tx_size) sz' my_id tps ts)]"
proof (intro conjI impI)
  show "lg_generated (load_gen_run hera_mk tx_sz my_id tps ts) \<le> committed + MAX_OUTSTANDING_TXS + txs_per_100ms tps"
    using load_ticks_bound [OF _ assms, of load_gen_new tps hera_mk tx_sz my_id]
    by (simp add: load_gen_run_def load_gen_new_def)
  show "tps \<le> 10 * txs_per_100ms tps" "10 * txs_per_100ms tps \<le> tps + 9" if "tps + 9 < 2 ^ 64"
  proof -
    have "min (tps + 9) (2 ^ 64 - 1) = tps + 9" using that by simp
    then show "tps \<le> 10 * txs_per_100ms tps" "10 * txs_per_100ms tps \<le> tps + 9"
      unfolding txs_per_100ms_def by presburger+
  qed
  show "map (\<lambda>x. stx_nonce (fst x)) (lg_sent (load_gen_run (hera_make_tx tx_size) sz' my_id tps ts)) =
      [0..<lg_generated (load_gen_run (hera_make_tx tx_size) sz' my_id tps ts)]"
    using load_ticks_numbered [of stx_nonce "hera_make_tx tx_size" my_id load_gen_new sz' tps ts]
    by (simp add: numbered_def load_gen_run_def load_gen_new_def)
qed

theorem hera_load_self_paced_witness:
  "lg_generated (load_gen_run (hera_make_tx 512) (\<lambda>_. Some 8) 3 15
     [\<lparr>lt_committed = 0, lt_now = 1, lt_left = None\<rparr>, \<lparr>lt_committed = 1, lt_now = 2, lt_left = Some 1\<rparr>]) \<le> 20003"
  using hera_load_self_paced [where committed = 1 and ts = "[\<lparr>lt_committed = 0, lt_now = 1, lt_left = None\<rparr>,
      \<lparr>lt_committed = 1, lt_now = 2, lt_left = Some 1\<rparr>]" and hera_mk = "hera_make_tx 512" and tx_sz = "\<lambda>_. Some 8"
      and my_id = 3 and tps = 15]
  by (simp add: MAX_OUTSTANDING_TXS_def txs_per_100ms_def)

end
