(* ===== verification/ServerClients.thy ===== *)
theory ServerClients
  imports Types
begin

section \<open>The servers' client path\<close>

text \<open>
  The tasks of \<^verbatim>\<open>server/core.rs\<close>, \<^verbatim>\<open>server/zeus/server.rs\<close> and \<^verbatim>\<open>server/consensus_handler.rs\<close> that
  stand between the clients and the replica: the listener that hands transactions to the batcher and
  registers who sent them, the fan-out of committed batches, and the router that confirms each
  committed transaction to its client. Unbounded channels are lists; \<open>tx_hash\<close> is
  \<^verbatim>\<open>Hash::ser_and_hash\<close> of a transaction and \<open>tx_size\<close> its \<^verbatim>\<open>bincode::serialized_size\<close>.
\<close>

datatype 'tx zeus_client_msg =
    WhoIsEleader
  | EleaderIs node_id nat
  | ZeusNewTx 'tx socket_addr
  | ZeusConfirmation digest
  | ZeusNewBatch "'tx list" socket_addr
  | ZeusBatchConfirmation digest

subsection \<open>The confirmation router\<close>

text \<open>The replies go over a sender whose peer table grows with the clients. A router of either server
  differs in the message \<open>confirm\<close> alone; \<open>ser\<close> is \<^verbatim>\<open>bincode::serialize\<close>.\<close>

record 'm router =
  r_pending :: "digest \<rightharpoonup> socket_addr"
  r_peers :: "socket_addr \<rightharpoonup> socket_addr"
  r_sent :: "(socket_addr \<times> 'm) list"

definition router_new :: "'m router" where
  "router_new = \<lparr>r_pending = Map.empty, r_peers = Map.empty, r_sent = []\<rparr>"

datatype 'tx router_event = Register "(digest \<times> socket_addr) option" | Committed "'tx batch option"

definition confirm_tx ::
  "('m \<Rightarrow> bytes option) \<Rightarrow> (digest \<Rightarrow> 'm) \<Rightarrow> ('tx \<Rightarrow> digest) \<Rightarrow> 'tx \<Rightarrow> 'm router \<Rightarrow> 'm router" where
  "confirm_tx ser confirm tx_hash tx r =
     (let h = tx_hash tx in case r_pending r h of
        None \<Rightarrow> r
      | Some addr \<Rightarrow>
          let r1 = r\<lparr>r_pending := (r_pending r)(h := None)\<rparr>; msg = confirm h in
          (case ser msg of
             None \<Rightarrow> r1
           | Some _ \<Rightarrow>
               let r2 = (if r_peers r1 addr = None then r1\<lparr>r_peers := (r_peers r1)(addr \<mapsto> addr)\<rparr> else r1)
               in r2\<lparr>r_sent := r_sent r2 @ [(addr, msg)]\<rparr>))"

text \<open>One turn of the loop; \<open>None\<close> when it ends.\<close>

definition router_step ::
  "('m \<Rightarrow> bytes option) \<Rightarrow> (digest \<Rightarrow> 'm) \<Rightarrow> ('tx \<Rightarrow> digest) \<Rightarrow> 'tx router_event \<Rightarrow> 'm router \<Rightarrow> 'm router option" where
  "router_step ser confirm tx_hash ev r = (case ev of
     Register (Some (h, addr)) \<Rightarrow> Some (r\<lparr>r_pending := (r_pending r)(h \<mapsto> addr)\<rparr>)
   | Register None \<Rightarrow> None
   | Committed (Some b) \<Rightarrow> Some (foldl (\<lambda>r tx. confirm_tx ser confirm tx_hash tx r) r b)
   | Committed None \<Rightarrow> None)"

definition leto_router_step ::
  "('tx client_msg \<Rightarrow> bytes option) \<Rightarrow> ('tx \<Rightarrow> digest) \<Rightarrow> 'tx router_event \<Rightarrow> 'tx client_msg router \<Rightarrow>
    'tx client_msg router option" where
  "leto_router_step ser tx_hash ev r = router_step ser Confirmation tx_hash ev r"

definition zeus_router_step ::
  "('tx zeus_client_msg \<Rightarrow> bytes option) \<Rightarrow> ('tx \<Rightarrow> digest) \<Rightarrow> 'tx router_event \<Rightarrow> 'tx zeus_client_msg router \<Rightarrow>
    'tx zeus_client_msg router option" where
  "zeus_router_step ser tx_hash ev r = router_step ser ZeusConfirmation tx_hash ev r"

text \<open>A run ends with the first channel that is closed.\<close>

fun router_run ::
  "('m \<Rightarrow> bytes option) \<Rightarrow> (digest \<Rightarrow> 'm) \<Rightarrow> ('tx \<Rightarrow> digest) \<Rightarrow> 'tx router_event list \<Rightarrow> 'm router \<Rightarrow> 'm router" where
  "router_run ser confirm tx_hash [] r = r"
| "router_run ser confirm tx_hash (ev # evs) r = (case router_step ser confirm tx_hash ev r of
     None \<Rightarrow> r
   | Some r' \<Rightarrow> router_run ser confirm tx_hash evs r')"

subsection \<open>The reference: each hash by itself\<close>

text \<open>What happens to one hash: registrations set its client, a commit confirms and clears it. These
  are the events of a run before it ends.\<close>

fun hash_events :: "('tx \<Rightarrow> digest) \<Rightarrow> digest \<Rightarrow> 'tx router_event list \<Rightarrow> socket_addr option list" where
  "hash_events tx_hash h [] = []"
| "hash_events tx_hash h (Register (Some (h', a)) # evs) =
     (if h' = h then [Some a] else []) @ hash_events tx_hash h evs"
| "hash_events tx_hash h (Committed (Some b) # evs) =
     map (\<lambda>_. None) (filter (\<lambda>tx. tx_hash tx = h) b) @ hash_events tx_hash h evs"
| "hash_events tx_hash h (_ # evs) = []"

fun hash_state :: "socket_addr option \<Rightarrow> socket_addr option list \<Rightarrow> socket_addr option" where
  "hash_state p [] = p"
| "hash_state p (e # es) = hash_state e es"

fun hash_confirms :: "socket_addr option \<Rightarrow> socket_addr option list \<Rightarrow> socket_addr list" where
  "hash_confirms p [] = []"
| "hash_confirms p (Some a # es) = hash_confirms (Some a) es"
| "hash_confirms p (None # es) = (case p of None \<Rightarrow> [] | Some a \<Rightarrow> [a]) @ hash_confirms None es"

definition confirms_of :: "(digest \<Rightarrow> 'm) \<Rightarrow> digest \<Rightarrow> 'm router \<Rightarrow> socket_addr list" where
  "confirms_of confirm h r = map fst (filter (\<lambda>(a, m). m = confirm h) (r_sent r))"

lemma router_new_sel: "r_pending router_new h = None" "confirms_of confirm h router_new = []"
  by (simp_all add: router_new_def confirms_of_def)

lemma hash_append:
  "hash_state p (xs @ ys) = hash_state (hash_state p xs) ys"
  "hash_confirms p (xs @ ys) = hash_confirms p xs @ hash_confirms (hash_state p xs) ys"
proof -
  show "hash_state p (xs @ ys) = hash_state (hash_state p xs) ys" by (induction p xs rule: hash_state.induct) simp_all
  show "hash_confirms p (xs @ ys) = hash_confirms p xs @ hash_confirms (hash_state p xs) ys"
    by (induction p xs rule: hash_confirms.induct) simp_all
qed

lemma hash_confirms_count: "count_list (hash_confirms p es) a \<le> count_list (p # es) (Some a)"
  by (induction p es rule: hash_confirms.induct) (auto split: option.splits)

lemma hash_confirms_sound: "a \<in> set (hash_confirms p es) \<Longrightarrow> Some a \<in> set (p # es) \<and> None \<in> set es"
  by (induction p es rule: hash_confirms.induct) (auto split: option.splits)

subsection \<open>Routers that confirm with an injective message\<close>

text \<open>Serialising a confirmation never fails: it is a hash.\<close>

definition ser_total :: "('m \<Rightarrow> bytes option) \<Rightarrow> (digest \<Rightarrow> 'm) \<Rightarrow> bool" where
  "ser_total ser confirm \<longleftrightarrow> (\<forall>h. ser (confirm h) \<noteq> None)"

lemma ser_totalE: "ser_total ser confirm \<Longrightarrow> \<exists>bs. ser (confirm h) = Some bs"
  by (simp add: ser_total_def)

locale confirming =
  fixes confirm :: "digest \<Rightarrow> 'm"
  assumes confirm_inj: "inj confirm"
begin

lemma confirm_tx_view:
  assumes "ser_total ser confirm"
  shows "r_pending (confirm_tx ser confirm tx_hash tx r) h = (if tx_hash tx = h then None else r_pending r h)"
    and "confirms_of confirm h (confirm_tx ser confirm tx_hash tx r) =
      confirms_of confirm h r @ (if tx_hash tx = h then (case r_pending r h of None \<Rightarrow> [] | Some a \<Rightarrow> [a]) else [])"
  using ser_totalE [OF assms, of "tx_hash tx"] confirm_inj
  by (auto simp: confirm_tx_def confirms_of_def Let_def inj_eq split: option.splits)

lemma confirm_batch_view:
  assumes "ser_total ser confirm"
  shows "r_pending (foldl (\<lambda>r tx. confirm_tx ser confirm tx_hash tx r) r b) h =
      hash_state (r_pending r h) (map (\<lambda>_. None) (filter (\<lambda>tx. tx_hash tx = h) b)) \<and>
    confirms_of confirm h (foldl (\<lambda>r tx. confirm_tx ser confirm tx_hash tx r) r b) =
      confirms_of confirm h r @ hash_confirms (r_pending r h) (map (\<lambda>_. None) (filter (\<lambda>tx. tx_hash tx = h) b))"
  by (induction b arbitrary: r) (simp_all add: confirm_tx_view [OF assms])

lemma confirms_of_register: "confirms_of confirm h (r\<lparr>r_pending := m\<rparr>) = confirms_of confirm h r"
  by (simp add: confirms_of_def)

lemma run_view:
  assumes "ser_total ser confirm"
  shows "r_pending (router_run ser confirm tx_hash evs r) h = hash_state (r_pending r h) (hash_events tx_hash h evs) \<and>
    confirms_of confirm h (router_run ser confirm tx_hash evs r) =
      confirms_of confirm h r @ hash_confirms (r_pending r h) (hash_events tx_hash h evs)"
proof (induction tx_hash h evs arbitrary: r rule: hash_events.induct)
  case (2 tx_hash h h' a evs)
  show ?case by (simp add: router_step_def "2.IH" confirms_of_register)
next
  case (3 tx_hash h b evs)
  show ?case by (simp add: router_step_def "3.IH" confirm_batch_view [OF assms] hash_append)
qed (simp_all add: router_step_def)

lemma run_confirms:
  assumes "ser_total ser confirm"
  shows "confirms_of confirm h (router_run ser confirm tx_hash evs router_new) =
      hash_confirms None (hash_events tx_hash h evs)"
  using run_view [OF assms, of tx_hash evs router_new h] by (simp add: router_new_sel)

end

interpretation leto_confirm: confirming Confirmation
  by unfold_locales (simp add: inj_def)

interpretation zeus_confirm: confirming ZeusConfirmation
  by unfold_locales (simp add: inj_def)

subsection \<open>Listeners\<close>

text \<open>What the listener hands on: registrations to the router and transactions with their sizes.\<close>

record 'tx listener =
  l_registered :: "(digest \<times> socket_addr) list"
  l_batcher :: "('tx \<times> nat) list"

definition or_zero :: "nat option \<Rightarrow> nat" where
  "or_zero x = (case x of None \<Rightarrow> 0 | Some n \<Rightarrow> n)"

definition submit_tx ::
  "('tx \<Rightarrow> digest) \<Rightarrow> ('tx \<Rightarrow> nat option) \<Rightarrow> socket_addr \<Rightarrow> 'tx \<Rightarrow> 'tx listener \<Rightarrow> 'tx listener" where
  "submit_tx tx_hash tx_size reply_to tx l =
     l\<lparr>l_registered := l_registered l @ [(tx_hash tx, reply_to)],
       l_batcher := l_batcher l @ [(tx, or_zero (tx_size tx))]\<rparr>"

text \<open>\<open>Inl\<close> is a message that does not decode.\<close>

definition leto_listen ::
  "('tx \<Rightarrow> digest) \<Rightarrow> ('tx \<Rightarrow> nat option) \<Rightarrow> error + 'tx client_msg \<Rightarrow> 'tx listener \<Rightarrow> 'tx listener" where
  "leto_listen tx_hash tx_size m l = (case m of
     Inr (NewBatch b reply_to) \<Rightarrow> foldl (\<lambda>l tx. submit_tx tx_hash tx_size reply_to tx l) l b
   | Inr (NewTx tx reply_to) \<Rightarrow> submit_tx tx_hash tx_size reply_to tx l
   | Inr _ \<Rightarrow> l
   | Inl _ \<Rightarrow> l)"

text \<open>
  The Zeus listener sends to a channel of 1024 that a forwarder drains, and waits when it is full.
  A message is therefore a list of sends that the listener performs one by one; \<open>z_todo\<close> is what
  is left of the message at hand, \<open>z_next\<close> the messages not yet read. The receivers of the batcher's
  and the router's channels are held by other tasks, which may end (\<open>zeus_hangup\<close>): a registration for
  a router that is gone is dropped, a transaction for a batcher that is gone ends the forwarder, which
  drops the bounded receiver with everything queued in it, and a send to that ends the listener with
  whatever it had left.
\<close>

definition CLIENT_INGRESS_CAP :: nat where
  "CLIENT_INGRESS_CAP = 1024"

datatype 'tx zeus_send = ZReg digest socket_addr | ZSend 'tx nat

record 'tx zeus_listener =
  z_next :: "(error + 'tx zeus_client_msg) list"
  z_todo :: "'tx zeus_send list"
  z_ingress :: "('tx \<times> nat) list"
  z_batcher :: "('tx \<times> nat) list"
  z_registered :: "(digest \<times> socket_addr) list"
  z_listening :: bool
  z_forwarding :: bool
  z_batcher_open :: bool
  z_router_open :: bool

definition zeus_listener_new :: "(error + 'tx zeus_client_msg) list \<Rightarrow> 'tx zeus_listener" where
  "zeus_listener_new ms = \<lparr>z_next = ms, z_todo = [], z_ingress = [], z_batcher = [], z_registered = [],
     z_listening = True, z_forwarding = True, z_batcher_open = True, z_router_open = True\<rparr>"

definition zeus_sends ::
  "('tx \<Rightarrow> digest) \<Rightarrow> ('tx \<Rightarrow> nat option) \<Rightarrow> error + 'tx zeus_client_msg \<Rightarrow> 'tx zeus_send list" where
  "zeus_sends tx_hash tx_size m = (case m of
     Inr (ZeusNewBatch b reply_to) \<Rightarrow>
       concat (map (\<lambda>tx. [ZReg (tx_hash tx) reply_to, ZSend tx (or_zero (tx_size tx))]) b)
   | Inr (ZeusNewTx tx _) \<Rightarrow> [ZSend tx (or_zero (tx_size tx))]
   | Inr _ \<Rightarrow> []
   | Inl _ \<Rightarrow> [])"

inductive zeus_ingress ::
  "('tx \<Rightarrow> digest) \<Rightarrow> ('tx \<Rightarrow> nat option) \<Rightarrow> 'tx zeus_listener \<Rightarrow> 'tx zeus_listener \<Rightarrow> bool"
  for tx_hash tx_size where
  Read: "z_listening z \<Longrightarrow> z_todo z = [] \<Longrightarrow> z_next z = m # ms \<Longrightarrow>
     zeus_ingress tx_hash tx_size z (z\<lparr>z_next := ms, z_todo := zeus_sends tx_hash tx_size m\<rparr>)"
| Enroll: "z_listening z \<Longrightarrow> z_todo z = ZReg h a # todo \<Longrightarrow>
     zeus_ingress tx_hash tx_size z (z\<lparr>z_todo := todo,
       z_registered := (if z_router_open z then z_registered z @ [(h, a)] else z_registered z)\<rparr>)"
| Put: "z_listening z \<Longrightarrow> z_todo z = ZSend tx n # todo \<Longrightarrow> z_forwarding z \<Longrightarrow>
     length (z_ingress z) < CLIENT_INGRESS_CAP \<Longrightarrow>
     zeus_ingress tx_hash tx_size z (z\<lparr>z_todo := todo, z_ingress := z_ingress z @ [(tx, n)]\<rparr>)"
| Return: "z_listening z \<Longrightarrow> z_todo z = ZSend tx n # todo \<Longrightarrow> \<not> z_forwarding z \<Longrightarrow>
     zeus_ingress tx_hash tx_size z (z\<lparr>z_todo := [], z_listening := False\<rparr>)"
| Forward: "z_forwarding z \<Longrightarrow> z_ingress z = x # xs \<Longrightarrow> z_batcher_open z \<Longrightarrow>
     zeus_ingress tx_hash tx_size z (z\<lparr>z_ingress := xs, z_batcher := z_batcher z @ [x]\<rparr>)"
| Break: "z_forwarding z \<Longrightarrow> z_ingress z = x # xs \<Longrightarrow> \<not> z_batcher_open z \<Longrightarrow>
     zeus_ingress tx_hash tx_size z (z\<lparr>z_ingress := [], z_forwarding := False\<rparr>)"

inductive zeus_hangup :: "'tx zeus_listener \<Rightarrow> 'tx zeus_listener \<Rightarrow> bool" where
  Batcher_gone: "zeus_hangup z (z\<lparr>z_batcher_open := False\<rparr>)"
| Router_gone: "zeus_hangup z (z\<lparr>z_router_open := False\<rparr>)"

abbreviation zeus_ingress_run ::
  "('tx \<Rightarrow> digest) \<Rightarrow> ('tx \<Rightarrow> nat option) \<Rightarrow> 'tx zeus_listener \<Rightarrow> 'tx zeus_listener \<Rightarrow> bool" where
  "zeus_ingress_run tx_hash tx_size \<equiv> (\<lambda>z z'. zeus_ingress tx_hash tx_size z z' \<or> zeus_hangup z z')\<^sup>*\<^sup>*"

text \<open>The committed batches go to the application and to the router.\<close>

definition fan_out :: "'tx batch \<Rightarrow> 'tx batch list \<times> 'tx batch list \<Rightarrow> 'tx batch list \<times> 'tx batch list" where
  "fan_out b chans = (fst chans @ [b], snd chans @ [b])"

text \<open>\<^verbatim>\<open>Handler::dispatch\<close> ends the process when the replica is gone.\<close>

definition dispatch :: "bool \<Rightarrow> 'msg \<Rightarrow> 'msg list \<Rightarrow> 'msg list outcome" where
  "dispatch open msg chan = (if open then Ok (chan @ [msg]) else Panic)"

subsection \<open>The ingress of a Zeus server\<close>

definition txs_of :: "'tx zeus_send list \<Rightarrow> ('tx \<times> nat) list" where
  "txs_of ss = concat (map (\<lambda>s. case s of ZSend tx n \<Rightarrow> [(tx, n)] | ZReg _ _ \<Rightarrow> []) ss)"

definition regs_of :: "'tx zeus_send list \<Rightarrow> (digest \<times> socket_addr) list" where
  "regs_of ss = concat (map (\<lambda>s. case s of ZReg h a \<Rightarrow> [(h, a)] | ZSend _ _ \<Rightarrow> []) ss)"

lemma sends_simps [simp]:
  "txs_of [] = []" "txs_of (ss @ ts) = txs_of ss @ txs_of ts"
  "txs_of (ZSend tx n # ss) = (tx, n) # txs_of ss" "txs_of (ZReg h a # ss) = txs_of ss"
  "regs_of [] = []" "regs_of (ss @ ts) = regs_of ss @ regs_of ts"
  "regs_of (ZSend tx n # ss) = regs_of ss" "regs_of (ZReg h a # ss) = (h, a) # regs_of ss"
  by (simp_all add: txs_of_def regs_of_def)

definition z_work :: "('tx \<Rightarrow> digest) \<Rightarrow> ('tx \<Rightarrow> nat option) \<Rightarrow> 'tx zeus_listener \<Rightarrow> 'tx zeus_send list" where
  "z_work tx_hash tx_size z = z_todo z @ concat (map (zeus_sends tx_hash tx_size) (z_next z))"

text \<open>\<open>xs\<close> is an initial part of \<open>ys\<close>.\<close>

definition starts_with :: "'a list \<Rightarrow> 'a list \<Rightarrow> bool" where
  "starts_with xs ys \<longleftrightarrow> (\<exists>rest. ys = xs @ rest)"

lemma starts_withI: "ys = xs @ rest \<Longrightarrow> starts_with xs ys"
  by (auto simp: starts_with_def)

lemma starts_with_Nil [simp]: "starts_with [] ys"
  by (simp add: starts_with_def)

text \<open>What every state of a run satisfies for the sends \<open>S\<close> that the messages ask for: nothing is
  reordered, invented or doubled, and nothing is lost while the receivers live.\<close>

definition ingress_ok ::
  "('tx \<Rightarrow> digest) \<Rightarrow> ('tx \<Rightarrow> nat option) \<Rightarrow> 'tx zeus_send list \<Rightarrow> 'tx zeus_listener \<Rightarrow> bool" where
  "ingress_ok tx_hash tx_size S z \<longleftrightarrow>
     length (z_ingress z) \<le> CLIENT_INGRESS_CAP \<and>
     starts_with (z_batcher z) (txs_of S) \<and> starts_with (z_registered z) (regs_of S) \<and>
     (z_forwarding z \<longrightarrow> z_listening z \<and> z_batcher z @ z_ingress z @ txs_of (z_work tx_hash tx_size z) = txs_of S) \<and>
     (\<not> z_forwarding z \<longrightarrow> z_ingress z = [] \<and> \<not> z_batcher_open z) \<and>
     (\<not> z_listening z \<longrightarrow> z_todo z = []) \<and>
     (z_listening z \<and> z_router_open z \<longrightarrow> z_registered z @ regs_of (z_work tx_hash tx_size z) = regs_of S)"

lemma ingress_ok_new: "ingress_ok tx_hash tx_size (concat (map (zeus_sends tx_hash tx_size) ms)) (zeus_listener_new ms)"
  by (simp add: ingress_ok_def zeus_listener_new_def z_work_def)

lemma ingress_keeps:
  assumes "zeus_ingress tx_hash tx_size z z'" "ingress_ok tx_hash tx_size S z"
  shows "ingress_ok tx_hash tx_size S z'"
  using assms
proof (cases rule: zeus_ingress.cases)
  case (Enroll h a todo)
  show ?thesis
  proof (cases "z_router_open z")
    case True
    with Enroll assms(2) have R: "(z_registered z @ [(h, a)]) @ regs_of (todo @ concat (map (zeus_sends tx_hash tx_size) (z_next z))) = regs_of S"
      by (simp add: ingress_ok_def z_work_def)
    then have "starts_with (z_registered z @ [(h, a)]) (regs_of S)" by (metis starts_withI)
    with R True Enroll assms(2) show ?thesis by (simp add: ingress_ok_def z_work_def)
  qed (use Enroll assms(2) in \<open>simp add: ingress_ok_def z_work_def\<close>)
next
  case (Forward x xs)
  with assms(2) have R: "(z_batcher z @ [x]) @ xs @ txs_of (z_work tx_hash tx_size z) = txs_of S"
    by (simp add: ingress_ok_def)
  then have "starts_with (z_batcher z @ [x]) (txs_of S)" by (metis starts_withI)
  with R Forward assms(2) show ?thesis by (simp add: ingress_ok_def z_work_def)
qed (simp_all add: ingress_ok_def z_work_def)

lemma hangup_keeps: "zeus_hangup z z' \<Longrightarrow> ingress_ok tx_hash tx_size S z \<Longrightarrow> ingress_ok tx_hash tx_size S z'"
  by (erule zeus_hangup.cases) (auto simp: ingress_ok_def z_work_def)

lemma ingress_runs_keep:
  "zeus_ingress_run tx_hash tx_size z z' \<Longrightarrow> ingress_ok tx_hash tx_size S z \<Longrightarrow> ingress_ok tx_hash tx_size S z'"
  by (induction rule: rtranclp_induct) (blast intro: ingress_keeps hangup_keeps)+

text \<open>Every step uses something up.\<close>

definition z_measure :: "('tx \<Rightarrow> digest) \<Rightarrow> ('tx \<Rightarrow> nat option) \<Rightarrow> 'tx zeus_listener \<Rightarrow> nat" where
  "z_measure tx_hash tx_size z = 2 * length (z_work tx_hash tx_size z) + length (z_ingress z) + length (z_next z)"

lemma ingress_measure: "zeus_ingress tx_hash tx_size z z' \<Longrightarrow> z_measure tx_hash tx_size z' < z_measure tx_hash tx_size z"
  by (cases rule: zeus_ingress.cases, assumption; simp add: z_measure_def z_work_def)

text \<open>A step can be taken unless the queue is empty and the listener has nothing to do.\<close>

lemma ingress_progress:
  assumes ok: "ingress_ok tx_hash tx_size S z" and rest: "\<nexists>z'. zeus_ingress tx_hash tx_size z z'"
  shows "z_ingress z = [] \<and> z_todo z = [] \<and> (z_listening z \<longrightarrow> z_next z = [])"
proof -
  have ing: "z_ingress z = []"
  proof (cases "z_ingress z")
    case (Cons x xs)
    with ok have "z_forwarding z" by (auto simp: ingress_ok_def)
    with Cons rest show ?thesis by (cases "z_batcher_open z") (blast intro: Forward Break)+
  qed
  have todo: "z_todo z = []"
  proof (cases "z_todo z")
    case (Cons s todo)
    with ok have li: "z_listening z" by (auto simp: ingress_ok_def)
    have cap: "length (z_ingress z) < CLIENT_INGRESS_CAP" using ing by (simp add: CLIENT_INGRESS_CAP_def)
    show ?thesis
    proof (cases s)
      case (ZReg h a)
      with Cons li rest show ?thesis by (blast intro: Enroll)
    next
      case (ZSend tx n)
      with Cons li cap rest show ?thesis by (cases "z_forwarding z") (blast intro: Put Return)+
    qed
  qed
  have "z_next z = []" if "z_listening z"
    using that todo rest by (cases "z_next z") (auto intro: Read)
  with ing todo show ?thesis by blast
qed

lemma ingress_rests: "\<exists>z'. (zeus_ingress tx_hash tx_size)\<^sup>*\<^sup>* z z' \<and> (\<nexists>z''. zeus_ingress tx_hash tx_size z' z'')"
proof (induction "z_measure tx_hash tx_size z" arbitrary: z rule: less_induct)
  case less
  show ?case
  proof (cases "\<exists>z1. zeus_ingress tx_hash tx_size z z1")
    case True
    then obtain z1 where z1: "zeus_ingress tx_hash tx_size z z1" by blast
    from less [OF ingress_measure [OF z1]] z1 show ?thesis by (meson converse_rtranclp_into_rtranclp)
  qed blast
qed

lemma hash_events_mem:
  "Some a \<in> set (hash_events tx_hash h evs) \<Longrightarrow> Register (Some (h, a)) \<in> set evs"
  "None \<in> set (hash_events tx_hash h evs) \<Longrightarrow> \<exists>b tx. Committed (Some b) \<in> set evs \<and> tx \<in> set b \<and> tx_hash tx = h"
  by (induction tx_hash h evs rule: hash_events.induct) (auto split: if_splits)

text \<open>The client registered last, \<open>p\<close> when there is none.\<close>

definition last_registered :: "socket_addr option \<Rightarrow> socket_addr option list \<Rightarrow> socket_addr option" where
  "last_registered p es = foldl (\<lambda>p e. if e = None then p else e) p es"

lemma last_registered_keeps: "p \<noteq> None \<Longrightarrow> last_registered p es \<noteq> None"
  by (induction es arbitrary: p) (auto simp: last_registered_def)

lemma last_registered_simps [simp]:
  "last_registered p [] = p" "last_registered p (Some a # es) = last_registered (Some a) es"
  by (simp_all add: last_registered_def)

lemma hash_state_last: "None \<notin> set es \<Longrightarrow> hash_state p es = last_registered p es"
  by (induction p es rule: hash_state.induct) (auto simp: last_registered_def)

lemma hash_none [simp]:
  "hash_confirms None (map (\<lambda>_. None) xs) = []" "hash_state None (map (\<lambda>_. None) xs) = None"
  by (induction xs) simp_all

section \<open>Properties\<close>

text \<open>C17. The router's confirmations are, hash by hash, those of a cell that holds the client last
  registered for the hash and is emptied by the first commit, on either server.\<close>

theorem router_is_per_hash_cell:
  assumes "ser_total ser Confirmation" "ser_total ser' ZeusConfirmation"
  shows "confirms_of Confirmation h (router_run ser Confirmation tx_hash evs router_new) =
      hash_confirms None (hash_events tx_hash h evs) \<and>
    confirms_of ZeusConfirmation h (router_run ser' ZeusConfirmation tx_hash evs router_new) =
      hash_confirms None (hash_events tx_hash h evs)"
  by (rule conjI [OF leto_confirm.run_confirms [OF assms(1)] zeus_confirm.run_confirms [OF assms(2)]])

theorem router_is_per_hash_cell_witness:
  "confirms_of Confirmation 7 (router_run (\<lambda>_. Some []) Confirmation (\<lambda>tx :: nat. of_nat tx)
     [Register (Some (7, (1, 80))), Register (Some (7, (2, 80))), Committed (Some [7, 7])] router_new) = [(2, 80)]"
  using conjunct1 [OF router_is_per_hash_cell, of "\<lambda>_. Some []" "\<lambda>_. Some []" 7 "\<lambda>tx :: nat. of_nat tx"
    "[Register (Some (7, (1, 80))), Register (Some (7, (2, 80))), Committed (Some [7, 7])]"]
  by (simp add: ser_total_def)

text \<open>A client is confirmed a hash at most as often as it registered it, and only after a transaction
  with that hash was committed.\<close>

theorem confirmations_are_earned:
  assumes "ser_total ser Confirmation"
    and "a \<in> set (confirms_of Confirmation h (router_run ser Confirmation tx_hash evs router_new))"
  shows "Register (Some (h, a)) \<in> set evs \<and> (\<exists>b tx. Committed (Some b) \<in> set evs \<and> tx \<in> set b \<and> tx_hash tx = h) \<and>
    count_list (confirms_of Confirmation h (router_run ser Confirmation tx_hash evs router_new)) a \<le>
      count_list (hash_events tx_hash h evs) (Some a)"
proof -
  note run = leto_confirm.run_confirms [OF assms(1), of h tx_hash evs]
  have mem: "a \<in> set (hash_confirms None (hash_events tx_hash h evs))" using assms(2) unfolding run .
  have "Some a \<in> set (hash_events tx_hash h evs)" "None \<in> set (hash_events tx_hash h evs)"
    using hash_confirms_sound [OF mem] by simp_all
  from hash_events_mem(1) [OF this(1)] hash_events_mem(2) [OF this(2)]
  show ?thesis using hash_confirms_count [of None "hash_events tx_hash h evs" a] unfolding run by simp
qed

theorem confirmations_are_earned_witness:
  "Register (Some (7, (1, 80))) \<in> set [Register (Some (7, (1, 80))), Committed (Some [7 :: nat])]"
proof -
  have "(1, 80) \<in> set (confirms_of Confirmation 7 (router_run (\<lambda>_. Some []) Confirmation (\<lambda>tx :: nat. of_nat tx)
      [Register (Some (7, (1, 80))), Committed (Some [7])] router_new))"
    by (simp add: router_step_def confirm_tx_def confirms_of_def router_new_def)
  from confirmations_are_earned [OF _ this] show ?thesis by (simp add: ser_total_def)
qed

text \<open>C30. The two channels of the router race: a registration that is handled before the commit is
  confirmed and its entry removed, but when the commit is handled first the client is never told, and its
  entry stays in the table through everything that follows, until a transaction with that hash is
  committed again (or a later registration of the hash overwrites its address).\<close>

theorem commit_before_registration_unconfirmed:
  assumes "ser_total ser Confirmation" "r_pending r h = None" "h \<in> tx_hash ` set b"
  shows "confirms_of Confirmation h (router_run ser Confirmation tx_hash [Register (Some (h, a)), Committed (Some b)] r) =
      confirms_of Confirmation h r @ [a] \<and>
    r_pending (router_run ser Confirmation tx_hash [Register (Some (h, a)), Committed (Some b)] r) h = None \<and>
    ((\<forall>b'. Committed (Some b') \<in> set evs \<longrightarrow> h \<notin> tx_hash ` set b') \<longrightarrow>
      confirms_of Confirmation h (router_run ser Confirmation tx_hash
        ([Committed (Some b), Register (Some (h, a))] @ evs) r) = confirms_of Confirmation h r \<and>
      r_pending (router_run ser Confirmation tx_hash ([Committed (Some b), Register (Some (h, a))] @ evs) r) h =
        last_registered (Some a) (hash_events tx_hash h evs) \<and>
      last_registered (Some a) (hash_events tx_hash h evs) \<noteq> None)"
proof (intro conjI impI)
  note V = leto_confirm.run_view [OF assms(1), of tx_hash _ r h]
  obtain tx where tx: "tx \<in> set b" "tx_hash tx = h" using assms(3) by auto
  have "filter (\<lambda>tx. tx_hash tx = h) b \<noteq> []" using tx by (auto simp: filter_empty_conv)
  then obtain y ys where y: "filter (\<lambda>tx. tx_hash tx = h) b = y # ys" by (cases "filter (\<lambda>tx. tx_hash tx = h) b") auto
  show "confirms_of Confirmation h (router_run ser Confirmation tx_hash [Register (Some (h, a)), Committed (Some b)] r) =
      confirms_of Confirmation h r @ [a]"
    "r_pending (router_run ser Confirmation tx_hash [Register (Some (h, a)), Committed (Some b)] r) h = None"
    using V [of "[Register (Some (h, a)), Committed (Some b)]"] y by simp_all
  assume "\<forall>b'. Committed (Some b') \<in> set evs \<longrightarrow> h \<notin> tx_hash ` set b'"
  then have N: "None \<notin> set (hash_events tx_hash h evs)" using hash_events_mem(2) [of tx_hash h evs] by blast
  then have "hash_confirms p (hash_events tx_hash h evs) = []" for p
    using hash_confirms_sound [of _ p "hash_events tx_hash h evs"] by (cases "hash_confirms p (hash_events tx_hash h evs)") auto
  then show "confirms_of Confirmation h (router_run ser Confirmation tx_hash
        ([Committed (Some b), Register (Some (h, a))] @ evs) r) = confirms_of Confirmation h r"
    using V [of "[Committed (Some b), Register (Some (h, a))] @ evs"] assms(2) by (simp add: hash_append)
  show "r_pending (router_run ser Confirmation tx_hash ([Committed (Some b), Register (Some (h, a))] @ evs) r) h =
      last_registered (Some a) (hash_events tx_hash h evs)"
    "last_registered (Some a) (hash_events tx_hash h evs) \<noteq> None"
    using V [of "[Committed (Some b), Register (Some (h, a))] @ evs"] hash_state_last [OF N, of "Some a"]
      last_registered_keeps [of "Some a"] by (simp_all add: hash_append)
qed

theorem commit_before_registration_unconfirmed_witness:
  "confirms_of Confirmation 7 (router_run (\<lambda>_. Some []) Confirmation (\<lambda>tx :: nat. of_nat tx)
     ([Committed (Some [7]), Register (Some (7, (1, 80)))] @ [Committed (Some [9])]) router_new) = [] \<and>
   r_pending (router_run (\<lambda>_. Some []) Confirmation (\<lambda>tx :: nat. of_nat tx)
     ([Committed (Some [7]), Register (Some (7, (1, 80)))] @ [Committed (Some [9])]) router_new) 7 = Some (1, 80)"
proof -
  have p: "ser_total (\<lambda>_. Some []) Confirmation" "r_pending router_new 7 = None" "7 \<in> (\<lambda>tx :: nat. of_nat tx) ` set [7]"
    by (simp_all add: ser_total_def router_new_sel)
  have q: "\<forall>b'. Committed (Some b') \<in> set [Committed (Some [9 :: nat])] \<longrightarrow> 7 \<notin> (\<lambda>tx :: nat. of_nat tx :: digest) ` set b'"
    by simp
  have l: "last_registered (Some (1, 80)) (hash_events (\<lambda>tx :: nat. of_nat tx :: digest) 7 [Committed (Some [9 :: nat])]) =
      Some (1, 80)" by simp
  note C = mp [OF conjunct2 [OF conjunct2 [OF commit_before_registration_unconfirmed [OF p]]] q, of "(1, 80)"]
  show ?thesis by (rule conjI [OF conjunct1 [OF C [unfolded l router_new_sel]] conjunct1 [OF conjunct2 [OF C [unfolded l router_new_sel]]]])
qed

text \<open>C19. Back pressure loses nothing while the receivers live: however the listener and the forwarder of a
  Zeus server interleave with each other and with the ends of the batcher's and the router's tasks, the bounded
  queue never holds more than 1024 transactions, what has reached the batcher and the router is always a prefix,
  in order and without repetition, of what the messages ask for, and listener and forwarder can always come to
  rest. Whenever they are at rest and the batcher's receiver is still there, every transaction has reached the
  batcher, and, if the router is still there too, every transaction of a batch is registered. The listener
  stops only after the batcher's receiver was dropped.\<close>

theorem zeus_ingress_delivers:
  assumes "zeus_ingress_run tx_hash tx_size (zeus_listener_new ms) z"
  shows "length (z_ingress z) \<le> CLIENT_INGRESS_CAP \<and>
    starts_with (z_batcher z) (txs_of (concat (map (zeus_sends tx_hash tx_size) ms))) \<and>
    starts_with (z_registered z) (regs_of (concat (map (zeus_sends tx_hash tx_size) ms))) \<and>
    (z_batcher_open z \<longrightarrow> z_listening z) \<and>
    (z_batcher_open z \<longrightarrow> (\<nexists>z'. zeus_ingress tx_hash tx_size z z') \<longrightarrow>
      z_batcher z = txs_of (concat (map (zeus_sends tx_hash tx_size) ms)) \<and>
      (z_router_open z \<longrightarrow> z_registered z = regs_of (concat (map (zeus_sends tx_hash tx_size) ms)))) \<and>
    (\<exists>z'. (zeus_ingress tx_hash tx_size)\<^sup>*\<^sup>* z z' \<and> \<not> (\<exists>z''. zeus_ingress tx_hash tx_size z' z''))"
proof -
  note K = ingress_runs_keep [OF assms ingress_ok_new]
  have "z_batcher z = txs_of (concat (map (zeus_sends tx_hash tx_size) ms)) \<and>
      (z_router_open z \<longrightarrow> z_registered z = regs_of (concat (map (zeus_sends tx_hash tx_size) ms)))"
    if "z_batcher_open z" "\<nexists>z'. zeus_ingress tx_hash tx_size z z'"
    using K ingress_progress [OF K that(2)] that(1) by (auto simp: ingress_ok_def z_work_def)
  moreover have "z_batcher_open z \<longrightarrow> z_listening z" using K by (auto simp: ingress_ok_def)
  ultimately show ?thesis using K ingress_rests [of tx_hash tx_size z] unfolding ingress_ok_def by blast
qed

text \<open>A run: a transaction is read, put into the queue and forwarded.\<close>

theorem zeus_ingress_delivers_witness:
  "\<exists>z. zeus_ingress_run (\<lambda>_. 0) (\<lambda>_. Some 9) (zeus_listener_new [Inr (ZeusNewBatch [5 :: nat, 6] (1, 80))]) z \<and>
     (\<nexists>z'. zeus_ingress (\<lambda>_. 0) (\<lambda>_. Some 9) z z') \<and> z_batcher z = [(5, 9), (6, 9)] \<and> z_registered z = [(0, 1, 80), (0, 1, 80)]"
proof -
  let ?R = "zeus_ingress (\<lambda>_. 0) (\<lambda>_. Some 9)"
  let ?z0 = "zeus_listener_new [Inr (ZeusNewBatch [5 :: nat, 6] (1, 80))]"
  let ?z1 = "?z0\<lparr>z_next := [], z_todo := [ZReg 0 (1, 80), ZSend 5 9, ZReg 0 (1, 80), ZSend 6 9]\<rparr>"
  have r1: "?R ?z0 ?z1"
    using Read [of ?z0 "Inr (ZeusNewBatch [5, 6] (1, 80))" "[]" "\<lambda>_. 0" "\<lambda>_. Some 9"]
    by (simp add: zeus_listener_new_def zeus_sends_def or_zero_def)
  obtain z where z: "?R\<^sup>*\<^sup>* ?z1 z" "\<nexists>z'. ?R z z'" using ingress_rests by blast
  have keep: "z_batcher_open w \<and> z_router_open w" if "?R\<^sup>*\<^sup>* ?z1 w" for w
    using that by (induction rule: rtranclp_induct) (auto simp: zeus_listener_new_def elim!: zeus_ingress.cases)
  have "?R\<^sup>*\<^sup>* ?z0 z" using r1 z(1) by (rule converse_rtranclp_into_rtranclp)
  then have run: "zeus_ingress_run (\<lambda>_. 0) (\<lambda>_. Some 9) ?z0 z"
    by (rule mono_rtranclp [rule_format, rotated]) blast
  from zeus_ingress_delivers [OF run] z(2) keep [OF z(1)]
  have "z_batcher z = [(5, 9), (6, 9)] \<and> z_registered z = [(0, 1, 80), (0, 1, 80)]"
    by (simp add: zeus_sends_def or_zero_def)
  with run z(2) show ?thesis by blast
qed

text \<open>When the batcher's receiver is dropped while a transaction waits in the queue, the transaction is lost
  and the listener stops at the next one: nobody tells the client.\<close>

theorem dropped_batcher_loses:
  "\<exists>z. zeus_ingress_run (\<lambda>_. 0) (\<lambda>_. Some 9) (zeus_listener_new [Inr (ZeusNewBatch [5 :: nat, 6] (1, 80))]) z \<and>
     z_batcher z = [] \<and> z_ingress z = [] \<and> z_todo z = [] \<and> \<not> z_listening z"
proof -
  let ?R = "\<lambda>z z'. zeus_ingress (\<lambda>_. 0) (\<lambda>_. Some 9) z z' \<or> zeus_hangup z z'"
  let ?z0 = "zeus_listener_new [Inr (ZeusNewBatch [5 :: nat, 6] (1, 80))]"
  let ?z1 = "?z0\<lparr>z_next := [], z_todo := [ZReg 0 (1, 80), ZSend 5 9, ZReg 0 (1, 80), ZSend 6 9]\<rparr>"
  let ?z2 = "?z1\<lparr>z_todo := [ZSend 5 9, ZReg 0 (1, 80), ZSend 6 9], z_registered := [(0, 1, 80)]\<rparr>"
  let ?z3 = "?z2\<lparr>z_todo := [ZReg 0 (1, 80), ZSend 6 9], z_ingress := [(5, 9)]\<rparr>"
  let ?z4 = "?z3\<lparr>z_batcher_open := False\<rparr>"
  let ?z5 = "?z4\<lparr>z_ingress := [], z_forwarding := False\<rparr>"
  let ?z6 = "?z5\<lparr>z_todo := [ZSend 6 9], z_registered := [(0, 1, 80), (0, 1, 80)]\<rparr>"
  let ?z7 = "?z6\<lparr>z_todo := [], z_listening := False\<rparr>"
  have r1: "?R ?z0 ?z1"
    using Read [of ?z0 "Inr (ZeusNewBatch [5, 6] (1, 80))" "[]" "\<lambda>_. 0" "\<lambda>_. Some 9"]
    by (simp add: zeus_listener_new_def zeus_sends_def or_zero_def)
  have r2: "?R ?z1 ?z2"
    using Enroll [of ?z1 0 "(1, 80)" "[ZSend 5 9, ZReg 0 (1, 80), ZSend 6 9]" "\<lambda>_. 0" "\<lambda>_. Some 9"]
    by (simp add: zeus_listener_new_def)
  have r3: "?R ?z2 ?z3"
    using Put [of ?z2 5 9 "[ZReg 0 (1, 80), ZSend 6 9]" "\<lambda>_. 0" "\<lambda>_. Some 9"]
    by (simp add: zeus_listener_new_def CLIENT_INGRESS_CAP_def)
  have r4: "?R ?z3 ?z4" using Batcher_gone [of ?z3] by simp
  have r5: "?R ?z4 ?z5"
    using Break [of ?z4 "(5, 9)" "[]" "\<lambda>_. 0" "\<lambda>_. Some 9"] by (simp add: zeus_listener_new_def)
  have r6: "?R ?z5 ?z6"
    using Enroll [of ?z5 0 "(1, 80)" "[ZSend 6 9]" "\<lambda>_. 0" "\<lambda>_. Some 9"] by (simp add: zeus_listener_new_def)
  have r7: "?R ?z6 ?z7"
    using Return [of ?z6 6 9 "[]" "\<lambda>_. 0" "\<lambda>_. Some 9"] by (simp add: zeus_listener_new_def)
  have "zeus_ingress_run (\<lambda>_. 0) (\<lambda>_. Some 9) ?z0 ?z7"
    by (intro converse_rtranclp_into_rtranclp [where r = ?R, OF r1] converse_rtranclp_into_rtranclp [where r = ?R, OF r2]
        converse_rtranclp_into_rtranclp [where r = ?R, OF r3] converse_rtranclp_into_rtranclp [where r = ?R, OF r4]
        converse_rtranclp_into_rtranclp [where r = ?R, OF r5] converse_rtranclp_into_rtranclp [where r = ?R, OF r6]
        r_into_rtranclp [where r = ?R, OF r7])
  then show ?thesis by (intro exI [of _ ?z7]) (simp add: zeus_listener_new_def)
qed

end
