(* ===== verification/Stressor.thy ===== *)
theory Stressor
  imports ServerClients SimpleTx Settings
begin

section \<open>The stress client\<close>

text \<open>
  \<^verbatim>\<open>client/settings.rs\<close>, \<^verbatim>\<open>client/stresser.rs\<close> and the \<^verbatim>\<open>MockTx\<close> trait of \<^verbatim>\<open>client/mod.rs\<close>: the
  settings, the table of servers and the client's loop. Instants are microseconds since some start;
  the network is the list of what was sent. The operations of the transaction type are the record
  \<open>client_ops\<close>; the iteration order of the party table is the parameter \<open>order\<close>.
\<close>

datatype client_mode = LetoBroadcast | ZeusEleaderOnly "node_id option"

record client_party =
  cp_id :: node_id
  cp_address :: string
  cp_port :: nat
  cp_confirmation_port :: nat

record client_bench =
  cb_tx_size :: nat
  cb_burst_interval_ms :: nat
  cb_txs_per_burst :: nat
  cb_bench_emit_window_secs :: nat
  cb_emit_dp :: bool

record client_settings =
  cs_parties :: "node_id \<rightharpoonup> client_party"
  cs_bench :: client_bench
  cs_mode :: client_mode
  cs_confirmation_address :: string
  cs_confirmation_port :: nat

definition client_num_nodes :: "client_settings \<Rightarrow> nat" where
  "client_num_nodes cs = card (dom (cs_parties cs))"

definition client_get :: "client_settings \<Rightarrow> node_id \<Rightarrow> client_party option" where
  "client_get cs i = cs_parties cs i"

definition client_get_all_ids :: "(node_id set \<Rightarrow> node_id list) \<Rightarrow> client_settings \<Rightarrow> node_id list" where
  "client_get_all_ids order cs = order (dom (cs_parties cs))"

definition default_client_mode :: client_mode where
  "default_client_mode = LetoBroadcast"

definition default_confirmation_address :: string where
  "default_confirmation_address = ''0.0.0.0''"

text \<open>The servers a client sends to.\<close>

fun client_peer_map :: "client_settings \<Rightarrow> node_id list \<Rightarrow> (node_id \<rightharpoonup> socket_addr) \<Rightarrow> (node_id \<rightharpoonup> socket_addr) outcome" where
  "client_peer_map cs [] m = Ok m"
| "client_peer_map cs (i # is) m =
     bind_o (ok_or (NotInConfig i) (client_get cs i)) (\<lambda>pty.
     bind_o (to_socket_address (cp_address pty) (cp_port pty)) (\<lambda>addr.
     client_peer_map cs is (m(i \<mapsto> addr))))"

subsection \<open>The client's state\<close>

definition STRESS_MAX_OUTSTANDING :: nat where
  "STRESS_MAX_OUTSTANDING = 500000"

definition STALE_US :: nat where
  "STALE_US = 60 * 1000000"

record 'tx client_ops =
  co_mock :: "nat \<Rightarrow> node_id \<Rightarrow> nat \<Rightarrow> bool \<Rightarrow> 64 word \<Rightarrow> 'tx"
  co_hash :: "'tx \<Rightarrow> digest"
  co_ser :: "'tx client_msg \<Rightarrow> bytes option"
  co_zser :: "'tx zeus_client_msg \<Rightarrow> bytes option"

datatype 'tx client_out = ToAll "node_id list" nat "'tx client_msg" | ToOne node_id "'tx zeus_client_msg"

record 'tx stressor =
  sr_id :: node_id
  sr_settings :: client_settings
  sr_all_ids :: "node_id list"
  sr_reply_to :: socket_addr
  sr_eleader :: "node_id option"
  sr_tx_id :: nat
  sr_sample_id :: "64 word"
  sr_send_ts :: "digest \<rightharpoonup> nat"
  sr_hist :: "nat list"
  sr_emitted :: "nat list"
  sr_out :: "'tx client_out list"

definition target_eleader :: "client_mode \<Rightarrow> node_id option" where
  "target_eleader mode = (case mode of
     LetoBroadcast \<Rightarrow> None
   | ZeusEleaderOnly (Some i) \<Rightarrow> Some i
   | ZeusEleaderOnly None \<Rightarrow> Some 0)"

definition stressor_start ::
  "(node_id set \<Rightarrow> node_id list) \<Rightarrow> node_id \<Rightarrow> client_settings \<Rightarrow> 64 word \<Rightarrow> 'tx stressor outcome" where
  "stressor_start order my_id cs sample_id =
     bind_o (if cb_burst_interval_ms (cs_bench cs) = 0 then Panic else Ok ()) (\<lambda>_.
     let all_ids = client_get_all_ids order cs in
     bind_o (client_peer_map cs all_ids Map.empty) (\<lambda>_.
     bind_o (to_socket_address (cs_confirmation_address cs) (cs_confirmation_port cs)) (\<lambda>my_addr.
     Ok \<lparr>sr_id = my_id, sr_settings = cs, sr_all_ids = all_ids, sr_reply_to = my_addr,
         sr_eleader = target_eleader (cs_mode cs), sr_tx_id = 0, sr_sample_id = sample_id,
         sr_send_ts = Map.empty, sr_hist = [], sr_emitted = [], sr_out = []\<rparr>)))"

subsection \<open>One burst\<close>

definition outstanding :: "'tx stressor \<Rightarrow> nat" where
  "outstanding s = card (dom (sr_send_ts s))"

definition retain_values :: "('v \<Rightarrow> bool) \<Rightarrow> ('k \<rightharpoonup> 'v) \<Rightarrow> ('k \<rightharpoonup> 'v)" where
  "retain_values P m = (\<lambda>k. case m k of None \<Rightarrow> None | Some v \<Rightarrow> if P v then Some v else None)"

text \<open>The size of a burst, after old entries were dropped when the cap is reached. \<^verbatim>\<open>checked_sub\<close> on an
  instant fails in the first minute.\<close>

definition prune_stale :: "nat \<Rightarrow> 'tx stressor \<Rightarrow> 'tx stressor" where
  "prune_stale now s =
     (if now < STALE_US then s
      else s\<lparr>sr_send_ts := retain_values (\<lambda>t. now - STALE_US < t) (sr_send_ts s)\<rparr>)"

definition this_burst :: "nat \<Rightarrow> 'tx stressor \<Rightarrow> nat \<times> 'tx stressor" where
  "this_burst now s =
     (let burst_tx = cb_txs_per_burst (cs_bench (sr_settings s)) in
      if STRESS_MAX_OUTSTANDING \<le> outstanding s
      then (let s1 = prune_stale now s in
            if STRESS_MAX_OUTSTANDING \<le> outstanding s1 then (1, s1) else (burst_tx, s1))
      else (burst_tx, s))"

definition burst_batch :: "'tx client_ops \<Rightarrow> nat \<Rightarrow> 'tx stressor \<Rightarrow> 'tx list" where
  "burst_batch ops k s =
     map (\<lambda>i. co_mock ops (sr_tx_id s + i) (sr_id s) (cb_tx_size (cs_bench (sr_settings s))) (i = 0) (sr_sample_id s)) [0..<k]"

definition client_fault_threshold :: "nat \<Rightarrow> nat" where
  "client_fault_threshold n = (n - 1) div 3"

text \<open>Sending fails, and ends the client, only when the message does not serialise.\<close>

definition send_batch :: "'tx client_ops \<Rightarrow> 'tx list \<Rightarrow> 'tx stressor \<Rightarrow> 'tx client_out outcome" where
  "send_batch ops b s = (case cs_mode (sr_settings s) of
     LetoBroadcast \<Rightarrow>
       (let msg = NewBatch b (sr_reply_to s) in
        case co_ser ops msg of
          None \<Rightarrow> Err DecodeError
        | Some _ \<Rightarrow> Ok (ToAll (sr_all_ids s) (client_fault_threshold (length (sr_all_ids s))) msg))
   | ZeusEleaderOnly _ \<Rightarrow>
       (case sr_eleader s of
          None \<Rightarrow> Panic
        | Some eleader \<Rightarrow>
            (let msg = ZeusNewBatch b (sr_reply_to s) in
             case co_zser ops msg of None \<Rightarrow> Err DecodeError | Some _ \<Rightarrow> Ok (ToOne eleader msg))))"

definition burst_step :: "'tx client_ops \<Rightarrow> nat \<Rightarrow> 'tx stressor \<Rightarrow> unit outcome \<times> 'tx stressor" where
  "burst_step ops now s =
     (let (k, s1) = this_burst now s;
          b = burst_batch ops k s1;
          s2 = s1\<lparr>sr_tx_id := sr_tx_id s1 + k,
                  sr_send_ts := foldl (\<lambda>m tx. m(co_hash ops tx \<mapsto> now)) (sr_send_ts s1) b\<rparr>
      in case send_batch ops b s2 of
           Ok out \<Rightarrow> (Ok (), s2\<lparr>sr_out := sr_out s2 @ [out], sr_sample_id := sr_sample_id s2 + 1\<rparr>)
         | Err e \<Rightarrow> (Err e, s2)
         | Panic \<Rightarrow> (Panic, s2))"

subsection \<open>Confirmations and the median\<close>

definition on_confirmation :: "nat \<Rightarrow> digest \<Rightarrow> 'tx stressor \<Rightarrow> 'tx stressor" where
  "on_confirmation now h s = (case sr_send_ts s h of
     None \<Rightarrow> s
   | Some sent \<Rightarrow> s\<lparr>sr_send_ts := (sr_send_ts s)(h := None), sr_hist := sr_hist s @ [(now - sent) mod 2 ^ 64]\<rparr>)"

text \<open>The sum of two samples wraps in a release build.\<close>

definition median_us :: "nat list \<Rightarrow> nat" where
  "median_us hist =
     (let v = sort hist; mid = length v div 2 in
      if even (length v) then ((v ! (mid - 1) + v ! mid) mod 2 ^ 64) div 2 else v ! mid)"

definition emit_step :: "'tx stressor \<Rightarrow> 'tx stressor" where
  "emit_step s =
     (if cb_emit_dp (cs_bench (sr_settings s)) \<and> sr_hist s \<noteq> []
      then s\<lparr>sr_emitted := sr_emitted s @ [median_us (sr_hist s)], sr_hist := []\<rparr> else s)"

text \<open>What the confirmation listeners forward of what arrives.\<close>

definition leto_confirmation :: "error + 'tx client_msg \<Rightarrow> digest list" where
  "leto_confirmation m = (case m of Inr (Confirmation h) \<Rightarrow> [h] | Inr _ \<Rightarrow> [] | Inl _ \<Rightarrow> [])"

definition zeus_confirmation :: "error + 'tx zeus_client_msg \<Rightarrow> digest list" where
  "zeus_confirmation m = (case m of Inr (ZeusConfirmation h) \<Rightarrow> [h] | Inr _ \<Rightarrow> [] | Inl _ \<Rightarrow> [])"

subsection \<open>The loop\<close>

datatype stress_event = StressExit | BurstDue nat | ConfirmationIn "(nat \<times> digest) option" | EmitDue

text \<open>One turn of the select loop; an exit or a closed channel ends it.\<close>

definition stress_step :: "'tx client_ops \<Rightarrow> stress_event \<Rightarrow> 'tx stressor \<Rightarrow> bool outcome \<times> 'tx stressor" where
  "stress_step ops ev s = (case ev of
     StressExit \<Rightarrow> (Ok False, s)
   | BurstDue now \<Rightarrow> (case burst_step ops now s of
       (Ok _, s') \<Rightarrow> (Ok True, s') | (Err e, s') \<Rightarrow> (Err e, s') | (Panic, s') \<Rightarrow> (Panic, s'))
   | ConfirmationIn None \<Rightarrow> (Ok False, s)
   | ConfirmationIn (Some (now, h)) \<Rightarrow> (Ok True, on_confirmation now h s)
   | EmitDue \<Rightarrow> (Ok True, emit_step s))"

text \<open>The client after a run that has not ended.\<close>

fun stress_run :: "'tx client_ops \<Rightarrow> stress_event list \<Rightarrow> 'tx stressor \<Rightarrow> 'tx stressor option" where
  "stress_run ops [] s = Some s"
| "stress_run ops (ev # evs) s = (case stress_step ops ev s of
     (Ok True, s') \<Rightarrow> stress_run ops evs s'
   | _ \<Rightarrow> None)"

subsection \<open>How much is outstanding\<close>

definition aged :: "(nat \<Rightarrow> bool) \<Rightarrow> ('k \<rightharpoonup> nat) \<Rightarrow> 'k set" where
  "aged P m = {k. \<exists>t. m k = Some t \<and> P t}"

lemma aged_dom: "aged P m \<subseteq> dom m" "aged (\<lambda>_. True) m = dom m"
  by (auto simp: aged_def)

lemma aged_upd:
  assumes "finite (dom m)"
  shows "card (aged P (m(k \<mapsto> t))) \<le> card (aged P m) + (if P t then 1 else 0)"
proof -
  have sub: "aged P (m(k \<mapsto> t)) \<subseteq> (if P t then insert k (aged P m) else aged P m)"
    by (auto simp: aged_def split: if_splits)
  have fin: "finite (aged P m)" using aged_dom(1) assms by (rule finite_subset)
  then have "card (aged P (m(k \<mapsto> t))) \<le> card (if P t then insert k (aged P m) else aged P m)"
    by (intro card_mono [OF _ sub]) simp
  also have "\<dots> \<le> card (aged P m) + (if P t then 1 else 0)" using fin by (simp add: card_insert_if)
  finally show ?thesis .
qed

lemma finite_upds: "finite (dom m) \<Longrightarrow> finite (dom (foldl (\<lambda>m x. m(f x \<mapsto> t)) m xs))"
  by (induction xs arbitrary: m) simp_all

lemma aged_upds:
  "finite (dom m) \<Longrightarrow> card (aged P (foldl (\<lambda>m x. m(f x \<mapsto> t)) m xs)) \<le> card (aged P m) + (if P t then length xs else 0)"
proof (induction xs arbitrary: m)
  case (Cons x xs)
  have "finite (dom (m(f x \<mapsto> t)))" using Cons.prems by simp
  from Cons.IH [OF this] aged_upd [OF Cons.prems, of P "f x" t] show ?case
    by (auto simp del: fun_upd_apply split: if_splits)
qed simp

text \<open>Every set of instants: what is outstanding from it is at most the cap, one full burst and the
  bursts at those instants.\<close>

definition burst_cap :: "'tx stressor \<Rightarrow> nat" where
  "burst_cap s = STRESS_MAX_OUTSTANDING - 1 + cb_txs_per_burst (cs_bench (sr_settings s))"

definition out_inv :: "nat list \<Rightarrow> 'tx stressor \<Rightarrow> bool" where
  "out_inv bs s \<longleftrightarrow> finite (dom (sr_send_ts s)) \<and>
     (\<forall>P. card (aged P (sr_send_ts s)) \<le> burst_cap s + length (filter P bs))"

lemma out_invD: "out_inv bs s \<Longrightarrow> finite (dom (sr_send_ts s))"
  "out_inv bs s \<Longrightarrow> card (aged P (sr_send_ts s)) \<le> burst_cap s + length (filter P bs)"
  by (simp_all add: out_inv_def)

lemma out_inv_sub:
  assumes "out_inv bs s" "sr_send_ts s' \<subseteq>\<^sub>m sr_send_ts s" "sr_settings s' = sr_settings s"
  shows "out_inv bs s'"
proof -
  have d: "dom (sr_send_ts s') \<subseteq> dom (sr_send_ts s)" using assms(2) by (rule map_le_implies_dom_le)
  have "card (aged P (sr_send_ts s')) \<le> card (aged P (sr_send_ts s))" for P
  proof (rule card_mono)
    show "finite (aged P (sr_send_ts s))" using aged_dom(1) out_invD(1) [OF assms(1)] by (rule finite_subset)
    show "aged P (sr_send_ts s') \<subseteq> aged P (sr_send_ts s)"
      using assms(2) by (force simp: aged_def map_le_def dom_def)
  qed
  moreover have "card (aged P (sr_send_ts s)) \<le> burst_cap s' + length (filter P bs)" for P
    using out_invD(2) [OF assms(1), of P] assms(3) by (simp add: burst_cap_def)
  ultimately show ?thesis
    unfolding out_inv_def using finite_subset [OF d out_invD(1) [OF assms(1)]] le_trans by blast
qed

lemma retain_values_le: "retain_values P m \<subseteq>\<^sub>m m"
  by (auto simp: map_le_def retain_values_def split: option.splits if_splits)

lemma prune_stale_facts:
  "sr_send_ts (prune_stale now s) \<subseteq>\<^sub>m sr_send_ts s" "sr_settings (prune_stale now s) = sr_settings s"
  "sr_id (prune_stale now s) = sr_id s" "sr_tx_id (prune_stale now s) = sr_tx_id s"
  "sr_send_ts (prune_stale now s) h = Some t \<Longrightarrow> now < t + STALE_US"
  by (auto simp: prune_stale_def retain_values_le)
     (auto simp: retain_values_def split: option.splits if_splits)

lemma this_burst_facts:
  assumes "this_burst now s = (k, s1)"
  shows "sr_send_ts s1 \<subseteq>\<^sub>m sr_send_ts s" "sr_settings s1 = sr_settings s" "sr_id s1 = sr_id s" "sr_tx_id s1 = sr_tx_id s"
    "(outstanding s1 < STRESS_MAX_OUTSTANDING \<and> k = cb_txs_per_burst (cs_bench (sr_settings s))) \<or>
      (k = 1 \<and> (\<forall>h t. sr_send_ts s1 h = Some t \<longrightarrow> now < t + STALE_US))"
  using assms prune_stale_facts [of now s]
  by (auto simp: this_burst_def Let_def split: if_splits)

lemma burst_step_ts:
  assumes "burst_step ops now s = (r, s')" "this_burst now s = (k, s1)"
  shows "sr_send_ts s' = foldl (\<lambda>m tx. m(co_hash ops tx \<mapsto> now)) (sr_send_ts s1) (burst_batch ops k s1)"
    "sr_settings s' = sr_settings s1" "sr_id s' = sr_id s1" "sr_tx_id s' = sr_tx_id s1 + k"
  using assms by (auto simp: burst_step_def Let_def split: outcome.splits)

lemma length_burst_batch [simp]: "length (burst_batch ops k s) = k"
  by (simp add: burst_batch_def)

lemma burst_inv:
  assumes I: "out_inv bs s" and b: "burst_step ops now s = (r, s')"
  shows "out_inv (bs @ [now]) s'"
    and "outstanding s' \<le> burst_cap s' + length (filter (\<lambda>t. now < t + STALE_US) (bs @ [now]))"
proof -
  obtain k s1 where k: "this_burst now s = (k, s1)" by fastforce
  note F = this_burst_facts [OF k] and T = burst_step_ts [OF b k]
  have I1: "out_inv bs s1" using I F(1,2) by (rule out_inv_sub)
  note fin = out_invD(1) [OF I1]
  have cap: "burst_cap s' = burst_cap s1" by (simp add: burst_cap_def T)
  have up: "card (aged P (sr_send_ts s')) \<le> card (aged P (sr_send_ts s1)) + (if P now then k else 0)" for P
    using aged_upds [OF fin, of P "co_hash ops" now "burst_batch ops k s1"] unfolding T(1) length_burst_batch .
  have all: "card (aged P (sr_send_ts s1)) \<le> outstanding s1" for P
    using card_mono [OF fin aged_dom(1)] by (simp add: outstanding_def)
  have bound: "card (aged P (sr_send_ts s')) \<le> burst_cap s' + length (filter P (bs @ [now]))" for P
    using F(5)
  proof
    assume "outstanding s1 < STRESS_MAX_OUTSTANDING \<and> k = cb_txs_per_burst (cs_bench (sr_settings s))"
    with up [of P] all [of P] F(2) show ?thesis unfolding cap by (auto simp: burst_cap_def split: if_splits)
  next
    assume "k = 1 \<and> (\<forall>h t. sr_send_ts s1 h = Some t \<longrightarrow> now < t + STALE_US)"
    with up [of P] out_invD(2) [OF I1, of P] show ?thesis by (auto simp: cap split: if_splits)
  qed
  have fin': "finite (dom (sr_send_ts s'))" unfolding T by (rule finite_upds [OF fin])
  with bound show "out_inv (bs @ [now]) s'" by (simp add: out_inv_def)
  show "outstanding s' \<le> burst_cap s' + length (filter (\<lambda>t. now < t + STALE_US) (bs @ [now]))"
    using F(5)
  proof
    assume "outstanding s1 < STRESS_MAX_OUTSTANDING \<and> k = cb_txs_per_burst (cs_bench (sr_settings s))"
    with up [of "\<lambda>_. True"] F(2) show ?thesis
      unfolding cap by (auto simp: burst_cap_def outstanding_def aged_dom split: if_splits)
  next
    assume a: "k = 1 \<and> (\<forall>h t. sr_send_ts s1 h = Some t \<longrightarrow> now < t + STALE_US)"
    have "aged (\<lambda>t. now < t + STALE_US) (sr_send_ts s1) = dom (sr_send_ts s1)"
      using a by (auto simp: aged_def)
    then have "outstanding s' \<le> card (aged (\<lambda>t. now < t + STALE_US) (sr_send_ts s1)) + 1"
      using up [of "\<lambda>_. True"] a by (simp add: outstanding_def aged_dom)
    moreover have "now < now + STALE_US" by (simp add: STALE_US_def)
    ultimately show ?thesis using out_invD(2) [OF I1, of "\<lambda>t. now < t + STALE_US"] by (simp add: cap)
  qed
qed

definition burst_times :: "stress_event list \<Rightarrow> nat list" where
  "burst_times evs = concat (map (\<lambda>ev. case ev of BurstDue t \<Rightarrow> [t] | _ \<Rightarrow> []) evs)"

lemma stress_step_inv:
  assumes "out_inv bs s" "stress_step ops ev s = (Ok True, s')"
  shows "out_inv (bs @ burst_times [ev]) s'"
proof (cases ev)
  case (BurstDue now)
  with assms(2) obtain u where "burst_step ops now s = (Ok u, s')"
    by (auto simp: stress_step_def split: prod.splits outcome.splits)
  from burst_inv(1) [OF assms(1) this] show ?thesis by (simp add: BurstDue burst_times_def)
next
  case (ConfirmationIn c)
  with assms(2) obtain now h where c: "s' = on_confirmation now h s"
    by (auto simp: stress_step_def split: option.splits prod.splits)
  have "sr_send_ts s' \<subseteq>\<^sub>m sr_send_ts s" "sr_settings s' = sr_settings s"
    by (auto simp: c on_confirmation_def map_le_def split: option.splits)
  from out_inv_sub [OF assms(1) this] show ?thesis by (simp add: ConfirmationIn burst_times_def)
next
  case EmitDue
  with assms(2) have "s' = emit_step s" by (simp add: stress_step_def)
  then have "sr_send_ts s' \<subseteq>\<^sub>m sr_send_ts s" "sr_settings s' = sr_settings s"
    by (simp_all add: emit_step_def)
  from out_inv_sub [OF assms(1) this] show ?thesis by (simp add: EmitDue burst_times_def)
qed (use assms in \<open>simp add: stress_step_def\<close>)

lemma stress_run_inv:
  "out_inv bs s \<Longrightarrow> stress_run ops evs s = Some s' \<Longrightarrow> out_inv (bs @ burst_times evs) s'"
proof (induction evs arbitrary: bs s)
  case Nil
  then show ?case by (simp add: burst_times_def)
next
  case (Cons ev evs)
  then obtain s1 where s1: "stress_step ops ev s = (Ok True, s1)" "stress_run ops evs s1 = Some s'"
    by (auto split: prod.splits outcome.splits bool.splits)
  from Cons.IH [OF stress_step_inv [OF Cons.prems(1) s1(1)] s1(2)] show ?case by (simp add: burst_times_def)
qed

lemma stress_run_append:
  "stress_run ops (xs @ ys) s = (case stress_run ops xs s of None \<Rightarrow> None | Some s' \<Rightarrow> stress_run ops ys s')"
  by (induction xs arbitrary: s) (auto split: prod.splits outcome.splits bool.splits)

lemma start_inv: "stressor_start order i cs sid = Ok s \<Longrightarrow> out_inv [] s"
  by (auto simp: stressor_start_def bind_o_Ok_iff Let_def out_inv_def aged_def split: if_splits)

section \<open>Properties\<close>

text \<open>C22. Closed loop: right after any burst, what a client has outstanding is at most one full burst above
  the cap of 500000, and one transaction for each burst of the last minute. The cap alone is not a
  bound: a saturated client trickles on, and only age removes what is never confirmed.\<close>

theorem stressor_outstanding_bounded:
  assumes "stressor_start order i cs sample_id = Ok s0" "stress_run ops (evs @ [BurstDue now]) s0 = Some s"
  shows "outstanding s \<le> STRESS_MAX_OUTSTANDING - 1 + cb_txs_per_burst (cs_bench (sr_settings s)) +
    length (filter (\<lambda>t. now < t + STALE_US) (burst_times evs @ [now]))"
proof -
  from assms(2) obtain s1 where s1: "stress_run ops evs s0 = Some s1" "stress_run ops [BurstDue now] s1 = Some s"
    by (auto simp: stress_run_append split: option.splits)
  from s1(2) obtain u where "burst_step ops now s1 = (Ok u, s)"
    by (auto simp: stress_step_def split: prod.splits outcome.splits bool.splits)
  from burst_inv(2) [OF stress_run_inv [OF start_inv [OF assms(1)] s1(1)] this] show ?thesis
    by (simp add: burst_cap_def)
qed

lemma local_address: "to_socket_address ''0.0.0.0'' 0 = Ok (0, 0)"
  by code_simp

abbreviation demo_client :: client_settings where
  "demo_client \<equiv> \<lparr>cs_parties = Map.empty, cs_bench = \<lparr>cb_tx_size = 512, cb_burst_interval_ms = 50,
     cb_txs_per_burst = 2, cb_bench_emit_window_secs = 5, cb_emit_dp = True\<rparr>, cs_mode = LetoBroadcast,
     cs_confirmation_address = ''0.0.0.0'', cs_confirmation_port = 0\<rparr>"

abbreviation demo_ops :: "simple_tx client_ops" where
  "demo_ops \<equiv> \<lparr>co_mock = mock_transaction plain_bincode, co_hash = (\<lambda>tx. of_nat (stx_nonce tx)),
     co_ser = (\<lambda>_. Some []), co_zser = (\<lambda>_. Some [])\<rparr>"

lemma demo_start:
  "stressor_start (\<lambda>_. []) 7 demo_client 5 = Ok \<lparr>sr_id = 7, sr_settings = demo_client, sr_all_ids = [],
     sr_reply_to = (0, 0), sr_eleader = None, sr_tx_id = 0, sr_sample_id = 5, sr_send_ts = Map.empty,
     sr_hist = [], sr_emitted = [], sr_out = []\<rparr>"
  by (simp add: stressor_start_def client_get_all_ids_def local_address target_eleader_def Let_def)

theorem stressor_outstanding_bounded_witness:
  "\<exists>s0 s. stressor_start (\<lambda>_. []) 7 demo_client 5 = Ok s0 \<and>
     stress_run demo_ops ([] @ [BurstDue 50000]) s0 = Some s \<and> outstanding s \<le> 500002"
proof -
  obtain s0 where s0: "stressor_start (\<lambda>_. []) 7 demo_client 5 = Ok s0" "cs_mode (sr_settings s0) = LetoBroadcast"
      "cb_txs_per_burst (cs_bench (sr_settings s0)) = 2" "outstanding (s0 :: simple_tx stressor) = 0"
    by (simp add: demo_start outstanding_def)
  have "\<exists>s. stress_run demo_ops ([] @ [BurstDue 50000]) s0 = Some s \<and> sr_settings s = sr_settings s0"
    using s0(2,4) by (simp add: stress_step_def burst_step_def this_burst_def send_batch_def
        STRESS_MAX_OUTSTANDING_def Let_def)
  then obtain s where s: "stress_run demo_ops ([] @ [BurstDue 50000]) s0 = Some s" "sr_settings s = sr_settings s0" by blast
  from stressor_outstanding_bounded [OF s0(1) s(1)] s(2) s0(3)
  have "outstanding s \<le> 500002" by (simp add: STRESS_MAX_OUTSTANDING_def burst_times_def STALE_US_def)
  with s0(1) s(1) show ?thesis by blast
qed

end
