(* ===== verification/Keys.thy ===== *)
theory Keys
  imports Types
begin

section \<open>Key material\<close>

text \<open>
  \<^verbatim>\<open>keys.rs\<close>: the key configuration of a node, the raw form it is stored in, and key generation.
  The key types of the \<^verbatim>\<open>crypto\<close> crate are type parameters (Ed25519 secret and public keys, then
  Secp256k1 ones) and their encodings the record \<open>key_codec\<close>. The \<^verbatim>\<open>RSA\<close> feature is off, as it
  is in the build: there the code says \<^verbatim>\<open>unreachable!()\<close>. The iteration order of a table is the
  parameter \<open>order\<close>.
\<close>

datatype algorithm = ED25519 | SECP256K1 | RSA

datatype ('ed, 'secp) either_key = Ed25519 'ed | Secp256k1 'secp

record ('esk, 'epk, 'ssk, 'spk) key_codec =
  ed_sk_ser :: "'esk \<Rightarrow> error + bytes"
  ed_sk_de :: "bytes \<Rightarrow> error + 'esk"
  ed_pk_ser :: "'epk \<Rightarrow> error + bytes"
  ed_pk_de :: "bytes \<Rightarrow> error + 'epk"
  secp_sk_to_bytes :: "'ssk \<Rightarrow> bytes"
  secp_sk_from_bytes :: "bytes \<Rightarrow> error + 'ssk"
  secp_pk_encode :: "'spk \<Rightarrow> bytes"
  secp_pk_decode :: "bytes \<Rightarrow> error + 'spk"

text \<open>What the code relies on: encoding works and decoding inverts it.\<close>

definition key_codec_ok :: "('esk, 'epk, 'ssk, 'spk) key_codec \<Rightarrow> bool" where
  "key_codec_ok kc \<longleftrightarrow>
     (\<forall>k. \<exists>bs. ed_sk_ser kc k = Inr bs \<and> ed_sk_de kc bs = Inr k) \<and>
     (\<forall>k. \<exists>bs. ed_pk_ser kc k = Inr bs \<and> ed_pk_de kc bs = Inr k) \<and>
     (\<forall>k. secp_sk_from_bytes kc (secp_sk_to_bytes kc k) = Inr k) \<and>
     (\<forall>k. secp_pk_decode kc (secp_pk_encode kc k) = Inr k)"

record raw_key_config =
  rk_alg :: algorithm
  rk_secret :: bytes
  rk_system :: "node_id \<rightharpoonup> bytes"

record ('esk, 'epk, 'ssk, 'spk) key_config =
  kc_alg :: algorithm
  kc_secret :: "('esk, 'ssk) either_key"
  kc_system :: "node_id \<rightharpoonup> ('epk, 'spk) either_key"

subsection \<open>Conversions\<close>

text \<open>A table converted entry by entry; the first failure is the result.\<close>

fun convert_entries ::
  "('a \<Rightarrow> 'b outcome) \<Rightarrow> (node_id \<rightharpoonup> 'a) \<Rightarrow> node_id list \<Rightarrow> (node_id \<rightharpoonup> 'b) \<Rightarrow> (node_id \<rightharpoonup> 'b) outcome" where
  "convert_entries f m [] acc = Ok acc"
| "convert_entries f m (i # is) acc = (case m i of
     None \<Rightarrow> convert_entries f m is acc
   | Some a \<Rightarrow> bind_o (f a) (\<lambda>b. convert_entries f m is (acc(i \<mapsto> b))))"

definition secret_of_raw ::
  "('esk, 'epk, 'ssk, 'spk) key_codec \<Rightarrow> algorithm \<Rightarrow> bytes \<Rightarrow> ('esk, 'ssk) either_key outcome" where
  "secret_of_raw kc alg bs = (case alg of
     ED25519 \<Rightarrow> bind_o (of_result (ed_sk_de kc bs)) (\<lambda>k. Ok (Ed25519 k))
   | SECP256K1 \<Rightarrow> bind_o (of_result (secp_sk_from_bytes kc bs)) (\<lambda>k. Ok (Secp256k1 k))
   | RSA \<Rightarrow> Panic)"

definition public_of_raw ::
  "('esk, 'epk, 'ssk, 'spk) key_codec \<Rightarrow> algorithm \<Rightarrow> bytes \<Rightarrow> ('epk, 'spk) either_key outcome" where
  "public_of_raw kc alg bs = (case alg of
     ED25519 \<Rightarrow> bind_o (of_result (ed_pk_de kc bs)) (\<lambda>k. Ok (Ed25519 k))
   | SECP256K1 \<Rightarrow> bind_o (of_result (secp_pk_decode kc bs)) (\<lambda>k. Ok (Secp256k1 k))
   | RSA \<Rightarrow> Panic)"

definition key_config_of_raw ::
  "(node_id set \<Rightarrow> node_id list) \<Rightarrow> ('esk, 'epk, 'ssk, 'spk) key_codec \<Rightarrow> raw_key_config \<Rightarrow>
    ('esk, 'epk, 'ssk, 'spk) key_config outcome" where
  "key_config_of_raw order kc raw =
     bind_o (secret_of_raw kc (rk_alg raw) (rk_secret raw)) (\<lambda>sk.
     bind_o (convert_entries (public_of_raw kc (rk_alg raw)) (rk_system raw) (order (dom (rk_system raw))) Map.empty) (\<lambda>sys.
     Ok \<lparr>kc_alg = rk_alg raw, kc_secret = sk, kc_system = sys\<rparr>))"

definition public_to_raw :: "('esk, 'epk, 'ssk, 'spk) key_codec \<Rightarrow> ('epk, 'spk) either_key \<Rightarrow> bytes outcome" where
  "public_to_raw kc pk = (case pk of
     Ed25519 k \<Rightarrow> of_result (ed_pk_ser kc k) | Secp256k1 k \<Rightarrow> Ok (secp_pk_encode kc k))"

definition secret_to_raw :: "('esk, 'epk, 'ssk, 'spk) key_codec \<Rightarrow> ('esk, 'ssk) either_key \<Rightarrow> bytes outcome" where
  "secret_to_raw kc sk = (case sk of
     Ed25519 k \<Rightarrow> of_result (ed_sk_ser kc k) | Secp256k1 k \<Rightarrow> Ok (secp_sk_to_bytes kc k))"

definition raw_of_key_config ::
  "(node_id set \<Rightarrow> node_id list) \<Rightarrow> ('esk, 'epk, 'ssk, 'spk) key_codec \<Rightarrow>
    ('esk, 'epk, 'ssk, 'spk) key_config \<Rightarrow> raw_key_config outcome" where
  "raw_of_key_config order kc c =
     bind_o (convert_entries (public_to_raw kc) (kc_system c) (order (dom (kc_system c))) Map.empty) (\<lambda>sys.
     bind_o (secret_to_raw kc (kc_secret c)) (\<lambda>bs.
     Ok \<lparr>rk_alg = kc_alg c, rk_secret = bs, rk_system = sys\<rparr>))"

text \<open>\<^verbatim>\<open>Serialize\<close> and \<^verbatim>\<open>Deserialize\<close> go through the raw form and \<^verbatim>\<open>expect\<close> the conversion to work;
  \<open>Inl\<close> is a file that does not even parse as a raw configuration.\<close>

definition expect_ok :: "'a outcome \<Rightarrow> 'a outcome" where
  "expect_ok r = (case r of Ok a \<Rightarrow> Ok a | Err _ \<Rightarrow> Panic | Panic \<Rightarrow> Panic)"

definition serialize_keys ::
  "(node_id set \<Rightarrow> node_id list) \<Rightarrow> ('esk, 'epk, 'ssk, 'spk) key_codec \<Rightarrow>
    ('esk, 'epk, 'ssk, 'spk) key_config \<Rightarrow> raw_key_config outcome" where
  "serialize_keys order kc c = expect_ok (raw_of_key_config order kc c)"

definition deserialize_keys ::
  "(node_id set \<Rightarrow> node_id list) \<Rightarrow> ('esk, 'epk, 'ssk, 'spk) key_codec \<Rightarrow> error + raw_key_config \<Rightarrow>
    ('esk, 'epk, 'ssk, 'spk) key_config outcome" where
  "deserialize_keys order kc r = bind_o (of_result r) (\<lambda>raw. expect_ok (key_config_of_raw order kc raw))"

subsection \<open>Generation\<close>

text \<open>The two generators, for the key pair of the \<open>i\<close>-th node.\<close>

record ('esk, 'epk, 'ssk, 'spk) key_gen =
  gen_ed25519 :: "nat \<Rightarrow> error + 'esk \<times> 'epk"
  gen_secp256k1 :: "nat \<Rightarrow> 'ssk \<times> 'spk"

definition generate_pair ::
  "('esk, 'epk, 'ssk, 'spk) key_gen \<Rightarrow> algorithm \<Rightarrow> nat \<Rightarrow> (('esk, 'ssk) either_key \<times> ('epk, 'spk) either_key) outcome" where
  "generate_pair g alg i = (case alg of
     RSA \<Rightarrow> Panic
   | ED25519 \<Rightarrow> bind_o (of_result (gen_ed25519 g i)) (\<lambda>(sk, pk). Ok (Ed25519 sk, Ed25519 pk))
   | SECP256K1 \<Rightarrow> (let (sk, pk) = gen_secp256k1 g i in Ok (Secp256k1 sk, Secp256k1 pk)))"

fun generate_pairs ::
  "('esk, 'epk, 'ssk, 'spk) key_gen \<Rightarrow> algorithm \<Rightarrow> nat list \<Rightarrow>
    (node_id \<rightharpoonup> ('esk, 'ssk) either_key) \<times> (node_id \<rightharpoonup> ('epk, 'spk) either_key) \<Rightarrow>
    ((node_id \<rightharpoonup> ('esk, 'ssk) either_key) \<times> (node_id \<rightharpoonup> ('epk, 'spk) either_key)) outcome" where
  "generate_pairs g alg [] acc = Ok acc"
| "generate_pairs g alg (i # is) (sks, sys) =
     bind_o (generate_pair g alg i) (\<lambda>(sk, pk). generate_pairs g alg is (sks(i \<mapsto> sk), sys(i \<mapsto> pk)))"

fun assemble_configs ::
  "algorithm \<Rightarrow> (node_id \<rightharpoonup> ('epk, 'spk) either_key) \<Rightarrow> nat list \<Rightarrow> (node_id \<rightharpoonup> ('esk, 'ssk) either_key) \<Rightarrow>
    ('esk, 'epk, 'ssk, 'spk) key_config list outcome" where
  "assemble_configs alg sys [] sks = Ok []"
| "assemble_configs alg sys (i # is) sks = (case sks i of
     None \<Rightarrow> Panic
   | Some sk \<Rightarrow> bind_o (assemble_configs alg sys is (sks(i := None))) (\<lambda>cs.
       Ok (\<lparr>kc_alg = alg, kc_secret = sk, kc_system = sys\<rparr> # cs)))"

definition generate_keys ::
  "('esk, 'epk, 'ssk, 'spk) key_gen \<Rightarrow> algorithm \<Rightarrow> nat \<Rightarrow> ('esk, 'epk, 'ssk, 'spk) key_config list outcome" where
  "generate_keys g alg n =
     bind_o (generate_pairs g alg [0..<n] (Map.empty, Map.empty)) (\<lambda>(sks, sys). assemble_configs alg sys [0..<n] sks)"

subsection \<open>The round trip\<close>

definition key_of :: "algorithm \<Rightarrow> ('ed, 'secp) either_key \<Rightarrow> bool" where
  "key_of alg k = (case k of Ed25519 _ \<Rightarrow> alg = ED25519 | Secp256k1 _ \<Rightarrow> alg = SECP256K1)"

text \<open>All keys of a configuration are of its algorithm.\<close>

definition key_config_ok :: "('esk, 'epk, 'ssk, 'spk) key_config \<Rightarrow> bool" where
  "key_config_ok c \<longleftrightarrow> key_of (kc_alg c) (kc_secret c) \<and> (\<forall>i k. kc_system c i = Some k \<longrightarrow> key_of (kc_alg c) k)"

definition order_ok :: "(node_id set \<Rightarrow> node_id list) \<Rightarrow> bool" where
  "order_ok order \<longleftrightarrow> (\<forall>A. finite A \<longrightarrow> set (order A) = A)"

lemma secret_roundtrip:
  assumes "key_codec_ok kc" "key_of alg k"
  shows "\<exists>bs. secret_to_raw kc k = Ok bs \<and> secret_of_raw kc alg bs = Ok k"
proof (cases k)
  case (Ed25519 ek)
  from assms(1) obtain bs where "ed_sk_ser kc ek = Inr bs" "ed_sk_de kc bs = Inr ek"
    unfolding key_codec_ok_def by blast
  then show ?thesis using assms(2) by (simp add: Ed25519 key_of_def secret_to_raw_def secret_of_raw_def)
next
  case (Secp256k1 ek)
  then show ?thesis
    using assms by (simp add: key_of_def secret_to_raw_def secret_of_raw_def key_codec_ok_def)
qed

lemma public_roundtrip:
  assumes "key_codec_ok kc" "key_of alg k"
  shows "\<exists>bs. public_to_raw kc k = Ok bs \<and> public_of_raw kc alg bs = Ok k"
proof (cases k)
  case (Ed25519 ek)
  from assms(1) obtain bs where "ed_pk_ser kc ek = Inr bs" "ed_pk_de kc bs = Inr ek"
    unfolding key_codec_ok_def by blast
  then show ?thesis using assms(2) by (simp add: Ed25519 key_of_def public_to_raw_def public_of_raw_def)
next
  case (Secp256k1 ek)
  then show ?thesis
    using assms by (simp add: key_of_def public_to_raw_def public_of_raw_def key_codec_ok_def)
qed

text \<open>Converting every entry of a table gives the table of the converted entries.\<close>

lemma convert_entries_Ok:
  assumes "\<And>i a. i \<in> set is \<Longrightarrow> m i = Some a \<Longrightarrow> f a = Ok (g i)"
  shows "convert_entries f m is acc = Ok (\<lambda>i. if i \<in> set is \<and> m i \<noteq> None then Some (g i) else acc i)"
  using assms
proof (induction "is" arbitrary: acc)
  case Nil
  then show ?case by simp
next
  case (Cons j "is")
  have IH: "convert_entries f m is acc' = Ok (\<lambda>i. if i \<in> set is \<and> m i \<noteq> None then Some (g i) else acc' i)" for acc'
    by (rule Cons.IH) (rule Cons.prems, simp_all)
  show ?case
  proof (cases "m j")
    case None
    then show ?thesis by (simp only: convert_entries.simps IH option.case) (auto simp: fun_eq_iff)
  next
    case (Some a)
    then have "f a = Ok (g j)" using Cons.prems by simp
    with Some show ?thesis by (simp only: convert_entries.simps IH option.case bind_o_simps) (auto simp: fun_eq_iff)
  qed
qed

lemma convert_all:
  assumes "order_ok order" "finite (dom m)" "\<And>i a. m i = Some a \<Longrightarrow> f a = Ok (g i)"
  shows "convert_entries f m (order (dom m)) Map.empty = Ok (\<lambda>i. if m i \<noteq> None then Some (g i) else None)"
proof -
  have "set (order (dom m)) = dom m" using assms(1,2) by (simp add: order_ok_def)
  then show ?thesis
    by (subst convert_entries_Ok [where g = g]) (auto simp: assms(3) fun_eq_iff)
qed

lemma raw_roundtrip:
  assumes kc: "key_codec_ok kc" and o: "order_ok order" and fin: "finite (dom (kc_system c))" and ok: "key_config_ok c"
  shows "\<exists>raw. raw_of_key_config order kc c = Ok raw \<and> key_config_of_raw order kc raw = Ok (c :: ('esk, 'epk, 'ssk, 'spk) key_config)"
proof -
  have "\<exists>bs. \<forall>k. kc_system c i = Some k \<longrightarrow> public_to_raw kc k = Ok bs \<and> public_of_raw kc (kc_alg c) bs = Ok k" for i
    using ok public_roundtrip [OF kc, of "kc_alg c"]
    by (cases "kc_system c i") (fastforce simp: key_config_ok_def)+
  then obtain b where b: "\<And>i k. kc_system c i = Some k \<Longrightarrow> public_to_raw kc k = Ok (b i) \<and> public_of_raw kc (kc_alg c) (b i) = Ok k"
    by metis
  obtain bs where s: "secret_to_raw kc (kc_secret c) = Ok bs" "secret_of_raw kc (kc_alg c) bs = Ok (kc_secret c)"
    using secret_roundtrip [OF kc, of "kc_alg c" "kc_secret c"] ok by (auto simp: key_config_ok_def)
  define sys where "sys = (\<lambda>i. if kc_system c i \<noteq> None then Some (b i) else None)"
  have to: "convert_entries (public_to_raw kc) (kc_system c) (order (dom (kc_system c))) Map.empty = Ok sys"
    unfolding sys_def by (rule convert_all [OF o fin]) (simp add: b)
  have d: "dom sys = dom (kc_system c)" by (auto simp: sys_def split: if_splits)
  have "convert_entries (public_of_raw kc (kc_alg c)) sys (order (dom sys)) Map.empty =
      Ok (\<lambda>i. if sys i \<noteq> None then Some (the (kc_system c i)) else None)"
    by (rule convert_all [OF o]) (use fin d b in \<open>auto simp: sys_def split: if_splits\<close>)
  also have "(\<lambda>i. if sys i \<noteq> None then Some (the (kc_system c i)) else None) = kc_system c"
    by (auto simp: sys_def fun_eq_iff)
  finally show ?thesis
    using to s by (simp add: raw_of_key_config_def key_config_of_raw_def)
qed

subsection \<open>What generation gives\<close>

lemma generate_pairs_Ok:
  assumes "\<And>i. i \<in> set is \<Longrightarrow> generate_pair g alg i = Ok (sk i, pk i)"
  shows "generate_pairs g alg is (sks, sys) =
    Ok ((\<lambda>i. if i \<in> set is then Some (sk i) else sks i), (\<lambda>i. if i \<in> set is then Some (pk i) else sys i))"
  using assms
proof (induction "is" arbitrary: sks sys)
  case (Cons j "is")
  have IH: "generate_pairs g alg is (sks', sys') =
      Ok ((\<lambda>i. if i \<in> set is then Some (sk i) else sks' i), (\<lambda>i. if i \<in> set is then Some (pk i) else sys' i))" for sks' sys'
    by (rule Cons.IH) (rule Cons.prems, simp)
  show ?case using Cons.prems [of j] by (simp del: fun_upd_apply add: IH) (auto simp: fun_eq_iff)
qed simp

lemma assemble_configs_Ok:
  "distinct is \<Longrightarrow> (\<And>i. i \<in> set is \<Longrightarrow> sks i = Some (sk i)) \<Longrightarrow>
    assemble_configs alg sys is sks = Ok (map (\<lambda>i. \<lparr>kc_alg = alg, kc_secret = sk i, kc_system = sys\<rparr>) is)"
proof (induction "is" arbitrary: sks)
  case (Cons j "is")
  have "assemble_configs alg sys is (sks(j := None)) = Ok (map (\<lambda>i. \<lparr>kc_alg = alg, kc_secret = sk i, kc_system = sys\<rparr>) is)"
    by (rule Cons.IH) (use Cons.prems in auto)
  with Cons.prems(2) [of j] show ?case by simp
qed simp

lemma generate_keys_Ok:
  assumes "\<And>i. i < n \<Longrightarrow> generate_pair g alg i = Ok (sk i, pk i)"
  shows "generate_keys g alg n =
    Ok (map (\<lambda>i. \<lparr>kc_alg = alg, kc_secret = sk i, kc_system = (\<lambda>i. if i < n then Some (pk i) else None)\<rparr>) [0..<n])"
proof -
  have "generate_pairs g alg [0..<n] (Map.empty, Map.empty) =
      Ok ((\<lambda>i. if i < n then Some (sk i) else None), (\<lambda>i. if i < n then Some (pk i) else None))"
    by (subst generate_pairs_Ok [where sk = sk and pk = pk]) (simp_all add: assms)
  then show ?thesis
    by (simp add: generate_keys_def) (rule assemble_configs_Ok, simp_all)
qed

lemma generate_pair_key: "generate_pair g alg i = Ok (sk, pk) \<Longrightarrow> key_of alg sk \<and> key_of alg pk"
  by (auto simp: generate_pair_def key_of_def bind_o_Ok_iff of_result_def split: algorithm.splits sum.splits prod.splits)

section \<open>Properties\<close>

text \<open>C28. A key file reads back as it was written: every configuration whose keys are all of its algorithm
  survives serialisation, whatever order the tables are walked in. Generated configurations are such,
  one for each node, all with the same table, in which node \<open>i\<close> stands with the public half of the
  pair whose secret half its own configuration holds.\<close>

theorem key_config_roundtrip:
  assumes "key_codec_ok kc" "order_ok order"
  shows "(\<forall>c. key_config_ok c \<longrightarrow> finite (dom (kc_system c)) \<longrightarrow>
      (\<exists>raw. serialize_keys order kc c = Ok raw \<and> deserialize_keys order kc (Inr raw) = Ok c)) \<and>
    ((\<forall>i < n. generate_pair g alg i = Ok (sk i, pk i)) \<longrightarrow>
      (\<exists>cs. generate_keys g alg n = Ok cs \<and> length cs = n \<and>
        (\<forall>i < n. kc_secret (cs ! i) = sk i \<and> kc_system (cs ! i) = (\<lambda>i. if i < n then Some (pk i) else None) \<and>
          (\<exists>raw. serialize_keys order kc (cs ! i) = Ok raw \<and> deserialize_keys order kc (Inr raw) = Ok (cs ! i)))))"
proof (rule conjI)
  have rt: "\<exists>raw. serialize_keys order kc c = Ok raw \<and> deserialize_keys order kc (Inr raw) = Ok c"
    if "key_config_ok c" "finite (dom (kc_system c))" for c
    using raw_roundtrip [OF assms that(2,1)] by (auto simp: serialize_keys_def deserialize_keys_def expect_ok_def)
  then show "\<forall>c. key_config_ok c \<longrightarrow> finite (dom (kc_system c)) \<longrightarrow>
      (\<exists>raw. serialize_keys order kc c = Ok raw \<and> deserialize_keys order kc (Inr raw) = Ok c)" by blast
  show "(\<forall>i < n. generate_pair g alg i = Ok (sk i, pk i)) \<longrightarrow>
      (\<exists>cs. generate_keys g alg n = Ok cs \<and> length cs = n \<and>
        (\<forall>i < n. kc_secret (cs ! i) = sk i \<and> kc_system (cs ! i) = (\<lambda>i. if i < n then Some (pk i) else None) \<and>
          (\<exists>raw. serialize_keys order kc (cs ! i) = Ok raw \<and> deserialize_keys order kc (Inr raw) = Ok (cs ! i))))"
  proof
  assume "\<forall>i < n. generate_pair g alg i = Ok (sk i, pk i)"
  then have p: "\<And>i. i < n \<Longrightarrow> generate_pair g alg i = Ok (sk i, pk i)" by blast
  let ?c = "\<lambda>i. \<lparr>kc_alg = alg, kc_secret = sk i, kc_system = (\<lambda>i. if i < n then Some (pk i) else None)\<rparr>"
  have "key_config_ok (?c i)" if "i < n" for i
    using generate_pair_key [OF p] that by (auto simp: key_config_ok_def split: if_splits)
  moreover have "finite (dom (kc_system (?c i)))" for i
    by (rule finite_subset [of _ "{..<n}"]) (auto split: if_splits)
  ultimately have "\<exists>raw. serialize_keys order kc (?c i) = Ok raw \<and> deserialize_keys order kc (Inr raw) = Ok (?c i)"
    if "i < n" for i
    using rt that by blast
  then show "\<exists>cs. generate_keys g alg n = Ok cs \<and> length cs = n \<and>
        (\<forall>i < n. kc_secret (cs ! i) = sk i \<and> kc_system (cs ! i) = (\<lambda>i. if i < n then Some (pk i) else None) \<and>
          (\<exists>raw. serialize_keys order kc (cs ! i) = Ok raw \<and> deserialize_keys order kc (Inr raw) = Ok (cs ! i)))"
    using generate_keys_Ok [OF p] by (intro exI [of _ "map ?c [0..<n]"]) simp
  qed
qed

abbreviation demo_codec :: "(bytes, bytes, bytes, bytes) key_codec" where
  "demo_codec \<equiv> \<lparr>ed_sk_ser = Inr, ed_sk_de = Inr, ed_pk_ser = Inr, ed_pk_de = Inr, secp_sk_to_bytes = id,
     secp_sk_from_bytes = Inr, secp_pk_encode = id, secp_pk_decode = Inr\<rparr>"

abbreviation demo_gen :: "(bytes, bytes, bytes, bytes) key_gen" where
  "demo_gen \<equiv> \<lparr>gen_ed25519 = (\<lambda>i. Inr ([of_nat i], [of_nat i + 1])), gen_secp256k1 = (\<lambda>i. ([], []))\<rparr>"

theorem key_config_roundtrip_witness:
  "\<exists>cs. generate_keys demo_gen ED25519 4 = Ok cs \<and>
     length cs = 4 \<and> kc_secret (cs ! 2) = Ed25519 [2 :: 8 word]"
proof -
  have o: "order_ok sorted_list_of_set" by (simp add: order_ok_def)
  have c: "key_codec_ok demo_codec" by (simp add: key_codec_ok_def)
  have "\<forall>i < 4. generate_pair demo_gen ED25519 i = Ok (Ed25519 [of_nat i], Ed25519 [of_nat i + 1])"
    by (simp add: generate_pair_def)
  from conjunct2 [OF key_config_roundtrip [OF c o], rule_format, OF this [rule_format]] obtain cs where cs: "generate_keys demo_gen ED25519 4 = Ok cs" "length cs = 4"
    "\<forall>i < 4. kc_secret (cs ! i) = Ed25519 [of_nat i]" by blast
  from cs(3) have "kc_secret (cs ! 2) = Ed25519 [2 :: 8 word]" by simp
  with cs(1,2) show ?thesis by blast
qed

text \<open>A key file never yields an error value once it parses: key bytes that do not decode, and an
  algorithm that is not built in, end the process.\<close>

theorem bad_key_file_crashes:
  shows "deserialize_keys order kc (Inr raw) \<noteq> Err e"
    and "secret_of_raw kc (rk_alg raw) (rk_secret raw) = Err e \<Longrightarrow> deserialize_keys order kc (Inr raw) = Panic"
    and "rk_alg raw = RSA \<Longrightarrow> deserialize_keys order kc (Inr raw) = Panic"
  by (auto simp: deserialize_keys_def expect_ok_def key_config_of_raw_def secret_of_raw_def split: outcome.splits)

theorem bad_key_file_crashes_witness:
  "deserialize_keys sorted_list_of_set demo_codec (Inr \<lparr>rk_alg = RSA, rk_secret = [], rk_system = Map.empty\<rparr>) = Panic"
  by (rule bad_key_file_crashes(3)) simp

end
