(* ===== verification/NodeCli.thy ===== *)
theory NodeCli
  imports Stressor Keys
begin

section \<open>Command line and configuration files\<close>

text \<open>
  \<^verbatim>\<open>node/src/cli.rs\<close> and the configuration half of \<^verbatim>\<open>node/src/main.rs\<close>: parsing an identity, the
  settings of a deployment, the key files, and the client's rate. Option parsing (\<^verbatim>\<open>clap\<close>), files
  (an ip file is its lines, or the error of opening it) and logging are outside. Port arithmetic is
  that of \<^verbatim>\<open>u16\<close> in a release build.
\<close>

record create_config =
  cc_servers :: nat
  cc_network_delay :: nat
  cc_gc_depth :: nat
  cc_sync_retry_nodes :: nat
  cc_sync_retry_delay :: nat
  cc_ip :: "string list"
  cc_ip_file :: "(error + string list) option"
  cc_local :: bool
  cc_mempool_port :: nat
  cc_consensus_port :: nat
  cc_client_port :: nat
  cc_db_base :: string
  cc_db_prefix :: string
  cc_batch_size :: nat
  cc_max_batch_delay :: nat
  cc_tx_size :: nat
  cc_burst_interval :: nat
  cc_txs_per_burst :: nat

text \<open>The values \<^verbatim>\<open>default_value_t\<close> gives, for \<open>n\<close> servers.\<close>

definition default_create_config :: "nat \<Rightarrow> create_config" where
  "default_create_config n =
     \<lparr>cc_servers = n, cc_network_delay = 500, cc_gc_depth = 5, cc_sync_retry_nodes = 4,
      cc_sync_retry_delay = 1000, cc_ip = [], cc_ip_file = None, cc_local = True, cc_mempool_port = 7001,
      cc_consensus_port = 8001, cc_client_port = 10001, cc_db_base = ''.'', cc_db_prefix = ''db'',
      cc_batch_size = 1024, cc_max_batch_delay = 1000, cc_tx_size = 1024, cc_burst_interval = 50,
      cc_txs_per_burst = 100\<rparr>"

subsection \<open>Identities and key types\<close>

text \<open>\<^verbatim>\<open>usize::from_str_radix(s, 10)\<close>\<close>

definition str_to_id_parser :: "string \<Rightarrow> node_id outcome" where
  "str_to_id_parser s =
     (let ds = (case s of [] \<Rightarrow> [] | c # cs \<Rightarrow> if c = CHR ''+'' then cs else s) in
      if ds = [] then Err ConfigError
      else (case parse_digits 0 ds of
              None \<Rightarrow> Err ConfigError
            | Some n \<Rightarrow> if n < 2 ^ 64 then Ok n else Err ConfigError))"

datatype key_type = KtSECP256K1 | KtED25519

definition key_type_of_algorithm :: "algorithm \<Rightarrow> key_type outcome" where
  "key_type_of_algorithm alg = (case alg of RSA \<Rightarrow> Panic | ED25519 \<Rightarrow> Ok KtED25519 | SECP256K1 \<Rightarrow> Ok KtSECP256K1)"

definition algorithm_of_key_type :: "key_type \<Rightarrow> algorithm" where
  "algorithm_of_key_type kt = (case kt of KtED25519 \<Rightarrow> ED25519 | KtSECP256K1 \<Rightarrow> SECP256K1)"

text \<open>Decimal digits, as \<^verbatim>\<open>format!("{}", n)\<close> writes them.\<close>

fun nat_str :: "nat \<Rightarrow> string" where
  "nat_str n = (if n < 10 then [char_of (48 + n)] else nat_str (n div 10) @ [char_of (48 + n mod 10)])"

declare nat_str.simps [simp del]

text \<open>The key files: name and content.\<close>

definition key_file_name :: "nat \<Rightarrow> string" where
  "key_file_name i = ''keys-'' @ nat_str i @ ''.json''"

definition create_keys ::
  "('esk, 'epk, 'ssk, 'spk) key_gen \<Rightarrow> key_type \<Rightarrow> nat \<Rightarrow> (string \<times> ('esk, 'epk, 'ssk, 'spk) key_config) list outcome" where
  "create_keys g kt n =
     bind_o (generate_keys g (algorithm_of_key_type kt) n) (\<lambda>cs.
     Ok (map (\<lambda>(i, c). (key_file_name i, c)) (enumerate 0 cs)))"

subsection \<open>Settings of a deployment\<close>

record mempool_config =
  mc_sync_retry_nodes :: nat
  mc_gc_depth :: nat
  mc_sync_retry_delay_ms :: nat

record server_settings =
  ss_mempool :: mempool_config
  ss_committee :: config
  ss_storage_base :: string
  ss_storage_prefix :: string
  ss_bench :: bench_config

definition u16_add :: "nat \<Rightarrow> nat \<Rightarrow> nat" where
  "u16_add a b = (a + b mod 2 ^ 16) mod 2 ^ 16"

text \<open>Lines of the ip file until there are enough.\<close>

fun read_ips :: "nat \<Rightarrow> string list \<Rightarrow> string list \<Rightarrow> string list" where
  "read_ips n ips [] = ips"
| "read_ips n ips (l # ls) =
     (let ips' = ips @ [filter (\<lambda>c. c \<noteq> CHR '' '') l] in if length ips' = n then ips' else read_ips n ips' ls)"

definition gather_ips :: "create_config \<Rightarrow> string list outcome" where
  "gather_ips c =
     (if cc_local c then Ok (cc_ip c @ replicate (cc_servers c - length (cc_ip c)) ''127.0.0.1'')
      else if length (cc_ip c) \<noteq> cc_servers c then
        (case cc_ip_file c of
           None \<Rightarrow> Err ConfigError
         | Some f \<Rightarrow> bind_o (of_result f) (\<lambda>ls. Ok (read_ips (cc_servers c) (cc_ip c) ls)))
      else Ok (cc_ip c))"

definition server_party :: "create_config \<Rightarrow> string \<Rightarrow> nat \<Rightarrow> party" where
  "server_party c ip i =
     (let at = (\<lambda>base. if cc_local c then u16_add base i else base);
          cons_client = (if cc_local c then u16_add (u16_add (cc_client_port c) (cc_servers c)) i
                         else u16_add (cc_client_port c) 1000)
      in \<lparr>party_id = i, mempool_address = ip, mempool_port = at (cc_mempool_port c), consensus_address = ip,
          consensus_port = at (cc_consensus_port c), client_port = at (cc_client_port c),
          consensus_client_port = cons_client\<rparr>)"

definition client_party_of :: "create_config \<Rightarrow> string \<Rightarrow> nat \<Rightarrow> client_party" where
  "client_party_of c ip i =
     (let port = consensus_client_port (server_party c ip i)
      in \<lparr>cp_id = i, cp_address = ip, cp_port = port, cp_confirmation_port = u16_add port (cc_servers c)\<rparr>)"

text \<open>\<^verbatim>\<open>ips[i]\<close> ends the process when the list is short.\<close>

fun build_parties ::
  "create_config \<Rightarrow> string list \<Rightarrow> nat list \<Rightarrow> (node_id \<rightharpoonup> party) \<times> (node_id \<rightharpoonup> client_party) \<Rightarrow>
    ((node_id \<rightharpoonup> party) \<times> (node_id \<rightharpoonup> client_party)) outcome" where
  "build_parties c ips [] acc = Ok acc"
| "build_parties c ips (i # is) (sp, cp) =
     (if i < length ips
      then build_parties c ips is (sp(i \<mapsto> server_party c (ips ! i) i), cp(i \<mapsto> client_party_of c (ips ! i) i))
      else Panic)"

definition create_settings :: "create_config \<Rightarrow> (server_settings \<times> client_settings) outcome" where
  "create_settings c =
     bind_o (gather_ips c) (\<lambda>ips.
     bind_o (build_parties c ips [0..<cc_servers c] (Map.empty, Map.empty)) (\<lambda>(sp, cp).
     Ok (\<lparr>ss_mempool = \<lparr>mc_sync_retry_nodes = cc_sync_retry_nodes c, mc_gc_depth = cc_gc_depth c,
                       mc_sync_retry_delay_ms = cc_sync_retry_delay c\<rparr>,
          ss_committee = \<lparr>parties = sp\<rparr>, ss_storage_base = cc_db_base c, ss_storage_prefix = cc_db_prefix c,
          ss_bench = \<lparr>bc_batch_size = cc_batch_size c, bc_batch_timeout_ms = cc_max_batch_delay c,
                     bc_delay_in_ms = cc_network_delay c, bc_eleader_pipeline_depth = 16,
                     bc_data_timer_duration_ms = 1000, bc_bench_emit_window_secs = 5, bc_bench_metrics_node = 0\<rparr>\<rparr>,
         \<lparr>cs_parties = cp,
          cs_bench = \<lparr>cb_tx_size = cc_tx_size c, cb_burst_interval_ms = cc_burst_interval c,
                     cb_txs_per_burst = cc_txs_per_burst c, cb_bench_emit_window_secs = 5, cb_emit_dp = True\<rparr>,
          cs_mode = LetoBroadcast, cs_confirmation_address = ''0.0.0.0'', cs_confirmation_port = 0\<rparr>)))"

text \<open>The client's \<^verbatim>\<open>--rate\<close> sets the burst size.\<close>

definition override_rate :: "nat \<Rightarrow> client_settings \<Rightarrow> client_settings" where
  "override_rate rate cs =
     (if 0 < rate then
        (let interval_ms = max (cb_burst_interval_ms (cs_bench cs)) 1;
             derived = max (((rate * interval_ms) mod 2 ^ 64) div 1000) 1
         in cs\<lparr>cs_bench := (cs_bench cs)\<lparr>cb_txs_per_burst := derived\<rparr>\<rparr>)
      else cs)"

subsection \<open>Digits\<close>

lemma digit_val_char: "d < 10 \<Longrightarrow> digit_val (char_of (48 + d)) = Some d"
  by (simp add: digit_val_def)

lemma parse_digits_append:
  "parse_digits acc (xs @ ys) = (case parse_digits acc xs of None \<Rightarrow> None | Some a \<Rightarrow> parse_digits a ys)"
  by (induction acc xs rule: parse_digits.induct) (auto split: option.splits)

lemma parse_nat_str: "parse_digits 0 (nat_str n) = Some n"
proof (induction n rule: nat_str.induct)
  case (1 n)
  show ?case
  proof (cases "n < 10")
    case True
    then show ?thesis by (subst nat_str.simps) (simp add: digit_val_char)
  next
    case False
    have "10 * (n div 10) + n mod 10 = n" by presburger
    with False 1 show ?thesis
      by (subst nat_str.simps) (simp add: parse_digits_append digit_val_char)
  qed
qed

lemma nat_str_nonempty: "nat_str n \<noteq> []"
  by (cases "n < 10") (subst nat_str.simps, simp)+

lemma nat_str_head: "\<exists>d cs. nat_str n = d # cs \<and> d \<noteq> CHR ''+''"
proof (cases "nat_str n")
  case (Cons d cs)
  have "digit_val CHR ''+'' = None" by (simp add: digit_val_def)
  with Cons parse_nat_str [of n] show ?thesis by (auto split: option.splits)
qed (simp add: nat_str_nonempty)

lemma nat_str_inj: "nat_str m = nat_str n \<Longrightarrow> m = n"
  by (metis option.inject parse_nat_str)

subsection \<open>Parties\<close>

lemma build_parties_Ok:
  "\<forall>i \<in> set is. i < length ips \<Longrightarrow> build_parties c ips is (sp, cp) =
    Ok ((\<lambda>i. if i \<in> set is then Some (server_party c (ips ! i) i) else sp i),
        (\<lambda>i. if i \<in> set is then Some (client_party_of c (ips ! i) i) else cp i))"
proof (induction "is" arbitrary: sp cp)
  case (Cons j "is")
  have "build_parties c ips is (sp', cp') =
    Ok ((\<lambda>i. if i \<in> set is then Some (server_party c (ips ! i) i) else sp' i),
        (\<lambda>i. if i \<in> set is then Some (client_party_of c (ips ! i) i) else cp' i))" for sp' cp'
    using Cons by simp
  with Cons.prems show ?case by (simp del: fun_upd_apply) (auto simp: fun_eq_iff)
qed simp

lemma build_parties_short: "length ips < n \<Longrightarrow> build_parties c ips [0..<n] acc = Panic"
proof -
  have "i \<in> set is \<Longrightarrow> length ips \<le> i \<Longrightarrow> build_parties c ips is acc = Panic" for i "is" acc
    by (induction c ips "is" acc rule: build_parties.induct) auto
  from this [of "length ips" "[0..<n]"] show "length ips < n \<Longrightarrow> ?thesis" by simp
qed

lemma create_settings_Ok:
  assumes "gather_ips c = Ok ips" "cc_servers c \<le> length ips"
  shows "\<exists>ss cs. create_settings c = Ok (ss, cs) \<and>
    parties (ss_committee ss) = (\<lambda>i. if i < cc_servers c then Some (server_party c (ips ! i) i) else None) \<and>
    cs_parties cs = (\<lambda>i. if i < cc_servers c then Some (client_party_of c (ips ! i) i) else None)"
  using assms by (simp add: create_settings_def build_parties_Ok)

lemma gather_local: "cc_local c \<Longrightarrow> \<exists>ips. gather_ips c = Ok ips \<and> cc_servers c \<le> length ips"
  by (simp add: gather_ips_def)

text \<open>The five listeners of a node: mempool, consensus, mempool clients, consensus clients, and the
  confirmation port kept for its client.\<close>

definition listen_ports :: "party \<Rightarrow> client_party \<Rightarrow> nat list" where
  "listen_ports p cp = [mempool_port p, consensus_port p, client_port p, consensus_client_port p, cp_confirmation_port cp]"

text \<open>Room for \<open>n\<close> nodes above every base port, in the order mempool, consensus, clients.\<close>

definition ports_apart :: "create_config \<Rightarrow> bool" where
  "ports_apart c \<longleftrightarrow> cc_mempool_port c + cc_servers c \<le> cc_consensus_port c \<and>
     cc_consensus_port c + cc_servers c \<le> cc_client_port c \<and> cc_client_port c + 3 * cc_servers c \<le> 2 ^ 16"

definition base_ports :: "create_config \<Rightarrow> nat list" where
  "base_ports c = [cc_mempool_port c, cc_consensus_port c, cc_client_port c, cc_client_port c + cc_servers c,
     cc_client_port c + 2 * cc_servers c]"

lemma local_ports:
  assumes "cc_local c" "ports_apart c" "i < cc_servers c"
  shows "listen_ports (server_party c ip i) (client_party_of c ip' i) = map (\<lambda>b. b + i) (base_ports c)"
proof -
  have add: "u16_add a b = a + b" if "a + b < 2 ^ 16" for a b
    using that by (simp add: u16_add_def)
  have "cc_mempool_port c + i < 2 ^ 16" "cc_consensus_port c + i < 2 ^ 16" "cc_client_port c + i < 2 ^ 16"
    "cc_client_port c + cc_servers c < 2 ^ 16" "cc_client_port c + cc_servers c + i < 2 ^ 16"
    "cc_client_port c + cc_servers c + i + cc_servers c < 2 ^ 16"
    using assms(2,3) by (auto simp: ports_apart_def)
  then show ?thesis
    using assms(1) by (simp add: listen_ports_def server_party_def client_party_of_def base_ports_def Let_def add)
qed

text \<open>Numbers below \<open>n\<close> above bases that are \<open>n\<close> apart do not meet.\<close>

lemma bases_apart:
  fixes bs :: "nat list"
  assumes "sorted_wrt (\<lambda>x y. x + n \<le> y) bs" "a < length bs" "b < length bs" "i < n" "j < n" "bs ! a + i = bs ! b + j"
  shows "i = j \<and> a = b"
proof (cases a b rule: linorder_cases)
  case less
  with sorted_wrt_nth_less [OF assms(1) less assms(3)] assms(4,6) have False by linarith
  then show ?thesis ..
next
  case greater
  with sorted_wrt_nth_less [OF assms(1) greater assms(2)] assms(5,6) have False by linarith
  then show ?thesis ..
qed (use assms in simp)

lemma length_base_ports [simp]: "length (base_ports c) = 5"
  by (simp add: base_ports_def)

lemma base_ports_apart: "ports_apart c \<Longrightarrow> sorted_wrt (\<lambda>x y. x + cc_servers c \<le> y) (base_ports c)"
  by (simp add: ports_apart_def base_ports_def)

section \<open>Properties\<close>

text \<open>Identities: the number a node is written as parses back to it, and the key files of different
  nodes have different names.\<close>

theorem node_id_roundtrip:
  assumes "i < 2 ^ 64"
  shows "str_to_id_parser (nat_str i) = Ok i"
    and "create_keys g kt n = Ok files \<Longrightarrow> distinct (map fst files)"
proof -
  show "str_to_id_parser (nat_str i) = Ok i"
    using nat_str_head [of i] parse_nat_str [of i] assms by (auto simp: str_to_id_parser_def)
  have inj: "inj key_file_name" using nat_str_inj by (simp add: inj_def key_file_name_def)
  assume "create_keys g kt n = Ok files"
  then obtain cs where "files = map (\<lambda>(i, c). (key_file_name i, c)) (enumerate 0 cs)"
    by (auto simp: create_keys_def bind_o_Ok_iff)
  then have "map fst files = map key_file_name (map fst (enumerate 0 cs))"
    by (simp only: map_map) (simp only: comp_def case_prod_beta fst_conv)
  also have "\<dots> = map key_file_name [0..<length cs]" by (simp only: map_fst_enumerate) simp
  finally show "distinct (map fst files)" using inj by (simp add: distinct_map inj_on_def inj_def)
qed

theorem node_id_roundtrip_witness: "str_to_id_parser (nat_str 60) = Ok 60"
  by (rule node_id_roundtrip(1)) simp

text \<open>A local deployment: settings are always made; the servers' and the clients' tables cover the same
  nodes; the port a client sends to is the one the node listens on for it; and as long as the base ports
  leave room, no two listeners of the deployment share a port.\<close>

theorem local_settings_agree:
  assumes "cc_local c"
  shows "\<exists>ss cs. create_settings c = Ok (ss, cs) \<and>
    (\<forall>i. i < cc_servers c \<longrightarrow> (\<exists>p cp. get_party (ss_committee ss) i = Some p \<and> client_get cs i = Some cp \<and>
      cp_port cp = consensus_client_port p \<and> cp_address cp = consensus_address p)) \<and>
    num_nodes (ss_committee ss) = cc_servers c \<and> client_num_nodes cs = cc_servers c \<and>
    (ports_apart c \<longrightarrow> (\<forall>i j a b p q cp cq. i < cc_servers c \<longrightarrow> j < cc_servers c \<longrightarrow> a < 5 \<longrightarrow> b < 5 \<longrightarrow>
      get_party (ss_committee ss) i = Some p \<longrightarrow> client_get cs i = Some cp \<longrightarrow>
      get_party (ss_committee ss) j = Some q \<longrightarrow> client_get cs j = Some cq \<longrightarrow>
      listen_ports p cp ! a = listen_ports q cq ! b \<longrightarrow> i = j \<and> a = b))"
proof -
  obtain ips where ips: "gather_ips c = Ok ips" "cc_servers c \<le> length ips" using gather_local [OF assms] by blast
  from create_settings_Ok [OF ips] obtain ss cs where s: "create_settings c = Ok (ss, cs)"
    "parties (ss_committee ss) = (\<lambda>i. if i < cc_servers c then Some (server_party c (ips ! i) i) else None)"
    "cs_parties cs = (\<lambda>i. if i < cc_servers c then Some (client_party_of c (ips ! i) i) else None)" by blast
  have d: "dom (\<lambda>i. if i < cc_servers c then Some (f i) else None) = {..<cc_servers c}" for f :: "nat \<Rightarrow> 'x"
    by (auto split: if_splits)
  have n: "num_nodes (ss_committee ss) = cc_servers c" "client_num_nodes cs = cc_servers c"
    by (simp_all add: num_nodes_def client_num_nodes_def s d)
  have apart: "i = j \<and> a = b"
    if "ports_apart c" "i < cc_servers c" "j < cc_servers c" "a < 5" "b < 5"
      "listen_ports (server_party c ip i) (client_party_of c ip i) ! a =
       listen_ports (server_party c ip' j) (client_party_of c ip' j) ! b" for i j a b ip ip'
  proof (rule bases_apart [OF base_ports_apart [OF that(1)]])
    show "base_ports c ! a + i = base_ports c ! b + j"
      using that(4-6) unfolding local_ports [OF assms that(1,2)] local_ports [OF assms that(1,3)]
      by simp
  qed (use that in simp_all)
  show ?thesis
    using s n apart by (intro exI [of _ ss] exI [of _ cs])
      (auto simp: get_party_def client_get_def client_party_of_def server_party_def Let_def split: if_splits)
qed

theorem local_settings_agree_witness:
  "\<exists>ss cs. create_settings (default_create_config 4) = Ok (ss, cs) \<and> client_num_nodes cs = 4 \<and>
     ports_apart (default_create_config 4)"
  using local_settings_agree [of "default_create_config 4"]
  by (auto simp: default_create_config_def ports_apart_def)

text \<open>A deployment that is not local fails without an ip file, and the process ends when the file has
  too few lines.\<close>

theorem short_ip_file_crashes:
  assumes "\<not> cc_local c" "length (cc_ip c) < cc_servers c"
  shows "cc_ip_file c = None \<Longrightarrow> create_settings c = Err ConfigError"
    and "cc_ip_file c = Some (Inr ls) \<Longrightarrow> length (cc_ip c) + length ls < cc_servers c \<Longrightarrow> create_settings c = Panic"
proof -
  show "cc_ip_file c = None \<Longrightarrow> create_settings c = Err ConfigError"
    using assms by (simp add: create_settings_def gather_ips_def)
  have len: "length (read_ips n ips ls) \<le> length ips + length ls" for n ips ls
    by (induction n ips ls rule: read_ips.induct) (auto simp: Let_def)
  assume f: "cc_ip_file c = Some (Inr ls)" "length (cc_ip c) + length ls < cc_servers c"
  then have "length (read_ips (cc_servers c) (cc_ip c) ls) < cc_servers c"
    using len [of "cc_servers c" "cc_ip c" ls] by linarith
  with f assms show "create_settings c = Panic"
    by (simp add: create_settings_def gather_ips_def build_parties_short)
qed

theorem short_ip_file_crashes_witness:
  "create_settings (default_create_config 4\<lparr>cc_local := False, cc_ip_file := Some (Inr [''10.0.0.1''])\<rparr>) = Panic"
  by (rule short_ip_file_crashes(2) [of _ "[''10.0.0.1'']"]) (simp_all add: default_create_config_def)

end
