(* ===== verification/StorePaths.thy ===== *)
theory StorePaths
  imports NodeCli
begin

section \<open>The files of a node\<close>

text \<open>
  The path of a node's store: the blocks that build it in \<^verbatim>\<open>server/core.rs\<close>, \<^verbatim>\<open>server/zeus/server.rs\<close>,
  \<^verbatim>\<open>server/hera/server.rs\<close> and \<^verbatim>\<open>server/zeus/core.rs\<close>, over the standard library's \<^verbatim>\<open>PathBuf\<close> on Unix. A
  path is the list of its components, which is how paths are compared.
\<close>

datatype path_comp = RootDir | CurDir | ParentDir | Normal string

type_synonym path = "path_comp list"

subsection \<open>\<^verbatim>\<open>PathBuf\<close>\<close>

fun split_slashes :: "string \<Rightarrow> string \<Rightarrow> string list" where
  "split_slashes cur [] = [rev cur]"
| "split_slashes cur (ch # cs) =
     (if ch = CHR ''/'' then rev cur # split_slashes [] cs else split_slashes (ch # cur) cs)"

definition comp_of :: "string \<Rightarrow> path_comp" where
  "comp_of s = (if s = ''..'' then ParentDir else Normal s)"

text \<open>Empty components and dots are skipped, but for a dot that comes first.\<close>

definition path_of :: "string \<Rightarrow> path" where
  "path_of s =
     (let parts = split_slashes [] s;
          comps = map comp_of (filter (\<lambda>p. p \<noteq> [] \<and> p \<noteq> ''.'') parts)
      in if hd parts = ''.'' then CurDir # comps
         else if s \<noteq> [] \<and> hd s = CHR ''/'' then RootDir # comps else comps)"

text \<open>An absolute path replaces what it is pushed on.\<close>

definition path_push :: "path \<Rightarrow> path \<Rightarrow> path" where
  "path_push p q =
     (if p = [] \<or> (q \<noteq> [] \<and> hd q = RootDir) then q
      else p @ (if q \<noteq> [] \<and> hd q = CurDir then tl q else q))"

definition file_name :: "path \<Rightarrow> string option" where
  "file_name p = (if p = [] then None else (case last p of Normal n \<Rightarrow> Some n | _ \<Rightarrow> None))"

definition set_file_name :: "string \<Rightarrow> path \<Rightarrow> path" where
  "set_file_name n p = path_push (if file_name p = None then p else butlast p) (path_of n)"

text \<open>A name up to its last dot, unless that is the first character.\<close>

definition file_stem :: "string \<Rightarrow> string" where
  "file_stem n =
     (let before = rev (tl (dropWhile (\<lambda>ch. ch \<noteq> CHR ''.'') (rev n))) in
      if CHR ''.'' \<notin> set n \<or> before = [] then n else before)"

definition set_extension :: "string \<Rightarrow> path \<Rightarrow> path" where
  "set_extension ext p =
     (case file_name p of None \<Rightarrow> p | Some n \<Rightarrow> butlast p @ [Normal (file_stem n @ CHR ''.'' # ext)])"

subsection \<open>Stores\<close>

definition chain_db_name :: "string \<Rightarrow> node_id \<Rightarrow> string" where
  "chain_db_name prefix my_id = prefix @ ''-'' @ nat_str my_id"

definition data_db_name :: "string \<Rightarrow> node_id \<Rightarrow> string" where
  "data_db_name prefix my_id = prefix @ ''-data-'' @ nat_str my_id"

definition store_path :: "string \<Rightarrow> string \<Rightarrow> path" where
  "store_path base name = set_extension ''db'' (set_file_name name (path_push [] (path_of base)))"

text \<open>Where the stores really go.\<close>

definition store_dir :: "string \<Rightarrow> path" where
  "store_dir base = (let p = path_of base in if file_name p = None then p else butlast p)"

subsection \<open>Names without dots and slashes\<close>

definition plain_name :: "string \<Rightarrow> bool" where
  "plain_name s \<longleftrightarrow> CHR ''.'' \<notin> set s \<and> CHR ''/'' \<notin> set s"

lemma parse_digits_Some: "parse_digits a s = Some n \<Longrightarrow> ch \<in> set s \<Longrightarrow> digit_val ch \<noteq> None"
  by (induction a s rule: parse_digits.induct) (auto split: option.splits)

lemma nat_str_digits: "ch \<in> set (nat_str n) \<Longrightarrow> digit_val ch \<noteq> None"
  by (rule parse_digits_Some [OF parse_nat_str])

lemma plain_nat_str: "plain_name (nat_str n)"
proof -
  have "digit_val CHR ''.'' = None" "digit_val CHR ''/'' = None" by (simp_all add: digit_val_def)
  then show ?thesis using nat_str_digits unfolding plain_name_def by metis
qed

lemma plain_append: "plain_name (s @ t) \<longleftrightarrow> plain_name s \<and> plain_name t"
  by (auto simp: plain_name_def)

lemma plain_db_names:
  assumes "plain_name prefix"
  shows "plain_name (chain_db_name prefix i)" "plain_name (data_db_name prefix i)"
  using assms unfolding chain_db_name_def data_db_name_def
  by (simp_all only: plain_append plain_nat_str) (simp_all add: plain_name_def)

lemma db_names_nonempty [simp]: "chain_db_name prefix i \<noteq> []" "data_db_name prefix i \<noteq> []"
  by (simp_all add: chain_db_name_def data_db_name_def)

lemma split_slashes_none: "CHR ''/'' \<notin> set s \<Longrightarrow> split_slashes cur s = [rev cur @ s]"
  by (induction cur s rule: split_slashes.induct) auto

lemma path_of_name:
  assumes "CHR ''/'' \<notin> set n" "n \<noteq> []" "n \<noteq> ''.''" "n \<noteq> ''..''"
  shows "path_of n = [Normal n]"
proof -
  have "hd n \<noteq> CHR ''/''" using assms(1,2) by (cases n) auto
  then show ?thesis using assms by (simp add: path_of_def split_slashes_none comp_of_def)
qed

lemma hd_path_of_name: "path_of n = [Normal n] \<Longrightarrow> path_push p (path_of n) = p @ [Normal n]"
  by (simp add: path_push_def)

lemma store_path_name:
  assumes "CHR ''/'' \<notin> set n" "n \<noteq> []" "n \<noteq> ''.''" "n \<noteq> ''..''"
  shows "store_path base n = store_dir base @ [Normal (file_stem n @ ''.db'')]"
  using hd_path_of_name [OF path_of_name [OF assms]]
  by (simp add: store_path_def store_dir_def set_file_name_def set_extension_def file_name_def Let_def
    path_push_def [of "[]"])

lemma file_stem_plain: "CHR ''.'' \<notin> set n \<Longrightarrow> file_stem n = n"
  by (simp add: file_stem_def)

lemma store_path_plain:
  assumes "plain_name n" "n \<noteq> []"
  shows "store_path base n = store_dir base @ [Normal (n @ ''.db'')]"
proof -
  have "n \<noteq> ''.''" "n \<noteq> ''..''" using assms(1) by (auto simp: plain_name_def)
  then show ?thesis using assms store_path_name [of n base] by (simp add: file_stem_plain plain_name_def)
qed

lemma dropWhile_not_dot:
  "CHR ''.'' \<notin> set b \<Longrightarrow> dropWhile (\<lambda>ch. ch \<noteq> CHR ''.'') (b @ CHR ''.'' # a) = CHR ''.'' # a"
  by (induction b) auto

lemma file_stem_dot: "CHR ''.'' \<notin> set b \<Longrightarrow> a \<noteq> [] \<Longrightarrow> file_stem (a @ CHR ''.'' # b) = a"
  using dropWhile_not_dot [of "rev b" "rev a"] by (simp add: file_stem_def)

lemma chain_db_names_inj: "chain_db_name prefix i = chain_db_name prefix j \<Longrightarrow> i = j"
  by (simp add: chain_db_name_def nat_str_inj)

lemma data_db_names_inj: "data_db_name prefix i = data_db_name prefix j \<Longrightarrow> i = j"
  by (simp add: data_db_name_def nat_str_inj)

lemma chain_data_names: "chain_db_name prefix i \<noteq> data_db_name prefix j"
proof
  assume "chain_db_name prefix i = data_db_name prefix j"
  then have "nat_str i = ''data-'' @ nat_str j" by (simp add: chain_db_name_def data_db_name_def)
  then have "CHR ''d'' \<in> set (nat_str i)" by simp
  from nat_str_digits [OF this] show False by (simp add: digit_val_def)
qed

section \<open>Properties\<close>

text \<open>With a prefix without dots and slashes no two stores of a deployment share a file: neither two
  nodes, nor the chain store of one and the data store of another.\<close>

theorem store_paths_distinct:
  assumes "plain_name prefix"
  shows "store_path base (chain_db_name prefix i) = store_path base (chain_db_name prefix j) \<longleftrightarrow> i = j"
    and "store_path base (data_db_name prefix i) = store_path base (data_db_name prefix j) \<longleftrightarrow> i = j"
    and "store_path base (chain_db_name prefix i) \<noteq> store_path base (data_db_name prefix j)"
  using chain_db_names_inj data_db_names_inj chain_data_names
  by (auto simp: store_path_plain plain_db_names [OF assms])

theorem store_paths_distinct_witness:
  "store_path ''/var/lib/leto'' (chain_db_name ''db'' 1) \<noteq> store_path ''/var/lib/leto'' (chain_db_name ''db'' 2)"
  using store_paths_distinct(1) [of "''db''" "''/var/lib/leto''" 1 2] by (simp add: plain_name_def)

text \<open>A dot in the prefix: \<^verbatim>\<open>set_extension\<close> cuts the identity off and every node of the deployment gets
  the same file.\<close>

theorem dotted_prefix_collides:
  assumes "a \<noteq> []" "CHR ''/'' \<notin> set a" "plain_name b"
  shows "store_path base (chain_db_name (a @ CHR ''.'' # b) i) = store_dir base @ [Normal (a @ ''.db'')]"
proof -
  let ?t = "b @ ''-'' @ nat_str i"
  have n: "chain_db_name (a @ CHR ''.'' # b) i = a @ CHR ''.'' # ?t" by (simp add: chain_db_name_def)
  have t: "plain_name ?t" using assms(3) plain_nat_str [of i] by (simp add: plain_append) (simp add: plain_name_def)
  have "?t \<noteq> []" "CHR ''/'' \<notin> set (a @ CHR ''.'' # ?t)" using assms(2) t by (auto simp: plain_name_def)
  moreover from this(1) have "a @ CHR ''.'' # ?t \<noteq> ''.''" "a @ CHR ''.'' # ?t \<noteq> ''..''"
    using assms(1) by (cases a; force)+
  ultimately have "store_path base (chain_db_name (a @ CHR ''.'' # b) i) =
      store_dir base @ [Normal (file_stem (a @ CHR ''.'' # ?t) @ ''.db'')]"
    unfolding n using store_path_name [of "a @ CHR ''.'' # ?t" base] by simp
  then show ?thesis using file_stem_dot [OF _ assms(1), of ?t] t by (simp add: plain_name_def)
qed

theorem dotted_prefix_collides_witness:
  "store_path ''.'' (chain_db_name ''db.v2'' 0) = store_path ''.'' (chain_db_name ''db.v2'' 1)"
  using dotted_prefix_collides [of "''db''" "''v2''" "''.''" 0] dotted_prefix_collides [of "''db''" "''v2''" "''.''" 1]
  by (simp add: plain_name_def)

text \<open>\<^verbatim>\<open>set_file_name\<close> replaces the last component of the configured base: a directory named there is
  not the directory of the stores, its parent is.\<close>

theorem store_beside_base:
  assumes "path_of base = d @ [Normal n]" "plain_name prefix"
  shows "store_path base (chain_db_name prefix i) = d @ [Normal (chain_db_name prefix i @ ''.db'')]"
  using assms by (simp add: store_path_plain plain_db_names store_dir_def file_name_def)

theorem store_beside_base_witness:
  "store_path ''/tmp/.tmpAb3'' (chain_db_name ''stress-db'' 0) =
     [RootDir, Normal ''tmp'', Normal (chain_db_name ''stress-db'' 0 @ ''.db'')]"
  by (subst store_beside_base [where d = "[RootDir, Normal ''tmp'']" and n = "''.tmpAb3''"])
     (simp_all add: path_of_def comp_of_def plain_name_def)

end
