(* ===== verification/StressTest.thy ===== *)
theory StressTest
  imports NodeCli
begin

section \<open>The stress test\<close>

text \<open>
  The \<^verbatim>\<open>stress-test\<close> crate: the load levels, the settings it builds, the drivers of a level, the
  counters of committed work and the loop over the levels. Clocks and the floating-point rates are
  outside: a level's verdict is the parameter \<open>verdict\<close>. Arithmetic is that of a release build.
\<close>

record stress_config =
  st_num_nodes :: nat
  st_num_crash_faults :: nat
  st_tx_size :: nat
  st_batch_size :: nat
  st_batch_timeout_ms :: nat
  st_delay_in_ms :: nat
  st_load_start :: nat
  st_load_step :: nat
  st_load_max :: nat
  st_num_clients :: nat
  st_base_consensus_port :: nat
  st_base_mempool_port :: nat
  st_base_client_port :: nat
  st_base_consensus_client_port :: nat
  st_base_confirmation_port :: nat
  st_bench_emit_window_secs :: nat
  st_eleader_pipeline_depth :: nat
  st_data_timer_duration_ms :: nat

subsection \<open>Load levels\<close>

text \<open>The loop may not end; a rate is a \<^verbatim>\<open>u64\<close>.\<close>

partial_function (option) levels_loop :: "nat \<Rightarrow> nat \<Rightarrow> nat \<Rightarrow> nat list \<Rightarrow> nat list option" where
  "levels_loop step mx rate levels =
     (if rate \<le> mx then levels_loop step mx ((rate + step) mod 2 ^ 64) (levels @ [rate]) else Some levels)"

definition load_levels :: "stress_config \<Rightarrow> nat list option" where
  "load_levels c =
     (case levels_loop (st_load_step c) (st_load_max c) (st_load_start c) [] of
        None \<Rightarrow> None
      | Some levels \<Rightarrow> Some (if levels = [] then [st_load_start c] else levels))"

subsection \<open>Settings\<close>

definition stress_party :: "stress_config \<Rightarrow> node_id \<Rightarrow> party" where
  "stress_party c i =
     \<lparr>party_id = i, mempool_address = ''127.0.0.1'', mempool_port = u16_add (st_base_mempool_port c) i,
      consensus_address = ''127.0.0.1'', consensus_port = u16_add (st_base_consensus_port c) i,
      client_port = u16_add (st_base_client_port c) i,
      consensus_client_port = u16_add (st_base_consensus_client_port c) i\<rparr>"

definition build_server_settings :: "mempool_config \<Rightarrow> stress_config \<Rightarrow> string \<Rightarrow> server_settings" where
  "build_server_settings mempool_default c temp_dir =
     \<lparr>ss_mempool = mempool_default,
      ss_committee = \<lparr>parties = (\<lambda>i. if i < st_num_nodes c then Some (stress_party c i) else None)\<rparr>,
      ss_storage_base = temp_dir, ss_storage_prefix = ''stress-db'',
      ss_bench = \<lparr>bc_batch_size = st_batch_size c, bc_batch_timeout_ms = st_batch_timeout_ms c,
                 bc_delay_in_ms = st_delay_in_ms c, bc_eleader_pipeline_depth = st_eleader_pipeline_depth c,
                 bc_data_timer_duration_ms = st_data_timer_duration_ms c,
                 bc_bench_emit_window_secs = st_bench_emit_window_secs c, bc_bench_metrics_node = 0\<rparr>\<rparr>"

definition build_client_settings :: "stress_config \<Rightarrow> nat \<Rightarrow> client_mode \<Rightarrow> client_settings" where
  "build_client_settings c target_rate mode =
     (let rate_per_client = target_rate div max (st_num_clients c) 1;
          burst_interval_ms = 50;
          txs_per_burst = max (((rate_per_client * burst_interval_ms) mod 2 ^ 64) div 1000) 1
      in \<lparr>cs_parties = (\<lambda>i. if i < st_num_nodes c then
             Some \<lparr>cp_id = i, cp_address = ''127.0.0.1'', cp_port = u16_add (st_base_consensus_client_port c) i,
                   cp_confirmation_port = u16_add (st_base_confirmation_port c) i\<rparr> else None),
          cs_bench = \<lparr>cb_tx_size = st_tx_size c, cb_burst_interval_ms = burst_interval_ms,
                     cb_txs_per_burst = txs_per_burst, cb_bench_emit_window_secs = st_bench_emit_window_secs c,
                     cb_emit_dp = True\<rparr>,
          cs_mode = mode, cs_confirmation_address = ''0.0.0.0'', cs_confirmation_port = 0\<rparr>)"

subsection \<open>Nodes and clients of a level\<close>

definition nodes_to_spawn :: "stress_config \<Rightarrow> node_id list" where
  "nodes_to_spawn c = [0..<(st_num_nodes c + 2 ^ 64 - st_num_crash_faults c) mod 2 ^ 64]"

text \<open>The clients of a level: fresh ones at every level, with the same identities.\<close>

fun start_clients ::
  "(node_id set \<Rightarrow> node_id list) \<Rightarrow> client_settings \<Rightarrow> 64 word \<Rightarrow> node_id list \<Rightarrow> 'tx stressor list outcome" where
  "start_clients order cs sid [] = Ok []"
| "start_clients order cs sid (i # is) =
     bind_o (stressor_start order i cs sid) (\<lambda>s. bind_o (start_clients order cs sid is) (\<lambda>ss. Ok (s # ss)))"

definition start_load ::
  "(node_id set \<Rightarrow> node_id list) \<Rightarrow> stress_config \<Rightarrow> nat \<Rightarrow> client_mode \<Rightarrow> 64 word \<Rightarrow> 'tx stressor list outcome" where
  "start_load order c target_rate mode sid =
     start_clients order (build_client_settings c target_rate mode) sid
       (map (\<lambda>idx. st_num_nodes c + idx) [0..<st_num_clients c])"

subsection \<open>Counters\<close>

record metrics =
  mt_batches :: nat
  mt_txs :: nat
  mt_bytes :: nat

definition metrics_new :: metrics where
  "metrics_new = \<lparr>mt_batches = 0, mt_txs = 0, mt_bytes = 0\<rparr>"

definition count_batch :: "('tx batch \<Rightarrow> nat option) \<Rightarrow> 'tx batch \<Rightarrow> metrics \<Rightarrow> metrics" where
  "count_batch sz b m =
     m\<lparr>mt_batches := mt_batches m + 1, mt_txs := mt_txs m + length b, mt_bytes := mt_bytes m + or_zero (sz b)\<rparr>"

definition reset_level :: "metrics \<Rightarrow> metrics" where
  "reset_level m = m\<lparr>mt_batches := 0, mt_txs := 0, mt_bytes := 0\<rparr>"

subsection \<open>The levels, one after the other\<close>

datatype level_status = LevelOk | Degraded | Saturated

text \<open>\<open>consecutive\<close> counts saturated levels in a row; two end the test.\<close>

fun run_levels :: "(nat \<Rightarrow> level_status) \<Rightarrow> nat \<Rightarrow> nat list \<Rightarrow> (nat \<times> level_status) list" where
  "run_levels verdict consecutive [] = []"
| "run_levels verdict consecutive (rate # rates) =
     (let st = verdict rate; consecutive' = (if st = Saturated then consecutive + 1 else 0)
      in (rate, st) # (if 2 \<le> consecutive' then [] else run_levels verdict consecutive' rates))"

text \<open>The last healthy level of the report, with its number.\<close>

definition breaking_point :: "(nat \<times> level_status) list \<Rightarrow> (nat \<times> nat) option" where
  "breaking_point results =
     (case filter (\<lambda>(i, r, st). st = LevelOk) (rev (enumerate 0 results)) of
        [] \<Rightarrow> None
      | (i, r, st) # _ \<Rightarrow> Some (i + 1, r))"

subsection \<open>The loop of the levels\<close>

lemma levels_loop_steps:
  assumes "mx < rate + k * step" "rate + k * step < 2 ^ 64"
  shows "\<exists>m \<le> k. (\<forall>j < m. rate + j * step \<le> mx) \<and> (mx < rate + m * step) \<and>
    levels_loop step mx rate levels = Some (levels @ map (\<lambda>j. rate + j * step) [0..<m])"
  using assms
proof (induction k arbitrary: rate levels)
  case 0
  then show ?case by (subst levels_loop.simps) simp
next
  case (Suc k)
  show ?case
  proof (cases "rate \<le> mx")
    case False
    then show ?thesis by (subst levels_loop.simps) (intro exI [of _ 0], simp)
  next
    case True
    have lt: "mx < (rate + step) + k * step" "(rate + step) + k * step < 2 ^ 64" using Suc.prems by simp_all
    then have nowrap: "(rate + step) mod 2 ^ 64 = rate + step" by (intro mod_less) linarith
    from Suc.IH [OF lt, of "levels @ [rate]"] obtain m where m: "m \<le> k" "\<forall>j < m. (rate + step) + j * step \<le> mx"
      "mx < (rate + step) + m * step" "levels_loop step mx (rate + step) (levels @ [rate]) =
        Some ((levels @ [rate]) @ map (\<lambda>j. (rate + step) + j * step) [0..<m])" by blast
    have "map (\<lambda>j. rate + j * step) [0..<Suc m] = rate # map (\<lambda>j. (rate + step) + j * step) [0..<m]"
      by (simp add: upt_conv_Cons map_Suc_upt [symmetric] comp_def add.assoc del: upt_Suc)
    moreover have "levels_loop step mx rate levels = levels_loop step mx (rate + step) (levels @ [rate])"
      by (subst levels_loop.simps) (simp only: True nowrap if_True)
    moreover have "\<forall>j < Suc m. rate + j * step \<le> mx"
      using m(2) True by (auto simp: less_Suc_eq_0_disj add.assoc)
    ultimately show ?thesis using m(1,3,4) by (intro exI [of _ "Suc m"]) (simp add: add.assoc)
  qed
qed

text \<open>Without a step the loop never ends.\<close>

lemma levels_loop_ends:
  assumes "levels_loop step mx rate levels = Some ys"
  shows "step = 0 \<longrightarrow> rate < 2 ^ 64 \<longrightarrow> mx < rate"
proof (rule levels_loop.raw_induct [where P = "\<lambda>step mx rate levels ys. step = 0 \<longrightarrow> rate < 2 ^ 64 \<longrightarrow> mx < rate", OF _ assms])
  fix loop step mx rate levels ys
  assume IH: "\<And>s m r l y. loop s m r l = Some y \<Longrightarrow> s = 0 \<longrightarrow> r < 2 ^ 64 \<longrightarrow> m < r"
    and eq: "(if rate \<le> mx then loop step mx ((rate + step) mod 2 ^ 64) (levels @ [rate]) else Some levels) = Some (ys :: nat list)"
  show "step = 0 \<longrightarrow> rate < 2 ^ 64 \<longrightarrow> mx < rate"
  proof (cases "rate \<le> mx")
    case True
    with eq have "loop step mx ((rate + step) mod 2 ^ 64) (levels @ [rate]) = Some ys" by (simp only: if_True)
    from IH [OF this] show ?thesis by (auto simp only: add_0_right mod_less)
  qed auto
qed

lemma levels_loop_stuck: "rate \<le> mx \<Longrightarrow> rate < 2 ^ 64 \<Longrightarrow> levels_loop 0 mx rate levels = None"
  using levels_loop_ends [of 0 mx rate levels] by (cases "levels_loop 0 mx rate levels") auto

subsection \<open>A restarted client\<close>

text \<open>The clients of two levels have the same identities and number their transactions from 0.\<close>

lemma start_clients_ids: "start_clients order cs sid is = Ok ss \<Longrightarrow> map sr_id ss = is \<and> list_all (\<lambda>s. sr_tx_id s = 0) ss"
proof (induction "is" arbitrary: ss)
  case (Cons i "is")
  then obtain s ss' where s: "stressor_start order i cs sid = Ok s" "start_clients order cs sid is = Ok ss'" "ss = s # ss'"
    by (auto simp: bind_o_Ok_iff)
  have "sr_id s = i \<and> sr_tx_id s = 0" using s(1) by (auto simp: stressor_start_def bind_o_Ok_iff Let_def split: if_splits)
  with s Cons.IH show ?case by simp
qed simp

lemma burst_nonce:
  assumes "tx \<in> set (burst_batch ops k s)" "co_mock ops = mock_transaction bc"
  shows "stx_source tx = sr_id s" "stx_nonce tx < sr_tx_id s + k"
  using assms by (auto simp: burst_batch_def)

subsection \<open>Stopping\<close>

text \<open>With one saturated level just before (\<open>c = 1\<close>), a first saturated level ends the test.\<close>

lemma run_levels_prefix:
  "c \<le> 1 \<Longrightarrow> \<exists>k \<le> length rates. run_levels verdict c rates = map (\<lambda>r. (r, verdict r)) (take k rates) \<and>
     (\<forall>i. i + 2 < k \<longrightarrow> verdict (rates ! i) \<noteq> Saturated \<or> verdict (rates ! (i + 1)) \<noteq> Saturated) \<and>
     (c = 1 \<longrightarrow> 1 < k \<longrightarrow> verdict (rates ! 0) \<noteq> Saturated) \<and>
     (k < length rates \<longrightarrow> (2 \<le> k \<and> verdict (rates ! (k - 2)) = Saturated \<and> verdict (rates ! (k - 1)) = Saturated) \<or>
        (c = 1 \<and> k = 1 \<and> verdict (rates ! 0) = Saturated))"
proof (induction rates arbitrary: c)
  case (Cons r rates)
  define c' where "c' = (if verdict r = Saturated then c + 1 else 0)"
  show ?case
  proof (cases "2 \<le> c'")
    case True
    then have "c = 1" "verdict r = Saturated" using Cons.prems by (auto simp: c'_def split: if_splits)
    with True show ?thesis by (intro exI [of _ 1]) (simp add: c'_def)
  next
    case False
    then have "c' \<le> 1" by simp
    from Cons.IH [OF this] obtain k where k: "k \<le> length rates"
      "run_levels verdict c' rates = map (\<lambda>r. (r, verdict r)) (take k rates)"
      "\<And>i. i + 2 < k \<Longrightarrow> verdict (rates ! i) \<noteq> Saturated \<or> verdict (rates ! (i + 1)) \<noteq> Saturated"
      "c' = 1 \<Longrightarrow> 1 < k \<Longrightarrow> verdict (rates ! 0) \<noteq> Saturated"
      "k < length rates \<Longrightarrow> (2 \<le> k \<and> verdict (rates ! (k - 2)) = Saturated \<and> verdict (rates ! (k - 1)) = Saturated) \<or>
        (c' = 1 \<and> k = 1 \<and> verdict (rates ! 0) = Saturated)" by blast
    have c1: "c' = 1 \<longleftrightarrow> verdict r = Saturated" "c = 1 \<Longrightarrow> verdict r \<noteq> Saturated"
      using False Cons.prems by (auto simp: c'_def split: if_splits)
    have "run_levels verdict c (r # rates) = map (\<lambda>r. (r, verdict r)) (take (Suc k) (r # rates))"
      using False k(2) by (simp add: c'_def [symmetric] Let_def)
    moreover have "verdict ((r # rates) ! i) \<noteq> Saturated \<or> verdict ((r # rates) ! (i + 1)) \<noteq> Saturated" if "i + 2 < Suc k" for i
    proof (cases i)
      case 0
      with that k(4) c1 show ?thesis by auto
    next
      case (Suc j)
      with that k(3) [of j] show ?thesis by simp
    qed
    moreover have "2 \<le> Suc k \<and> verdict ((r # rates) ! (Suc k - 2)) = Saturated \<and> verdict ((r # rates) ! (Suc k - 1)) = Saturated"
      if "Suc k < length (r # rates)"
      using k(5) that c1(1) by (cases k; cases "k - 1") (auto simp: nth_Cons')
    ultimately show ?thesis using k(1) c1(2) by (intro exI [of _ "Suc k"]) auto
  qed
qed simp

text \<open>A client without servers starts.\<close>

lemma local_start:
  assumes "cb_burst_interval_ms (cs_bench cs) \<noteq> 0" "cs_confirmation_address cs = ''0.0.0.0''" "cs_confirmation_port cs = 0"
  shows "\<exists>s. stressor_start (\<lambda>_. []) i cs sid = Ok s \<and> sr_id s = i"
  using assms by (simp add: stressor_start_def client_get_all_ids_def local_address Let_def)

section \<open>Properties\<close>

text \<open>The load levels are the rates from the start in equal steps up to the maximum, or the start
  alone; without a step the tool never gets past making the list.\<close>

theorem load_levels_end:
  assumes "st_load_max c + st_load_step c < 2 ^ 64"
  shows "0 < st_load_step c \<Longrightarrow> \<exists>m. load_levels c = Some (map (\<lambda>j. st_load_start c + j * st_load_step c) [0..<max m 1]) \<and>
      (\<forall>j < m. st_load_start c + j * st_load_step c \<le> st_load_max c) \<and> st_load_max c < st_load_start c + m * st_load_step c"
    and "st_load_step c = 0 \<Longrightarrow> st_load_start c \<le> st_load_max c \<Longrightarrow> load_levels c = None"
proof -
  let ?s = "st_load_start c" and ?d = "st_load_step c" and ?m = "st_load_max c"
  show "load_levels c = None" if "?d = 0" "?s \<le> ?m"
    using that levels_loop_stuck [of ?s ?m "[]"] assms by (simp add: load_levels_def)
  assume d: "0 < ?d"
  obtain k where k: "(\<forall>j < k. ?s + j * ?d \<le> ?m) \<and> ?m < ?s + k * ?d"
  proof
    define k where "k = (LEAST k. ?m < ?s + k * ?d)"
    have "?m < ?s + Suc ?m * ?d" using d by (cases ?d) auto
    then have "?m < ?s + k * ?d" unfolding k_def by (rule LeastI)
    moreover have "?s + j * ?d \<le> ?m" if "j < k" for j using not_less_Least [of j "\<lambda>k. ?m < ?s + k * ?d"] that by (simp add: k_def not_less)
    ultimately show "(\<forall>j < k. ?s + j * ?d \<le> ?m) \<and> ?m < ?s + k * ?d" by blast
  qed
  show "\<exists>m. load_levels c = Some (map (\<lambda>j. ?s + j * ?d) [0..<max m 1]) \<and>
      (\<forall>j < m. ?s + j * ?d \<le> ?m) \<and> ?m < ?s + m * ?d"
  proof (cases k)
    case 0
    with k have "levels_loop ?d ?m ?s [] = Some []" by (subst levels_loop.simps) simp
    with 0 k show ?thesis by (intro exI [of _ 0]) (simp add: load_levels_def)
  next
    case (Suc k')
    with k have "?s + k' * ?d \<le> ?m" by simp
    then have "?s + k * ?d < 2 ^ 64" using Suc assms by simp
    from levels_loop_steps [OF conjunct2 [OF k] this, of "[]"] obtain m where m: "m \<le> k" "\<forall>j < m. ?s + j * ?d \<le> ?m"
      "?m < ?s + m * ?d" "levels_loop ?d ?m ?s [] = Some (map (\<lambda>j. ?s + j * ?d) [0..<m])" by auto
    have "m \<noteq> 0" using m(3) k Suc by (metis add_0_right mult_0 not_less zero_less_Suc)
    then have "max m 1 = m" by simp
    moreover have "load_levels c = Some (map (\<lambda>j. ?s + j * ?d) [0..<m])"
      using m(4) \<open>m \<noteq> 0\<close> by (simp add: load_levels_def)
    ultimately show ?thesis using m(2,3) by (intro exI [of _ m]) (simp only: simp_thms)
  qed
qed

abbreviation demo_stress :: stress_config where
  "demo_stress \<equiv> \<lparr>st_num_nodes = 4, st_num_crash_faults = 0, st_tx_size = 512, st_batch_size = 500000,
     st_batch_timeout_ms = 1000, st_delay_in_ms = 500, st_load_start = 1000, st_load_step = 5000, st_load_max = 200000,
     st_num_clients = 1, st_base_consensus_port = 18000, st_base_mempool_port = 19000, st_base_client_port = 20000,
     st_base_consensus_client_port = 21000, st_base_confirmation_port = 22000, st_bench_emit_window_secs = 5,
     st_eleader_pipeline_depth = 16, st_data_timer_duration_ms = 1000\<rparr>"

theorem load_levels_end_witness:
  "\<exists>m. load_levels demo_stress = Some (map (\<lambda>j. 1000 + j * 5000) [0..<max m 1]) \<and>
     load_levels (demo_stress\<lparr>st_load_step := 0\<rparr>) = None"
  using load_levels_end(1) [of demo_stress] load_levels_end(2) [of "demo_stress\<lparr>st_load_step := 0\<rparr>"] by auto

text \<open>C21. The clients of a new level start again at nonce 0 under the identities of the last: whatever a
  replica has done since it committed a client's transaction number \<open>k\<close> of an earlier level, no batch
  of that replica contains any of the first \<open>k + 1\<close> transactions the client sends in a later one.\<close>

theorem next_level_starts_refused:
  assumes "start_load order c rate mode sid = Ok ss" "s \<in> set ss"
    and "co_mock ops = mock_transaction bc"
    and "mock_transaction bc' k (sr_id s) tx_size smp smp_id \<in> set b"
    and "n \<le> k + 1" "tx \<in> set (burst_batch ops n s)"
  shows "tx \<notin> set (fst (make_batch r' (foldl (pool_step (simple_tx_ops bc)) (commit_pool (simple_tx_ops bc) b r
    (foldl (pool_step (simple_tx_ops bc)) (txpool_new bs) os)) os')))"
proof -
  have "list_all (\<lambda>s. sr_tx_id s = 0) ss"
    using start_clients_ids [OF assms(1) [unfolded start_load_def]] by (rule conjunct2)
  with assms(2) have "sr_tx_id s = 0" by (simp add: list_all_iff)
  with burst_nonce [OF assms(6,3)] assms(5) have tx: "stx_source tx = sr_id s" "stx_nonce tx \<le> k" by auto
  show ?thesis
    by (rule committed_stays_out [OF run_reachable assms(4)]) (simp_all add: tx)
qed

theorem next_level_starts_refused_witness:
  "\<exists>ss s. start_load (\<lambda>_. []) demo_stress 1000 LetoBroadcast 5 = Ok ss \<and> s \<in> set ss \<and>
     (\<forall>tx \<in> set (burst_batch demo_ops 3 s). tx \<notin> set (fst (make_batch 9 (foldl (pool_step (simple_tx_ops plain_bincode))
       (commit_pool (simple_tx_ops plain_bincode) [mock_transaction plain_bincode 2 4 512 False 5] 3
         (foldl (pool_step (simple_tx_ops plain_bincode)) (txpool_new 100) [])) [PAdd (mock_transaction plain_bincode 2 4 512 False 6) 504]))))"
proof -
  obtain s where s1: "stressor_start (\<lambda>_. []) 4 (build_client_settings demo_stress 1000 LetoBroadcast) 5 = Ok (s :: simple_tx stressor)" "sr_id s = 4"
    using local_start [of "build_client_settings demo_stress 1000 LetoBroadcast" 4 5] by (auto simp: build_client_settings_def Let_def)
  then have s: "start_load (\<lambda>_. []) demo_stress 1000 LetoBroadcast 5 = Ok [s]" "sr_id s = 4"
    by (simp_all add: start_load_def)
  have k: "mock_transaction plain_bincode 2 (sr_id s) 512 False 5 \<in> set [mock_transaction plain_bincode 2 4 512 False 5]"
    "co_mock demo_ops = mock_transaction plain_bincode" "(3 :: nat) \<le> 2 + 1" "s \<in> set [s]"
    using s(2) by simp_all
  note R = next_level_starts_refused [OF s(1) k(4,2,1,3)]
  from s(1) k(4) R show ?thesis by blast
qed

text \<open>The test stops after two saturated levels in a row and not before: what it reports is a prefix
  of the levels in which no two saturated levels meet before the last, and it ends early only with two.\<close>

theorem levels_stop_when_saturated:
  "\<exists>k \<le> length rates. run_levels verdict 0 rates = map (\<lambda>r. (r, verdict r)) (take k rates) \<and>
     (\<forall>i. i + 2 < k \<longrightarrow> verdict (rates ! i) \<noteq> Saturated \<or> verdict (rates ! (i + 1)) \<noteq> Saturated) \<and>
     (k < length rates \<longrightarrow> 2 \<le> k \<and> verdict (rates ! (k - 2)) = Saturated \<and> verdict (rates ! (k - 1)) = Saturated)"
  using run_levels_prefix [of 0 rates verdict] by auto

end
