(* ===== verification/ServerSpawn.thy ===== *)
theory ServerSpawn
  imports StorePaths StressTest HeraNet ServerClients ZeusRun HeraRun
begin

section \<open>Starting a server\<close>

text \<open>
  \<^verbatim>\<open>spawn\<close> of \<^verbatim>\<open>server/core.rs\<close>, \<^verbatim>\<open>server/zeus/server.rs\<close> and \<^verbatim>\<open>server/hera/server.rs\<close>, and the harnesses
  of the stress test that start several servers. What a start does to the outside (a store opened, a
  socket bound, a task started) is a log of actions, which an error does not take back. Opening a store
  is the parameter \<open>open_store\<close>; the sockets and the mempool are libraries.
\<close>

datatype boot_action =
    OpenedStore path
  | FanOutTask
  | RouterTask
  | ForwarderTask nat
  | ClientListener socket_addr
  | MempoolTasks mempool_config socket_addr socket_addr "node_id \<rightharpoonup> socket_addr"
  | LoadTask node_id nat
  | ReplicaListener socket_addr

type_synonym 'a boot = "boot_action list \<Rightarrow> 'a outcome \<times> boot_action list"

definition emit :: "boot_action \<Rightarrow> unit boot" where
  "emit a log = (Ok (), log @ [a])"

definition lift_o :: "'a outcome \<Rightarrow> 'a boot" where
  "lift_o r log = (r, log)"

definition open_db :: "(path \<Rightarrow> 's outcome) \<Rightarrow> path \<Rightarrow> 's boot" where
  "open_db open_store p = bind_s (lift_o (open_store p)) (\<lambda>s. bind_s (emit (OpenedStore p)) (\<lambda>_. lift_o (Ok s)))"

definition any_address :: "nat \<Rightarrow> socket_addr boot" where
  "any_address port = lift_o (to_socket_address ''0.0.0.0'' port)"

text \<open>The sockets a start has bound.\<close>

fun bound_by :: "boot_action \<Rightarrow> socket_addr list" where
  "bound_by (ClientListener a) = [a]"
| "bound_by (MempoolTasks mc ma ca peers) = [ma, ca]"
| "bound_by (ReplicaListener a) = [a]"
| "bound_by _ = []"

definition bound :: "boot_action list \<Rightarrow> socket_addr list" where
  "bound log = concat (map bound_by log)"

subsection \<open>The replicas\<close>

text \<open>The first half of a replica's \<^verbatim>\<open>spawn\<close>: its entry and the socket for its peers. Hera has the
  addresses of all nodes before it listens.\<close>

definition replica_listen :: "config \<Rightarrow> node_id \<Rightarrow> unit boot" where
  "replica_listen conf my_id =
     bind_s (lift_o (ok_or (NotInConfig my_id) (get_party conf my_id))) (\<lambda>me.
     bind_s (any_address (consensus_port me)) (\<lambda>a. emit (ReplicaListener a)))"

definition hera_listen :: "config \<Rightarrow> node_id \<Rightarrow> unit boot" where
  "hera_listen conf my_id =
     bind_s (lift_o (ok_or (NotInConfig my_id) (get_party conf my_id))) (\<lambda>me.
     bind_s (any_address (consensus_port me)) (\<lambda>a.
     bind_s (lift_o (net_addresses conf [0..<num_nodes conf])) (\<lambda>addrs.
     bind_s (lift_o (net_workers addrs my_id)) (\<lambda>_. emit (ReplicaListener a)))))"

subsection \<open>The servers\<close>

definition leto_server_spawn ::
  "('s, 'tx, 'b, 'c, 'g) leto_params \<Rightarrow> (path \<Rightarrow> 's outcome) \<Rightarrow> node_id \<Rightarrow> node_id list \<Rightarrow> secret_key \<Rightarrow> pk_map \<Rightarrow>
    server_settings \<Rightarrow> 'g \<Rightarrow> ('s, 'tx, 'c, 'g) leto boot" where
  "leto_server_spawn P open_store my_id all_ids sk sys ss seed =
     bind_s (open_db open_store (store_path (ss_storage_base ss) (chain_db_name (ss_storage_prefix ss) my_id))) (\<lambda>s.
     bind_s (lift_o (ok_or (NotInConfig my_id) (get_party (ss_committee ss) my_id))) (\<lambda>me.
     bind_s (lift_o (get_mempool_peers (ss_committee ss) my_id)) (\<lambda>mempool_peers.
     bind_s (any_address (mempool_port me)) (\<lambda>mempool_addr.
     bind_s (any_address (client_port me)) (\<lambda>client_addr.
     bind_s (any_address (consensus_client_port me)) (\<lambda>consensus_client_addr.
     bind_s (emit FanOutTask) (\<lambda>_.
     bind_s (emit RouterTask) (\<lambda>_.
     bind_s (emit (ClientListener consensus_client_addr)) (\<lambda>_.
     bind_s (emit (MempoolTasks (ss_mempool ss) mempool_addr client_addr mempool_peers)) (\<lambda>_.
     bind_s (replica_listen (ss_committee ss) my_id) (\<lambda>_.
     lift_o (leto_spawn P my_id sk sys all_ids (ss_committee ss) (bc_delay_in_ms (ss_bench ss)) seed s))))))))))))"

definition zeus_server_spawn ::
  "('s, 'tx, 'b, 'c, 'g) zeus_params \<Rightarrow> (path \<Rightarrow> 's outcome) \<Rightarrow> node_id \<Rightarrow> node_id list \<Rightarrow> secret_key \<Rightarrow> pk_map \<Rightarrow>
    server_settings \<Rightarrow> 'g \<Rightarrow> ('s, 'tx, 'b, 'c, 'g) zeus boot" where
  "zeus_server_spawn P open_store my_id all_ids sk sys ss seed =
     bind_s (open_db open_store (store_path (ss_storage_base ss) (chain_db_name (ss_storage_prefix ss) my_id))) (\<lambda>s.
     bind_s (lift_o (ok_or (NotInConfig my_id) (get_party (ss_committee ss) my_id))) (\<lambda>me.
     bind_s (lift_o (get_mempool_peers (ss_committee ss) my_id)) (\<lambda>mempool_peers.
     bind_s (any_address (mempool_port me)) (\<lambda>mempool_addr.
     bind_s (any_address (client_port me)) (\<lambda>client_addr.
     bind_s (any_address (consensus_client_port me)) (\<lambda>consensus_client_addr.
     bind_s (emit (ForwarderTask CLIENT_INGRESS_CAP)) (\<lambda>_.
     bind_s (emit FanOutTask) (\<lambda>_.
     bind_s (emit RouterTask) (\<lambda>_.
     bind_s (emit (ClientListener consensus_client_addr)) (\<lambda>_.
     bind_s (emit (MempoolTasks (ss_mempool ss) mempool_addr client_addr mempool_peers)) (\<lambda>_.
     bind_s (replica_listen (ss_committee ss) my_id) (\<lambda>_.
     bind_s (lift_o (get_consensus_peers (ss_committee ss) my_id)) (\<lambda>_.
     bind_s (open_db open_store (store_path (ss_storage_base ss) (data_db_name (ss_storage_prefix ss) my_id))) (\<lambda>data_s.
     lift_o (zeus_spawn P my_id sk sys all_ids (ss_committee ss) (bc_delay_in_ms (ss_bench ss))
       (my_id = bc_bench_metrics_node (ss_bench ss)) seed s data_s)))))))))))))))"

text \<open>The rate of Hera's load generator is read from the environment; without a factory nothing is
  generated.\<close>

definition env_tps :: "string option \<Rightarrow> nat" where
  "env_tps v = (case v of None \<Rightarrow> 0 | Some s \<Rightarrow> (case str_to_id_parser s of Ok n \<Rightarrow> n | _ \<Rightarrow> 0))"

text \<open>So is the period of Hera's round timer, where it is set.\<close>

definition env_timer :: "string option \<Rightarrow> nat option" where
  "env_timer v = (case v of None \<Rightarrow> None | Some s \<Rightarrow> (case str_to_id_parser s of Ok n \<Rightarrow> Some n | _ \<Rightarrow> None))"

definition hera_server_spawn ::
  "('s, 'tx, 'b, 'g) hera_params \<Rightarrow> (path \<Rightarrow> 's outcome) \<Rightarrow> node_id \<Rightarrow> node_id list \<Rightarrow> secret_key \<Rightarrow> pk_map \<Rightarrow>
    server_settings \<Rightarrow> string option \<Rightarrow> string option \<Rightarrow> bool \<Rightarrow> 'g \<Rightarrow> ('s, 'tx, 'b, 'g) hera boot" where
  "hera_server_spawn P open_store my_id all_ids sk sys ss tps_var timer_var factory seed =
     bind_s (open_db open_store (store_path (ss_storage_base ss) (chain_db_name (ss_storage_prefix ss) my_id))) (\<lambda>s.
     bind_s (lift_o (ok_or (NotInConfig my_id) (get_party (ss_committee ss) my_id))) (\<lambda>me.
     bind_s (lift_o (get_mempool_peers (ss_committee ss) my_id)) (\<lambda>mempool_peers.
     bind_s (any_address (mempool_port me)) (\<lambda>mempool_addr.
     bind_s (any_address (client_port me)) (\<lambda>client_addr.
     bind_s (emit (MempoolTasks (ss_mempool ss) mempool_addr client_addr mempool_peers)) (\<lambda>_.
     bind_s (if 0 < env_tps tps_var \<and> factory then emit (LoadTask my_id (env_tps tps_var)) else lift_o (Ok ())) (\<lambda>_.
     bind_s (hera_listen (ss_committee ss) my_id) (\<lambda>_.
     lift_o (hera_spawn P my_id sk sys all_ids (ss_committee ss) (bc_delay_in_ms (ss_bench ss)) (env_timer timer_var)
       (bc_bench_metrics_node (ss_bench ss)) seed s)))))))))"

text \<open>\<^verbatim>\<open>HeraServer::spawn\<close>\<close>

definition hera_server_spawn_plain where
  "hera_server_spawn_plain P open_store my_id all_ids sk sys ss tps_var timer_var seed =
     hera_server_spawn P open_store my_id all_ids sk sys ss tps_var timer_var False seed"

text \<open>The harnesses start one server after the other and stop at the first error; a node beyond the
  generated keys ends the process.\<close>

fun spawn_nodes :: "(node_id \<Rightarrow> 'k \<Rightarrow> 'l boot) \<Rightarrow> 'k list \<Rightarrow> node_id list \<Rightarrow> 'l list boot" where
  "spawn_nodes spawn keys [] = lift_o (Ok [])"
| "spawn_nodes spawn keys (i # is) =
     (if i < length keys
      then bind_s (spawn i (keys ! i)) (\<lambda>l. bind_s (spawn_nodes spawn keys is) (\<lambda>ls. lift_o (Ok (l # ls))))
      else lift_o Panic)"


subsection \<open>Running a start\<close>

lemma emit_simps [simp]:
  "emit a log = (Ok (), log @ [a])" "bind_s (emit a) k log = k () (log @ [a])"
  by (simp_all add: emit_def bind_s_def)

lemma lift_o_simps [simp]:
  "lift_o r log = (r, log)" "bind_s (lift_o (Ok x)) k log = k x log" "bind_s (lift_o (Err e)) k log = (Err e, log)"
  by (simp_all add: lift_o_def bind_s_def)

lemma open_db_simps [simp]:
  "open_store p = Ok s \<Longrightarrow> bind_s (open_db open_store p) k log = k s (log @ [OpenedStore p])"
  by (simp add: open_db_def bind_s_def [of "bind_s _ _"])

lemma parse_any: "parse_ipv4 ''0.0.0.0'' = Some 0"
  by (simp add: parse_ipv4_def parse_octet_def digit_val_def)

lemma any_address_simps [simp]: "bind_s (any_address port) k log = k (0, port) log"
  by (simp add: any_address_def to_socket_address_def parse_any)

lemma replica_listen_Ok [simp]:
  "get_party conf i = Some p \<Longrightarrow>
    bind_s (replica_listen conf i) k log = k () (log @ [ReplicaListener (0, consensus_port p)])"
  by (simp add: replica_listen_def bind_s_def [of "bind_s _ _"])

text \<open>A committee with an entry and readable addresses for every node.\<close>

definition addresses_ok :: "config \<Rightarrow> bool" where
  "addresses_ok conf \<longleftrightarrow> (\<forall>i < num_nodes conf. \<exists>p. get_party conf i = Some p \<and>
     parse_ipv4 (mempool_address p) \<noteq> None \<and> parse_ipv4 (consensus_address p) \<noteq> None)"

lemma to_socket_address_Ok: "parse_ipv4 s \<noteq> None \<Longrightarrow> \<exists>a. to_socket_address s port = Ok a"
  by (auto simp: to_socket_address_def)

lemma peers_loop_total:
  assumes "\<forall>i \<in> set is. \<exists>p. get_party c i = Some p \<and> (\<exists>a. (case addr_of p of (ip, port) \<Rightarrow> to_socket_address ip port) = Ok a)"
  shows "\<exists>r. peers_loop c addr_of my is m = Ok r"
  using assms by (induction "is" arbitrary: m) (auto simp del: fun_upd_apply)

lemma net_addresses_total:
  assumes "\<forall>i \<in> set is. \<exists>p. get_party c i = Some p \<and> parse_ipv4 (consensus_address p) \<noteq> None"
  shows "\<exists>as. net_addresses c is = Ok as \<and> length as = length is"
  using assms by (induction "is") (auto simp: to_socket_address_def)

lemma peers_total:
  assumes "addresses_ok conf"
  shows "\<exists>r. get_mempool_peers conf my = Ok r" "\<exists>r. get_consensus_peers conf my = Ok r"
    "\<exists>as. net_addresses conf [0..<num_nodes conf] = Ok as \<and> length as = num_nodes conf"
proof -
  have *: "\<exists>p. get_party conf i = Some p \<and> parse_ipv4 (mempool_address p) \<noteq> None \<and> parse_ipv4 (consensus_address p) \<noteq> None"
    if "i \<in> set [0..<num_nodes conf]" for i
    using that assms by (simp add: addresses_ok_def)
  show "\<exists>r. get_mempool_peers conf my = Ok r" unfolding get_mempool_peers_def
    by (rule peers_loop_total) (use * to_socket_address_Ok in \<open>fastforce\<close>)
  show "\<exists>r. get_consensus_peers conf my = Ok r" unfolding get_consensus_peers_def
    by (rule peers_loop_total) (use * to_socket_address_Ok in \<open>fastforce\<close>)
  show "\<exists>as. net_addresses conf [0..<num_nodes conf] = Ok as \<and> length as = num_nodes conf"
    using net_addresses_total [of "[0..<num_nodes conf]" conf] * by (metis diff_zero length_upt)
qed

lemma hera_listen_Ok:
  assumes "addresses_ok conf" "get_party conf i = Some p" "i < num_nodes conf"
  shows "bind_s (hera_listen conf i) k log = k () (log @ [ReplicaListener (0, consensus_port p)])"
proof -
  obtain as where as: "net_addresses conf [0..<num_nodes conf] = Ok as" "length as = num_nodes conf"
    using peers_total(3) [OF assms(1)] by blast
  have "\<exists>ws. net_workers as i = Ok ws" using as(2) assms(3) by (simp add: net_workers_def)
  then show ?thesis by (auto simp: hera_listen_def bind_s_def [of "bind_s _ _"] assms(2) as(1))
qed

lemma leader_new_committee:
  assumes "chooser_ok pick" "committee_ok order conf"
  shows "\<exists>lc. leader_new pick seed (get_all_ids order conf) (num_faults conf) = Ok lc"
  using leader_new_ok [OF assms(1) _ _ _ refl, of "get_all_ids order conf" "num_faults conf" seed] assms(2)
  by (auto simp: committee_ok_def)

text \<open>The round timers can be built: four times the network delay is not 0 and does not overflow.\<close>

definition timer_ok :: "server_settings \<Rightarrow> bool" where
  "timer_ok ss \<longleftrightarrow> 0 < bc_delay_in_ms (ss_bench ss) \<and> 4 * bc_delay_in_ms (ss_bench ss) < 2 ^ 64"

text \<open>What a start does when nothing is wrong.\<close>

lemma leto_boots:
  assumes "addresses_ok (ss_committee ss)" "get_party (ss_committee ss) i = Some p"
    and "chooser_ok (lp_pick P)" "committee_ok (lp_order P) (ss_committee ss)"
    and "open_store (store_path (ss_storage_base ss) (chain_db_name (ss_storage_prefix ss) i)) = Ok s" "timer_ok ss"
  shows "\<exists>l peers. leto_server_spawn P open_store i ids sk sys ss seed log = (Ok l,
     log @ [OpenedStore (store_path (ss_storage_base ss) (chain_db_name (ss_storage_prefix ss) i)), FanOutTask, RouterTask,
      ClientListener (0, consensus_client_port p),
      MempoolTasks (ss_mempool ss) (0, mempool_port p) (0, client_port p) peers, ReplicaListener (0, consensus_port p)])"
proof -
  obtain mp where mp: "get_mempool_peers (ss_committee ss) i = Ok mp" using peers_total(1) [OF assms(1)] by blast
  obtain cp where cp: "get_consensus_peers (ss_committee ss) i = Ok cp" using peers_total(2) [OF assms(1)] by blast
  obtain lc where lc: "leader_new (lp_pick P) seed (get_all_ids (lp_order P) (ss_committee ss)) (num_faults (ss_committee ss)) = Ok lc"
    using leader_new_committee [OF assms(3,4)] by blast
  show ?thesis using assms(2,5,6) mp cp lc by (simp add: leto_server_spawn_def leto_spawn_def timer_ok_def)
qed

lemma zeus_boots:
  assumes "addresses_ok (ss_committee ss)" "get_party (ss_committee ss) i = Some p"
    and "chooser_ok (zp_pick P)" "committee_ok (zp_order P) (ss_committee ss)"
    and "open_store (store_path (ss_storage_base ss) (chain_db_name (ss_storage_prefix ss) i)) = Ok s"
    and "open_store (store_path (ss_storage_base ss) (data_db_name (ss_storage_prefix ss) i)) = Ok ds" "timer_ok ss"
  shows "\<exists>z peers. zeus_server_spawn P open_store i ids sk sys ss seed log = (Ok z,
     log @ [OpenedStore (store_path (ss_storage_base ss) (chain_db_name (ss_storage_prefix ss) i)),
      ForwarderTask CLIENT_INGRESS_CAP, FanOutTask, RouterTask, ClientListener (0, consensus_client_port p),
      MempoolTasks (ss_mempool ss) (0, mempool_port p) (0, client_port p) peers, ReplicaListener (0, consensus_port p),
      OpenedStore (store_path (ss_storage_base ss) (data_db_name (ss_storage_prefix ss) i))])"
proof -
  obtain mp where mp: "get_mempool_peers (ss_committee ss) i = Ok mp" using peers_total(1) [OF assms(1)] by blast
  obtain cp where cp: "get_consensus_peers (ss_committee ss) i = Ok cp" using peers_total(2) [OF assms(1)] by blast
  obtain lc where lc: "leader_new (zp_pick P) seed (get_all_ids (zp_order P) (ss_committee ss)) (num_faults (ss_committee ss)) = Ok lc"
    using leader_new_committee [OF assms(3,4)] by blast
  show ?thesis using assms(2,5-7) mp cp lc by (simp add: zeus_server_spawn_def zeus_spawn_def timer_ok_def)
qed

lemma hera_boots:
  assumes "addresses_ok (ss_committee ss)" "get_party (ss_committee ss) i = Some p" "i < num_nodes (ss_committee ss)"
    and "chooser_ok (hp_pick P)" "committee_ok (hp_order P) (ss_committee ss)"
    and "open_store (store_path (ss_storage_base ss) (chain_db_name (ss_storage_prefix ss) i)) = Ok s"
    and "timer_ok ss" "env_timer timer_var \<noteq> Some 0"
  shows "\<exists>h peers. hera_server_spawn P open_store i ids sk sys ss tps_var timer_var factory seed [] = (Ok h,
     [OpenedStore (store_path (ss_storage_base ss) (chain_db_name (ss_storage_prefix ss) i)),
      MempoolTasks (ss_mempool ss) (0, mempool_port p) (0, client_port p) peers] @
     (if 0 < env_tps tps_var \<and> factory then [LoadTask i (env_tps tps_var)] else []) @
     [ReplicaListener (0, consensus_port p)])"
proof -
  obtain mp where mp: "get_mempool_peers (ss_committee ss) i = Ok mp" using peers_total(1) [OF assms(1)] by blast
  obtain as where as: "net_addresses (ss_committee ss) [0..<num_nodes (ss_committee ss)] = Ok as"
    "length as = num_nodes (ss_committee ss)" using peers_total(3) [OF assms(1)] by blast
  obtain lc where lc: "leader_new (hp_pick P) seed (get_all_ids (hp_order P) (ss_committee ss)) (num_faults (ss_committee ss)) = Ok lc"
    using leader_new_committee [OF assms(4,5)] by blast
  have "interval (Ok (case env_timer timer_var of Some t \<Rightarrow> t | None \<Rightarrow> 4 * bc_delay_in_ms (ss_bench ss))) = Ok ()"
    using assms(7,8) by (cases "env_timer timer_var") (auto simp: timer_ok_def)
  then show ?thesis using assms(2,6,7) mp as(1) lc
    by (simp add: hera_server_spawn_def hera_spawn_def hera_listen_Ok [OF assms(1-3)] timer_ok_def del: interval_Ok)
qed


subsection \<open>Starting several servers\<close>

text \<open>What the harnesses need of a server: that it starts where it is ready to, and takes back nothing
  another server did.\<close>

locale startable =
  fixes spawn :: "node_id \<Rightarrow> 'k \<Rightarrow> 'l boot" and ready :: "node_id \<Rightarrow> bool"
  assumes starts: "ready i \<Longrightarrow> \<exists>l log'. spawn i k log = (Ok l, log @ log')"
begin

lemma all_start:
  assumes "\<forall>i \<in> set is. ready i \<and> i < length keys"
  shows "\<exists>ls log'. spawn_nodes spawn keys is log = (Ok ls, log @ log') \<and> length ls = length is"
  using assms
proof (induction "is" arbitrary: log)
  case (Cons i "is")
  obtain l log1 where l: "spawn i (keys ! i) log = (Ok l, log @ log1)" using Cons.prems starts by fastforce
  obtain ls log2 where "spawn_nodes spawn keys is (log @ log1) = (Ok ls, (log @ log1) @ log2)" "length ls = length is"
    using Cons.IH [of "log @ log1"] Cons.prems by auto
  then show ?case using l Cons.prems by (simp add: bind_s_def)
qed simp

end

definition committee_ready :: "'g chooser \<Rightarrow> (node_id set \<Rightarrow> node_id list) \<Rightarrow> config \<Rightarrow> node_id \<Rightarrow> bool" where
  "committee_ready pick order conf i \<longleftrightarrow> addresses_ok conf \<and> i < num_nodes conf \<and> chooser_ok pick \<and> committee_ok order conf"

definition opens :: "(path \<Rightarrow> 's outcome) \<Rightarrow> path \<Rightarrow> bool" where
  "opens open_store p \<longleftrightarrow> (\<exists>s. open_store p = Ok s)"

definition leto_ready where
  "leto_ready P open_store ss i \<longleftrightarrow> committee_ready (lp_pick P) (lp_order P) (ss_committee ss) i \<and>
     opens open_store (store_path (ss_storage_base ss) (chain_db_name (ss_storage_prefix ss) i)) \<and> timer_ok ss"

definition zeus_ready where
  "zeus_ready P open_store ss i \<longleftrightarrow> committee_ready (zp_pick P) (zp_order P) (ss_committee ss) i \<and>
     opens open_store (store_path (ss_storage_base ss) (chain_db_name (ss_storage_prefix ss) i)) \<and>
     opens open_store (store_path (ss_storage_base ss) (data_db_name (ss_storage_prefix ss) i)) \<and> timer_ok ss"

lemma ready_party: "committee_ready pick order conf i \<Longrightarrow> \<exists>p. get_party conf i = Some p"
  by (auto simp: committee_ready_def addresses_ok_def)

interpretation leto_start: startable
    "\<lambda>i k. leto_server_spawn P open_store i ids (fst k) (snd k) ss seed" "leto_ready P open_store ss"
  for P open_store ids ss seed
proof
  fix i k log assume r: "leto_ready P open_store ss i"
  then obtain p s where "get_party (ss_committee ss) i = Some p"
    "open_store (store_path (ss_storage_base ss) (chain_db_name (ss_storage_prefix ss) i)) = Ok s"
    by (auto simp: leto_ready_def opens_def dest: ready_party)
  with leto_boots [of ss i p P open_store s ids "fst k" "snd k" seed log] r
  show "\<exists>l log'. leto_server_spawn P open_store i ids (fst k) (snd k) ss seed log = (Ok l, log @ log')"
    by (auto simp: leto_ready_def committee_ready_def)
qed

interpretation zeus_start: startable
    "\<lambda>i k. zeus_server_spawn P open_store i ids (fst k) (snd k) ss seed" "zeus_ready P open_store ss"
  for P open_store ids ss seed
proof
  fix i k log assume r: "zeus_ready P open_store ss i"
  then obtain p s ds where "get_party (ss_committee ss) i = Some p"
    "open_store (store_path (ss_storage_base ss) (chain_db_name (ss_storage_prefix ss) i)) = Ok s"
    "open_store (store_path (ss_storage_base ss) (data_db_name (ss_storage_prefix ss) i)) = Ok ds"
    by (auto simp: zeus_ready_def opens_def dest: ready_party)
  with zeus_boots [of ss i p P open_store s ds ids "fst k" "snd k" seed log] r
  show "\<exists>l log'. zeus_server_spawn P open_store i ids (fst k) (snd k) ss seed log = (Ok l, log @ log')"
    by (auto simp: zeus_ready_def committee_ready_def)
qed

subsection \<open>A deployment's settings\<close>

text \<open>The ports a Leto or Zeus server listens on, in the order it binds them.\<close>

definition boot_ports :: "party \<Rightarrow> nat list" where
  "boot_ports p = [consensus_client_port p, mempool_port p, client_port p, consensus_port p]"

lemma boot_ports_listen: "boot_ports p = map (\<lambda>a. listen_ports p cp ! a) [3, 0, 2, 1]"
  by (simp add: boot_ports_def listen_ports_def)

lemma parse_localhost: "parse_ipv4 ''127.0.0.1'' \<noteq> None"
  by (simp add: parse_ipv4_def parse_octet_def digit_val_def)

lemma local_ips:
  assumes "cc_local c" "\<forall>ip \<in> set (cc_ip c). parse_ipv4 ip \<noteq> None" "gather_ips c = Ok ips"
  shows "\<forall>ip \<in> set ips. parse_ipv4 ip \<noteq> None"
  using assms parse_localhost by (auto simp: gather_ips_def)

lemma local_tables:
  assumes "cc_local c" "\<forall>ip \<in> set (cc_ip c). parse_ipv4 ip \<noteq> None" "create_settings c = Ok (ss, cs)"
  shows "\<exists>ips. cc_servers c \<le> length ips \<and> (\<forall>ip \<in> set ips. parse_ipv4 ip \<noteq> None) \<and>
    parties (ss_committee ss) = (\<lambda>i. if i < cc_servers c then Some (server_party c (ips ! i) i) else None) \<and>
    cs_parties cs = (\<lambda>i. if i < cc_servers c then Some (client_party_of c (ips ! i) i) else None)"
proof -
  obtain ips where ips: "gather_ips c = Ok ips" "cc_servers c \<le> length ips" using gather_local [OF assms(1)] by blast
  from create_settings_Ok [OF ips] assms(3) local_ips [OF assms(1,2) ips(1)] ips(2) show ?thesis by auto
qed

lemma local_addresses_ok:
  assumes "cc_local c" "\<forall>ip \<in> set (cc_ip c). parse_ipv4 ip \<noteq> None" "create_settings c = Ok (ss, cs)"
  shows "addresses_ok (ss_committee ss)" "num_nodes (ss_committee ss) = cc_servers c"
proof -
  from local_tables [OF assms] obtain ips where ips: "cc_servers c \<le> length ips" "\<forall>ip \<in> set ips. parse_ipv4 ip \<noteq> None"
    "parties (ss_committee ss) = (\<lambda>i. if i < cc_servers c then Some (server_party c (ips ! i) i) else None)" by blast
  have "dom (parties (ss_committee ss)) = {..<cc_servers c}" unfolding ips(3) by (auto split: if_splits)
  then show n: "num_nodes (ss_committee ss) = cc_servers c" by (simp add: num_nodes_def)
  have "parse_ipv4 (ips ! i) \<noteq> None" if "i < cc_servers c" for i using that ips(1,2) by (metis nth_mem order_less_le_trans)
  then show "addresses_ok (ss_committee ss)"
    by (simp add: addresses_ok_def n get_party_def ips(3) server_party_def Let_def)
qed

lemma client_peer_map_Ok:
  assumes "\<forall>i \<in> set is. \<exists>p. client_get cs i = Some p \<and> to_socket_address (cp_address p) (cp_port p) = Ok (f i)"
  shows "client_peer_map cs is m = Ok (\<lambda>i. if i \<in> set is then Some (f i) else m i)"
  using assms
proof (induction "is" arbitrary: m)
  case (Cons j "is")
  have "client_peer_map cs is (m(j \<mapsto> f j)) = Ok (\<lambda>i. if i \<in> set is then Some (f i) else (m(j \<mapsto> f j)) i)"
    using Cons by simp
  then show ?case using Cons.prems by (auto simp: fun_eq_iff)
qed simp

lemma local_client_peers:
  assumes "cc_local c" "\<forall>ip \<in> set (cc_ip c). parse_ipv4 ip \<noteq> None" "create_settings c = Ok (ss, cs)"
    and "order_ok order" "i < cc_servers c" "get_party (ss_committee ss) i = Some p"
  shows "\<exists>m a. client_peer_map cs (client_get_all_ids order cs) Map.empty = Ok m \<and>
    parse_ipv4 (consensus_address p) = Some a \<and> m i = Some (a, consensus_client_port p)"
proof -
  from local_tables [OF assms(1-3)] obtain ips where ips: "cc_servers c \<le> length ips" "\<forall>ip \<in> set ips. parse_ipv4 ip \<noteq> None"
    "parties (ss_committee ss) = (\<lambda>i. if i < cc_servers c then Some (server_party c (ips ! i) i) else None)"
    "cs_parties cs = (\<lambda>i. if i < cc_servers c then Some (client_party_of c (ips ! i) i) else None)" by blast
  let ?f = "\<lambda>i. (the (parse_ipv4 (ips ! i)), consensus_client_port (server_party c (ips ! i) i))"
  have dom: "dom (cs_parties cs) = {..<cc_servers c}" unfolding ips(4) by (auto split: if_splits)
  have ids: "set (client_get_all_ids order cs) = {..<cc_servers c}"
    using assms(4) by (simp add: client_get_all_ids_def order_ok_def dom)
  have pa: "parse_ipv4 (ips ! j) \<noteq> None" if "j < cc_servers c" for j using that ips(1,2) by (metis nth_mem order_less_le_trans)
  have "\<forall>j \<in> set (client_get_all_ids order cs). \<exists>q. client_get cs j = Some q \<and>
      to_socket_address (cp_address q) (cp_port q) = Ok (?f j)"
    using pa by (fastforce simp: ids client_get_def ips(4) client_party_of_def Let_def to_socket_address_def)
  from client_peer_map_Ok [OF this, of Map.empty] show ?thesis
    using assms(5,6) pa [OF assms(5)] by (auto simp: ids get_party_def ips(3) server_party_def Let_def)
qed

lemma local_party:
  assumes "cc_local c" "create_settings c = Ok (ss, cs)" "get_party (ss_committee ss) i = Some p"
  shows "i < cc_servers c \<and> (\<exists>ip. p = server_party c ip i)"
proof -
  obtain ips where ips: "gather_ips c = Ok ips" "cc_servers c \<le> length ips" using gather_local [OF assms(1)] by blast
  from create_settings_Ok [OF ips] assms(2) have
    "parties (ss_committee ss) = (\<lambda>i. if i < cc_servers c then Some (server_party c (ips ! i) i) else None)" by simp
  with assms(3) show ?thesis by (auto simp: get_party_def split: if_splits)
qed

lemma local_ports_apart:
  assumes "cc_local c" "ports_apart c" "create_settings c = Ok (ss, cs)"
    and "get_party (ss_committee ss) i = Some p" "get_party (ss_committee ss) j = Some q"
  shows "distinct (boot_ports p) \<and> (i \<noteq> j \<longrightarrow> set (boot_ports p) \<inter> set (boot_ports q) = {})"
proof -
  from local_party [OF assms(1,3,4)] obtain ip where p: "i < cc_servers c" "p = server_party c ip i" by blast
  from local_party [OF assms(1,3,5)] obtain iq where q: "j < cc_servers c" "q = server_party c iq j" by blast
  let ?A = "set [3, 0, 2, 1 :: nat]"
  have ports: "boot_ports (server_party c ip' k) = map (\<lambda>a. base_ports c ! a + k) [3, 0, 2, 1]"
    if "k < cc_servers c" for ip' k
    unfolding boot_ports_listen [of _ "client_party_of c ip' k"] local_ports [OF assms(1,2) that] by simp
  have apart: "i = j \<and> a = b" if "a \<in> ?A" "b \<in> ?A" "i < cc_servers c" "j < cc_servers c"
      "base_ports c ! a + i = base_ports c ! b + j" for i j a b
    by (rule bases_apart [OF base_ports_apart [OF assms(2)] _ _ that(3-5)]) (use that(1,2) in auto)
  have "inj_on (\<lambda>a. base_ports c ! a + i) ?A" using apart [OF _ _ p(1) p(1)] by (intro inj_onI) blast
  then have "distinct (boot_ports p)" unfolding p(2) ports [OF p(1)] by (subst distinct_map) simp
  moreover have "set (boot_ports p) \<inter> set (boot_ports q) = {}" if "i \<noteq> j"
    unfolding p(2) q(2) ports [OF p(1)] ports [OF q(1)] set_map using apart [OF _ _ p(1) q(1)] that by blast
  ultimately show ?thesis by blast
qed


lemma local_storage:
  assumes "create_settings c = Ok (ss, cs)"
  shows "ss_storage_base ss = cc_db_base c" "ss_storage_prefix ss = cc_db_prefix c"
    "cs_bench cs = \<lparr>cb_tx_size = cc_tx_size c, cb_burst_interval_ms = cc_burst_interval c,
       cb_txs_per_burst = cc_txs_per_burst c, cb_bench_emit_window_secs = 5, cb_emit_dp = True\<rparr>"
    "cs_confirmation_address cs = ''0.0.0.0''"
  using assms by (auto simp: create_settings_def bind_o_Ok_iff)

lemma local_delay: "create_settings c = Ok (ss, cs) \<Longrightarrow> bc_delay_in_ms (ss_bench ss) = cc_network_delay c"
  by (auto simp: create_settings_def bind_o_Ok_iff)

lemma any_socket [simp]: "to_socket_address ''0.0.0.0'' port = Ok (0, port)"
  by (simp add: to_socket_address_def parse_any)

section \<open>Properties\<close>

lemma local_committee_ok:
  assumes "cc_local c" "\<forall>ip \<in> set (cc_ip c). parse_ipv4 ip \<noteq> None" "create_settings c = Ok (ss, cs)"
    and "order_ok ord" "2 \<le> cc_servers c" "cc_servers c < 2 ^ 64"
  shows "committee_ok ord (ss_committee ss)"
proof -
  have n: "num_nodes (ss_committee ss) = cc_servers c" by (rule local_addresses_ok(2) [OF assms(1-3)])
  from local_tables [OF assms(1-3)] obtain ips where
    "parties (ss_committee ss) = (\<lambda>i. if i < cc_servers c then Some (server_party c (ips ! i) i) else None)" by blast
  then have d: "dom (parties (ss_committee ss)) = {..<cc_servers c}" by (auto split: if_splits)
  then have ids: "set (get_all_ids ord (ss_committee ss)) = {..<cc_servers c}" "distinct (get_all_ids ord (ss_committee ss))"
    using assms(4) by (simp_all add: order_ok_def get_all_ids_def)
  then have "length (get_all_ids ord (ss_committee ss)) = cc_servers c" using distinct_card by fastforce
  moreover have "num_faults (ss_committee ss) + 1 < cc_servers c"
    using num_faults_eq [of "ss_committee ss"] n assms(5,6) by simp
  ultimately show ?thesis using ids assms(5) by (simp add: committee_ok_def START_ID_def)
qed


lemma four_committee:
  assumes "dom (parties conf) = {0, 1, 2, 3}"
  shows "committee_ok sorted_list_of_set conf"
proof -
  have n: "num_nodes conf = 4" using assms by (simp add: num_nodes_def)
  then have "num_faults conf = 1" by (simp add: num_faults_eq)
  with n assms show ?thesis by (simp add: committee_ok_def get_all_ids_def quorum_def START_ID_def)
qed


text \<open>With a network delay of 0 the round timer has no period, and building it panics: no replica of any of
  the three protocols comes to run.\<close>

theorem zero_delay_never_runs:
  "leto_spawn P me sk sys peers conf 0 seed s \<noteq> Ok l \<and>
   zeus_spawn Z me sk sys peers conf 0 emit_dp seed' s' ds \<noteq> Ok z \<and>
   hera_spawn H me sk sys peers conf 0 None mn seed'' s'' \<noteq> Ok h"
  by (simp add: leto_spawn_def zeus_spawn_def hera_spawn_def bind_o_Ok_iff)

text \<open>A start that fails: a node that is not in the committee has opened its store and nothing else;
  but when it is only the address of another replica that cannot be read, \<^verbatim>\<open>spawn\<close> returns the error
  with the listeners of the mempool, the clients and the replica up.\<close>

theorem unknown_node_opens_store_only:
  assumes "get_party (ss_committee ss) i = None"
    and "open_store (store_path (ss_storage_base ss) (chain_db_name (ss_storage_prefix ss) i)) = Ok s"
  shows "leto_server_spawn P open_store i ids sk sys ss seed [] =
      (Err (NotInConfig i), [OpenedStore (store_path (ss_storage_base ss) (chain_db_name (ss_storage_prefix ss) i))])"
    and "zeus_server_spawn Z open_store i ids sk sys ss seed' [] =
      (Err (NotInConfig i), [OpenedStore (store_path (ss_storage_base ss) (chain_db_name (ss_storage_prefix ss) i))])"
    and "hera_server_spawn H open_store i ids sk sys ss tps_var timer_var factory seed'' [] =
      (Err (NotInConfig i), [OpenedStore (store_path (ss_storage_base ss) (chain_db_name (ss_storage_prefix ss) i))])"
  using assms by (simp_all add: leto_server_spawn_def zeus_server_spawn_def hera_server_spawn_def)

theorem unknown_node_opens_store_only_witness:
  "leto_server_spawn test_params (\<lambda>p. Ok Map.empty) 9 [0, 1, 2, 3] [9] test_keys
     (build_server_settings mc stc ''/tmp/x''\<lparr>ss_committee := test_config\<rparr>) () [] =
   (Err (NotInConfig 9), [OpenedStore (store_path ''/tmp/x'' (chain_db_name ''stress-db'' 9))])"
  using unknown_node_opens_store_only(1) [of "build_server_settings mc stc ''/tmp/x''\<lparr>ss_committee := test_config\<rparr>" 9
    "\<lambda>p. Ok Map.empty" Map.empty test_params "[0, 1, 2, 3]" "[9]" test_keys "()"]
  by (simp add: build_server_settings_def test_config_def get_party_def)

theorem failed_start_leaves_listeners:
  assumes "get_party (ss_committee ss) i = Some p" "get_mempool_peers (ss_committee ss) i = Ok mp"
    and "get_consensus_peers (ss_committee ss) i = Err e"
    and "open_store (store_path (ss_storage_base ss) (chain_db_name (ss_storage_prefix ss) i)) = Ok s"
  shows "\<exists>log. leto_server_spawn P open_store i ids sk sys ss seed [] = (Err e, log) \<and>
      bound log = map (Pair 0) (boot_ports p)"
    and "\<exists>log. zeus_server_spawn Z open_store i ids sk sys ss seed' [] = (Err e, log) \<and>
      bound log = map (Pair 0) (boot_ports p)"
  using assms
  by (simp_all add: leto_server_spawn_def zeus_server_spawn_def leto_spawn_def bound_def boot_ports_def)

lemma leto_opens:
  assumes "leto_server_spawn P open_store i ids sk sys ss seed [] = (r, log)" "OpenedStore q \<in> set log"
  shows "q = store_path (ss_storage_base ss) (chain_db_name (ss_storage_prefix ss) i)"
  using assms unfolding leto_server_spawn_def open_db_def replica_listen_def any_address_def bind_s_def emit_def lift_o_def
  by (auto split: outcome.splits prod.splits)

text \<open>The stress test makes a temporary directory for its stores and removes it at the end, but the
  stores are opened next to it: under the same names in every run, and left there.\<close>

theorem stress_stores_beside_temp_dir:
  assumes "path_of temp_dir = d @ [Normal n]" "OpenedStore q \<in> set log"
    and "leto_server_spawn P open_store i ids sk sys (build_server_settings mc c temp_dir) seed [] = (r, log)"
  shows "q = d @ [Normal (chain_db_name ''stress-db'' i @ ''.db'')]"
  using leto_opens [OF assms(3,2)] store_beside_base [OF assms(1), of "''stress-db''" i]
  by (simp add: build_server_settings_def plain_name_def)

theorem stress_stores_beside_temp_dir_witness:
  "OpenedStore q \<in> set (snd (leto_server_spawn test_params (\<lambda>p. Ok Map.empty) 0 [0, 1] [0] test_keys
      (build_server_settings mc c ''/tmp/.tmpAb3'') () [])) \<Longrightarrow>
    q = [RootDir, Normal ''tmp'', Normal (chain_db_name ''stress-db'' 0 @ ''.db'')]"
  by (rule stress_stores_beside_temp_dir [where d = "[RootDir, Normal ''tmp'']" and n = "''.tmpAb3''" and temp_dir = "''/tmp/.tmpAb3''", simplified,
      OF _ _ prod.collapse [symmetric]])
    (simp_all add: path_of_def comp_of_def)

text \<open>The harness of the stress test, on Leto and on Zeus: all nodes that are not faulty start.\<close>

lemma stress_addresses_ok:
  "addresses_ok (ss_committee (build_server_settings mc c temp_dir))"
  "num_nodes (ss_committee (build_server_settings mc c temp_dir)) = st_num_nodes c"
proof -
  have "dom (\<lambda>i. if i < st_num_nodes c then Some (stress_party c i) else None) = {..<st_num_nodes c}"
    by (auto split: if_splits)
  then show n: "num_nodes (ss_committee (build_server_settings mc c temp_dir)) = st_num_nodes c"
    by (simp add: num_nodes_def build_server_settings_def)
  show "addresses_ok (ss_committee (build_server_settings mc c temp_dir))"
    using parse_localhost n by (simp add: addresses_ok_def get_party_def) (simp add: build_server_settings_def stress_party_def)
qed

lemma stress_timer_ok:
  "0 < st_delay_in_ms c \<Longrightarrow> 4 * st_delay_in_ms c < 2 ^ 64 \<Longrightarrow> timer_ok (build_server_settings mc c temp_dir)"
  by (simp add: timer_ok_def build_server_settings_def)

theorem stress_nodes_start:
  assumes "st_num_crash_faults c \<le> st_num_nodes c" "st_num_nodes c < 2 ^ 64" "length keys = st_num_nodes c"
    and "\<forall>p. opens open_store p" "0 < st_delay_in_ms c" "4 * st_delay_in_ms c < 2 ^ 64"
    and "chooser_ok (lp_pick P)" "committee_ok (lp_order P) (ss_committee (build_server_settings mc c temp_dir))"
    and "chooser_ok (zp_pick Z)" "committee_ok (zp_order Z) (ss_committee (build_server_settings mc c temp_dir))"
  shows "\<exists>ls log. spawn_nodes (\<lambda>i k. leto_server_spawn P open_store i ids (fst k) (snd k)
        (build_server_settings mc c temp_dir) seed) keys (nodes_to_spawn c) [] = (Ok ls, log) \<and>
      length ls = st_num_nodes c - st_num_crash_faults c"
    and "\<exists>ls log. spawn_nodes (\<lambda>i k. zeus_server_spawn Z open_store i ids (fst k) (snd k)
        (build_server_settings mc c temp_dir) seed') keys (nodes_to_spawn c) [] = (Ok ls, log) \<and>
      length ls = st_num_nodes c - st_num_crash_faults c"
proof -
  have ns: "nodes_to_spawn c = [0..<st_num_nodes c - st_num_crash_faults c]"
  proof -
    have "st_num_nodes c + 2 ^ 64 - st_num_crash_faults c = (st_num_nodes c - st_num_crash_faults c) + 2 ^ 64"
      using assms(1) by simp
    moreover have "st_num_nodes c - st_num_crash_faults c < 2 ^ 64" using assms(2) by linarith
    ultimately show ?thesis by (simp only: nodes_to_spawn_def mod_add_self2 mod_less)
  qed
  have "\<forall>i \<in> set (nodes_to_spawn c). leto_ready P open_store (build_server_settings mc c temp_dir) i \<and> i < length keys"
    "\<forall>i \<in> set (nodes_to_spawn c). zeus_ready Z open_store (build_server_settings mc c temp_dir) i \<and> i < length keys"
    using assms(3-10) stress_timer_ok [OF assms(5,6), of mc temp_dir]
    by (auto simp: ns leto_ready_def zeus_ready_def committee_ready_def stress_addresses_ok)
  from leto_start.all_start [OF this(1), of ids seed "[]"] zeus_start.all_start [OF this(2), of ids seed' "[]"]
  show "\<exists>ls log. spawn_nodes (\<lambda>i k. leto_server_spawn P open_store i ids (fst k) (snd k)
        (build_server_settings mc c temp_dir) seed) keys (nodes_to_spawn c) [] = (Ok ls, log) \<and>
      length ls = st_num_nodes c - st_num_crash_faults c"
    and "\<exists>ls log. spawn_nodes (\<lambda>i k. zeus_server_spawn Z open_store i ids (fst k) (snd k)
        (build_server_settings mc c temp_dir) seed') keys (nodes_to_spawn c) [] = (Ok ls, log) \<and>
      length ls = st_num_nodes c - st_num_crash_faults c"
    by (auto simp: ns)
qed

end
