(* ===== verification/StressMain.thy ===== *)
theory StressMain
  imports Complex_Main ServerSpawn
begin

section \<open>The stress-test binaries\<close>

text \<open>
  \<^verbatim>\<open>main\<close> of the \<^verbatim>\<open>stress-test\<close> crate, for Leto (\<^verbatim>\<open>main.rs\<close>) and for Zeus (\<^verbatim>\<open>bin/zeus.rs\<close>), with the
  measured level of \<^verbatim>\<open>metrics.rs\<close>. Floating-point operations are the parameter \<open>rate_ops\<close>. What the
  collector sees during a level (the batches that arrive in the warm-up and in the measured window,
  and how long that was) is the observation of the level. Printing is left out.
\<close>

record 'f rate_ops =
  ro_of_nat :: "nat \<Rightarrow> 'f"
  ro_secs :: "nat \<Rightarrow> 'f"
  ro_div :: "'f \<Rightarrow> 'f \<Rightarrow> 'f"
  ro_max :: "'f \<Rightarrow> 'f \<Rightarrow> 'f"
  ro_le :: "'f \<Rightarrow> 'f \<Rightarrow> bool"
  ro_one :: 'f
  ro_nine_tenths :: 'f
  ro_half :: 'f
  ro_milli :: 'f

record 'f level_metrics =
  lm_target :: nat
  lm_tps :: 'f
  lm_bps :: 'f
  lm_batches :: nat
  lm_txs :: nat
  lm_bytes :: nat
  lm_secs :: 'f
  lm_status :: level_status

text \<open>\<open>started\<close> is the time since the last reset, if there was one.\<close>

definition snapshot :: "'f rate_ops \<Rightarrow> nat option \<Rightarrow> nat \<Rightarrow> metrics \<Rightarrow> 'f level_metrics" where
  "snapshot R started target m =
     (let elapsed = ro_max R (case started of None \<Rightarrow> ro_one R | Some ns \<Rightarrow> ro_secs R ns) (ro_milli R);
          actual_tps = ro_div R (ro_of_nat R (mt_txs m)) elapsed;
          actual_bps = ro_div R (ro_of_nat R (mt_bytes m)) elapsed;
          ratio = (if 0 < target then ro_div R actual_tps (ro_of_nat R target) else ro_one R);
          status = (if ro_le R (ro_nine_tenths R) ratio then LevelOk
                    else if ro_le R (ro_half R) ratio then Degraded else Saturated)
      in \<lparr>lm_target = target, lm_tps = actual_tps, lm_bps = actual_bps, lm_batches = mt_batches m,
          lm_txs = mt_txs m, lm_bytes = mt_bytes m, lm_secs = elapsed, lm_status = status\<rparr>)"

subsection \<open>One level\<close>

record level_obs =
  ob_warmup :: "simple_tx batch list"
  ob_measured :: "simple_tx batch list"
  ob_elapsed :: nat

definition measure_level ::
  "'f rate_ops \<Rightarrow> (simple_tx batch \<Rightarrow> nat option) \<Rightarrow> nat \<Rightarrow> level_obs \<Rightarrow> metrics \<Rightarrow> 'f level_metrics \<times> metrics" where
  "measure_level R sz rate ob m =
     (let m1 = reset_level (fold (count_batch sz) (ob_warmup ob) m);
          m2 = fold (count_batch sz) (ob_measured ob) m1
      in (snapshot R (Some (ob_elapsed ob)) rate m2, m2))"

text \<open>The loop over the levels; \<open>obs\<close> gives the observation of the level with this number.\<close>

fun stress_levels ::
  "'f rate_ops \<Rightarrow> (simple_tx batch \<Rightarrow> nat option) \<Rightarrow> (nat \<Rightarrow> simple_tx stressor list outcome) \<Rightarrow> (nat \<Rightarrow> level_obs) \<Rightarrow>
    nat \<Rightarrow> nat list \<Rightarrow> nat \<Rightarrow> metrics \<Rightarrow> 'f level_metrics list outcome" where
  "stress_levels R sz start obs idx [] consecutive m = Ok []"
| "stress_levels R sz start obs idx (rate # rates) consecutive m =
     bind_o (start rate) (\<lambda>driver.
     let (lm, m2) = measure_level R sz rate (obs idx) m;
         consecutive' = (if lm_status lm = Saturated then consecutive + 1 else 0)
     in if 2 \<le> consecutive' then Ok [lm]
        else bind_o (stress_levels R sz start obs (idx + 1) rates consecutive' m2) (\<lambda>lms. Ok (lm # lms)))"

subsection \<open>The binaries\<close>

definition leto_mode :: "stress_config \<Rightarrow> client_mode outcome" where
  "leto_mode c = Ok LetoBroadcast"

text \<open>\<^verbatim>\<open>1usize % config.num_nodes\<close>\<close>

definition zeus_mode :: "stress_config \<Rightarrow> client_mode outcome" where
  "zeus_mode c = (if st_num_nodes c = 0 then Panic else Ok (ZeusEleaderOnly (Some (1 mod st_num_nodes c))))"

text \<open>\<open>None\<close>: the list of levels has no end. Then the nodes, and the levels.\<close>

definition stress_main ::
  "'f rate_ops \<Rightarrow> (simple_tx batch \<Rightarrow> nat option) \<Rightarrow> (node_id set \<Rightarrow> node_id list) \<Rightarrow> 64 word \<Rightarrow>
    (stress_config \<Rightarrow> client_mode outcome) \<Rightarrow> (node_id \<Rightarrow> 'k \<Rightarrow> 'l boot) \<Rightarrow> 'k list outcome \<Rightarrow> (nat \<Rightarrow> level_obs) \<Rightarrow>
    stress_config \<Rightarrow> ('f level_metrics list outcome \<times> boot_action list) option" where
  "stress_main R sz order sid mode spawn keys obs c =
     (case load_levels c of
        None \<Rightarrow> None
      | Some rates \<Rightarrow> Some (
          bind_s (lift_o keys) (\<lambda>ks.
          bind_s (spawn_nodes spawn ks (nodes_to_spawn c)) (\<lambda>nodes.
          lift_o (stress_levels R sz (\<lambda>rate. bind_o (mode c) (\<lambda>md. start_load order c rate md sid))
            obs 0 rates 0 metrics_new))) []))"

text \<open>The report's peak: the last of the fastest levels.\<close>

fun peak_level :: "'f rate_ops \<Rightarrow> 'f level_metrics list \<Rightarrow> 'f level_metrics option" where
  "peak_level R [] = None"
| "peak_level R (x # xs) = (case peak_level R xs of
     None \<Rightarrow> Some x
   | Some y \<Rightarrow> Some (if ro_le R (lm_tps x) (lm_tps y) then y else x))"

subsection \<open>What is measured\<close>

lemma count_batches:
  "mt_batches (fold (count_batch sz) bs m) = mt_batches m + length bs"
  "mt_txs (fold (count_batch sz) bs m) = mt_txs m + sum_list (map length bs)"
  "mt_bytes (fold (count_batch sz) bs m) = mt_bytes m + sum_list (map (\<lambda>b. or_zero (sz b)) bs)"
  by (induction bs arbitrary: m) (simp_all add: count_batch_def)

lemma metrics_eqI: "mt_batches m = mt_batches n \<Longrightarrow> mt_txs m = mt_txs n \<Longrightarrow> mt_bytes m = mt_bytes n \<Longrightarrow> m = (n :: metrics)"
  by simp

text \<open>Neither the warm-up nor the levels before count.\<close>

lemma measure_level_fresh:
  "fst (measure_level R sz rate ob m) =
     snapshot R (Some (ob_elapsed ob)) rate (fold (count_batch sz) (ob_measured ob) metrics_new)"
proof -
  have "reset_level m = metrics_new" for m by (rule metrics_eqI) (simp_all add: reset_level_def metrics_new_def)
  then show ?thesis by (simp add: measure_level_def Let_def)
qed

definition level_result :: "'f rate_ops \<Rightarrow> (simple_tx batch \<Rightarrow> nat option) \<Rightarrow> (nat \<Rightarrow> level_obs) \<Rightarrow> nat \<Rightarrow> nat \<Rightarrow> 'f level_metrics" where
  "level_result R sz obs idx rate =
     snapshot R (Some (ob_elapsed (obs idx))) rate (fold (count_batch sz) (ob_measured (obs idx)) metrics_new)"

lemma snapshot_fields [simp]:
  "lm_target (snapshot R e rate m) = rate" "lm_txs (snapshot R e rate m) = mt_txs m"
  "lm_batches (snapshot R e rate m) = mt_batches m" "lm_bytes (snapshot R e rate m) = mt_bytes m"
  by (simp_all add: snapshot_def Let_def)

text \<open>The levels of the binary are those of \<open>run_levels\<close>, with each level's own verdict.\<close>

lemma stress_levels_run:
  assumes "\<forall>rate. \<exists>d. start rate = Ok d" "distinct rates"
    and "\<And>i. i < length rates \<Longrightarrow> verdict (rates ! i) = lm_status (level_result R sz obs (idx + i) (rates ! i))"
  shows "\<exists>lms. stress_levels R sz start obs idx rates consecutive m = Ok lms \<and>
    map (\<lambda>lm. (lm_target lm, lm_status lm)) lms = run_levels verdict consecutive rates \<and>
    (\<forall>i < length lms. lms ! i = level_result R sz obs (idx + i) (rates ! i))"
  using assms(2,3)
proof (induction rates arbitrary: idx consecutive m)
  case (Cons rate rates)
  let ?lm = "level_result R sz obs idx rate"
  let ?c = "if lm_status ?lm = Saturated then consecutive + 1 else 0"
  obtain d where d: "start rate = Ok d" using assms(1) by blast
  obtain m2 where lv: "measure_level R sz rate (obs idx) m = (?lm, m2)"
    using measure_level_fresh [of R sz rate "obs idx" m] by (metis level_result_def prod.collapse)
  have v0: "verdict rate = lm_status ?lm" using Cons.prems(2) [of 0] by simp
  have "\<exists>lms. stress_levels R sz start obs (idx + 1) rates ?c m2 = Ok lms \<and>
    map (\<lambda>lm. (lm_target lm, lm_status lm)) lms = run_levels verdict ?c rates \<and>
    (\<forall>i < length lms. lms ! i = level_result R sz obs (idx + 1 + i) (rates ! i))"
    by (rule Cons.IH) (use Cons.prems(1) Cons.prems(2) [of "Suc _"] in auto)
  then obtain lms where ih: "stress_levels R sz start obs (idx + 1) rates ?c m2 = Ok lms"
    "map (\<lambda>lm. (lm_target lm, lm_status lm)) lms = run_levels verdict ?c rates"
    "\<forall>i < length lms. lms ! i = level_result R sz obs (idx + 1 + i) (rates ! i)" by blast
  have t: "lm_target ?lm = rate" by (simp add: level_result_def)
  show ?case
  proof (cases "2 \<le> ?c")
    case True
    then have "stress_levels R sz start obs idx (rate # rates) consecutive m = Ok [?lm]"
      using d lv by (simp add: Let_def)
    then show ?thesis using True t v0 by (intro exI [of _ "[?lm]"]) (auto simp: Let_def)
  next
    case False
    then have "stress_levels R sz start obs idx (rate # rates) consecutive m = Ok (?lm # lms)"
      using d lv ih(1) by (simp add: Let_def)
    then show ?thesis using False t v0 ih(2,3) by (intro exI [of _ "?lm # lms"]) (auto simp: Let_def nth_Cons')
  qed
qed simp

section \<open>Properties\<close>

text \<open>With exact arithmetic a level is healthy when nine tenths of the offered transactions were
  committed in the measured window, and saturated below one half.\<close>

definition exact_rates :: "rat rate_ops" where
  "exact_rates = \<lparr>ro_of_nat = of_nat, ro_secs = (\<lambda>ns. of_nat ns / 1000000000), ro_div = (/), ro_max = max, ro_le = (\<le>),
     ro_one = 1, ro_nine_tenths = 9 / 10, ro_half = 1 / 2, ro_milli = 1 / 1000\<rparr>"

lemma ratio_iff:
  fixes x e t q :: rat
  assumes "0 < e" "0 < t"
  shows "q \<le> x / e / t \<longleftrightarrow> q * (t * e) \<le> x"
  using assms by (simp add: pos_le_divide_eq ac_simps)

theorem level_status_exact:
  assumes "0 < target" "1000000 \<le> ns"
  shows "lm_status (snapshot exact_rates (Some ns) target m) =
    (if 9 * target * ns \<le> 10 * (mt_txs m * 1000000000) then LevelOk
     else if target * ns \<le> 2 * (mt_txs m * 1000000000) then Degraded else Saturated)"
proof -
  let ?e = "rat_of_nat ns / 1000000000" and ?x = "rat_of_nat (mt_txs m)" and ?t = "rat_of_nat target"
  have e: "max ?e (1 / 1000) = ?e" using assms(2) by (simp add: max_def)
  have pos: "0 < ?e" "0 < ?t" using assms by simp_all
  have a: "9 / 10 \<le> ?x / ?e / ?t \<longleftrightarrow> 9 * target * ns \<le> 10 * (mt_txs m * 1000000000)"
  proof -
    have "9 / 10 \<le> ?x / ?e / ?t \<longleftrightarrow> rat_of_nat (9 * target * ns) \<le> rat_of_nat (10 * (mt_txs m * 1000000000))"
      unfolding ratio_iff [OF pos] by (simp add: field_simps)
    then show ?thesis by (simp only: of_nat_le_iff)
  qed
  have b: "1 / 2 \<le> ?x / ?e / ?t \<longleftrightarrow> target * ns \<le> 2 * (mt_txs m * 1000000000)"
  proof -
    have "1 / 2 \<le> ?x / ?e / ?t \<longleftrightarrow> rat_of_nat (target * ns) \<le> rat_of_nat (2 * (mt_txs m * 1000000000))"
      unfolding ratio_iff [OF pos] by (simp add: field_simps)
    then show ?thesis by (simp only: of_nat_le_iff)
  qed
  show ?thesis
    using assms(1) a b by (simp add: snapshot_def exact_rates_def Let_def e)
qed

text \<open>The Zeus binary tells its clients the leader of the epoch every replica starts in.\<close>

theorem zeus_mode_is_first_eleader:
  assumes "zeus_spawn P me sk sys peers conf delay emit_dp seed s ds = Ok z" "st_num_nodes c = num_nodes conf" "0 < st_num_nodes c"
  shows "zeus_mode c = Ok (ZeusEleaderOnly (Some (eleader (z_epoch z) (z_nodes z))))"
  using assms by (auto simp: zeus_mode_def zeus_spawn_def bind_o_Ok_iff eleader_def INITIAL_DATA_EPOCH_def)

end
