(* ===== verification/NodeMain.thy ===== *)
theory NodeMain
  imports ServerSpawn
begin

section \<open>The node binaries\<close>

text \<open>
  \<^verbatim>\<open>main\<close> of the three node binaries: \<^verbatim>\<open>node/src/main.rs\<close> (Leto), \<^verbatim>\<open>node/src/bin/zeus.rs\<close> and
  \<^verbatim>\<open>node/src/bin/hera.rs\<close>. Reading and writing files, and option parsing, are parameters; a server or a
  client waits for a signal, and \<open>alive\<close> says whether its task still listens for the end then.
\<close>

datatype sub_command =
    ServerCmd node_id string string
  | ClientCmd node_id string nat
  | KeysCmd nat key_type string
  | ConfigCmd create_config "string option"

record ('k, 'kc) node_files =
  nf_server_settings :: "string \<Rightarrow> server_settings outcome"
  nf_client_settings :: "string \<Rightarrow> client_settings outcome"
  nf_keys :: "string \<Rightarrow> 'k outcome"
  nf_write_key :: "string \<Rightarrow> 'kc \<Rightarrow> unit outcome"
  nf_write_settings :: "string \<Rightarrow> server_settings \<Rightarrow> client_settings \<Rightarrow> unit outcome"

text \<open>\<^verbatim>\<open>exit_tx.send(())\<close> after the signal.\<close>

definition wait_and_exit :: "bool \<Rightarrow> unit outcome" where
  "wait_and_exit alive = (if alive then Ok () else Err ChannelClosed)"

subsection \<open>The commands\<close>

definition server_cmd ::
  "('k, 'kc) node_files \<Rightarrow> (node_id set \<Rightarrow> node_id list) \<Rightarrow> (node_id \<Rightarrow> node_id list \<Rightarrow> 'k \<Rightarrow> server_settings \<Rightarrow> 'l boot) \<Rightarrow>
    bool \<Rightarrow> node_id \<Rightarrow> string \<Rightarrow> string \<Rightarrow> unit boot" where
  "server_cmd nf order spawn alive my_id config key_file =
     bind_s (lift_o (nf_server_settings nf config)) (\<lambda>ss.
     let all_ids = get_all_ids order (ss_committee ss) in
     bind_s (lift_o (nf_keys nf key_file)) (\<lambda>k.
     bind_s (spawn my_id all_ids k ss) (\<lambda>_. lift_o (wait_and_exit alive))))"

definition client_cmd ::
  "('k, 'kc) node_files \<Rightarrow> (node_id set \<Rightarrow> node_id list) \<Rightarrow> 64 word \<Rightarrow> bool \<Rightarrow> node_id \<Rightarrow> string \<Rightarrow> nat \<Rightarrow>
    simple_tx stressor outcome" where
  "client_cmd nf order sid alive my_id config rate =
     bind_o (nf_client_settings nf config) (\<lambda>cs.
     bind_o (stressor_start order my_id (override_rate rate cs) sid) (\<lambda>st.
     bind_o (wait_and_exit alive) (\<lambda>_. Ok st)))"

fun write_all :: "(string \<Rightarrow> 'kc \<Rightarrow> unit outcome) \<Rightarrow> (string \<times> 'kc) list \<Rightarrow> unit outcome" where
  "write_all w [] = Ok ()"
| "write_all w ((n, k) # fs) = bind_o (w n k) (\<lambda>_. write_all w fs)"

definition keys_cmd ::
  "('k, ('esk, 'epk, 'ssk, 'spk) key_config) node_files \<Rightarrow> ('esk, 'epk, 'ssk, 'spk) key_gen \<Rightarrow> nat \<Rightarrow> key_type \<Rightarrow> string \<Rightarrow>
    unit outcome" where
  "keys_cmd nf g n kt out =
     bind_o (create_keys g kt n) (\<lambda>files.
     write_all (\<lambda>name. nf_write_key nf (out @ ''/'' @ name)) files)"

definition config_cmd :: "('k, 'kc) node_files \<Rightarrow> create_config \<Rightarrow> string option \<Rightarrow> unit outcome" where
  "config_cmd nf c out =
     bind_o (create_settings c) (\<lambda>(ss, cs).
     case out of None \<Rightarrow> Ok () | Some dir \<Rightarrow> nf_write_settings nf dir ss cs)"

subsection \<open>The binaries\<close>

text \<open>\<open>spawn\<close> is the server of the binary.\<close>

definition leto_main where
  "leto_main nf g order spawn sid alive cmd =
     (case cmd of
        ServerCmd my_id config key_file \<Rightarrow> server_cmd nf order spawn alive my_id config key_file
      | ClientCmd my_id config rate \<Rightarrow> lift_o (bind_o (client_cmd nf order sid alive my_id config rate) (\<lambda>_. Ok ()))
      | KeysCmd n kt out \<Rightarrow> lift_o (keys_cmd nf g n kt out)
      | ConfigCmd c out \<Rightarrow> lift_o (config_cmd nf c out))"

definition zeus_main where
  "zeus_main nf g order spawn alive cmd =
     (case cmd of
        ServerCmd my_id config key_file \<Rightarrow> server_cmd nf order spawn alive my_id config key_file
      | ClientCmd my_id config rate \<Rightarrow> lift_o (Err ConfigError)
      | KeysCmd n kt out \<Rightarrow> lift_o (keys_cmd nf g n kt out)
      | ConfigCmd c out \<Rightarrow> lift_o (Ok ()))"

text \<open>Hera's server always has a factory; the rate is the environment's.\<close>

definition hera_main where
  "hera_main nf g order P open_store tps_var timer_var seed alive cmd =
     (case cmd of
        ServerCmd my_id config key_file \<Rightarrow>
          server_cmd nf order (\<lambda>i ids k ss. hera_server_spawn P open_store i ids (fst k) (snd k) ss tps_var timer_var True seed)
            alive my_id config key_file
      | ClientCmd my_id config rate \<Rightarrow> lift_o (Err ConfigError)
      | KeysCmd n kt out \<Rightarrow> lift_o (keys_cmd nf g n kt out)
      | ConfigCmd c out \<Rightarrow> lift_o (Ok ()))"

text \<open>The size of Hera's transactions, from the environment.\<close>

definition env_tx_size :: "string option \<Rightarrow> nat" where
  "env_tx_size v = (case v of None \<Rightarrow> 512 | Some s \<Rightarrow> (case str_to_id_parser s of Ok n \<Rightarrow> n | _ \<Rightarrow> 512))"

subsection \<open>Running a server command\<close>

text \<open>A server that starts makes its command succeed exactly when its task is still there at the end.\<close>

lemma server_cmd_starts:
  assumes "nf_server_settings nf config = Ok ss" "nf_keys nf key_file = Ok k"
    and "spawn i (get_all_ids order (ss_committee ss)) k ss log = (Ok l, log')"
  shows "server_cmd nf order spawn alive i config key_file log = (wait_and_exit alive, log')"
  using assms by (simp add: server_cmd_def Let_def bind_s_Ok)

lemma server_cmd_fails:
  "nf_server_settings nf config = Err e \<Longrightarrow> server_cmd nf order spawn alive i config key_file log = (Err e, log)"
  "nf_server_settings nf config = Ok ss \<Longrightarrow> nf_keys nf key_file = Err e \<Longrightarrow>
    server_cmd nf order spawn alive i config key_file log = (Err e, log)"
  by (simp_all add: server_cmd_def)

section \<open>Properties\<close>

text \<open>From the config command to a running deployment: whatever settings the command wrote, read
  back, let every node of a local deployment run each of the three servers to a regular end.\<close>

theorem configured_nodes_run:
  assumes "cc_local c" "\<forall>ip \<in> set (cc_ip c). parse_ipv4 ip \<noteq> None" "create_settings c = Ok (ss, cs)"
    and "nf_server_settings nf config = Ok ss" "nf_keys nf key_file = Ok k" "i < cc_servers c"
    and "\<forall>p. opens open_store p" "0 < cc_network_delay c" "4 * cc_network_delay c < 2 ^ 64"
  shows "chooser_ok (lp_pick P) \<Longrightarrow> committee_ok (lp_order P) (ss_committee ss) \<Longrightarrow>
      \<exists>log. leto_main nf g order (\<lambda>i ids k ss. leto_server_spawn P open_store i ids (fst k) (snd k) ss seed) sid True
        (ServerCmd i config key_file) [] = (Ok (), log)"
    and "chooser_ok (zp_pick Z) \<Longrightarrow> committee_ok (zp_order Z) (ss_committee ss) \<Longrightarrow>
      \<exists>log. zeus_main nf g order (\<lambda>i ids k ss. zeus_server_spawn Z open_store i ids (fst k) (snd k) ss seed') True
        (ServerCmd i config key_file) [] = (Ok (), log)"
    and "chooser_ok (hp_pick H) \<Longrightarrow> committee_ok (hp_order H) (ss_committee ss) \<Longrightarrow> env_timer timer_var \<noteq> Some 0 \<Longrightarrow>
      \<exists>log. hera_main nf g order H open_store tps_var timer_var seed'' True (ServerCmd i config key_file) [] = (Ok (), log)"
proof -
  note ad = local_addresses_ok [OF assms(1-3)]
  have i: "i < num_nodes (ss_committee ss)" using assms(6) ad(2) by simp
  obtain p where p: "get_party (ss_committee ss) i = Some p" using ad(1) i by (auto simp: addresses_ok_def)
  have t: "timer_ok ss" using assms(8,9) local_delay [OF assms(3)] by (simp add: timer_ok_def)
  note run = server_cmd_starts [where alive = True, OF assms(4,5)]
  show "\<exists>log. leto_main nf g order (\<lambda>i ids k ss. leto_server_spawn P open_store i ids (fst k) (snd k) ss seed) sid True
        (ServerCmd i config key_file) [] = (Ok (), log)"
    if a: "chooser_ok (lp_pick P)" "committee_ok (lp_order P) (ss_committee ss)"
  proof -
    have "leto_ready P open_store ss i" using a ad(1) i assms(7) t by (simp add: leto_ready_def committee_ready_def)
    from leto_start.starts [OF this, where ids = "get_all_ids order (ss_committee ss)" and seed = seed and k = k and log = "[]"] show ?thesis
      by (auto simp: leto_main_def wait_and_exit_def dest!: run)
  qed
  show "\<exists>log. zeus_main nf g order (\<lambda>i ids k ss. zeus_server_spawn Z open_store i ids (fst k) (snd k) ss seed') True
        (ServerCmd i config key_file) [] = (Ok (), log)"
    if a: "chooser_ok (zp_pick Z)" "committee_ok (zp_order Z) (ss_committee ss)"
  proof -
    have "zeus_ready Z open_store ss i" using a ad(1) i assms(7) t by (simp add: zeus_ready_def committee_ready_def)
    from zeus_start.starts [OF this, where ids = "get_all_ids order (ss_committee ss)" and seed = seed' and k = k and log = "[]"] show ?thesis
      by (auto simp: zeus_main_def wait_and_exit_def dest!: run)
  qed
  show "\<exists>log. hera_main nf g order H open_store tps_var timer_var seed'' True (ServerCmd i config key_file) [] = (Ok (), log)"
    if a: "chooser_ok (hp_pick H)" "committee_ok (hp_order H) (ss_committee ss)" "env_timer timer_var \<noteq> Some 0"
  proof -
    obtain s where "open_store (store_path (ss_storage_base ss) (chain_db_name (ss_storage_prefix ss) i)) = Ok s"
      using assms(7) by (auto simp: opens_def)
    from hera_boots [of ss i p H open_store s, OF ad(1) p i a(1,2) this t a(3)] obtain h log where
      "hera_server_spawn H open_store i (get_all_ids order (ss_committee ss)) (fst k) (snd k) ss tps_var timer_var True seed'' [] = (Ok h, log)"
      by blast
    then show ?thesis by (auto simp: hera_main_def wait_and_exit_def dest!: run)
  qed
qed

text \<open>The key files do not overwrite each other, whichever binary writes them.\<close>

theorem key_files_distinct:
  assumes "create_keys gen kt n = Ok files"
  shows "distinct (map (\<lambda>f. out @ ''/'' @ fst f) files)"
  using node_id_roundtrip(2) [of 0, OF _ assms] by (simp add: distinct_map inj_on_def)

end
