(* ===== verification/DpBridge.thy ===== *)
theory DpBridge
  imports Complex_Main Prelude
begin

section \<open>The metrics bridge\<close>

text \<open>
  \<^verbatim>\<open>scripts/bridges/mysticeti_dpbridge/src/main.rs\<close>: reading another system's counters and turning them
  into throughput and latency lines. Floating-point operations are the parameter \<open>float_ops\<close>; fetching
  and parsing the metrics page are libraries, so a poll is a list of samples or an error. A
  \<^verbatim>\<open>BTreeMap\<close> keyed by the bits of a bucket's bound is a map traversed in the order of the bits.
\<close>

record 'f float_ops =
  fl_zero :: 'f
  fl_thousand :: 'f
  fl_add :: "'f \<Rightarrow> 'f \<Rightarrow> 'f"
  fl_sub :: "'f \<Rightarrow> 'f \<Rightarrow> 'f"
  fl_mul :: "'f \<Rightarrow> 'f \<Rightarrow> 'f"
  fl_div :: "'f \<Rightarrow> 'f \<Rightarrow> 'f"
  fl_le :: "'f \<Rightarrow> 'f \<Rightarrow> bool"
  fl_secs :: "nat \<Rightarrow> 'f"
  fl_to_bits :: "'f \<Rightarrow> nat"
  fl_from_bits :: "nat \<Rightarrow> 'f"

datatype 'f sample_value = Counter 'f | Gauge 'f | Untyped 'f | Histogram "('f \<times> 'f) list" | Summary

record 'f sample =
  sm_metric :: string
  sm_labels :: "string \<rightharpoonup> string"
  sm_value :: "'f sample_value"

subsection \<open>Counters\<close>

definition ends_with :: "string \<Rightarrow> string \<Rightarrow> bool" where
  "ends_with suf s \<longleftrightarrow> length suf \<le> length s \<and> drop (length s - length suf) s = suf"

definition strip_suffix :: "string \<Rightarrow> string \<Rightarrow> string option" where
  "strip_suffix suf s = (if ends_with suf s then Some (take (length s - length suf) s) else None)"

text \<open>A sample with another \<^verbatim>\<open>workload\<close> is skipped; one without the label is not.\<close>

definition workload_differs :: "string option \<Rightarrow> 'f sample \<Rightarrow> bool" where
  "workload_differs w s =
     (case w of None \<Rightarrow> False
      | Some v \<Rightarrow> (case sm_labels s ''workload'' of None \<Rightarrow> False | Some u \<Rightarrow> u \<noteq> v))"

text \<open>What one sample adds to the counter \<open>name\<close>, if it counts.\<close>

definition counted :: "string \<Rightarrow> string option \<Rightarrow> 'f sample \<Rightarrow> 'f option" where
  "counted name w s =
     (let want = ends_with ''_count'' name;
          target = (case strip_suffix ''_count'' name of None \<Rightarrow> name | Some t \<Rightarrow> t);
          plain = (\<lambda>v. if want \<and> sm_metric s = name then Some v else None)
      in if workload_differs w s then None
         else (case sm_value s of
                 Counter v \<Rightarrow> plain v | Gauge v \<Rightarrow> plain v | Untyped v \<Rightarrow> plain v
               | Histogram hs \<Rightarrow> if \<not> want \<and> sm_metric s = target \<and> hs \<noteq> [] then Some (snd (last hs)) else None
               | Summary \<Rightarrow> None))"

fun counter_loop :: "'f float_ops \<Rightarrow> string \<Rightarrow> string option \<Rightarrow> 'f sample list \<Rightarrow> 'f \<Rightarrow> bool \<Rightarrow> 'f option" where
  "counter_loop F name w [] acc found = (if found then Some acc else None)"
| "counter_loop F name w (s # ss) acc found =
     (case counted name w s of
        None \<Rightarrow> counter_loop F name w ss acc found
      | Some v \<Rightarrow> counter_loop F name w ss (fl_add F acc v) True)"

definition find_counter :: "'f float_ops \<Rightarrow> 'f sample list \<Rightarrow> string \<Rightarrow> string option \<Rightarrow> 'f option" where
  "find_counter F samples name w = counter_loop F name w samples (fl_zero F) False"

subsection \<open>Throughput\<close>

text \<open>Times are nanoseconds; a difference of instants is never negative.\<close>

definition compute_throughput ::
  "'f float_ops \<Rightarrow> 'f sample list \<Rightarrow> string \<Rightarrow> string option \<Rightarrow> 'f option \<Rightarrow> nat option \<Rightarrow> nat \<Rightarrow> 'f option" where
  "compute_throughput F samples metric w prev_count prev_time now =
     (case find_counter F samples metric w of
        None \<Rightarrow> None
      | Some cur \<Rightarrow>
          (case (prev_count, prev_time) of
             (Some c, Some t) \<Rightarrow>
               (let delta = fl_sub F cur c; secs = fl_secs F (now - t) in
                if fl_le F secs (fl_zero F) then None else Some (fl_div F delta secs))
           | _ \<Rightarrow> None))"

subsection \<open>Latency\<close>

fun add_buckets :: "'f float_ops \<Rightarrow> ('f \<times> 'f) list \<Rightarrow> (nat \<rightharpoonup> 'f) \<Rightarrow> (nat \<rightharpoonup> 'f)" where
  "add_buckets F [] m = m"
| "add_buckets F ((le, n) # es) m =
     (let k = fl_to_bits F le; old = (case m k of None \<Rightarrow> fl_zero F | Some v \<Rightarrow> v) in
      add_buckets F es (m(k \<mapsto> fl_add F old n)))"

fun latency_loop ::
  "'f float_ops \<Rightarrow> string \<Rightarrow> string option \<Rightarrow> 'f sample list \<Rightarrow> (nat \<rightharpoonup> 'f) \<times> 'f \<times> bool \<Rightarrow> (nat \<rightharpoonup> 'f) \<times> 'f \<times> bool" where
  "latency_loop F metric w [] acc = acc"
| "latency_loop F metric w (s # ss) (m, total_n, found) =
     (if sm_metric s \<noteq> metric \<or> workload_differs w s then latency_loop F metric w ss (m, total_n, found)
      else (case sm_value s of
              Histogram es \<Rightarrow> latency_loop F metric w ss
                (add_buckets F es m, if es = [] then total_n else fl_add F total_n (snd (last es)), True)
            | _ \<Rightarrow> latency_loop F metric w ss (m, total_n, found)))"

definition extract_latency_ms :: "'f float_ops \<Rightarrow> 'f sample list \<Rightarrow> string \<Rightarrow> string option \<Rightarrow> 'f \<Rightarrow> 'f option" where
  "extract_latency_ms F samples metric w quantile =
     (case latency_loop F metric w samples (Map.empty, fl_zero F, False) of (m, total_n, found) \<Rightarrow>
        if \<not> found \<or> fl_le F total_n (fl_zero F) then None
        else (let target = fl_mul F quantile total_n; keys = sorted_list_of_set (dom m);
                  ms = (\<lambda>k. fl_mul F (fl_from_bits F k) (fl_thousand F)) in
              case find (\<lambda>k. fl_le F target (the (m k))) keys of
                Some k \<Rightarrow> Some (ms k)
              | None \<Rightarrow> (if keys = [] then None else Some (ms (last keys)))))"

subsection \<open>The loop\<close>

record bridge_args =
  ba_throughput_metric :: string
  ba_workload_label :: string
  ba_latency_metric :: string

datatype 'f dp_line = DpThroughput 'f | DpLatency 'f

record 'f bridge =
  br_prev_count :: "'f option"
  br_prev_time :: "nat option"
  br_lines :: "'f dp_line list"

definition bridge_new :: "'f bridge" where
  "bridge_new = \<lparr>br_prev_count = None, br_prev_time = None, br_lines = []\<rparr>"

text \<open>One turn of the loop: what the poll gave and when. An error is only printed.\<close>

definition bridge_step ::
  "'f float_ops \<Rightarrow> bridge_args \<Rightarrow> 'f \<Rightarrow> (error + 'f sample list) \<times> nat \<Rightarrow> 'f bridge \<Rightarrow> 'f bridge" where
  "bridge_step F args quantile ev b =
     (case ev of
        (Inl e, now) \<Rightarrow> b
      | (Inr scrape, now) \<Rightarrow>
          (let w = (if ba_workload_label args = [] then None else Some (ba_workload_label args));
               tp = (case compute_throughput F scrape (ba_throughput_metric args) w (br_prev_count b) (br_prev_time b) now of
                       None \<Rightarrow> [] | Some x \<Rightarrow> [DpThroughput x]);
               lat = (case extract_latency_ms F scrape (ba_latency_metric args) w quantile of
                       None \<Rightarrow> [] | Some x \<Rightarrow> [DpLatency x]);
               b1 = b\<lparr>br_lines := br_lines b @ tp @ lat\<rparr>
           in (case find_counter F scrape (ba_throughput_metric args) w of
                 None \<Rightarrow> b1
               | Some cur \<Rightarrow> b1\<lparr>br_prev_count := Some cur, br_prev_time := Some now\<rparr>)))"

fun bridge_run ::
  "'f float_ops \<Rightarrow> bridge_args \<Rightarrow> 'f \<Rightarrow> ((error + 'f sample list) \<times> nat) list \<Rightarrow> 'f bridge \<Rightarrow> 'f bridge" where
  "bridge_run F args q [] b = b"
| "bridge_run F args q (e # es) b = bridge_run F args q es (bridge_step F args q e b)"

subsection \<open>Reading a counter\<close>

lemma counter_loop_filter:
  "(\<And>s. s \<in> set ss \<Longrightarrow> \<not> keep s \<Longrightarrow> counted name w s = None) \<Longrightarrow>
    counter_loop F name w (filter keep ss) acc found = counter_loop F name w ss acc found"
  by (induction ss arbitrary: acc found) (auto split: option.splits)

lemma counter_loop_none:
  "(\<And>s. s \<in> set ss \<Longrightarrow> counted name w s = None) \<Longrightarrow> counter_loop F name w ss acc False = None"
  by (induction ss) auto

definition is_histogram :: "'f sample \<Rightarrow> bool" where
  "is_histogram s \<longleftrightarrow> (case sm_value s of Histogram hs \<Rightarrow> True | _ \<Rightarrow> False)"

lemma counted_by_kind:
  "ends_with ''_count'' name \<Longrightarrow> is_histogram s \<Longrightarrow> counted name w s = None"
  "\<not> ends_with ''_count'' name \<Longrightarrow> \<not> is_histogram s \<Longrightarrow> counted name w s = None"
  by (auto simp: counted_def is_histogram_def Let_def split: sample_value.splits)

text \<open>Of the two representations a histogram is given in, exactly one is counted.\<close>

lemma counter_reads_one_kind:
  "find_counter F samples name w =
     find_counter F (filter (\<lambda>s. is_histogram s \<longleftrightarrow> \<not> ends_with ''_count'' name) samples) name w"
  unfolding find_counter_def by (rule counter_loop_filter [symmetric]) (use counted_by_kind in blast)

text \<open>A plain counter or gauge under a name without the suffix is never found.\<close>

lemma plain_counter_not_found:
  assumes "\<not> ends_with ''_count'' name" "\<forall>s \<in> set samples. sm_metric s = name \<longrightarrow> \<not> is_histogram s"
  shows "find_counter F samples name w = None"
  unfolding find_counter_def
  by (rule counter_loop_none)
    (use assms in \<open>auto simp: counted_def is_histogram_def strip_suffix_def Let_def split: sample_value.splits\<close>)

text \<open>The cursor moves exactly with the polls that had the counter.\<close>

lemma bridge_step_cursor:
  "br_prev_count b = None \<longleftrightarrow> br_prev_time b = None \<Longrightarrow>
    br_prev_count (bridge_step F args q ev b) = None \<longleftrightarrow> br_prev_time (bridge_step F args q ev b) = None"
  by (auto simp: bridge_step_def Let_def split: prod.splits sum.splits option.splits)

subsection \<open>Exact arithmetic\<close>

definition exact_ops :: "(rat \<Rightarrow> nat) \<Rightarrow> (nat \<Rightarrow> rat) \<Rightarrow> rat float_ops" where
  "exact_ops enc dec =
     \<lparr>fl_zero = 0, fl_thousand = 1000, fl_add = (+), fl_sub = (-), fl_mul = (*), fl_div = (/), fl_le = (\<le>),
      fl_secs = (\<lambda>n. of_nat n / 1000000000), fl_to_bits = enc, fl_from_bits = dec\<rparr>"

lemma exact_sel [simp]:
  "fl_zero (exact_ops enc dec) = 0" "fl_thousand (exact_ops enc dec) = 1000" "fl_add (exact_ops enc dec) = (+)"
  "fl_sub (exact_ops enc dec) = (-)" "fl_mul (exact_ops enc dec) = (*)" "fl_div (exact_ops enc dec) = (/)"
  "fl_le (exact_ops enc dec) = (\<le>)" "fl_secs (exact_ops enc dec) n = of_nat n / 1000000000"
  "fl_to_bits (exact_ops enc dec) = enc" "fl_from_bits (exact_ops enc dec) = dec"
  by (simp_all add: exact_ops_def)

fun throughputs :: "'f dp_line list \<Rightarrow> 'f list" where
  "throughputs [] = []"
| "throughputs (DpThroughput x # ls) = x # throughputs ls"
| "throughputs (DpLatency x # ls) = throughputs ls"

lemma throughputs_append [simp]: "throughputs (xs @ ys) = throughputs xs @ throughputs ys"
  by (induction xs rule: throughputs.induct) auto

text \<open>Polls with the counter at value \<open>c\<close> and time \<open>t\<close> each, later and later.\<close>

definition workload_of :: "bridge_args \<Rightarrow> string option" where
  "workload_of args = (if ba_workload_label args = [] then None else Some (ba_workload_label args))"

fun polls_read :: "'f float_ops \<Rightarrow> bridge_args \<Rightarrow> nat \<Rightarrow> ((error + 'f sample list) \<times> nat) list \<Rightarrow> ('f \<times> nat) list \<Rightarrow> bool" where
  "polls_read F args t [] [] = True"
| "polls_read F args t ((Inr ss, now) # es) ((c, now') # cs) \<longleftrightarrow>
     now' = now \<and> t < now \<and> find_counter F ss (ba_throughput_metric args) (workload_of args) = Some c \<and>
     polls_read F args now es cs"
| "polls_read F args t ((Inl e, now) # es) cs = polls_read F args t es cs"
| "polls_read F args t _ _ = False"

text \<open>The transactions the printed rates stand for.\<close>

fun accounted :: "nat \<Rightarrow> rat list \<Rightarrow> (rat \<times> nat) list \<Rightarrow> rat" where
  "accounted t (x # xs) ((c, now) # cs) = x * (of_nat (now - t) / 1000000000) + accounted now xs cs"
| "accounted t _ _ = 0"

lemma bridge_step_read:
  assumes "find_counter (exact_ops enc dec) ss (ba_throughput_metric args) (workload_of args) = Some c"
    and "br_prev_count b = Some c0" "br_prev_time b = Some t" "t < now"
  shows "br_prev_count (bridge_step (exact_ops enc dec) args q (Inr ss, now) b) = Some c"
    "br_prev_time (bridge_step (exact_ops enc dec) args q (Inr ss, now) b) = Some now"
    "throughputs (br_lines (bridge_step (exact_ops enc dec) args q (Inr ss, now) b)) =
       throughputs (br_lines b) @ [(c - c0) / (of_nat (now - t) / 1000000000)]"
  using assms by (simp_all add: bridge_step_def compute_throughput_def workload_of_def Let_def split: option.splits)

lemma throughput_run:
  assumes "polls_read (exact_ops enc dec) args t es cs" "br_prev_count b = Some c0" "br_prev_time b = Some t"
  shows "\<exists>xs. throughputs (br_lines (bridge_run (exact_ops enc dec) args q es b)) = throughputs (br_lines b) @ xs \<and>
    length xs = length cs \<and> accounted t xs cs = last (c0 # map fst cs) - c0"
  using assms
proof (induction "exact_ops enc dec" args t es cs arbitrary: b c0 rule: polls_read.induct)
  case (2 args t ss now es c now' cs)
  let ?b = "bridge_step (exact_ops enc dec) args q (Inr ss, now) b"
  from 2(2) have r: "now' = now" "t < now" "find_counter (exact_ops enc dec) ss (ba_throughput_metric args) (workload_of args) = Some c"
    "polls_read (exact_ops enc dec) args now es cs" by simp_all
  note st = bridge_step_read [OF r(3) 2(3,4) r(2), of q]
  from 2(1) [OF r(4) st(1,2)] obtain xs where xs:
    "throughputs (br_lines (bridge_run (exact_ops enc dec) args q es ?b)) = throughputs (br_lines ?b) @ xs"
    "length xs = length cs" "accounted now xs cs = last (c # map fst cs) - c" by blast
  have canc: "x / d * d = x" if "d \<noteq> 0" for x d :: rat using that by simp
  have "rat_of_nat (now - t) / 1000000000 \<noteq> 0" using r(2) by simp
  from canc [OF this] have "accounted t ((c - c0) / (of_nat (now - t) / 1000000000) # xs) ((c, now') # cs) =
      c - c0 + accounted now xs cs"
    by (simp only: accounted.simps r(1))
  with xs r(1) have "accounted t ((c - c0) / (of_nat (now - t) / 1000000000) # xs) ((c, now') # cs) =
      last (c0 # map fst ((c, now') # cs)) - c0" by simp
  moreover have "throughputs (br_lines (bridge_run (exact_ops enc dec) args q ((Inr ss, now) # es) b)) =
      throughputs (br_lines b) @ (c - c0) / (of_nat (now - t) / 1000000000) # xs"
    using xs(1) st(3) by (simp only: bridge_run.simps append_assoc append.simps)
  ultimately show ?case using xs(2) by (metis length_Cons)
next
  case (3 args t e now es cs)
  then show ?case by (simp add: bridge_step_def)
qed simp_all

subsection \<open>Buckets\<close>

definition other_sample :: "string \<Rightarrow> string option \<Rightarrow> 'f sample \<Rightarrow> bool" where
  "other_sample metric w s \<longleftrightarrow> sm_metric s \<noteq> metric \<or> workload_differs w s \<or> \<not> is_histogram s"

lemma latency_loop_others:
  "\<forall>s \<in> set ss. other_sample metric w s \<Longrightarrow> latency_loop F metric w ss acc = acc"
proof (induction F metric w ss acc rule: latency_loop.induct)
  case (2 F metric w s ss m n found)
  then show ?case by (auto simp: other_sample_def is_histogram_def split: sample_value.splits)
qed simp

lemma latency_loop_append:
  "latency_loop F metric w (xs @ ys) acc = latency_loop F metric w ys (latency_loop F metric w xs acc)"
  by (induction F metric w xs acc rule: latency_loop.induct) (auto split: sample_value.splits)

lemma add_buckets_distinct:
  "distinct (map (\<lambda>e. enc (fst e)) es) \<Longrightarrow> \<forall>e \<in> set es. m (enc (fst e)) = None \<Longrightarrow>
    add_buckets (exact_ops enc dec) es m = m ++ map_of (map (\<lambda>e. (enc (fst e), snd e)) es)"
proof (induction es arbitrary: m)
  case (Cons e es)
  obtain le n where e: "e = (le, n)" by (cases e)
  have "add_buckets (exact_ops enc dec) es (m(enc le \<mapsto> n)) =
      m(enc le \<mapsto> n) ++ map_of (map (\<lambda>e. (enc (fst e), snd e)) es)"
    using Cons.prems e by (intro Cons.IH) (simp, force)
  moreover have "map_of (map (\<lambda>e. (enc (fst e), snd e)) es) (enc le) = None"
    using Cons.prems(1) e by (auto simp: map_of_eq_None_iff image_iff)
  ultimately show ?case using Cons.prems(2) by (auto simp: e fun_eq_iff map_add_def split: option.splits)
qed simp

lemma find_map: "find P (map f xs) = map_option f (find (\<lambda>x. P (f x)) xs)"
  by (induction xs) auto

lemma find_cong_in: "(\<And>x. x \<in> set xs \<Longrightarrow> P x = Q x) \<Longrightarrow> find P xs = find Q xs"
  by (induction xs) auto

lemma find_last: "xs \<noteq> [] \<Longrightarrow> P (last xs) \<Longrightarrow> \<exists>x. find P xs = Some x"
  by (induction xs) (auto split: if_splits)

section \<open>Properties\<close>

text \<open>In exact arithmetic the printed rates account for every transaction: from the first reading on,
  the rates times the intervals they stand for add up to what the counter has grown, whatever polls
  failed in between.\<close>

theorem rates_account_for_all:
  assumes "find_counter (exact_ops enc dec) ss (ba_throughput_metric args) (workload_of args) = Some c0"
    and "polls_read (exact_ops enc dec) args t es cs"
  shows "\<exists>xs. throughputs (br_lines (bridge_run (exact_ops enc dec) args q ((Inr ss, t) # es) bridge_new)) = xs \<and>
    length xs = length cs \<and> accounted t xs cs = last (c0 # map fst cs) - c0"
proof -
  let ?b = "bridge_step (exact_ops enc dec) args q (Inr ss, t) bridge_new"
  have "br_prev_count ?b = Some c0" "br_prev_time ?b = Some t" "throughputs (br_lines ?b) = []"
    using assms(1) by (simp_all add: bridge_step_def compute_throughput_def workload_of_def bridge_new_def Let_def split: option.splits)
  with throughput_run [OF assms(2) this(1,2), of q] show ?thesis by simp
qed

text \<open>With one matching histogram whose bounds are encoded in order, the printed latency is the bound
  of the first bucket that holds the quantile: the way through the map loses nothing, and the fallback
  is not taken.\<close>

theorem latency_is_quantile_bucket:
  assumes "samples = pre @ s # post" "\<forall>x \<in> set pre \<union> set post. other_sample metric w x"
    and "\<not> other_sample metric w s" "sm_value s = Histogram es"
    and "es \<noteq> []" "sorted_wrt (<) (map (\<lambda>e. enc (fst e)) es)" "\<forall>e \<in> set es. dec (enc (fst e)) = fst e"
    and "0 < snd (last es)" "q \<le> 1"
  shows "\<exists>e. find (\<lambda>e. q * snd (last es) \<le> snd e) es = Some e \<and>
    extract_latency_ms (exact_ops enc dec) samples metric w q = Some (fst e * 1000)"
proof -
  let ?F = "exact_ops enc dec" and ?key = "\<lambda>e. enc (fst e)"
  let ?m = "map_of (map (\<lambda>e. (?key e, snd e)) es)"
  have d: "distinct (map ?key es)" using assms(6) strict_sorted_iff by blast
  have loop: "latency_loop ?F metric w samples (Map.empty, 0, False) = (?m, snd (last es), True)"
    using assms(2,3,4,5) add_buckets_distinct [OF d, of Map.empty dec]
    by (simp add: assms(1) latency_loop_append latency_loop_others other_sample_def is_histogram_def)
  have dom: "dom ?m = set (map ?key es)" by (simp add: dom_map_of_conv_image_fst image_image)
  have keys: "sorted_list_of_set (dom ?m) = map ?key es"
    unfolding dom using assms(6) by (intro sorted_list_of_set.idem_if_sorted_distinct) (simp_all only: strict_sorted_iff)
  have val: "?m (?key e) = Some (snd e)" if "e \<in> set es" for e
    using d that by (intro map_of_is_SomeI) (auto simp: comp_def)
  have "q * snd (last es) \<le> snd (last es)" using assms(8,9) by (simp add: mult_left_le_one_le mult_le_cancel_right1)
  then obtain e where e: "find (\<lambda>e. q * snd (last es) \<le> snd e) es = Some e"
    using find_last [of es "\<lambda>e. q * snd (last es) \<le> snd e"] assms(5) by blast
  then have mem: "e \<in> set es" by (metis find_Some_iff nth_mem)
  have "find (\<lambda>k. q * snd (last es) \<le> the (?m k)) (map ?key es) =
      map_option ?key (find (\<lambda>e. q * snd (last es) \<le> snd e) es)"
    unfolding find_map by (intro arg_cong [where f = "map_option ?key"] find_cong_in) (simp add: val)
  then show ?thesis
    using e mem assms(7,8) by (simp add: extract_latency_ms_def loop Let_def keys)
qed

end
