(* ===== verification/Spec2Isabelle.thy ===== *)
theory Spec2Isabelle
  imports ZeusProperties HeraProperties HeraNet HeraLoadGen StressMain NodeMain DpBridge
begin

text \<open>
  A verification development for \<^verbatim>\<open>leto-rs\<close>: a library of replicated-state-machine protocols in
  Rust (crate \<^verbatim>\<open>consensus\<close>, under \<^verbatim>\<open>src/consensus/src\<close>; paths below are relative to it).

  \<^bold>\<open>The program.\<close> A node runs one consensus replica and a set of tasks around it. A mempool task
  feeds client transactions to the \<^emph>\<open>batcher\<close>, which makes one batch per round while this node is
  the leader. The \<^emph>\<open>Leto replica\<close> turns the batch into a proposal, accepts proposals of other
  leaders, blames silent leaders, and moves from round to round. Every change of the chain's end
  goes to the \<^emph>\<open>commit\<close> task, which commits once a quorum of different proposers extend an
  element, and reports back to the batcher's transaction pool. A \<^emph>\<open>synchronizer\<close> fetches missing
  parents and batches. The tasks share one store and talk over channels.

  \<^emph>\<open>Zeus\<close> separates data from ordering. The leader of an epoch (the \<^emph>\<open>eleader\<close>) signs a chain of
  data blocks; a chain of rounds with rotating leaders orders \<^emph>\<open>attestations\<close>, each of which pins
  a data block, and commits them by Leto's rule. A committed attestation commits the data chain up
  to its block. Blocks that arrive before their parent are parked; silent or equivocating
  eleaders are blamed, and more than \<open>f\<close> blames make a certificate that starts the next epoch.

  \<^emph>\<open>Hera\<close> lets every node lead a chain of data blocks of its own, in parallel. A chain of rounds
  orders \<^emph>\<open>multi-attestations\<close>: the heads of all chains that have grown, and the authors blamed for
  having sent nothing. A committed attestation commits every named chain up to its head. The two
  planes, bulk data and signatures, share one biased loop that serves signatures first.

  \<^emph>\<open>Around the replicas.\<close> Clients send batches to a listener, which hands the transactions to the
  batcher and registers who sent them; committed batches come back through a router that confirms
  each transaction to its client. Hera has no clients: its nodes generate load themselves, and its
  connections shed load instead of blocking. A stress client keeps a bounded number of transactions
  outstanding; the stress test runs such clients level by level.

  \<^bold>\<open>The theories.\<close>
  \<^item> \<^verbatim>\<open>Prelude\<close>: identifiers, rounds, digests as 256-bit words, the outcome type (value, error or
    panic) with its sequencing, hash-map helpers, and the locale \<open>step_machine\<close> for
    components whose operations keep an invariant.
  \<^item> \<^verbatim>\<open>Types\<close> (\<^verbatim>\<open>types/\<close>): signatures, certificates, blocks, proposals, chain elements, messages.
  \<^item> \<^verbatim>\<open>Settings\<close> (\<^verbatim>\<open>server/settings.rs\<close>, \<^verbatim>\<open>lib.rs\<close>): committee, quorum sizes, peer tables,
    address parsing, garbage-collection depth.
  \<^item> \<^verbatim>\<open>Leader\<close> (\<^verbatim>\<open>server/leto/leader_context.rs\<close>): leader election over a window of recent leaders.
  \<^item> \<^verbatim>\<open>ChainState\<close> (\<^verbatim>\<open>server/chain_db.rs\<close>, \<^verbatim>\<open>server/leto/chain_state\<close>): the content-addressed store
    and the highest element of the chain.
  \<^item> \<^verbatim>\<open>RoundBuffer\<close>: the contract of a buffer for future rounds, as the locales \<open>round_buffer\<close> and
    \<open>purging_round_buffer\<close>; \<^verbatim>\<open>RoundContext\<close> (\<^verbatim>\<open>server/leto/round_context.rs\<close>) is the replica's buffer,
    blame map, timers and cancel handlers, and interprets both.
  \<^item> \<^verbatim>\<open>OrderedMap\<close> and \<^verbatim>\<open>LinkedMap\<close>: the documented behaviour of the two library containers the code
    uses (an ordered map, a linked hash map) as laws over a record of operations, with list
    instances that satisfy them.
  \<^item> \<^verbatim>\<open>Txpool\<close> (\<^verbatim>\<open>server/tx_pool.rs\<close>) and \<^verbatim>\<open>Batcher\<close> (\<^verbatim>\<open>server/rr_batcher.rs\<close>): admission by nonce,
    batches, rollback and commit, and the batcher's \<^verbatim>\<open>select!\<close> loop one event at a time.
  \<^item> \<^verbatim>\<open>Commit\<close> (\<^verbatim>\<open>server/leto/phases/commit.rs\<close>): the walk to the queue, chain switches, the commit
    loop.
  \<^item> \<^verbatim>\<open>Synchronizer\<close> (\<^verbatim>\<open>server/leto/synchronizer\<close>, \<^verbatim>\<open>server/leto/helper.rs\<close>): requests, responses and
    the tasks that wait for the store, as a step relation.
  \<^item> \<^verbatim>\<open>Leto\<close> (\<^verbatim>\<open>server/leto/core.rs\<close>, \<^verbatim>\<open>server/leto/phases\<close>): spawn, every handler and one turn of the
    loop; \<^verbatim>\<open>LetoSafety\<close> proves its invariant, \<^verbatim>\<open>LetoProperties\<close> its properties.
  \<^item> \<^verbatim>\<open>Instances\<close>, \<^verbatim>\<open>ZeusInstances\<close>: a concrete choice of every parameter, on which the witnesses are
    evaluated.
  \<^item> \<^verbatim>\<open>ZeusTypes\<close> (\<^verbatim>\<open>types/zeus.rs\<close>, \<^verbatim>\<open>types/zeus_msg.rs\<close>): data blocks, attestations, blames, messages.
  \<^item> \<^verbatim>\<open>ZeusDB\<close> (\<^verbatim>\<open>server/zeus/chain_state/db.rs\<close>): the block store, its index, bounded cache and
    write-back; it refines a map for every block that was not emitted yet.
  \<^item> \<^verbatim>\<open>ZeusChain\<close> (\<^verbatim>\<open>server/zeus/chain_state/data_chain.rs\<close>): the epoch gate, the check against the
    committed prefix (equal to ancestry), the validity of blames and of certificates.
  \<^item> \<^verbatim>\<open>ZeusRound\<close> (\<^verbatim>\<open>ZeusRoundState\<close> in \<^verbatim>\<open>server/zeus/core.rs\<close>), another \<open>round_buffer\<close>; \<^verbatim>\<open>ZeusCommit\<close>
    (\<^verbatim>\<open>server/zeus/phases/commit.rs\<close>), the commit task, shown to follow Leto's, and the committer.
  \<^item> \<^verbatim>\<open>Zeus\<close> (\<^verbatim>\<open>server/zeus/core.rs\<close>, \<^verbatim>\<open>server/zeus/phases\<close>): spawn, every handler of both planes, and
    one turn of the loop. Its channels, and the messages it sends, are logs in the state.
  \<^item> \<^verbatim>\<open>ZeusSafety\<close>: what each handler leaves alone, and the invariant of blames and certificates.
    \<^verbatim>\<open>ZeusAdmission\<close>: the locale \<open>admission\<close> (what the elementary operations must keep for a property
    to hold through the mutually recursive admission), interpreted for the frames and for the
    links between blocks, and the proof that admission returns. \<^verbatim>\<open>ZeusRun\<close>: the invariant through
    every event, runs that interleave the loop with the writer and the committer.
    \<^verbatim>\<open>ZeusProperties\<close>: its properties.
  \<^item> \<^verbatim>\<open>Loops\<close>: \<open>run_loop\<close>, the meaning of a \<^verbatim>\<open>loop\<close> with breaks as a partial function of its body,
    with rules for partial and total correctness and for simulation.
  \<^item> \<^verbatim>\<open>HeraTypes\<close> (\<^verbatim>\<open>types/hera.rs\<close>, \<^verbatim>\<open>types/hera_msg.rs\<close>); \<^verbatim>\<open>HeraChain\<close>
    (\<^verbatim>\<open>server/hera/chain_state/multi_data_chain.rs\<close>): the chains of all authors in one store;
    \<^verbatim>\<open>HeraRound\<close> (\<^verbatim>\<open>HeraRoundState\<close> in \<^verbatim>\<open>server/hera/core.rs\<close>), a third \<open>round_buffer\<close>; \<^verbatim>\<open>HeraCommit\<close>
    (\<^verbatim>\<open>server/hera/phases/commit.rs\<close>), the commit task, shown to follow Leto's.
  \<^item> \<^verbatim>\<open>HeraAdmission\<close>: the typing of the chains, the locale \<open>chain_admission\<close> (what storing, parking
    and moving a head must keep for a property to hold through an admission), interpreted for the
    typing, the signatures and the committed heights, and the proof that admission ends.
    \<^verbatim>\<open>HeraDelivery\<close>: the chain of a correct author under any order of deliveries.
  \<^item> \<^verbatim>\<open>Hera\<close> (\<^verbatim>\<open>server/hera/core.rs\<close>, \<^verbatim>\<open>server/hera/phases\<close>): spawn, every handler, one event, and one
    turn of the biased loop with what waits at its branches. \<^verbatim>\<open>HeraSafety\<close>: what the handlers of
    the signature plane keep; \<^verbatim>\<open>HeraEvents\<close>: what one event does to the data, and the history of
    commits; \<^verbatim>\<open>HeraRun\<close>: the invariant and runs. \<^verbatim>\<open>HeraInstances\<close>: a concrete committee;
    \<^verbatim>\<open>HeraProperties\<close>: its properties.
  \<^item> \<^verbatim>\<open>WireInts\<close>: integers as bytes in both orders. \<^verbatim>\<open>HeraNet\<close> (\<^verbatim>\<open>server/hera/net\<close>): frames and pings on
    a byte stream, what a reader makes of any part of what a writer sent, the round-trip time, the
    handshake and the workers, and the facade with its bounded queues.
  \<^item> \<^verbatim>\<open>ServerClients\<close> (\<^verbatim>\<open>server/core.rs\<close>, \<^verbatim>\<open>server/zeus/server.rs\<close>, \<^verbatim>\<open>server/consensus_handler.rs\<close>): the
    confirmation router of both servers, through the locale \<open>confirming\<close> shown equal to one cell per
    hash; the listeners; Zeus's bounded ingress as a step relation.
  \<^item> \<^verbatim>\<open>SimpleTx\<close> (\<^verbatim>\<open>node/src/smr\<close>): the transaction of all binaries, with the layout of \<^verbatim>\<open>bincode\<close> as a
    named hypothesis. \<^verbatim>\<open>HeraLoadGen\<close> (\<^verbatim>\<open>server/hera/load_gen.rs\<close>): Hera's generator.
  \<^item> \<^verbatim>\<open>Stressor\<close> (\<^verbatim>\<open>client/\<close>): the stress client, one turn of its loop, and how much it can have
    outstanding. \<^verbatim>\<open>StressTest\<close> (\<^verbatim>\<open>stress-test/src\<close>): levels, settings, drivers, and what the pools of
    the replicas make of the clients of a second level.
  \<^item> \<^verbatim>\<open>Keys\<close> (\<^verbatim>\<open>keys.rs\<close>): key configurations, their raw form, generation. \<^verbatim>\<open>NodeCli\<close>
    (\<^verbatim>\<open>node/src/cli.rs\<close>, \<^verbatim>\<open>node/src/main.rs\<close>): identities, key files, the settings of a deployment.
  \<^item> \<^verbatim>\<open>StorePaths\<close>: the files of a node's stores, over the standard library's paths. \<^verbatim>\<open>ServerSpawn\<close>
    (\<^verbatim>\<open>spawn\<close> in \<^verbatim>\<open>server/core.rs\<close>, \<^verbatim>\<open>server/zeus/server.rs\<close>, \<^verbatim>\<open>server/hera/server.rs\<close>, and the harnesses
    in \<^verbatim>\<open>stress-test/src\<close>): a start as a log of what it opens, binds and runs; the locale \<open>startable\<close>
    is what a harness needs of a server; from the settings of a deployment to running servers.
  \<^item> \<^verbatim>\<open>StressMain\<close> (\<^verbatim>\<open>stress-test/src/main.rs\<close>, \<^verbatim>\<open>bin/zeus.rs\<close>, \<^verbatim>\<open>metrics.rs\<close>): the binaries of the stress
    test and what a level measures. \<^verbatim>\<open>NodeMain\<close> (\<^verbatim>\<open>node/src/main.rs\<close>, \<^verbatim>\<open>bin/zeus.rs\<close>, \<^verbatim>\<open>bin/hera.rs\<close>): the
    commands of the node binaries, from written settings to a running deployment.
  \<^item> \<^verbatim>\<open>DpBridge\<close> (\<^verbatim>\<open>scripts/bridges/mysticeti_dpbridge\<close>): another system's counters as throughput and
    latency lines, over a record of floating-point operations; in exact arithmetic the rates account
    for every transaction.

  \<^bold>\<open>Parameters.\<close> Code outside the repository is an argument of the definitions: hashing, signing and
  serialisation (\<open>crypto\<close>, \<open>codec\<close>), the key-value store (\<open>storage\<close>), the random choice of a
  leader (\<open>chooser\<close>), the order in which a hash map is traversed, the handles the network
  returns, and whether the build checks debug assertions. What the properties need of them is named: \<open>env_ok\<close> (a written value reads back, decoding
  inverts encoding), \<open>chooser_ok\<close> (an element of the set is chosen), and, for Zeus and Hera, \<open>ranked\<close> and
  \<open>hera_ranked\<close> (hash links do not run in circles) and \<open>collision_free\<close> (among the blocks of a run
  the hash determines the envelope).

  \<^bold>\<open>Loops.\<close> The code has no fuel and neither has the model: a loop bounded by its data is a
  \<open>fun\<close> with a measure, and a loop that follows hash links (the commit walks, the walk to a pinned
  block, the admission of blocks, the head's walk) is a partial function whose value \<open>None\<close> says
  that it does not return. That they return is proved from the links, in \<open>end_round_returns\<close>,
  \<open>zeus_never_hangs\<close> and \<open>hera_never_hangs\<close>.

  \<^bold>\<open>Not modelled.\<close> The networking, storage and mempool crates, of which the start of a server shows
  only that they are opened; reading settings from a file (\<^verbatim>\<open>Settings::new\<close>, which is the \<^verbatim>\<open>config\<close>
  crate's) and option parsing; logging and printing; and deployment scripts. Floating-point
  operations are parameters. Times are events: a timer is armed or not, and its expiry is an event; where the
  code compares instants (the stress client, the pings) the event carries the time.
\<close>

end
